(* ===== verification/Prelude.thy ===== *)
theory Prelude imports Main "HOL-Library.List_Lexorder" "HOL-Library.Char_ord" "HOL-Library.Word"
  "HOL-Library.Code_Target_Numeral"
begin

text \<open>
  What every component shares: the C++ exceptions as values, results that are
  either an exception or a value, state-changing operations that may stop half
  way, \<open>std::map\<close> as a strictly sorted association list (iteration order is the
  order of the keys) and the interface of such a map as a locale, interpreted on
  that list.
\<close>

section \<open>Exceptions and results\<close>

text \<open>
  One constructor per exception class the modelled code throws or lets through.
  A message is the first message of the exception, with its arguments in place.
  \<open>RuntimeError\<close>, \<open>LogicError\<close> and \<open>LibraryException\<close> are not
  \<open>fawkes::Exception\<close>s: a handler for that class does not catch them.
  \<open>UndefinedBehaviour\<close> is no exception of the code: it marks the inputs on which
  C++ gives the code no meaning, and no property has it as a good outcome.
\<close>

datatype exn =
    FawkesException string
  | ConfigEntryNotFoundException string
  | CouldNotOpenConfigException string
  | NotImplementedException string
  | OutOfBoundsException string int int int
  | NullPointerException string
  | IllegalArgumentException string
  | UnknownArgumentException
  | MissingArgumentException
  | ThreadListSealedException string
  | ThreadListNotSealedException string
  | CannotInitializeThreadException
  | CannotFinalizeThreadException
  | PluginLoadException string string
  | RuntimeError string
  | LogicError string
  | LibraryException string
  | UndefinedBehaviour string

type_synonym 'a result = "exn + 'a"

fun is_fawkes :: "exn \<Rightarrow> bool" where
  "is_fawkes (RuntimeError _) = False"
| "is_fawkes (LogicError _) = False"
| "is_fawkes (LibraryException _) = False"
| "is_fawkes (UndefinedBehaviour _) = False"
| "is_fawkes _ = True"

text \<open>
  An operation that changes a state and may throw after part of the change: the
  state it leaves and the exception it leaves by, if any.
\<close>

type_synonym 's mutation = "'s \<times> exn option"

definition ok :: "'s \<Rightarrow> 's mutation" where
  "ok s = (s, None)"

definition throwing :: "exn \<Rightarrow> 's \<Rightarrow> 's mutation" where
  "throwing e s = (s, Some e)"

definition andThen :: "'s mutation \<Rightarrow> ('s \<Rightarrow> 's mutation) \<Rightarrow> 's mutation" where
  "andThen r f = (case r of (s, None) \<Rightarrow> f s | (s, Some e) \<Rightarrow> (s, Some e))"

lemma ok_sel [simp]: "fst (ok s) = s" "snd (ok s) = None"
  by (simp_all add: ok_def)

lemma throwing_sel [simp]: "fst (throwing e s) = s" "snd (throwing e s) = Some e"
  by (simp_all add: throwing_def)

lemma andThen_ok [simp]: "andThen (ok s) f = f s"
  by (simp add: andThen_def ok_def)

lemma andThen_throwing [simp]: "andThen (throwing e s) f = throwing e s"
  by (simp add: andThen_def throwing_def)

lemma ok_inject [simp]: "ok a = ok b \<longleftrightarrow> a = b" "ok a \<noteq> throwing e b" "throwing e b \<noteq> ok a"
  by (simp_all add: ok_def throwing_def)

lemma andThen_None: "snd (andThen r f) = None \<longleftrightarrow> snd r = None \<and> snd (f (fst r)) = None"
  by (auto simp: andThen_def split: prod.splits option.splits)

lemma andThen_fst: "snd r = None \<Longrightarrow> andThen r f = f (fst r)"
  by (cases r) (simp add: andThen_def)

lemma andThen_inv:
  "P (fst r) \<Longrightarrow> (\<And>s. P s \<Longrightarrow> P (fst (f s))) \<Longrightarrow> P (fst (andThen r f))"
  by (auto simp: andThen_def split: prod.splits option.splits)

text \<open>Lookup of a result.\<close>

definition is_ok :: "'a result \<Rightarrow> bool" where
  "is_ok r = (case r of Inl _ \<Rightarrow> False | Inr _ \<Rightarrow> True)"

lemma is_ok_simps [simp]: "is_ok (Inr x)" "\<not> is_ok (Inl e)"
  by (simp_all add: is_ok_def)

lemma is_ok_iff: "is_ok r \<longleftrightarrow> (\<exists>x. r = Inr x)"
  by (cases r) auto

text \<open>The rest of a function after a call that may throw.\<close>

definition bind_result :: "'a result \<Rightarrow> ('a \<Rightarrow> 'b result) \<Rightarrow> 'b result" where
  "bind_result r f = (case r of Inl x \<Rightarrow> Inl x | Inr v \<Rightarrow> f v)"

lemma bind_result_simps [simp]: "bind_result (Inr v) f = f v" "bind_result (Inl x) f = Inl x"
  by (simp_all add: bind_result_def)

section \<open>Ordered maps\<close>

text \<open>
  \<open>std::map<K,V>\<close>: \<open>m[k] = v\<close> is \<open>smap_ins k v m\<close>, \<open>m.erase(k)\<close> is
  \<open>smap_del k m\<close>, \<open>m.find(k)\<close> is \<open>map_of m k\<close>, and a loop from \<open>begin()\<close>
  to \<open>end()\<close> visits the list from left to right.
\<close>

fun smap_ins :: "'k::linorder \<Rightarrow> 'v \<Rightarrow> ('k \<times> 'v) list \<Rightarrow> ('k \<times> 'v) list" where
  "smap_ins k v [] = [(k, v)]"
| "smap_ins k v ((k', v') # m) =
     (if k < k' then (k, v) # (k', v') # m
      else if k = k' then (k, v) # m
      else (k', v') # smap_ins k v m)"

definition smap_del :: "'k \<Rightarrow> ('k \<times> 'v) list \<Rightarrow> ('k \<times> 'v) list" where
  "smap_del k m = filter (\<lambda>p. fst p \<noteq> k) m"

definition smap_ok :: "('k::linorder \<times> 'v) list \<Rightarrow> bool" where
  "smap_ok m \<longleftrightarrow> sorted_wrt (<) (map fst m)"

lemma smap_ok_Nil [simp]: "smap_ok []"
  by (simp add: smap_ok_def)

lemma smap_ok_Cons: "smap_ok (p # m) \<longleftrightarrow> (\<forall>k \<in> fst ` set m. fst p < k) \<and> smap_ok m"
  by (simp add: smap_ok_def)

lemma set_smap_ins_subset: "set (smap_ins k v m) \<subseteq> insert (k, v) (set m)"
  by (induction m rule: smap_ins.induct) auto

lemma keys_smap_ins [simp]: "fst ` set (smap_ins k v m) = insert k (fst ` set m)"
  by (induction k v m rule: smap_ins.induct) auto

lemma smap_ins_ok: "smap_ok m \<Longrightarrow> smap_ok (smap_ins k v m)"
  by (induction k v m rule: smap_ins.induct) (auto simp: smap_ok_Cons)

lemma smap_del_ok: "smap_ok m \<Longrightarrow> smap_ok (smap_del k m)"
  by (induction m) (auto simp: smap_del_def smap_ok_Cons)

lemma map_of_notin: "k \<notin> fst ` set m \<Longrightarrow> map_of m k = None"
  by (induction m) auto

lemma map_of_smap_ins:
  "smap_ok m \<Longrightarrow> map_of (smap_ins k v m) = (map_of m)(k \<mapsto> v)"
proof (induction k v m rule: smap_ins.induct)
  case (2 k v k' v' m)
  then show ?case by (auto simp: smap_ok_Cons fun_eq_iff)
qed simp

lemma map_of_smap_del [simp]: "map_of (smap_del k m) = (map_of m)(k := None)"
  by (induction m) (auto simp: smap_del_def)

lemma set_smap_del [simp]: "set (smap_del k m) = {p \<in> set m. fst p \<noteq> k}"
  by (auto simp: smap_del_def)

lemma smap_ok_distinct: "smap_ok m \<Longrightarrow> distinct (map fst m)"
  by (simp add: smap_ok_def strict_sorted_iff)

lemma smap_ok_lookup: "smap_ok m \<Longrightarrow> map_of m k = Some v \<longleftrightarrow> (k, v) \<in> set m"
  by (metis map_of_SomeD map_of_is_SomeI smap_ok_distinct)

text \<open>The interface of such a map, its laws, and what a client derives from them.\<close>

locale keyed_store =
  fixes emp :: "'m"
    and find_in :: "'m \<Rightarrow> 'k \<Rightarrow> 'v option"
    and put :: "'k \<Rightarrow> 'v \<Rightarrow> 'm \<Rightarrow> 'm"
    and del :: "'k \<Rightarrow> 'm \<Rightarrow> 'm"
    and good :: "'m \<Rightarrow> bool"
  assumes good_emp: "good emp"
    and good_put: "good m \<Longrightarrow> good (put k v m)"
    and good_del: "good m \<Longrightarrow> good (del k m)"
    and find_emp: "find_in emp k = None"
    and find_put: "good m \<Longrightarrow> find_in (put k v m) k' = (if k' = k then Some v else find_in m k')"
    and find_del: "good m \<Longrightarrow> find_in (del k m) k' = (if k' = k then None else find_in m k')"
begin

lemma find_put_same: "good m \<Longrightarrow> find_in (put k v m) k = Some v"
  by (simp add: find_put)

lemma find_put_other: "good m \<Longrightarrow> k' \<noteq> k \<Longrightarrow> find_in (put k v m) k' = find_in m k'"
  by (simp add: find_put)

lemma find_del_put: "good m \<Longrightarrow> find_in m k = None \<Longrightarrow> find_in (del k (put k v m)) = find_in m"
  by (rule ext) (simp add: find_put find_del good_put)

lemma put_put: "good m \<Longrightarrow> find_in (put k w (put k v m)) = find_in (put k w m)"
  by (rule ext) (simp add: find_put good_put)

lemma put_commute:
  "good m \<Longrightarrow> k \<noteq> k' \<Longrightarrow> find_in (put k v (put k' w m)) = find_in (put k' w (put k v m))"
  by (rule ext) (simp add: find_put good_put)

lemma dom_put: "good m \<Longrightarrow> dom (find_in (put k v m)) = insert k (dom (find_in m))"
  by (auto simp: dom_def find_put split: if_splits)

lemma dom_del: "good m \<Longrightarrow> dom (find_in (del k m)) = dom (find_in m) - {k}"
  by (auto simp: dom_def find_del split: if_splits)

end

interpretation smap: keyed_store "[]" map_of smap_ins smap_del smap_ok
  by unfold_locales (simp_all add: smap_ins_ok smap_del_ok map_of_smap_ins)

end
