(* ===== verification/Strings_Util.thy ===== *)
theory Strings_Util imports Prelude
begin

text \<open>
  The string helpers of \<open>src/libs/utils/misc\<close>: splitting at a delimiter
  (\<open>string_split.h\<close>) and the conversions of \<open>string_conversions.cpp\<close> that work
  on text, Booleans and integers, with the C library functions they call
  (\<open>isspace\<close>, \<open>atoi\<close>, \<open>printf\<close> of a decimal) in the C locale. A character is
  a byte and \<open>std::string\<close> is \<open>string\<close>.
\<close>

section \<open>Splitting\<close>

text \<open>
  \<open>std::getline(ss, item, delim)\<close> called until it fails: the pieces between
  delimiters, where the text after the last delimiter is a piece only if it is not
  empty (at the end of the stream \<open>getline\<close> fails when it extracts nothing).
\<close>

fun getlines :: "char \<Rightarrow> string \<Rightarrow> string \<Rightarrow> string list" where
  "getlines d cur [] = (if cur = [] then [] else [cur])"
| "getlines d cur (c # s) = (if c = d then cur # getlines d [] s else getlines d (cur @ [c]) s)"

definition str_split :: "char \<Rightarrow> string \<Rightarrow> string list" where
  "str_split d s = filter (\<lambda>item. item \<noteq> []) (getlines d [] s)"

text \<open>The queue variant pushes the same items; a queue is a list, its front first.\<close>

definition str_split_to_queue :: "char \<Rightarrow> string \<Rightarrow> string list" where
  "str_split_to_queue d s = filter (\<lambda>item. item \<noteq> []) (getlines d [] s)"

abbreviation slash :: char where
  "slash \<equiv> CHR ''/''"

lemma getlines_no_delim:
  "d \<notin> set cur \<Longrightarrow> item \<in> set (getlines d cur s) \<Longrightarrow> d \<notin> set item"
  by (induction d cur s rule: getlines.induct) (auto split: if_splits)

lemma str_split_items:
  "item \<in> set (str_split d s) \<Longrightarrow> item \<noteq> [] \<and> d \<notin> set item"
  by (auto simp: str_split_def dest: getlines_no_delim [rotated])

lemma split_queue_eq: "str_split_to_queue d s = str_split d s"
  by (simp add: str_split_def str_split_to_queue_def)

text \<open>The path that the items spell, each after a delimiter.\<close>

fun join_path :: "char \<Rightarrow> string list \<Rightarrow> string" where
  "join_path d [] = []"
| "join_path d (p # ps) = d # p @ join_path d ps"

lemma join_path_append: "join_path d (q @ q') = join_path d q @ join_path d q'"
  by (induction q) auto

lemma getlines_append:
  "d \<notin> set p \<Longrightarrow> getlines d cur (p @ s) = getlines d (cur @ p) s"
  by (induction p arbitrary: cur) auto

lemma getlines_join:
  "\<forall>p \<in> set ps. p \<noteq> [] \<and> d \<notin> set p \<Longrightarrow> d \<notin> set cur \<Longrightarrow>
   filter (\<lambda>x. x \<noteq> []) (getlines d cur (join_path d ps)) = filter (\<lambda>x. x \<noteq> []) (cur # ps)"
proof (induction ps arbitrary: cur)
  case (Cons p ps)
  then have "getlines d cur (join_path d (p # ps)) = cur # getlines d p (join_path d ps)"
    by (simp add: getlines_append)
  with Cons show ?case by simp
qed simp

lemma str_split_join:
  "\<forall>p \<in> set ps. p \<noteq> [] \<and> d \<notin> set p \<Longrightarrow> str_split d (join_path d ps) = ps"
  by (simp add: str_split_def getlines_join)

lemma str_split_absolute: "str_split d (d # s) = str_split d s"
  by (simp add: str_split_def)

section \<open>Characters of the C locale\<close>

definition code_of :: "char \<Rightarrow> nat" where
  "code_of c = of_char c"

definition is_space :: "char \<Rightarrow> bool" where
  "is_space c \<longleftrightarrow> code_of c = 32 \<or> (9 \<le> code_of c \<and> code_of c \<le> 13)"

definition digit_val :: "char \<Rightarrow> nat option" where
  "digit_val c =
     (let n = code_of c in
      if 48 \<le> n \<and> n \<le> 57 then Some (n - 48)
      else if 97 \<le> n \<and> n \<le> 102 then Some (n - 87)
      else if 65 \<le> n \<and> n \<le> 70 then Some (n - 55)
      else None)"

definition to_upper_char :: "char \<Rightarrow> char" where
  "to_upper_char c = (if 97 \<le> code_of c \<and> code_of c \<le> 122 then char_of (code_of c - 32) else c)"

definition to_lower_char :: "char \<Rightarrow> char" where
  "to_lower_char c = (if 65 \<le> code_of c \<and> code_of c \<le> 90 then char_of (code_of c + 32) else c)"

definition to_upper :: "string \<Rightarrow> string" where
  "to_upper s = map to_upper_char s"

definition to_lower :: "string \<Rightarrow> string" where
  "to_lower s = map to_lower_char s"

lemma code_of_bound: "code_of c < 256"
  by (simp add: code_of_def)

lemma code_char [simp]: "n < 256 \<Longrightarrow> code_of (char_of n) = n"
  by (simp add: code_of_def)

lemma to_lower_upper: "to_lower (to_upper s) = to_lower s"
proof -
  have "to_lower_char (to_upper_char c) = to_lower_char c" for c
    using code_of_bound [of c]
    by (auto simp: to_lower_char_def to_upper_char_def) (simp_all add: code_of_def)
  then show ?thesis by (simp add: to_lower_def to_upper_def)
qed

section \<open>Integers as text\<close>

fun nat_digits :: "nat \<Rightarrow> string" where
  "nat_digits n =
     (if n < 10 then [char_of (48 + n)] else nat_digits (n div 10) @ [char_of (48 + n mod 10)])"

declare nat_digits.simps [simp del]

text \<open>\<open>to_string(unsigned int)\<close> prints with \<open>%u\<close>, \<open>to_string(int)\<close> with \<open>%i\<close>.\<close>

definition to_string_uint :: "32 word \<Rightarrow> string" where
  "to_string_uint i = nat_digits (unat i)"

definition to_string_int :: "int \<Rightarrow> string" where
  "to_string_int i = (if i < 0 then CHR ''-'' # nat_digits (nat (- i)) else nat_digits (nat i))"

definition to_string_bool :: "bool \<Rightarrow> string" where
  "to_string_bool b = (if b then ''true'' else ''false'')"

text \<open>
  The longest prefix of digits below the base, and what follows it; their value.
\<close>

fun scan_digits :: "nat \<Rightarrow> string \<Rightarrow> nat list \<times> string" where
  "scan_digits b [] = ([], [])"
| "scan_digits b (c # s) =
     (case digit_val c of
        Some v \<Rightarrow> if v < b then (let (ds, rest) = scan_digits b s in (v # ds, rest)) else ([], c # s)
      | None \<Rightarrow> ([], c # s))"

definition digits_value :: "nat \<Rightarrow> nat list \<Rightarrow> nat" where
  "digits_value b ds = foldl (\<lambda>a d. a * b + d) 0 ds"

fun scan_sign :: "string \<Rightarrow> bool \<times> string" where
  "scan_sign [] = (False, [])"
| "scan_sign (c # s) =
     (if c = CHR ''-'' then (True, s) else if c = CHR ''+'' then (False, s) else (False, c # s))"

text \<open>
  \<open>atoi\<close>, \<open>atoll\<close>: white space, a sign, decimal digits; 0 without digits. The
  value is exact here; the callers below convert it to their type.
\<close>

definition ato_int :: "string \<Rightarrow> int" where
  "ato_int s =
     (let (neg, s1) = scan_sign (dropWhile is_space s);
          v = int (digits_value 10 (fst (scan_digits 10 s1)))
      in if neg then - v else v)"

text \<open>\<open>unsigned int l = atoll(s.c_str())\<close>, inside the range of \<open>long long\<close>.\<close>

definition to_uint :: "string \<Rightarrow> 32 word" where
  "to_uint s = word_of_int (ato_int s)"

text \<open>\<open>atoi\<close> on text whose value is an \<open>int\<close>; elsewhere C leaves it undefined.\<close>

definition int_min :: int where "int_min = - 2147483648"
definition int_max :: int where "int_max = 2147483647"

definition to_int :: "string \<Rightarrow> int option" where
  "to_int s = (let v = ato_int s in if int_min \<le> v \<and> v \<le> int_max then Some v else None)"

definition to_bool :: "string \<Rightarrow> bool" where
  "to_bool s \<longleftrightarrow> s = ''true'' \<or> s = ''yes'' \<or> s = ''1''"

text \<open>What the printers and scanners share.\<close>

lemma digit_val_char: "n < 10 \<Longrightarrow> digit_val (char_of (48 + n)) = Some n"
  by (simp add: digit_val_def)

lemma scan_digits_append:
  "snd (scan_digits b s) = [] \<Longrightarrow>
   scan_digits b (s @ t) = (fst (scan_digits b s) @ fst (scan_digits b t), snd (scan_digits b t))"
  by (induction b s rule: scan_digits.induct)
     (auto split: option.splits if_splits prod.splits)

lemma digits_value_append:
  "digits_value b (ds @ [d]) = digits_value b ds * b + d"
  by (simp add: digits_value_def)

lemma scan_nat_digits:
  "snd (scan_digits 10 (nat_digits n)) = [] \<and> digits_value 10 (fst (scan_digits 10 (nat_digits n))) = n"
proof (induction n rule: nat_digits.induct)
  case (1 n)
  show ?case
  proof (cases "n < 10")
    case True
    then show ?thesis by (simp add: nat_digits.simps [of n] digit_val_char digits_value_def)
  next
    case False
    have last: "scan_digits 10 [char_of (48 + n mod 10)] = ([n mod 10], [])"
      using digit_val_char [of "n mod 10"] by simp
    with 1 False show ?thesis
      by (simp add: nat_digits.simps [of n] scan_digits_append digits_value_append)
  qed
qed

lemma scan_nat_digits_rest:
  "scan_digits 10 (nat_digits n) = (fst (scan_digits 10 (nat_digits n)), [])"
  using scan_nat_digits [of n] by (metis prod.collapse)

lemma nat_digits_Cons: "\<exists>c s. nat_digits n = c # s \<and> (\<exists>v::nat. v < 10 \<and> c = char_of (48 + v))"
proof (induction n rule: nat_digits.induct)
  case (1 n)
  then show ?case by (subst (1) nat_digits.simps) (cases "n < 10", auto)
qed

lemma scan_digits_nonempty: "fst (scan_digits 10 (nat_digits n)) \<noteq> []"
proof -
  obtain c s v where "nat_digits n = c # s" "v < (10::nat)" "c = char_of (48 + v)"
    using nat_digits_Cons [of n] by blast
  then show ?thesis using digit_val_char [of v] by (simp split: prod.splits)
qed

lemma digit_char_plain:
  assumes "v < (10::nat)" and "c = char_of (48 + v)"
  shows "\<not> is_space c" and "c \<noteq> CHR ''-''" and "c \<noteq> CHR ''+''"
proof -
  have n: "code_of c = 48 + v" using assms by simp
  then show "\<not> is_space c" using assms(1) by (simp add: is_space_def)
  show "c \<noteq> CHR ''-''" using n by (auto simp: code_of_def)
  show "c \<noteq> CHR ''+''" using n by (auto simp: code_of_def)
qed

lemma scan_sign_nat_digits: "scan_sign (nat_digits n) = (False, nat_digits n)"
  using nat_digits_Cons [of n] by (auto simp: digit_char_plain)

lemma drop_space_nat_digits: "dropWhile is_space (nat_digits n) = nat_digits n"
  using nat_digits_Cons [of n] by (auto simp: digit_char_plain)

lemma ato_nat_digits: "ato_int (nat_digits n) = int n"
  using scan_nat_digits [of n]
  by (simp add: ato_int_def drop_space_nat_digits scan_sign_nat_digits)

lemma not_space_minus: "\<not> is_space (CHR ''-'')"
  by (simp add: is_space_def code_of_def)

lemma ato_to_string_int: "ato_int (to_string_int i) = i"
proof (cases "i < 0")
  case True
  then show ?thesis
    using scan_nat_digits [of "nat (- i)"]
    by (simp add: to_string_int_def ato_int_def not_space_minus)
next
  case False
  then show ?thesis by (simp add: to_string_int_def ato_nat_digits)
qed

section \<open>Trimming\<close>

text \<open>
  \<open>find_first_not_of(' ')\<close> and \<open>find_last_not_of(' ')\<close>, \<open>None\<close> for \<open>npos\<close>.
\<close>

definition find_first_not_of :: "char \<Rightarrow> string \<Rightarrow> nat option" where
  "find_first_not_of c s =
     (let n = length (takeWhile (\<lambda>x. x = c) s) in if n < length s then Some n else None)"

definition find_last_not_of :: "char \<Rightarrow> string \<Rightarrow> nat option" where
  "find_last_not_of c s =
     (case find_first_not_of c (rev s) of None \<Rightarrow> None | Some n \<Rightarrow> Some (length s - 1 - n))"

text \<open>
  \<open>s.substr(p1, n)\<close>. With no character but spaces, \<open>p1\<close> is 0 and the length
  argument is \<open>s.length() - 1\<close>, which for the empty string wraps to the largest
  \<open>size_t\<close> and keeps everything.
\<close>

definition trim :: "string \<Rightarrow> string" where
  "trim s =
     (let p1 = find_first_not_of (CHR '' '') s; p2 = find_last_not_of (CHR '' '') s;
          start = (case p1 of None \<Rightarrow> 0 | Some a \<Rightarrow> a);
          len = (case p2 of None \<Rightarrow> if s = [] then length s else length s - 1
                 | Some b \<Rightarrow> b - start + 1)
      in take len (drop start s))"

text \<open>The in-place variant leaves its result in the argument.\<close>

definition trim_inplace :: "string \<Rightarrow> string" where
  "trim_inplace s = trim s"

end
