(* ===== verification/Yaml_Convert.thy ===== *)
theory Yaml_Convert imports Strings_Util
begin

text \<open>
  The conversions of scalar text of \<open>src/libs/config/yaml_node.h\<close>
  (\<open>yaml_utils::convert\<close> and its helpers). The numeric template is
  \<open>stream >> rhs\<close> with the base flags cleared, which is modelled after the
  extraction rules of the standard library (skip white space, a sign, \<open>0x\<close>
  hexadecimal, leading \<open>0\<close> octal, the longest run of digits; a value out of
  range sets the fail bit, and an unsigned target accepts a minus sign and
  wraps). A floating-point result is the decimal that was read, before it is
  rounded to a \<open>float\<close>. What yaml-cpp provides is a parameter: its predicates
  on the spellings of infinity and not-a-number, the conversion of a document
  node to a string, and the iteration over the value of a key of a document.
\<close>

section \<open>Letter case\<close>

definition IsLower :: "char \<Rightarrow> bool" where
  "IsLower ch \<longleftrightarrow> 97 \<le> code_of ch \<and> code_of ch \<le> 122"

definition IsUpper :: "char \<Rightarrow> bool" where
  "IsUpper ch \<longleftrightarrow> 65 \<le> code_of ch \<and> code_of ch \<le> 90"

definition ToLower :: "char \<Rightarrow> char" where
  "ToLower ch = (if IsUpper ch then char_of (code_of ch + 97 - 65) else ch)"

definition lower_string :: "string \<Rightarrow> string" where
  "lower_string s = map ToLower s"

fun IsEntirely :: "(char \<Rightarrow> bool) \<Rightarrow> string \<Rightarrow> bool" where
  "IsEntirely f [] = True"
| "IsEntirely f (c # s) = (if \<not> f c then False else IsEntirely f s)"

definition IsFlexibleCase :: "string \<Rightarrow> bool" where
  "IsFlexibleCase s =
     (case s of [] \<Rightarrow> True
      | c # rest \<Rightarrow>
          if IsEntirely IsLower s then True
          else IsUpper c \<and> (IsEntirely IsLower rest \<or> IsEntirely IsUpper rest))"

section \<open>Conversions\<close>

definition convert_string :: "string \<Rightarrow> string option" where
  "convert_string input = Some input"

definition bool_names :: "(string \<times> string) list" where
  "bool_names = [(''y'', ''n''), (''yes'', ''no''), (''true'', ''false''), (''on'', ''off'')]"

fun lookup_bool :: "(string \<times> string) list \<Rightarrow> string \<Rightarrow> bool option" where
  "lookup_bool [] s = None"
| "lookup_bool ((t, f) # names) s =
     (if t = s then Some True else if f = s then Some False else lookup_bool names s)"

definition convert_bool :: "string \<Rightarrow> bool option" where
  "convert_bool input =
     (if \<not> IsFlexibleCase input then None else lookup_bool bool_names (lower_string input))"

definition convert_Null :: "string \<Rightarrow> bool" where
  "convert_Null input \<longleftrightarrow>
     input = [] \<or> input = ''~'' \<or> input = ''null'' \<or> input = ''Null'' \<or> input = ''NULL''"

text \<open>Extraction of an integer: the sign, the magnitude, and what is left.\<close>

definition is_hex_prefix :: "string \<Rightarrow> bool" where
  "is_hex_prefix s =
     (case s of z # x # _ \<Rightarrow> z = CHR ''0'' \<and> (x = CHR ''x'' \<or> x = CHR ''X'') | _ \<Rightarrow> False)"

definition auto_base :: "string \<Rightarrow> nat" where
  "auto_base s =
     (if is_hex_prefix s then 16
      else case s of z # _ \<Rightarrow> if z = CHR ''0'' then 8 else 10 | [] \<Rightarrow> 10)"

definition scan_int :: "string \<Rightarrow> (bool \<times> nat \<times> string) option" where
  "scan_int s =
     (let (neg, s1) = scan_sign (dropWhile is_space s);
          b = auto_base s1;
          (ds, rest) = scan_digits b (if is_hex_prefix s1 then drop 2 s1 else s1)
      in if ds = [] then None else Some (neg, digits_value b ds, rest))"

definition convert_uint :: "string \<Rightarrow> 32 word option" where
  "convert_uint input =
     (case scan_int input of None \<Rightarrow> None
      | Some (neg, v, rest) \<Rightarrow>
          if v < 2 ^ 32 \<and> list_all is_space rest
          then Some (if neg then - of_nat v else of_nat v) else None)"

definition convert_int :: "string \<Rightarrow> int option" where
  "convert_int input =
     (case scan_int input of None \<Rightarrow> None
      | Some (neg, v, rest) \<Rightarrow>
          (let i = (if neg then - int v else int v) in
           if int_min \<le> i \<and> i \<le> int_max \<and> list_all is_space rest then Some i else None))"

text \<open>\<open>Dec neg m e\<close> is the decimal \<open>m * 10 ^ e\<close>, negated when \<open>neg\<close>.\<close>

datatype cfloat = Dec bool nat int | PosInf | QuietNaN

text \<open>
  A parsed document (\<open>YAML::Node\<close>): its type, tag, scalar text, items or pairs.
\<close>

datatype ynode =
    YUndefined
  | YNull string
  | YScalar string string
  | YSequence string "ynode list"
  | YMap string "(ynode \<times> ynode) list"

fun ytag :: "ynode \<Rightarrow> string" where
  "ytag YUndefined = []"
| "ytag (YNull t) = t"
| "ytag (YScalar t _) = t"
| "ytag (YSequence t _) = t"
| "ytag (YMap t _) = t"

fun yscalar :: "ynode \<Rightarrow> string" where
  "yscalar (YScalar _ s) = s"
| "yscalar _ = []"

record ycpp =
  IsInfinity :: "string \<Rightarrow> bool"
  IsNegativeInfinity :: "string \<Rightarrow> bool"
  IsNaN :: "string \<Rightarrow> bool"
  as_string :: "ynode \<Rightarrow> string result"
  items_of_key :: "ynode \<Rightarrow> string \<Rightarrow> ynode list result"

definition scan_exponent :: "string \<Rightarrow> (int \<times> string) option" where
  "scan_exponent s =
     (case s of [] \<Rightarrow> Some (0, [])
      | c # r \<Rightarrow>
          if c = CHR ''e'' \<or> c = CHR ''E'' then
            (let (neg, r1) = scan_sign r; (ds, rest) = scan_digits 10 r1;
                 v = int (digits_value 10 ds)
             in if ds = [] then None else Some (if neg then - v else v, rest))
          else Some (0, s))"

definition scan_fraction :: "string \<Rightarrow> nat list \<times> string" where
  "scan_fraction s =
     (case s of [] \<Rightarrow> ([], []) | c # r \<Rightarrow> if c = CHR ''.'' then scan_digits 10 r else ([], s))"

definition scan_float :: "string \<Rightarrow> (bool \<times> nat \<times> int \<times> string) option" where
  "scan_float s =
     (let (neg, s1) = scan_sign (dropWhile is_space s);
          (ip, s2) = scan_digits 10 s1;
          (fp, s3) = scan_fraction s2
      in if ip = [] \<and> fp = [] then None
         else case scan_exponent s3 of None \<Rightarrow> None
              | Some (e, rest) \<Rightarrow>
                  Some (neg, digits_value 10 (ip @ fp), e - int (length fp), rest))"

text \<open>The magnitude rounds to no finite \<open>float\<close>: at least \<open>2^128 - 2^103\<close>.\<close>

definition float_overflows :: "nat \<Rightarrow> int \<Rightarrow> bool" where
  "float_overflows m e \<longleftrightarrow>
     (if 0 \<le> e then 2 ^ 128 - 2 ^ 103 \<le> m * 10 ^ nat e
      else (2 ^ 128 - 2 ^ 103) * 10 ^ nat (- e) \<le> m)"

definition convert_float :: "ycpp \<Rightarrow> string \<Rightarrow> cfloat option" where
  "convert_float y input =
     (let special =
            (if IsInfinity y input \<or> IsNegativeInfinity y input then Some PosInf
             else if IsNaN y input then Some QuietNaN else None)
      in case scan_float input of
           None \<Rightarrow> special
         | Some (neg, m, e, rest) \<Rightarrow>
             if \<not> float_overflows m e \<and> list_all is_space rest then Some (Dec neg m e)
             else special)"

section \<open>What the conversions accept\<close>

lemma IsEntirely_all: "IsEntirely f s = list_all f s"
  by (induction s) auto

lemma lower_string_id: "IsEntirely IsLower s \<Longrightarrow> lower_string s = s"
  by (induction s)
     (auto simp: lower_string_def ToLower_def IsUpper_def IsLower_def split: if_splits)

lemma upper_of_ToLower: "IsUpper c \<Longrightarrow> to_upper_char (ToLower c) = c"
proof -
  assume u: "IsUpper c"
  then have "code_of (ToLower c) = code_of c + 32"
    by (simp add: ToLower_def IsUpper_def)
  with u show ?thesis by (simp add: to_upper_char_def IsUpper_def) (simp add: code_of_def)
qed

lemma upper_of_lower_string: "IsEntirely IsUpper s \<Longrightarrow> to_upper (lower_string s) = s"
  by (induction s) (auto simp: lower_string_def to_upper_def upper_of_ToLower split: if_splits)

text \<open>A word in the three cases that \<open>IsFlexibleCase\<close> allows.\<close>

definition capitalised :: "string \<Rightarrow> string" where
  "capitalised w = (case w of [] \<Rightarrow> [] | c # r \<Rightarrow> to_upper_char c # r)"

definition spellings :: "string \<Rightarrow> string list" where
  "spellings w = [w, capitalised w, to_upper w]"

lemma flexible_spelling:
  assumes "IsFlexibleCase s"
  shows "s \<in> set (spellings (lower_string s))"
proof (cases s)
  case Nil
  then show ?thesis by (simp add: spellings_def lower_string_def)
next
  case (Cons c r)
  consider "IsEntirely IsLower s" | "IsUpper c" "IsEntirely IsLower r"
    | "IsUpper c" "IsEntirely IsUpper r"
    using assms Cons by (auto simp: IsFlexibleCase_def split: if_splits)
  then show ?thesis
  proof cases
    case 1
    then show ?thesis by (simp add: spellings_def lower_string_id)
  next
    case 2
    then have "lower_string s = ToLower c # r"
      using Cons lower_string_id [of r] by (simp add: lower_string_def)
    then show ?thesis using 2 Cons by (simp add: spellings_def capitalised_def upper_of_ToLower)
  next
    case 3
    then have "IsEntirely IsUpper s" using Cons by simp
    then show ?thesis by (simp add: spellings_def upper_of_lower_string)
  qed
qed

definition bool_words :: "bool \<Rightarrow> string list" where
  "bool_words b = map (if b then fst else snd) bool_names"

lemma lookup_bool_word: "lookup_bool bool_names w = Some b \<longleftrightarrow> w \<in> set (bool_words b)"
  by (cases b) (auto simp: bool_names_def bool_words_def split: if_splits)

lemma bool_spellings_accepted:
  "list_all (\<lambda>w. convert_bool w = Some b) (concat (map spellings (bool_words b)))"
  by (induction b) code_simp+


lemma nat_digits_first:
  "0 < n \<Longrightarrow> \<exists>c s. nat_digits n = c # s \<and> (\<exists>v::nat. 0 < v \<and> v < 10 \<and> c = char_of (48 + v))"
proof (induction n rule: nat_digits.induct)
  case (1 n)
  show ?case
  proof (cases "n < 10")
    case True
    then show ?thesis using 1(2) by (auto simp: nat_digits.simps [of n])
  next
    case False
    then have "0 < n div 10" by auto
    then show ?thesis using 1(1) [OF False] False by (auto simp: nat_digits.simps [of n])
  qed
qed

lemma nonzero_digit_char: "0 < v \<Longrightarrow> v < (10::nat) \<Longrightarrow> char_of (48 + v) \<noteq> CHR ''0''"
proof -
  assume v: "0 < v" "v < 10"
  have "code_of (char_of (48 + v)) \<noteq> code_of (CHR ''0'')"
    using v by (simp add: code_of_def)
  then show ?thesis by metis
qed

lemma plain_decimal:
  assumes "0 < n"
  shows "is_hex_prefix (nat_digits n) = False" and "auto_base (nat_digits n) = 10"
proof -
  obtain c s where c: "nat_digits n = c # s" and z: "c \<noteq> CHR ''0''"
    using nat_digits_first [OF assms] nonzero_digit_char by blast
  from c z show hex: "is_hex_prefix (nat_digits n) = False"
    by (auto simp: is_hex_prefix_def split: list.splits)
  from c z hex show "auto_base (nat_digits n) = 10"
    by (simp add: auto_base_def)
qed

lemma nat_digits_0: "nat_digits 0 = ''0''"
  by (simp add: nat_digits.simps [of 0] char_of_eq_iff)

text \<open>The printed decimal, with or without a minus sign, is scanned back exactly.\<close>

lemma scan_int_unsigned_part:
  "(let b = auto_base (nat_digits n);
        (ds, rest) = scan_digits b
          (if is_hex_prefix (nat_digits n) then drop 2 (nat_digits n) else nat_digits n)
    in if ds = [] then None else Some (neg, digits_value b ds, rest)) = Some (neg :: bool, n, [])"
proof (cases "n = 0")
  case True
  show ?thesis unfolding True nat_digits_0 by (induction neg) code_simp+
next
  case False
  then show ?thesis
    using scan_nat_digits [of n] scan_digits_nonempty [of n] scan_nat_digits_rest [of n]
    by (auto simp: plain_decimal split: prod.splits)
qed

lemma scan_int_nat_digits: "scan_int (nat_digits n) = Some (False, n, [])"
  using scan_int_unsigned_part [of n False]
  by (simp add: scan_int_def drop_space_nat_digits scan_sign_nat_digits)

lemma scan_int_minus: "scan_int (CHR ''-'' # nat_digits n) = Some (True, n, [])"
  using scan_int_unsigned_part [of n True]
  by (simp add: scan_int_def not_space_minus)

lemma convert_uint_to_string: "convert_uint (to_string_uint w) = Some w"
  using unsigned_less [of w]
  by (simp add: convert_uint_def to_string_uint_def scan_int_nat_digits)

lemma convert_int_to_string:
  "int_min \<le> i \<Longrightarrow> i \<le> int_max \<Longrightarrow> convert_int (to_string_int i) = Some i"
  by (auto simp: convert_int_def to_string_int_def scan_int_nat_digits scan_int_minus)

lemma convert_bool_to_string: "convert_bool (to_string_bool b) = Some b"
  by (induction b) code_simp+

lemma convert_int_range: "convert_int s = Some i \<Longrightarrow> int_min \<le> i \<and> i \<le> int_max"
  by (auto simp: convert_int_def Let_def split: option.splits if_splits)

text \<open>A literal is readable as unsigned and as signed with the same bits, where it is both.\<close>

lemma convert_uint_int:
  assumes "convert_uint s = Some w" and "convert_int s = Some i"
  shows "w = word_of_int i"
  using assms by (auto simp: convert_uint_def convert_int_def Let_def split: option.splits if_splits)

end
