(* ===== verification/Yaml_Node.thy ===== *)
theory Yaml_Node imports Yaml_Convert
begin

text \<open>
  The tree of configuration values, \<open>YamlConfigurationNode\<close> of
  \<open>src/libs/config/yaml_node.h\<close>. A node owns its children, so a tree is a value:
  an operation that changes a node reached by a path returns the tree with that
  node changed. An operation that throws after it changed something returns the
  changed tree with the exception.
\<close>

section \<open>Nodes\<close>

datatype ntype = NONE | UINT32 | INT32 | FLOAT | BOOL | STRING | MAP | SEQUENCE | UNKNOWN

fun type_to_string :: "ntype \<Rightarrow> string" where
  "type_to_string NONE = ''NONE''"
| "type_to_string UINT32 = ''unsigned int''"
| "type_to_string INT32 = ''int''"
| "type_to_string FLOAT = ''float''"
| "type_to_string BOOL = ''bool''"
| "type_to_string STRING = ''string''"
| "type_to_string SEQUENCE = ''SEQUENCE''"
| "type_to_string MAP = ''MAP''"
| "type_to_string UNKNOWN = ''UNKNOWN''"

datatype node = Node
  (node_name: string)
  (node_type: ntype)
  (scalar_value: string)
  (children: "(string \<times> node) list")
  (list_values: "string list")
  (node_default: bool)

primrec with_type :: "ntype \<Rightarrow> node \<Rightarrow> node" where
  "with_type t (Node nm t0 s cs l d) = Node nm t s cs l d"

primrec with_scalar :: "string \<Rightarrow> node \<Rightarrow> node" where
  "with_scalar s (Node nm t s0 cs l d) = Node nm t s cs l d"

primrec with_children :: "(string \<times> node) list \<Rightarrow> node \<Rightarrow> node" where
  "with_children cs (Node nm t s cs0 l d) = Node nm t s cs l d"

primrec with_list :: "string list \<Rightarrow> node \<Rightarrow> node" where
  "with_list l (Node nm t s cs l0 d) = Node nm t s cs l d"

lemma with_sel [simp]:
  "node_name (with_type t n) = node_name n" "node_type (with_type t n) = t"
  "scalar_value (with_type t n) = scalar_value n" "children (with_type t n) = children n"
  "list_values (with_type t n) = list_values n"
  "node_name (with_scalar s n) = node_name n" "node_type (with_scalar s n) = node_type n"
  "scalar_value (with_scalar s n) = s" "children (with_scalar s n) = children n"
  "list_values (with_scalar s n) = list_values n"
  "node_name (with_children cs n) = node_name n" "node_type (with_children cs n) = node_type n"
  "scalar_value (with_children cs n) = scalar_value n" "children (with_children cs n) = cs"
  "list_values (with_children cs n) = list_values n"
  "node_name (with_list l n) = node_name n" "node_type (with_list l n) = node_type n"
  "scalar_value (with_list l n) = scalar_value n" "children (with_list l n) = children n"
  "list_values (with_list l n) = l"
  by (cases n; simp)+

text \<open>The constructors without a document.\<close>

definition root_node :: node where
  "root_node = Node ''root'' UNKNOWN [] [] [] False"

definition new_node :: "string \<Rightarrow> node" where
  "new_node nm = Node nm NONE [] [] [] False"

text \<open>Both copy constructors leave the children out.\<close>

definition copy_node :: "node \<Rightarrow> node" where
  "copy_node n = Node (node_name n) (node_type n) (scalar_value n) [] (list_values n) (node_default n)"

text \<open>\<open>a = n\<close> keeps the scalar value and the default flag of \<open>a\<close>.\<close>

definition assign_node :: "node \<Rightarrow> node \<Rightarrow> node" where
  "assign_node a n =
     Node (node_name n) (node_type n) (scalar_value a) (children n) (list_values n) (node_default a)"

definition has_children :: "node \<Rightarrow> bool" where
  "has_children n \<longleftrightarrow> children n \<noteq> []"

definition add_child :: "string \<Rightarrow> node \<Rightarrow> node \<Rightarrow> node" where
  "add_child p c n = with_type MAP (with_children (smap_ins p c (children n)) n)"

definition child_at :: "node \<Rightarrow> string \<Rightarrow> node option" where
  "child_at n p = map_of (children n) p"

definition put_child :: "string \<Rightarrow> node \<Rightarrow> node \<Rightarrow> node" where
  "put_child p c n = with_children (smap_ins p c (children n)) n"

fun is_scalar_type :: "ntype \<Rightarrow> bool" where
  "is_scalar_type UINT32 = True"
| "is_scalar_type INT32 = True"
| "is_scalar_type FLOAT = True"
| "is_scalar_type BOOL = True"
| "is_scalar_type STRING = True"
| "is_scalar_type _ = False"

definition is_scalar :: "node \<Rightarrow> bool" where
  "is_scalar n = is_scalar_type (node_type n)"

definition node_less :: "node \<Rightarrow> node \<Rightarrow> bool" where
  "node_less a b \<longleftrightarrow> node_name a < node_name b"

definition node_eq :: "node \<Rightarrow> node \<Rightarrow> bool" where
  "node_eq a b \<longleftrightarrow>
     node_name a = node_name b \<and> node_type a = node_type b \<and> scalar_value a = scalar_value b"

definition node_neq :: "node \<Rightarrow> node \<Rightarrow> bool" where
  "node_neq a b \<longleftrightarrow>
     node_name a \<noteq> node_name b \<or> node_type a \<noteq> node_type b \<or> scalar_value a \<noteq> scalar_value b"

section \<open>Paths\<close>

fun find_from :: "string \<Rightarrow> node \<Rightarrow> string list \<Rightarrow> node result" where
  "find_from path n [] = Inr n"
| "find_from path n (pel # q) =
     (let path' = path @ slash # pel in
      case child_at n pel of
        None \<Rightarrow> Inl (ConfigEntryNotFoundException path')
      | Some c \<Rightarrow> find_from path' c q)"

definition find_queue :: "node \<Rightarrow> string list \<Rightarrow> node result" where
  "find_queue n q = find_from [] n q"

definition find_node :: "node \<Rightarrow> string \<Rightarrow> node result" where
  "find_node n path = find_queue n (str_split_to_queue slash path)"

text \<open>
  \<open>find_or_insert\<close> yields a pointer into the tree; \<open>at_path f n q\<close> is the tree
  after \<open>f\<close> changed the node that pointer refers to.
\<close>

fun at_path :: "(node \<Rightarrow> node mutation) \<Rightarrow> node \<Rightarrow> string list \<Rightarrow> node mutation" where
  "at_path f n [] = f n"
| "at_path f n (pel # q) =
     (let n1 = (if child_at n pel = None then add_child pel (new_node pel) n else n)
      in case child_at n1 pel of
           None \<Rightarrow> ok n1
         | Some c \<Rightarrow> (let (c', e) = at_path f c q in (put_child pel c' n1, e)))"

definition find_or_insert :: "node \<Rightarrow> string \<Rightarrow> (node \<Rightarrow> node mutation) \<Rightarrow> node mutation" where
  "find_or_insert n path f = at_path f n (str_split_to_queue slash path)"

text \<open>
  The upward walk of \<open>erase\<close>: the tree, and whether the caller goes on and erases
  this node from its own children. The erased key is the child's own name.
\<close>

fun erase_walk :: "node \<Rightarrow> string list \<Rightarrow> node \<times> bool" where
  "erase_walk n [] = (n, True)"
| "erase_walk n (pel # q) =
     (case child_at n pel of
        None \<Rightarrow> (n, False)
      | Some c \<Rightarrow>
          (let (c', go) = erase_walk c q; n1 = put_child pel c' n
           in if go then
                (let n2 = with_children (smap_del (node_name c') (children n1)) n1
                 in (n2, \<not> has_children n2))
              else (n1, False)))"

definition erase_node :: "node \<Rightarrow> string \<Rightarrow> node mutation" where
  "erase_node n path =
     (let q = str_split_to_queue slash path in
      case find_from [] n q of
        Inl e \<Rightarrow> throwing e n
      | Inr c \<Rightarrow>
          if has_children c
          then throwing (FawkesException ''YamlConfig: cannot erase non-leaf value'') n
          else ok (fst (erase_walk n q)))"

section \<open>Values\<close>

definition get_value :: "(string \<Rightarrow> 'a option) \<Rightarrow> node \<Rightarrow> 'a result" where
  "get_value conv n =
     (if node_type n = SEQUENCE
      then Inl (FawkesException (''YamlConfiguration: value of '' @ node_name n @ '' is a list''))
      else case conv (scalar_value n) of
             Some rv \<Rightarrow> Inr rv
           | None \<Rightarrow> Inl (FawkesException (''YamlConfig: value or type error on '' @ node_name n)))"

definition is_type :: "(string \<Rightarrow> 'a option) \<Rightarrow> node \<Rightarrow> bool" where
  "is_type conv n =
     (if node_type n = SEQUENCE
      then (case list_values n of [] \<Rightarrow> False | v # _ \<Rightarrow> conv v \<noteq> None)
      else conv (scalar_value n) \<noteq> None)"

definition get_float :: "ycpp \<Rightarrow> node \<Rightarrow> cfloat result" where
  "get_float y n = get_value (convert_float y) n"

definition get_uint :: "node \<Rightarrow> 32 word result" where
  "get_uint n = get_value convert_uint n"

definition get_int :: "node \<Rightarrow> int result" where
  "get_int n = get_value convert_int n"

definition get_bool :: "node \<Rightarrow> bool result" where
  "get_bool n = get_value convert_bool n"

definition get_string :: "node \<Rightarrow> string result" where
  "get_string n = get_value convert_string n"

definition determine_scalar_type :: "ycpp \<Rightarrow> node \<Rightarrow> ntype result" where
  "determine_scalar_type y n =
     (if is_type convert_uint n then
        (case get_int n of Inl e \<Rightarrow> Inl e | Inr v \<Rightarrow> Inr (if v \<ge> 0 then UINT32 else INT32))
      else if is_type convert_int n then Inr INT32
      else if is_type (convert_float y) n then Inr FLOAT
      else if is_type convert_bool n then Inr BOOL
      else if is_type convert_string n then Inr STRING
      else Inr UNKNOWN)"

text \<open>The scalar is stored before its type is determined, so it stays when that throws.\<close>

definition set_scalar :: "ycpp \<Rightarrow> string \<Rightarrow> node \<Rightarrow> node mutation" where
  "set_scalar y s n =
     (let n1 = with_scalar s n in
      case determine_scalar_type y n1 of Inl e \<Rightarrow> throwing e n1 | Inr t \<Rightarrow> ok (with_type t n1))"

definition set_scalar_list :: "string list \<Rightarrow> node \<Rightarrow> node mutation" where
  "set_scalar_list s n = ok (with_type SEQUENCE (with_list s n))"

fun collect :: "('a \<Rightarrow> 'b result) \<Rightarrow> 'a list \<Rightarrow> 'b list result" where
  "collect f [] = Inr []"
| "collect f (x # xs) =
     (case f x of Inl e \<Rightarrow> Inl e
      | Inr v \<Rightarrow> (case collect f xs of Inl e \<Rightarrow> Inl e | Inr vs \<Rightarrow> Inr (v # vs)))"

definition not_a_list :: "node \<Rightarrow> exn" where
  "not_a_list n =
     FawkesException (''YamlConfiguration: value of '' @ node_name n @ '' is not a list'')"

definition get_list :: "(string \<Rightarrow> 'a option) \<Rightarrow> node \<Rightarrow> 'a list result" where
  "get_list conv n =
     (if node_type n \<noteq> SEQUENCE then Inl (not_a_list n)
      else collect (\<lambda>v. case conv v of
             Some t \<Rightarrow> Inr t
           | None \<Rightarrow> Inl (FawkesException (''YamlConfig: value or type error on '' @ node_name n)))
           (list_values n))"

definition get_list_size :: "node \<Rightarrow> nat result" where
  "get_list_size n =
     (if node_type n \<noteq> SEQUENCE then Inl (not_a_list n) else Inr (length (list_values n)))"

definition quoted :: "string \<Rightarrow> string" where
  "quoted v = '' '' @ [CHR 0x22] @ v @ [CHR 0x22]"

definition get_list_as_string :: "ycpp \<Rightarrow> node \<Rightarrow> string result" where
  "get_list_as_string y n =
     (if node_type n \<noteq> SEQUENCE then Inl (not_a_list n)
      else case list_values n of
        [] \<Rightarrow> Inr []
      | v # vs \<Rightarrow>
          (case determine_scalar_type y n of
             Inl e \<Rightarrow> Inl e
           | Inr t \<Rightarrow>
               if t = STRING then Inr (concat (map quoted (v # vs)))
               else Inr (v @ concat (map (\<lambda>w. '' '' @ w) vs))))"

definition non_leaf :: "string \<Rightarrow> exn" where
  "non_leaf path =
     FawkesException (''YamlConfig: cannot set value on non-leaf path node '' @ path)"

definition set_value_here :: "ycpp \<Rightarrow> string \<Rightarrow> string \<Rightarrow> node \<Rightarrow> node mutation" where
  "set_value_here y path text n =
     (if has_children n then throwing (non_leaf path) n else set_scalar y text n)"

definition set_list_here :: "string \<Rightarrow> string list \<Rightarrow> node \<Rightarrow> node mutation" where
  "set_list_here path texts n =
     (if has_children n then throwing (non_leaf path) n else set_scalar_list texts n)"

text \<open>
  The template argument is the printer \<open>StringConversions::to_string\<close> of its type.
\<close>

definition set_value :: "ycpp \<Rightarrow> ('a \<Rightarrow> string) \<Rightarrow> string \<Rightarrow> 'a \<Rightarrow> node \<Rightarrow> node mutation" where
  "set_value y to_str path t n = find_or_insert n path (set_value_here y path (to_str t))"

definition set_list :: "('a \<Rightarrow> string) \<Rightarrow> string \<Rightarrow> 'a list \<Rightarrow> node \<Rightarrow> node mutation" where
  "set_list to_str path ts n = find_or_insert n path (set_list_here path (map to_str ts))"

definition set_own_value :: "ycpp \<Rightarrow> ('a \<Rightarrow> string) \<Rightarrow> 'a \<Rightarrow> node \<Rightarrow> node mutation" where
  "set_own_value y to_str t n = set_value_here y (node_name n) (to_str t) n"

definition set_own_list :: "('a \<Rightarrow> string) \<Rightarrow> 'a list \<Rightarrow> node \<Rightarrow> node mutation" where
  "set_own_list to_str ts n = set_list_here (node_name n) (map to_str ts) n"

text \<open>\<open>set_default(bool)\<close> assigns the member to itself.\<close>

definition set_default_here :: "bool \<Rightarrow> node \<Rightarrow> node mutation" where
  "set_default_here is_default n = ok n"

definition set_default :: "string \<Rightarrow> bool \<Rightarrow> node \<Rightarrow> node mutation" where
  "set_default path is_default n =
     (case find_node n path of Inl e \<Rightarrow> throwing e n | Inr _ \<Rightarrow> ok n)"

section \<open>From a document\<close>

definition set_sequence :: "ycpp \<Rightarrow> ynode \<Rightarrow> node \<Rightarrow> node result" where
  "set_sequence y doc n =
     (case doc of
        YSequence _ items \<Rightarrow>
          (case collect (as_string y) items of
             Inl e \<Rightarrow> Inl e
           | Inr vs \<Rightarrow> Inr (with_type SEQUENCE (with_list vs n)))
      | _ \<Rightarrow> Inl (FawkesException ''Cannot initialize list from non-sequence''))"

definition node_of_doc :: "ycpp \<Rightarrow> string \<Rightarrow> ynode \<Rightarrow> node result" where
  "node_of_doc y nm doc =
     (let n = Node nm UNKNOWN (yscalar doc) [] [] False in
      case doc of
        YNull _ \<Rightarrow> Inr (with_type NONE n)
      | YScalar _ _ \<Rightarrow>
          (case determine_scalar_type y n of Inl e \<Rightarrow> Inl e | Inr t \<Rightarrow> Inr (with_type t n))
      | YSequence _ _ \<Rightarrow> set_sequence y doc (with_type SEQUENCE n)
      | YMap _ _ \<Rightarrow> Inr (with_type MAP n)
      | YUndefined \<Rightarrow> Inr n)"

section \<open>Whole trees\<close>

text \<open>
  \<open>t += n\<close>. A node named \<open>root\<close> is merged into \<open>t\<close> itself, any other into the
  child of its name, which is created as a copy without children when missing.
\<close>

definition plus_step :: "node \<Rightarrow> (node \<Rightarrow> node mutation) \<Rightarrow> node \<Rightarrow> node mutation" where
  "plus_step n merge t =
     (if node_name n = ''root'' then merge t
      else
        (let t1 = (if child_at t (node_name n) = None then put_child (node_name n) (copy_node n) t
                   else t)
         in case child_at t1 (node_name n) of
              None \<Rightarrow> ok t1
            | Some c \<Rightarrow> (let (c', e) = merge c in (put_child (node_name n) c' t1, e))))"

fun merge_into :: "ycpp \<Rightarrow> node \<Rightarrow> node \<Rightarrow> node mutation"
and plus_children :: "ycpp \<Rightarrow> (string \<times> node) list \<Rightarrow> node \<Rightarrow> node mutation" where
  "merge_into y (Node nm ty s cs l d) add_to =
     (if is_scalar add_to then
        (if \<not> is_scalar_type ty then
           throwing (FawkesException (''YamlConfig: cannot overwrite scalar value ''
             @ node_name add_to @ '' with non-scalar'')) add_to
         else set_scalar y s add_to)
      else plus_children y cs add_to)"
| "plus_children y [] t = ok t"
| "plus_children y (kc # cs) t =
     andThen (plus_step (snd kc) (\<lambda>c. merge_into y (snd kc) c) t) (\<lambda>t'. plus_children y cs t')"

definition plus_eq :: "ycpp \<Rightarrow> node \<Rightarrow> node \<Rightarrow> node mutation" where
  "plus_eq y n t = plus_step n (\<lambda>c. merge_into y n c) t"

fun enum_leafs :: "node \<Rightarrow> string \<Rightarrow> (string \<times> node) list \<Rightarrow> (string \<times> node) list"
and enum_children :: "(string \<times> node) list \<Rightarrow> string \<Rightarrow> (string \<times> node) list \<Rightarrow> (string \<times> node) list"
where
  "enum_leafs (Node nm ty s cs l d) prefix nodes = enum_children cs prefix nodes"
| "enum_children [] prefix nodes = nodes"
| "enum_children (kc # cs) prefix nodes =
     (let path = prefix @ slash # fst kc in
      enum_children cs prefix
        (if has_children (snd kc) then enum_leafs (snd kc) path nodes
         else smap_ins path (snd kc) nodes))"

definition leafs :: "node \<Rightarrow> (string \<times> node) list" where
  "leafs n = enum_leafs n [] []"

definition diff_nodes :: "node \<Rightarrow> node \<Rightarrow> string list" where
  "diff_nodes a b =
     (let na = leafs a; nb = leafs b in
      map fst (filter (\<lambda>(p, x). case map_of nb p of None \<Rightarrow> True | Some x' \<Rightarrow> node_neq x x') na)
      @ map fst (filter (\<lambda>(p, _). map_of na p = None) nb))"

text \<open>What \<open>emit\<close> sends to the \<open>YAML::Emitter\<close>, in order.\<close>

datatype yevent = BeginMap | EndMap | KeyEv string | ValueBegin | ValueEv string

fun emit_events :: "node \<Rightarrow> yevent list"
and emit_children :: "(string \<times> node) list \<Rightarrow> yevent list" where
  "emit_events (Node nm ty s cs l d) =
     (if cs \<noteq> [] then BeginMap # emit_children cs @ [EndMap] else [])"
| "emit_children [] = []"
| "emit_children (kc # cs) =
     (if has_children (snd kc) then KeyEv (fst kc) # ValueBegin # emit_events (snd kc)
      else [KeyEv (fst kc), ValueEv (scalar_value (snd kc))]) @ emit_children cs"

text \<open>The lines \<open>print\<close> writes to standard output.\<close>

fun print_node :: "node \<Rightarrow> string \<Rightarrow> string"
and print_children :: "(string \<times> node) list \<Rightarrow> string \<Rightarrow> string" where
  "print_node (Node nm ty s cs l d) indent =
     indent @ nm @ '' : '' @
     (if cs \<noteq> [] then CHR 0x0A # print_children cs (indent @ ''  '')
      else indent @ s @ '' ('' @ type_to_string ty @ '')'' @ [CHR 0x0A])"
| "print_children [] indent = []"
| "print_children (kc # cs) indent = print_node (snd kc) indent @ print_children cs indent"

end
