(* ===== verification/Yaml_Laws.thy ===== *)
theory Yaml_Laws imports Yaml_Node "HOL-Library.Sublist"
begin

text \<open>
  The laws of the configuration tree: well-formed trees and what keeps them so,
  the tree as a partial function from paths to nodes, and the effect of insertion,
  erasure, enumeration and merging on that function.
\<close>

section \<open>Well-formed trees\<close>

definition good_key :: "string \<Rightarrow> bool" where
  "good_key k \<longleftrightarrow> k \<noteq> [] \<and> slash \<notin> set k"

fun wf_node :: "node \<Rightarrow> bool" and wf_children :: "(string \<times> node) list \<Rightarrow> bool" where
  "wf_node (Node nm t s cs l d) \<longleftrightarrow> smap_ok cs \<and> wf_children cs"
| "wf_children [] \<longleftrightarrow> True"
| "wf_children (kc # cs) \<longleftrightarrow>
     node_name (snd kc) = fst kc \<and> good_key (fst kc) \<and> wf_node (snd kc) \<and> wf_children cs"

lemma wf_children_iff:
  "wf_children cs \<longleftrightarrow>
   (\<forall>k c. (k, c) \<in> set cs \<longrightarrow> node_name c = k \<and> good_key k \<and> wf_node c)"
  by (induction cs) auto

lemma wf_node_iff:
  "wf_node n \<longleftrightarrow>
   smap_ok (children n) \<and>
   (\<forall>k c. child_at n k = Some c \<longrightarrow> node_name c = k \<and> good_key k \<and> wf_node c)"
proof (cases n)
  case (Node nm t s cs l d)
  have "wf_children cs \<longleftrightarrow>
      (\<forall>k c. map_of cs k = Some c \<longrightarrow> node_name c = k \<and> good_key k \<and> wf_node c)"
    if "smap_ok cs"
    unfolding wf_children_iff by (simp add: smap_ok_lookup [OF that])
  then show ?thesis unfolding Node child_at_def by (simp, blast)
qed

lemma wf_child:
  "wf_node n \<Longrightarrow> child_at n k = Some c \<Longrightarrow> node_name c = k \<and> good_key k \<and> wf_node c"
  using wf_node_iff [of n] by blast

lemma wf_sorted: "wf_node n \<Longrightarrow> smap_ok (children n)"
  using wf_node_iff [of n] by blast

lemma wf_with [simp]:
  "wf_node (with_type t n) = wf_node n" "wf_node (with_scalar s n) = wf_node n"
  "wf_node (with_list l n) = wf_node n"
  by (cases n; simp)+

lemma wf_leaf [simp]: "wf_node root_node" "wf_node (new_node p)" "wf_node (copy_node n)"
  by (simp_all add: root_node_def new_node_def copy_node_def)

lemma new_node_sel [simp]:
  "node_name (new_node p) = p" "children (new_node p) = []" "node_type (new_node p) = NONE"
  by (simp_all add: new_node_def)

lemma copy_node_sel [simp]:
  "node_name (copy_node n) = node_name n" "children (copy_node n) = []"
  "node_type (copy_node n) = node_type n" "scalar_value (copy_node n) = scalar_value n"
  by (simp_all add: copy_node_def)

lemma child_at_with [simp]:
  "child_at (with_type t n) = child_at n" "child_at (with_scalar s n) = child_at n"
  "child_at (with_list l n) = child_at n"
  by (simp_all add: child_at_def fun_eq_iff)

lemma has_children_with [simp]:
  "has_children (with_type t n) = has_children n" "has_children (with_scalar s n) = has_children n"
  "has_children (with_list l n) = has_children n"
  by (simp_all add: has_children_def)

lemma has_children_iff: "has_children n \<longleftrightarrow> (\<exists>k. child_at n k \<noteq> None)"
  by (cases "children n") (auto simp: has_children_def child_at_def)

lemma child_at_put:
  "wf_node n \<Longrightarrow> child_at (put_child p c n) k = (if k = p then Some c else child_at n k)"
  by (simp add: child_at_def put_child_def wf_sorted smap.find_put)

lemma child_at_add:
  "wf_node n \<Longrightarrow> child_at (add_child p c n) k = (if k = p then Some c else child_at n k)"
  by (simp add: child_at_def add_child_def wf_sorted smap.find_put)

lemma put_child_children: "children (put_child p c n) = smap_ins p c (children n)"
  by (simp add: put_child_def)

lemma wf_put_child:
  "wf_node n \<Longrightarrow> wf_node c \<Longrightarrow> node_name c = p \<Longrightarrow> good_key p \<Longrightarrow> wf_node (put_child p c n)"
  unfolding wf_node_iff [of "put_child p c n"]
  by (auto simp: child_at_put put_child_children smap_ins_ok wf_sorted dest: wf_child split: if_splits)

lemma add_child_put: "add_child p c n = with_type MAP (put_child p c n)"
  by (simp add: add_child_def put_child_def)

lemma wf_add_child:
  "wf_node n \<Longrightarrow> wf_node c \<Longrightarrow> node_name c = p \<Longrightarrow> good_key p \<Longrightarrow> wf_node (add_child p c n)"
  by (simp add: add_child_put wf_put_child)

lemma wf_del_child:
  "wf_node n \<Longrightarrow> wf_node (with_children (smap_del p (children n)) n)"
  unfolding wf_node_iff [of "with_children _ _"]
  by (auto simp: smap_del_ok wf_sorted child_at_def split: if_splits
        dest: wf_child [unfolded child_at_def])

lemma put_child_sel [simp]:
  "node_name (put_child p c n) = node_name n" "node_type (put_child p c n) = node_type n"
  "scalar_value (put_child p c n) = scalar_value n" "list_values (put_child p c n) = list_values n"
  by (simp_all add: put_child_def)

lemma put_child_has [simp]: "has_children (put_child p c n)"
  unfolding has_children_def put_child_def by (cases "children n") (auto split: if_splits)

lemma add_child_name [simp]: "node_name (add_child p c n) = node_name n"
  by (simp add: add_child_def)

section \<open>The tree as a function of paths\<close>

fun lookup :: "node \<Rightarrow> string list \<Rightarrow> node option" where
  "lookup n [] = Some n"
| "lookup n (p # q) = (case child_at n p of None \<Rightarrow> None | Some c \<Rightarrow> lookup c q)"

definition leaf_at :: "node \<Rightarrow> string list \<Rightarrow> node \<Rightarrow> bool" where
  "leaf_at n q m \<longleftrightarrow> lookup n q = Some m \<and> \<not> has_children m"

lemma find_from_lookup: "find_from path n q = Inr m \<longleftrightarrow> lookup n q = Some m"
  by (induction path n q rule: find_from.induct) (auto split: option.splits)

lemma lookup_append:
  "lookup n (q @ q') = (case lookup n q of None \<Rightarrow> None | Some m \<Rightarrow> lookup m q')"
  by (induction n q rule: lookup.induct) (auto split: option.splits)

lemma lookup_wf: "wf_node n \<Longrightarrow> lookup n q = Some m \<Longrightarrow> wf_node m \<and> list_all good_key q"
  by (induction n q rule: lookup.induct) (auto split: option.splits dest: wf_child)

lemma lookup_name: "wf_node n \<Longrightarrow> lookup n q = Some m \<Longrightarrow> q \<noteq> [] \<Longrightarrow> node_name m = last q"
  by (induction n q rule: lookup.induct) (auto split: option.splits if_splits dest: wf_child)

lemma find_from_error:
  "find_from path n q = Inl e \<Longrightarrow>
   \<exists>i < length q. lookup n (take i q) \<noteq> None \<and> lookup n (take (Suc i) q) = None \<and>
     e = ConfigEntryNotFoundException (path @ join_path slash (take (Suc i) q))"
proof (induction path n q rule: find_from.induct)
  case (2 path n pel q)
  show ?case
  proof (cases "child_at n pel")
    case None
    then show ?thesis using 2(2) by (auto intro: exI [of _ 0])
  next
    case (Some c)
    then have "find_from (path @ slash # pel) c q = Inl e" using 2(2) by simp
    then obtain i where "i < length q" "lookup c (take i q) \<noteq> None"
        "lookup c (take (Suc i) q) = None"
        "e = ConfigEntryNotFoundException ((path @ slash # pel) @ join_path slash (take (Suc i) q))"
      using 2(1) [OF refl Some] by blast
    then show ?thesis using Some by (auto intro!: exI [of _ "Suc i"])
  qed
qed simp

definition good_path :: "string list \<Rightarrow> bool" where
  "good_path q \<longleftrightarrow> list_all good_key q"

lemma split_good: "good_path (str_split_to_queue slash path)"
  by (auto simp: good_path_def list_all_iff good_key_def split_queue_eq dest: str_split_items)

lemma split_join_good: "good_path q \<Longrightarrow> str_split_to_queue slash (join_path slash q) = q"
  by (auto simp: split_queue_eq good_path_def list_all_iff good_key_def intro!: str_split_join)

lemma join_path_inj: "good_path q \<Longrightarrow> good_path q' \<Longrightarrow> join_path slash q = join_path slash q' \<Longrightarrow> q = q'"
  by (metis split_join_good)

section \<open>Insertion and assignment\<close>

text \<open>The node \<open>find_or_insert\<close> reaches, before it is changed.\<close>

definition target :: "node \<Rightarrow> string list \<Rightarrow> node" where
  "target n q = (case lookup n q of Some m \<Rightarrow> m | None \<Rightarrow> new_node (last q))"

text \<open>A change that keeps trees well-formed and leaves the node's name alone.\<close>

definition keeps_shape :: "(node \<Rightarrow> node mutation) \<Rightarrow> bool" where
  "keeps_shape f \<longleftrightarrow> (\<forall>m. wf_node m \<longrightarrow> wf_node (fst (f m)) \<and> node_name (fst (f m)) = node_name m)"

lemma at_path_Cons:
  assumes "wf_node n" and "good_key p"
  defines "c \<equiv> (case child_at n p of Some c \<Rightarrow> c | None \<Rightarrow> new_node p)"
  shows "\<exists>n1. wf_node n1 \<and> node_name n1 = node_name n \<and>
           (\<forall>k. k \<noteq> p \<longrightarrow> child_at n1 k = child_at n k) \<and>
           at_path f n (p # q) = (put_child p (fst (at_path f c q)) n1, snd (at_path f c q))"
proof -
  define n1 where "n1 = (if child_at n p = None then add_child p (new_node p) n else n)"
  have n1: "wf_node n1" "node_name n1 = node_name n" "child_at n1 p = Some c"
      "\<forall>k. k \<noteq> p \<longrightarrow> child_at n1 k = child_at n k"
    using assms by (auto simp: n1_def c_def wf_add_child child_at_add)
  then have "at_path f n (p # q) = (put_child p (fst (at_path f c q)) n1, snd (at_path f c q))"
    by (simp add: n1_def [symmetric] split: prod.splits)
  with n1 show ?thesis by blast
qed

lemma at_path_wf:
  assumes "keeps_shape f" "wf_node n" "good_path q"
  shows "wf_node (fst (at_path f n q)) \<and> node_name (fst (at_path f n q)) = node_name n"
  using assms(2,3)
proof (induction q arbitrary: n)
  case Nil
  then show ?case using assms(1) by (simp add: keeps_shape_def)
next
  case (Cons p q)
  define c where "c = (case child_at n p of Some c \<Rightarrow> c | None \<Rightarrow> new_node p)"
  have p: "good_key p" "good_path q" using Cons.prems by (simp_all add: good_path_def)
  have c: "wf_node c" "node_name c = p"
    using Cons.prems wf_child by (auto simp: c_def split: option.splits)
  obtain n1 where n1: "wf_node n1" "node_name n1 = node_name n"
      "at_path f n (p # q) = (put_child p (fst (at_path f c q)) n1, snd (at_path f c q))"
    using at_path_Cons [OF Cons.prems(1) p(1), of f q] unfolding c_def by blast
  show ?case using Cons.IH [OF c(1) p(2)] n1 c p by (simp add: wf_put_child)
qed

lemma lookup_new_node: "q \<noteq> [] \<Longrightarrow> lookup (new_node p) q = None"
  by (cases q) (simp_all add: child_at_def)

lemma target_Cons:
  "target (case child_at n p of Some c \<Rightarrow> c | None \<Rightarrow> new_node p) q = target n (p # q)"
  by (cases "child_at n p"; cases "q = []")
     (simp_all add: target_def lookup_new_node split: option.split)

lemma at_path_same:
  assumes "keeps_shape f" "wf_node n" "good_path q"
  shows "lookup (fst (at_path f n q)) q = Some (fst (f (target n q))) \<and>
         snd (at_path f n q) = snd (f (target n q))"
  using assms(2,3)
proof (induction q arbitrary: n)
  case Nil
  then show ?case by (simp add: target_def)
next
  case (Cons p q)
  define c where "c = (case child_at n p of Some c \<Rightarrow> c | None \<Rightarrow> new_node p)"
  have p: "good_key p" "good_path q" using Cons.prems by (simp_all add: good_path_def)
  have c: "wf_node c"
    using Cons.prems wf_child by (auto simp: c_def split: option.splits)
  obtain n1 where n1: "wf_node n1"
      "at_path f n (p # q) = (put_child p (fst (at_path f c q)) n1, snd (at_path f c q))"
    using at_path_Cons [OF Cons.prems(1) p(1), of f q] unfolding c_def by blast
  have "target c q = target n (p # q)" by (simp add: c_def target_Cons)
  then show ?case using Cons.IH [OF c p(2)] n1 by (simp add: child_at_put)
qed

lemma at_path_other:
  assumes "keeps_shape f" "wf_node n" "good_path q" "\<not> prefix q q'" "\<not> prefix q' q"
  shows "lookup (fst (at_path f n q)) q' = lookup n q'"
  using assms(2-)
proof (induction q arbitrary: n q')
  case (Cons p q)
  define c where "c = (case child_at n p of Some c \<Rightarrow> c | None \<Rightarrow> new_node p)"
  have p: "good_key p" "good_path q" using Cons.prems by (simp_all add: good_path_def)
  have c: "wf_node c"
    using Cons.prems wf_child by (auto simp: c_def split: option.splits)
  obtain n1 where n1: "wf_node n1" "\<forall>k. k \<noteq> p \<longrightarrow> child_at n1 k = child_at n k"
      "at_path f n (p # q) = (put_child p (fst (at_path f c q)) n1, snd (at_path f c q))"
    using at_path_Cons [OF Cons.prems(1) p(1), of f q] unfolding c_def by blast
  obtain p' r where q': "q' = p' # r" using Cons.prems by (cases q') auto
  show ?case
  proof (cases "p' = p")
    case False
    then show ?thesis using n1 q' by (simp add: child_at_put)
  next
    case True
    then have "\<not> prefix q r" "\<not> prefix r q" using Cons.prems q' by auto
    then have "lookup (fst (at_path f c q)) r = lookup c r"
      using Cons.IH c p by blast
    moreover have "r \<noteq> []" using \<open>\<not> prefix r q\<close> by auto
    then have "lookup c r = lookup n q'"
      using q' True by (cases "child_at n p") (simp_all add: c_def lookup_new_node)
    ultimately show ?thesis using n1 q' True by (simp add: child_at_put)
  qed
qed simp

lemma leaf_at_Cons:
  "leaf_at n (p # r) m \<longleftrightarrow> (\<exists>c. child_at n p = Some c \<and> leaf_at c r m)"
  by (auto simp: leaf_at_def split: option.splits)

lemma leaf_at_childless: "\<not> has_children c \<Longrightarrow> leaf_at c r m \<longleftrightarrow> r = [] \<and> m = c"
  by (cases r) (auto simp: leaf_at_def has_children_iff)

lemma inner_has_children: "lookup c q = Some m \<Longrightarrow> q \<noteq> [] \<Longrightarrow> has_children c"
  by (cases q) (auto simp: has_children_iff split: option.splits)

lemma leaf_at_inner: "has_children c \<Longrightarrow> \<not> leaf_at c [] m"
  by (auto simp: leaf_at_def)

lemma leaf_prefix:
  assumes "leaf_at n q m" and "lookup n q' = Some m'" and "prefix q q'"
  shows "q' = q"
proof -
  obtain r where r: "q' = q @ r" using assms(3) by (auto simp: prefix_def)
  then have "lookup m r = Some m'" using assms(1,2) by (simp add: lookup_append leaf_at_def)
  then have "r = []" using assms(1) inner_has_children [of m r m'] by (auto simp: leaf_at_def)
  then show ?thesis using r by simp
qed

text \<open>
  The leaves of a tree after a change of the node at \<open>q\<close> to a leaf: that leaf and
  the former leaves at the paths that neither extend \<open>q\<close> nor lead to it.
\<close>

lemma at_path_leaves:
  assumes f: "keeps_shape f" and n: "wf_node n" and q: "good_path q"
    and leaf: "\<not> has_children (fst (f (target n q)))"
  shows "leaf_at (fst (at_path f n q)) q' m \<longleftrightarrow>
    (q' = q \<and> m = fst (f (target n q))) \<or> (\<not> prefix q q' \<and> \<not> prefix q' q \<and> leaf_at n q' m)"
proof -
  let ?n = "fst (at_path f n q)"
  have at_q: "leaf_at ?n q (fst (f (target n q)))"
    using at_path_same [OF f n q] leaf by (simp add: leaf_at_def)
  show ?thesis
  proof (cases "prefix q q' \<or> prefix q' q")
    case True
    have "q' = q \<and> m = fst (f (target n q))" if l: "leaf_at ?n q' m"
    proof -
      have "q' = q"
        using True leaf_prefix [OF at_q, of q' m] leaf_prefix [OF l, of q] at_q l
        by (auto simp: leaf_at_def)
      then show ?thesis using l at_q by (simp add: leaf_at_def)
    qed
    then show ?thesis using True at_q by auto
  next
    case False
    then show ?thesis using at_path_other [OF f n q, of q'] by (auto simp: leaf_at_def)
  qed
qed

section \<open>Erasure\<close>

lemma erase_walk_spec:
  assumes "wf_node n" and "leaf_at n q l"
  defines "n' \<equiv> fst (erase_walk n q)"
  shows "wf_node n'" and "node_name n' = node_name n"
    and "snd (erase_walk n q) \<longleftrightarrow> \<not> has_children n'"
    and "r \<noteq> [] \<Longrightarrow> leaf_at n' r m \<longleftrightarrow> leaf_at n r m \<and> r \<noteq> q"
proof -
  have "wf_node (fst (erase_walk n q)) \<and> node_name (fst (erase_walk n q)) = node_name n \<and>
      (snd (erase_walk n q) \<longleftrightarrow> \<not> has_children (fst (erase_walk n q))) \<and>
      (\<forall>r m. r \<noteq> [] \<longrightarrow> (leaf_at (fst (erase_walk n q)) r m \<longleftrightarrow> leaf_at n r m \<and> r \<noteq> q))"
    using assms(1,2)
  proof (induction q arbitrary: n)
    case Nil
    then show ?case by (auto simp: leaf_at_def)
  next
    case (Cons p q)
    obtain c where c: "child_at n p = Some c" "leaf_at c q l"
      using Cons.prems by (auto simp: leaf_at_Cons)
    have wfc: "wf_node c" "node_name c = p" "good_key p"
      using wf_child [OF Cons.prems(1) c(1)] by auto
    obtain c' go where e: "erase_walk c q = (c', go)" by fastforce
    have ih: "wf_node c'" "node_name c' = p" "go \<longleftrightarrow> \<not> has_children c'"
        "\<And>r m. r \<noteq> [] \<Longrightarrow> leaf_at c' r m \<longleftrightarrow> leaf_at c r m \<and> r \<noteq> q"
      using Cons.IH [OF wfc(1) c(2)] e wfc by auto
    define n1 where "n1 = put_child p c' n"
    have n1: "wf_node n1" "\<And>k. child_at n1 k = (if k = p then Some c' else child_at n k)"
      using Cons.prems ih wfc by (simp_all add: n1_def wf_put_child child_at_put)
    have inner: "leaf_at c [] m \<longrightarrow> q = []" for m
      using c(2) inner_has_children by (fastforce simp: leaf_at_def)
    have leafc: "q = [] \<Longrightarrow> leaf_at c r m \<Longrightarrow> r = []" for r m
      using c(2) leaf_at_childless [of c r m] by (auto simp: leaf_at_def)
    show ?case
    proof (cases go)
      case False
      have res: "erase_walk n (p # q) = (n1, False)"
        using c e False by (simp add: n1_def)
      have "leaf_at n1 r m \<longleftrightarrow> leaf_at n r m \<and> r \<noteq> p # q" if ne: "r \<noteq> []" for r m
      proof -
        obtain p' r' where r: "r = p' # r'" using ne by (cases r) auto
        have "leaf_at c' r' m \<longleftrightarrow> leaf_at c r' m \<and> r' \<noteq> q"
        proof (cases "r' = []")
          case True
          then show ?thesis using ih(3) False inner leaf_at_inner by auto
        qed (simp add: ih)
        then show ?thesis using n1 c r by (simp add: leaf_at_Cons)
      qed
      then show ?thesis using res n1 by (simp add: n1_def)
    next
      case True
      define n2 where "n2 = with_children (smap_del p (children n1)) n1"
      have n2: "wf_node n2" "\<And>k. child_at n2 k = (if k = p then None else child_at n k)"
        using n1 wf_del_child by (auto simp: n2_def child_at_def)
      have res: "erase_walk n (p # q) = (n2, \<not> has_children n2)"
        using c e True ih(2) by (simp add: n1_def n2_def Let_def)
      have "leaf_at n2 r m \<longleftrightarrow> leaf_at n r m \<and> r \<noteq> p # q" if ne: "r \<noteq> []" for r m
      proof -
        obtain p' r' where r: "r = p' # r'" using ne by (cases r) auto
        have "\<not> (leaf_at c r' m \<and> r' \<noteq> q)"
        proof (cases "r' = []")
          case True
          then show ?thesis using inner by auto
        next
          case False
          then show ?thesis
            using ih(3,4) True leafc leaf_at_childless [of c' r' m] by auto
        qed
        then show ?thesis using n2 c r by (auto simp: leaf_at_Cons)
      qed
      then show ?thesis using res n2 by (simp add: n2_def n1_def)
    qed
  qed
  then show "wf_node n'" "node_name n' = node_name n"
    "snd (erase_walk n q) \<longleftrightarrow> \<not> has_children n'"
    "r \<noteq> [] \<Longrightarrow> leaf_at n' r m \<longleftrightarrow> leaf_at n r m \<and> r \<noteq> q"
    unfolding n'_def by blast+
qed

section \<open>Enumeration\<close>

text \<open>
  \<open>enum_leafs\<close> collects the leaves of a tree by path. Its effect on the map it is
  given: every leaf below the prefix is entered, and nothing else changes.
\<close>

definition below :: "string \<Rightarrow> (string \<times> node) list \<Rightarrow> string \<Rightarrow> node \<Rightarrow> bool" where
  "below pre cs p m \<longleftrightarrow>
     (\<exists>k c q. (k, c) \<in> set cs \<and> leaf_at c q m \<and> p = pre @ join_path slash (k # q))"

lemma below_Cons: "below pre (kc # cs) p m \<longleftrightarrow> below pre [kc] p m \<or> below pre cs p m"
  unfolding below_def by (cases kc) (simp, blast)

lemma below_leaf:
  "\<not> has_children c \<Longrightarrow> below pre [(k, c)] p m \<longleftrightarrow> p = pre @ slash # k \<and> m = c"
  unfolding below_def by (auto simp: leaf_at_childless)

lemma below_inner:
  assumes "has_children c" and "wf_node c"
  shows "below pre [(k, c)] p m \<longleftrightarrow> below (pre @ slash # k) (children c) p m"
proof
  assume "below pre [(k, c)] p m"
  then obtain q where q: "leaf_at c q m" "p = pre @ join_path slash (k # q)"
    unfolding below_def by auto
  then obtain k' q' where "q = k' # q'" using assms(1) leaf_at_inner by (cases q) auto
  then show "below (pre @ slash # k) (children c) p m"
    using q assms(2) unfolding below_def
    by (auto simp: leaf_at_Cons child_at_def smap_ok_lookup [OF wf_sorted])
next
  assume "below (pre @ slash # k) (children c) p m"
  then obtain k' c' q where "child_at c k' = Some c'" "leaf_at c' q m"
      "p = (pre @ slash # k) @ join_path slash (k' # q)"
    using assms(2) unfolding below_def by (auto simp: child_at_def smap_ok_lookup [OF wf_sorted])
  then show "below pre [(k, c)] p m"
    unfolding below_def by (auto simp: leaf_at_Cons intro!: exI [of _ "k' # q"])
qed

lemma first_key:
  "good_key k \<Longrightarrow> takeWhile (\<lambda>x. x \<noteq> slash) (k @ join_path slash q) = k"
proof -
  assume "good_key k"
  then have k: "\<forall>x \<in> set k. x \<noteq> slash" by (auto simp: good_key_def)
  then have "takeWhile (\<lambda>x. x \<noteq> slash) k = k" by (auto simp: takeWhile_eq_all_conv)
  with k show ?thesis by (cases q) (simp_all add: takeWhile_append)
qed

lemma join_key:
  "k @ join_path slash q = k' @ join_path slash q' \<Longrightarrow> good_key k \<Longrightarrow> good_key k' \<Longrightarrow> k = k'"
  by (metis first_key)

lemma below_disjoint:
  assumes "smap_ok ((k, c) # cs)" "wf_children ((k, c) # cs)" "below pre [(k, c)] p m"
  shows "\<not> below pre cs p m'"
proof
  assume "below pre cs p m'"
  then obtain k' c' q' where k': "(k', c') \<in> set cs" "p = pre @ join_path slash (k' # q')"
    unfolding below_def by blast
  obtain q where "p = pre @ join_path slash (k # q)" using assms(3) unfolding below_def by auto
  then have "k @ join_path slash q = k' @ join_path slash q'" using k' by simp
  moreover have "good_key k" "good_key k'"
    using assms(2) k'(1) by (auto simp: wf_children_iff)
  ultimately have "k = k'" by (rule join_key)
  then show False using assms(1) k'(1) by (force simp: smap_ok_Cons)
qed

lemma enum_ok:
  "smap_ok nodes \<Longrightarrow> smap_ok (enum_leafs n pre nodes)"
  "smap_ok nodes \<Longrightarrow> smap_ok (enum_children cs pre nodes)"
  by (induction n pre nodes and cs pre nodes rule: enum_leafs_enum_children.induct)
     (simp_all add: smap_ins_ok Let_def)

lemma enum_map:
  "wf_node n \<Longrightarrow> smap_ok nodes \<Longrightarrow>
   map_of (enum_leafs n pre nodes) p = Some m \<longleftrightarrow>
   below pre (children n) p m \<or> ((\<forall>m'. \<not> below pre (children n) p m') \<and> map_of nodes p = Some m)"
  "smap_ok cs \<Longrightarrow> wf_children cs \<Longrightarrow> smap_ok nodes \<Longrightarrow>
   map_of (enum_children cs pre nodes) p = Some m \<longleftrightarrow>
   below pre cs p m \<or> ((\<forall>m'. \<not> below pre cs p m') \<and> map_of nodes p = Some m)"
proof (induction n pre nodes and cs pre nodes arbitrary: m and m
    rule: enum_leafs_enum_children.induct)
  case (1 nm ty s cs l d pre nodes)
  then show ?case by simp
next
  case (2 pre nodes)
  then show ?case by (simp add: below_def)
next
  case (3 kc cs pre nodes)
  obtain k c where kc: "kc = (k, c)" by (cases kc)
  define nodes' where "nodes' =
    (if has_children c then enum_leafs c (pre @ slash # k) nodes
     else smap_ins (pre @ slash # k) c nodes)"
  have wf: "wf_node c" "smap_ok cs" "wf_children cs"
    using 3(3,4) by (simp_all add: kc smap_ok_Cons)
  have nodes': "map_of nodes' p = Some x \<longleftrightarrow>
      below pre [kc] p x \<or> ((\<forall>m'. \<not> below pre [kc] p m') \<and> map_of nodes p = Some x)" for x
  proof (cases "has_children c")
    case True
    then show ?thesis
      using 3(1) [OF refl _ _ 3(5)] wf(1) by (simp add: kc nodes'_def below_inner)
  next
    case False
    then show ?thesis using 3(5) by (auto simp: kc nodes'_def below_leaf map_of_smap_ins)
  qed
  have ok: "smap_ok nodes'" using 3(5) by (simp add: nodes'_def enum_ok smap_ins_ok)
  have step: "enum_children (kc # cs) pre nodes = enum_children cs pre nodes'"
    by (simp add: kc nodes'_def Let_def)
  have rest: "map_of (enum_children cs pre nodes') p = Some m \<longleftrightarrow>
      below pre cs p m \<or> ((\<forall>m'. \<not> below pre cs p m') \<and> map_of nodes' p = Some m)"
    using 3(2) [OF refl wf(2,3)] ok unfolding kc nodes'_def snd_conv fst_conv by blast
  have "below pre [kc] p x \<Longrightarrow> \<not> below pre cs p x'" for x x'
    using below_disjoint 3(3,4) unfolding kc by blast
  then show ?case
    unfolding step rest nodes' below_Cons [of pre kc cs] by blast
qed

lemma leafs_ok: "smap_ok (leafs n)"
  by (simp add: leafs_def enum_ok)

lemma leafs_map:
  assumes "wf_node n"
  shows "map_of (leafs n) p = Some m \<longleftrightarrow> (\<exists>q. q \<noteq> [] \<and> leaf_at n q m \<and> p = join_path slash q)"
proof -
  have "map_of (leafs n) p = Some m \<longleftrightarrow> below [] (children n) p m"
    using enum_map(1) [OF assms smap_ok_Nil] by (simp add: leafs_def)
  also have "\<dots> \<longleftrightarrow> (\<exists>k q. leaf_at n (k # q) m \<and> p = join_path slash (k # q))"
    unfolding below_def leaf_at_Cons child_at_def smap_ok_lookup [OF wf_sorted [OF assms]] by auto
  also have "\<dots> \<longleftrightarrow> (\<exists>q. q \<noteq> [] \<and> leaf_at n q m \<and> p = join_path slash q)"
    by (metis list.exhaust list.distinct(1))
  finally show ?thesis .
qed

section \<open>Scalars\<close>

text \<open>
  Text that can become the scalar of a node: not an unsigned number beyond the range
  of \<open>int\<close>, because \<open>determine_scalar_type\<close> reads such a number as an \<open>int\<close>.
\<close>

definition settable :: "string \<Rightarrow> bool" where
  "settable s \<longleftrightarrow> convert_uint s = None \<or> convert_int s \<noteq> None"

lemma determine_scalar:
  assumes "node_type n \<noteq> SEQUENCE" and "settable (scalar_value n)"
  shows "\<exists>t. determine_scalar_type y n = Inr t \<and> is_scalar_type t"
  using assms by (auto simp: determine_scalar_type_def is_type_def get_int_def get_value_def
      settable_def convert_string_def split: option.splits)

lemma determine_not_settable:
  assumes "node_type n \<noteq> SEQUENCE" and "\<not> settable (scalar_value n)"
  shows "\<exists>e. determine_scalar_type y n = Inl e"
  using assms by (auto simp: determine_scalar_type_def is_type_def get_int_def get_value_def
      settable_def split: option.splits)

lemma set_scalar_ok:
  assumes "node_type n \<noteq> SEQUENCE" and "settable s"
  shows "\<exists>t. set_scalar y s n = ok (with_type t (with_scalar s n)) \<and> is_scalar_type t"
  using determine_scalar [of "with_scalar s n" y] assms by (auto simp: set_scalar_def)

lemma set_scalar_None:
  assumes "node_type n \<noteq> SEQUENCE"
  shows "snd (set_scalar y s n) = None \<longleftrightarrow> settable s"
proof (cases "settable s")
  case True
  then show ?thesis using set_scalar_ok [OF assms, of s y] by (auto simp: ok_def)
next
  case False
  then show ?thesis using determine_not_settable [of "with_scalar s n" y] assms
    by (auto simp: set_scalar_def throwing_def)
qed

lemma set_scalar_shape [simp]:
  "wf_node (fst (set_scalar y s n)) = wf_node n"
  "node_name (fst (set_scalar y s n)) = node_name n"
  "children (fst (set_scalar y s n)) = children n"
  "scalar_value (fst (set_scalar y s n)) = s"
  by (cases "determine_scalar_type y (with_scalar s n)"; simp add: set_scalar_def)+

lemma set_scalar_has [simp]: "has_children (fst (set_scalar y s n)) = has_children n"
  by (simp add: has_children_def)

lemma scalar_not_sequence: "is_scalar_type t \<Longrightarrow> t \<noteq> SEQUENCE"
  by auto

lemma set_value_here_keeps: "keeps_shape (set_value_here y path s)"
  by (simp add: keeps_shape_def set_value_here_def)

lemma set_list_here_keeps: "keeps_shape (set_list_here path l)"
  by (simp add: keeps_shape_def set_list_here_def set_scalar_list_def)

text \<open>
  The template parameter of \<open>set_value\<close> and \<open>get_value\<close>: a printer and a conversion
  that inverts it, on values whose text can be stored.
\<close>

locale scalar_codec =
  fixes to_str :: "'a \<Rightarrow> string" and conv :: "string \<Rightarrow> 'a option" and fits :: "'a \<Rightarrow> bool"
  assumes conv_to_str: "fits v \<Longrightarrow> conv (to_str v) = Some v"
    and to_str_settable: "fits v \<Longrightarrow> settable (to_str v)"
begin

lemma set_get_here:
  assumes "\<not> has_children n" "node_type n \<noteq> SEQUENCE" "fits v"
  shows "snd (set_value_here y path (to_str v) n) = None"
    and "get_value conv (fst (set_value_here y path (to_str v) n)) = Inr v"
    and "\<not> has_children (fst (set_value_here y path (to_str v) n))"
proof -
  obtain t where "set_scalar y (to_str v) n = ok (with_type t (with_scalar (to_str v) n))"
      "is_scalar_type t"
    using set_scalar_ok [OF assms(2) to_str_settable [OF assms(3)], of y] by blast
  then show "snd (set_value_here y path (to_str v) n) = None"
    "get_value conv (fst (set_value_here y path (to_str v) n)) = Inr v"
    "\<not> has_children (fst (set_value_here y path (to_str v) n))"
    using assms conv_to_str by (auto simp: set_value_here_def get_value_def)
qed

lemma set_get:
  assumes "wf_node n" and "\<not> has_children (target n q)" and "node_type (target n q) \<noteq> SEQUENCE"
    and "fits v" and "q = str_split_to_queue slash path"
  shows "snd (set_value y to_str path v n) = None \<and>
    (\<exists>m. leaf_at (fst (set_value y to_str path v n)) q m \<and> get_value conv m = Inr v)"
  using at_path_same [OF set_value_here_keeps [of y path "to_str v"] assms(1) split_good [of path]]
    set_get_here [OF assms(2-4), of y path] assms(5)
  by (auto simp: set_value_def find_or_insert_def leaf_at_def)

lemma get_list_map: "list_all fits vs \<Longrightarrow>
   collect (\<lambda>v. case conv v of Some t \<Rightarrow> Inr t | None \<Rightarrow> Inl e) (map to_str vs) = Inr vs"
  by (induction vs) (auto simp: conv_to_str)

lemma set_get_list:
  assumes "wf_node n" and "\<not> has_children (target n q)"
    and "list_all fits vs" and "q = str_split_to_queue slash path"
  shows "snd (set_list to_str path vs n) = None \<and>
    (\<exists>m. leaf_at (fst (set_list to_str path vs n)) q m \<and> get_list conv m = Inr vs)"
  using at_path_same [OF set_list_here_keeps [of path "map to_str vs"] assms(1) split_good [of path]]
    assms(2-4)
  by (auto simp: set_list_def find_or_insert_def leaf_at_def set_list_here_def
      set_scalar_list_def get_list_def get_list_map)

end

lemma convert_int_uint_text:
  "int (unat w) \<le> int_max \<Longrightarrow> convert_int (to_string_uint w) = Some (int (unat w))"
  by (simp add: convert_int_def to_string_uint_def scan_int_nat_digits int_min_def)

interpretation uint_codec:
  scalar_codec to_string_uint convert_uint "\<lambda>w. int (unat w) \<le> int_max"
  by unfold_locales (simp_all add: convert_uint_to_string settable_def convert_int_uint_text)

interpretation int_codec:
  scalar_codec to_string_int convert_int "\<lambda>i. int_min \<le> i \<and> i \<le> int_max"
  by unfold_locales (simp_all add: convert_int_to_string settable_def)

lemma bool_settable: "settable (to_string_bool b)"
  unfolding settable_def by (induction b) code_simp+

interpretation bool_codec: scalar_codec to_string_bool convert_bool "\<lambda>b. True"
  by unfold_locales (simp_all add: convert_bool_to_string bool_settable)

interpretation string_codec: scalar_codec "\<lambda>s. s" convert_string settable
  by unfold_locales (simp_all add: convert_string_def)

section \<open>Merging\<close>

text \<open>
  The trees that documents give: a scalar has no children, and no key is \<open>root\<close>
  (a child of that name would be merged into its parent).
\<close>

fun doc_tree :: "node \<Rightarrow> bool" and doc_children :: "(string \<times> node) list \<Rightarrow> bool" where
  "doc_tree (Node nm ty s cs l d) \<longleftrightarrow> (is_scalar_type ty \<longrightarrow> cs = []) \<and> doc_children cs"
| "doc_children [] \<longleftrightarrow> True"
| "doc_children (kc # cs) \<longleftrightarrow> fst kc \<noteq> ''root'' \<and> doc_tree (snd kc) \<and> doc_children cs"

lemma doc_children_iff:
  "doc_children cs \<longleftrightarrow> (\<forall>k c. (k, c) \<in> set cs \<longrightarrow> k \<noteq> ''root'' \<and> doc_tree c)"
  by (induction cs) auto

lemma doc_child: "doc_tree n \<Longrightarrow> child_at n k = Some c \<Longrightarrow> k \<noteq> ''root'' \<and> doc_tree c"
  by (cases n) (auto simp: child_at_def doc_children_iff dest: map_of_SomeD)

lemma doc_scalar: "doc_tree n \<Longrightarrow> is_scalar n \<Longrightarrow> \<not> has_children n"
  by (cases n) (auto simp: is_scalar_def has_children_def)

lemma plus_step_keeps:
  assumes "\<And>c. wf_node c \<Longrightarrow> wf_node (fst (f c)) \<and> node_name (fst (f c)) = node_name c"
    and "good_key (node_name n)" "wf_node t"
  shows "wf_node (fst (plus_step n f t)) \<and> node_name (fst (plus_step n f t)) = node_name t"
proof (cases "node_name n = ''root''")
  case True
  then show ?thesis using assms by (simp add: plus_step_def)
next
  case False
  define t1 where "t1 = (if child_at t (node_name n) = None
     then put_child (node_name n) (copy_node n) t else t)"
  have t1: "wf_node t1" "node_name t1 = node_name t"
    using assms by (auto simp: t1_def wf_put_child)
  obtain c where c: "child_at t1 (node_name n) = Some c"
    using assms by (cases "child_at t (node_name n)") (auto simp: t1_def child_at_put)
  have "plus_step n f t = (put_child (node_name n) (fst (f c)) t1, snd (f c))"
    using False c by (simp add: plus_step_def t1_def [symmetric] split: prod.splits)
  then show ?thesis using assms(1) [of c] wf_child [OF t1(1) c] t1 by (simp add: wf_put_child)
qed

lemma merge_keeps:
  "wf_node n \<Longrightarrow> wf_node t \<Longrightarrow>
     wf_node (fst (merge_into y n t)) \<and> node_name (fst (merge_into y n t)) = node_name t"
  "wf_children cs \<Longrightarrow> wf_node t \<Longrightarrow>
     wf_node (fst (plus_children y cs t)) \<and> node_name (fst (plus_children y cs t)) = node_name t"
proof (induction y n t and y cs t rule: merge_into_plus_children.induct)
  case (3 y kc cs t)
  have "wf_node (fst (plus_step (snd kc) (merge_into y (snd kc)) t)) \<and>
     node_name (fst (plus_step (snd kc) (merge_into y (snd kc)) t)) = node_name t"
    using 3 by (intro plus_step_keeps) auto
  then show ?case
    unfolding plus_children.simps
    by (rule andThen_inv) (use 3 in auto)
qed auto

lemma plus_eq_keeps:
  assumes "wf_node n" "wf_node t" "good_key (node_name n)"
  shows "wf_node (fst (plus_eq y n t)) \<and> node_name (fst (plus_eq y n t)) = node_name t"
  unfolding plus_eq_def using assms by (intro plus_step_keeps) (auto simp: merge_keeps)

text \<open>What one step does to the children of the tree it merges into.\<close>

definition merge_base :: "node \<Rightarrow> node \<Rightarrow> node" where
  "merge_base t c = (case child_at t (node_name c) of Some x \<Rightarrow> x | None \<Rightarrow> copy_node c)"

lemma plus_step_child:
  assumes "node_name c \<noteq> ''root''" "wf_node t"
  shows "snd (plus_step c f t) = snd (f (merge_base t c))"
    and "child_at (fst (plus_step c f t)) k =
      (if k = node_name c then Some (fst (f (merge_base t c))) else child_at t k)"
    and "node_type (fst (plus_step c f t)) = node_type t"
proof -
  define t1 where "t1 = (if child_at t (node_name c) = None
     then put_child (node_name c) (copy_node c) t else t)"
  have at: "child_at t1 (node_name c) = Some (merge_base t c)"
    using assms by (cases "child_at t (node_name c)") (auto simp: t1_def child_at_put merge_base_def)
  have sorted: "smap_ok (children t1)"
    using wf_sorted [OF assms(2)] by (simp add: t1_def put_child_children smap_ins_ok)
  have "plus_step c f t =
      (put_child (node_name c) (fst (f (merge_base t c))) t1, snd (f (merge_base t c)))"
    using assms at by (simp add: plus_step_def t1_def [symmetric] split: prod.splits)
  then show "snd (plus_step c f t) = snd (f (merge_base t c))"
    "child_at (fst (plus_step c f t)) k =
      (if k = node_name c then Some (fst (f (merge_base t c))) else child_at t k)"
    "node_type (fst (plus_step c f t)) = node_type t"
    using sorted assms
    by (auto simp: child_at_def put_child_children smap.find_put t1_def
        smap.find_put [OF wf_sorted])
qed

lemma plus_children_child:
  assumes "smap_ok cs" "wf_children cs" "doc_children cs" "wf_node t"
    and "snd (plus_children y cs t) = None"
  shows "child_at (fst (plus_children y cs t)) k =
      (case map_of cs k of None \<Rightarrow> child_at t k
       | Some c \<Rightarrow> Some (fst (merge_into y c (merge_base t c)))) \<and>
    (\<forall>c. map_of cs k = Some c \<longrightarrow> snd (merge_into y c (merge_base t c)) = None) \<and>
    node_type (fst (plus_children y cs t)) = node_type t"
  using assms
proof (induction cs arbitrary: t)
  case (Cons kc cs)
  obtain k' c where kc: "kc = (k', c)" by (cases kc)
  have c: "node_name c = k'" "node_name c \<noteq> ''root''" "good_key k'" "wf_node c"
    using Cons.prems by (auto simp: kc)
  define t' where "t' = fst (plus_step c (\<lambda>x. merge_into y c x) t)"
  have ok: "snd (plus_step c (\<lambda>x. merge_into y c x) t) = None"
      "snd (plus_children y cs t') = None"
    using Cons.prems(5) by (simp_all add: kc andThen_None t'_def)
  have wf: "wf_node t'"
    using plus_step_keeps [of "\<lambda>x. merge_into y c x" c t] merge_keeps(1) c Cons.prems(4)
    by (auto simp: t'_def)
  have rest: "smap_ok cs" "wf_children cs" "doc_children cs"
      "\<And>k'' v. map_of cs k'' = Some v \<Longrightarrow> k' < k'' \<and> node_name v = k''"
    using Cons.prems(1-3)
    by (auto simp: kc smap_ok_Cons wf_children_iff dest!: map_of_SomeD)
  have step: "fst (plus_children y (kc # cs) t) = fst (plus_children y cs t')"
    using ok by (simp add: kc andThen_fst t'_def)
  note sc = plus_step_child [OF c(2) Cons.prems(4), of "\<lambda>x. merge_into y c x"]
  note ih = Cons.IH [OF rest(1-3) wf ok(2)]
  show ?case
  proof (cases "k = k'")
    case True
    then have "map_of cs k = None" using rest(4) by (cases "map_of cs k") auto
    then show ?thesis unfolding step using ih sc ok True c by (simp add: kc t'_def)
  next
    case False
    have "merge_base t' v = merge_base t v" if "map_of cs k = Some v" for v
      using rest(4) [OF that] sc(2) c False by (simp add: merge_base_def t'_def)
    then show ?thesis unfolding step using ih sc False c
      by (auto simp: kc t'_def split: option.split)
  qed
qed simp

lemma merge_into_scalar:
  assumes "is_scalar t" "snd (merge_into y n t) = None"
  shows "is_scalar n \<and> merge_into y n t = set_scalar y (scalar_value n) t"
  using assms by (cases n) (auto simp: is_scalar_def split: if_splits)

lemma merge_into_inner:
  assumes "\<not> is_scalar t" shows "merge_into y n t = plus_children y (children n) t"
  using assms by (cases n) simp

lemma merge_into_child:
  assumes "wf_node n" "doc_tree n" "wf_node t" "\<not> is_scalar t" "snd (merge_into y n t) = None"
  shows "child_at (fst (merge_into y n t)) k =
      (case child_at n k of None \<Rightarrow> child_at t k
       | Some c \<Rightarrow> Some (fst (merge_into y c (merge_base t c)))) \<and>
    (\<forall>c. child_at n k = Some c \<longrightarrow> snd (merge_into y c (merge_base t c)) = None)"
proof -
  have "smap_ok (children n)" "wf_children (children n)" "doc_children (children n)"
    using assms(1,2) by (cases n; simp)+
  then show ?thesis
    using plus_children_child [of "children n" t y k] assms(3-5)
    by (simp add: merge_into_inner child_at_def)
qed

text \<open>A scalar of the merged tree replaces a scalar, or is added where there was nothing.\<close>

lemma merge_override:
  assumes "wf_node n" "doc_tree n" "wf_node t" "snd (merge_into y n t) = None"
    and "lookup n q = Some m" "is_scalar m"
    and "\<And>m0. lookup t q = Some m0 \<Longrightarrow> is_scalar m0 \<and> \<not> has_children m0"
  shows "\<exists>m'. lookup (fst (merge_into y n t)) q = Some m' \<and> is_scalar m' \<and>
    scalar_value m' = scalar_value m \<and> \<not> has_children m'"
  using assms
proof (induction q arbitrary: n t)
  case Nil
  then have t: "is_scalar t" "\<not> has_children t" "m = n" by simp_all
  have "merge_into y n t = set_scalar y (scalar_value n) t" and s: "snd (set_scalar y (scalar_value n) t) = None"
    using merge_into_scalar [OF t(1) Nil.prems(4)] Nil.prems(4) by auto
  moreover have ns: "node_type t \<noteq> SEQUENCE" using t(1) by (auto simp: is_scalar_def)
  ultimately show ?case
    using t set_scalar_ok [OF ns, of "scalar_value n" y] set_scalar_None [OF ns]
    by (auto simp: is_scalar_def)
next
  case (Cons k r)
  obtain c where c: "child_at n k = Some c" "lookup c r = Some m"
    using Cons.prems(5) by (auto split: option.splits)
  have cw: "wf_node c" "doc_tree c" "node_name c = k"
    using wf_child [OF Cons.prems(1) c(1)] doc_child [OF Cons.prems(2) c(1)] by auto
  have "\<not> is_scalar n" using doc_scalar [OF Cons.prems(2)] c(1) by (auto simp: has_children_iff)
  then have nt: "\<not> is_scalar t" using merge_into_scalar Cons.prems(4) by blast
  note mc = merge_into_child [OF Cons.prems(1-3) nt Cons.prems(4), of k]
  have base: "wf_node (merge_base t c)"
    using wf_child [OF Cons.prems(3)] by (auto simp: merge_base_def split: option.splits)
  have over: "is_scalar m0 \<and> \<not> has_children m0" if "lookup (merge_base t c) r = Some m0" for m0
  proof (cases "child_at t k")
    case None
    then have "lookup (copy_node c) r = Some m0" using that cw by (simp add: merge_base_def)
    then show ?thesis using c Cons.prems(6)
      by (cases r) (auto simp: child_at_def is_scalar_def has_children_def)
  next
    case (Some x)
    then show ?thesis using that cw Cons.prems(7) by (simp add: merge_base_def)
  qed
  have "snd (merge_into y c (merge_base t c)) = None" using mc c by simp
  from Cons.IH [OF cw(1,2) base this c(2) Cons.prems(6) over] show ?case
    using mc c by simp
qed

text \<open>A leaf at a path the merged tree does not have stays as it is.\<close>

lemma merge_frame:
  assumes "wf_node n" "doc_tree n" "wf_node t" "snd (merge_into y n t) = None"
    and "lookup n q = None" "leaf_at t q m"
  shows "leaf_at (fst (merge_into y n t)) q m"
  using assms
proof (induction q arbitrary: n t)
  case (Cons k r)
  obtain x where x: "child_at t k = Some x" "leaf_at x r m"
    using Cons.prems(6) by (auto simp: leaf_at_Cons)
  show ?case
  proof (cases "is_scalar t")
    case True
    then have "merge_into y n t = set_scalar y (scalar_value n) t"
      using merge_into_scalar Cons.prems(4) by blast
    then show ?thesis using x by (simp add: leaf_at_Cons child_at_def)
  next
    case False
    note mc = merge_into_child [OF Cons.prems(1-3) False Cons.prems(4), of k]
    show ?thesis
    proof (cases "child_at n k")
      case None
      then show ?thesis using mc x by (simp add: leaf_at_Cons)
    next
      case (Some c)
      have cw: "wf_node c" "doc_tree c" "node_name c = k"
        using wf_child [OF Cons.prems(1) Some] doc_child [OF Cons.prems(2) Some] by auto
      have base: "merge_base t c = x" "wf_node x"
        using cw x wf_child [OF Cons.prems(3)] by (auto simp: merge_base_def)
      have "snd (merge_into y c x) = None" "lookup c r = None"
        using mc Some base Cons.prems(5) by auto
      from Cons.IH [OF cw(1,2) base(2) this x(2)] show ?thesis
        using mc Some base by (simp add: leaf_at_Cons)
    qed
  qed
qed simp

lemma plus_eq_root: "node_name n = ''root'' \<Longrightarrow> plus_eq y n t = merge_into y n t"
  by (simp add: plus_eq_def plus_step_def)

section \<open>Differences\<close>

lemma node_neq_iff: "node_neq a b \<longleftrightarrow> \<not> node_eq a b"
  by (auto simp: node_neq_def node_eq_def)

lemma set_diff_nodes:
  "p \<in> set (diff_nodes a b) \<longleftrightarrow>
     (case (map_of (leafs a) p, map_of (leafs b) p) of
        (None, None) \<Rightarrow> False
      | (Some x, Some x') \<Rightarrow> \<not> node_eq x x'
      | _ \<Rightarrow> True)"
proof -
  have "(p, x) \<in> set (leafs n) \<longleftrightarrow> map_of (leafs n) p = Some x" for n x
    by (simp add: smap_ok_lookup leafs_ok)
  then show ?thesis
    by (cases "map_of (leafs a) p"; cases "map_of (leafs b) p")
       (auto simp: diff_nodes_def Let_def node_neq_iff image_iff Bex_def)
qed

end
