(* ===== verification/Yaml_Config.thy ===== *)
theory Yaml_Config imports Yaml_Laws
begin

text \<open>
  The YAML configuration, \<open>YamlConfiguration\<close> of \<open>src/libs/config/yaml.cpp\<close>:
  loading a configuration file with its includes and its host-specific file,
  reading, writing and erasing values, iterating and searching, and the reaction to
  changed files. The file system and yaml-cpp are parameters (\<open>env\<close>); the build
  modelled has \<open>HAVE_YAMLCPP_0_5\<close> and \<open>HAVE_FAM\<close> and the POSIX regular
  expressions (the \<open>USE_REGEX_CPP\<close> branches do not have balanced braces).
\<close>

section \<open>Environment and state\<close>

text \<open>
  \<open>load_all\<close> is \<open>YAML::LoadAllFromFile\<close>: the documents, or the text of a parser
  error. \<open>stat_dir\<close> is \<open>stat\<close> with \<open>S_ISDIR\<close>, \<open>read_dir\<close> the names \<open>readdir\<close>
  gives, \<open>not_writable\<close> says that the file exists and \<open>access(W_OK)\<close> fails.
\<close>

record env =
  yc :: ycpp
  readable :: "string \<Rightarrow> bool"
  not_writable :: "string \<Rightarrow> bool"
  load_all :: "string \<Rightarrow> string + ynode list"
  stat_dir :: "string \<Rightarrow> bool option"
  read_dir :: "string \<Rightarrow> string list option"
  CONFDIR :: string

record load_entry =
  filename :: string
  ignore_missing :: bool
  is_dir :: bool

definition LoadQueueEntry :: "string \<Rightarrow> bool \<Rightarrow> bool \<Rightarrow> load_entry" where
  "LoadQueueEntry fn im dir = \<lparr>filename = fn, ignore_missing = im, is_dir = dir\<rparr>"

text \<open>A pointer is an option; \<open>disk\<close> holds what was written to a file.\<close>

record config =
  root :: "node option"
  host_root :: "node option"
  host_file :: string
  config_file :: string
  sysconfdir :: "string option"
  userconfdir :: "string option"
  disk :: "string \<Rightarrow> yevent list option"
  fam_files :: "string list"
  fam_dirs :: "string list"
  notified :: "string list"

definition config_empty :: config where
  "config_empty =
     \<lparr>root = None, host_root = None, host_file = [], config_file = [], sysconfdir = None,
      userconfdir = None, disk = (\<lambda>_. None), fam_files = [], fam_dirs = [], notified = []\<rparr>"

text \<open>The constructor; \<open>home\<close> is \<open>getenv("HOME")\<close>, \<open>udir\<close> the macro \<open>USERDIR\<close>.\<close>

definition config_new ::
  "string option \<Rightarrow> string \<Rightarrow> string \<Rightarrow> string option \<Rightarrow> config" where
  "config_new home udir sysdir userdir = config_empty
     \<lparr>sysconfdir := Some sysdir,
      userconfdir := Some (case userdir of Some u \<Rightarrow> u
        | None \<Rightarrow> (case home of None \<Rightarrow> sysdir | Some h \<Rightarrow> h @ slash # udir))\<rparr>"

section \<open>Regular expressions\<close>

definition word_char :: "char \<Rightarrow> bool" where
  "word_char c \<longleftrightarrow>
     (let n = code_of c in
      (97 \<le> n \<and> n \<le> 122) \<or> (65 \<le> n \<and> n \<le> 90) \<or> (48 \<le> n \<and> n \<le> 57) \<or> n = 95 \<or> n = 45)"

definition word_start :: "char \<Rightarrow> bool" where
  "word_start c \<longleftrightarrow>
     (let n = code_of c in (97 \<le> n \<and> n \<le> 122) \<or> (65 \<le> n \<and> n \<le> 90) \<or> n = 95)"

definition yaml_regex :: "string \<Rightarrow> bool" where
  "yaml_regex s \<longleftrightarrow>
     (let n = length s - 5; stem = take n s in
      stem \<noteq> [] \<and> list_all word_char stem \<and> drop n s = ''.yaml'')"

text \<open>Every part of \<open>URL_REGEX\<close> may be empty and it has no end anchor: it matches everywhere.\<close>

definition url_regex :: "string \<Rightarrow> bool" where
  "url_regex s \<longleftrightarrow> True"

fun frame_start :: "string \<Rightarrow> bool" and frame_rest :: "string \<Rightarrow> bool" where
  "frame_start [] = False"
| "frame_start (c # s) = (word_start c \<and> frame_rest s)"
| "frame_rest [] = True"
| "frame_rest (c # s) = (if c = slash then frame_start s else word_char c \<and> frame_rest s)"

definition frame_regex :: "string \<Rightarrow> bool" where
  "frame_regex s = (case s of [] \<Rightarrow> False | c # r \<Rightarrow> c = slash \<and> frame_start r)"

section \<open>Documents\<close>

definition tag_name :: "string \<Rightarrow> string" where
  "tag_name t = ''tag:fawkesrobotics.org,cfg/'' @ t"

definition check_scalar :: "string \<Rightarrow> string \<Rightarrow> node \<Rightarrow> unit result" where
  "check_scalar tag scalar node =
     (if tag = tag_name ''tcp-port'' \<or> tag = tag_name ''udp-port'' then
        (case get_uint node of
           Inl e \<Rightarrow> Inl (FawkesException
             ''YamlConfig: Invalid TCP/UDP port number (not an unsigned int)'')
         | Inr p \<Rightarrow>
             if p \<le> 0 \<or> p \<ge> 65535
             then Inl (FawkesException (''YamlConfig: Invalid TCP/UDP port number (''
                    @ to_string_uint p @ '' out of allowed range)''))
             else Inr ())
      else if tag = tag_name ''url'' then
        (if \<not> url_regex scalar
         then Inl (FawkesException (''YamlConfig: '' @ scalar @ '' is not a valid URL'')) else Inr ())
      else if tag = tag_name ''frame'' then
        (if \<not> frame_regex scalar
         then Inl (FawkesException (''YamlConfig: '' @ scalar @ '' is not a valid frame ID''))
         else Inr ())
      else Inr ())"

text \<open>
  One entry of a map document, below the node \<open>pn\<close>; \<open>rec\<close> reads its value into the
  node created for it.
\<close>

definition read_entry ::
  "ycpp \<Rightarrow> string \<Rightarrow> ynode \<Rightarrow> (node \<Rightarrow> node mutation) \<Rightarrow> node \<Rightarrow> node mutation" where
  "read_entry y key v rec pn =
     (case child_at pn key of
        Some tmp \<Rightarrow>
          (if is_scalar tmp \<and> (case v of YScalar _ _ \<Rightarrow> False | _ \<Rightarrow> True) then
             throwing (FawkesException (''YamlConfig: scalar '' @ node_name tmp
               @ '' cannot be overwritten by non-scalar'')) pn
           else (let (tmp', e) = set_scalar y (yscalar v) tmp in (put_child key tmp' pn, e)))
      | None \<Rightarrow>
          (case node_of_doc y key v of
             Inl e \<Rightarrow> throwing e pn
           | Inr tmp \<Rightarrow> (let (tmp', e) = rec tmp in (add_child key tmp' pn, e))))"

definition key_path :: "string \<Rightarrow> string list" where
  "key_path key = (if slash \<in> set key then str_split slash key else [key])"

fun read_config_doc :: "ycpp \<Rightarrow> ynode \<Rightarrow> node \<Rightarrow> node mutation"
and read_pairs :: "ycpp \<Rightarrow> (ynode \<times> ynode) list \<Rightarrow> node \<Rightarrow> node mutation" where
  "read_config_doc y (YMap t prs) node = read_pairs y prs node"
| "read_config_doc y (YScalar tag s) node =
     (case check_scalar tag s node of Inl e \<Rightarrow> throwing e node | Inr _ \<Rightarrow> ok node)"
| "read_config_doc y (YSequence t l) node = ok node"
| "read_config_doc y (YNull t) node = ok node"
| "read_config_doc y YUndefined node = ok node"
| "read_pairs y [] node = ok node"
| "read_pairs y (kv # prs) node =
     (case as_string y (fst kv) of
        Inl e \<Rightarrow> throwing e node
      | Inr key \<Rightarrow>
          (let pel = key_path key in
           if pel = [] then throwing (UndefinedBehaviour ''read_config_doc: empty key path'') node
           else andThen
             (at_path (read_entry y (last pel) (snd kv) (\<lambda>n. read_config_doc y (snd kv) n))
                node (butlast pel))
             (\<lambda>node'. read_pairs y prs node')))"

definition abs_cfg_path :: "env \<Rightarrow> string \<Rightarrow> string" where
  "abs_cfg_path e path =
     (case path of c # _ \<Rightarrow> if c = slash then path else CONFDIR e @ slash # path
      | [] \<Rightarrow> CONFDIR e @ slash # path)"

text \<open>The load queue and the host file name, both changed by reference.\<close>

type_synonym load_refs = "load_entry list \<times> string"

definition include_dir :: "env \<Rightarrow> string \<Rightarrow> bool \<Rightarrow> load_refs \<Rightarrow> load_refs mutation" where
  "include_dir e incl ignore st =
     (let dirname = abs_cfg_path e incl in
      case stat_dir e dirname of
        None \<Rightarrow> if ignore then ok st
                else throwing (FawkesException (''YamlConfig: Failed to stat directory '' @ dirname)) st
      | Some isdir \<Rightarrow>
          if \<not> isdir
          then throwing (FawkesException (''YamlConfig: '' @ dirname @ '' is not a directory'')) st
          else (case read_dir e dirname of
              None \<Rightarrow>
                throwing (FawkesException (''YamlConfig: failed to open directory '' @ dirname)) st
            | Some names \<Rightarrow>
                (let files = sort (map (\<lambda>dn. dirname @ dn) (filter yaml_regex names))
                 in ok (fst st @ LoadQueueEntry dirname ignore True
                        # map (\<lambda>f. LoadQueueEntry f ignore False) files, snd st))))"

definition include_item :: "env \<Rightarrow> ynode \<Rightarrow> load_refs \<Rightarrow> load_refs mutation" where
  "include_item e it st =
     (case as_string (yc e) it of
        Inl x \<Rightarrow> throwing x st
      | Inr incl \<Rightarrow>
          (let ignore = (ytag it = tag_name ''ignore-missing'') in
           if ytag it = tag_name ''host-specific'' then
             (if snd st \<noteq> [] then
                throwing (FawkesException
                  ''YamlConfig: Only one host-specific file can be specified'') st
              else ok (fst st, abs_cfg_path e (yscalar it)))
           else if incl = [] then
             throwing (FawkesException ''YamlConfig: invalid empty include'') st
           else if last incl = slash then include_dir e incl ignore st
           else ok (fst st @ [LoadQueueEntry (abs_cfg_path e incl) ignore False], snd st)))"

fun include_items :: "env \<Rightarrow> ynode list \<Rightarrow> load_refs \<Rightarrow> load_refs mutation" where
  "include_items e [] st = ok st"
| "include_items e (it # its) st = andThen (include_item e it st) (include_items e its)"

definition read_meta_doc :: "env \<Rightarrow> ynode \<Rightarrow> load_refs \<Rightarrow> load_refs mutation" where
  "read_meta_doc e doc st =
     (case items_of_key (yc e) doc ''include'' of
        Inl x \<Rightarrow> throwing x st | Inr its \<Rightarrow> include_items e its st)"

section \<open>Loading\<close>

definition read_root :: "env \<Rightarrow> ynode \<Rightarrow> node option result" where
  "read_root e doc =
     (case read_config_doc (yc e) doc (new_node ''root'') of
        (n, None) \<Rightarrow> Inr (Some n) | (_, Some x) \<Rightarrow> Inl x)"

definition read_yaml_file ::
  "env \<Rightarrow> string \<Rightarrow> bool \<Rightarrow> load_refs \<Rightarrow> load_refs \<times> node option result" where
  "read_yaml_file e fn ignore st =
     (if \<not> readable e fn then
        (if ignore then (st, Inr None)
         else (st, Inl (FawkesException (''YamlConfig: cannot access file '' @ fn))))
      else case load_all e fn of
        Inl msg \<Rightarrow> (st, Inl (CouldNotOpenConfigException (''Failed to parse '' @ fn @ msg)))
      | Inr [] \<Rightarrow> (st, Inr None)
      | Inr [d] \<Rightarrow> (st, read_root e d)
      | Inr (d1 # d2 # _) \<Rightarrow>
          (case read_meta_doc e d1 st of
             (st', Some x) \<Rightarrow> (st', Inl x)
           | (st', None) \<Rightarrow> (st', read_root e d2)))"

text \<open>What \<open>read_yaml_config\<close> builds up through its reference parameters.\<close>

record load_state =
  l_refs :: load_refs
  l_root :: node
  l_host :: "node option"
  l_files :: "string list"
  l_dirs :: "string list"

text \<open>One round of the loop: the front entry is handled and then removed.\<close>

definition load_step :: "env \<Rightarrow> load_state \<Rightarrow> load_state mutation" where
  "load_step e st =
     (case fst (l_refs st) of
        [] \<Rightarrow> ok st
      | qe # _ \<Rightarrow>
          andThen
            (if is_dir qe then ok (st\<lparr>l_dirs := l_dirs st @ [filename qe]\<rparr>)
             else case read_yaml_file e (filename qe) (ignore_missing qe) (l_refs st) of
               (rf, Inl x) \<Rightarrow> throwing x (st\<lparr>l_refs := rf\<rparr>)
             | (rf, Inr None) \<Rightarrow> ok (st\<lparr>l_refs := rf\<rparr>)
             | (rf, Inr (Some sub)) \<Rightarrow>
                 (let st1 = st\<lparr>l_refs := rf, l_files := l_files st @ [filename qe]\<rparr>;
                      (r, x) = plus_eq (yc e) sub (l_root st1)
                  in (st1\<lparr>l_root := r\<rparr>, x)))
            (\<lambda>st'. ok (st'\<lparr>l_refs := (tl (fst (l_refs st')), snd (l_refs st'))\<rparr>)))"

text \<open>\<open>None\<close> when the fuel ends before the queue is empty.\<close>

fun load_loop :: "nat \<Rightarrow> env \<Rightarrow> load_state \<Rightarrow> load_state mutation option" where
  "load_loop fuel e st =
     (if fst (l_refs st) = [] then Some (ok st)
      else case fuel of
        0 \<Rightarrow> None
      | Suc fuel' \<Rightarrow>
          (case load_step e st of
             (st', Some x) \<Rightarrow> Some (throwing x st') | (st', None) \<Rightarrow> load_loop fuel' e st'))"

declare load_loop.simps [simp del]

definition load_host :: "env \<Rightarrow> load_state \<Rightarrow> load_state mutation" where
  "load_host e st =
     (if snd (l_refs st) \<noteq> [] then
        (let hf = snd (l_refs st) in
         case read_yaml_file e hf True ([], hf) of
           ((q, hf'), Inl x) \<Rightarrow> throwing x (st\<lparr>l_refs := (fst (l_refs st), hf')\<rparr>)
         | ((q, hf'), Inr h) \<Rightarrow>
             (let st1 = st\<lparr>l_refs := (fst (l_refs st), hf'), l_host := h\<rparr> in
              if q \<noteq> [] then
                throwing (CouldNotOpenConfigException
                  ''YamlConfig: includes are not allowed in host document'') st1
              else case h of
                None \<Rightarrow> ok (st1\<lparr>l_host := Some root_node\<rparr>)
              | Some hr \<Rightarrow>
                  (let (r, x) = plus_eq (yc e) hr (l_root st1); st2 = st1\<lparr>l_root := r\<rparr>
                   in case x of Some x' \<Rightarrow> throwing x' st2
                      | None \<Rightarrow> ok (st2\<lparr>l_files := l_files st2 @ [hf']\<rparr>))))
      else ok (st\<lparr>l_host := Some root_node\<rparr>))"

definition load_init :: "string \<Rightarrow> node option \<Rightarrow> load_state" where
  "load_init fn host =
     \<lparr>l_refs = ([LoadQueueEntry fn False False], []), l_root = root_node, l_host = host,
      l_files = [], l_dirs = []\<rparr>"

definition read_yaml_config ::
  "nat \<Rightarrow> env \<Rightarrow> string \<Rightarrow> node option \<Rightarrow> load_state mutation option" where
  "read_yaml_config fuel e fn host =
     (case load_loop fuel e (load_init fn host) of
        None \<Rightarrow> None | Some r \<Rightarrow> Some (andThen r (load_host e)))"

definition try_path :: "env \<Rightarrow> string option \<Rightarrow> string \<Rightarrow> string option" where
  "try_path e dir file =
     (case dir of None \<Rightarrow> None
      | Some d \<Rightarrow> if readable e (d @ slash # file) then Some (d @ slash # file) else None)"

definition find_config_file :: "env \<Rightarrow> config \<Rightarrow> string \<Rightarrow> string result" where
  "find_config_file e s file =
     (if file \<noteq> [] \<and> hd file = slash then Inr file
      else if userconfdir s = None \<or> sysconfdir s = None
      then Inl (UndefinedBehaviour ''load: printf of a null directory'')
      else case try_path e (userconfdir s) file of
        Some p \<Rightarrow> Inr p
      | None \<Rightarrow>
          (case try_path e (sysconfdir s) file of
             Some p \<Rightarrow> Inr p
           | None \<Rightarrow> Inl (FawkesException (''YamlConfig: cannot find configuration file ''
               @ the (userconfdir s) @ slash # file @ '' or '' @ the (sysconfdir s) @ slash # file))))"

text \<open>
  \<open>load\<close> hands its members to \<open>read_yaml_config\<close> by reference, so they hold the
  partial result when that throws.
\<close>

definition store_load :: "config \<Rightarrow> load_state \<Rightarrow> config" where
  "store_load s l =
     s\<lparr>root := Some (l_root l), host_root := l_host l, host_file := snd (l_refs l)\<rparr>"

definition load :: "nat \<Rightarrow> env \<Rightarrow> string option \<Rightarrow> config \<Rightarrow> config mutation option" where
  "load fuel e file_path s =
     (let file = (case file_path of None \<Rightarrow> ''config.yaml'' | Some f \<Rightarrow> f) in
      case find_config_file e s file of
        Inl x \<Rightarrow> Some (throwing x s)
      | Inr fn \<Rightarrow>
          (let s1 = s\<lparr>config_file := fn, host_file := []\<rparr> in
           case read_yaml_config fuel e fn (host_root s1) of
             None \<Rightarrow> None
           | Some (l, Some x) \<Rightarrow> Some (throwing x (store_load s1 l))
           | Some (l, None) \<Rightarrow>
               Some (ok ((store_load s1 l)\<lparr>fam_files := l_files l, fam_dirs := l_dirs l\<rparr>))))"

text \<open>A watched file changed; exceptions of the reload are caught and dropped.\<close>

definition fam_event :: "nat \<Rightarrow> env \<Rightarrow> config \<Rightarrow> config mutation option" where
  "fam_event fuel e s =
     (case root s of
        None \<Rightarrow> Some (throwing (UndefinedBehaviour ''fam_event: root_ is NULL'') s)
      | Some old \<Rightarrow>
          (case read_yaml_config fuel e (config_file s) None of
             None \<Rightarrow> None
           | Some (l, Some x) \<Rightarrow> Some (if is_fawkes x then ok s else throwing x s)
           | Some (l, None) \<Rightarrow>
               (let changes = diff_nodes old (l_root l);
                    s1 = (if changes \<noteq> []
                          then (store_load s l)\<lparr>notified := notified s @ changes\<rparr> else s)
                in Some (ok (s1\<lparr>fam_files := l_files l, fam_dirs := l_dirs l\<rparr>)))))"

section \<open>Reading values\<close>

definition root_of :: "config \<Rightarrow> node result" where
  "root_of s =
     (case root s of None \<Rightarrow> Inl (UndefinedBehaviour ''root_ is NULL'') | Some n \<Rightarrow> Inr n)"

definition bind :: "'a result \<Rightarrow> ('a \<Rightarrow> 'b result) \<Rightarrow> 'b result" where
  "bind r f = (case r of Inl e \<Rightarrow> Inl e | Inr x \<Rightarrow> f x)"

definition find_leaf :: "node \<Rightarrow> string \<Rightarrow> node result" where
  "find_leaf n path =
     bind (find_node n path)
       (\<lambda>m. if has_children m then Inl (ConfigEntryNotFoundException path) else Inr m)"

definition query :: "config \<Rightarrow> string \<Rightarrow> node result" where
  "query s path = bind (root_of s) (\<lambda>r. find_queue r (str_split_to_queue slash path))"

definition cfg_exists :: "config \<Rightarrow> string \<Rightarrow> bool result" where
  "cfg_exists s path =
     bind (root_of s)
       (\<lambda>r. case find_node r path of
              Inr n \<Rightarrow> Inr (\<not> has_children n)
            | Inl e \<Rightarrow> if is_fawkes e then Inr False else Inl e)"

definition cfg_get_type :: "config \<Rightarrow> string \<Rightarrow> string result" where
  "cfg_get_type s path =
     bind (root_of s) (\<lambda>r. bind (find_leaf r path) (\<lambda>n. Inr (type_to_string (node_type n))))"

definition get_value_as :: "(string \<Rightarrow> 'a option) \<Rightarrow> node \<Rightarrow> string \<Rightarrow> 'a result" where
  "get_value_as conv r path = bind (find_leaf r path) (get_value conv)"

definition get_list_as :: "(string \<Rightarrow> 'a option) \<Rightarrow> node \<Rightarrow> string \<Rightarrow> 'a list result" where
  "get_list_as conv r path = bind (find_leaf r path) (get_list conv)"

definition is_type_at :: "(string \<Rightarrow> 'a option) \<Rightarrow> node \<Rightarrow> string \<Rightarrow> bool result" where
  "is_type_at conv r path = bind (find_leaf r path) (\<lambda>n. Inr (is_type conv n))"

definition cfg_get_float :: "env \<Rightarrow> config \<Rightarrow> string \<Rightarrow> cfloat result" where
  "cfg_get_float e s path = bind (root_of s) (\<lambda>r. get_value_as (convert_float (yc e)) r path)"

definition cfg_get_uint :: "config \<Rightarrow> string \<Rightarrow> 32 word result" where
  "cfg_get_uint s path = bind (root_of s) (\<lambda>r. get_value_as convert_uint r path)"

definition cfg_get_int :: "config \<Rightarrow> string \<Rightarrow> int result" where
  "cfg_get_int s path = bind (root_of s) (\<lambda>r. get_value_as convert_int r path)"

definition cfg_get_bool :: "config \<Rightarrow> string \<Rightarrow> bool result" where
  "cfg_get_bool s path = bind (root_of s) (\<lambda>r. get_value_as convert_bool r path)"

definition cfg_get_string :: "config \<Rightarrow> string \<Rightarrow> string result" where
  "cfg_get_string s path = bind (root_of s) (\<lambda>r. get_value_as convert_string r path)"

definition cfg_get_floats :: "env \<Rightarrow> config \<Rightarrow> string \<Rightarrow> cfloat list result" where
  "cfg_get_floats e s path = bind (root_of s) (\<lambda>r. get_list_as (convert_float (yc e)) r path)"

definition cfg_get_uints :: "config \<Rightarrow> string \<Rightarrow> 32 word list result" where
  "cfg_get_uints s path = bind (root_of s) (\<lambda>r. get_list_as convert_uint r path)"

definition cfg_get_ints :: "config \<Rightarrow> string \<Rightarrow> int list result" where
  "cfg_get_ints s path = bind (root_of s) (\<lambda>r. get_list_as convert_int r path)"

definition cfg_get_bools :: "config \<Rightarrow> string \<Rightarrow> bool list result" where
  "cfg_get_bools s path = bind (root_of s) (\<lambda>r. get_list_as convert_bool r path)"

definition cfg_get_strings :: "config \<Rightarrow> string \<Rightarrow> string list result" where
  "cfg_get_strings s path = bind (root_of s) (\<lambda>r. get_list_as convert_string r path)"

definition cfg_is_float :: "env \<Rightarrow> config \<Rightarrow> string \<Rightarrow> bool result" where
  "cfg_is_float e s path = bind (root_of s) (\<lambda>r. is_type_at (convert_float (yc e)) r path)"

definition cfg_is_uint :: "config \<Rightarrow> string \<Rightarrow> bool result" where
  "cfg_is_uint s path =
     bind (root_of s) (\<lambda>r. bind (find_leaf r path) (\<lambda>n.
       if \<not> is_type convert_uint n then Inr False
       else bind (get_int n) (\<lambda>v. Inr (v \<ge> 0))))"

definition cfg_is_int :: "config \<Rightarrow> string \<Rightarrow> bool result" where
  "cfg_is_int s path = bind (root_of s) (\<lambda>r. is_type_at convert_int r path)"

definition cfg_is_bool :: "config \<Rightarrow> string \<Rightarrow> bool result" where
  "cfg_is_bool s path = bind (root_of s) (\<lambda>r. is_type_at convert_bool r path)"

definition cfg_is_string :: "config \<Rightarrow> string \<Rightarrow> bool result" where
  "cfg_is_string s path = bind (root_of s) (\<lambda>r. is_type_at convert_string r path)"

definition cfg_is_list :: "config \<Rightarrow> string \<Rightarrow> bool result" where
  "cfg_is_list s path =
     bind (root_of s) (\<lambda>r. bind (find_leaf r path) (\<lambda>n. Inr (node_type n = SEQUENCE)))"

text \<open>Comments and defaults are not kept.\<close>

definition cfg_get_comment :: "config \<Rightarrow> string \<Rightarrow> string" where
  "cfg_get_comment s path = []"

definition cfg_is_default :: "config \<Rightarrow> string \<Rightarrow> bool" where
  "cfg_is_default s path = False"

definition no_defaults :: exn where
  "no_defaults = NotImplementedException ''YamlConfiguration does not support default values''"

definition cfg_set_default :: "string \<Rightarrow> 'a \<Rightarrow> config \<Rightarrow> config mutation" where
  "cfg_set_default path v s = throwing no_defaults s"

definition cfg_erase_default :: "string \<Rightarrow> config \<Rightarrow> config mutation" where
  "cfg_erase_default path s = throwing no_defaults s"

definition cfg_copy :: "config \<Rightarrow> config \<Rightarrow> config mutation" where
  "cfg_copy other s = throwing
     (NotImplementedException ''YamlConfig does not support copying of a configuration'') s"

section \<open>Writing values\<close>

definition write_host_file :: "env \<Rightarrow> config \<Rightarrow> config mutation" where
  "write_host_file e s =
     (if host_file s = [] then
        throwing (FawkesException ''YamlConfig: no host config file specified'') s
      else case host_root s of
        None \<Rightarrow> throwing (UndefinedBehaviour ''host_root_ is NULL'') s
      | Some h \<Rightarrow>
          if not_writable e (host_file s)
          then throwing (FawkesException ''YamlConfig: cannot write host file'') s
          else ok (s\<lparr>disk := (disk s)(host_file s \<mapsto> emit_events h)\<rparr>))"

definition on_root :: "(node \<Rightarrow> node mutation) \<Rightarrow> config \<Rightarrow> config mutation" where
  "on_root f s =
     (case root s of
        None \<Rightarrow> throwing (UndefinedBehaviour ''root_ is NULL'') s
      | Some r \<Rightarrow> (let (r', x) = f r in (s\<lparr>root := Some r'\<rparr>, x)))"

definition on_host_root :: "(node \<Rightarrow> node mutation) \<Rightarrow> config \<Rightarrow> config mutation" where
  "on_host_root f s =
     (case host_root s of
        None \<Rightarrow> throwing (UndefinedBehaviour ''host_root_ is NULL'') s
      | Some r \<Rightarrow> (let (r', x) = f r in (s\<lparr>host_root := Some r'\<rparr>, x)))"

text \<open>The three statements of every setter.\<close>

definition set_both :: "env \<Rightarrow> (node \<Rightarrow> node mutation) \<Rightarrow> config \<Rightarrow> config mutation" where
  "set_both e f s = andThen (andThen (on_root f s) (on_host_root f)) (write_host_file e)"

text \<open>\<open>float_text\<close> is \<open>asprintf("%f")\<close>.\<close>

definition cfg_set_float :: "env \<Rightarrow> ('f \<Rightarrow> string) \<Rightarrow> string \<Rightarrow> 'f \<Rightarrow> config \<Rightarrow> config mutation" where
  "cfg_set_float e float_text path f s = set_both e (set_value (yc e) float_text path f) s"

definition cfg_set_uint :: "env \<Rightarrow> string \<Rightarrow> 32 word \<Rightarrow> config \<Rightarrow> config mutation" where
  "cfg_set_uint e path i s = set_both e (set_value (yc e) to_string_uint path i) s"

definition cfg_set_int :: "env \<Rightarrow> string \<Rightarrow> int \<Rightarrow> config \<Rightarrow> config mutation" where
  "cfg_set_int e path i s = set_both e (set_value (yc e) to_string_int path i) s"

definition cfg_set_bool :: "env \<Rightarrow> string \<Rightarrow> bool \<Rightarrow> config \<Rightarrow> config mutation" where
  "cfg_set_bool e path b s = set_both e (set_value (yc e) to_string_bool path b) s"

definition cfg_set_string :: "env \<Rightarrow> string \<Rightarrow> string \<Rightarrow> config \<Rightarrow> config mutation" where
  "cfg_set_string e path v s = set_both e (set_value (yc e) (\<lambda>t. t) path v) s"

definition cfg_set_floats ::
  "env \<Rightarrow> ('f \<Rightarrow> string) \<Rightarrow> string \<Rightarrow> 'f list \<Rightarrow> config \<Rightarrow> config mutation" where
  "cfg_set_floats e float_text path vs s = set_both e (set_list float_text path vs) s"

definition cfg_set_uints :: "env \<Rightarrow> string \<Rightarrow> 32 word list \<Rightarrow> config \<Rightarrow> config mutation" where
  "cfg_set_uints e path vs s = set_both e (set_list to_string_uint path vs) s"

definition cfg_set_ints :: "env \<Rightarrow> string \<Rightarrow> int list \<Rightarrow> config \<Rightarrow> config mutation" where
  "cfg_set_ints e path vs s = set_both e (set_list to_string_int path vs) s"

definition cfg_set_bools :: "env \<Rightarrow> string \<Rightarrow> bool list \<Rightarrow> config \<Rightarrow> config mutation" where
  "cfg_set_bools e path vs s = set_both e (set_list to_string_bool path vs) s"

definition cfg_set_strings :: "env \<Rightarrow> string \<Rightarrow> string list \<Rightarrow> config \<Rightarrow> config mutation" where
  "cfg_set_strings e path vs s = set_both e (set_list (\<lambda>t. t) path vs) s"

text \<open>
  With \<open>const char *\<close> elements the overload of \<open>to_string\<close> that applies is the one
  for \<open>bool\<close>: a pointer converts to \<open>bool\<close> by a standard conversion. An element is
  \<open>None\<close> for a null pointer.
\<close>

definition cfg_set_cstrings ::
  "env \<Rightarrow> string \<Rightarrow> string option list \<Rightarrow> config \<Rightarrow> config mutation" where
  "cfg_set_cstrings e path vs s =
     set_both e (set_list (\<lambda>p. to_string_bool (p \<noteq> None)) path vs) s"

definition cfg_erase :: "env \<Rightarrow> string \<Rightarrow> config \<Rightarrow> config mutation" where
  "cfg_erase e path s =
     andThen (andThen (on_host_root (\<lambda>n. erase_node n path) s) (on_root (\<lambda>n. erase_node n path)))
       (write_host_file e)"

section \<open>Iteration\<close>

text \<open>
  A value iterator: the map it was given, \<open>first_\<close>, and the position of \<open>current_\<close>
  in the map, the length for \<open>end()\<close>. Its nodes are those of the tree at the time
  of the query.
\<close>

record value_iter =
  first :: bool
  nodes :: "(string \<times> node) list"
  current :: nat

definition iter_invalid :: value_iter where
  "iter_invalid = \<lparr>first = True, nodes = [], current = 0\<rparr>"

definition iter_new :: "(string \<times> node) list \<Rightarrow> value_iter" where
  "iter_new ns = \<lparr>first = True, nodes = ns, current = length ns\<rparr>"

text \<open>Advancing past the end has no meaning in C++.\<close>

definition iter_next :: "value_iter \<Rightarrow> (value_iter \<times> bool) result" where
  "iter_next it =
     (if first it then
        Inr (it\<lparr>first := False, current := 0\<rparr>, 0 \<noteq> length (nodes it))
      else if current it \<ge> length (nodes it) then Inl (UndefinedBehaviour ''next: increment of end()'')
      else Inr (it\<lparr>current := Suc (current it)\<rparr>, Suc (current it) \<noteq> length (nodes it)))"

definition iter_valid :: "value_iter \<Rightarrow> bool" where
  "iter_valid it \<longleftrightarrow> current it \<noteq> length (nodes it)"

text \<open>The guard of every accessor, with the rest of its message.\<close>

definition iter_current :: "string \<Rightarrow> value_iter \<Rightarrow> (string \<times> node) result" where
  "iter_current what it =
     (if \<not> iter_valid it then Inl (FawkesException (''YamlValueIterator: cannot '' @ what))
      else Inr (nodes it ! current it))"

definition iter_path :: "value_iter \<Rightarrow> string result" where
  "iter_path it = bind (iter_current ''get path of invalid iterator'' it) (\<lambda>p. Inr (fst p))"

definition iter_type :: "value_iter \<Rightarrow> string result" where
  "iter_type it =
     bind (iter_current ''get type of invalid iterator'' it)
       (\<lambda>p. Inr (type_to_string (node_type (snd p))))"

definition check_msg :: string where
  "check_msg = ''check type on invalid iterator''"

definition value_msg :: string where
  "value_msg = ''get value of invalid iterator''"

definition iter_is_float :: "env \<Rightarrow> value_iter \<Rightarrow> bool result" where
  "iter_is_float e it =
     bind (iter_current check_msg it) (\<lambda>p. Inr (is_type (convert_float (yc e)) (snd p)))"

definition iter_is_uint :: "value_iter \<Rightarrow> bool result" where
  "iter_is_uint it = bind (iter_current check_msg it) (\<lambda>p. Inr (is_type convert_uint (snd p)))"

definition iter_is_int :: "value_iter \<Rightarrow> bool result" where
  "iter_is_int it = bind (iter_current check_msg it) (\<lambda>p. Inr (is_type convert_int (snd p)))"

definition iter_is_bool :: "value_iter \<Rightarrow> bool result" where
  "iter_is_bool it = bind (iter_current check_msg it) (\<lambda>p. Inr (is_type convert_bool (snd p)))"

definition iter_is_string :: "value_iter \<Rightarrow> bool result" where
  "iter_is_string it = bind (iter_current check_msg it) (\<lambda>p. Inr (is_type convert_string (snd p)))"

definition iter_is_list :: "value_iter \<Rightarrow> bool result" where
  "iter_is_list it = bind (iter_current check_msg it) (\<lambda>p. Inr (node_type (snd p) = SEQUENCE))"

definition iter_get_list_size :: "value_iter \<Rightarrow> nat result" where
  "iter_get_list_size it =
     bind (iter_current check_msg it)
       (\<lambda>p. if node_type (snd p) \<noteq> SEQUENCE
            then Inl (FawkesException
              ''YamlValueIterator: cannot get list size of non-list value'')
            else get_list_size (snd p))"

definition iter_get_float :: "env \<Rightarrow> value_iter \<Rightarrow> cfloat result" where
  "iter_get_float e it =
     bind (iter_current value_msg it) (\<lambda>p. get_value (convert_float (yc e)) (snd p))"

definition iter_get_uint :: "value_iter \<Rightarrow> 32 word result" where
  "iter_get_uint it = bind (iter_current value_msg it) (\<lambda>p. get_value convert_uint (snd p))"

definition iter_get_int :: "value_iter \<Rightarrow> int result" where
  "iter_get_int it = bind (iter_current value_msg it) (\<lambda>p. get_value convert_int (snd p))"

definition iter_get_bool :: "value_iter \<Rightarrow> bool result" where
  "iter_get_bool it = bind (iter_current value_msg it) (\<lambda>p. get_value convert_bool (snd p))"

definition iter_get_string :: "value_iter \<Rightarrow> string result" where
  "iter_get_string it = bind (iter_current value_msg it) (\<lambda>p. get_value convert_string (snd p))"

definition iter_get_as_string :: "env \<Rightarrow> value_iter \<Rightarrow> string result" where
  "iter_get_as_string e it =
     bind (iter_current value_msg it)
       (\<lambda>p. if node_type (snd p) = SEQUENCE then get_list_as_string (yc e) (snd p)
            else get_value convert_string (snd p))"

definition iter_get_floats :: "env \<Rightarrow> value_iter \<Rightarrow> cfloat list result" where
  "iter_get_floats e it =
     bind (iter_current value_msg it) (\<lambda>p. get_list (convert_float (yc e)) (snd p))"

definition iter_get_uints :: "value_iter \<Rightarrow> 32 word list result" where
  "iter_get_uints it = bind (iter_current value_msg it) (\<lambda>p. get_list convert_uint (snd p))"

definition iter_get_ints :: "value_iter \<Rightarrow> int list result" where
  "iter_get_ints it = bind (iter_current value_msg it) (\<lambda>p. get_list convert_int (snd p))"

definition iter_get_bools :: "value_iter \<Rightarrow> bool list result" where
  "iter_get_bools it = bind (iter_current value_msg it) (\<lambda>p. get_list convert_bool (snd p))"

definition iter_get_strings :: "value_iter \<Rightarrow> string list result" where
  "iter_get_strings it = bind (iter_current value_msg it) (\<lambda>p. get_list convert_string (snd p))"

definition iter_get_comment :: "value_iter \<Rightarrow> string result" where
  "iter_get_comment it =
     Inl (NotImplementedException ''YamlConfig: comments are not available'')"

definition iter_is_default :: "value_iter \<Rightarrow> bool result" where
  "iter_is_default it = bind (iter_current value_msg it) (\<lambda>p. Inr (node_default (snd p)))"

definition cfg_get_value :: "config \<Rightarrow> string \<Rightarrow> value_iter result" where
  "cfg_get_value s path =
     bind (root_of s)
       (\<lambda>r. case find_node r path of
              Inr n \<Rightarrow> Inr (if has_children n then iter_invalid else iter_new [(path, n)])
            | Inl (ConfigEntryNotFoundException _) \<Rightarrow> Inr iter_invalid
            | Inl e \<Rightarrow> Inl e)"

definition cfg_iterator :: "config \<Rightarrow> value_iter result" where
  "cfg_iterator s = bind (root_of s) (\<lambda>r. Inr (iter_new (enum_leafs r [] [])))"

definition cfg_search :: "config \<Rightarrow> string \<Rightarrow> value_iter result" where
  "cfg_search s path =
     (let tmp_path = (if path \<noteq> [] \<and> last path = slash then butlast path else path) in
      bind (root_of s)
        (\<lambda>r. case find_node r tmp_path of
               Inr n \<Rightarrow> Inr (iter_new (enum_leafs n tmp_path []))
             | Inl e \<Rightarrow> if is_fawkes e then Inr iter_invalid else Inl e))"

text \<open>What a client's loop \<open>while (i->next())\<close> visits.\<close>

fun iter_drain :: "nat \<Rightarrow> value_iter \<Rightarrow> (string \<times> node) list result" where
  "iter_drain 0 it = Inr []"
| "iter_drain (Suc fuel) it =
     bind (iter_next it)
       (\<lambda>(it', more). if \<not> more then Inr []
          else bind (iter_current value_msg it')
            (\<lambda>p. bind (iter_drain fuel it') (\<lambda>ps. Inr (p # ps))))"

section \<open>The invariant\<close>

definition cfg_wf :: "config \<Rightarrow> bool" where
  "cfg_wf s \<longleftrightarrow>
     (case root s of None \<Rightarrow> True | Some r \<Rightarrow> wf_node r) \<and>
     (case host_root s of None \<Rightarrow> True | Some h \<Rightarrow> wf_node h)"

text \<open>No key of a document is the empty string.\<close>

fun doc_keys :: "ycpp \<Rightarrow> ynode \<Rightarrow> bool" and pair_keys :: "ycpp \<Rightarrow> (ynode \<times> ynode) list \<Rightarrow> bool" where
  "doc_keys y (YMap t prs) \<longleftrightarrow> pair_keys y prs"
| "doc_keys y (YScalar t s) \<longleftrightarrow> True"
| "doc_keys y (YSequence t l) \<longleftrightarrow> True"
| "doc_keys y (YNull t) \<longleftrightarrow> True"
| "doc_keys y YUndefined \<longleftrightarrow> True"
| "pair_keys y [] \<longleftrightarrow> True"
| "pair_keys y (kv # prs) \<longleftrightarrow>
     as_string y (fst kv) \<noteq> Inr [] \<and> doc_keys y (snd kv) \<and> pair_keys y prs"

definition env_keys :: "env \<Rightarrow> bool" where
  "env_keys e \<longleftrightarrow>
     (\<forall>fn docs. load_all e fn = Inr docs \<longrightarrow> (\<forall>d \<in> set docs. doc_keys (yc e) d))"

definition keeps_wf :: "(node \<Rightarrow> node mutation) \<Rightarrow> bool" where
  "keeps_wf f \<longleftrightarrow> (\<forall>n. wf_node n \<longrightarrow> wf_node (fst (f n)))"

lemma set_value_wf: "keeps_wf (set_value y to_str path v)"
  using at_path_wf [OF set_value_here_keeps _ split_good]
  by (auto simp: keeps_wf_def set_value_def find_or_insert_def)

lemma set_list_wf: "keeps_wf (set_list to_str path vs)"
  using at_path_wf [OF set_list_here_keeps _ split_good]
  by (auto simp: keeps_wf_def set_list_def find_or_insert_def)

lemma erase_node_wf: "keeps_wf (\<lambda>n. erase_node n path)"
proof -
  have "wf_node (fst (erase_node n path))" if wf: "wf_node n" for n
  proof (cases "find_from [] n (str_split_to_queue slash path)")
    case (Inl e)
    then show ?thesis using wf by (simp add: erase_node_def)
  next
    case (Inr c)
    then have "lookup n (str_split_to_queue slash path) = Some c" by (simp add: find_from_lookup)
    then show ?thesis
      using Inr wf erase_walk_spec(1) [OF wf, of "str_split_to_queue slash path" c]
      by (auto simp: erase_node_def Let_def leaf_at_def)
  qed
  then show ?thesis by (simp add: keeps_wf_def)
qed

lemma key_path_good: "key \<noteq> [] \<Longrightarrow> good_path (key_path key)"
  using split_good [of key]
  by (auto simp: key_path_def split_queue_eq good_path_def good_key_def)

lemma good_path_butlast: "good_path q \<Longrightarrow> q \<noteq> [] \<Longrightarrow> good_path (butlast q) \<and> good_key (last q)"
  by (auto simp: good_path_def list_all_iff dest: in_set_butlastD)

lemma node_of_doc_wf: "node_of_doc y nm doc = Inr n \<Longrightarrow> wf_node n \<and> node_name n = nm"
  by (cases doc) (auto simp: node_of_doc_def set_sequence_def Let_def split: sum.splits)

lemma read_entry_keeps:
  assumes "keeps_shape rec" "good_key key"
  shows "keeps_shape (read_entry y key v rec)"
proof -
  have "wf_node (fst (read_entry y key v rec m)) \<and> node_name (fst (read_entry y key v rec m)) = node_name m"
    if m: "wf_node m" for m
  proof (cases "child_at m key")
    case None
    then show ?thesis using assms m node_of_doc_wf [of y key v]
      by (auto simp: read_entry_def keeps_shape_def wf_add_child split: sum.splits prod.splits)
  next
    case (Some tmp)
    have "wf_node (fst (set_scalar y (yscalar v) tmp))"
        "node_name (fst (set_scalar y (yscalar v) tmp)) = key"
      using wf_child [OF m Some] by auto
    then show ?thesis using assms(2) m Some
      by (cases "set_scalar y (yscalar v) tmp") (auto simp: read_entry_def wf_put_child)
  qed
  then show ?thesis by (simp add: keeps_shape_def)
qed

lemma read_doc_wf:
  "doc_keys y doc \<Longrightarrow> wf_node n \<Longrightarrow>
     wf_node (fst (read_config_doc y doc n)) \<and> node_name (fst (read_config_doc y doc n)) = node_name n"
  "pair_keys y prs \<Longrightarrow> wf_node n \<Longrightarrow>
     wf_node (fst (read_pairs y prs n)) \<and> node_name (fst (read_pairs y prs n)) = node_name n"
proof (induction y doc n and y prs n rule: read_config_doc_read_pairs.induct)
  case (7 y kv prs node)
  show ?case
  proof (cases "as_string y (fst kv)")
    case (Inl e)
    then show ?thesis using 7 by simp
  next
    case (Inr key)
    show ?thesis
    proof (cases "key_path key = []")
      case True
      then show ?thesis using Inr 7 by simp
    next
      case False
      have "key \<noteq> []" using 7(3) Inr by auto
      note good = good_path_butlast [OF key_path_good [OF this] False]
      have "keeps_shape (\<lambda>n. read_config_doc y (snd kv) n)"
        using 7(1) [OF Inr refl False] 7(3) by (simp add: keeps_shape_def)
      then have k: "keeps_shape (read_entry y (last (key_path key)) (snd kv)
          (\<lambda>n. read_config_doc y (snd kv) n))"
        by (rule read_entry_keeps) (use good in simp)
      let ?P = "\<lambda>m. wf_node m \<and> node_name m = node_name node"
      have "?P (fst (at_path (read_entry y (last (key_path key)) (snd kv)
          (\<lambda>n. read_config_doc y (snd kv) n)) node (butlast (key_path key))))"
        using at_path_wf [OF k 7(4)] good by simp
      then have "?P (fst (andThen (at_path (read_entry y (last (key_path key)) (snd kv)
          (\<lambda>n. read_config_doc y (snd kv) n)) node (butlast (key_path key))) (read_pairs y prs)))"
        by (rule andThen_inv) (use 7(2) [OF Inr refl False] 7(3) in auto)
      then show ?thesis using Inr False by (simp add: Let_def)
    qed
  qed
qed (auto split: sum.splits)

end
