(* ===== verification/Config_Load.thy ===== *)
theory Config_Load imports Config_Laws "HOL-Library.Multiset"
begin

text \<open>
  Iterating, searching and loading: what the iterators visit, what the port check
  accepts, when loading ends, which document wins, and what a change of the files
  makes of the configuration.
\<close>

section \<open>Iterators\<close>

lemma drain_from:
  "i < length ns \<Longrightarrow>
   iter_drain (length ns - i) \<lparr>first = False, nodes = ns, current = i\<rparr> = Inr (drop (Suc i) ns)"
proof (induction "length ns - i" arbitrary: i)
  case (Suc k)
  have s: "length ns - i = Suc k" using Suc(2) by simp
  show ?case
  proof (cases "Suc i < length ns")
    case True
    then have "k = length ns - Suc i" using s by simp
    then have "iter_drain k \<lparr>first = False, nodes = ns, current = Suc i\<rparr>
        = Inr (drop (Suc (Suc i)) ns)"
      using Suc(1) True by simp
    then show ?thesis unfolding s
      using True Suc(3)
      by (simp add: iter_next_def iter_current_def iter_valid_def Cons_nth_drop_Suc)
  next
    case False
    then show ?thesis unfolding s using Suc(3) by (simp add: iter_next_def)
  qed
qed simp

lemma drain_new: "iter_drain (Suc (length ns)) (iter_new ns) = Inr ns"
proof (cases ns)
  case Nil
  then show ?thesis by (simp add: iter_new_def iter_next_def)
next
  case (Cons p ps)
  then show ?thesis using drain_from [of 0 ns]
    by (simp add: iter_new_def iter_next_def iter_current_def iter_valid_def)
qed

lemma enum_from:
  assumes "wf_node n"
  shows "(p, m) \<in> set (enum_leafs n pre []) \<longleftrightarrow>
    (\<exists>q. q \<noteq> [] \<and> leaf_at n q m \<and> p = pre @ join_path slash q)"
proof -
  have "(p, m) \<in> set (enum_leafs n pre []) \<longleftrightarrow> below pre (children n) p m"
    using enum_map(1) [OF assms smap_ok_Nil] smap_ok_lookup [OF enum_ok(1) [OF smap_ok_Nil]]
    by (metis map_of.simps(1) option.distinct(1))
  also have "\<dots> \<longleftrightarrow> (\<exists>k q. leaf_at n (k # q) m \<and> p = pre @ join_path slash (k # q))"
    unfolding below_def leaf_at_Cons child_at_def smap_ok_lookup [OF wf_sorted [OF assms]] by auto
  also have "\<dots> \<longleftrightarrow> (\<exists>q. q \<noteq> [] \<and> leaf_at n q m \<and> p = pre @ join_path slash q)"
    by (metis list.exhaust list.distinct(1))
  finally show ?thesis .
qed

lemma leaf_good: "wf_node n \<Longrightarrow> leaf_at n q m \<Longrightarrow> good_path q"
  using lookup_wf by (auto simp: leaf_at_def good_path_def)



lemma last_join_path:
  "good_path q \<Longrightarrow> q \<noteq> [] \<Longrightarrow> last (join_path slash q) \<noteq> slash"
proof (induction q)
  case (Cons p q)
  then have p: "p \<noteq> []" "slash \<notin> set p" "good_path q" by (auto simp: good_path_def good_key_def)
  show ?case
  proof (cases "q = []")
    case True
    have "last p \<in> set p" using p by simp
    then have "last p \<noteq> slash" using p by metis
    then show ?thesis using True p by simp
  next
    case False
    then have "join_path slash q \<noteq> []" by (cases q) auto
    then show ?thesis using Cons.IH p False by simp
  qed
qed simp

text \<open>
  A search, with or without a trailing slash, enumerates exactly the leaves below
  the path, by their absolute paths and in order.
\<close>

theorem cfg_search_leaves:
  assumes "root s = Some r" and "cfg_wf s" and "lookup r q = Some n" and "q \<noteq> []"
    and "path = join_path slash q \<or> path = join_path slash q @ [slash]"
  shows "\<exists>ns. cfg_search s path = Inr (iter_new ns) \<and> sorted_wrt (<) (map fst ns) \<and>
    (\<forall>p m. (p, m) \<in> set ns \<longleftrightarrow>
       (\<exists>q'. q' \<noteq> [] \<and> leaf_at r (q @ q') m \<and> p = join_path slash (q @ q')))"
proof -
  have wf: "wf_node r" using assms by (simp add: cfg_wf_def)
  note n = lookup_wf [OF wf assms(3)]
  have good: "good_path q" using n by (simp add: good_path_def)
  define tmp where "tmp = join_path slash q"
  have tmp: "(if path \<noteq> [] \<and> last path = slash then butlast path else path) = tmp"
    using assms(4,5) last_join_path [OF good] by (auto simp: tmp_def)
  have f: "find_node r tmp = Inr n"
    using assms(3) split_join_good [OF good] by (simp add: find_node_lookup tmp_def)
  have s: "cfg_search s path = Inr (iter_new (enum_leafs n tmp []))"
    using assms(1) f by (simp add: cfg_search_def tmp Let_def)
  have "sorted_wrt (<) (map fst (enum_leafs n tmp []))"
    using enum_ok(1) [OF smap_ok_Nil] by (simp add: smap_ok_def)
  moreover have "(p, m) \<in> set (enum_leafs n tmp []) \<longleftrightarrow>
      (\<exists>q'. q' \<noteq> [] \<and> leaf_at r (q @ q') m \<and> p = join_path slash (q @ q'))" for p m
    using enum_from [of n p m tmp] n assms(3)
    by (simp add: leaf_at_def lookup_append tmp_def join_path_append)
  ultimately show ?thesis using s by blast
qed

theorem cfg_search_leaves_witness:
  "\<exists>ns. cfg_search demo_config ''/llsf/'' = Inr (iter_new ns) \<and> sorted_wrt (<) (map fst ns)"
proof -
  obtain n where n: "lookup demo_tree [''llsf''] = Some n"
  proof -
    have "lookup demo_tree [''llsf''] \<noteq> None" by code_simp
    then show thesis using that by auto
  qed
  show ?thesis using cfg_search_leaves [OF demo_facts(1,3) n, of "''/llsf/''"] by auto
qed

section \<open>Tagged scalars\<close>

text \<open>
  A scalar tagged as a TCP or UDP port is accepted exactly when it reads as an
  unsigned number from 1 to 65534: the largest port, 65535, is refused.
\<close>

theorem port_check_range:
  "snd (read_config_doc y (YScalar (tag_name ''tcp-port'') t) n) = None \<longleftrightarrow>
     (\<exists>p. get_uint n = Inr p \<and> 1 \<le> unat p \<and> unat p \<le> 65534)"
proof (cases "get_uint n")
  case (Inl e)
  then show ?thesis by (simp add: check_scalar_def)
next
  case (Inr p)
  have "p \<le> 0 \<or> p \<ge> 65535 \<longleftrightarrow> \<not> (1 \<le> unat p \<and> unat p \<le> 65534)"
    by (cases "p = 0") (auto simp: word_le_nat_alt Suc_le_eq unat_gt_0 unat_eq_0)
  then show ?thesis using Inr by (simp add: check_scalar_def)
qed

section \<open>Loading ends, or does not\<close>

text \<open>What the meta document of a file appends to the load queue.\<close>

lemma include_item_appends: "\<exists>new. fst (fst (include_item e it st)) = fst st @ new"
  by (auto simp: include_item_def include_dir_def Let_def split: sum.split option.split)

lemma include_items_appends: "\<exists>new. fst (fst (include_items e its st)) = fst st @ new"
proof (induction e its st rule: include_items.induct)
  case (2 e it its st)
  obtain n1 where n1: "fst (fst (include_item e it st)) = fst st @ n1"
    using include_item_appends by blast
  show ?case
  proof (cases "include_item e it st")
    case (Pair s1 x)
    then show ?thesis using n1 2 [of s1] by (cases x) (auto simp: andThen_def)
  qed
qed simp

lemma read_yaml_file_appends:
  "\<exists>new. fst (fst (read_yaml_file e fn ig st)) = fst st @ new"
proof (cases "load_all e fn")
  case (Inr docs)
  show ?thesis
  proof (cases docs)
    case (Cons d1 ds)
    show ?thesis
    proof (cases ds)
      case (Cons d2 ds')
      have "\<exists>new. fst (fst (read_meta_doc e d1 st)) = fst st @ new"
        using include_items_appends by (auto simp: read_meta_doc_def split: sum.split)
      then show ?thesis using Inr \<open>docs = d1 # ds\<close> Cons
        by (cases "read_meta_doc e d1 st") (auto simp: read_yaml_file_def split: option.split)
    qed (use Inr Cons in \<open>simp add: read_yaml_file_def\<close>)
  qed (use Inr in \<open>simp add: read_yaml_file_def\<close>)
qed (simp add: read_yaml_file_def)

text \<open>\<open>qe'\<close> is queued, in some state of the load, when \<open>qe\<close> is read.\<close>

definition queues :: "env \<Rightarrow> load_entry \<Rightarrow> load_entry \<Rightarrow> bool" where
  "queues e qe qe' \<longleftrightarrow> \<not> is_dir qe \<and>
     (\<exists>st. qe' \<in> set (drop (length (fst st))
        (fst (fst (read_yaml_file e (filename qe) (ignore_missing qe) st)))))"

lemma load_step_queue:
  assumes "fst (l_refs st) = qe # q" and "snd (load_step e st) = None"
  shows "\<exists>new. fst (l_refs (fst (load_step e st))) = q @ new \<and> (\<forall>qe' \<in> set new. queues e qe qe')"
proof (cases "is_dir qe")
  case True
  then show ?thesis using assms by (simp add: load_step_def)
next
  case False
  obtain rf res where f: "read_yaml_file e (filename qe) (ignore_missing qe) (l_refs st) = (rf, res)"
    by fastforce
  obtain new where new: "fst rf = (qe # q) @ new"
    using read_yaml_file_appends [of e "filename qe" "ignore_missing qe" "l_refs st"] f assms(1) by auto
  have "\<forall>qe' \<in> set new. queues e qe qe'"
    using f new assms(1) False unfolding queues_def
    by (intro ballI conjI exI [of _ "l_refs st"]) simp_all
  moreover have "fst (l_refs (fst (load_step e st))) = q @ new"
    using assms f new False
    by (cases res; cases "case res of Inr (Some sub) \<Rightarrow> plus_eq (yc e) sub (l_root st) | _ \<Rightarrow> (l_root st, None)")
       (auto simp: load_step_def Let_def andThen_def ok_def throwing_def split: option.splits prod.splits)
  ultimately show ?thesis by blast
qed

lemma load_loop_ends:
  assumes "wf {(b, a). queues e a b}"
  shows "\<exists>fuel r. load_loop fuel e st = Some r"
  using wf_mult [OF assms]
proof (induction "mset (fst (l_refs st))" arbitrary: st rule: wf_induct_rule)
  case less
  show ?case
  proof (cases "fst (l_refs st)")
    case Nil
    then show ?thesis using load_loop_done by blast
  next
    case (Cons qe q)
    obtain s1 x where s1: "load_step e st = (s1, x)" by fastforce
    show ?thesis
    proof (cases x)
      case (Some y)
      then have "load_loop (Suc 0) e st = Some (throwing y s1)"
        using Cons s1 by (simp add: load_loop_step)
      then show ?thesis by blast
    next
      case None
      obtain new where new: "fst (l_refs s1) = q @ new" "\<forall>qe' \<in> set new. queues e qe qe'"
        using load_step_queue [OF Cons, of e] s1 None by auto
      have "(mset q + mset new, mset q + {#qe#}) \<in> mult {(b, a). queues e a b}"
        by (rule one_step_implies_mult) (use new in auto)
      then have "(mset (fst (l_refs s1)), mset (fst (l_refs st))) \<in> mult {(b, a). queues e a b}"
        using new Cons by (simp add: ac_simps)
      from less [OF this] obtain fuel r where "load_loop fuel e s1 = Some r" by blast
      then have "load_loop (Suc fuel) e st = Some r"
        using Cons s1 None by (simp add: load_loop_step)
      then show ?thesis by blast
    qed
  qed
qed

text \<open>
  C5. Loading ends when no chain of includes is infinite: if the relation "reading
  this entry queues that one" is well-founded, \<open>load\<close> returns or throws, with enough
  fuel for the rounds it needs.
\<close>

theorem load_ends:
  assumes "wf {(b, a). queues e a b}"
  shows "\<exists>fuel r. load fuel e fp s = Some r"
proof -
  define fl where "fl = (case fp of None \<Rightarrow> ''config.yaml'' | Some f \<Rightarrow> f)"
  show ?thesis
  proof (cases "find_config_file e s fl")
    case (Inl x)
    then show ?thesis by (simp add: load_def fl_def)
  next
    case (Inr fn)
    obtain fuel r where "load_loop fuel e (load_init fn (host_root s)) = Some r"
      using load_loop_ends [OF assms] by blast
    then have "read_yaml_config fuel e fn (host_root s) = Some (andThen r (load_host e))"
      by (simp add: read_yaml_config_def)
    then have "load fuel e fp s \<noteq> None"
      using Inr by (auto simp: load_def fl_def Let_def split: option.split prod.split)
    then show ?thesis by blast
  qed
qed

text \<open>Two files for the examples: \<open>/etc/a.yaml\<close> includes \<open>b.yaml\<close>.\<close>

definition ykey :: "string \<Rightarrow> ynode" where
  "ykey k = YScalar [] k"

definition doc_a :: ynode where
  "doc_a = YMap [] [(ykey ''llsf/comm/port'', YScalar [] ''4444''), (ykey ''name'', YScalar [] ''a'')]"

definition doc_b :: ynode where
  "doc_b = YMap [] [(ykey ''llsf'', YMap [] [(ykey ''comm'', YMap [] [(ykey ''port'', YScalar [] ''5555'')])])]"

definition meta_a :: ynode where
  "meta_a = YMap [] [(ykey ''include'', YSequence [] [ykey ''b.yaml''])]"

definition inc_env :: env where
  "inc_env = demo_env\<lparr>load_all :=
     (\<lambda>f. if f = ''/etc/a.yaml'' then Inr [meta_a, doc_a] else Inr [doc_b])\<rparr>"

lemma inc_env_queues:
  "queues inc_env a b \<Longrightarrow> filename a = ''/etc/a.yaml'' \<and> filename b = ''/etc/b.yaml''"
proof -
  assume q: "queues inc_env a b"
  then obtain st where b: "b \<in> set (drop (length (fst st))
      (fst (fst (read_yaml_file inc_env (filename a) (ignore_missing a) st))))"
    unfolding queues_def by blast
  have fa: "filename a = ''/etc/a.yaml''"
  proof (rule ccontr)
    assume "filename a \<noteq> ''/etc/a.yaml''"
    then have "fst (read_yaml_file inc_env (filename a) (ignore_missing a) st) = st"
      by (simp add: read_yaml_file_def inc_env_def demo_env_def)
    then show False using b by simp
  qed
  have "fst (read_yaml_file inc_env ''/etc/a.yaml'' (ignore_missing a) st)
      = (fst st @ [LoadQueueEntry ''/etc/b.yaml'' False False], snd st)"
    by (simp add: read_yaml_file_def inc_env_def demo_env_def read_meta_doc_def demo_ycpp_def
        meta_a_def ykey_def include_item_def abs_cfg_path_def tag_name_def ok_def andThen_def)
  then show ?thesis using b fa by (simp add: LoadQueueEntry_def)
qed

lemma inc_env_wf: "wf {(b, a). queues inc_env a b}"
proof (rule wf_subset [OF wf_measure [of "\<lambda>q. if filename q = ''/etc/a.yaml'' then 1 else 0"]])
  show "{(b, a). queues inc_env a b}
      \<subseteq> measure (\<lambda>q. if filename q = ''/etc/a.yaml'' then 1 else 0)"
    using inc_env_queues by auto
qed

theorem load_ends_witness:
  "\<exists>fuel r. load fuel inc_env (Some ''/etc/a.yaml'') config_empty = Some r"
  by (rule load_ends [OF inc_env_wf])

text \<open>
  A file whose meta document includes the file itself is read again and again:
  \<open>load\<close> of it never returns, whatever the fuel.
\<close>

theorem self_include_diverges:
  assumes "readable e fn" and "load_all e fn = Inr [meta, YMap t []]"
    and "items_of_key (yc e) meta ''include'' = Inr [YScalar tg fn]"
    and "as_string (yc e) (YScalar tg fn) = Inr fn" and "tg \<noteq> tag_name ''host-specific''"
    and "fn \<noteq> []" and "hd fn = slash" and "last fn \<noteq> slash"
  shows "load fuel e (Some fn) s = None"
proof -
  have abs: "abs_cfg_path e fn = fn" using assms(6,7) by (cases fn) (auto simp: abs_cfg_path_def)
  define ig where "ig = (tg = tag_name ''ignore-missing'')"
  have rd: "read_yaml_file e fn ig' (q, hf)
      = ((q @ [LoadQueueEntry fn ig False], hf), Inr (Some (new_node ''root'')))" for ig' q hf
    using assms abs
    by (simp add: read_yaml_file_def read_meta_doc_def include_item_def read_root_def ig_def ok_def andThen_def)
  have merge: "plus_eq (yc e) (new_node ''root'') root_node = ok root_node"
    by (simp add: plus_eq_root merge_into_inner root_node_def is_scalar_def)
  have step: "\<exists>st'. load_step e st = (st', None) \<and> l_root st' = root_node \<and>
      (\<exists>ig''. fst (l_refs st') = [LoadQueueEntry fn ig'' False])"
    if st: "l_root st = root_node" "fst (l_refs st) = [LoadQueueEntry fn ig' False]" for st ig'
  proof -
    obtain hf where refs: "l_refs st = ([LoadQueueEntry fn ig' False], hf)"
      using st(2) by (cases "l_refs st") auto
    show ?thesis using st refs merge
      by (simp add: load_step_def rd andThen_def ok_def Let_def LoadQueueEntry_def)
  qed
  have "load_loop fuel e st = None"
    if "l_root st = root_node" "fst (l_refs st) = [LoadQueueEntry fn ig' False]" for st ig'
    using that
  proof (induction fuel arbitrary: st ig')
    case 0
    then show ?case by (simp add: load_loop_zero)
  next
    case (Suc fuel)
    obtain st' ig'' where st': "load_step e st = (st', None)" "l_root st' = root_node"
        "fst (l_refs st') = [LoadQueueEntry fn ig'' False]"
      using step [OF Suc.prems] by blast
    then show ?case using Suc by (simp add: load_loop_step)
  qed
  then have "load_loop fuel e (load_init fn (host_root s)) = None"
    by (simp add: load_init_def)
  then show ?thesis using assms(6,7)
    by (simp add: load_def find_config_file_def read_yaml_config_def Let_def)
qed

definition self_env :: env where
  "self_env = demo_env\<lparr>load_all := (\<lambda>_. Inr [YMap [] [(ykey ''include'', YSequence [] [ykey ''/a.yaml''])],
     YMap [] []])\<rparr>"

theorem self_include_diverges_witness:
  "\<forall>fuel. load fuel self_env (Some ''/a.yaml'') config_empty = None"
  by (rule allI, rule self_include_diverges [where meta = "YMap [] [(ykey ''include'', YSequence [] [ykey ''/a.yaml''])]"
        and t = "[]" and tg = "[]"])
     (simp_all add: self_env_def demo_env_def demo_ycpp_def ykey_def tag_name_def)

section \<open>Which document wins\<close>

text \<open>
  C14. A document read later overrides: when its tree is merged into the configuration
  without an error, every scalar it has is the value at its path, provided the
  configuration had a scalar leaf or nothing there.
\<close>

theorem later_document_overrides:
  assumes "wf_node sub" and "doc_tree sub" and "node_name sub = ''root''" and "wf_node r"
    and "plus_eq y sub r = ok r'"
    and "lookup sub (str_split_to_queue slash path) = Some m" and "is_scalar m"
    and "\<And>m0. lookup r (str_split_to_queue slash path) = Some m0 \<Longrightarrow> is_scalar m0 \<and> \<not> has_children m0"
    and "conv (scalar_value m) = Some v"
  shows "get_value_as conv r' path = Inr v"
proof -
  have "merge_into y sub r = ok r'" using assms(3,5) by (simp add: plus_eq_root)
  then have m: "snd (merge_into y sub r) = None" "fst (merge_into y sub r) = r'" by simp_all
  obtain m' where "lookup r' (str_split_to_queue slash path) = Some m'" "is_scalar m'"
      "scalar_value m' = scalar_value m" "\<not> has_children m'"
    using merge_override [OF assms(1,2,4) m(1) assms(6,7,8)] m(2) by auto
  moreover from this have "node_type m' \<noteq> SEQUENCE" by (auto simp: is_scalar_def)
  ultimately show ?thesis using assms(9)
    unfolding get_value_as_iff by (auto simp: leaf_at_def get_value_def)
qed

definition tree_of :: "ynode \<Rightarrow> node" where
  "tree_of d = fst (read_config_doc demo_ycpp d (new_node ''root''))"

lemma lookup_sat:
  "(case lookup n q of None \<Rightarrow> False | Some m \<Rightarrow> P m) \<Longrightarrow> \<exists>m. lookup n q = Some m \<and> P m"
  by (auto split: option.splits)

theorem later_document_overrides_witness:
  "\<exists>r'. plus_eq demo_ycpp (tree_of doc_b) (tree_of doc_a) = ok r' \<and>
     get_value_as convert_uint r' ''/llsf/comm/port'' = Inr 5555"
proof -
  have "(case lookup (tree_of doc_b) (str_split_to_queue slash ''/llsf/comm/port'') of
      None \<Rightarrow> False | Some m \<Rightarrow> is_scalar m \<and> convert_uint (scalar_value m) = Some 5555)"
    by code_simp
  then obtain m where m: "lookup (tree_of doc_b) (str_split_to_queue slash ''/llsf/comm/port'') = Some m"
      "is_scalar m" "convert_uint (scalar_value m) = Some 5555"
    by (blast dest: lookup_sat)
  have "(case lookup (tree_of doc_a) (str_split_to_queue slash ''/llsf/comm/port'') of
      None \<Rightarrow> False | Some m \<Rightarrow> is_scalar m \<and> \<not> has_children m)"
    by code_simp
  then obtain m0 where m0:
      "lookup (tree_of doc_a) (str_split_to_queue slash ''/llsf/comm/port'') = Some m0"
      "is_scalar m0 \<and> \<not> has_children m0"
    by (blast dest: lookup_sat)
  have "snd (plus_eq demo_ycpp (tree_of doc_b) (tree_of doc_a)) = None" by code_simp
  then obtain r' where r: "plus_eq demo_ycpp (tree_of doc_b) (tree_of doc_a) = ok r'"
    by (cases "plus_eq demo_ycpp (tree_of doc_b) (tree_of doc_a)") (auto simp: ok_def)
  have f: "wf_node (tree_of doc_b)" "doc_tree (tree_of doc_b)" "node_name (tree_of doc_b) = ''root''"
    "wf_node (tree_of doc_a)"
    by code_simp+
  have "get_value_as convert_uint r' ''/llsf/comm/port'' = Inr 5555"
    by (rule later_document_overrides [where conv = convert_uint, OF f r m(1,2)])
       (use m0 m(3) in simp_all)
  then show ?thesis using r by blast
qed

section \<open>Changes of the files\<close>

text \<open>
  A path whose leaf differs between two trees: only one of them has it, or name, type
  or scalar text differ.
\<close>

definition changed_leaf :: "node \<Rightarrow> node \<Rightarrow> string \<Rightarrow> bool" where
  "changed_leaf a b p =
     (case (map_of (leafs a) p, map_of (leafs b) p) of
        (None, None) \<Rightarrow> False
      | (Some x, Some x') \<Rightarrow> \<not> node_eq x x'
      | _ \<Rightarrow> True)"


definition old_config :: config where
  "old_config = config_empty\<lparr>root := Some (tree_of doc_a), host_root := Some root_node,
     config_file := ''/etc/a.yaml''\<rparr>"


text \<open>Lists are not compared: two trees that differ only in a list have no difference.\<close>

lemma diff_ignores_lists:
  "diff_nodes (put_child k (Node k SEQUENCE [] [] l False) root_node)
              (put_child k (Node k SEQUENCE [] [] l' False) root_node) = []"
proof -
  have "map_of (leafs (put_child k (Node k SEQUENCE [] [] ll False) root_node))
      = [slash # k \<mapsto> Node k SEQUENCE [] [] ll False]" for ll
    by (simp add: leafs_def put_child_def root_node_def has_children_def)
  then have "p \<notin> set (diff_nodes (put_child k (Node k SEQUENCE [] [] l False) root_node)
              (put_child k (Node k SEQUENCE [] [] l' False) root_node))" for p
    by (simp add: set_diff_nodes node_eq_def)
  then show ?thesis by (metis last_in_set)
qed

section \<open>The host file\<close>

lemma emit_children_mem:
  "(k, c) \<in> set cs \<Longrightarrow>
   sublist (if has_children c then KeyEv k # ValueBegin # emit_events c
            else [KeyEv k, ValueEv (scalar_value c)]) (emit_children cs)"
proof (induction cs)
  case (Cons kc cs)
  then show ?case
    by (auto simp del: append_Cons intro: sublist_append_rightI sublist_append_leftI
        intro: sublist_order.order_trans)
qed simp

lemma emit_leaf:
  assumes "leaf_at n q m" and "q \<noteq> []"
  shows "sublist [KeyEv (last q), ValueEv (scalar_value m)] (emit_events n)"
  using assms
proof (induction q arbitrary: n)
  case (Cons k q)
  obtain c where c: "child_at n k = Some c" "leaf_at c q m"
    using Cons.prems by (auto simp: leaf_at_Cons)
  then have mem: "(k, c) \<in> set (children n)" by (auto simp: child_at_def dest: map_of_SomeD)
  then have "emit_events n = [BeginMap] @ emit_children (children n) @ [EndMap]"
    by (cases n) auto
  then have inner: "sublist (emit_children (children n)) (emit_events n)"
    using sublist_appendI by metis
  show ?case
  proof (cases "q = []")
    case True
    then show ?thesis
      using c emit_children_mem [OF mem] inner
      by (auto simp: leaf_at_def intro: sublist_order.order_trans)
  next
    case False
    have h: "has_children c" using c(2) False inner_has_children by (auto simp: leaf_at_def)
    have "sublist (emit_events c) (KeyEv k # ValueBegin # emit_events c)"
      using sublist_append_leftI [of "emit_events c" "[KeyEv k, ValueBegin]"] by simp
    then show ?thesis
      using Cons.IH [OF c(2) False] emit_children_mem [OF mem] h inner False
      by (auto intro: sublist_order.order_trans)
  qed
qed simp

text \<open>
  A list set at a new path does not reach the host file: the file that the setter
  writes has the key with the empty text as its value.
\<close>

theorem host_file_loses_lists:
  assumes "root s = Some r" and "host_root s = Some h" and "cfg_wf s" and "writable e s"
    and "\<not> has_children (target r (str_split_to_queue slash path))"
    and "lookup h (str_split_to_queue slash path) = None"
  shows "\<exists>s' ev. cfg_set_strings e path vs s = ok s' \<and> disk s' (host_file s) = Some ev \<and>
    sublist [KeyEv (last (str_split_to_queue slash path)), ValueEv []] ev"
proof -
  let ?q = "str_split_to_queue slash path"
  define f where "f = set_list (\<lambda>t. t) path vs"
  have wf: "wf_node r" "wf_node h" using assms by (simp_all add: cfg_wf_def)
  have t: "target h ?q = new_node (last ?q)" using assms(6) by (simp add: target_def)
  have q: "?q \<noteq> []" using assms(6) by (cases ?q) auto
  note H = at_path_same [OF set_list_here_keeps [of path vs] wf(2) split_good [of path]]
  note R = at_path_same [OF set_list_here_keeps [of path vs] wf(1) split_good [of path]]
  have "snd (f r) = None"
    using R assms(5) by (simp add: f_def set_list_def find_or_insert_def set_list_here_def
        set_scalar_list_def)
  moreover have "snd (f h) = None" and
    "leaf_at (fst (f h)) ?q (with_type SEQUENCE (with_list vs (new_node (last ?q))))"
    using H t by (simp_all add: f_def set_list_def find_or_insert_def set_list_here_def
        set_scalar_list_def has_children_def leaf_at_def)
  moreover have "scalar_value (with_type SEQUENCE (with_list vs (new_node (last ?q)))) = []"
    by (simp add: new_node_def)
  ultimately have "set_both e f s = ok (s\<lparr>root := Some (fst (f r)), host_root := Some (fst (f h)),
      disk := (disk s)(host_file s \<mapsto> emit_events (fst (f h)))\<rparr>)"
    "sublist [KeyEv (last ?q), ValueEv []] (emit_events (fst (f h)))"
    using set_both_ok [OF assms(1,2,4)] emit_leaf [OF _ q] by (blast, metis)
  then show ?thesis by (simp add: cfg_set_strings_def f_def)
qed

theorem host_file_loses_lists_witness:
  "\<exists>s' ev. cfg_set_strings demo_env ''/teams'' [''A'', ''B''] demo_config = ok s' \<and>
     disk s' (host_file demo_config) = Some ev \<and> sublist [KeyEv ''teams'', ValueEv []] ev"
proof -
  have a: "\<not> has_children (target demo_tree (str_split_to_queue slash ''/teams''))"
    "last (str_split_to_queue slash ''/teams'') = ''teams''" by code_simp+
  have b: "lookup root_node (str_split_to_queue slash ''/teams'') = None" by code_simp
  show ?thesis using host_file_loses_lists [OF demo_facts(1-4) a(1) b, of "[''A'', ''B'']"]
    unfolding a(2) .
qed

text \<open>
  Setting a list of C strings stores the word \<open>true\<close> for every element that is not
  a null pointer, whatever its text: \<open>get_strings\<close> gives a list of \<open>true\<close>s.
\<close>

theorem set_cstrings_stores_true:
  assumes "root s = Some r" and "host_root s = Some h" and "cfg_wf s" and "writable e s"
    and "\<not> has_children (target r (str_split_to_queue slash path))"
    and "\<not> has_children (target h (str_split_to_queue slash path))"
  shows "\<exists>s'. cfg_set_cstrings e path (map Some ts) s = ok s' \<and>
    cfg_get_strings s' path = Inr (map (\<lambda>_. ''true'') ts)"
proof -
  have "settable ''true''" by code_simp
  then have "list_all settable (map (\<lambda>_. ''true'') ts)" by (simp add: list_all_iff)
  from string_codec.set_both_get_list [OF assms this]
  have "\<exists>s'. set_both e (set_list (\<lambda>s. s) path (map (\<lambda>_. ''true'') ts)) s = ok s' \<and>
    cfg_get_strings s' path = Inr (map (\<lambda>_. ''true'') ts)"
    by (simp add: cfg_get_strings_def)
  moreover have "set_list (\<lambda>s. s) path (map (\<lambda>_. ''true'') ts)
      = set_list (\<lambda>p. to_string_bool (p \<noteq> None)) path (map Some ts)"
    unfolding set_list_def to_string_bool_def map_map comp_def by simp
  ultimately show ?thesis by (simp add: cfg_set_cstrings_def)
qed

theorem set_cstrings_stores_true_witness:
  "\<exists>s'. cfg_set_cstrings demo_env ''/llsf/comm/port'' (map Some [''A'', ''B'']) demo_config = ok s' \<and>
     cfg_get_strings s' ''/llsf/comm/port'' = Inr (map (\<lambda>_. ''true'') [''A'', ''B''])"
  by (rule set_cstrings_stores_true [OF demo_facts(1-4)])
     (use demo_assignable in \<open>simp_all add: assignable_def Let_def\<close>)


end
