(* ===== verification/Sps.thy ===== *)
theory Sps imports Strings_Util
begin

unbundle bit_operations_syntax

text \<open>
  The field controllers, \<open>SPSComm\<close> of \<open>src/libs/llsf_sps/sps_comm.cpp\<close>: the signal
  lights and RFID stations of the machines as registers of PLCs, sixteen machines to
  a PLC. libmodbus is a parameter: a record of functions on a world type.
\<close>

section \<open>The bus\<close>

text \<open>
  \<open>mb_open\<close> is \<open>modbus_new_tcp\<close> with \<open>modbus_connect\<close> (a handle, or \<open>None\<close> for -1),
  \<open>mb_write\<close> tells whether all registers were written, \<open>mb_read\<close> gives the registers
  when all of them were read.
\<close>

record 'w modbus =
  mb_open :: "string \<Rightarrow> nat \<Rightarrow> 'w \<Rightarrow> 'w \<times> nat option"
  mb_connect :: "nat \<Rightarrow> 'w \<Rightarrow> 'w \<times> bool"
  mb_close :: "nat \<Rightarrow> 'w \<Rightarrow> 'w"
  mb_write :: "nat \<Rightarrow> nat \<Rightarrow> 16 word list \<Rightarrow> 'w \<Rightarrow> 'w \<times> bool"
  mb_read :: "nat \<Rightarrow> nat \<Rightarrow> nat \<Rightarrow> 'w \<Rightarrow> 'w \<times> 16 word list option"

definition SPS_NUM_MACHINES :: nat where "SPS_NUM_MACHINES = 16"
definition MB_IN_REG_START :: nat where "MB_IN_REG_START = 0x4000"
definition MB_OUT_REG_START :: nat where "MB_OUT_REG_START = 0x4400"
definition SPS_OUT_REG_PER_SIGNAL :: nat where "SPS_OUT_REG_PER_SIGNAL = 3"
definition SPS_IN_REG_PER_RFID :: nat where "SPS_IN_REG_PER_RFID = 3"
definition SPS_OUT_REG_PER_RFID :: nat where "SPS_OUT_REG_PER_RFID = 3"

definition SPS_OUT_REG_START_SIGNAL :: nat where
  "SPS_OUT_REG_START_SIGNAL = MB_OUT_REG_START"

definition SPS_OUT_REG_START_RFID :: nat where
  "SPS_OUT_REG_START_RFID =
     SPS_OUT_REG_START_SIGNAL + SPS_OUT_REG_PER_SIGNAL * SPS_NUM_MACHINES"

definition SPS_IN_REG_START_RFID :: nat where
  "SPS_IN_REG_START_RFID = MB_IN_REG_START"

definition SPS_RFID_HAS_PUCK :: "16 word" where "SPS_RFID_HAS_PUCK = 0x0100"
definition SPS_RFID_WRITE_DONE :: "16 word" where "SPS_RFID_WRITE_DONE = 0x0200"
definition SPS_RFID_WRITE_PUCK_ID :: "16 word" where "SPS_RFID_WRITE_PUCK_ID = 0x0100"
definition SPS_RFID_RESET_WRITE :: "16 word" where "SPS_RFID_RESET_WRITE = 0x0200"
definition NO_PUCK :: "32 word" where "NO_PUCK = 0xFFFFFFFF"

lemmas sps_consts = SPS_NUM_MACHINES_def MB_IN_REG_START_def MB_OUT_REG_START_def
  SPS_OUT_REG_PER_SIGNAL_def SPS_IN_REG_PER_RFID_def SPS_OUT_REG_PER_RFID_def
  SPS_OUT_REG_START_SIGNAL_def SPS_OUT_REG_START_RFID_def SPS_IN_REG_START_RFID_def

datatype signal_state = SIGNAL_OFF | SIGNAL_ON | SIGNAL_BLINK

text \<open>A light is the number of the enumerator, which a cast can take out of range.\<close>

definition LIGHT_RED :: int where "LIGHT_RED = 0"
definition LIGHT_YELLOW :: int where "LIGHT_YELLOW = 1"
definition LIGHT_GREEN :: int where "LIGHT_GREEN = 2"

record sps =
  mbs :: "nat list"
  name_to_light :: "(string \<times> int) list"
  name_to_signal_state :: "(string \<times> signal_state) list"

section \<open>Operations\<close>

definition construct_mappings :: "sps \<Rightarrow> sps" where
  "construct_mappings s = s
     \<lparr>name_to_light := smap_ins ''GREEN'' LIGHT_GREEN (smap_ins ''YELLOW'' LIGHT_YELLOW
        (smap_ins ''RED'' LIGHT_RED (name_to_light s))),
      name_to_signal_state := smap_ins ''BLINK'' SIGNAL_BLINK (smap_ins ''ON'' SIGNAL_ON
        (smap_ins ''OFF'' SIGNAL_OFF (name_to_signal_state s)))\<rparr>"

definition sps_fail :: "string \<Rightarrow> exn" where
  "sps_fail what = FawkesException (''Failed to '' @ what)"

fun connect_all :: "'w modbus \<Rightarrow> string list \<Rightarrow> nat \<Rightarrow> nat list \<Rightarrow> 'w \<Rightarrow> 'w \<times> nat list result" where
  "connect_all b [] port hs w = (w, Inr hs)"
| "connect_all b (host # hosts) port hs w =
     (case mb_open b host port w of
        (w1, None) \<Rightarrow> (fold (mb_close b) hs w1, Inl (sps_fail ''connect to SPS''))
      | (w1, Some h) \<Rightarrow> connect_all b hosts port (hs @ [h]) w1)"

definition sps_new :: "'w modbus \<Rightarrow> string list \<Rightarrow> nat \<Rightarrow> 'w \<Rightarrow> 'w \<times> sps result" where
  "sps_new b hosts port w =
     (case connect_all b hosts port [] w of
        (w1, Inl e) \<Rightarrow> (w1, Inl e)
      | (w1, Inr hs) \<Rightarrow>
          (w1, Inr (construct_mappings
             \<lparr>mbs = hs, name_to_light = [], name_to_signal_state = []\<rparr>)))"

definition sps_new_single :: "'w modbus \<Rightarrow> string \<Rightarrow> nat \<Rightarrow> 'w \<Rightarrow> 'w \<times> sps result" where
  "sps_new_single b host port w =
     (case mb_open b host port w of
        (w1, None) \<Rightarrow> (w1, Inl (sps_fail ''connect to SPS''))
      | (w1, Some h) \<Rightarrow>
          (w1, Inr (construct_mappings
             \<lparr>mbs = [h], name_to_light = [], name_to_signal_state = []\<rparr>)))"

definition sps_delete :: "'w modbus \<Rightarrow> sps \<Rightarrow> 'w \<Rightarrow> 'w" where
  "sps_delete b s w = fold (mb_close b) (mbs s) w"

fun reconnect_all :: "'w modbus \<Rightarrow> nat list \<Rightarrow> 'w \<Rightarrow> 'w mutation" where
  "reconnect_all b [] w = ok w"
| "reconnect_all b (h # hs) w =
     (case mb_connect b h (mb_close b h w) of
        (w1, True) \<Rightarrow> reconnect_all b hs w1
      | (w1, False) \<Rightarrow> throwing (sps_fail ''re-connect to SPS'') w1)"

definition try_reconnect :: "'w modbus \<Rightarrow> sps \<Rightarrow> 'w \<Rightarrow> 'w mutation" where
  "try_reconnect b s w = reconnect_all b (mbs s) w"

text \<open>The PLC of a machine, and the machine's number there (the argument is changed).\<close>

definition plc_index :: "sps \<Rightarrow> nat \<Rightarrow> (nat \<times> nat) result" where
  "plc_index s m =
     (let plc_idx = m div 16 in
      if plc_idx \<ge> length (mbs s)
      then Inl (OutOfBoundsException ''Machine index out of bounds''
                  (int plc_idx) 0 (int (length (mbs s))))
      else Inr (plc_idx, m - plc_idx * SPS_NUM_MACHINES))"

definition signal_value :: "signal_state \<Rightarrow> 8 word" where
  "signal_value st = (case st of SIGNAL_ON \<Rightarrow> 1 | SIGNAL_BLINK \<Rightarrow> 2 | SIGNAL_OFF \<Rightarrow> 0)"

definition light_register :: "nat \<Rightarrow> int \<Rightarrow> nat" where
  "light_register m light = SPS_OUT_REG_START_SIGNAL + m * SPS_OUT_REG_PER_SIGNAL + nat light"

definition set_light ::
  "'w modbus \<Rightarrow> sps \<Rightarrow> nat \<Rightarrow> int \<Rightarrow> signal_state \<Rightarrow> 'w \<Rightarrow> 'w mutation" where
  "set_light b s m light state w =
     (if light < LIGHT_RED \<or> light > LIGHT_GREEN then
        throwing (OutOfBoundsException ''Signal register offset out of bounds''
          light LIGHT_RED LIGHT_GREEN) w
      else case plc_index s m of
        Inl e \<Rightarrow> throwing e w
      | Inr (plc_idx, m') \<Rightarrow>
          if m' > SPS_NUM_MACHINES then
            throwing (OutOfBoundsException ''Machine index out of bounds''
              (int m') 0 (int SPS_NUM_MACHINES)) w
          else
            (let value = push_bit 8 (ucast (signal_value state)) :: 16 word in
             case mb_write b (mbs s ! plc_idx) (light_register m' light) [value] w of
               (w1, True) \<Rightarrow> ok w1
             | (w1, False) \<Rightarrow> throwing (sps_fail ''set register'') w1))"

definition to_light :: "sps \<Rightarrow> string \<Rightarrow> int result" where
  "to_light s light =
     (case map_of (name_to_light s) light of
        Some l \<Rightarrow> Inr l
      | None \<Rightarrow> Inl (FawkesException (''Unknown light name '' @ light @ '' requested'')))"

definition to_signal_state :: "sps \<Rightarrow> string \<Rightarrow> signal_state result" where
  "to_signal_state s st =
     (case map_of (name_to_signal_state s) st of
        Some l \<Rightarrow> Inr l
      | None \<Rightarrow> Inl (FawkesException (''Unknown signal state '' @ st @ '' requested'')))"

text \<open>
  The arguments are converted before the call; the order of the two conversions is
  not specified in C++, and only decides which message is thrown.
\<close>

definition set_light_named ::
  "'w modbus \<Rightarrow> sps \<Rightarrow> nat \<Rightarrow> string \<Rightarrow> string \<Rightarrow> 'w \<Rightarrow> 'w mutation" where
  "set_light_named b s m light state w =
     (case to_light s light of
        Inl e \<Rightarrow> throwing e w
      | Inr l \<Rightarrow>
          (case to_signal_state s state of
             Inl e \<Rightarrow> throwing e w | Inr st \<Rightarrow> set_light b s m l st w))"

fun write_each :: "'w modbus \<Rightarrow> nat \<Rightarrow> 16 word list \<Rightarrow> exn \<Rightarrow> nat list \<Rightarrow> 'w \<Rightarrow> 'w mutation" where
  "write_each b addr values e [] w = ok w"
| "write_each b addr values e (h # hs) w =
     (case mb_write b h addr values w of
        (w1, True) \<Rightarrow> write_each b addr values e hs w1
      | (w1, False) \<Rightarrow> throwing e w1)"

definition reset_lights :: "'w modbus \<Rightarrow> sps \<Rightarrow> 'w \<Rightarrow> 'w mutation" where
  "reset_lights b s w =
     write_each b SPS_OUT_REG_START_SIGNAL
       (replicate (SPS_OUT_REG_PER_SIGNAL * SPS_NUM_MACHINES) 0) (sps_fail ''reset register'')
       (mbs s) w"

definition reset_rfids :: "'w modbus \<Rightarrow> sps \<Rightarrow> 'w \<Rightarrow> 'w mutation" where
  "reset_rfids b s w =
     write_each b SPS_OUT_REG_START_RFID
       (replicate (SPS_OUT_REG_PER_RFID * SPS_NUM_MACHINES) 0) (sps_fail ''reset RFID registers'')
       (mbs s) w"

text \<open>A sequence of calls, ended by the first that throws.\<close>

fun in_sequence :: "('w \<Rightarrow> 'w mutation) list \<Rightarrow> 'w \<Rightarrow> 'w mutation" where
  "in_sequence [] w = ok w"
| "in_sequence (f # fs) w = andThen (f w) (in_sequence fs)"

definition all_lights ::
  "'w modbus \<Rightarrow> sps \<Rightarrow> nat \<Rightarrow> signal_state \<Rightarrow> ('w \<Rightarrow> 'w mutation) list" where
  "all_lights b s n st =
     [set_light b s m l st. m \<leftarrow> [0..<n], l \<leftarrow> [LIGHT_RED, LIGHT_YELLOW, LIGHT_GREEN]]"

text \<open>The test sequence; the pauses between its phases are left out.\<close>

definition test_lights :: "'w modbus \<Rightarrow> sps \<Rightarrow> 'w \<Rightarrow> 'w mutation" where
  "test_lights b s w =
     (let num_machines = length (mbs s) * SPS_NUM_MACHINES in
      in_sequence
        (all_lights b s num_machines SIGNAL_BLINK
         @ all_lights b s num_machines SIGNAL_ON
         @ concat (map (\<lambda>l. reset_lights b s # map (\<lambda>m. set_light b s m l SIGNAL_ON) [0..<num_machines])
             [LIGHT_RED, LIGHT_YELLOW, LIGHT_GREEN])
         @ all_lights b s num_machines SIGNAL_OFF
         @ [set_light b s (p * SPS_NUM_MACHINES + m) l SIGNAL_ON.
              m \<leftarrow> [0..<SPS_NUM_MACHINES], p \<leftarrow> [0..<length (mbs s)],
              l \<leftarrow> [LIGHT_RED, LIGHT_YELLOW, LIGHT_GREEN]]) w)"

definition has_bits :: "16 word \<Rightarrow> 16 word \<Rightarrow> bool" where
  "has_bits r bits \<longleftrightarrow> r AND bits \<noteq> 0"

text \<open>\<open>regs[1] << 16 | regs[2]\<close>, converted to \<open>uint32_t\<close>.\<close>

definition puck_id :: "16 word \<Rightarrow> 16 word \<Rightarrow> 32 word" where
  "puck_id hi lo = push_bit 16 (ucast hi) OR ucast lo"

text \<open>\<open>Some id\<close> for true with the id, \<open>None\<close> for false with the argument unchanged.\<close>

definition read_rfid :: "'w modbus \<Rightarrow> sps \<Rightarrow> nat \<Rightarrow> 'w \<Rightarrow> 'w \<times> 32 word option result" where
  "read_rfid b s m w =
     (case plc_index s m of
        Inl e \<Rightarrow> (w, Inl e)
      | Inr (plc_idx, m') \<Rightarrow>
          (case mb_read b (mbs s ! plc_idx) (SPS_IN_REG_START_RFID + m' * SPS_IN_REG_PER_RFID)
              SPS_IN_REG_PER_RFID w of
             (w1, None) \<Rightarrow> (w1, Inl (sps_fail ''read RFID registers''))
           | (w1, Some regs) \<Rightarrow>
               (w1, Inr (if has_bits (regs ! 0) SPS_RFID_HAS_PUCK
                         then Some (puck_id (regs ! 1) (regs ! 2)) else None))))"

definition rfids_of_regs :: "16 word list \<Rightarrow> 32 word list" where
  "rfids_of_regs regs =
     map (\<lambda>i. if has_bits (regs ! (i * SPS_IN_REG_PER_RFID)) SPS_RFID_HAS_PUCK
              then puck_id (regs ! (i * SPS_IN_REG_PER_RFID + 1))
                     (regs ! (i * SPS_IN_REG_PER_RFID + 2))
              else NO_PUCK)
       [0..<SPS_NUM_MACHINES]"

fun read_each :: "'w modbus \<Rightarrow> nat list \<Rightarrow> 'w \<Rightarrow> 'w \<times> 32 word list result" where
  "read_each b [] w = (w, Inr [])"
| "read_each b (h # hs) w =
     (case mb_read b h SPS_IN_REG_START_RFID (SPS_NUM_MACHINES * SPS_IN_REG_PER_RFID) w of
        (w1, None) \<Rightarrow> (w1, Inl (sps_fail ''read RFID registers''))
      | (w1, Some regs) \<Rightarrow>
          (case read_each b hs w1 of
             (w2, Inl e) \<Rightarrow> (w2, Inl e)
           | (w2, Inr ids) \<Rightarrow> (w2, Inr (rfids_of_regs regs @ ids))))"

definition read_rfids :: "'w modbus \<Rightarrow> sps \<Rightarrow> 'w \<Rightarrow> 'w \<times> 32 word list result" where
  "read_rfids b s w = read_each b (mbs s) w"

text \<open>
  The loop that waits for the PLC to report the write as done; \<open>None\<close> when the fuel
  ends first. The code has no limit.
\<close>

fun wait_written :: "nat \<Rightarrow> 'w modbus \<Rightarrow> nat \<Rightarrow> nat \<Rightarrow> 'w \<Rightarrow> 'w mutation option" where
  "wait_written 0 b h addr w = None"
| "wait_written (Suc fuel) b h addr w =
     (case mb_read b h addr SPS_IN_REG_PER_RFID w of
        (w1, None) \<Rightarrow> Some (throwing (sps_fail ''read RFID registers'') w1)
      | (w1, Some regs) \<Rightarrow>
          if has_bits (regs ! 0) SPS_RFID_WRITE_DONE then Some (ok w1)
          else wait_written fuel b h addr w1)"

definition rfid_write_regs :: "32 word \<Rightarrow> 16 word list" where
  "rfid_write_regs i =
     [SPS_RFID_WRITE_PUCK_ID, ucast (drop_bit 16 i AND 0xFFFF), ucast (i AND 0xFFFF)]"

definition write_rfid :: "nat \<Rightarrow> 'w modbus \<Rightarrow> sps \<Rightarrow> nat \<Rightarrow> 32 word \<Rightarrow> 'w \<Rightarrow> 'w mutation option" where
  "write_rfid fuel b s m i w =
     (case plc_index s m of
        Inl e \<Rightarrow> Some (throwing e w)
      | Inr (plc_idx, m') \<Rightarrow>
          (let h = mbs s ! plc_idx;
               out_addr = SPS_OUT_REG_START_RFID + m' * SPS_OUT_REG_PER_RFID;
               in_addr = SPS_IN_REG_START_RFID + m' * SPS_IN_REG_PER_RFID in
           case mb_write b h out_addr (rfid_write_regs i) w of
             (w1, False) \<Rightarrow> Some (throwing (sps_fail ''write RFID registers'') w1)
           | (w1, True) \<Rightarrow>
               (case wait_written fuel b h in_addr w1 of
                  None \<Rightarrow> None
                | Some (w2, Some e) \<Rightarrow> Some (throwing e w2)
                | Some (w2, None) \<Rightarrow>
                    (case mb_write b h out_addr [SPS_RFID_RESET_WRITE, 0, 0] w2 of
                       (w3, True) \<Rightarrow> Some (ok w3)
                     | (w3, False) \<Rightarrow> Some (throwing (sps_fail ''write RFID registers'') w3)))))"

section \<open>A register file\<close>

text \<open>
  PLCs that keep what is written, for the properties: the registers of every handle.
  Single registers are set one after the other.
\<close>

type_synonym registers = "nat \<Rightarrow> nat \<Rightarrow> 16 word"

fun store_regs :: "nat \<Rightarrow> nat \<Rightarrow> 16 word list \<Rightarrow> registers \<Rightarrow> registers" where
  "store_regs h a [] w = w"
| "store_regs h a (v # vs) w = store_regs h (Suc a) vs (w(h := (w h)(a := v)))"

definition reg_bus :: "registers modbus" where
  "reg_bus =
     \<lparr>mb_open = (\<lambda>_ _ w. (w, None)), mb_connect = (\<lambda>_ w. (w, True)), mb_close = (\<lambda>_ w. w),
      mb_write = (\<lambda>h a vs w. (store_regs h a vs w, True)),
      mb_read = (\<lambda>h a n w. (w, Some (map (w h) [a..<a + n])))\<rparr>"

lemma reg_bus_sel [simp]:
  "mb_write reg_bus h a vs w = (store_regs h a vs w, True)"
  "mb_read reg_bus h a n w = (w, Some (map (w h) [a..<a + n]))"
  by (simp_all add: reg_bus_def)

lemma store_regs_at:
  "store_regs h a vs w h' a' =
     (if h' = h \<and> a \<le> a' \<and> a' < a + length vs then vs ! (a' - a) else w h' a')"
proof (induction vs arbitrary: a w)
  case (Cons v vs)
  then show ?case by (cases "a' = a") (auto simp: nth_Cons' Suc_diff_le)
qed auto

text \<open>Machine \<open>m\<close> has light \<open>l\<close> in state \<open>st\<close>.\<close>

definition light_is :: "sps \<Rightarrow> registers \<Rightarrow> nat \<Rightarrow> int \<Rightarrow> signal_state \<Rightarrow> bool" where
  "light_is s w m l st \<longleftrightarrow>
     w (mbs s ! (m div 16)) (light_register (m mod 16) l) = push_bit 8 (ucast (signal_value st))"

lemma plc_index_ok:
  assumes "m < 16 * length (mbs s)"
  shows "plc_index s m = Inr (m div 16, m mod 16)"
proof -
  have "m div 16 < length (mbs s)" using assms by (simp add: div_less_iff_less_mult)
  then show ?thesis
    by (simp add: plc_index_def Let_def sps_consts modulo_nat_def)
qed

definition valid_light :: "int \<Rightarrow> bool" where
  "valid_light l \<longleftrightarrow> LIGHT_RED \<le> l \<and> l \<le> LIGHT_GREEN"

lemma valid_light_cases: "valid_light l \<longleftrightarrow> l \<in> {LIGHT_RED, LIGHT_YELLOW, LIGHT_GREEN}"
  by (auto simp: valid_light_def LIGHT_RED_def LIGHT_YELLOW_def LIGHT_GREEN_def)

lemma set_light_reg:
  assumes "m < 16 * length (mbs s)" "valid_light l"
  shows "set_light reg_bus s m l st w =
    ok (store_regs (mbs s ! (m div 16)) (light_register (m mod 16) l)
      [push_bit 8 (ucast (signal_value st))] w)"
proof -
  have "m mod 16 \<le> SPS_NUM_MACHINES" by (simp add: SPS_NUM_MACHINES_def less_imp_le)
  then show ?thesis
    using assms by (simp add: set_light_def plc_index_ok valid_light_def not_less)
qed

lemma three_digits: "(a::nat) < 3 \<Longrightarrow> b < 3 \<Longrightarrow> m * 3 + a = m' * 3 + b \<longleftrightarrow> m = m' \<and> a = b"
  by presburger

lemma light_register_inj:
  assumes "valid_light l" "valid_light l'"
  shows "light_register m l = light_register m' l' \<longleftrightarrow> m = m' \<and> l = l'"
proof -
  have "nat l < 3" "nat l' < 3" "nat l = nat l' \<longleftrightarrow> l = l'"
    using assms by (auto simp: valid_light_def LIGHT_RED_def LIGHT_GREEN_def)
  then show ?thesis by (simp add: light_register_def sps_consts three_digits)
qed

lemma light_register_bounds:
  assumes "valid_light l" "m < SPS_NUM_MACHINES"
  shows "SPS_OUT_REG_START_SIGNAL \<le> light_register m l" "light_register m l < SPS_OUT_REG_START_RFID"
  using assms by (auto simp: light_register_def sps_consts valid_light_def LIGHT_RED_def LIGHT_GREEN_def)

lemma set_light_effect:
  assumes "distinct (mbs s)" and "m < 16 * length (mbs s)" and "m' < 16 * length (mbs s)"
    and "valid_light l" and "valid_light l'"
  shows "\<exists>w'. set_light reg_bus s m l st w = ok w' \<and> light_is s w' m l st \<and>
    (light_is s w' m' l' st' \<longleftrightarrow>
       (if m' = m \<and> l' = l then signal_value st' = signal_value st else light_is s w m' l' st'))"
proof -
  let ?v = "\<lambda>x. push_bit 8 (ucast (signal_value x)) :: 16 word"
  let ?w = "store_regs (mbs s ! (m div 16)) (light_register (m mod 16) l) [?v st] w"
  have d: "m div 16 < length (mbs s)" "m' div 16 < length (mbs s)"
    using assms(2,3) by (simp_all add: div_less_iff_less_mult)
  have same: "mbs s ! (m' div 16) = mbs s ! (m div 16) \<longleftrightarrow> m' div 16 = m div 16"
    using assms(1) d by (simp add: nth_eq_iff_index_eq)
  have m: "m' div 16 = m div 16 \<and> m' mod 16 = m mod 16 \<longleftrightarrow> m' = m"
    by (metis div_mult_mod_eq)
  have v: "?v st' = ?v st \<longleftrightarrow> signal_value st' = signal_value st"
    by (cases st; cases st') (simp_all add: signal_value_def)
  have "?w h a = (if h = mbs s ! (m div 16) \<and> a = light_register (m mod 16) l then ?v st else w h a)" for h a
    by (auto simp: store_regs_at)
  then have "light_is s ?w m l st" and "light_is s ?w m' l' st' \<longleftrightarrow>
       (if m' = m \<and> l' = l then signal_value st' = signal_value st else light_is s w m' l' st')"
    using same m v light_register_inj [OF assms(5,4), of "m' mod 16" "m mod 16"]
    by (auto simp: light_is_def)
  then show ?thesis using set_light_reg [OF assms(2,4)] by blast
qed

text \<open>
  Setting a light of an existing machine sets that light and no other: every light
  of every machine, on whichever PLC, is afterwards in the state it was in, except the
  one that was set.
\<close>

theorem set_light_exact:
  assumes "distinct (mbs s)" and "m < 16 * length (mbs s)" and "m' < 16 * length (mbs s)"
    and "valid_light l" and "valid_light l'"
  shows "\<exists>w'. set_light reg_bus s m l st w = ok w' \<and> light_is s w' m l st \<and>
    (light_is s w' m' l' st' \<longleftrightarrow>
       (if m' = m \<and> l' = l then signal_value st' = signal_value st else light_is s w m' l' st'))"
  using assms by (rule set_light_effect)

definition demo_sps :: sps where
  "demo_sps = construct_mappings \<lparr>mbs = [7, 9], name_to_light = [], name_to_signal_state = []\<rparr>"

lemma demo_sps_mbs [simp]: "mbs demo_sps = [7, 9]"
  by (simp add: demo_sps_def construct_mappings_def)

theorem set_light_exact_witness:
  "\<exists>w'. set_light reg_bus demo_sps 17 LIGHT_RED SIGNAL_BLINK (\<lambda>_ _. 0) = ok w' \<and>
     light_is demo_sps w' 17 LIGHT_RED SIGNAL_BLINK \<and> light_is demo_sps w' 1 LIGHT_RED SIGNAL_OFF"
proof -
  have "valid_light LIGHT_RED" by (simp add: valid_light_cases)
  moreover have "light_is demo_sps (\<lambda>_ _. 0) 1 LIGHT_RED SIGNAL_OFF"
    by (simp add: light_is_def signal_value_def)
  ultimately show ?thesis
    using set_light_exact [of demo_sps 17 1 LIGHT_RED LIGHT_RED SIGNAL_BLINK "\<lambda>_ _. 0" SIGNAL_OFF]
    by auto
qed

section \<open>The light test\<close>

lemma in_sequence_append: "in_sequence (fs @ gs) w = andThen (in_sequence fs w) (in_sequence gs)"
proof (induction fs arbitrary: w)
  case (Cons f fs)
  then show ?case by (cases "f w"; cases "snd (f w)") (auto simp: andThen_def)
qed simp

lemma in_sequence_succeeds:
  "(\<And>f w. f \<in> set fs \<Longrightarrow> \<exists>w'. f w = ok w') \<Longrightarrow> \<exists>w'. in_sequence fs w = ok w'"
proof (induction fs arbitrary: w)
  case (Cons f fs)
  obtain w1 where "f w = ok w1" using Cons.prems by auto
  then show ?case using Cons by simp
qed simp

lemma all_lights_mem:
  "f \<in> set (all_lights b s n st) \<Longrightarrow>
   \<exists>m l. m < n \<and> l \<in> set [LIGHT_RED, LIGHT_YELLOW, LIGHT_GREEN] \<and> f = set_light b s m l st"
  unfolding all_lights_def by fastforce

lemma write_each_reg: "\<exists>w'. write_each reg_bus addr vals e hs w = ok w'"
  by (induction hs arbitrary: w) simp_all

lemma lights_set:
  assumes "distinct (mbs s)"
    and "\<And>m l. (m, l) \<in> set ps \<Longrightarrow> m < 16 * length (mbs s) \<and> valid_light l"
    and "\<And>m l. (m, l) \<in> dn \<Longrightarrow> m < 16 * length (mbs s) \<and> valid_light l \<and> light_is s w m l st"
  shows "\<exists>w'. in_sequence (map (\<lambda>(m, l). set_light reg_bus s m l st) ps) w = ok w' \<and>
    (\<forall>(m, l) \<in> dn \<union> set ps. light_is s w' m l st)"
  using assms(2,3)
proof (induction ps arbitrary: dn w)
  case Nil
  then show ?case by auto
next
  case (Cons p ps)
  obtain m l where p: "p = (m, l)" by (cases p)
  have m: "m < 16 * length (mbs s)" "valid_light l" using Cons.prems(1) p by auto
  obtain w1 where w1: "set_light reg_bus s m l st w = ok w1" using set_light_reg [OF m] by blast
  have "light_is s w1 m' l' st" if "(m', l') \<in> insert (m, l) dn" for m' l'
  proof -
    have "m' < 16 * length (mbs s)" "valid_light l'" using that m Cons.prems(2) by auto
    then show ?thesis
      using set_light_effect [OF assms(1) m(1) _ m(2), of m' l' st w st] w1 that Cons.prems(2) by auto
  qed
  then have dn: "m' < 16 * length (mbs s) \<and> valid_light l' \<and> light_is s w1 m' l' st"
    if "(m', l') \<in> insert (m, l) dn" for m' l'
    using that m Cons.prems(2) by auto
  have ps: "m' < 16 * length (mbs s) \<and> valid_light l'" if "(m', l') \<in> set ps" for m' l'
    using that Cons.prems(1) [of m' l'] by simp
  obtain w' where "in_sequence (map (\<lambda>(m, l). set_light reg_bus s m l st) ps) w1 = ok w'"
      "\<forall>(m, l) \<in> insert (m, l) dn \<union> set ps. light_is s w' m l st"
    using Cons.IH [OF ps dn] by blast
  then show ?case using w1 p by simp
qed

text \<open>
  The light test of a field whose PLCs answer runs to its end, and leaves every
  light of every machine switched on.
\<close>

theorem test_lights_all_on:
  assumes "distinct (mbs s)"
  shows "\<exists>w'. test_lights reg_bus s w = ok w' \<and>
    (\<forall>m < 16 * length (mbs s). \<forall>l. valid_light l \<longrightarrow> light_is s w' m l SIGNAL_ON)"
proof -
  let ?n = "length (mbs s)"
  let ?ls = "[LIGHT_RED, LIGHT_YELLOW, LIGHT_GREEN]"
  define phases where "phases = all_lights reg_bus s (?n * SPS_NUM_MACHINES) SIGNAL_BLINK
     @ all_lights reg_bus s (?n * SPS_NUM_MACHINES) SIGNAL_ON
     @ concat (map (\<lambda>l. reset_lights reg_bus s
         # map (\<lambda>m. set_light reg_bus s m l SIGNAL_ON) [0..<?n * SPS_NUM_MACHINES]) ?ls)
     @ all_lights reg_bus s (?n * SPS_NUM_MACHINES) SIGNAL_OFF"
  define ps where "ps = [(p * SPS_NUM_MACHINES + m, l).
     m \<leftarrow> [0..<SPS_NUM_MACHINES], p \<leftarrow> [0..<?n], l \<leftarrow> ?ls]"
  have split: "test_lights reg_bus s w = in_sequence
      (phases @ map (\<lambda>(m, l). set_light reg_bus s m l SIGNAL_ON) ps) w"
    by (simp add: test_lights_def phases_def ps_def Let_def map_concat comp_def)
  have light: "\<exists>w'. set_light reg_bus s m l st w = ok w'"
    if "m < ?n * SPS_NUM_MACHINES" "l \<in> set ?ls" for m l st w
    using set_light_reg [of m s l st w] that
    by (auto simp: valid_light_cases SPS_NUM_MACHINES_def mult.commute)
  have "\<exists>w'. f w = ok w'" if f: "f \<in> set phases" for f w
  proof -
    consider "f = reset_lights reg_bus s"
      | m l st where "m < ?n * SPS_NUM_MACHINES" "l \<in> set ?ls" "f = set_light reg_bus s m l st"
    proof -
      have "f \<in> set (all_lights reg_bus s (?n * SPS_NUM_MACHINES) st') \<Longrightarrow> thesis" for st'
        using all_lights_mem that(2) by blast
      moreover have "f \<in> set (concat (map (\<lambda>l. reset_lights reg_bus s
          # map (\<lambda>m. set_light reg_bus s m l SIGNAL_ON) [0..<?n * SPS_NUM_MACHINES]) ?ls)) \<Longrightarrow> thesis"
      proof -
        assume "f \<in> set (concat (map (\<lambda>l. reset_lights reg_bus s
          # map (\<lambda>m. set_light reg_bus s m l SIGNAL_ON) [0..<?n * SPS_NUM_MACHINES]) ?ls))"
        then have "f = reset_lights reg_bus s \<or> (\<exists>m l. m < ?n * SPS_NUM_MACHINES \<and>
            l \<in> set ?ls \<and> f = set_light reg_bus s m l SIGNAL_ON)"
          by auto
        then show thesis using that by blast
      qed
      ultimately show thesis using f unfolding phases_def set_append by blast
    qed
    then show ?thesis
      by cases (use light write_each_reg in \<open>simp_all add: reset_lights_def\<close>)
  qed
  then have "\<exists>w1. in_sequence phases w = ok w1" by (rule in_sequence_succeeds)
  then obtain w1 where w1: "in_sequence phases w = ok w1" by (rule exE)
  have ps: "set ps = {m. m < 16 * ?n} \<times> {l. valid_light l}"
  proof -
    have "(m, l) \<in> set ps" if "m < 16 * ?n" "valid_light l" for m l
    proof -
      have "m = (m div 16) * 16 + m mod 16" "m div 16 < ?n" "m mod 16 < 16"
        using that(1) by (simp_all add: div_less_iff_less_mult)
      then have "m mod 16 \<in> set [0..<SPS_NUM_MACHINES]" "m div 16 \<in> set [0..<?n]" "l \<in> set ?ls"
        and eq: "(m div 16) * SPS_NUM_MACHINES + m mod 16 = m"
        using that(2) by (simp_all add: SPS_NUM_MACHINES_def valid_light_cases)
      then have "((m div 16) * SPS_NUM_MACHINES + m mod 16, l) \<in> set ps"
        unfolding ps_def by (force simp del: upt_Suc)
      then show ?thesis unfolding eq .
    qed
    moreover have "m < 16 * ?n \<and> valid_light l" if "(m, l) \<in> set ps" for m l
      using that by (auto simp: ps_def SPS_NUM_MACHINES_def valid_light_cases)
    ultimately show ?thesis by auto
  qed
  have "\<exists>w'. in_sequence (map (\<lambda>(m, l). set_light reg_bus s m l SIGNAL_ON) ps) w1 = ok w' \<and>
      (\<forall>(m, l) \<in> {} \<union> set ps. light_is s w' m l SIGNAL_ON)"
    by (rule lights_set [OF assms]) (use ps in auto)
  then show ?thesis unfolding split in_sequence_append w1 ps by auto
qed

theorem test_lights_all_on_witness:
  "\<exists>w'. test_lights reg_bus demo_sps (\<lambda>_ _. 0) = ok w' \<and> light_is demo_sps w' 31 LIGHT_GREEN SIGNAL_ON"
  using test_lights_all_on [of demo_sps "\<lambda>_ _. 0"]
  by (auto simp: valid_light_cases)

section \<open>RFID\<close>

text \<open>
  The two registers that carry a puck's number to the writer are the ones the
  reader puts together again: every 32-bit number survives the split.
\<close>

theorem rfid_registers_roundtrip:
  "puck_id (rfid_write_regs i ! 1) (rfid_write_regs i ! 2) = i"
proof -
  have m: "(0xFFFF :: 32 word) = mask 16" by (simp add: mask_eq_exp_minus_1)
  have "bit (push_bit 16 (ucast (ucast (drop_bit 16 i AND mask 16) :: 16 word)) OR
      ucast (ucast (i AND mask 16) :: 16 word) :: 32 word) n = bit i n" if "n < 32" for n
    using that by (auto simp: bit_simps)
  then have "push_bit 16 (ucast (ucast (drop_bit 16 i AND mask 16) :: 16 word)) OR
      ucast (ucast (i AND mask 16) :: 16 word) = i"
    by (intro bit_word_eqI) simp
  then show ?thesis by (simp add: puck_id_def rfid_write_regs_def m)
qed

lemma rfids_of_regs_nth:
  "i < SPS_NUM_MACHINES \<Longrightarrow> rfids_of_regs (map f [a..<a + SPS_NUM_MACHINES * SPS_IN_REG_PER_RFID]) ! i =
     (if has_bits (f (a + i * SPS_IN_REG_PER_RFID)) SPS_RFID_HAS_PUCK
      then puck_id (f (a + i * SPS_IN_REG_PER_RFID + 1)) (f (a + i * SPS_IN_REG_PER_RFID + 2))
      else NO_PUCK)"
  by (simp add: rfids_of_regs_def sps_consts ac_simps del: upt_Suc)

lemma rfids_of_regs_length [simp]: "length (rfids_of_regs regs) = SPS_NUM_MACHINES"
  by (simp add: rfids_of_regs_def)

lemma read_each_reg:
  "\<exists>ids. read_each reg_bus hs w = (w, Inr ids) \<and> length ids = SPS_NUM_MACHINES * length hs \<and>
     (\<forall>p i. p < length hs \<longrightarrow> i < SPS_NUM_MACHINES \<longrightarrow>
        ids ! (p * SPS_NUM_MACHINES + i) =
          rfids_of_regs (map (w (hs ! p)) [SPS_IN_REG_START_RFID..<SPS_IN_REG_START_RFID +
            SPS_NUM_MACHINES * SPS_IN_REG_PER_RFID]) ! i)"
proof (induction hs)
  case (Cons h hs)
  let ?r = "\<lambda>h. rfids_of_regs (map (w h) [SPS_IN_REG_START_RFID..<SPS_IN_REG_START_RFID +
            SPS_NUM_MACHINES * SPS_IN_REG_PER_RFID])"
  obtain ids where ids: "read_each reg_bus hs w = (w, Inr ids)"
      "length ids = SPS_NUM_MACHINES * length hs"
      "\<And>p i. p < length hs \<Longrightarrow> i < SPS_NUM_MACHINES \<Longrightarrow>
        ids ! (p * SPS_NUM_MACHINES + i) = ?r (hs ! p) ! i"
    using Cons.IH by blast
  have "read_each reg_bus (h # hs) w = (w, Inr (?r h @ ids))"
    using ids(1) by simp
  moreover have "(?r h @ ids) ! (p * SPS_NUM_MACHINES + i) = ?r ((h # hs) ! p) ! i"
    if "p < length (h # hs)" "i < SPS_NUM_MACHINES" for p i
  proof (cases p)
    case 0
    then show ?thesis using that by (simp add: nth_append)
  next
    case (Suc p')
    have "p * SPS_NUM_MACHINES + i = SPS_NUM_MACHINES + (p' * SPS_NUM_MACHINES + i)"
      using Suc by simp
    then show ?thesis using ids(3) [of p' i] that Suc by (simp add: nth_append)
  qed
  ultimately show ?case using ids(2) by auto
qed simp

text \<open>
  Reading all RFID stations at once agrees with reading them one by one: the vector
  has an entry for every machine, which is the number \<open>read_rfid\<close> gives for it, and
  \<open>NO_PUCK\<close> where that finds no puck.
\<close>

theorem read_rfids_agrees:
  assumes "m < 16 * length (mbs s)"
  shows "\<exists>ids. read_rfids reg_bus s w = (w, Inr ids) \<and> length ids = 16 * length (mbs s) \<and>
    read_rfid reg_bus s m w =
      (w, Inr (if has_bits (w (mbs s ! (m div 16)) (0x4000 + 3 * (m mod 16))) SPS_RFID_HAS_PUCK
               then Some (ids ! m) else None)) \<and>
    (\<not> has_bits (w (mbs s ! (m div 16)) (0x4000 + 3 * (m mod 16))) SPS_RFID_HAS_PUCK
       \<longrightarrow> ids ! m = NO_PUCK)"
proof -
  have d: "m div 16 < length (mbs s)" using assms by (simp add: div_less_iff_less_mult)
  have i: "m mod 16 < SPS_NUM_MACHINES" by (simp add: SPS_NUM_MACHINES_def)
  have m: "(m div 16) * SPS_NUM_MACHINES + m mod 16 = m" by (simp add: SPS_NUM_MACHINES_def)
  obtain ids where ids: "read_each reg_bus (mbs s) w = (w, Inr ids)"
      "length ids = SPS_NUM_MACHINES * length (mbs s)"
      "\<And>p i. p < length (mbs s) \<Longrightarrow> i < SPS_NUM_MACHINES \<Longrightarrow>
        ids ! (p * SPS_NUM_MACHINES + i) =
          rfids_of_regs (map (w (mbs s ! p)) [SPS_IN_REG_START_RFID..<SPS_IN_REG_START_RFID +
            SPS_NUM_MACHINES * SPS_IN_REG_PER_RFID]) ! i"
    using read_each_reg [of "mbs s" w] by blast
  note at = ids(3) [OF d i, unfolded m rfids_of_regs_nth [OF i]]
  have a: "SPS_IN_REG_START_RFID + m mod 16 * SPS_IN_REG_PER_RFID = 0x4000 + 3 * (m mod 16)"
    by (simp add: sps_consts)
  have "read_rfid reg_bus s m w = (w, Inr (if has_bits (w (mbs s ! (m div 16))
        (0x4000 + 3 * (m mod 16))) SPS_RFID_HAS_PUCK then Some (ids ! m) else None))"
    unfolding read_rfid_def plc_index_ok [OF assms] at a
    by (simp add: SPS_IN_REG_PER_RFID_def a [unfolded SPS_IN_REG_PER_RFID_def] del: upt_Suc)
  moreover have "\<not> has_bits (w (mbs s ! (m div 16)) (0x4000 + 3 * (m mod 16))) SPS_RFID_HAS_PUCK
       \<longrightarrow> ids ! m = NO_PUCK"
    unfolding at a by simp
  moreover have "read_rfids reg_bus s w = (w, Inr ids)" "length ids = 16 * length (mbs s)"
    using ids(1,2) by (simp_all add: read_rfids_def SPS_NUM_MACHINES_def)
  ultimately show ?thesis by (intro exI [of _ ids] conjI)
qed

theorem read_rfids_agrees_witness:
  "\<exists>ids. read_rfids reg_bus demo_sps (\<lambda>_ _. 0x100) = (\<lambda>_ _. 0x100, Inr ids) \<and>
     read_rfid reg_bus demo_sps 20 (\<lambda>_ _. 0x100) = (\<lambda>_ _. 0x100, Inr (Some (ids ! 20)))"
proof -
  have "has_bits 0x100 SPS_RFID_HAS_PUCK" by (simp add: has_bits_def SPS_RFID_HAS_PUCK_def)
  then show ?thesis using read_rfids_agrees [of 20 demo_sps "\<lambda>_ _. 0x100"] by auto
qed

text \<open>
  Writing a puck waits for the PLC as long as it takes: when the PLC reports the
  write as done at the poll number \<open>k\<close>, counted from 0, the operation returns after
  having sent the number and then the reset, and with less fuel than that it is still
  waiting.
\<close>

theorem write_rfid_waits:
  assumes "m < 16 * length (mbs s)"
    and "\<And>h a vs w. snd (mb_write b h a vs w)"
    and "ws 0 = fst (mb_write b (mbs s ! (m div 16)) (0x4430 + 3 * (m mod 16)) (rfid_write_regs i) w)"
    and "\<And>j. j \<le> k \<Longrightarrow> mb_read b (mbs s ! (m div 16)) (0x4000 + 3 * (m mod 16)) 3 (ws j)
           = (ws (Suc j), Some (rs j))"
    and "\<And>j. j \<le> k \<Longrightarrow> has_bits (rs j ! 0) SPS_RFID_WRITE_DONE \<longleftrightarrow> j = k"
  shows "write_rfid fuel b s m i w =
    (if fuel > k then
       Some (ok (fst (mb_write b (mbs s ! (m div 16)) (0x4430 + 3 * (m mod 16))
         [SPS_RFID_RESET_WRITE, 0, 0] (ws (Suc k)))))
     else None)"
proof -
  let ?h = "mbs s ! (m div 16)"
  let ?a = "0x4000 + 3 * (m mod 16)"
  have wait: "wait_written f b ?h ?a (ws j) = (if f > k - j then Some (ok (ws (Suc k))) else None)"
    if "j \<le> k" for f j
    using that
  proof (induction f arbitrary: j)
    case (Suc f)
    then show ?case
      using assms(4,5) [OF Suc.prems] Suc.IH [of "Suc j"]
      by (cases "j = k") (auto simp: SPS_IN_REG_PER_RFID_def)
  qed simp
  have w: "mb_write b h a vs x = (fst (mb_write b h a vs x), True)" for h a vs x
    using assms(2) [of h a vs x] by (cases "mb_write b h a vs x") auto
  have o: "SPS_OUT_REG_START_RFID + m mod 16 * SPS_OUT_REG_PER_RFID = 0x4430 + 3 * (m mod 16)"
    "SPS_IN_REG_START_RFID + m mod 16 * SPS_IN_REG_PER_RFID = ?a"
    by (simp_all add: sps_consts)
  define w3 where "w3 = fst (mb_write b ?h (0x4430 + 3 * (m mod 16)) [SPS_RFID_RESET_WRITE, 0, 0]
    (ws (Suc k)))"
  have "mb_write b ?h (0x4430 + 3 * (m mod 16)) (rfid_write_regs i) w = (ws 0, True)"
    "mb_write b ?h (0x4430 + 3 * (m mod 16)) [SPS_RFID_RESET_WRITE, 0, 0] (ws (Suc k)) = (w3, True)"
    using w assms(3) by (simp_all add: w3_def)
  then show ?thesis
    unfolding write_rfid_def plc_index_ok [OF assms(1)] w3_def [symmetric]
    using wait [of 0 fuel]
    by (cases "k < fuel") (simp_all add: Let_def o ok_def)
qed

text \<open>A PLC that counts polls and is done at the third.\<close>

definition poll_bus :: "nat modbus" where
  "poll_bus =
     \<lparr>mb_open = (\<lambda>_ _ w. (w, None)), mb_connect = (\<lambda>_ w. (w, True)), mb_close = (\<lambda>_ w. w),
      mb_write = (\<lambda>h a vs w. (w, True)),
      mb_read = (\<lambda>h a n w. (Suc w, Some [if w = 2 then 0x200 else 0, 0, 0]))\<rparr>"

theorem write_rfid_waits_witness: "write_rfid 10 poll_bus demo_sps 20 77 0 = Some (ok 3)"
proof -
  have "write_rfid 10 poll_bus demo_sps 20 77 0 =
    (if 10 > (2::nat) then Some (ok (fst (mb_write poll_bus (mbs demo_sps ! (20 div 16))
       (0x4430 + 3 * (20 mod 16)) [SPS_RFID_RESET_WRITE, 0, 0] (id (Suc 2))))) else None)"
    by (rule write_rfid_waits [where rs = "\<lambda>j. [if j = 2 then 0x200 else 0, 0, 0]"])
       (auto simp: poll_bus_def has_bits_def SPS_RFID_WRITE_DONE_def)
  then show ?thesis by (simp add: poll_bus_def)
qed

end
