(* ===== verification/Machines.thy ===== *)
theory Machines imports Prelude
begin

text \<open>
  The names and numbers of the machines of the LLSF field, \<open>to_machine\<close> and
  \<open>to_string\<close> of \<open>src/libs/utils/llsf/machines.cpp\<close>, for the assignments of 2013 and
  2014. Each chain of comparisons and each \<open>switch\<close> is a table, in the code's order.
\<close>

datatype machine_assignment = ASSIGNMENT_2013 | ASSIGNMENT_2014

definition machine_names :: "machine_assignment \<Rightarrow> (string \<times> nat) list" where
  "machine_names a = (case a of
     ASSIGNMENT_2013 \<Rightarrow>
    [(''M1'', 0), (''M2'', 1), (''M3'', 2), (''M4'', 3),
     (''M5'', 4), (''M6'', 5), (''M7'', 6), (''M8'', 7),
     (''M9'', 8), (''M10'', 9), (''D1'', 10), (''D2'', 11),
     (''D3'', 12), (''TST'', 13), (''R1'', 14), (''R2'', 15)]
   | ASSIGNMENT_2014 \<Rightarrow>
    [(''M1'', 0), (''M2'', 1), (''M3'', 2), (''M4'', 3),
     (''M5'', 4), (''M6'', 5), (''M7'', 6), (''M8'', 7),
     (''M9'', 8), (''M10'', 9), (''M11'', 10), (''M12'', 11),
     (''D1'', 12), (''D2'', 13), (''D3'', 14), (''R1'', 15),
     (''M13'', 16), (''M14'', 17), (''M15'', 18), (''M16'', 19),
     (''M17'', 20), (''M18'', 21), (''M19'', 22), (''M20'', 23),
     (''M21'', 24), (''M22'', 25), (''M23'', 26), (''M24'', 27),
     (''D4'', 28), (''D5'', 29), (''D6'', 30), (''R2'', 31)])"

definition to_machine :: "string \<Rightarrow> machine_assignment \<Rightarrow> nat result" where
  "to_machine machine_name a =
     (case map_of (machine_names a) machine_name of
        Some n \<Rightarrow> Inr n
      | None \<Rightarrow> Inl (FawkesException (''Unknown machine type '' @ machine_name)))"

definition machine_numbers :: "machine_assignment \<Rightarrow> (nat \<times> string) list" where
  "machine_numbers a = (case a of
     ASSIGNMENT_2013 \<Rightarrow>
    [(0, ''M1''), (1, ''M2''), (2, ''M3''), (3, ''M4''),
     (4, ''M5''), (5, ''M6''), (6, ''M7''), (7, ''M8''),
     (8, ''M9''), (9, ''M10''), (10, ''D1''), (11, ''D2''),
     (12, ''D3''), (13, ''TST''), (14, ''R1''), (15, ''R2'')]
   | ASSIGNMENT_2014 \<Rightarrow>
    [(0, ''M1''), (1, ''M2''), (2, ''M3''), (3, ''M4''),
     (4, ''M5''), (5, ''M6''), (6, ''M7''), (7, ''M8''),
     (8, ''M9''), (9, ''M10''), (10, ''M11''), (11, ''M12''),
     (12, ''D1''), (13, ''D2''), (14, ''D3''), (15, ''R1''),
     (16, ''M13''), (17, ''M14''), (18, ''M15''), (19, ''M16''),
     (20, ''M17''), (21, ''M18''), (22, ''M19''), (23, ''M20''),
     (24, ''M21''), (25, ''M22''), (26, ''M23''), (27, ''M24''),
     (28, ''D4''), (29, ''D5''), (30, ''D6''), (31, ''R2'')])"

definition machine_to_string :: "nat \<Rightarrow> machine_assignment \<Rightarrow> string result" where
  "machine_to_string machine a =
     (case map_of (machine_numbers a) machine of
        Some s \<Rightarrow> Inr s
      | None \<Rightarrow> Inl (FawkesException ''Unknown machine number''))"

text \<open>Each table is the other one turned around, and no entry hides another.\<close>

lemma numbers_names: "machine_numbers a = map (\<lambda>(s, n). (n, s)) (machine_names a)"
  by (cases a) (simp_all add: machine_numbers_def machine_names_def)

lemma names_distinct: "distinct (map fst (machine_names a))"
  by (cases a) (simp_all add: machine_names_def)

lemma numbers_distinct: "distinct (map fst (machine_numbers a))"
  by (cases a) (simp_all add: machine_numbers_def)

text \<open>
  The two conversions are inverse to each other, for both assignments: a name has
  the number \<open>n\<close> exactly when \<open>n\<close> has that name; every other name and every other
  number is refused.
\<close>

theorem machine_roundtrip: "to_machine s a = Inr n \<longleftrightarrow> machine_to_string n a = Inr s"
proof -
  have "map_of (machine_names a) s = Some n \<longleftrightarrow> (s, n) \<in> set (machine_names a)"
    using names_distinct [of a] by simp
  also have "\<dots> \<longleftrightarrow> (n, s) \<in> set (machine_numbers a)"
    by (auto simp: numbers_names)
  also have "\<dots> \<longleftrightarrow> map_of (machine_numbers a) n = Some s"
    using numbers_distinct [of a] by simp
  finally show ?thesis
    by (auto simp: to_machine_def machine_to_string_def split: option.splits)
qed

text \<open>The numbers in use are an initial segment: sixteen machines in 2013, 32 in 2014.\<close>

definition machine_count :: "machine_assignment \<Rightarrow> nat" where
  "machine_count a = (case a of ASSIGNMENT_2013 \<Rightarrow> 16 | ASSIGNMENT_2014 \<Rightarrow> 32)"

lemma machine_numbers_range: "fst ` set (machine_numbers a) = {..<machine_count a}"
proof -
  have "map fst (machine_numbers a) = [0..<machine_count a]"
    by (cases a) (simp_all add: machine_numbers_def machine_count_def upt_rec)
  then show ?thesis by (metis atLeast0LessThan list.set_map set_upt)
qed

lemma machine_to_string_iff: "is_ok (machine_to_string n a) \<longleftrightarrow> n < machine_count a"
proof -
  have "is_ok (machine_to_string n a) \<longleftrightarrow> map_of (machine_numbers a) n \<noteq> None"
    by (auto simp: machine_to_string_def split: option.splits)
  also have "\<dots> \<longleftrightarrow> n \<in> fst ` set (machine_numbers a)"
    by (simp add: map_of_eq_None_iff)
  finally show ?thesis by (simp add: machine_numbers_range)
qed

end
