(* ===== verification/Arg_Parser.thy ===== *)
theory Arg_Parser imports Strings_Util
begin

text \<open>
  Command lines, \<open>ArgumentParser\<close> of \<open>src/libs/utils/system/argparser.cpp\<close>. The
  calls of \<open>getopt\<close> and \<open>getopt_long\<close> are a parameter: what they return, one after
  the other, and where the items start. \<open>strtod\<close> is a parameter too. \<open>long int\<close> has
  64 bits.
\<close>

section \<open>State\<close>

text \<open>A long option by its name; a value pointer is \<open>None\<close> when it is \<open>NULL\<close>.\<close>

record arg_parser =
  opts :: "(string \<times> string option) list"
  items :: "string list"
  program_name :: string
  args :: "string list"
  opt_string :: string
  long_opts :: "string list"

text \<open>What one call of \<open>getopt\<close> returns: the character, \<open>optarg\<close> and \<open>opt_ind\<close>.\<close>

record getopt_event =
  opt_c :: char
  optarg :: "string option"
  opt_ind :: nat

record getopt =
  events :: "getopt_event list"
  optind :: nat

definition basename :: "string \<Rightarrow> string" where
  "basename p = rev (takeWhile (\<lambda>c. c \<noteq> slash) (rev p))"

fun short_loop ::
  "getopt_event list \<Rightarrow> (string \<times> string option) list \<Rightarrow> (string \<times> string option) list result" where
  "short_loop [] os = Inr os"
| "short_loop (e # es) os =
     (if opt_c e = CHR ''?'' then Inl UnknownArgumentException
      else if opt_c e = CHR '':'' then Inl MissingArgumentException
      else short_loop es (smap_ins [opt_c e] (optarg e) os))"

fun long_loop ::
  "string list \<Rightarrow> getopt_event list \<Rightarrow> (string \<times> string option) list
     \<Rightarrow> (string \<times> string option) list result" where
  "long_loop longs [] os = Inr os"
| "long_loop longs (e # es) os =
     (if opt_c e = CHR ''?'' then Inl UnknownArgumentException
      else if opt_c e = CHR 0x00 then
        (if opt_ind e < length longs
         then long_loop longs es (smap_ins (longs ! opt_ind e) (optarg e) os)
         else Inl (UndefinedBehaviour ''getopt_long: index out of range''))
      else long_loop longs es (smap_ins [opt_c e] (optarg e) os))"

text \<open>\<open>long_options\<close> is \<open>None\<close> for \<open>NULL\<close>; its terminating entry is left out.\<close>

definition parse_args ::
  "(string list \<Rightarrow> string \<Rightarrow> string list option \<Rightarrow> getopt) \<Rightarrow> string list \<Rightarrow> string \<Rightarrow>
     string list option \<Rightarrow> arg_parser result" where
  "parse_args gopt argv optstr long_options =
     (let g = gopt argv optstr long_options in
      case argv of
        [] \<Rightarrow> Inl (UndefinedBehaviour ''argv[0]'')
      | prog # _ \<Rightarrow>
          (case (case long_options of None \<Rightarrow> short_loop (events g) []
                 | Some longs \<Rightarrow> long_loop longs (events g) []) of
             Inl e \<Rightarrow> Inl e
           | Inr os \<Rightarrow>
               Inr \<lparr>opts = os, items = drop (optind g) argv, program_name = basename prog,
                    args = argv, opt_string = optstr,
                    long_opts = (case long_options of None \<Rightarrow> [] | Some l \<Rightarrow> l)\<rparr>))"

section \<open>Queries\<close>

definition has_arg :: "arg_parser \<Rightarrow> string \<Rightarrow> bool" where
  "has_arg p argn \<longleftrightarrow> map_of (opts p) argn \<noteq> None"

text \<open>The guard of all accessors: the option was given and has a value.\<close>

definition value_of :: "arg_parser \<Rightarrow> string \<Rightarrow> string option" where
  "value_of p argn = (case map_of (opts p) argn of None \<Rightarrow> None | Some v \<Rightarrow> v)"

definition arg :: "arg_parser \<Rightarrow> string \<Rightarrow> string option" where
  "arg p argn = value_of p argn"

text \<open>The variant with an output argument: what it holds, and the result.\<close>

definition arg_copy :: "arg_parser \<Rightarrow> string \<Rightarrow> string option \<Rightarrow> string option \<times> bool" where
  "arg_copy p argn value =
     (case value_of p argn of Some v \<Rightarrow> (Some v, True) | None \<Rightarrow> (value, False))"

definition set_port :: "string \<Rightarrow> 'h \<Rightarrow> nat \<Rightarrow> ('h \<times> nat) \<times> bool result" where
  "set_port text host port =
     (case to_int text of
        None \<Rightarrow> ((host, port), Inl (UndefinedBehaviour ''atoi''))
      | Some port_num \<Rightarrow>
          if port_num < 0 \<or> port_num > 0xFFFF
          then ((host, port), Inl (OutOfBoundsException ''Invalid port'' port_num 0 0xFFFF))
          else ((host, nat port_num), Inr True))"

text \<open>
  The C variant: the host up to the first colon after leading colons, as \<open>strtok_r\<close>
  splits; the output arguments and the result. The rest may be missing, and \<open>atoi\<close>
  is then called with a null pointer.
\<close>

definition parse_hostport_c ::
  "arg_parser \<Rightarrow> string \<Rightarrow> string option \<Rightarrow> nat \<Rightarrow> (string option \<times> nat) \<times> bool result" where
  "parse_hostport_c p argn host port =
     (case value_of p argn of
        None \<Rightarrow> ((host, port), Inr False)
      | Some v \<Rightarrow>
          if CHR '':'' \<in> set v then
            (let v1 = dropWhile (\<lambda>c. c = CHR '':'') v;
                 tok = takeWhile (\<lambda>c. c \<noteq> CHR '':'') v1;
                 rest = drop 1 (dropWhile (\<lambda>c. c \<noteq> CHR '':'') v1);
                 host' = (if v1 = [] then None else Some tok)
             in if rest = [] then ((host', port), Inl (UndefinedBehaviour ''atoi of a null pointer''))
                else set_port rest host' port)
          else ((Some v, port), Inr True))"

text \<open>The C++ variant splits at the last colon.\<close>

definition parse_hostport ::
  "arg_parser \<Rightarrow> string \<Rightarrow> string \<Rightarrow> nat \<Rightarrow> (string \<times> nat) \<times> bool result" where
  "parse_hostport p argn host port =
     (case value_of p argn of
        None \<Rightarrow> ((host, port), Inr False)
      | Some v \<Rightarrow>
          (let r = rev v; after = rev (takeWhile (\<lambda>c. c \<noteq> CHR '':'') r) in
           if CHR '':'' \<notin> set v then ((v, port), Inr True)
           else (let host' = take (length v - length after - 1) v in set_port after host' port)))"

definition long_min :: int where "long_min = - 9223372036854775808"
definition long_max :: int where "long_max = 9223372036854775807"

text \<open>
  \<open>strtol\<close> in base 10: the value, held at the ends of the range, and the text from
  \<open>endptr\<close> on, which is the whole text when there is no digit.
\<close>

definition strtol :: "string \<Rightarrow> int \<times> string" where
  "strtol s =
     (let (neg, s1) = scan_sign (dropWhile is_space s);
          (ds, rest) = scan_digits 10 s1;
          v = (if neg then - int (digits_value 10 ds) else int (digits_value 10 ds))
      in if ds = [] then (0, s) else (max long_min (min long_max v), rest))"

definition text_int :: "string \<Rightarrow> int result" where
  "text_int s =
     (let (rv, rest) = strtol s in
      if rest \<noteq> [] then Inl (IllegalArgumentException ''Supplied argument is not of type int'')
      else Inr rv)"

definition text_float :: "(string \<Rightarrow> 'd \<times> string) \<Rightarrow> string \<Rightarrow> 'd result" where
  "text_float strtod s =
     (let (rv, rest) = strtod s in
      if rest \<noteq> [] then Inl (IllegalArgumentException ''Supplied argument is not of type double'')
      else Inr rv)"

definition no_value :: "string \<Rightarrow> exn" where
  "no_value argn = FawkesException (''Value for '' @ argn @ '' not available'')"

definition parse_int :: "arg_parser \<Rightarrow> string \<Rightarrow> int result" where
  "parse_int p argn =
     (case value_of p argn of Some v \<Rightarrow> text_int v | None \<Rightarrow> Inl (no_value argn))"

definition parse_float :: "(string \<Rightarrow> 'd \<times> string) \<Rightarrow> arg_parser \<Rightarrow> string \<Rightarrow> 'd result" where
  "parse_float strtod p argn =
     (case value_of p argn of Some v \<Rightarrow> text_float strtod v | None \<Rightarrow> Inl (no_value argn))"

definition parse_item_int :: "arg_parser \<Rightarrow> nat \<Rightarrow> int result" where
  "parse_item_int p i =
     (if i < length (items p) then text_int (items p ! i)
      else Inl (no_value (''item '' @ nat_digits i)))"

definition parse_item_float :: "(string \<Rightarrow> 'd \<times> string) \<Rightarrow> arg_parser \<Rightarrow> nat \<Rightarrow> 'd result" where
  "parse_item_float strtod p i =
     (if i < length (items p) then text_float strtod (items p ! i)
      else Inl (no_value (''item '' @ nat_digits i)))"

definition num_items :: "arg_parser \<Rightarrow> nat" where
  "num_items p = length (items p)"

definition argc :: "arg_parser \<Rightarrow> nat" where
  "argc p = length (args p)"

section \<open>Options\<close>

text \<open>The last occurrence of an option counts.\<close>

lemma short_loop_ok:
  "short_loop es os = Inr os' \<Longrightarrow> smap_ok os \<Longrightarrow>
   smap_ok os' \<and> map_of os' = map_of os ++ map_of (rev (map (\<lambda>e. ([opt_c e], optarg e)) es))"
proof (induction es os rule: short_loop.induct)
  case (2 e es os)
  then show ?case
    by (auto simp: smap_ins_ok map_of_smap_ins map_add_def fun_eq_iff map_of_append
        split: if_splits option.splits)
qed simp

section \<open>Host and port\<close>

lemma nat_digits_no_colon: "CHR '':'' \<notin> set (nat_digits n)"
proof (induction n rule: nat_digits.induct)
  case (1 n)
  have c: "char_of (48 + v) \<noteq> CHR '':''" if "v < (10::nat)" for v
  proof -
    have "code_of (char_of (48 + v)) \<noteq> code_of (CHR '':'')" using that by (simp add: code_of_def)
    then show ?thesis by metis
  qed
  show ?case
    using c [of n] c [of "n mod 10"] 1 by (subst nat_digits.simps) (auto simp: eq_commute)
qed

lemma to_int_nat_digits: "n \<le> 0xFFFF \<Longrightarrow> to_int (nat_digits n) = Some (int n)"
  by (simp add: to_int_def ato_nat_digits int_min_def int_max_def)

lemma nat_digits_nonempty: "nat_digits n \<noteq> []"
  using nat_digits_Cons [of n] by auto

text \<open>
  An option \<open>host:port\<close>, with a host that is not empty and has no colon and a
  decimal port up to 65535, is taken apart by both parsers into that host and port.
\<close>

theorem hostport_parsed:
  assumes "value_of p argn = Some (h @ CHR '':'' # nat_digits n)"
    and "h \<noteq> []" and "CHR '':'' \<notin> set h" and "n \<le> 0xFFFF"
  shows "parse_hostport p argn h0 n0 = ((h, n), Inr True) \<and>
    parse_hostport_c p argn c0 n0 = ((Some h, n), Inr True)"
proof -
  have d: "CHR '':'' \<notin> set (nat_digits n)" by (rule nat_digits_no_colon)
  have "takeWhile (\<lambda>c. c \<noteq> CHR '':'') (rev (h @ CHR '':'' # nat_digits n)) = rev (nat_digits n)"
    using d by (subst rev_append) (auto simp: takeWhile_append2 takeWhile_append)
  then have "parse_hostport p argn h0 n0 = ((h, n), Inr True)"
    using assms by (simp add: parse_hostport_def set_port_def to_int_nat_digits)
  moreover have "dropWhile (\<lambda>c. c = CHR '':'') (h @ CHR '':'' # nat_digits n)
      = h @ CHR '':'' # nat_digits n"
    using assms(2,3) by (cases h) auto
  moreover have "takeWhile (\<lambda>c. c \<noteq> CHR '':'') (h @ CHR '':'' # nat_digits n) = h"
    "dropWhile (\<lambda>c. c \<noteq> CHR '':'') (h @ CHR '':'' # nat_digits n) = CHR '':'' # nat_digits n"
    using assms(3) by (auto simp: takeWhile_append dropWhile_append)
  ultimately show ?thesis
    using assms(1,2,4) nat_digits_nonempty [of n]
    by (simp add: parse_hostport_c_def set_port_def to_int_nat_digits Let_def)
qed

definition demo_args :: arg_parser where
  "demo_args = \<lparr>opts = [(''R'', Some ''localhost:4444'')], items = [], program_name = ''llsf'',
     args = [''llsf''], opt_string = ''R:'', long_opts = []\<rparr>"

theorem hostport_parsed_witness:
  "parse_hostport demo_args ''R'' '''' 0 = ((''localhost'', 4444), Inr True)"
proof -
  have "nat_digits 4444 = ''4444''" by code_simp
  then have "value_of demo_args ''R'' = Some (''localhost'' @ CHR '':'' # nat_digits 4444)"
    by (simp add: value_of_def demo_args_def)
  then show ?thesis
    by (rule hostport_parsed [THEN conjunct1]) simp_all
qed

text \<open>
  The C parser calls \<open>atoi\<close> with a null pointer when nothing follows the colon;
  the C++ parser reads the same text as port 0.
\<close>

theorem hostport_empty_port:
  assumes "value_of p argn = Some (h @ [CHR '':''])" and "h \<noteq> []" and "CHR '':'' \<notin> set h"
  shows "parse_hostport_c p argn c0 n0
      = ((Some h, n0), Inl (UndefinedBehaviour ''atoi of a null pointer'')) \<and>
    parse_hostport p argn h0 n0 = ((h, 0), Inr True)"
proof -
  have "dropWhile (\<lambda>c. c = CHR '':'') (h @ [CHR '':'']) = h @ [CHR '':'']"
    using assms(2,3) by (cases h) auto
  moreover have "takeWhile (\<lambda>c. c \<noteq> CHR '':'') (h @ [CHR '':'']) = h"
    "dropWhile (\<lambda>c. c \<noteq> CHR '':'') (h @ [CHR '':'']) = [CHR '':'']"
    using assms(3) by (auto simp: takeWhile_append dropWhile_append)
  moreover have "to_int [] = Some 0" by code_simp
  ultimately show ?thesis
    using assms(1,2) by (simp add: parse_hostport_c_def parse_hostport_def set_port_def Let_def)
qed

theorem hostport_empty_port_witness:
  "parse_hostport_c (demo_args\<lparr>opts := [(''R'', Some ''localhost:'')]\<rparr>) ''R'' None 0
     = ((Some ''localhost'', 0), Inl (UndefinedBehaviour ''atoi of a null pointer''))"
  by (rule hostport_empty_port [THEN conjunct1]) (simp_all add: value_of_def)

section \<open>Integers\<close>

lemma strtol_to_string:
  assumes "long_min \<le> i" "i \<le> long_max"
  shows "strtol (to_string_int i) = (i, [])"
proof -
  have d: "scan_digits 10 (nat_digits n) = (ds, r) \<Longrightarrow> r = [] \<and> ds \<noteq> [] \<and> digits_value 10 ds = n"
    for n ds r
    using scan_nat_digits [of n] scan_digits_nonempty [of n] by simp
  show ?thesis
  proof (cases "i < 0")
    case True
    then show ?thesis using assms
      by (auto simp: strtol_def to_string_int_def not_space_minus dest!: d split: prod.split)
  next
    case False
    then show ?thesis using assms
      by (auto simp: strtol_def to_string_int_def drop_space_nat_digits scan_sign_nat_digits
          dest!: d split: prod.split)
  qed
qed

text \<open>
  An integer option round-trips: the decimal text of any \<open>long\<close> is parsed to that
  number.
\<close>

theorem parse_int_roundtrip:
  assumes "value_of p argn = Some (to_string_int i)" and "long_min \<le> i" and "i \<le> long_max"
  shows "parse_int p argn = Inr i"
  using assms by (simp add: parse_int_def text_int_def strtol_to_string)

theorem parse_int_roundtrip_witness:
  "parse_int (demo_args\<lparr>opts := [(''n'', Some (to_string_int (- 12)))]\<rparr>) ''n'' = Inr (- 12)"
  by (rule parse_int_roundtrip) (simp_all add: value_of_def long_min_def long_max_def)

text \<open>The empty text is taken for 0: there is no digit, and nothing is left over.\<close>

lemma parse_int_empty: "value_of p argn = Some [] \<Longrightarrow> parse_int p argn = Inr 0"
  by (simp add: parse_int_def text_int_def strtol_def)

end
