(* ===== verification/Threads.thy ===== *)
theory Threads imports Prelude
begin

unbundle bit_operations_syntax

text \<open>
  A thread of the base system, \<open>Thread\<close> of \<open>src/libs/core/threading/thread.cpp\<close>:
  its members and operations, and the protocol of \<open>run()\<close> with \<open>wakeup()\<close> and the
  finalization calls as a step relation. Mutexes are the atomicity of the steps: what
  the code does while it holds the sleep mutex or the loop mutex is one step. The
  pthread calls are arguments (whether they succeed). A counter of pending wakeups is
  a \<open>nat\<close>: to wrap, it would need \<open>2^32\<close> wakeups that are not consumed.
\<close>

section \<open>State\<close>

datatype opmode = OPMODE_CONTINUOUS | OPMODE_WAITFORWAKEUP

record thread =
  tname :: string
  op_mode :: opmode
  prepfin_conc_loop :: bool
  coalesce_wakeups :: bool
  waiting_for_wakeup :: bool
  flags :: "32 word"
  barrier :: "nat option"
  started :: bool
  cancelled :: bool
  detached :: bool
  delete_on_exit :: bool
  prepfin_hold :: bool
  pending_wakeups :: nat
  finalize_prepared :: bool
  loop_done :: bool
  listeners :: "nat list"

definition FLAG_BAD :: "32 word" where
  "FLAG_BAD = 1"

text \<open>The constructor leaves \<open>__detached\<close> as it finds it (\<open>det\<close>); \<open>start\<close> sets it.\<close>

definition thread_new :: "bool \<Rightarrow> string \<Rightarrow> opmode \<Rightarrow> thread" where
  "thread_new det nm mode =
     \<lparr>tname = nm, op_mode = mode, prepfin_conc_loop = False, coalesce_wakeups = False,
      waiting_for_wakeup = (mode = OPMODE_WAITFORWAKEUP), flags = 0, barrier = None,
      started = False, cancelled = False, detached = det, delete_on_exit = False,
      prepfin_hold = False, pending_wakeups = 0, finalize_prepared = False, loop_done = True,
      listeners = []\<rparr>"

section \<open>Operations\<close>

text \<open>
  \<open>None\<close> when the call waits for the hold to be released. \<open>user\<close> is what
  \<open>prepare_finalize_user()\<close> returns or throws.
\<close>

definition thread_prepare_finalize ::
  "bool result \<Rightarrow> thread \<Rightarrow> (thread \<times> bool result) option" where
  "thread_prepare_finalize user t =
     (if \<not> started t then Some (t, Inl CannotFinalizeThreadException)
      else if finalize_prepared t then Some (t, Inl CannotFinalizeThreadException)
      else if prepfin_hold t then None
      else Some (t\<lparr>finalize_prepared := True\<rparr>, user))"

definition thread_cancel_finalize :: "thread \<Rightarrow> thread mutation" where
  "thread_cancel_finalize t =
     (if \<not> started t then throwing CannotFinalizeThreadException t
      else ok (t\<lparr>finalize_prepared := False\<rparr>))"

definition thread_start :: "bool \<Rightarrow> thread \<Rightarrow> thread mutation" where
  "thread_start created t =
     (if started t then throwing (FawkesException ''You cannot start the same thread twice!'') t
      else (let t1 = t\<lparr>cancelled := False, detached := False, started := True\<rparr> in
            if created then ok t1 else throwing (FawkesException ''Could not start thread'') t1))"

definition thread_join :: "thread \<Rightarrow> thread" where
  "thread_join t = (if started t then t\<lparr>started := False\<rparr> else t)"

definition thread_detach :: "thread \<Rightarrow> thread" where
  "thread_detach t = t\<lparr>detached := True\<rparr>"

definition thread_cancel :: "bool \<Rightarrow> thread \<Rightarrow> thread" where
  "thread_cancel success t =
     (if started t \<and> \<not> cancelled t \<and> success then t\<lparr>cancelled := True\<rparr> else t)"

definition set_opmode :: "opmode \<Rightarrow> thread \<Rightarrow> thread mutation" where
  "set_opmode mode t =
     (if started t then throwing (FawkesException ''Cannot set thread opmode while running'') t
      else ok (t\<lparr>op_mode := mode\<rparr>))"

definition set_prepfin_conc_loop :: "bool \<Rightarrow> thread \<Rightarrow> thread" where
  "set_prepfin_conc_loop concurrent t = t\<lparr>prepfin_conc_loop := concurrent\<rparr>"

definition set_coalesce_wakeups :: "bool \<Rightarrow> thread \<Rightarrow> thread" where
  "set_coalesce_wakeups coalesce t = t\<lparr>coalesce_wakeups := coalesce\<rparr>"

definition thread_set_name :: "string \<Rightarrow> thread \<Rightarrow> thread" where
  "thread_set_name nm t = t\<lparr>tname := nm\<rparr>"

definition thread_set_prepfin_hold :: "bool \<Rightarrow> thread \<Rightarrow> thread mutation" where
  "thread_set_prepfin_hold hold t =
     (if hold \<and> finalize_prepared t then
        throwing (FawkesException (''Thread('' @ tname t @
          '')::set_prepfin_hold: prepare_finalize() has been called already()'')) t
      else ok (t\<lparr>prepfin_hold := hold\<rparr>))"

definition thread_waiting :: "thread \<Rightarrow> bool" where
  "thread_waiting t = (if op_mode t \<noteq> OPMODE_WAITFORWAKEUP then False else waiting_for_wakeup t)"

definition wakeup :: "thread \<Rightarrow> thread mutation" where
  "wakeup t =
     (if op_mode t = OPMODE_WAITFORWAKEUP then
        (if barrier t \<noteq> None then
           throwing (FawkesException (''Thread('' @ tname t @
             ''): wakeup() cannot be called if loop is running with barrier already'')) t
         else ok (t\<lparr>pending_wakeups := (if coalesce_wakeups t then 1 else pending_wakeups t + 1),
                     waiting_for_wakeup := False\<rparr>))
      else ok t)"

text \<open>\<open>None\<close> for a null barrier.\<close>

definition wakeup_barrier :: "nat option \<Rightarrow> thread \<Rightarrow> thread mutation" where
  "wakeup_barrier b t =
     (if op_mode t \<noteq> OPMODE_WAITFORWAKEUP then ok t
      else if b = None then
        throwing (NullPointerException (''Thread('' @ tname t @
          '')::wakeup(): barrier must not be NULL'')) t
      else if \<not> waiting_for_wakeup t \<and> barrier t \<noteq> None then
        throwing (FawkesException (''Thread '' @ tname t @
          '' already running with barrier, cannot wakeup'')) t
      else ok (t\<lparr>pending_wakeups := pending_wakeups t + 1, barrier := b,
                  waiting_for_wakeup := False\<rparr>))"

definition wakeup_pending :: "thread \<Rightarrow> bool result" where
  "wakeup_pending t =
     (if op_mode t = OPMODE_CONTINUOUS
      then Inl (UndefinedBehaviour ''wakeup_pending: the sleep mutex is NULL'')
      else Inr (pending_wakeups t > 0))"

definition set_delete_on_exit :: "bool \<Rightarrow> thread \<Rightarrow> thread" where
  "set_delete_on_exit del t = t\<lparr>delete_on_exit := del\<rparr>"

definition set_flag :: "32 word \<Rightarrow> thread \<Rightarrow> thread" where
  "set_flag flag t = t\<lparr>flags := flags t OR flag\<rparr>"

definition unset_flag :: "32 word \<Rightarrow> thread \<Rightarrow> thread" where
  "unset_flag flag t = t\<lparr>flags := flags t AND (0xFFFFFFFF XOR flag)\<rparr>"

definition set_flags :: "32 word \<Rightarrow> thread \<Rightarrow> thread" where
  "set_flags fl t = t\<lparr>flags := fl\<rparr>"

definition flagged_bad :: "thread \<Rightarrow> bool" where
  "flagged_bad t \<longleftrightarrow> flags t AND FLAG_BAD \<noteq> 0"

definition add_notification_listener :: "nat \<Rightarrow> thread \<Rightarrow> thread" where
  "add_notification_listener l t = t\<lparr>listeners := listeners t @ [l]\<rparr>"

definition remove_notification_listener :: "nat \<Rightarrow> thread \<Rightarrow> thread" where
  "remove_notification_listener l t = t\<lparr>listeners := removeAll l (listeners t)\<rparr>"

text \<open>A listener that returns false is dropped; \<open>keep\<close> is what the listeners return.\<close>

definition notify_of_startup :: "(nat \<Rightarrow> bool) \<Rightarrow> thread \<Rightarrow> thread" where
  "notify_of_startup keep t = t\<lparr>listeners := filter keep (listeners t)\<rparr>"

definition notify_of_failed_init :: "(nat \<Rightarrow> bool) \<Rightarrow> thread \<Rightarrow> thread" where
  "notify_of_failed_init keep t = t\<lparr>listeners := filter keep (listeners t)\<rparr>"

lemma flag_set: "flagged_bad (set_flag FLAG_BAD t)"
proof -
  have "bit ((flags t OR FLAG_BAD) AND FLAG_BAD) 0" by (simp add: FLAG_BAD_def bit_simps)
  then show ?thesis by (auto simp: flagged_bad_def set_flag_def simp del: and_one_eq)
qed

lemma flag_unset: "\<not> flagged_bad (unset_flag FLAG_BAD t)"
proof -
  have "\<not> bit ((flags t AND (0xFFFFFFFF XOR FLAG_BAD)) AND FLAG_BAD) n" for n
    by (cases n) (simp_all add: FLAG_BAD_def bit_simps)
  then have "(flags t AND (0xFFFFFFFF XOR FLAG_BAD)) AND FLAG_BAD = 0"
    by (intro bit_word_eqI) simp
  then show ?thesis by (simp add: flagged_bad_def unset_flag_def)
qed

lemma thread_flag_fields [simp]:
  "tname (set_flag f t) = tname t" "tname (unset_flag f t) = tname t"
  "started (set_flag f t) = started t" "started (unset_flag f t) = started t"
  by (simp_all add: set_flag_def unset_flag_def)

section \<open>The main loop\<close>

text \<open>
  Where \<open>run()\<close> is: before the initial wakeup; at the top of the loop; in \<open>loop()\<close>;
  after it; at a barrier; asleep.
\<close>

datatype pc = P_INIT | P_TOP | P_LOOP | P_AFTER | P_BARRIER nat | P_SLEEP

text \<open>
  A running thread, with three counters that the code does not have: the wakeups that
  were accepted, the calls of \<open>loop()\<close>, and the rounds that skipped it because
  finalization was prepared.
\<close>

record running =
  thr :: thread
  at :: pc
  woken :: nat
  loops :: nat
  skipped :: nat

definition run_entry :: "thread \<Rightarrow> running" where
  "run_entry t = \<lparr>thr = t, at = P_INIT, woken = 0, loops = 0, skipped = 0\<rparr>"

inductive run_step :: "running \<Rightarrow> running \<Rightarrow> bool" where
  init_continuous: "at r = P_INIT \<Longrightarrow> op_mode (thr r) = OPMODE_CONTINUOUS \<Longrightarrow>
     run_step r (r\<lparr>at := P_TOP\<rparr>)"
| wait: "at r \<in> {P_INIT, P_SLEEP} \<Longrightarrow> op_mode (thr r) = OPMODE_WAITFORWAKEUP \<Longrightarrow>
     pending_wakeups (thr r) = 0 \<Longrightarrow>
     run_step r (r\<lparr>thr := (thr r)\<lparr>waiting_for_wakeup := True\<rparr>\<rparr>)"
| consume: "at r \<in> {P_INIT, P_SLEEP} \<Longrightarrow> op_mode (thr r) = OPMODE_WAITFORWAKEUP \<Longrightarrow>
     pending_wakeups (thr r) \<noteq> 0 \<Longrightarrow>
     run_step r (r\<lparr>at := P_TOP, thr := (thr r)\<lparr>pending_wakeups := pending_wakeups (thr r) - 1\<rparr>\<rparr>)"
| enter_loop: "at r = P_TOP \<Longrightarrow> \<not> finalize_prepared (thr r) \<Longrightarrow>
     run_step r (r\<lparr>at := P_LOOP, loops := loops r + 1, thr := (thr r)\<lparr>loop_done := False\<rparr>\<rparr>)"
| skip_loop: "at r = P_TOP \<Longrightarrow> finalize_prepared (thr r) \<Longrightarrow>
     run_step r (r\<lparr>at := P_AFTER, skipped := skipped r + 1, thr := (thr r)\<lparr>loop_done := True\<rparr>\<rparr>)"
| leave_loop: "at r = P_LOOP \<Longrightarrow>
     run_step r (r\<lparr>at := P_AFTER, thr := (thr r)\<lparr>loop_done := True\<rparr>\<rparr>)"
| again: "at r = P_AFTER \<Longrightarrow> op_mode (thr r) = OPMODE_CONTINUOUS \<Longrightarrow>
     run_step r (r\<lparr>at := P_TOP\<rparr>)"
| to_barrier: "at r = P_AFTER \<Longrightarrow> op_mode (thr r) = OPMODE_WAITFORWAKEUP \<Longrightarrow>
     barrier (thr r) = Some b \<Longrightarrow>
     run_step r (r\<lparr>at := P_BARRIER b, thr := (thr r)\<lparr>barrier := None\<rparr>\<rparr>)"
| to_sleep: "at r = P_AFTER \<Longrightarrow> op_mode (thr r) = OPMODE_WAITFORWAKEUP \<Longrightarrow>
     barrier (thr r) = None \<Longrightarrow> run_step r (r\<lparr>at := P_SLEEP\<rparr>)"
| pass_barrier: "at r = P_BARRIER b \<Longrightarrow> run_step r (r\<lparr>at := P_SLEEP\<rparr>)"

text \<open>
  What other threads do meanwhile. The operation mode cannot change, and preparing
  finalization waits for the end of the loop unless it may run concurrently.
\<close>

inductive other_step :: "running \<Rightarrow> running \<Rightarrow> bool" where
  woken_up: "op_mode (thr r) = OPMODE_WAITFORWAKEUP \<Longrightarrow> \<not> coalesce_wakeups (thr r) \<Longrightarrow>
     wakeup (thr r) = ok t \<Longrightarrow> other_step r (r\<lparr>thr := t, woken := woken r + 1\<rparr>)"
| woken_with_barrier: "op_mode (thr r) = OPMODE_WAITFORWAKEUP \<Longrightarrow>
     wakeup_barrier b (thr r) = ok t \<Longrightarrow> other_step r (r\<lparr>thr := t, woken := woken r + 1\<rparr>)"
| wakeup_refused: "snd (wakeup (thr r)) \<noteq> None \<Longrightarrow> other_step r (r\<lparr>thr := fst (wakeup (thr r))\<rparr>)"
| prepared: "prepfin_conc_loop (thr r) \<or> at r \<noteq> P_LOOP \<Longrightarrow>
     thread_prepare_finalize user (thr r) = Some (t, res) \<Longrightarrow> other_step r (r\<lparr>thr := t\<rparr>)"
| unprepared: "thread_cancel_finalize (thr r) = (t, x) \<Longrightarrow> other_step r (r\<lparr>thr := t\<rparr>)"
| held: "thread_set_prepfin_hold h (thr r) = (t, x) \<Longrightarrow> other_step r (r\<lparr>thr := t\<rparr>)"
| flagged: "other_step r (r\<lparr>thr := set_flags fl (thr r)\<rparr>)"

text \<open>Every wakeup is on before the start: those join the count at the entry.\<close>

inductive run_reachable :: "running \<Rightarrow> bool" where
  run_start: "thread_start True (thread_new det nm mode) = ok t \<Longrightarrow> run_reachable (run_entry t)"
| run_by: "run_reachable r \<Longrightarrow> run_step r r' \<Longrightarrow> run_reachable r'"
| run_other: "run_reachable r \<Longrightarrow> other_step r r' \<Longrightarrow> run_reachable r'"

definition run_inv :: "running \<Rightarrow> bool" where
  "run_inv r \<longleftrightarrow>
     (op_mode (thr r) = OPMODE_WAITFORWAKEUP \<longrightarrow>
        woken r = pending_wakeups (thr r) + loops r + skipped r + (if at r = P_TOP then 1 else 0) \<and>
        (waiting_for_wakeup (thr r) \<longrightarrow>
           at r \<in> {P_INIT, P_SLEEP} \<and> pending_wakeups (thr r) = 0 \<and> barrier (thr r) = None) \<and>
        (barrier (thr r) \<noteq> None \<longrightarrow>
           pending_wakeups (thr r) > 0 \<or> at r \<in> {P_TOP, P_LOOP, P_AFTER}))"

lemma run_inv_step: "run_step r r' \<Longrightarrow> run_inv r \<Longrightarrow> run_inv r'"
  by (induction rule: run_step.induct) (auto simp: run_inv_def)

lemma run_inv_other: "other_step r r' \<Longrightarrow> run_inv r \<Longrightarrow> run_inv r'"
  by (induction rule: other_step.induct)
     (auto simp: run_inv_def wakeup_def wakeup_barrier_def thread_prepare_finalize_def
       thread_cancel_finalize_def thread_set_prepfin_hold_def set_flags_def ok_def throwing_def
       split: if_splits)

lemma run_reachable_inv: "run_reachable r \<Longrightarrow> run_inv r"
proof (induction rule: run_reachable.induct)
  case (run_start det nm mode t)
  then show ?case by (auto simp: run_inv_def thread_start_def thread_new_def run_entry_def)
qed (blast intro: run_inv_step run_inv_other)+

text \<open>
  C23. No wakeup is lost and none is served twice: in every reachable state of a
  waiting-mode thread without coalescing, the accepted wakeups are the pending ones,
  plus the calls of \<open>loop()\<close>, plus the rounds that skipped it because finalization
  was prepared, plus the round about to begin.
\<close>

theorem wakeups_accounted:
  assumes "run_reachable r" and "op_mode (thr r) = OPMODE_WAITFORWAKEUP"
  shows "woken r = pending_wakeups (thr r) + loops r + skipped r + (if at r = P_TOP then 1 else 0)"
  using run_reachable_inv [OF assms(1)] assms(2) by (simp add: run_inv_def)

text \<open>
  What \<open>waiting()\<close> promises to its callers: when it is true, the thread is not in
  its loop, it has passed the barrier it was woken with, and there is no wakeup left to
  serve.
\<close>

theorem waiting_means_finished:
  assumes "run_reachable r" and "thread_waiting (thr r)"
  shows "at r \<in> {P_INIT, P_SLEEP} \<and> barrier (thr r) = None \<and>
    woken r = loops r + skipped r"
proof -
  have w: "op_mode (thr r) = OPMODE_WAITFORWAKEUP" "waiting_for_wakeup (thr r)"
    using assms(2) by (auto simp: thread_waiting_def split: if_splits)
  then show ?thesis using run_reachable_inv [OF assms(1)] by (auto simp: run_inv_def)
qed

text \<open>An execution for the examples: started, woken with a barrier, and through the loop.\<close>

definition demo_thread :: thread where
  "demo_thread = (thread_new False ''worker'' OPMODE_WAITFORWAKEUP)\<lparr>started := True\<rparr>"

definition demo_run :: running where
  "demo_run = (run_entry demo_thread)
     \<lparr>thr := demo_thread\<lparr>barrier := None, waiting_for_wakeup := True\<rparr>, at := P_SLEEP,
      woken := 1, loops := 1\<rparr>"

lemma demo_reachable: "run_reachable demo_run"
proof -
  let ?t = demo_thread
  note defs = demo_thread_def thread_new_def run_entry_def ok_def
  have 0: "run_reachable (run_entry ?t)"
    by (rule run_start [of False "''worker''" OPMODE_WAITFORWAKEUP])
       (simp add: thread_start_def defs)
  have "other_step (run_entry ?t) ((run_entry ?t)\<lparr>thr := ?t\<lparr>pending_wakeups := 1,
      barrier := Some 4, waiting_for_wakeup := False\<rparr>, woken := 1\<rparr>)"
    using woken_with_barrier [of "run_entry ?t" "Some 4"] by (simp add: wakeup_barrier_def defs)
  note 1 = run_other [OF 0 this]
  have "run_step ((run_entry ?t)\<lparr>thr := ?t\<lparr>pending_wakeups := 1, barrier := Some 4,
      waiting_for_wakeup := False\<rparr>, woken := 1\<rparr>)
    ((run_entry ?t)\<lparr>thr := ?t\<lparr>barrier := Some 4, waiting_for_wakeup := False\<rparr>, at := P_TOP,
      woken := 1\<rparr>)"
    using consume [of "(run_entry ?t)\<lparr>thr := ?t\<lparr>pending_wakeups := 1, barrier := Some 4,
      waiting_for_wakeup := False\<rparr>, woken := 1\<rparr>"] by (simp add: defs)
  note 2 = run_by [OF 1 this]
  have "run_step ((run_entry ?t)\<lparr>thr := ?t\<lparr>barrier := Some 4, waiting_for_wakeup := False\<rparr>,
      at := P_TOP, woken := 1\<rparr>)
    ((run_entry ?t)\<lparr>thr := ?t\<lparr>barrier := Some 4, waiting_for_wakeup := False, loop_done := False\<rparr>,
      at := P_LOOP, woken := 1, loops := 1\<rparr>)"
    using enter_loop [of "(run_entry ?t)\<lparr>thr := ?t\<lparr>barrier := Some 4, waiting_for_wakeup := False\<rparr>,
      at := P_TOP, woken := 1\<rparr>"] by (simp add: defs)
  note 3 = run_by [OF 2 this]
  have "run_step ((run_entry ?t)\<lparr>thr := ?t\<lparr>barrier := Some 4, waiting_for_wakeup := False,
      loop_done := False\<rparr>, at := P_LOOP, woken := 1, loops := 1\<rparr>)
    ((run_entry ?t)\<lparr>thr := ?t\<lparr>barrier := Some 4, waiting_for_wakeup := False\<rparr>,
      at := P_AFTER, woken := 1, loops := 1\<rparr>)"
    using leave_loop [of "(run_entry ?t)\<lparr>thr := ?t\<lparr>barrier := Some 4, waiting_for_wakeup := False,
      loop_done := False\<rparr>, at := P_LOOP, woken := 1, loops := 1\<rparr>"] by (simp add: defs)
  note 4 = run_by [OF 3 this]
  have "run_step ((run_entry ?t)\<lparr>thr := ?t\<lparr>barrier := Some 4, waiting_for_wakeup := False\<rparr>,
      at := P_AFTER, woken := 1, loops := 1\<rparr>)
    ((run_entry ?t)\<lparr>thr := ?t\<lparr>barrier := None, waiting_for_wakeup := False\<rparr>,
      at := P_BARRIER 4, woken := 1, loops := 1\<rparr>)"
    using to_barrier [of "(run_entry ?t)\<lparr>thr := ?t\<lparr>barrier := Some 4, waiting_for_wakeup := False\<rparr>,
      at := P_AFTER, woken := 1, loops := 1\<rparr>" 4] by (simp add: defs)
  note 5 = run_by [OF 4 this]
  have "run_step ((run_entry ?t)\<lparr>thr := ?t\<lparr>barrier := None, waiting_for_wakeup := False\<rparr>,
      at := P_BARRIER 4, woken := 1, loops := 1\<rparr>)
    ((run_entry ?t)\<lparr>thr := ?t\<lparr>barrier := None, waiting_for_wakeup := False\<rparr>,
      at := P_SLEEP, woken := 1, loops := 1\<rparr>)"
    using pass_barrier [of "(run_entry ?t)\<lparr>thr := ?t\<lparr>barrier := None, waiting_for_wakeup := False\<rparr>,
      at := P_BARRIER 4, woken := 1, loops := 1\<rparr>" 4] by (simp add: defs)
  note 6 = run_by [OF 5 this]
  have "run_step ((run_entry ?t)\<lparr>thr := ?t\<lparr>barrier := None, waiting_for_wakeup := False\<rparr>,
      at := P_SLEEP, woken := 1, loops := 1\<rparr>) demo_run"
    using wait [of "(run_entry ?t)\<lparr>thr := ?t\<lparr>barrier := None, waiting_for_wakeup := False\<rparr>,
      at := P_SLEEP, woken := 1, loops := 1\<rparr>"] by (simp add: defs demo_run_def)
  then show ?thesis by (rule run_by [OF 6])
qed

theorem wakeups_accounted_witness: "woken demo_run = 1 \<and> loops demo_run + skipped demo_run = 1"
  using wakeups_accounted [OF demo_reachable]
  by (simp add: demo_run_def demo_thread_def thread_new_def run_entry_def)

theorem waiting_means_finished_witness: "barrier (thr demo_run) = None \<and> at demo_run = P_SLEEP"
  using waiting_means_finished [OF demo_reachable]
  by (simp add: demo_run_def demo_thread_def thread_new_def run_entry_def thread_waiting_def)

end
