(* ===== verification/Thread_List.thy ===== *)
theory Thread_List imports Threads Strings_Util
begin

text \<open>
  Lists of threads, \<open>ThreadList\<close> of \<open>src/libs/core/threading/thread_list.cpp\<close>:
  the sealing guards, the wakeup barrier and the threads that miss it (the life cycle
  operations are in \<open>Thread_Life\<close>). A thread is a number, its state is in the world; what the
  virtual functions of threads, initializer and finalizer do is a parameter
  (\<open>hooks\<close>), and every such call is logged.
\<close>

section \<open>World\<close>

datatype tevent =
    Initializer nat | Init nat | NotifyFailed nat
  | FinPrepare nat | PrepareUser nat | Finalizer nat | Finalize nat
  | Start nat | Cancel nat | Join nat | CancelFinalize nat

record tworld =
  thread_of :: "nat \<Rightarrow> thread"
  log :: "tevent list"

text \<open>
  The result of a call of thread \<open>i\<close> when the log is as given: an exception, if any,
  and for the two \<open>prepare_finalize\<close> functions whether they agree.
\<close>

record hooks =
  h_initializer :: "nat \<Rightarrow> tevent list \<Rightarrow> exn option"
  h_init :: "nat \<Rightarrow> tevent list \<Rightarrow> exn option"
  h_fin_prepare :: "nat \<Rightarrow> tevent list \<Rightarrow> bool result"
  h_prepare_user :: "nat \<Rightarrow> tevent list \<Rightarrow> bool result"
  h_finalizer :: "nat \<Rightarrow> tevent list \<Rightarrow> exn option"
  h_finalize :: "nat \<Rightarrow> tevent list \<Rightarrow> exn option"
  h_create :: "nat \<Rightarrow> tevent list \<Rightarrow> bool"
  h_cancel :: "nat \<Rightarrow> tevent list \<Rightarrow> bool"
  h_keep :: "nat \<Rightarrow> tevent list \<Rightarrow> bool"

definition logged :: "tevent \<Rightarrow> tworld \<Rightarrow> tworld" where
  "logged ev w = w\<lparr>log := log w @ [ev]\<rparr>"

definition upd_thread :: "nat \<Rightarrow> thread \<Rightarrow> tworld \<Rightarrow> tworld" where
  "upd_thread i t w = w\<lparr>thread_of := (thread_of w)(i := t)\<rparr>"

definition on_thread :: "nat \<Rightarrow> (thread \<Rightarrow> thread mutation) \<Rightarrow> tworld \<Rightarrow> tworld mutation" where
  "on_thread i f w = (let (t, x) = f (thread_of w i) in (upd_thread i t w, x))"

text \<open>A barrier is its address and its count; addresses are handed out by the list.\<close>

type_synonym tbarrier = "nat \<times> nat"

record tlist =
  tl_threads :: "nat list"
  tl_name :: string
  sealed :: bool
  wnw_barrier :: "tbarrier option"
  wnw_bad_barriers :: "(tbarrier \<times> nat list) list"
  tl_serial :: nat

section \<open>The list\<close>

definition good_count :: "tworld \<Rightarrow> nat list \<Rightarrow> nat" where
  "good_count w is = length (filter (\<lambda>i. \<not> flagged_bad (thread_of w i)) is)"

definition update_barrier :: "tworld \<Rightarrow> tlist \<Rightarrow> tlist" where
  "update_barrier w ts = ts
     \<lparr>wnw_barrier := Some (tl_serial ts, 1 + good_count w (tl_threads ts)),
      tl_serial := tl_serial ts + 1\<rparr>"

definition tlist_new :: "tworld \<Rightarrow> bool \<Rightarrow> string \<Rightarrow> tlist" where
  "tlist_new w maintain nm =
     (let ts = \<lparr>tl_threads = [], tl_name = nm, sealed = False, wnw_barrier = None,
                wnw_bad_barriers = [], tl_serial = 0\<rparr>
      in if maintain then update_barrier w ts else ts)"

text \<open>Copying keeps the seal and gives the copy a barrier of its own.\<close>

definition tlist_copy :: "tworld \<Rightarrow> tlist \<Rightarrow> tlist" where
  "tlist_copy w ts =
     (let c = \<lparr>tl_threads = tl_threads ts, tl_name = tl_name ts, sealed = sealed ts,
               wnw_barrier = None, wnw_bad_barriers = [], tl_serial = tl_serial ts\<rparr>
      in if wnw_barrier ts \<noteq> None then update_barrier w c else c)"

text \<open>Assignment keeps the bad barriers of the list that is assigned to.\<close>

definition tlist_assign :: "tworld \<Rightarrow> tlist \<Rightarrow> tlist \<Rightarrow> tlist" where
  "tlist_assign w ts src =
     (let c = ts\<lparr>tl_threads := tl_threads src, tl_name := tl_name src, sealed := sealed src,
                 wnw_barrier := None\<rparr>
      in if wnw_barrier src \<noteq> None then update_barrier w c else c)"

text \<open>Every change of the members: the guard, the change, the barrier if there is one.\<close>

definition change_list :: "string \<Rightarrow> (nat list \<Rightarrow> nat list) \<Rightarrow> tworld \<Rightarrow> tlist \<Rightarrow> tlist mutation" where
  "change_list what f w ts =
     (if sealed ts then throwing (ThreadListSealedException what) ts
      else (let ts1 = ts\<lparr>tl_threads := f (tl_threads ts)\<rparr>
            in ok (if wnw_barrier ts1 \<noteq> None then update_barrier w ts1 else ts1)))"

definition push_front :: "nat \<Rightarrow> tworld \<Rightarrow> tlist \<Rightarrow> tlist mutation" where
  "push_front i w ts = change_list ''push_front'' (\<lambda>is. i # is) w ts"

definition push_front_locked :: "nat \<Rightarrow> tworld \<Rightarrow> tlist \<Rightarrow> tlist mutation" where
  "push_front_locked i w ts = change_list ''push_front_locked'' (\<lambda>is. i # is) w ts"

definition push_back :: "nat \<Rightarrow> tworld \<Rightarrow> tlist \<Rightarrow> tlist mutation" where
  "push_back i w ts = change_list ''push_back'' (\<lambda>is. is @ [i]) w ts"

definition push_back_locked :: "nat \<Rightarrow> tworld \<Rightarrow> tlist \<Rightarrow> tlist mutation" where
  "push_back_locked i w ts = change_list ''push_back_locked'' (\<lambda>is. is @ [i]) w ts"

definition clear :: "tworld \<Rightarrow> tlist \<Rightarrow> tlist mutation" where
  "clear w ts = change_list ''clear'' (\<lambda>_. []) w ts"

definition tl_remove :: "nat \<Rightarrow> tworld \<Rightarrow> tlist \<Rightarrow> tlist mutation" where
  "tl_remove i w ts = change_list ''remove_locked'' (removeAll i) w ts"

definition remove_locked :: "nat \<Rightarrow> tworld \<Rightarrow> tlist \<Rightarrow> tlist mutation" where
  "remove_locked i w ts = change_list ''remove_locked'' (removeAll i) w ts"

definition pop_front :: "tworld \<Rightarrow> tlist \<Rightarrow> tlist mutation" where
  "pop_front w ts =
     (if \<not> sealed ts \<and> tl_threads ts = []
      then throwing (UndefinedBehaviour ''pop_front of an empty list'') ts
      else change_list ''pop_front'' (drop 1) w ts)"

definition pop_back :: "tworld \<Rightarrow> tlist \<Rightarrow> tlist mutation" where
  "pop_back w ts =
     (if \<not> sealed ts \<and> tl_threads ts = []
      then throwing (UndefinedBehaviour ''pop_back of an empty list'') ts
      else change_list ''pop_back'' butlast w ts)"

definition erase :: "nat \<Rightarrow> tworld \<Rightarrow> tlist \<Rightarrow> tlist mutation" where
  "erase pos w ts =
     (if \<not> sealed ts \<and> pos \<ge> length (tl_threads ts)
      then throwing (UndefinedBehaviour ''erase past the end'') ts
      else change_list ''erase'' (\<lambda>is. take pos is @ drop (Suc pos) is) w ts)"

definition seal :: "tlist \<Rightarrow> tlist" where
  "seal ts = ts\<lparr>sealed := True\<rparr>"

definition tl_set_name :: "string \<Rightarrow> tlist \<Rightarrow> tlist" where
  "tl_set_name nm ts = ts\<lparr>tl_name := nm\<rparr>"

definition set_maintain_barrier :: "bool \<Rightarrow> tworld \<Rightarrow> tlist \<Rightarrow> tlist" where
  "set_maintain_barrier maintain w ts =
     (let ts1 = ts\<lparr>wnw_barrier := None\<rparr> in if maintain then update_barrier w ts1 else ts1)"

section \<open>Waking and waiting\<close>

fun each_thread :: "(nat \<Rightarrow> tworld \<Rightarrow> tworld mutation) \<Rightarrow> nat list \<Rightarrow> tworld \<Rightarrow> tworld mutation" where
  "each_thread f [] w = ok w"
| "each_thread f (i # is) w = andThen (f i w) (each_thread f is)"

definition wakeup_list :: "nat list \<Rightarrow> tworld \<Rightarrow> tworld mutation" where
  "wakeup_list is w = each_thread (\<lambda>i. on_thread i wakeup) is w"

definition wakeup_list_barrier :: "nat option \<Rightarrow> nat list \<Rightarrow> tworld \<Rightarrow> tworld mutation" where
  "wakeup_list_barrier b is w = each_thread (\<lambda>i. on_thread i (wakeup_barrier b)) is w"

text \<open>
  The variant without the lock passes over the flagged threads and goes on after an
  exception: the world, the first exception, and the count.
\<close>

fun wakeup_good ::
  "nat option \<Rightarrow> nat list \<Rightarrow> tworld \<Rightarrow> exn option \<Rightarrow> nat \<Rightarrow> tworld \<times> exn option \<times> nat" where
  "wakeup_good b [] w x count = (w, x, count)"
| "wakeup_good b (i # is) w x count =
     (if flagged_bad (thread_of w i) then wakeup_good b is w x count
      else (let (w1, y) = on_thread i (wakeup_barrier b) w
            in wakeup_good b is w1 (case x of None \<Rightarrow> y | Some _ \<Rightarrow> x) (count + 1)))"

definition wakeup_unlocked :: "tbarrier \<Rightarrow> string \<Rightarrow> nat list \<Rightarrow> tworld \<Rightarrow> tworld mutation" where
  "wakeup_unlocked b nm is w =
     (case wakeup_good (Some (fst b)) is w None 1 of
        (w1, Some x, count) \<Rightarrow> throwing x w1
      | (w1, None, count) \<Rightarrow>
          if count \<noteq> snd b then
            throwing (FawkesException (''ThreadList('' @ nm @ '')::wakeup(): barrier has count ('' @
              nat_digits (snd b) @ '') different from number of unflagged threads ('' @
              nat_digits count @ '')'')) w1
          else ok w1)"

definition flag_all :: "nat list \<Rightarrow> tworld \<Rightarrow> tworld" where
  "flag_all is w = fold (\<lambda>i w. upd_thread i (set_flag FLAG_BAD (thread_of w i)) w) is w"

text \<open>
  \<open>passed\<close> is the outcome of the wait: \<open>None\<close> when everyone came in time, and the
  threads that passed the barrier when it timed out; \<open>limit\<close> is the time limit as the
  message prints it. The exception of \<open>wakeup_unlocked\<close> is thrown on.
\<close>

definition wakeup_and_wait ::
  "string \<Rightarrow> nat list option \<Rightarrow> tworld \<times> tlist \<Rightarrow> (tworld \<times> tlist) mutation" where
  "wakeup_and_wait limit passed s =
     (case s of (w, ts) \<Rightarrow>
      case wnw_barrier ts of
        None \<Rightarrow> throwing (NullPointerException
          ''ThreadList::wakeup_and_wait() can only be called if barrier is maintained'') (w, ts)
      | Some b \<Rightarrow>
          (case wakeup_unlocked b (tl_name ts) (tl_threads ts) w of
             (w1, Some x) \<Rightarrow> throwing x (w1, ts)
           | (w1, None) \<Rightarrow>
               (case passed of
                  None \<Rightarrow> ok (w1, ts)
                | Some ps \<Rightarrow>
                    (let bad = filter (\<lambda>i. i \<notin> set ps) (tl_threads ts);
                         w2 = flag_all bad w1;
                         ts1 = ts\<lparr>wnw_bad_barriers := wnw_bad_barriers ts @ [(b, bad)],
                                  wnw_barrier := None\<rparr>
                     in throwing (FawkesException
                          (if length bad > 1 then
                             ''Multiple threads did not finish in time, flagging as bad: '' @
                               concat (map (\<lambda>i. tname (thread_of w2 i) @ '' '') bad)
                           else if bad = [] then ''Timeout happened, but no bad threads recorded.''
                           else ''Thread '' @ tname (thread_of w2 (hd bad)) @
                             '' did not finish in time (max '' @ limit @ ''), flagging as bad''))
                        (w2, update_barrier w2 ts1)))))"

text \<open>
  \<open>try_recover\<close>: the threads of the bad barriers that wait again are unflagged and
  reported, and barriers without bad threads are dropped.
\<close>

definition unflag_all :: "nat list \<Rightarrow> tworld \<Rightarrow> tworld" where
  "unflag_all is w = fold (\<lambda>i w. upd_thread i (unset_flag FLAG_BAD (thread_of w i)) w) is w"

definition try_recover :: "tworld \<times> tlist \<Rightarrow> (tworld \<times> tlist) \<times> string list" where
  "try_recover s =
     (case s of (w, ts) \<Rightarrow>
      let back = (\<lambda>i. thread_waiting (thread_of w i));
          recovered = concat (map (\<lambda>(b, bad). filter back bad) (wnw_bad_barriers ts));
          rest = filter (\<lambda>(b, bad). bad \<noteq> [])
            (map (\<lambda>(b, bad). (b, filter (\<lambda>i. \<not> back i) bad)) (wnw_bad_barriers ts));
          w1 = unflag_all recovered w;
          ts1 = ts\<lparr>wnw_bad_barriers := rest\<rparr>
      in ((w1, if recovered \<noteq> [] then update_barrier w1 ts1 else ts1),
          map (\<lambda>i. tname (thread_of w i)) recovered))"

section \<open>The barrier counts the threads that are woken\<close>

definition barrier_ok :: "tworld \<Rightarrow> tlist \<Rightarrow> bool" where
  "barrier_ok w ts \<longleftrightarrow>
     (\<forall>b. wnw_barrier ts = Some b \<longrightarrow> snd b = 1 + good_count w (tl_threads ts))"

lemma good_count_cong:
  "(\<And>i. flagged_bad (thread_of w' i) = flagged_bad (thread_of w i)) \<Longrightarrow>
   good_count w' ns = good_count w ns"
  by (simp add: good_count_def)

lemma update_barrier_ok [simp]: "barrier_ok w (update_barrier w ts)"
  by (simp add: barrier_ok_def update_barrier_def)

lemma barrier_ok_no_barrier [simp]: "wnw_barrier ts = None \<Longrightarrow> barrier_ok w ts"
  by (simp add: barrier_ok_def)

lemma change_list_ok: "barrier_ok w ts \<Longrightarrow> barrier_ok w (fst (change_list what f w ts))"
  by (cases "wnw_barrier ts") (simp_all add: change_list_def Let_def)

lemma barrier_ok_cong:
  "(\<And>i. flagged_bad (thread_of w' i) = flagged_bad (thread_of w i)) \<Longrightarrow>
   barrier_ok w ts \<Longrightarrow> barrier_ok w' ts"
  using good_count_cong [of w' w "tl_threads ts"] by (simp add: barrier_ok_def)

lemma flags_wakeup [simp]: "flags (fst (wakeup t)) = flags t" "flags (fst (wakeup_barrier b t)) = flags t"
  by (auto simp: wakeup_def wakeup_barrier_def)

lemma thread_of_on_thread [simp]:
  "thread_of (fst (on_thread i f w)) j = (if j = i then fst (f (thread_of w i)) else thread_of w j)"
  by (auto simp: on_thread_def upd_thread_def split: prod.splits)

lemma snd_on_thread [simp]: "snd (on_thread i f w) = snd (f (thread_of w i))"
  by (simp add: on_thread_def split: prod.splits)

lemma flagged_bad_cong: "flags t = flags t' \<Longrightarrow> flagged_bad t = flagged_bad t'"
  by (simp add: flagged_bad_def)

lemma wakeup_good_flags:
  "flags (thread_of (fst (wakeup_good b ns w x n)) j) = flags (thread_of w j)"
proof (induction b ns w x n rule: wakeup_good.induct)
  case (2 b i ns w x count)
  obtain w1 y where w1: "on_thread i (wakeup_barrier b) w = (w1, y)" by fastforce
  have "flags (thread_of w1 j) = flags (thread_of w j)"
    using thread_of_on_thread [of i "wakeup_barrier b" w j] w1 by (simp split: if_splits)
  then show ?case using 2 w1 by (simp add: wakeup_good.simps)
qed simp

lemma wakeup_unlocked_flags [simp]:
  "flagged_bad (thread_of (fst (wakeup_unlocked b nm ns w)) j) = flagged_bad (thread_of w j)"
  using wakeup_good_flags [of "Some (fst b)" ns w None 1 j]
  by (auto simp: wakeup_unlocked_def split: prod.splits option.splits intro!: flagged_bad_cong)

lemma wakeup_good_count:
  "snd (snd (wakeup_good b ns w x n)) = n + good_count w ns"
proof (induction b ns w x n rule: wakeup_good.induct)
  case (2 b i ns w x count)
  obtain w1 y where w1: "on_thread i (wakeup_barrier b) w = (w1, y)" by fastforce
  have "flagged_bad (thread_of w1 j) = flagged_bad (thread_of w j)" for j
    using thread_of_on_thread [of i "wakeup_barrier b" w j] w1
    by (auto split: if_splits intro!: flagged_bad_cong)
  then have "good_count w1 ns = good_count w ns" by (rule good_count_cong)
  then show ?case using 2 w1 by (simp add: good_count_def)
qed (simp add: good_count_def)

lemma wakeup_and_wait_ok:
  "barrier_ok w ts \<Longrightarrow> case fst (wakeup_and_wait limit passed (w, ts)) of (w', ts') \<Rightarrow> barrier_ok w' ts'"
proof -
  assume ok: "barrier_ok w ts"
  show ?thesis
  proof (cases "wnw_barrier ts")
    case None
    then show ?thesis using ok by (simp add: wakeup_and_wait_def)
  next
    case (Some b)
    obtain w1 x where w1: "wakeup_unlocked b (tl_name ts) (tl_threads ts) w = (w1, x)" by fastforce
    then have "flagged_bad (thread_of w1 j) = flagged_bad (thread_of w j)" for j
      using wakeup_unlocked_flags [of b "tl_name ts" "tl_threads ts" w j] by simp
    then have "barrier_ok w1 ts" using ok by (blast intro: barrier_ok_cong)
    then show ?thesis using Some w1
      by (auto simp: wakeup_and_wait_def Let_def split: option.splits)
  qed
qed

lemma unflag_all_Nil [simp]: "unflag_all [] w = w"
  by (simp add: unflag_all_def)

lemma try_recover_ok: "barrier_ok w ts \<Longrightarrow> case fst (try_recover (w, ts)) of (w', ts') \<Rightarrow> barrier_ok w' ts'"
proof -
  assume ok: "barrier_ok w ts"
  define r where "r = concat (map (\<lambda>(b, bad). filter (\<lambda>i. thread_waiting (thread_of w i)) bad) (wnw_bad_barriers ts))"
  obtain rest where rest: "fst (try_recover (w, ts)) =
      (unflag_all r w, if r \<noteq> [] then update_barrier (unflag_all r w) (ts\<lparr>wnw_bad_barriers := rest\<rparr>)
                       else ts\<lparr>wnw_bad_barriers := rest\<rparr>)"
    unfolding try_recover_def Let_def r_def by simp
  show ?thesis
  proof (cases "r = []")
    case True
    then show ?thesis using ok rest by (simp add: barrier_ok_def)
  next
    case False
    then show ?thesis using rest by simp
  qed
qed

text \<open>
  Everything that happens to one list: its operations, and changes of the threads that
  leave the flags alone.
\<close>

inductive tl_reachable :: "tworld \<times> tlist \<Rightarrow> bool" where
  tl_new: "tl_reachable (w, tlist_new w m nm)"
| tl_copied: "tl_reachable (w, ts) \<Longrightarrow> tl_reachable (w, tlist_copy w ts)"
| tl_assigned: "tl_reachable (w, ts) \<Longrightarrow> tl_reachable (w, src) \<Longrightarrow>
     tl_reachable (w, tlist_assign w ts src)"
| tl_push: "tl_reachable (w, ts) \<Longrightarrow> f \<in> {push_front i, push_front_locked i, push_back i,
     push_back_locked i} \<Longrightarrow> tl_reachable (w, fst (f w ts))"
| tl_take: "tl_reachable (w, ts) \<Longrightarrow> f \<in> {tl_remove i, remove_locked i, clear, pop_front,
     pop_back, erase i} \<Longrightarrow> tl_reachable (w, fst (f w ts))"
| tl_sealed: "tl_reachable (w, ts) \<Longrightarrow> tl_reachable (w, seal ts)"
| tl_renamed: "tl_reachable (w, ts) \<Longrightarrow> tl_reachable (w, tl_set_name nm ts)"
| tl_maintain: "tl_reachable (w, ts) \<Longrightarrow> tl_reachable (w, set_maintain_barrier m w ts)"
| tl_woken: "tl_reachable s \<Longrightarrow> tl_reachable (fst (wakeup_and_wait limit passed s))"
| tl_recovered: "tl_reachable s \<Longrightarrow> tl_reachable (fst (try_recover s))"
| tl_world: "tl_reachable (w, ts) \<Longrightarrow>
     (\<And>i. flagged_bad (thread_of w' i) = flagged_bad (thread_of w i)) \<Longrightarrow> tl_reachable (w', ts)"

lemma tl_reachable_ok: "tl_reachable s \<Longrightarrow> barrier_ok (fst s) (snd s)"
proof (induction rule: tl_reachable.induct)
  case (tl_woken s limit passed)
  then show ?case using wakeup_and_wait_ok [of "fst s" "snd s" limit passed]
    by (simp add: case_prod_unfold)
next
  case (tl_recovered s)
  then show ?case using try_recover_ok [of "fst s" "snd s"] by (simp add: case_prod_unfold)
next
  case (tl_world w ts w')
  then show ?case by (metis barrier_ok_cong fst_conv snd_conv)
next
  case (tl_sealed w ts)
  then show ?case by (simp add: barrier_ok_def seal_def)
next
  case (tl_renamed w ts nm)
  then show ?case by (simp add: barrier_ok_def tl_set_name_def)
qed (auto simp: tlist_new_def tlist_copy_def tlist_assign_def Let_def push_front_def
  push_front_locked_def push_back_def push_back_locked_def tl_remove_def remove_locked_def clear_def
  pop_front_def pop_back_def erase_def set_maintain_barrier_def change_list_ok)


section \<open>Waking, missing the barrier, recovering\<close>

definition ready_to_wake :: "thread \<Rightarrow> bool" where
  "ready_to_wake t \<longleftrightarrow>
     op_mode t = OPMODE_WAITFORWAKEUP \<and> (waiting_for_wakeup t \<or> barrier t = None)"

definition woken_with :: "nat \<Rightarrow> thread \<Rightarrow> thread" where
  "woken_with b t =
     t\<lparr>pending_wakeups := pending_wakeups t + 1, barrier := Some b, waiting_for_wakeup := False\<rparr>"

lemma wakeup_ready: "ready_to_wake t \<Longrightarrow> wakeup_barrier (Some b) t = ok (woken_with b t)"
  by (simp add: wakeup_barrier_def ready_to_wake_def woken_with_def)

lemma on_thread_ok: "f (thread_of w i) = ok t \<Longrightarrow> on_thread i f w = ok (upd_thread i t w)"
  by (simp add: on_thread_def ok_def)

lemma thread_of_upd [simp]: "thread_of (upd_thread i t w) = (thread_of w)(i := t)"
  by (simp add: upd_thread_def)

lemma wakeup_good_ready:
  "distinct ns \<Longrightarrow> \<forall>i \<in> set ns. \<not> flagged_bad (thread_of w i) \<longrightarrow> ready_to_wake (thread_of w i) \<Longrightarrow>
   fst (snd (wakeup_good (Some b) ns w None n)) = None \<and>
   (\<forall>j. thread_of (fst (wakeup_good (Some b) ns w None n)) j =
      (if j \<in> set ns \<and> \<not> flagged_bad (thread_of w j) then woken_with b (thread_of w j)
       else thread_of w j))"
proof (induction ns arbitrary: w n)
  case (Cons i ns)
  show ?case
  proof (cases "flagged_bad (thread_of w i)")
    case True
    then show ?thesis using Cons by auto
  next
    case False
    let ?w = "upd_thread i (woken_with b (thread_of w i)) w"
    have on: "on_thread i (wakeup_barrier (Some b)) w = (?w, None)"
      using on_thread_ok [OF wakeup_ready] False Cons.prems(2) by (simp add: ok_def)
    have "\<forall>j \<in> set ns. \<not> flagged_bad (thread_of ?w j) \<longrightarrow> ready_to_wake (thread_of ?w j)"
      using Cons.prems by auto
    then show ?thesis using Cons.IH [of ?w "n + 1"] Cons.prems(1) False on by auto
  qed
qed simp

lemma wakeup_unlocked_ready:
  assumes "barrier_ok w ts" and "wnw_barrier ts = Some b" and "distinct (tl_threads ts)"
    and "\<forall>i \<in> set (tl_threads ts). \<not> flagged_bad (thread_of w i) \<longrightarrow> ready_to_wake (thread_of w i)"
  shows "snd (wakeup_unlocked b (tl_name ts) (tl_threads ts) w) = None \<and>
    (\<forall>j. thread_of (fst (wakeup_unlocked b (tl_name ts) (tl_threads ts) w)) j =
      (if j \<in> set (tl_threads ts) \<and> \<not> flagged_bad (thread_of w j)
       then woken_with (fst b) (thread_of w j) else thread_of w j))"
proof -
  obtain w1 x n where g: "wakeup_good (Some (fst b)) (tl_threads ts) w None 1 = (w1, x, n)"
    by (metis prod_cases3)
  have "x = None"
    using wakeup_good_ready [OF assms(3,4), of "fst b" 1] g by simp
  moreover have "n = snd b"
    using wakeup_good_count [of "Some (fst b)" "tl_threads ts" w None 1] g assms(1,2)
    by (simp add: barrier_ok_def)
  ultimately have "wakeup_unlocked b (tl_name ts) (tl_threads ts) w = ok w1"
    using g by (simp add: wakeup_unlocked_def)
  then show ?thesis using wakeup_good_ready [OF assms(3,4), of "fst b" 1] g by simp
qed


lemma thread_of_flag_all:
  "thread_of (flag_all is w) i =
     (if i \<in> set is then set_flag FLAG_BAD (thread_of w i) else thread_of w i)"
proof (induction "is" arbitrary: w)
  case (Cons j js)
  have "set_flag FLAG_BAD (set_flag FLAG_BAD t) = set_flag FLAG_BAD t" for t
    by (simp add: set_flag_def or.assoc)
  then show ?case using Cons by (simp add: flag_all_def)
qed (simp add: flag_all_def)

lemma thread_of_unflag_all:
  "thread_of (unflag_all is w) i =
     (if i \<in> set is then unset_flag FLAG_BAD (thread_of w i) else thread_of w i)"
proof (induction "is" arbitrary: w)
  case (Cons j js)
  have "unset_flag FLAG_BAD (unset_flag FLAG_BAD t) = unset_flag FLAG_BAD t" for t
    by (simp add: unset_flag_def and.assoc)
  then show ?case using Cons by (simp add: unflag_all_def)
qed (simp add: unflag_all_def)

lemma flagged_flag_all:
  "flagged_bad (thread_of (flag_all ns w) i) \<longleftrightarrow> i \<in> set ns \<or> flagged_bad (thread_of w i)"
  by (simp add: thread_of_flag_all flag_set)

lemma flagged_unflag_all:
  "flagged_bad (thread_of (unflag_all ns w) i) \<longleftrightarrow> i \<notin> set ns \<and> flagged_bad (thread_of w i)"
  by (simp add: thread_of_unflag_all flag_unset)

text \<open>
  A timeout: the threads of the list that did not pass the barrier in time, and no
  others, become flagged and are remembered with that barrier; the list gets a new
  barrier that waits for the rest only.
\<close>

theorem timeout_flags_missing:
  assumes "tl_reachable (w, ts)" and "wnw_barrier ts = Some b" and "distinct (tl_threads ts)"
    and "\<forall>i \<in> set (tl_threads ts). \<not> flagged_bad (thread_of w i) \<longrightarrow> ready_to_wake (thread_of w i)"
    and "wakeup_and_wait limit (Some passed) (w, ts) = ((w', ts'), x)"
  shows "x \<noteq> None \<and>
    (\<forall>i. flagged_bad (thread_of w' i) \<longleftrightarrow>
       flagged_bad (thread_of w i) \<or> (i \<in> set (tl_threads ts) \<and> i \<notin> set passed)) \<and>
    tl_threads ts' = tl_threads ts \<and>
    wnw_bad_barriers ts' =
      wnw_bad_barriers ts @ [(b, filter (\<lambda>i. i \<notin> set passed) (tl_threads ts))] \<and>
    map_option snd (wnw_barrier ts') =
      Some (1 + length (filter (\<lambda>i. i \<in> set passed \<and> \<not> flagged_bad (thread_of w i)) (tl_threads ts)))"
proof -
  obtain w1 where w1: "wakeup_unlocked b (tl_name ts) (tl_threads ts) w = (w1, None)"
    using wakeup_unlocked_ready [OF _ assms(2-4)] tl_reachable_ok [OF assms(1)]
    by (metis prod.collapse fst_conv snd_conv)
  let ?bad = "filter (\<lambda>i. i \<notin> set passed) (tl_threads ts)"
  let ?ts = "ts\<lparr>wnw_bad_barriers := wnw_bad_barriers ts @ [(b, ?bad)], wnw_barrier := None\<rparr>"
  have w': "w' = flag_all ?bad w1" and ts': "ts' = update_barrier (flag_all ?bad w1) ?ts"
    and x: "x \<noteq> None"
    using assms(5) w1 assms(2) by (auto simp: wakeup_and_wait_def Let_def throwing_def)
  have "flagged_bad (thread_of w1 i) = flagged_bad (thread_of w i)" for i
    using wakeup_unlocked_flags [of b "tl_name ts" "tl_threads ts" w i] w1 by simp
  then have fl: "flagged_bad (thread_of w' i) \<longleftrightarrow> flagged_bad (thread_of w i) \<or> i \<in> set ?bad" for i
    unfolding w' flagged_flag_all by auto
  then have "good_count w' (tl_threads ts) =
      length (filter (\<lambda>i. i \<in> set passed \<and> \<not> flagged_bad (thread_of w i)) (tl_threads ts))"
    unfolding good_count_def by (intro arg_cong [of _ _ length] filter_cong) auto
  then show ?thesis using fl x ts' w' by (simp add: update_barrier_def)
qed

lemma set_concat_filter:
  "set (concat (map (\<lambda>(b, bad). filter P bad) bbs)) = {i. P i \<and> i \<in> (\<Union>p \<in> set bbs. set (snd p))}"
  by (induction bbs) auto

lemma set_rest_filter:
  "(\<Union>p \<in> set (filter (\<lambda>(b, bad). bad \<noteq> []) (map (\<lambda>(b, bad). (b, filter (\<lambda>i. \<not> P i) bad)) bbs)).
     set (snd p)) = {i \<in> (\<Union>p \<in> set bbs. set (snd p)). \<not> P i}"
  by (induction bbs) (auto simp: filter_empty_conv)

text \<open>
  Recovery: a thread stops being flagged exactly when some missed barrier of the
  list remembers it and it waits for a wakeup again; it is reported by name; the missed
  barriers keep exactly the threads that still do not wait, and none is empty.
\<close>

theorem recovery_exact:
  assumes "try_recover (w, ts) = ((w', ts'), names)"
  shows "(\<forall>i. flagged_bad (thread_of w' i) \<longleftrightarrow> flagged_bad (thread_of w i) \<and>
       \<not> (thread_waiting (thread_of w i) \<and> i \<in> (\<Union>p \<in> set (wnw_bad_barriers ts). set (snd p)))) \<and>
    set names = {tname (thread_of w i) |i. thread_waiting (thread_of w i) \<and>
       i \<in> (\<Union>p \<in> set (wnw_bad_barriers ts). set (snd p))} \<and>
    (\<Union>p \<in> set (wnw_bad_barriers ts'). set (snd p)) =
       {i \<in> (\<Union>p \<in> set (wnw_bad_barriers ts). set (snd p)). \<not> thread_waiting (thread_of w i)} \<and>
    (\<forall>p \<in> set (wnw_bad_barriers ts'). snd p \<noteq> []) \<and>
    tl_threads ts' = tl_threads ts"
proof -
  define r where "r = concat (map (\<lambda>(b, bad). filter (\<lambda>i. thread_waiting (thread_of w i)) bad)
    (wnw_bad_barriers ts))"
  define rest where "rest = filter (\<lambda>(b, bad). bad \<noteq> [])
    (map (\<lambda>(b, bad). (b, filter (\<lambda>i. \<not> thread_waiting (thread_of w i)) bad)) (wnw_bad_barriers ts))"
  have "try_recover (w, ts) =
      ((unflag_all r w, if r \<noteq> [] then update_barrier (unflag_all r w) (ts\<lparr>wnw_bad_barriers := rest\<rparr>)
                        else ts\<lparr>wnw_bad_barriers := rest\<rparr>),
       map (\<lambda>i. tname (thread_of w i)) r)"
    unfolding try_recover_def Let_def r_def rest_def by simp
  then have w': "w' = unflag_all r w" and nm: "names = map (\<lambda>i. tname (thread_of w i)) r"
    and ts': "ts' = (if r \<noteq> [] then update_barrier (unflag_all r w) (ts\<lparr>wnw_bad_barriers := rest\<rparr>)
                     else ts\<lparr>wnw_bad_barriers := rest\<rparr>)"
    using assms by simp_all
  have bb: "wnw_bad_barriers ts' = rest" and th: "tl_threads ts' = tl_threads ts"
    by (simp_all add: ts' update_barrier_def)
  have r: "set r = {i. thread_waiting (thread_of w i) \<and>
      i \<in> (\<Union>p \<in> set (wnw_bad_barriers ts). set (snd p))}"
    unfolding r_def by (rule set_concat_filter)
  have "(\<Union>p \<in> set rest. set (snd p)) =
      {i \<in> (\<Union>p \<in> set (wnw_bad_barriers ts). set (snd p)). \<not> thread_waiting (thread_of w i)}"
    unfolding rest_def by (rule set_rest_filter)
  moreover have "\<forall>p \<in> set rest. snd p \<noteq> []" by (auto simp: rest_def)
  ultimately show ?thesis unfolding bb th w' flagged_unflag_all nm using r by auto
qed


section \<open>Examples\<close>

definition demo_world :: tworld where
  "demo_world = \<lparr>thread_of = (\<lambda>i. thread_new False ''worker'' OPMODE_WAITFORWAKEUP), log = []\<rparr>"

definition demo_list :: tlist where
  "demo_list = \<lparr>tl_threads = [1, 2], tl_name = ''workers'', sealed = False,
     wnw_barrier = Some (2, 3), wnw_bad_barriers = [], tl_serial = 3\<rparr>"

lemma demo_flags [simp]:
  "\<not> flagged_bad (thread_new d n m)" "ready_to_wake (thread_new d n OPMODE_WAITFORWAKEUP)"
  "thread_of demo_world i = thread_new False ''worker'' OPMODE_WAITFORWAKEUP"
  "pending_wakeups (thread_new d n m) = 0"
  by (simp_all add: flagged_bad_def thread_new_def ready_to_wake_def demo_world_def)

lemma demo_list_reachable: "tl_reachable (demo_world, demo_list)"
proof -
  have "demo_list = fst (push_back 2 demo_world (fst (push_back 1 demo_world
      (tlist_new demo_world True ''workers''))))"
    by (simp add: demo_list_def push_back_def change_list_def tlist_new_def update_barrier_def
        good_count_def)
  moreover have "tl_reachable (demo_world, fst (push_back 2 demo_world (fst (push_back 1 demo_world
      (tlist_new demo_world True ''workers'')))))"
    by (rule tl_push [OF tl_push [OF tl_new, of "push_back 1" 1], of "push_back 2" 2]) simp_all
  ultimately show ?thesis by simp
qed

lemma demo_list_ready:
  "wnw_barrier demo_list = Some (2, 3)" "distinct (tl_threads demo_list)"
  "\<forall>i \<in> set (tl_threads demo_list). \<not> flagged_bad (thread_of demo_world i) \<longrightarrow>
     ready_to_wake (thread_of demo_world i)"
  by (simp_all add: demo_list_def)


theorem timeout_flags_missing_witness:
  "flagged_bad (thread_of (fst (fst (wakeup_and_wait ''1.0'' (Some [1]) (demo_world, demo_list)))) 2) \<and>
   \<not> flagged_bad (thread_of (fst (fst (wakeup_and_wait ''1.0'' (Some [1]) (demo_world, demo_list)))) 1)"
proof -
  let ?r = "wakeup_and_wait ''1.0'' (Some [1]) (demo_world, demo_list)"
  have "?r = ((fst (fst ?r), snd (fst ?r)), snd ?r)" by simp
  from timeout_flags_missing [OF demo_list_reachable demo_list_ready this]
  show ?thesis by (simp add: demo_list_def)
qed

definition demo_flagged :: tworld where
  "demo_flagged = \<lparr>thread_of = (\<lambda>i. set_flag FLAG_BAD (thread_new False ''worker'' OPMODE_WAITFORWAKEUP)),
     log = []\<rparr>"

theorem recovery_exact_witness:
  "\<not> flagged_bad (thread_of (fst (fst (try_recover (demo_flagged, demo_list\<lparr>wnw_bad_barriers := [((0, 2), [1])]\<rparr>)))) 1) \<and>
   flagged_bad (thread_of (fst (fst (try_recover (demo_flagged, demo_list\<lparr>wnw_bad_barriers := [((0, 2), [1])]\<rparr>)))) 2)"
proof -
  let ?r = "try_recover (demo_flagged, demo_list\<lparr>wnw_bad_barriers := [((0, 2), [1])]\<rparr>)"
  have "?r = ((fst (fst ?r), snd (fst ?r)), snd ?r)" by simp
  from recovery_exact [OF this] show ?thesis
    by (simp add: demo_flagged_def flag_set thread_waiting_def set_flag_def thread_new_def)
      (simp add: flagged_bad_def FLAG_BAD_def)
qed

end
