(* ===== verification/Thread_Life.thy ===== *)
theory Thread_Life imports Thread_List
begin

text \<open>
  The life cycle operations of \<open>ThreadList\<close>
  (\<open>src/libs/core/threading/thread_list.cpp\<close>): initialise with rollback, start,
  cancel, join, stop, prepare finalization, finalize, hold, force stop. Every call of
  the initializer, the finalizer and the virtual functions of a thread is logged.
\<close>

section \<open>Operations\<close>

definition start_thread :: "hooks \<Rightarrow> nat \<Rightarrow> tworld \<Rightarrow> tworld mutation" where
  "start_thread h i w = on_thread i (thread_start (h_create h i (log w))) (logged (Start i) w)"

definition start_list :: "hooks \<Rightarrow> nat list \<Rightarrow> tworld \<Rightarrow> tworld mutation" where
  "start_list h is w = each_thread (start_thread h) is w"

definition cancel_thread :: "hooks \<Rightarrow> nat \<Rightarrow> tworld \<Rightarrow> tworld" where
  "cancel_thread h i w =
     upd_thread i (thread_cancel (h_cancel h i (log w)) (thread_of w i)) (logged (Cancel i) w)"

definition join_thread :: "nat \<Rightarrow> tworld \<Rightarrow> tworld" where
  "join_thread i w = upd_thread i (thread_join (thread_of w i)) (logged (Join i) w)"

definition cancel_list :: "hooks \<Rightarrow> nat list \<Rightarrow> tworld \<Rightarrow> tworld" where
  "cancel_list h is w = fold (cancel_thread h) is w"

definition join_list :: "nat list \<Rightarrow> tworld \<Rightarrow> tworld" where
  "join_list is w = fold join_thread is w"

definition stop_list :: "hooks \<Rightarrow> nat list \<Rightarrow> tworld \<Rightarrow> tworld" where
  "stop_list h is w = fold (\<lambda>i w. join_thread i (cancel_thread h i w)) (rev is) w"

definition notify_failed :: "hooks \<Rightarrow> nat list \<Rightarrow> tworld \<Rightarrow> tworld" where
  "notify_failed h is w =
     fold (\<lambda>i w. upd_thread i
        (notify_of_failed_init (\<lambda>l. h_keep h l (log w)) (thread_of w i)) (logged (NotifyFailed i) w)) is w"

fun finalize_each ::
  "hooks \<Rightarrow> nat list \<Rightarrow> bool \<Rightarrow> tworld \<Rightarrow> tworld mutation" where
  "finalize_each h [] error w =
     (if error then throwing (FawkesException ''One or more threads failed to finalize'') w else ok w)"
| "finalize_each h (i # is) error w =
     (let fe = h_finalizer h i (log w); w1 = logged (Finalizer i) w in
      if fe \<noteq> None \<and> fe \<noteq> Some CannotFinalizeThreadException then throwing (the fe) w1
      else (let te = h_finalize h i (log w1); w2 = logged (Finalize i) w1 in
            finalize_each h is
              (error \<or> fe \<noteq> None \<or> te = Some CannotFinalizeThreadException) w2))"

definition finalize_list :: "hooks \<Rightarrow> nat list \<Rightarrow> tworld \<Rightarrow> tworld mutation" where
  "finalize_list h is w = finalize_each h (rev is) False w"

text \<open>How the loop of \<open>init\<close> ends: with the threads that are initialised.\<close>

datatype init_outcome = AllInit "nat list" | StoppedInit "nat list" | EscapedInit exn

fun init_loop ::
  "hooks \<Rightarrow> nat list \<Rightarrow> nat list \<Rightarrow> nat list \<Rightarrow> tworld \<Rightarrow> tworld \<times> init_outcome" where
  "init_loop h every [] inited w = (w, AllInit inited)"
| "init_loop h every (i # is) inited w =
     (let w1 = logged (Initializer i) w in
      case h_initializer h i (log w) of
        Some e \<Rightarrow> (w1, if is_fawkes e then StoppedInit inited else EscapedInit e)
      | None \<Rightarrow>
          (let w2 = logged (Init i) w1 in
           case h_init h i (log w1) of
             None \<Rightarrow> init_loop h every is (inited @ [i]) w2
           | Some e \<Rightarrow>
               (let w3 = notify_failed h every w2; w4 = logged (Finalizer i) w3 in
                case h_finalizer h i (log w3) of
                  None \<Rightarrow> (w4, StoppedInit inited) | Some e' \<Rightarrow> (w4, EscapedInit e'))))"

definition init_list :: "hooks \<Rightarrow> nat list \<Rightarrow> tworld \<Rightarrow> tworld mutation" where
  "init_list h is w =
     (case init_loop h is is [] w of
        (w1, AllInit _) \<Rightarrow> ok w1
      | (w1, EscapedInit e) \<Rightarrow> throwing e w1
      | (w1, StoppedInit inited) \<Rightarrow>
          andThen (finalize_list h inited w1) (throwing CannotInitializeThreadException))"

text \<open>
  \<open>prepare_finalize\<close> of one thread of a list, \<open>None\<close> when it waits for a hold; then
  whether it agrees, or an exception.
\<close>

definition prepare_thread :: "hooks \<Rightarrow> nat \<Rightarrow> tworld \<Rightarrow> (tworld \<times> bool result) option" where
  "prepare_thread h i w =
     (let t = thread_of w i;
          w1 = (if started t \<and> \<not> finalize_prepared t \<and> \<not> prepfin_hold t
                then logged (PrepareUser i) w else w)
      in case thread_prepare_finalize (h_prepare_user h i (log w)) t of
           None \<Rightarrow> None | Some (t', r) \<Rightarrow> Some (upd_thread i t' w1, r))"

definition prepare_one :: "hooks \<Rightarrow> nat \<Rightarrow> tworld \<Rightarrow> (tworld \<times> bool result) option" where
  "prepare_one h i w =
     (let w1 = logged (FinPrepare i) w in
      case h_fin_prepare h i (log w) of
        Inl e \<Rightarrow> Some (w1, Inl e)
      | Inr agreed \<Rightarrow>
          (case prepare_thread h i w1 of
             None \<Rightarrow> None
           | Some (w2, Inl e) \<Rightarrow> Some (w2, Inl e)
           | Some (w2, Inr b) \<Rightarrow> Some (w2, Inr (agreed \<and> b))))"

fun prepare_each ::
  "hooks \<Rightarrow> nat list \<Rightarrow> bool \<Rightarrow> bool \<Rightarrow> tworld \<Rightarrow> (tworld \<times> bool result) option" where
  "prepare_each h [] can threw w =
     Some (w, if threw then Inl CannotFinalizeThreadException else Inr can)"
| "prepare_each h (i # is) can threw w =
     (case prepare_one h i w of
        None \<Rightarrow> None
      | Some (w1, Inr b) \<Rightarrow> prepare_each h is (can \<and> b) threw w1
      | Some (w1, Inl e) \<Rightarrow>
          if e = CannotFinalizeThreadException then prepare_each h is can True w1
          else Some (w1, Inl e))"

definition prepare_finalize_list :: "hooks \<Rightarrow> nat list \<Rightarrow> tworld \<Rightarrow> (tworld \<times> bool result) option" where
  "prepare_finalize_list h is w = prepare_each h (rev is) True False w"

definition cancel_finalize_list :: "nat list \<Rightarrow> tworld \<Rightarrow> tworld mutation" where
  "cancel_finalize_list is w =
     each_thread (\<lambda>i w. on_thread i thread_cancel_finalize (logged (CancelFinalize i) w)) (rev is) w"

text \<open>The hold is set thread by thread, and released again where it was set when one refuses.\<close>

fun hold_loop :: "bool \<Rightarrow> nat list \<Rightarrow> nat list \<Rightarrow> tworld \<Rightarrow> tworld mutation" where
  "hold_loop hold held [] w = ok w"
| "hold_loop hold held (i # is) w =
     (case on_thread i (thread_set_prepfin_hold hold) w of
        (w1, None) \<Rightarrow> hold_loop hold (held @ [i]) is w1
      | (w1, Some e) \<Rightarrow>
          andThen (each_thread (\<lambda>j. on_thread j (thread_set_prepfin_hold False)) held w1) (throwing e))"

definition set_prepfin_hold_list :: "bool \<Rightarrow> nat list \<Rightarrow> tworld \<Rightarrow> tworld mutation" where
  "set_prepfin_hold_list hold is w = hold_loop hold [] is w"

definition force_stop :: "hooks \<Rightarrow> nat list \<Rightarrow> tworld \<Rightarrow> tworld mutation option" where
  "force_stop h is w =
     (case prepare_finalize_list h is w of
        None \<Rightarrow> None
      | Some (w1, Inl e) \<Rightarrow> Some (if is_fawkes e then ok w1 else throwing e w1)
      | Some (w1, Inr _) \<Rightarrow>
          (case finalize_list h is (stop_list h is w1) of
             (w2, None) \<Rightarrow> Some (ok w2)
           | (w2, Some e) \<Rightarrow> Some (if is_fawkes e then ok w2 else throwing e w2)))"


section \<open>Initialisation is all or nothing\<close>

definition init_events :: "nat list \<Rightarrow> tevent list" where
  "init_events ns = concat (map (\<lambda>j. [Initializer j, Init j]) ns)"

definition finalize_events :: "nat list \<Rightarrow> tevent list" where
  "finalize_events ns = concat (map (\<lambda>j. [Finalizer j, Finalize j]) (rev ns))"

lemma log_simps [simp]:
  "log (logged ev w) = log w @ [ev]" "log (upd_thread i t w) = log w"
  "thread_of (logged ev w) = thread_of w"
  by (simp_all add: logged_def upd_thread_def)

lemma init_events_simps [simp]:
  "init_events [] = []" "init_events (i # ns) = [Initializer i, Init i] @ init_events ns"
  by (simp_all add: init_events_def)

lemma log_notify_failed [simp]: "log (notify_failed h ns w) = log w @ map NotifyFailed ns"
  by (induction ns arbitrary: w) (simp_all add: notify_failed_def)

lemma finalize_each_trace:
  assumes "\<forall>j l. h_finalizer h j l \<in> {None, Some CannotFinalizeThreadException}"
  shows "log (fst (finalize_each h ns e w)) =
      log w @ concat (map (\<lambda>j. [Finalizer j, Finalize j]) ns) \<and>
    snd (finalize_each h ns e w) \<in>
      {None, Some (FawkesException ''One or more threads failed to finalize'')}"
proof (induction ns arbitrary: e w)
  case (Cons i ns)
  have "h_finalizer h i (log w) \<in> {None, Some CannotFinalizeThreadException}"
    using assms by blast
  then show ?case using Cons by (auto simp: Let_def)
qed auto

lemma finalize_list_trace:
  assumes "\<forall>j l. h_finalizer h j l \<in> {None, Some CannotFinalizeThreadException}"
  shows "log (fst (finalize_list h ns w)) = log w @ finalize_events ns"
    and "snd (finalize_list h ns w) \<in>
      {None, Some (FawkesException ''One or more threads failed to finalize'')}"
  using finalize_each_trace [OF assms, of "rev ns" False w]
  by (simp_all add: finalize_list_def finalize_events_def)

text \<open>The initializer takes these threads, one after the other.\<close>

definition accepted :: "hooks \<Rightarrow> tevent list \<Rightarrow> nat list \<Rightarrow> bool" where
  "accepted h l ns \<longleftrightarrow> (\<forall>p j q. ns = p @ j # q \<longrightarrow> h_initializer h j (l @ init_events p) = None)"

lemma accepted_Nil [simp]: "accepted h l []"
  by (simp add: accepted_def)

lemma accepted_Cons:
  "accepted h l (i # ns) \<longleftrightarrow> h_initializer h i l = None \<and> accepted h (l @ [Initializer i, Init i]) ns"
proof
  assume l: "accepted h l (i # ns)"
  have "h_initializer h i (l @ init_events []) = None"
    using l unfolding accepted_def by (rule allE [of _ "[]"]) simp
  moreover have "h_initializer h j (l @ init_events (i # p)) = None" if "ns = p @ j # q" for p j q
    using l that unfolding accepted_def by (metis append_Cons)
  ultimately show "h_initializer h i l = None \<and> accepted h (l @ [Initializer i, Init i]) ns"
    by (simp add: accepted_def)
next
  assume r: "h_initializer h i l = None \<and> accepted h (l @ [Initializer i, Init i]) ns"
  show "accepted h l (i # ns)"
    unfolding accepted_def
  proof (intro allI impI)
    fix p j q assume "i # ns = p @ j # q"
    then show "h_initializer h j (l @ init_events p) = None"
      using r by (cases p) (auto simp: accepted_def)
  qed
qed

lemma init_loop_trace:
  assumes "\<forall>j l. h_finalizer h j l = None \<or> (\<forall>l. h_initializer h j l \<noteq> None)"
    and "\<forall>j l e. h_initializer h j l = Some e \<longrightarrow> is_fawkes e"
  shows "init_loop h every ns inited w = (w', out) \<Longrightarrow>
    (out = AllInit (inited @ ns) \<and> accepted h (log w) ns \<and> log w' = log w @ init_events ns) \<or>
    (\<exists>as i bs. ns = as @ i # bs \<and> out = StoppedInit (inited @ as) \<and> accepted h (log w) as \<and>
      (h_initializer h i (log w @ init_events as) \<noteq> None \<and>
         log w' = log w @ init_events as @ [Initializer i] \<or>
       h_initializer h i (log w @ init_events as) = None \<and>
         log w' = log w @ init_events as @ [Initializer i, Init i] @ map NotifyFailed every @ [Finalizer i]))"
proof (induction ns arbitrary: inited w)
  case (Cons i ns)
  let ?w1 = "logged (Initializer i) w" and ?w2 = "logged (Init i) (logged (Initializer i) w)"
  consider (a) e where "h_initializer h i (log w) = Some e"
    | (b) e where "h_initializer h i (log w) = None" "h_init h i (log ?w1) = Some e"
    | (c) "h_initializer h i (log w) = None" "h_init h i (log ?w1) = None"
    by (cases "h_initializer h i (log w)"; cases "h_init h i (log ?w1)") auto
  then show ?case
  proof cases
    case a
    then have "w' = ?w1 \<and> out = StoppedInit (inited @ [])" using Cons.prems assms(2) by auto
    then show ?thesis using a by fastforce
  next
    case b
    have "h_finalizer h i l = None" for l
      using assms(1) b(1) by metis
    then have "w' = logged (Finalizer i) (notify_failed h every ?w2) \<and> out = StoppedInit (inited @ [])"
      using Cons.prems b by (auto simp: Let_def)
    then show ?thesis using b by fastforce
  next
    case c
    then have "init_loop h every ns (inited @ [i]) ?w2 = (w', out)"
      using Cons.prems by (simp add: Let_def)
    from Cons.IH [OF this] show ?thesis
    proof (elim disjE exE conjE)
      fix as j bs assume *: "ns = as @ j # bs" "out = StoppedInit ((inited @ [i]) @ as)" "accepted h (log ?w2) as"
      show ?thesis if "h_initializer h j (log ?w2 @ init_events as) \<noteq> None"
        "log w' = log ?w2 @ init_events as @ [Initializer j]"
        using * that c by (intro disjI2 exI [of _ "i # as"]) (simp add: accepted_Cons)
      show ?thesis if "h_initializer h j (log ?w2 @ init_events as) = None"
        "log w' = log ?w2 @ init_events as @ [Initializer j, Init j] @ map NotifyFailed every @ [Finalizer j]"
        using * that c by (intro disjI2 exI [of _ "i # as"]) (simp add: accepted_Cons)
    qed (simp add: accepted_Cons c)
  qed
qed simp


section \<open>Preparing finalization asks everyone\<close>

fun is_fin_prepare :: "tevent \<Rightarrow> bool" where
  "is_fin_prepare (FinPrepare _) = True"
| "is_fin_prepare _ = False"

lemma prepare_finalize_cases:
  "thread_prepare_finalize u t = Some (t', r) \<Longrightarrow>
   (t' = t \<and> r = Inl CannotFinalizeThreadException) \<or>
   (t' = t\<lparr>finalize_prepared := True\<rparr> \<and> r = u)"
  by (auto simp: thread_prepare_finalize_def split: if_splits)

lemma prepare_one_step:
  assumes "prepare_one h i w = Some (w1, r)"
  shows "(\<exists>evs. log w1 = log w @ FinPrepare i # evs \<and> filter is_fin_prepare evs = []) \<and>
    (\<forall>j. finalize_prepared (thread_of w j) \<longrightarrow> finalize_prepared (thread_of w1 j)) \<and>
    (r = Inr True \<longrightarrow> finalize_prepared (thread_of w1 i))"
proof (cases "h_fin_prepare h i (log w)")
  case (Inl e)
  then show ?thesis using assms by (auto simp: prepare_one_def Let_def)
next
  case (Inr agreed)
  let ?w = "logged (FinPrepare i) w"
  obtain t' r' where t: "thread_prepare_finalize (h_prepare_user h i (log ?w)) (thread_of w i) = Some (t', r')"
    using assms Inr by (auto simp: prepare_one_def prepare_thread_def Let_def split: option.splits)
  have fp: "finalize_prepared (thread_of w i) \<Longrightarrow> finalize_prepared t'"
    "r' = Inr b \<Longrightarrow> finalize_prepared t'" for b
    using prepare_finalize_cases [OF t] by auto
  define w2 where "w2 = (if started (thread_of w i) \<and> \<not> finalize_prepared (thread_of w i) \<and>
    \<not> prepfin_hold (thread_of w i) then logged (PrepareUser i) ?w else ?w)"
  have w2: "thread_of w2 = thread_of w"
      "log w2 \<in> {log w @ [FinPrepare i], log w @ [FinPrepare i, PrepareUser i]}"
    by (simp_all add: w2_def)
  have "w1 = upd_thread i t' w2 \<and> (r = Inr True \<longrightarrow> (\<exists>b. r' = Inr b))"
    using assms Inr t
    by (cases r') (auto simp: prepare_one_def prepare_thread_def Let_def w2_def)
  then show ?thesis using w2 fp by auto
qed

lemma prepare_each_trace:
  assumes "\<forall>j l e. h_fin_prepare h j l = Inl e \<longrightarrow> e = CannotFinalizeThreadException"
    and "\<forall>j l e. h_prepare_user h j l = Inl e \<longrightarrow> e = CannotFinalizeThreadException"
  shows "prepare_each h ns can threw w = Some (w', r) \<Longrightarrow>
    (\<exists>evs. log w' = log w @ evs \<and> filter is_fin_prepare evs = map FinPrepare ns) \<and>
    (\<forall>j. finalize_prepared (thread_of w j) \<longrightarrow> finalize_prepared (thread_of w' j)) \<and>
    (r = Inr True \<longrightarrow> can \<and> \<not> threw \<and> (\<forall>i \<in> set ns. finalize_prepared (thread_of w' i)))"
proof (induction ns arbitrary: can threw w)
  case (Cons i ns)
  obtain w1 r1 where one: "prepare_one h i w = Some (w1, r1)"
    using Cons.prems by (auto split: option.splits)
  have cfte: "r1 = Inl e \<Longrightarrow> e = CannotFinalizeThreadException" for e
    using one assms
    by (auto simp: prepare_one_def prepare_thread_def Let_def split: option.splits sum.splits
        dest!: prepare_finalize_cases)
  have step: "prepare_each h (i # ns) can threw w =
      (case r1 of Inr b \<Rightarrow> prepare_each h ns (can \<and> b) threw w1 | Inl e \<Rightarrow> prepare_each h ns can True w1)"
    using one cfte by (cases r1) auto
  obtain evs where evs: "log w1 = log w @ FinPrepare i # evs" "filter is_fin_prepare evs = []"
    and keep: "\<forall>j. finalize_prepared (thread_of w j) \<longrightarrow> finalize_prepared (thread_of w1 j)"
    and prep: "r1 = Inr True \<longrightarrow> finalize_prepared (thread_of w1 i)"
    using prepare_one_step [OF one] by blast
  obtain can' threw' where rest: "prepare_each h ns can' threw' w1 = Some (w', r)"
    and flags: "can' \<and> \<not> threw' \<Longrightarrow> can \<and> \<not> threw \<and> r1 = Inr True"
    using Cons.prems step by (cases r1) auto
  obtain evs' where evs': "log w' = log w1 @ evs'" "filter is_fin_prepare evs' = map FinPrepare ns"
    using Cons.IH [OF rest] by blast
  show ?case
  proof (intro conjI)
    show "\<exists>evs. log w' = log w @ evs \<and> filter is_fin_prepare evs = map FinPrepare (i # ns)"
      using evs evs' by (intro exI [of _ "FinPrepare i # evs @ evs'"]) simp
    show "\<forall>j. finalize_prepared (thread_of w j) \<longrightarrow> finalize_prepared (thread_of w' j)"
      using keep Cons.IH [OF rest] by blast
    show "r = Inr True \<longrightarrow> can \<and> \<not> threw \<and> (\<forall>i \<in> set (i # ns). finalize_prepared (thread_of w' i))"
      using flags prep Cons.IH [OF rest] by auto
  qed
qed (auto split: if_splits)

text \<open>
  Preparing finalization asks every thread: when the calls only agree, refuse or
  throw \<open>CannotFinalizeThreadException\<close>, the finalizer is asked exactly once about each
  thread, last thread first, also after a refusal or an exception; and when the result
  is agreement, every thread is prepared.
\<close>

theorem prepare_finalize_asks_all:
  assumes "\<forall>j l e. h_fin_prepare h j l = Inl e \<longrightarrow> e = CannotFinalizeThreadException"
    and "\<forall>j l e. h_prepare_user h j l = Inl e \<longrightarrow> e = CannotFinalizeThreadException"
    and "prepare_finalize_list h ns w = Some (w', r)"
  shows "(\<exists>evs. log w' = log w @ evs \<and> filter is_fin_prepare evs = map FinPrepare (rev ns)) \<and>
    (r = Inr True \<longrightarrow> (\<forall>i \<in> set ns. finalize_prepared (thread_of w' i)))"
proof -
  have "prepare_each h (rev ns) True False w = Some (w', r)"
    using assms(3) by (simp add: prepare_finalize_list_def)
  from prepare_each_trace [OF assms(1,2) this] show ?thesis by auto
qed

section \<open>The hold is taken back\<close>

lemma release_hold:
  "snd (each_thread (\<lambda>j. on_thread j (thread_set_prepfin_hold False)) ns w) = None"
  "thread_of (fst (each_thread (\<lambda>j. on_thread j (thread_set_prepfin_hold False)) ns w)) i =
     (if i \<in> set ns then (thread_of w i)\<lparr>prepfin_hold := False\<rparr> else thread_of w i)"
proof (induction ns arbitrary: w)
  case (Cons j ns)
  have on: "on_thread j (thread_set_prepfin_hold False) w =
      ok (upd_thread j ((thread_of w j)\<lparr>prepfin_hold := False\<rparr>) w)" for w
    by (rule on_thread_ok) (simp add: thread_set_prepfin_hold_def)
  { case 1 show ?case by (simp only: each_thread.simps on andThen_ok Cons.IH(1)) }
  { case 2 show ?case by (simp only: each_thread.simps on andThen_ok Cons.IH(2)) simp }
qed simp_all

lemma hold_loop_result:
  "hold_loop True held ns w = (w', x) \<Longrightarrow>
    (x = None \<and> (\<forall>i \<in> set ns. \<not> finalize_prepared (thread_of w i)) \<and>
      (\<forall>j. thread_of w' j =
        (if j \<in> set ns then (thread_of w j)\<lparr>prepfin_hold := True\<rparr> else thread_of w j))) \<or>
    (x \<noteq> None \<and> (\<exists>as i bs. ns = as @ i # bs \<and> finalize_prepared (thread_of w i) \<and>
      (\<forall>j \<in> set as. \<not> finalize_prepared (thread_of w j)) \<and>
      (\<forall>j. thread_of w' j = (if j \<in> set held \<union> set as
         then (thread_of w j)\<lparr>prepfin_hold := False\<rparr> else thread_of w j))))"
proof (induction ns arbitrary: held w)
  case (Cons i ns)
  show ?case
  proof (cases "finalize_prepared (thread_of w i)")
    case True
    obtain e where e: "thread_set_prepfin_hold True (thread_of w i) = (thread_of w i, Some e)"
      using True by (simp add: thread_set_prepfin_hold_def throwing_def)
    then have "on_thread i (thread_set_prepfin_hold True) w = (upd_thread i (thread_of w i) w, Some e)"
      by (simp add: on_thread_def)
    then have "(w', x) = andThen (each_thread (\<lambda>j. on_thread j (thread_set_prepfin_hold False))
        held (upd_thread i (thread_of w i) w)) (throwing e)"
      using Cons.prems by simp
    then have "x \<noteq> None" and w': "w' = fst (each_thread (\<lambda>j. on_thread j (thread_set_prepfin_hold False))
        held (upd_thread i (thread_of w i) w))"
      by (simp_all add: andThen_fst [OF release_hold(1)] throwing_def)
    then have "\<forall>j. thread_of w' j = (if j \<in> set held \<union> set []
         then (thread_of w j)\<lparr>prepfin_hold := False\<rparr> else thread_of w j)"
      unfolding w' release_hold(2) by simp
    then show ?thesis using \<open>x \<noteq> None\<close> True
      by (intro disjI2 conjI exI [of _ "[]"] exI [of _ i] exI [of _ ns]) simp_all
  next
    case False
    let ?w = "upd_thread i ((thread_of w i)\<lparr>prepfin_hold := True\<rparr>) w"
    have "on_thread i (thread_set_prepfin_hold True) w = ok ?w"
      by (rule on_thread_ok) (simp add: thread_set_prepfin_hold_def False)
    then have "hold_loop True (held @ [i]) ns ?w = (w', x)" using Cons.prems by (simp add: ok_def)
    from Cons.IH [OF this] show ?thesis
    proof (elim disjE exE conjE)
      assume "x = None" "\<forall>i \<in> set ns. \<not> finalize_prepared (thread_of ?w i)"
        "\<forall>j. thread_of w' j =
          (if j \<in> set ns then (thread_of ?w j)\<lparr>prepfin_hold := True\<rparr> else thread_of ?w j)"
      then show ?thesis using False by (intro disjI1) (auto split: if_splits)
    next
      fix as k bs
      assume *: "x \<noteq> None" "ns = as @ k # bs" "finalize_prepared (thread_of ?w k)"
        "\<forall>j \<in> set as. \<not> finalize_prepared (thread_of ?w j)"
        "\<forall>j. thread_of w' j = (if j \<in> set (held @ [i]) \<union> set as
           then (thread_of ?w j)\<lparr>prepfin_hold := False\<rparr> else thread_of ?w j)"
      have "finalize_prepared (thread_of w k)" using *(3) False by (auto split: if_splits)
      moreover have "\<forall>j \<in> set (i # as). \<not> finalize_prepared (thread_of w j)"
        using *(4) False by (auto split: if_splits)
      moreover have "\<forall>j. thread_of w' j = (if j \<in> set held \<union> set (i # as)
           then (thread_of w j)\<lparr>prepfin_hold := False\<rparr> else thread_of w j)"
        using *(5) by auto
      ultimately show ?thesis using *(1,2) by (intro disjI2) (metis append_Cons)
    qed
  qed
qed (auto simp: ok_def)

text \<open>
  Holding the finalization of a list is all or nothing: either no thread was
  prepared yet and all are held now; or an exception is thrown, the threads in front of
  the first prepared one are released again, and nothing else changes.
\<close>

theorem hold_all_or_nothing:
  "case set_prepfin_hold_list True ns w of (w', x) \<Rightarrow>
    (x = None \<and> (\<forall>i \<in> set ns. \<not> finalize_prepared (thread_of w i)) \<and>
      (\<forall>j. thread_of w' j =
        (if j \<in> set ns then (thread_of w j)\<lparr>prepfin_hold := True\<rparr> else thread_of w j))) \<or>
    (x \<noteq> None \<and> (\<exists>as i bs. ns = as @ i # bs \<and> finalize_prepared (thread_of w i) \<and>
      (\<forall>j \<in> set as. \<not> finalize_prepared (thread_of w j)) \<and>
      (\<forall>j. thread_of w' j = (if j \<in> set as
         then (thread_of w j)\<lparr>prepfin_hold := False\<rparr> else thread_of w j))))"
  using hold_loop_result [of "[]" ns w]
  by (cases "set_prepfin_hold_list True ns w") (simp add: set_prepfin_hold_list_def)

section \<open>Examples\<close>

text \<open>Three threads, the second of which fails in \<open>init()\<close> and refuses finalization.\<close>

definition demo_hooks :: hooks where
  "demo_hooks = \<lparr>h_initializer = (\<lambda>i l. None),
     h_init = (\<lambda>i l. if i = 2 then Some (RuntimeError ''no device'') else None),
     h_fin_prepare = (\<lambda>i l. Inr True), h_prepare_user = (\<lambda>i l. Inr (i \<noteq> 2)),
     h_finalizer = (\<lambda>i l. None), h_finalize = (\<lambda>i l. None), h_create = (\<lambda>i l. True),
     h_cancel = (\<lambda>i l. True), h_keep = (\<lambda>i l. True)\<rparr>"

definition demo_started :: tworld where
  "demo_started = \<lparr>thread_of = (\<lambda>i. (thread_new False ''worker'' OPMODE_WAITFORWAKEUP)\<lparr>started := True\<rparr>),
     log = []\<rparr>"

lemma demo_hooks_sel [simp]:
  "h_initializer demo_hooks i l = None" "h_finalizer demo_hooks i l = None"
  "h_init demo_hooks i l = (if i = 2 then Some (RuntimeError ''no device'') else None)"
  "h_fin_prepare demo_hooks i l = Inr True" "h_prepare_user demo_hooks i l = Inr (i \<noteq> 2)"
  "h_finalize demo_hooks i l = None"
  by (simp_all add: demo_hooks_def)


theorem prepare_finalize_asks_all_witness:
  "\<exists>w' evs. prepare_finalize_list demo_hooks [1, 2] demo_started = Some (w', Inr False) \<and>
    log w' = log demo_started @ evs \<and> filter is_fin_prepare evs = [FinPrepare 2, FinPrepare 1]"
proof -
  obtain w' where w': "prepare_finalize_list demo_hooks [1, 2] demo_started = Some (w', Inr False)"
    by (simp add: prepare_finalize_list_def prepare_one_def prepare_thread_def Let_def
        demo_started_def thread_new_def thread_prepare_finalize_def)
  show ?thesis using prepare_finalize_asks_all [OF _ _ w'] w' by simp
qed

theorem hold_all_or_nothing_witness:
  "prepfin_hold (thread_of (fst (set_prepfin_hold_list True [1, 2] demo_started)) 1) \<and>
   \<not> prepfin_hold (thread_of (fst (set_prepfin_hold_list True [1, 2] demo_started)) 3)"
  using hold_all_or_nothing [of "[1, 2]" demo_started]
  by (auto simp: demo_started_def thread_new_def split: prod.splits)

end
