(* ===== verification/Thread_Manager.thy ===== *)
theory Thread_Manager imports Thread_Life
begin

text \<open>
  \<open>ThreadManager\<close> of \<open>src/libs/baseapp/thread_manager.cpp\<close>: adding and removing
  threads and lists of threads. The state is the manager, the world of the threads and
  the list that is passed in, with the balance of its \<open>lock()\<close> and \<open>unlock()\<close> calls:
  it is 0 when every lock was released exactly once. An operation that has to wait for
  a hold is \<open>None\<close>.
\<close>

section \<open>State\<close>

record tmanager =
  has_initializer :: bool
  has_finalizer :: bool
  untimed_threads :: tlist

record mstate =
  manager :: tmanager
  world :: tworld
  given :: tlist
  locks :: int

definition tmanager_new :: "tworld \<Rightarrow> tmanager" where
  "tmanager_new w =
     \<lparr>has_initializer = False, has_finalizer = False, untimed_threads = tlist_new w False []\<rparr>"

definition set_inifin :: "bool \<Rightarrow> bool \<Rightarrow> tmanager \<Rightarrow> tmanager" where
  "set_inifin i f m = m\<lparr>has_initializer := i, has_finalizer := f\<rparr>"

definition internal_add_thread :: "nat \<Rightarrow> mstate \<Rightarrow> mstate mutation" where
  "internal_add_thread i s =
     (let (u, x) = push_back_locked i (world s) (untimed_threads (manager s))
      in (s\<lparr>manager := (manager s)\<lparr>untimed_threads := u\<rparr>\<rparr>, x))"

definition internal_remove_thread :: "nat \<Rightarrow> mstate \<Rightarrow> mstate mutation" where
  "internal_remove_thread i s =
     (let (u, x) = remove_locked i (world s) (untimed_threads (manager s))
      in (s\<lparr>manager := (manager s)\<lparr>untimed_threads := u\<rparr>\<rparr>, x))"

fun internal_each :: "(nat \<Rightarrow> mstate \<Rightarrow> mstate mutation) \<Rightarrow> nat list \<Rightarrow> mstate \<Rightarrow> mstate mutation" where
  "internal_each f [] s = ok s"
| "internal_each f (i # ns) s = andThen (f i s) (internal_each f ns)"

definition tl_lock :: "mstate \<Rightarrow> mstate" where
  "tl_lock s = s\<lparr>locks := locks s + 1\<rparr>"

definition tl_unlock :: "mstate \<Rightarrow> mstate" where
  "tl_unlock s = s\<lparr>locks := locks s - 1\<rparr>"

section \<open>Lists\<close>

definition inifin_set :: "tmanager \<Rightarrow> bool" where
  "inifin_set m \<longleftrightarrow> has_initializer m \<and> has_finalizer m"

definition inifin_missing :: exn where
  "inifin_missing = NullPointerException ''ThreadManager: initializer/finalizer not set''"

definition add_list :: "hooks \<Rightarrow> mstate \<Rightarrow> mstate mutation" where
  "add_list h s =
     (if \<not> inifin_set (manager s) then throwing inifin_missing s
      else if sealed (given s) then
        throwing (FawkesException (''Not accepting new threads from list that is not fresh, list '' @
          tl_name (given s) @ '' already sealed'')) s
      else
        (let s1 = tl_lock s; ns = tl_threads (given s) in
         case init_list h ns (world s1) of
           (w1, Some e) \<Rightarrow>
             (let s2 = s1\<lparr>world := w1\<rparr> in throwing e (if is_fawkes e then tl_unlock s2 else s2))
         | (w1, None) \<Rightarrow>
             (let s2 = s1\<lparr>world := w1, given := seal (given s1)\<rparr> in
              case start_list h ns (world s2) of
                (w2, Some e) \<Rightarrow> throwing e (s2\<lparr>world := w2\<rparr>)
              | (w2, None) \<Rightarrow>
                  andThen (internal_each internal_add_thread ns (s2\<lparr>world := w2\<rparr>))
                    (\<lambda>s3. ok (tl_unlock s3)))))"

text \<open>
  When the threads refuse, the exception is thrown inside the \<open>try\<close> block whose handler
  unlocks again.
\<close>

definition remove_list :: "hooks \<Rightarrow> mstate \<Rightarrow> mstate mutation option" where
  "remove_list h s =
     (if \<not> inifin_set (manager s) then Some (throwing inifin_missing s)
      else if \<not> sealed (given s) then
        Some (throwing (ThreadListNotSealedException (''(ThreadManager) Cannot remove unsealed thread '' @
          ''list. Not accepting unsealed list '' @ tl_name (given s) @ '' for removal'')) s)
      else
        (let s1 = tl_lock s; ns = tl_threads (given s) in
         case prepare_finalize_list h ns (world s1) of
           None \<Rightarrow> None
         | Some (w1, Inl e) \<Rightarrow>
             (let s2 = s1\<lparr>world := w1\<rparr> in
              Some (if is_fawkes e then throwing CannotFinalizeThreadException (tl_unlock s2)
                    else throwing e s2))
         | Some (w1, Inr False) \<Rightarrow>
             (case cancel_finalize_list ns w1 of
                (w2, None) \<Rightarrow>
                  Some (throwing CannotFinalizeThreadException
                    (tl_unlock (tl_unlock (s1\<lparr>world := w2\<rparr>))))
              | (w2, Some _) \<Rightarrow>
                  Some (throwing CannotFinalizeThreadException (tl_unlock (s1\<lparr>world := w2\<rparr>))))
         | Some (w1, Inr True) \<Rightarrow>
             (case finalize_list h ns (stop_list h ns w1) of
                (w2, Some e) \<Rightarrow>
                  (let s2 = s1\<lparr>world := w2\<rparr> in
                   Some (throwing e (if is_fawkes e then tl_unlock s2 else s2)))
              | (w2, None) \<Rightarrow>
                  Some (andThen (internal_each internal_remove_thread ns (s1\<lparr>world := w2\<rparr>))
                    (\<lambda>s3. ok (tl_unlock s3))))))"

text \<open>\<open>force_stop\<close> swallows the exceptions that \<open>force_remove\<close> would report.\<close>

definition force_remove_list :: "hooks \<Rightarrow> mstate \<Rightarrow> mstate mutation option" where
  "force_remove_list h s =
     (if \<not> sealed (given s) then
        Some (throwing (ThreadListNotSealedException (''Not accepting unsealed list '' @
          tl_name (given s) @ '' for removal'')) s)
      else
        (let s1 = tl_lock s; ns = tl_threads (given s) in
         case force_stop h ns (world s1) of
           None \<Rightarrow> None
         | Some (w1, Some e) \<Rightarrow>
             Some (if is_fawkes e then
                     andThen (internal_each internal_remove_thread ns (s1\<lparr>world := w1\<rparr>))
                       (\<lambda>s2. throwing e (tl_unlock s2))
                   else throwing e (s1\<lparr>world := w1\<rparr>))
         | Some (w1, None) \<Rightarrow>
             Some (andThen (internal_each internal_remove_thread ns (s1\<lparr>world := w1\<rparr>))
               (\<lambda>s2. ok (tl_unlock s2)))))"

section \<open>Single threads\<close>

text \<open>A thread is \<open>None\<close> for a null pointer.\<close>

definition add_thread :: "hooks \<Rightarrow> nat option \<Rightarrow> mstate \<Rightarrow> mstate mutation" where
  "add_thread h t s =
     (case t of
        None \<Rightarrow> throwing (NullPointerException ''FawkesThreadMananger: cannot add NULL as thread'') s
      | Some i \<Rightarrow>
          if \<not> inifin_set (manager s) then throwing inifin_missing s
          else
            (let w = world s; w1 = logged (Initializer i) w in
             case h_initializer h i (log w) of
               Some e \<Rightarrow> throwing e (s\<lparr>world := w1\<rparr>)
             | None \<Rightarrow>
                 (let w2 = logged (Init i) w1 in
                  case h_init h i (log w1) of
                    Some e \<Rightarrow>
                      (let w3 = logged (Finalizer i) w2 in
                       case h_finalizer h i (log w2) of
                         Some e' \<Rightarrow> throwing e' (s\<lparr>world := w3\<rparr>)
                       | None \<Rightarrow> throwing CannotInitializeThreadException (s\<lparr>world := w3\<rparr>))
                  | None \<Rightarrow>
                      (case start_thread h i w2 of
                         (w3, Some e) \<Rightarrow> throwing e (s\<lparr>world := w3\<rparr>)
                       | (w3, None) \<Rightarrow> internal_add_thread i (s\<lparr>world := w3\<rparr>)))))"

definition cancel_finalize_of :: "nat \<Rightarrow> tworld \<Rightarrow> tworld mutation" where
  "cancel_finalize_of i w = on_thread i thread_cancel_finalize (logged (CancelFinalize i) w)"

text \<open>The end of both removals: cancel, join, finalizer, \<open>finalize()\<close>, the list.\<close>

definition drop_thread :: "hooks \<Rightarrow> nat \<Rightarrow> mstate \<Rightarrow> mstate mutation" where
  "drop_thread h i s =
     (let w1 = join_thread i (cancel_thread h i (world s));
          w2 = (if has_finalizer (manager s) then logged (Finalizer i) w1 else w1);
          fe = (if has_finalizer (manager s) then h_finalizer h i (log w1) else None) in
      case fe of
        Some e \<Rightarrow> throwing e (s\<lparr>world := w2\<rparr>)
      | None \<Rightarrow>
          (let w3 = logged (Finalize i) w2 in
           case h_finalize h i (log w2) of
             Some e \<Rightarrow> throwing e (s\<lparr>world := w3\<rparr>)
           | None \<Rightarrow> internal_remove_thread i (s\<lparr>world := w3\<rparr>)))"

definition remove_thread :: "hooks \<Rightarrow> nat option \<Rightarrow> mstate \<Rightarrow> mstate mutation option" where
  "remove_thread h t s =
     (case t of
        None \<Rightarrow> Some (ok s)
      | Some i \<Rightarrow>
          if \<not> inifin_set (manager s) then Some (throwing inifin_missing s)
          else
            (case prepare_thread h i (world s) of
               None \<Rightarrow> None
             | Some (w1, Inr True) \<Rightarrow> Some (drop_thread h i (s\<lparr>world := w1\<rparr>))
             | Some (w1, Inr False) \<Rightarrow>
                 (case cancel_finalize_of i w1 of
                    (w2, _) \<Rightarrow>
                      (case cancel_finalize_of i w2 of
                         (w3, Some e) \<Rightarrow> Some (throwing e (s\<lparr>world := w3\<rparr>))
                       | (w3, None) \<Rightarrow> Some (throwing CannotFinalizeThreadException (s\<lparr>world := w3\<rparr>))))
             | Some (w1, Inl e) \<Rightarrow>
                 if e = CannotFinalizeThreadException then
                   (case cancel_finalize_of i w1 of
                      (w2, Some e') \<Rightarrow> Some (throwing e' (s\<lparr>world := w2\<rparr>))
                    | (w2, None) \<Rightarrow> Some (throwing e (s\<lparr>world := w2\<rparr>)))
                 else Some (throwing e (s\<lparr>world := w1\<rparr>))))"

definition force_remove_thread :: "hooks \<Rightarrow> nat \<Rightarrow> mstate \<Rightarrow> mstate mutation option" where
  "force_remove_thread h i s =
     (case prepare_thread h i (world s) of
        None \<Rightarrow> None
      | Some (w1, Inl e) \<Rightarrow>
          Some (if is_fawkes e then drop_thread h i (s\<lparr>world := w1\<rparr>)
                else throwing e (s\<lparr>world := w1\<rparr>))
      | Some (w1, Inr _) \<Rightarrow> Some (drop_thread h i (s\<lparr>world := w1\<rparr>)))"

definition tmanager_delete :: "hooks \<Rightarrow> mstate \<Rightarrow> mstate mutation option" where
  "tmanager_delete h s =
     (case force_stop h (tl_threads (untimed_threads (manager s))) (world s) of
        None \<Rightarrow> None
      | Some (w1, Some e) \<Rightarrow>
          Some (if is_fawkes e then ok (s\<lparr>world := w1\<rparr>) else throwing e (s\<lparr>world := w1\<rparr>))
      | Some (w1, None) \<Rightarrow> Some (ok (s\<lparr>world := w1\<rparr>)))"

section \<open>Adding a list\<close>

definition managed :: "mstate \<Rightarrow> nat list" where
  "managed s = tl_threads (untimed_threads (manager s))"

definition open_manager :: "mstate \<Rightarrow> bool" where
  "open_manager s \<longleftrightarrow> \<not> sealed (untimed_threads (manager s))"

lemma change_list_open:
  "\<not> sealed ts \<Longrightarrow> snd (change_list what f w ts) = None \<and>
     tl_threads (fst (change_list what f w ts)) = f (tl_threads ts) \<and>
     \<not> sealed (fst (change_list what f w ts))"
  by (simp add: change_list_def update_barrier_def Let_def)

text \<open>Recording a member does to the managed threads what \<open>g\<close> says, and nothing else.\<close>

definition records :: "(nat \<Rightarrow> mstate \<Rightarrow> mstate mutation) \<Rightarrow> (nat \<Rightarrow> nat list \<Rightarrow> nat list) \<Rightarrow> bool" where
  "records f g \<longleftrightarrow> (\<forall>i s. open_manager s \<longrightarrow>
      snd (f i s) = None \<and> managed (fst (f i s)) = g i (managed s) \<and> open_manager (fst (f i s)) \<and>
      world (fst (f i s)) = world s \<and> given (fst (f i s)) = given s \<and> locks (fst (f i s)) = locks s)"

lemma internal_each_result:
  assumes "records f g"
  shows "open_manager s \<Longrightarrow>
    snd (internal_each f ns s) = None \<and> managed (fst (internal_each f ns s)) = fold g ns (managed s) \<and>
    open_manager (fst (internal_each f ns s)) \<and> world (fst (internal_each f ns s)) = world s \<and>
    given (fst (internal_each f ns s)) = given s \<and> locks (fst (internal_each f ns s)) = locks s"
proof (induction ns arbitrary: s)
  case (Cons i ns)
  have "snd (f i s) = None" using assms Cons.prems by (simp add: records_def)
  then show ?case using assms Cons.prems Cons.IH [of "fst (f i s)"]
    by (simp add: andThen_fst records_def)
qed simp

lemma internal_add_records: "records internal_add_thread (\<lambda>i is. is @ [i])"
  unfolding records_def
proof (intro allI impI)
  fix i s assume "open_manager s"
  then show "snd (internal_add_thread i s) = None \<and>
      managed (fst (internal_add_thread i s)) = managed s @ [i] \<and>
      open_manager (fst (internal_add_thread i s)) \<and> world (fst (internal_add_thread i s)) = world s \<and>
      given (fst (internal_add_thread i s)) = given s \<and> locks (fst (internal_add_thread i s)) = locks s"
    using change_list_open [of "untimed_threads (manager s)"]
    by (simp add: internal_add_thread_def push_back_locked_def open_manager_def managed_def
        split: prod.splits) (metis fst_conv snd_conv)
qed

lemma internal_remove_records: "records internal_remove_thread removeAll"
  unfolding records_def
proof (intro allI impI)
  fix i s assume "open_manager s"
  then show "snd (internal_remove_thread i s) = None \<and>
      managed (fst (internal_remove_thread i s)) = removeAll i (managed s) \<and>
      open_manager (fst (internal_remove_thread i s)) \<and>
      world (fst (internal_remove_thread i s)) = world s \<and>
      given (fst (internal_remove_thread i s)) = given s \<and>
      locks (fst (internal_remove_thread i s)) = locks s"
    using change_list_open [of "untimed_threads (manager s)"]
    by (simp add: internal_remove_thread_def remove_locked_def open_manager_def managed_def
        split: prod.splits) (metis fst_conv snd_conv)
qed

lemmas internal_add_all = internal_each_result [OF internal_add_records]
  and internal_remove_all = internal_each_result [OF internal_remove_records]

lemma fold_snoc: "fold (\<lambda>i is. is @ [i]) ns ms = ms @ ns"
  by (induction ns arbitrary: ms) simp_all

lemma fold_removeAll: "fold removeAll ns ms = filter (\<lambda>i. i \<notin> set ns) ms"
  by (induction ns arbitrary: ms) (auto simp: removeAll_filter_not_eq intro: filter_cong)

lemma start_thread_result:
  "start_thread h i w = (w', x) \<Longrightarrow>
    log w' = log w @ [Start i] \<and> (x = None \<longrightarrow> \<not> started (thread_of w i)) \<and>
    (\<forall>j. started (thread_of w j) \<longrightarrow> started (thread_of w' j)) \<and>
    (x = None \<longrightarrow> started (thread_of w' i))"
  by (auto simp: start_thread_def on_thread_def thread_start_def ok_def throwing_def Let_def
      split: if_splits)

lemma start_list_result:
  "start_list h ns w = (w', None) \<Longrightarrow>
    log w' = log w @ map Start ns \<and> (\<forall>i \<in> set ns. \<not> started (thread_of w i) \<and> started (thread_of w' i)) \<and>
    (\<forall>j. started (thread_of w j) \<longrightarrow> started (thread_of w' j)) \<and> distinct ns"
proof (induction ns arbitrary: w)
  case (Cons i ns)
  obtain w1 where one: "start_thread h i w = (w1, None)" and rest: "start_list h ns w1 = (w', None)"
    using Cons.prems
    by (cases "start_thread h i w") (auto simp: start_list_def andThen_def split: option.splits)
  then show ?case using start_thread_result [OF one] Cons.IH [OF rest] by auto
qed (simp add: start_list_def ok_def)

lemma init_loop_all:
  "init_loop h every ns inited w = (w', AllInit k) \<Longrightarrow>
    log w' = log w @ init_events ns \<and> thread_of w' = thread_of w"
proof (induction ns arbitrary: inited w)
  case (Cons i ns)
  have "h_initializer h i (log w) = None" "h_init h i (log w @ [Initializer i]) = None"
    and "init_loop h every ns (inited @ [i]) (logged (Init i) (logged (Initializer i) w)) = (w', AllInit k)"
    using Cons.prems by (auto simp: Let_def split: option.splits if_splits)
  then show ?case using Cons.IH by fastforce
qed simp

lemma init_list_success:
  "init_list h ns w = (w', None) \<Longrightarrow> log w' = log w @ init_events ns \<and> thread_of w' = thread_of w"
  using init_loop_all [of h ns ns "[]" w]
  by (auto simp: init_list_def ok_def throwing_def andThen_def
      split: prod.splits init_outcome.splits option.splits)

lemma lock_sel [simp]:
  "manager (tl_lock s) = manager s" "world (tl_lock s) = world s" "given (tl_lock s) = given s"
  "locks (tl_lock s) = locks s + 1"
  "manager (tl_unlock s) = manager s" "world (tl_unlock s) = world s" "given (tl_unlock s) = given s"
  "locks (tl_unlock s) = locks s - 1"
  "managed (tl_lock s) = managed s" "managed (tl_unlock s) = managed s"
  by (simp_all add: tl_lock_def tl_unlock_def managed_def)

lemma managed_update [simp]:
  "managed (s\<lparr>world := w\<rparr>) = managed s" "managed (s\<lparr>given := g\<rparr>) = managed s"
  "open_manager (s\<lparr>world := w\<rparr>) = open_manager s" "open_manager (s\<lparr>given := g\<rparr>) = open_manager s"
  "open_manager (tl_lock s) = open_manager s"
  by (simp_all add: managed_def open_manager_def tl_lock_def)

text \<open>
  Adding a fresh list. On success every thread was initialised, in order, then
  started; the manager knows exactly the threads of before and those of the list, the
  list is sealed and unlocked. When it throws, the manager is unchanged; the list is as
  before, and unlocked, when initialising failed by an exception of the library; but
  when starting a thread failed, the list stays sealed and locked.
\<close>

theorem add_list_outcomes:
  assumes "open_manager s" and "inifin_set (manager s)" and "\<not> sealed (given s)"
    and "add_list h s = (s', x)"
  shows "(x = None \<longrightarrow>
      managed s' = managed s @ tl_threads (given s) \<and> given s' = seal (given s) \<and>
      locks s' = locks s \<and> distinct (tl_threads (given s)) \<and>
      log (world s') = log (world s) @ init_events (tl_threads (given s)) @
        map Start (tl_threads (given s)) \<and>
      (\<forall>i \<in> set (tl_threads (given s)). started (thread_of (world s') i))) \<and>
    (x \<noteq> None \<longrightarrow> managed s' = managed s \<and>
      (if snd (init_list h (tl_threads (given s)) (world s)) = None
       then given s' = seal (given s) \<and> locks s' = locks s + 1
       else given s' = given s \<and> locks s' = locks s + (if is_fawkes (the x) then 0 else 1)))"
proof -
  let ?ns = "tl_threads (given s)"
  obtain w1 y where init: "init_list h ?ns (world s) = (w1, y)" by fastforce
  show ?thesis
  proof (cases y)
    case (Some e)
    then show ?thesis using assms init
      by (auto simp: add_list_def Let_def throwing_def)
  next
    case None
    note i = init_list_success [OF init [unfolded None]]
    obtain w2 z where start: "start_list h ?ns w1 = (w2, z)" by fastforce
    let ?s2 = "(tl_lock s)\<lparr>world := w1, given := seal (given s)\<rparr>\<lparr>world := w2\<rparr>"
    show ?thesis
    proof (cases z)
      case (Some e)
      then have "(s', x) = throwing e ?s2"
        using assms init None start by (simp add: add_list_def Let_def)
      then show ?thesis using init None by (simp add: throwing_def)
    next
      case None': None
      have open2: "open_manager ?s2" using assms(1) by simp
      have "(s', x) = andThen (internal_each internal_add_thread ?ns ?s2) (\<lambda>s3. ok (tl_unlock s3))"
        using assms init None None' start by (simp add: add_list_def Let_def)
      also have "\<dots> = ok (tl_unlock (fst (internal_each internal_add_thread ?ns ?s2)))"
        using internal_add_all [OF open2, of ?ns] by (simp add: andThen_fst)
      finally show ?thesis
        using internal_add_all [OF open2, of ?ns] start_list_result [OF start [unfolded None']] i
        by (simp add: ok_def fold_snoc)
    qed
  qed
qed

lemma cancel_started:
  "\<forall>i \<in> set ns. started (thread_of w i) \<Longrightarrow> snd (cancel_finalize_list ns w) = None"
proof -
  have "\<forall>i \<in> set ns. started (thread_of w i) \<Longrightarrow>
      snd (each_thread (\<lambda>i w. on_thread i thread_cancel_finalize (logged (CancelFinalize i) w)) ns w) = None"
    for ns
  proof (induction ns arbitrary: w)
    case (Cons i ns)
    have *: "on_thread i thread_cancel_finalize (logged (CancelFinalize i) w) =
        ok (upd_thread i ((thread_of w i)\<lparr>finalize_prepared := False\<rparr>) (logged (CancelFinalize i) w))"
      using Cons.prems on_thread_ok [of thread_cancel_finalize "logged (CancelFinalize i) w" i]
      by (simp add: thread_cancel_finalize_def)
    show ?case using Cons.prems by (simp add: * Cons.IH)
  qed simp
  from this [of "rev ns"] show "\<forall>i \<in> set ns. started (thread_of w i) \<Longrightarrow> ?thesis"
    by (simp add: cancel_finalize_list_def)
qed

text \<open>
  Removing a list. On success the manager knows exactly the other threads and the
  list is unlocked; when it throws, the manager is unchanged. When the threads refuse,
  and all of them were started, the list mutex is unlocked twice.
\<close>

theorem remove_list_outcomes:
  assumes "open_manager s" and "inifin_set (manager s)" and "sealed (given s)"
    and "remove_list h s = Some (s', x)"
  shows "given s' = given s \<and>
    (x = None \<longrightarrow> managed s' = filter (\<lambda>i. i \<notin> set (tl_threads (given s))) (managed s) \<and>
       locks s' = locks s) \<and>
    (x \<noteq> None \<longrightarrow> managed s' = managed s) \<and>
    (\<forall>w1. prepare_finalize_list h (tl_threads (given s)) (world s) = Some (w1, Inr False) \<and>
       (\<forall>i \<in> set (tl_threads (given s)). started (thread_of w1 i)) \<longrightarrow>
       x = Some CannotFinalizeThreadException \<and> locks s' = locks s - 1)"
proof -
  let ?ns = "tl_threads (given s)"
  obtain w1 r where prep: "prepare_finalize_list h ?ns (world s) = Some (w1, r)"
    using assms by (auto simp: remove_list_def Let_def split: option.splits)
  consider (throws) e where "r = Inl e" | (refused) "r = Inr False" | (agreed) "r = Inr True"
    by (cases r) auto
  then show ?thesis
  proof cases
    case throws
    then have "(s', x) = (if is_fawkes e
        then throwing CannotFinalizeThreadException (tl_unlock ((tl_lock s)\<lparr>world := w1\<rparr>))
        else throwing e ((tl_lock s)\<lparr>world := w1\<rparr>))"
      using assms prep by (simp add: remove_list_def Let_def)
    then show ?thesis using prep throws by (simp add: throwing_def split: if_splits)
  next
    case refused
    obtain w2 y where cancel: "cancel_finalize_list ?ns w1 = (w2, y)" by fastforce
    have r: "(s', x) = throwing CannotFinalizeThreadException
        (if y = None then tl_unlock (tl_unlock ((tl_lock s)\<lparr>world := w2\<rparr>))
         else tl_unlock ((tl_lock s)\<lparr>world := w2\<rparr>))"
      using assms prep refused cancel by (cases y) (simp_all add: remove_list_def Let_def)
    have "\<forall>i \<in> set ?ns. started (thread_of w1 i) \<Longrightarrow> y = None"
      using cancel_started [of ?ns w1] cancel by simp
    then show ?thesis using r prep by (simp add: throwing_def split: if_splits)
  next
    case agreed
    obtain w2 y where fin: "finalize_list h ?ns (stop_list h ?ns w1) = (w2, y)" by fastforce
    let ?s2 = "(tl_lock s)\<lparr>world := w2\<rparr>"
    have open2: "open_manager ?s2" using assms(1) by simp
    show ?thesis
    proof (cases y)
      case (Some e)
      then have "(s', x) = throwing e (if is_fawkes e then tl_unlock ?s2 else ?s2)"
        using assms prep agreed fin by (simp add: remove_list_def Let_def)
      then show ?thesis using prep agreed by (simp add: throwing_def split: if_splits)
    next
      case None
      then have "(s', x) = andThen (internal_each internal_remove_thread ?ns ?s2) (\<lambda>s3. ok (tl_unlock s3))"
        using assms prep agreed fin by (simp add: remove_list_def Let_def)
      also have "\<dots> = ok (tl_unlock (fst (internal_each internal_remove_thread ?ns ?s2)))"
        using internal_remove_all [OF open2, of ?ns] by (simp add: andThen_fst)
      finally show ?thesis
        using internal_remove_all [OF open2, of ?ns] prep agreed by (simp add: ok_def fold_removeAll)
    qed
  qed
qed

section \<open>Examples\<close>

definition demo_state :: mstate where
  "demo_state = \<lparr>manager = set_inifin True True (tmanager_new demo_world), world = demo_world,
     given = fst (push_back 1 demo_world (tlist_new demo_world False ''fresh'')), locks = 0\<rparr>"

lemma demo_state_sel [simp]:
  "open_manager demo_state" "inifin_set (manager demo_state)" "\<not> sealed (given demo_state)"
  "tl_threads (given demo_state) = [1]" "managed demo_state = []" "locks demo_state = 0"
  "world demo_state = demo_world"
  by (simp_all add: demo_state_def open_manager_def inifin_set_def set_inifin_def tmanager_new_def
      tlist_new_def push_back_def change_list_def managed_def)

lemma demo_add: "snd (add_list demo_hooks demo_state) = None"
proof -
  have "init_list demo_hooks [1] demo_world = ok (logged (Init 1) (logged (Initializer 1) demo_world))"
    by (simp add: init_list_def Let_def)
  moreover have "\<exists>w. start_list demo_hooks [1] (logged (Init 1) (logged (Initializer 1) demo_world)) = ok w"
    by (simp add: start_list_def start_thread_def on_thread_def thread_start_def thread_new_def
        demo_hooks_def ok_def andThen_def Let_def)
  moreover have "snd (internal_add_thread i s) = None" if "open_manager s" for i s
    using internal_add_records that by (simp add: records_def)
  ultimately show ?thesis
    by (auto simp: add_list_def Let_def ok_def andThen_None)
qed

theorem add_list_outcomes_witness:
  "managed (fst (add_list demo_hooks demo_state)) = [1] \<and>
   locks (fst (add_list demo_hooks demo_state)) = 0"
proof -
  have "add_list demo_hooks demo_state = (fst (add_list demo_hooks demo_state), None)"
    using demo_add by (metis prod.collapse)
  from add_list_outcomes [OF _ _ _ this] show ?thesis by simp
qed

text \<open>A sealed list whose only thread, number 2, was started and refuses.\<close>

definition demo_refusing :: mstate where
  "demo_refusing = demo_state\<lparr>world := demo_started,
     given := seal (fst (push_back 2 demo_world (tlist_new demo_world False ''stubborn'')))\<rparr>"

theorem remove_list_outcomes_witness:
  "\<exists>s'. remove_list demo_hooks demo_refusing = Some (s', Some CannotFinalizeThreadException) \<and>
     locks s' = - 1"
proof -
  have sel: "open_manager demo_refusing" "inifin_set (manager demo_refusing)"
      "sealed (given demo_refusing)" "tl_threads (given demo_refusing) = [2]" "locks demo_refusing = 0"
      "world demo_refusing = demo_started"
    by (simp_all add: demo_refusing_def seal_def tlist_new_def push_back_def change_list_def)
  obtain w1 where w1: "prepare_finalize_list demo_hooks [2] demo_started = Some (w1, Inr False)"
      "started (thread_of w1 2)"
    by (simp add: prepare_finalize_list_def prepare_one_def prepare_thread_def Let_def
        demo_started_def thread_new_def thread_prepare_finalize_def)
  obtain s' x where r: "remove_list demo_hooks demo_refusing = Some (s', x)"
    using w1 sel by (cases "cancel_finalize_list [2] w1"; cases "snd (cancel_finalize_list [2] w1)")
      (auto simp: remove_list_def Let_def throwing_def)
  show ?thesis using remove_list_outcomes [OF sel(1-3) r] r w1 sel by simp
qed

end
