(* ===== verification/Pb_Register.thy ===== *)
theory Pb_Register imports Strings_Util
begin

unbundle bit_operations_syntax

text \<open>
  Framing and the register of message types: \<open>frame_header.h\<close>, \<open>queue_entry.h\<close> and
  \<open>MessageRegister\<close> (\<open>message_register.cpp\<close>, \<open>.h\<close>) of \<open>src/libs/protobuf_comm\<close>. A
  header is a record of numbers; \<open>htons\<close> and \<open>htonl\<close> appear where it becomes bytes. The
  protobuf library is a parameter; a prototype message is its descriptor.
\<close>

section \<open>Headers\<close>

type_synonym byte = "8 word"

definition htons :: "16 word \<Rightarrow> byte list" where
  "htons w = [ucast (drop_bit 8 w), ucast w]"

definition htonl :: "32 word \<Rightarrow> byte list" where
  "htonl w = [ucast (drop_bit 24 w), ucast (drop_bit 16 w), ucast (drop_bit 8 w), ucast w]"

definition ntohs :: "byte list \<Rightarrow> 16 word" where
  "ntohs b = push_bit 8 (ucast (b ! 0)) OR ucast (b ! 1)"

definition ntohl :: "byte list \<Rightarrow> 32 word" where
  "ntohl b = push_bit 24 (ucast (b ! 0)) OR push_bit 16 (ucast (b ! 1)) OR
     push_bit 8 (ucast (b ! 2)) OR ucast (b ! 3)"

definition PB_ENCRYPTION_NONE :: byte where "PB_ENCRYPTION_NONE = 0x00"
definition PB_ENCRYPTION_AES_128_ECB :: byte where "PB_ENCRYPTION_AES_128_ECB = 0x01"
definition PB_ENCRYPTION_AES_128_CBC :: byte where "PB_ENCRYPTION_AES_128_CBC = 0x02"
definition PB_ENCRYPTION_AES_256_ECB :: byte where "PB_ENCRYPTION_AES_256_ECB = 0x03"
definition PB_ENCRYPTION_AES_256_CBC :: byte where "PB_ENCRYPTION_AES_256_CBC = 0x04"

datatype frame_version = PB_FRAME_V1 | PB_FRAME_V2

fun version_number :: "frame_version \<Rightarrow> byte" where
  "version_number PB_FRAME_V1 = 1"
| "version_number PB_FRAME_V2 = 2"

record frame_header =
  header_version :: byte
  cipher :: byte
  reserved_2 :: byte
  reserved_3 :: byte
  payload_size :: "32 word"

record message_header =
  component_id :: "16 word"
  msg_type :: "16 word"

record frame_header_v1 =
  v1_component_id :: "16 word"
  v1_msg_type :: "16 word"
  v1_payload_size :: "32 word"

definition sizeof_frame_header :: nat where "sizeof_frame_header = 8"
definition sizeof_message_header :: nat where "sizeof_message_header = 4"
definition sizeof_frame_header_v1 :: nat where "sizeof_frame_header_v1 = 8"

lemmas header_sizes = sizeof_frame_header_def sizeof_message_header_def sizeof_frame_header_v1_def

definition frame_bytes :: "frame_header \<Rightarrow> byte list" where
  "frame_bytes h = [header_version h, cipher h, reserved_2 h, reserved_3 h] @ htonl (payload_size h)"

definition bytes_frame :: "byte list \<Rightarrow> frame_header" where
  "bytes_frame b = \<lparr>header_version = b ! 0, cipher = b ! 1, reserved_2 = b ! 2, reserved_3 = b ! 3,
     payload_size = ntohl (drop 4 b)\<rparr>"

definition message_bytes :: "message_header \<Rightarrow> byte list" where
  "message_bytes h = htons (component_id h) @ htons (msg_type h)"

definition bytes_message :: "byte list \<Rightarrow> message_header" where
  "bytes_message b = \<lparr>component_id = ntohs b, msg_type = ntohs (drop 2 b)\<rparr>"

definition v1_bytes :: "frame_header_v1 \<Rightarrow> byte list" where
  "v1_bytes h = htons (v1_component_id h) @ htons (v1_msg_type h) @ htonl (v1_payload_size h)"

definition bytes_v1 :: "byte list \<Rightarrow> frame_header_v1" where
  "bytes_v1 b = \<lparr>v1_component_id = ntohs b, v1_msg_type = ntohs (drop 2 b),
     v1_payload_size = ntohl (drop 4 b)\<rparr>"

lemma ntohs_cong: "b ! 0 = c ! 0 \<Longrightarrow> b ! 1 = c ! 1 \<Longrightarrow> ntohs b = ntohs c"
  by (simp add: ntohs_def)

lemma ntohs_htons: "ntohs (htons w) = w"
proof (rule bit_word_eqI)
  fix n assume "n < LENGTH(16)"
  then show "bit (ntohs (htons w)) n = bit w n"
    by (cases "n < 8") (auto simp: ntohs_def htons_def bit_simps)
qed

lemma ntohl_htonl: "ntohl (htonl w) = w"
proof (rule bit_word_eqI)
  fix n assume "n < LENGTH(32)"
  then show "bit (ntohl (htonl w)) n = bit w n"
    by (cases "n < 8"; cases "n < 16"; cases "n < 24") (auto simp: ntohl_def htonl_def bit_simps)
qed

lemma header_lengths [simp]:
  "length (htons w) = 2" "length (htonl v) = 4" "length (frame_bytes f) = 8"
  "length (message_bytes h) = 4" "length (v1_bytes o1) = 8"
  by (simp_all add: htons_def htonl_def frame_bytes_def message_bytes_def v1_bytes_def)

lemma ntoh_append [simp]:
  "ntohs (htons w @ bs) = w" "ntohl (htonl v @ bs) = v"
proof -
  have "ntohs (htons w @ bs) = ntohs (htons w)" by (simp add: ntohs_def htons_def)
  then show "ntohs (htons w @ bs) = w" by (simp add: ntohs_htons)
  have "ntohl (htonl v @ bs) = ntohl (htonl v)" by (simp add: ntohl_def htonl_def)
  then show "ntohl (htonl v @ bs) = v" by (simp add: ntohl_htonl)
qed

lemma header_roundtrips [simp]:
  "bytes_frame (frame_bytes f @ bs) = f"
  "bytes_message (message_bytes h @ bs) = h"
  "bytes_v1 (v1_bytes o1 @ bs) = o1"
  by (simp_all add: bytes_frame_def frame_bytes_def bytes_message_def message_bytes_def
      bytes_v1_def v1_bytes_def)

lemma header_roundtrips' [simp]:
  "bytes_frame (frame_bytes f) = f" "bytes_message (message_bytes h) = h" "bytes_v1 (v1_bytes o1) = o1"
  using header_roundtrips [where bs = "[]"] by simp_all

section \<open>The protobuf library\<close>

text \<open>
  A descriptor: the name of a message type and the values of its \<open>CompType\<close> enum, if it
  has one. The library: lookup in the pool of generated types and in the pool of the
  imported files, the descriptor of a message, serialisation and parsing.
\<close>

record mdesc =
  full_name :: string
  comp_type :: "(string \<times> int) list option"

record 'm pblib =
  generated_pool :: "string \<Rightarrow> mdesc option"
  importer_pool :: "string \<Rightarrow> mdesc option"
  desc_of :: "'m \<Rightarrow> mdesc"
  serialize_to :: "'m \<Rightarrow> byte list option"
  parse_as :: "mdesc \<Rightarrow> byte list \<Rightarrow> 'm option"

section \<open>The register\<close>

type_synonym mkey = "16 word \<times> 16 word"

record mregister =
  by_comp_type :: "mkey \<rightharpoonup> mdesc"
  by_typename :: "string \<rightharpoonup> mdesc"
  failed_to_load :: "(string \<times> string) list"

definition mregister_new :: mregister where
  "mregister_new = \<lparr>by_comp_type = Map.empty, by_typename = Map.empty, failed_to_load = []\<rparr>"

definition create_msg :: "'m pblib \<Rightarrow> string \<Rightarrow> mdesc option" where
  "create_msg lib nm =
     (case generated_pool lib nm of Some d \<Rightarrow> Some d | None \<Rightarrow> importer_pool lib nm)"

text \<open>The component and type numbers a descriptor declares, with the range checks.\<close>

definition key_from_desc :: "mdesc \<Rightarrow> mkey result" where
  "key_from_desc d =
     (case comp_type d of
        None \<Rightarrow> Inl (LogicError ''Message does not have CompType enum'')
      | Some values \<Rightarrow>
          (case (map_of values ''COMP_ID'', map_of values ''MSG_TYPE'') of
             (Some cid, Some mt) \<Rightarrow>
               if cid < 0 \<or> cid > 65535 then Inl (LogicError ''Message has invalid COMP_ID'')
               else if mt < 0 \<or> mt > 65535
               then Inl (LogicError ''Message has invalid MSG_TYPE'')
               else Inr (word_of_int cid, word_of_int mt)
           | _ \<Rightarrow> Inl (LogicError ''Message CompType enum hs no COMP_ID or MSG_TYPE value'')))"

definition key_text :: "mkey \<Rightarrow> string" where
  "key_text k = nat_digits (unat (fst k)) @ '':'' @ nat_digits (unat (snd k))"

definition add_type_with_key :: "mkey \<Rightarrow> mdesc \<Rightarrow> mregister \<Rightarrow> mregister mutation" where
  "add_type_with_key key d r =
     (if by_comp_type r key \<noteq> None then
        throwing (RuntimeError (''Message type '' @ key_text key @ '' already registered'')) r
      else ok (r\<lparr>by_comp_type := (by_comp_type r)(key \<mapsto> d),
                 by_typename := (by_typename r)(full_name d \<mapsto> d)\<rparr>))"

definition add_type :: "mdesc \<Rightarrow> mregister \<Rightarrow> mregister mutation" where
  "add_type d r =
     (case key_from_desc d of Inl e \<Rightarrow> throwing e r | Inr key \<Rightarrow> add_type_with_key key d r)"

definition add_message_type :: "'m pblib \<Rightarrow> string \<Rightarrow> mregister \<Rightarrow> mregister mutation" where
  "add_message_type lib nm r =
     (case create_msg lib nm of
        None \<Rightarrow> throwing (RuntimeError ''Unknown message type'') r
      | Some d \<Rightarrow> add_type d r)"

text \<open>
  The constructor with paths: the message types of the proto files in the order of the
  directories, \<open>None\<close> for a file that cannot be imported. Only \<open>std::logic_error\<close> is
  recorded as a failure; a \<open>std::runtime_error\<close> leaves the constructor.
\<close>

fun load_types :: "'m pblib \<Rightarrow> mdesc list \<Rightarrow> mregister \<Rightarrow> mregister mutation" where
  "load_types lib [] r = ok r"
| "load_types lib (d # ds) r =
     (if comp_type d = None then load_types lib ds r
      else case add_message_type lib (full_name d) r of
        (r1, None) \<Rightarrow> load_types lib ds r1
      | (r1, Some (LogicError what)) \<Rightarrow>
          load_types lib ds (r1\<lparr>failed_to_load := failed_to_load r1 @ [(full_name d, what)]\<rparr>)
      | (r1, Some e) \<Rightarrow> throwing e r1)"

fun load_files :: "'m pblib \<Rightarrow> mdesc list option list \<Rightarrow> mregister \<Rightarrow> mregister mutation" where
  "load_files lib [] r = ok r"
| "load_files lib (None # fs) r = throwing (UndefinedBehaviour ''Import() returned NULL'') r"
| "load_files lib (Some ds # fs) r = andThen (load_types lib ds r) (load_files lib fs)"

definition mregister_load :: "'m pblib \<Rightarrow> mdesc list option list \<Rightarrow> mregister mutation" where
  "mregister_load lib files = load_files lib files mregister_new"

definition remove_message_type :: "16 word \<Rightarrow> 16 word \<Rightarrow> mregister \<Rightarrow> mregister" where
  "remove_message_type c t r =
     (case by_comp_type r (c, t) of
        None \<Rightarrow> r
      | Some d \<Rightarrow> r\<lparr>by_comp_type := (by_comp_type r)((c, t) := None),
                    by_typename := (by_typename r)(full_name d := None)\<rparr>)"

definition new_message_for :: "16 word \<Rightarrow> 16 word \<Rightarrow> mregister \<Rightarrow> mdesc result" where
  "new_message_for c t r =
     (case by_comp_type r (c, t) of
        None \<Rightarrow> Inl (RuntimeError (''Message type '' @ key_text (c, t) @ '' not registered''))
      | Some d \<Rightarrow> Inr d)"

definition new_message_named :: "'m pblib \<Rightarrow> string \<Rightarrow> mregister \<Rightarrow> mdesc result" where
  "new_message_named lib nm r =
     (case by_typename r nm of
        Some d \<Rightarrow> Inr d
      | None \<Rightarrow>
          (case create_msg lib nm of
             Some d \<Rightarrow> Inr d | None \<Rightarrow> Inl (RuntimeError ''Message type not registered'')))"

definition serialize :: "'m pblib \<Rightarrow> 16 word \<Rightarrow> 16 word \<Rightarrow> 'm \<Rightarrow> frame_header
    \<Rightarrow> (frame_header \<times> message_header \<times> byte list) result" where
  "serialize lib c t msg fh =
     (case serialize_to lib msg of
        None \<Rightarrow> Inl (RuntimeError ''Cannot serialize message'')
      | Some data \<Rightarrow>
          Inr (fh\<lparr>payload_size := word_of_nat (sizeof_message_header + length data)\<rparr>,
               \<lparr>component_id = c, msg_type = t\<rparr>, data))"

text \<open>
  \<open>data\<close> is what is in the buffer from the data pointer on. The size of the data is
  computed in \<open>size_t\<close>, where a payload shorter than the message header wraps around, and
  converted to \<open>int\<close>.
\<close>

definition deserialize :: "'m pblib \<Rightarrow> mregister \<Rightarrow> frame_header \<Rightarrow> message_header \<Rightarrow> byte list
    \<Rightarrow> 'm result" where
  "deserialize lib r fh mh data =
     (case new_message_for (component_id mh) (msg_type mh) r of
        Inl e \<Rightarrow> Inl e
      | Inr d \<Rightarrow>
          (let size = unat (payload_size fh) - sizeof_message_header in
           if unat (payload_size fh) < sizeof_message_header \<or> size > 2147483647 \<or> size > length data
           then Inl (UndefinedBehaviour ''ParseFromArray: size beyond the data'')
           else case parse_as lib d (take size data) of
             None \<Rightarrow> Inl (RuntimeError ''Failed to parse message'') | Some m \<Rightarrow> Inr m))"

section \<open>Lookup laws\<close>

text \<open>The two maps of the register are keyed stores.\<close>

interpretation fmap: keyed_store Map.empty "\<lambda>m. m" "\<lambda>k v m. m(k \<mapsto> v)" "\<lambda>k m. m(k := None)" "\<lambda>_. True"
  by unfold_locales auto

lemma serialize_deserialize:
  assumes "by_comp_type r (c, t) = Some d" and "serialize_to lib m = Some data"
    and "parse_as lib d data = Some m" and "length data < 2 ^ 31"
  shows "serialize lib c t m fh =
      Inr (fh\<lparr>payload_size := word_of_nat (4 + length data)\<rparr>, \<lparr>component_id = c, msg_type = t\<rparr>, data)"
    and "deserialize lib r (fh\<lparr>payload_size := word_of_nat (4 + length data)\<rparr>)
      \<lparr>component_id = c, msg_type = t\<rparr> (data @ rest) = Inr m"
proof -
  show "serialize lib c t m fh =
      Inr (fh\<lparr>payload_size := word_of_nat (4 + length data)\<rparr>, \<lparr>component_id = c, msg_type = t\<rparr>, data)"
    using assms by (simp add: serialize_def header_sizes)
  have "unat (word_of_nat (4 + length data) :: 32 word) = 4 + length data"
    using assms(4) by (simp add: unat_of_nat take_bit_nat_eq_self del: of_nat_add)
  then show "deserialize lib r (fh\<lparr>payload_size := word_of_nat (4 + length data)\<rparr>)
      \<lparr>component_id = c, msg_type = t\<rparr> (data @ rest) = Inr m"
    using assms by (simp add: deserialize_def new_message_for_def header_sizes del: of_nat_add)
qed

end
