(* ===== verification/Pb_Stream.thy ===== *)
theory Pb_Stream imports Pb_Register
begin

text \<open>
  The stream connections of \<open>src/libs/protobuf_comm\<close>: \<open>ProtobufStreamClient\<close>
  (\<open>client.cpp\<close>) and \<open>ProtobufStreamServer\<close> with its sessions (\<open>server.cpp\<close>). The
  handlers of asio are operations on the state; an asynchronous read that is under way
  is part of the state, and so are, for the properties, the bytes that were written to
  the socket and the signals that were emitted. A handler gets \<open>None\<close> for an error.
\<close>

section \<open>Outgoing messages\<close>

text \<open>
  A queue entry as its bytes. One write is under way at a time (\<open>inflight\<close>); \<open>wire\<close> is
  what was written.
\<close>

record outbound =
  oqueue :: "byte list list"
  oactive :: bool
  inflight :: "byte list option"
  wire :: "byte list"

definition out_new :: outbound where
  "out_new = \<lparr>oqueue = [], oactive = False, inflight = None, wire = []\<rparr>"

definition out_push :: "byte list \<Rightarrow> outbound \<Rightarrow> outbound" where
  "out_push entry o1 =
     (if oactive o1 then o1\<lparr>oqueue := oqueue o1 @ [entry]\<rparr>
      else o1\<lparr>oactive := True, inflight := Some entry\<rparr>)"

text \<open>The write of the entry has ended well.\<close>

definition out_written :: "outbound \<Rightarrow> outbound" where
  "out_written o1 =
     (let o2 = o1\<lparr>wire := wire o1 @ (case inflight o1 of None \<Rightarrow> [] | Some b \<Rightarrow> b), inflight := None\<rparr> in
      case oqueue o2 of
        [] \<Rightarrow> o2\<lparr>oactive := False\<rparr>
      | entry # rest \<Rightarrow> o2\<lparr>oqueue := rest, inflight := Some entry\<rparr>)"

text \<open>The write has failed after \<open>n\<close> bytes: the entry is dropped, nothing else is done.\<close>

definition out_failed :: "nat \<Rightarrow> outbound \<Rightarrow> outbound" where
  "out_failed n o1 =
     o1\<lparr>wire := wire o1 @ take n (case inflight o1 of None \<Rightarrow> [] | Some b \<Rightarrow> b), inflight := None\<rparr>"

text \<open>A new entry; its two reserved bytes are never set.\<close>

definition entry_header :: "byte \<times> byte \<Rightarrow> frame_header" where
  "entry_header rsv = \<lparr>header_version = version_number PB_FRAME_V2, cipher = PB_ENCRYPTION_NONE,
     reserved_2 = fst rsv, reserved_3 = snd rsv, payload_size = 0\<rparr>"

definition entry_bytes_v2 :: "frame_header \<times> message_header \<times> byte list \<Rightarrow> byte list" where
  "entry_bytes_v2 e = (case e of (fh, mh, data) \<Rightarrow> frame_bytes fh @ message_bytes mh @ data)"

definition entry_bytes_v1 :: "frame_header \<times> message_header \<times> byte list \<Rightarrow> byte list" where
  "entry_bytes_v1 e = (case e of (fh, mh, data) \<Rightarrow>
     v1_bytes \<lparr>v1_component_id = component_id mh, v1_msg_type = msg_type mh,
               v1_payload_size = payload_size fh - word_of_nat sizeof_message_header\<rparr> @ data)"

section \<open>What both sides share\<close>

text \<open>
  The library, the register, and what \<open>realloc\<close> gives for a size and the old contents.
\<close>

record 'm senv =
  pb :: "'m pblib"
  reg :: mregister
  realloc :: "nat \<Rightarrow> byte list \<Rightarrow> byte list option"

datatype pending = Idle | Read_Header | Read_Message nat

datatype 'm signal =
    Sig_Rcvd "16 word" "16 word" 'm
  | Sig_Recv_Failed "16 word" "16 word" string
  | Sig_Connected
  | Sig_Disconnected

section \<open>Client\<close>

record 'm sclient =
  connected :: bool
  socket_open :: bool
  c_version :: frame_version
  c_header :: "byte list"
  c_data :: "byte list"
  c_pending :: pending
  c_out :: outbound
  c_signals :: "'m signal list"

text \<open>\<open>junk\<close> is the memory that \<open>malloc(1024)\<close> returns; its length is \<open>in_data_size_\<close>.\<close>

definition client_new :: "frame_version \<Rightarrow> byte list \<Rightarrow> 'm sclient" where
  "client_new v junk = \<lparr>connected = False, socket_open = False, c_version = v, c_header = [],
     c_data = junk, c_pending = Idle, c_out = out_new, c_signals = []\<rparr>"

definition c_emit :: "'m signal \<Rightarrow> 'm sclient \<Rightarrow> 'm sclient" where
  "c_emit sg c = c\<lparr>c_signals := c_signals c @ [sg]\<rparr>"

definition client_disconnect_nosig :: "'m sclient \<Rightarrow> 'm sclient" where
  "client_disconnect_nosig c = c\<lparr>socket_open := False, connected := False\<rparr>"

definition client_disconnect :: "'m sclient \<Rightarrow> 'm sclient" where
  "client_disconnect c = c_emit Sig_Disconnected (client_disconnect_nosig c)"

definition client_start_recv :: "'m sclient \<Rightarrow> 'm sclient" where
  "client_start_recv c = c\<lparr>c_pending := Read_Header\<rparr>"

definition client_handle_resolve :: "bool \<Rightarrow> 'm sclient \<Rightarrow> 'm sclient" where
  "client_handle_resolve err c =
     (if \<not> err then c\<lparr>socket_open := True\<rparr>
      else c_emit Sig_Disconnected (client_disconnect_nosig c))"

definition client_handle_connect :: "bool \<Rightarrow> 'm sclient \<Rightarrow> 'm sclient" where
  "client_handle_connect err c =
     (if \<not> err then c_emit Sig_Connected (client_start_recv (c\<lparr>connected := True\<rparr>))
      else c_emit Sig_Disconnected (client_disconnect_nosig c))"

definition client_payload :: "'m sclient \<Rightarrow> 32 word" where
  "client_payload c =
     (case c_version c of
        PB_FRAME_V1 \<Rightarrow> v1_payload_size (bytes_v1 (c_header c))
      | PB_FRAME_V2 \<Rightarrow> payload_size (bytes_frame (c_header c)))"

text \<open>The read of the message is set up also when there was no memory for it.\<close>

definition client_handle_read_header ::
  "'m senv \<Rightarrow> byte list option \<Rightarrow> 'm sclient \<Rightarrow> 'm sclient" where
  "client_handle_read_header e inp c =
     (case inp of
        None \<Rightarrow> c_emit Sig_Disconnected (client_disconnect_nosig c)
      | Some b \<Rightarrow>
          (let c1 = c\<lparr>c_header := b\<rparr>;
               to_read = unat (client_payload c1);
               c2 = (if to_read > length (c_data c1) then
                       (case realloc e to_read (c_data c1) of
                          Some new_data \<Rightarrow> c1\<lparr>c_data := new_data\<rparr>
                        | None \<Rightarrow> c_emit Sig_Disconnected (client_disconnect_nosig c1))
                     else c1)
           in c2\<lparr>c_pending := Read_Message to_read\<rparr>))"

text \<open>The bytes that were read are at the front of the buffer; behind them is what was there.\<close>

definition read_into :: "byte list \<Rightarrow> byte list \<Rightarrow> byte list" where
  "read_into b buf = b @ drop (length b) buf"

definition client_handle_read_message ::
  "'m senv \<Rightarrow> byte list option \<Rightarrow> 'm sclient \<Rightarrow> 'm sclient mutation" where
  "client_handle_read_message e inp c =
     (case inp of
        None \<Rightarrow> ok (c_emit Sig_Disconnected (client_disconnect_nosig c))
      | Some b \<Rightarrow>
          if length b > length (c_data c)
          then throwing (UndefinedBehaviour ''read beyond the end of the buffer'') c
          else
            (let c1 = c\<lparr>c_data := read_into b (c_data c)\<rparr>;
                 (fh, mh, data) =
                   (case c_version c of
                      PB_FRAME_V1 \<Rightarrow>
                        (let h = bytes_v1 (c_header c1) in
                         (\<lparr>header_version = version_number PB_FRAME_V1, cipher = PB_ENCRYPTION_NONE,
                           reserved_2 = 0, reserved_3 = 0,
                           payload_size = v1_payload_size h + word_of_nat sizeof_message_header\<rparr>,
                          \<lparr>component_id = v1_component_id h, msg_type = v1_msg_type h\<rparr>, c_data c1))
                    | PB_FRAME_V2 \<Rightarrow>
                        (bytes_frame (c_header c1), bytes_message (c_data c1),
                         drop sizeof_message_header (c_data c1)))
             in case deserialize (pb e) (reg e) fh mh data of
                  Inr m \<Rightarrow>
                    ok (client_start_recv (c_emit (Sig_Rcvd (component_id mh) (msg_type mh) m) c1))
                | Inl (RuntimeError what) \<Rightarrow>
                    ok (client_start_recv
                          (c_emit (Sig_Recv_Failed (component_id mh) (msg_type mh) what) c1))
                | Inl x \<Rightarrow> throwing x c1))"

text \<open>\<open>inp\<close> is \<open>Some n\<close> when the write failed after \<open>n\<close> bytes.\<close>

definition client_handle_write :: "nat option \<Rightarrow> 'm sclient \<Rightarrow> 'm sclient" where
  "client_handle_write inp c =
     (case inp of
        None \<Rightarrow> c\<lparr>c_out := out_written (c_out c)\<rparr>
      | Some n \<Rightarrow>
          c_emit Sig_Disconnected (client_disconnect_nosig (c\<lparr>c_out := out_failed n (c_out c)\<rparr>)))"

definition client_send ::
  "'m senv \<Rightarrow> byte \<times> byte \<Rightarrow> 16 word \<Rightarrow> 16 word \<Rightarrow> 'm \<Rightarrow> 'm sclient \<Rightarrow> 'm sclient mutation" where
  "client_send e rsv cid mt m c =
     (if \<not> connected c then throwing (RuntimeError ''Cannot send while not connected'') c
      else case serialize (pb e) cid mt m (entry_header rsv) of
        Inl x \<Rightarrow> throwing x c
      | Inr entry \<Rightarrow>
          ok (c\<lparr>c_out := out_push (case c_version c of PB_FRAME_V1 \<Rightarrow> entry_bytes_v1 entry
                                   | PB_FRAME_V2 \<Rightarrow> entry_bytes_v2 entry) (c_out c)\<rparr>))"

definition client_send_msg ::
  "'m senv \<Rightarrow> byte \<times> byte \<Rightarrow> 'm \<Rightarrow> 'm sclient \<Rightarrow> 'm sclient mutation" where
  "client_send_msg e rsv m c =
     (case key_from_desc (desc_of (pb e) m) of
        Inl x \<Rightarrow> throwing x c | Inr (cid, mt) \<Rightarrow> client_send e rsv cid mt m c)"

section \<open>Server\<close>

type_synonym client_id = "32 word"

record 'm session =
  s_id :: client_id
  s_open :: bool
  s_header :: "byte list"
  s_data :: "byte list"
  s_pending :: pending
  s_out :: outbound

datatype 'm server_signal =
    Srv_Rcvd client_id "16 word" "16 word" 'm
  | Srv_Recv_Failed client_id "16 word" "16 word" string
  | Srv_Connected client_id
  | Srv_Disconnected client_id

text \<open>
  All session objects that exist (also those that the server no longer knows, as long as
  an operation of theirs is pending), the sessions the server knows, the session that
  waits to be accepted, and the signals.
\<close>

record 'm pserver =
  objs :: "client_id \<Rightarrow> 'm session option"
  sessions :: "(client_id \<times> unit) list"
  next_cid :: client_id
  accepting :: client_id
  srv_signals :: "'m server_signal list"

definition session_new :: "client_id \<Rightarrow> byte list \<Rightarrow> 'm session" where
  "session_new i junk = \<lparr>s_id = i, s_open = False, s_header = [], s_data = junk,
     s_pending = Idle, s_out = out_new\<rparr>"

definition session_start_read :: "'m session \<Rightarrow> 'm session" where
  "session_start_read s = s\<lparr>s_pending := Read_Header\<rparr>"

definition session_send ::
  "'m senv \<Rightarrow> byte \<times> byte \<Rightarrow> 16 word \<Rightarrow> 16 word \<Rightarrow> 'm \<Rightarrow> 'm session \<Rightarrow> 'm session mutation" where
  "session_send e rsv cid mt m s =
     (case serialize (pb e) cid mt m (entry_header rsv) of
        Inl x \<Rightarrow> throwing x s
      | Inr entry \<Rightarrow> ok (s\<lparr>s_out := out_push (entry_bytes_v2 entry) (s_out s)\<rparr>))"

definition session_disconnect :: "'m session \<Rightarrow> 'm session" where
  "session_disconnect s = s\<lparr>s_open := False\<rparr>"

definition srv_emit :: "'m server_signal \<Rightarrow> 'm pserver \<Rightarrow> 'm pserver" where
  "srv_emit sg v = v\<lparr>srv_signals := srv_signals v @ [sg]\<rparr>"

definition put_session :: "'m session \<Rightarrow> 'm pserver \<Rightarrow> 'm pserver" where
  "put_session s v = v\<lparr>objs := (objs v)(s_id s \<mapsto> s)\<rparr>"

definition server_disconnected :: "client_id \<Rightarrow> 'm pserver \<Rightarrow> 'm pserver" where
  "server_disconnected i v = srv_emit (Srv_Disconnected i) (v\<lparr>sessions := smap_del i (sessions v)\<rparr>)"

definition server_start_accept :: "byte list \<Rightarrow> 'm pserver \<Rightarrow> 'm pserver" where
  "server_start_accept junk v =
     put_session (session_new (next_cid v) junk)
       (v\<lparr>accepting := next_cid v, next_cid := next_cid v + 1\<rparr>)"

definition server_new :: "byte list \<Rightarrow> 'm pserver" where
  "server_new junk = server_start_accept junk
     \<lparr>objs = Map.empty, sessions = [], next_cid = 1, accepting = 0, srv_signals = []\<rparr>"

text \<open>The accept has ended, with an error or with an open socket.\<close>

definition server_handle_accept :: "bool \<Rightarrow> byte list \<Rightarrow> 'm pserver \<Rightarrow> 'm pserver" where
  "server_handle_accept err junk v =
     server_start_accept junk
       (if err then v
        else (case objs v (accepting v) of
                None \<Rightarrow> v
              | Some s \<Rightarrow>
                  put_session (session_start_read (s\<lparr>s_open := True\<rparr>))
                    (srv_emit (Srv_Connected (s_id s))
                      (v\<lparr>sessions := smap_ins (s_id s) () (sessions v)\<rparr>))))"

definition session_handle_read_header ::
  "'m senv \<Rightarrow> byte list option \<Rightarrow> 'm session \<Rightarrow> 'm pserver \<Rightarrow> 'm pserver" where
  "session_handle_read_header e inp s v =
     (case inp of
        None \<Rightarrow> server_disconnected (s_id s) v
      | Some b \<Rightarrow>
          (let s1 = s\<lparr>s_header := b\<rparr>;
               to_read = unat (payload_size (bytes_frame b));
               (s2, v1) =
                 (if to_read > length (s_data s1) then
                    (case realloc e to_read (s_data s1) of
                       Some new_data \<Rightarrow> (s1\<lparr>s_data := new_data\<rparr>, v)
                     | None \<Rightarrow> (s1, server_disconnected (s_id s) v))
                  else (s1, v))
           in put_session (s2\<lparr>s_pending := Read_Message to_read\<rparr>) v1))"

definition session_handle_read_message ::
  "'m senv \<Rightarrow> byte list option \<Rightarrow> 'm session \<Rightarrow> 'm pserver \<Rightarrow> 'm pserver mutation" where
  "session_handle_read_message e inp s v =
     (case inp of
        None \<Rightarrow> ok (server_disconnected (s_id s) v)
      | Some b \<Rightarrow>
          if length b > length (s_data s)
          then throwing (UndefinedBehaviour ''read beyond the end of the buffer'') v
          else
            (let s1 = s\<lparr>s_data := read_into b (s_data s)\<rparr>;
                 mh = bytes_message (s_data s1);
                 v1 = put_session (session_start_read s1) v
             in case deserialize (pb e) (reg e) (bytes_frame (s_header s1)) mh
                    (drop sizeof_message_header (s_data s1)) of
                  Inr m \<Rightarrow> ok (srv_emit (Srv_Rcvd (s_id s) (component_id mh) (msg_type mh) m) v1)
                | Inl (RuntimeError what) \<Rightarrow>
                    ok (srv_emit (Srv_Recv_Failed (s_id s) (component_id mh) (msg_type mh) what) v1)
                | Inl x \<Rightarrow> throwing x (put_session s1 v)))"

definition session_handle_write :: "nat option \<Rightarrow> 'm session \<Rightarrow> 'm pserver \<Rightarrow> 'm pserver" where
  "session_handle_write inp s v =
     (case inp of
        None \<Rightarrow> put_session (s\<lparr>s_out := out_written (s_out s)\<rparr>) v
      | Some n \<Rightarrow>
          server_disconnected (s_id s) (put_session (s\<lparr>s_out := out_failed n (s_out s)\<rparr>) v))"

definition server_send ::
  "'m senv \<Rightarrow> byte \<times> byte \<Rightarrow> client_id \<Rightarrow> 16 word \<Rightarrow> 16 word \<Rightarrow> 'm \<Rightarrow> 'm pserver \<Rightarrow> 'm pserver mutation"
where
  "server_send e rsv client cid mt m v =
     (case (map_of (sessions v) client, objs v client) of
        (Some _, Some s) \<Rightarrow>
          (case session_send e rsv cid mt m s of (s', x) \<Rightarrow> (put_session s' v, x))
      | _ \<Rightarrow> throwing (RuntimeError ''Client does not exist'') v)"

definition server_send_msg ::
  "'m senv \<Rightarrow> byte \<times> byte \<Rightarrow> client_id \<Rightarrow> 'm \<Rightarrow> 'm pserver \<Rightarrow> 'm pserver mutation" where
  "server_send_msg e rsv client m v =
     (case key_from_desc (desc_of (pb e) m) of
        Inl x \<Rightarrow> throwing x v | Inr (cid, mt) \<Rightarrow> server_send e rsv client cid mt m v)"

fun for_clients ::
  "(client_id \<Rightarrow> 'm pserver \<Rightarrow> 'm pserver mutation) \<Rightarrow> client_id list \<Rightarrow> 'm pserver \<Rightarrow> 'm pserver mutation"
where
  "for_clients f [] v = ok v"
| "for_clients f (i # is) v = andThen (f i v) (for_clients f is)"

definition server_send_to_all ::
  "'m senv \<Rightarrow> byte \<times> byte \<Rightarrow> 16 word \<Rightarrow> 16 word \<Rightarrow> 'm \<Rightarrow> 'm pserver \<Rightarrow> 'm pserver mutation" where
  "server_send_to_all e rsv cid mt m v =
     for_clients (\<lambda>i. server_send e rsv i cid mt m) (map fst (sessions v)) v"

definition server_send_msg_to_all ::
  "'m senv \<Rightarrow> byte \<times> byte \<Rightarrow> 'm \<Rightarrow> 'm pserver \<Rightarrow> 'm pserver mutation" where
  "server_send_msg_to_all e rsv m v =
     for_clients (\<lambda>i. server_send_msg e rsv i m) (map fst (sessions v)) v"

definition server_disconnect :: "client_id \<Rightarrow> 'm pserver \<Rightarrow> 'm pserver" where
  "server_disconnect client v =
     (case (map_of (sessions v) client, objs v client) of
        (Some _, Some s) \<Rightarrow> put_session (session_disconnect s) v
      | _ \<Rightarrow> v)"

section \<open>Order of the outgoing messages\<close>

text \<open>
  The contract of an outgoing queue: what is pushed is content, in order, until it has
  been written; a write that ends moves the oldest content to the wire.
\<close>

locale fifo =
  fixes content :: "'q \<Rightarrow> byte list list"
    and written :: "'q \<Rightarrow> byte list"
    and good :: "'q \<Rightarrow> bool"
    and emp :: 'q
    and push :: "byte list \<Rightarrow> 'q \<Rightarrow> 'q"
    and done_write :: "'q \<Rightarrow> 'q"
  assumes good_emp: "good emp" and content_emp: "content emp = []" and written_emp: "written emp = []"
    and good_push: "good q \<Longrightarrow> good (push b q)"
    and content_push: "good q \<Longrightarrow> content (push b q) = content q @ [b]"
    and written_push: "good q \<Longrightarrow> written (push b q) = written q"
    and good_done: "good q \<Longrightarrow> good (done_write q)"
    and content_done: "good q \<Longrightarrow> content (done_write q) = tl (content q)"
    and written_done: "good q \<Longrightarrow> written (done_write q) = written q @ concat (take 1 (content q))"
begin

text \<open>A history: \<open>Some b\<close> for a push of \<open>b\<close>, \<open>None\<close> for a write that ended.\<close>

fun run :: "byte list option list \<Rightarrow> 'q \<Rightarrow> 'q" where
  "run [] q = q"
| "run (Some b # hs) q = run hs (push b q)"
| "run (None # hs) q = run hs (done_write q)"

lemma run_good: "good q \<Longrightarrow> good (run hs q)"
  by (induction hs q rule: run.induct) (auto intro: good_push good_done)

lemma nothing_lost:
  "good q \<Longrightarrow> written (run hs q) @ concat (content (run hs q)) =
     written q @ concat (content q) @ concat (List.map_filter id hs)"
proof (induction hs q rule: run.induct)
  case (2 b hs q)
  then show ?case
    by (simp add: good_push content_push written_push List.map_filter_def)
next
  case (3 hs q)
  have "concat (content q) = concat (take 1 (content q)) @ concat (tl (content q))"
    by (cases "content q") simp_all
  then show ?case using 3
    by (simp add: good_done content_done written_done List.map_filter_def)
qed (simp add: List.map_filter_def)

lemma nothing_lost_emp:
  "written (run hs emp) @ concat (content (run hs emp)) = concat (List.map_filter id hs)"
  using nothing_lost [OF good_emp, of hs] by (simp add: content_emp written_emp)

end

definition out_content :: "outbound \<Rightarrow> byte list list" where
  "out_content o1 = (case inflight o1 of None \<Rightarrow> [] | Some b \<Rightarrow> [b]) @ oqueue o1"

definition out_ok :: "outbound \<Rightarrow> bool" where
  "out_ok o1 \<longleftrightarrow> (oactive o1 \<longleftrightarrow> inflight o1 \<noteq> None) \<and> (\<not> oactive o1 \<longrightarrow> oqueue o1 = [])"

interpretation stream_out: fifo out_content wire out_ok out_new out_push out_written
  by unfold_locales
    (auto simp: out_content_def out_ok_def out_new_def out_push_def out_written_def Let_def
      split: option.splits list.splits)

section \<open>From the client to the server\<close>

text \<open>
  A history of a client: \<open>Some (c, t, m)\<close> when the message \<open>m\<close> is sent, \<open>None\<close> when a
  write has ended.
\<close>

fun client_run ::
  "'m senv \<Rightarrow> byte \<times> byte \<Rightarrow> (16 word \<times> 16 word \<times> 'm) option list \<Rightarrow> 'm sclient \<Rightarrow> 'm sclient" where
  "client_run e rsv [] c = c"
| "client_run e rsv (Some (cid, mt, m) # hs) c =
     client_run e rsv hs (fst (client_send e rsv cid mt m c))"
| "client_run e rsv (None # hs) c = client_run e rsv hs (client_handle_write None c)"

text \<open>
  A session reads bytes that have arrived: its reads end one after the other, as long as
  there are enough bytes, at most \<open>fuel\<close> of them.
\<close>

fun session_feed ::
  "nat \<Rightarrow> 'm senv \<Rightarrow> client_id \<Rightarrow> byte list \<Rightarrow> 'm pserver \<Rightarrow> 'm pserver mutation" where
  "session_feed 0 e i bs v = ok v"
| "session_feed (Suc fuel) e i bs v =
     (case objs v i of
        None \<Rightarrow> ok v
      | Some s \<Rightarrow>
          (case s_pending s of
             Idle \<Rightarrow> ok v
           | Read_Header \<Rightarrow>
               if length bs < sizeof_frame_header then ok v
               else session_feed fuel e i (drop sizeof_frame_header bs)
                 (session_handle_read_header e (Some (take sizeof_frame_header bs)) s v)
           | Read_Message n \<Rightarrow>
               if length bs < n then ok v
               else andThen (session_handle_read_message e (Some (take n bs)) s v)
                 (session_feed fuel e i (drop n bs))))"

text \<open>
  A message that can make the way: its numbers are registered for a type as which its
  serialisation is parsed to the same message.
\<close>

definition sendable :: "'m senv \<Rightarrow> 16 word \<times> 16 word \<times> 'm \<Rightarrow> bool" where
  "sendable e x = (case x of (cid, mt, m) \<Rightarrow>
     (case (by_comp_type (reg e) (cid, mt), serialize_to (pb e) m) of
        (Some d, Some data) \<Rightarrow> parse_as (pb e) d data = Some m \<and> length data < 2 ^ 31
      | _ \<Rightarrow> False))"

definition frame_of :: "'m senv \<Rightarrow> byte \<times> byte \<Rightarrow> 16 word \<times> 16 word \<times> 'm \<Rightarrow> byte list" where
  "frame_of e rsv x = (case x of (cid, mt, m) \<Rightarrow>
     (case serialize (pb e) cid mt m (entry_header rsv) of
        Inl _ \<Rightarrow> [] | Inr entry \<Rightarrow> entry_bytes_v2 entry))"

lemma sendable_cases:
  assumes "sendable e (cid, mt, m)"
  obtains d data where "by_comp_type (reg e) (cid, mt) = Some d" "serialize_to (pb e) m = Some data"
    "parse_as (pb e) d data = Some m" "length data < 2 ^ 31"
  using assms by (auto simp: sendable_def split: option.splits)

lemma sendable_frame:
  assumes "sendable e (cid, mt, m)"
  obtains data where "serialize_to (pb e) m = Some data" "length data < 2 ^ 31"
    "serialize (pb e) cid mt m (entry_header rsv) =
      Inr ((entry_header rsv)\<lparr>payload_size := word_of_nat (4 + length data)\<rparr>,
           \<lparr>component_id = cid, msg_type = mt\<rparr>, data)"
    "frame_of e rsv (cid, mt, m) =
      frame_bytes ((entry_header rsv)\<lparr>payload_size := word_of_nat (4 + length data)\<rparr>) @
      message_bytes \<lparr>component_id = cid, msg_type = mt\<rparr> @ data"
proof -
  from assms obtain d data where *: "by_comp_type (reg e) (cid, mt) = Some d"
    "serialize_to (pb e) m = Some data" "parse_as (pb e) d data = Some m" "length data < 2 ^ 31"
    by (rule sendable_cases)
  from serialize_deserialize(1) [OF *, of "entry_header rsv"] that [OF *(2,4)] show thesis
    by (simp add: frame_of_def entry_bytes_v2_def)
qed

lemma client_run_out:
  assumes "connected c" and "c_version c = PB_FRAME_V2" and "\<forall>x. Some x \<in> set hs \<longrightarrow> sendable e x"
  shows "c_out (client_run e rsv hs c) = stream_out.run (map (map_option (frame_of e rsv)) hs) (c_out c)"
  using assms
proof (induction e rsv hs c rule: client_run.induct)
  case (2 e rsv cid mt m hs c)
  have "sendable e (cid, mt, m)" using "2.prems"(3) by simp
  then obtain data where "serialize (pb e) cid mt m (entry_header rsv) =
      Inr ((entry_header rsv)\<lparr>payload_size := word_of_nat (4 + length data)\<rparr>,
           \<lparr>component_id = cid, msg_type = mt\<rparr>, data)"
    by (rule sendable_frame)
  then have "client_send e rsv cid mt m c = ok (c\<lparr>c_out := out_push (frame_of e rsv (cid, mt, m)) (c_out c)\<rparr>)"
    using "2.prems" by (simp add: client_send_def frame_of_def del: of_nat_add)
  then show ?case using 2 by simp
next
  case (3 e rsv hs c)
  then show ?case by (simp add: client_handle_write_def)
qed simp

definition reading :: "client_id \<Rightarrow> 'm pserver \<Rightarrow> bool" where
  "reading i v \<longleftrightarrow> (case objs v i of
      None \<Rightarrow> False
    | Some s \<Rightarrow> s_id s = i \<and> s_pending s = Read_Header \<and> sizeof_message_header \<le> length (s_data s))"

lemma session_feed_frame:
  assumes "reading i v" and "sendable e (cid, mt, m)"
    and alloc: "\<And>n b. \<exists>b'. realloc e n b = Some b' \<and> length b' = n"
  shows "\<exists>v'. session_feed (Suc (Suc fuel)) e i (frame_of e rsv (cid, mt, m) @ rest) v =
      session_feed fuel e i rest v' \<and> reading i v' \<and>
      srv_signals v' = srv_signals v @ [Srv_Rcvd i cid mt m]"
proof -
  obtain s where s: "objs v i = Some s" "s_id s = i" "s_pending s = Read_Header" "4 \<le> length (s_data s)"
    using assms(1) by (auto simp: reading_def header_sizes split: option.splits)
  from assms(2) obtain d data where d: "by_comp_type (reg e) (cid, mt) = Some d"
    "serialize_to (pb e) m = Some data" "parse_as (pb e) d data = Some m" "length data < 2 ^ 31"
    by (rule sendable_cases)
  let ?n = "4 + length data"
  let ?fh = "(entry_header rsv)\<lparr>payload_size := word_of_nat ?n\<rparr>"
  let ?mh = "\<lparr>component_id = cid, msg_type = mt\<rparr>"
  have fr: "frame_of e rsv (cid, mt, m) = frame_bytes ?fh @ message_bytes ?mh @ data"
    using serialize_deserialize(1) [OF d, of "entry_header rsv"]
    by (simp add: frame_of_def entry_bytes_v2_def del: of_nat_add)
  have n: "unat (word_of_nat ?n :: 32 word) = ?n"
    using d(4) by (simp add: unat_of_nat take_bit_nat_eq_self del: of_nat_add)
  obtain buf where buf: "realloc e ?n (s_data s) = Some buf" "length buf = ?n" using alloc by blast
  let ?s1 = "s\<lparr>s_header := frame_bytes ?fh, s_data := (if ?n > length (s_data s) then buf else s_data s),
    s_pending := Read_Message ?n\<rparr>"
  have head: "session_handle_read_header e (Some (frame_bytes ?fh)) s v = put_session ?s1 v"
    using buf n by (simp add: session_handle_read_header_def Let_def del: of_nat_add)
  let ?s2 = "?s1\<lparr>s_data := read_into (message_bytes ?mh @ data) (s_data ?s1), s_pending := Read_Header\<rparr>"
  let ?v' = "srv_emit (Srv_Rcvd i cid mt m) (put_session ?s2 (put_session ?s1 v))"
  have "deserialize (pb e) (reg e) ?fh ?mh (data @ drop ?n (s_data ?s1)) = Inr m"
    by (rule serialize_deserialize(2) [OF d])
  then have msg: "session_handle_read_message e (Some (message_bytes ?mh @ data)) ?s1 (put_session ?s1 v) = ok ?v'"
    using buf s
    by (simp add: session_handle_read_message_def session_start_read_def Let_def read_into_def
        header_sizes del: of_nat_add)
  have "session_feed (Suc (Suc fuel)) e i (frame_of e rsv (cid, mt, m) @ rest) v =
      session_feed fuel e i rest ?v'"
    using s head msg by (simp add: fr put_session_def header_sizes del: of_nat_add)
  moreover have "reading i ?v'"
    using s buf by (simp add: reading_def srv_emit_def put_session_def read_into_def header_sizes)
  moreover have "srv_signals ?v' = srv_signals v @ [Srv_Rcvd i cid mt m]"
    by (simp add: srv_emit_def put_session_def)
  ultimately show ?thesis by blast
qed

lemma session_feed_frames:
  assumes "\<And>n b. \<exists>b'. realloc e n b = Some b' \<and> length b' = n"
  shows "reading i v \<Longrightarrow> \<forall>x \<in> set ms. sendable e x \<Longrightarrow> \<exists>v'.
    session_feed (2 * length ms) e i (concat (map (frame_of e rsv) ms)) v = ok v' \<and>
    srv_signals v' = srv_signals v @ map (\<lambda>(cid, mt, m). Srv_Rcvd i cid mt m) ms"
proof (induction ms arbitrary: v)
  case (Cons x ms)
  obtain cid mt m where x: "x = (cid, mt, m)" by (metis prod_cases3)
  have "sendable e (cid, mt, m)" using Cons.prems(2) x by simp
  from session_feed_frame [OF Cons.prems(1) this assms, of "2 * length ms" rsv
      "concat (map (frame_of e rsv) ms)"]
  obtain v1 where v1: "session_feed (Suc (Suc (2 * length ms))) e i
        (frame_of e rsv (cid, mt, m) @ concat (map (frame_of e rsv) ms)) v =
      session_feed (2 * length ms) e i (concat (map (frame_of e rsv) ms)) v1"
    "reading i v1" "srv_signals v1 = srv_signals v @ [Srv_Rcvd i cid mt m]" by blast
  from Cons.IH [OF v1(2)] Cons.prems(2) obtain v2 where
    "session_feed (2 * length ms) e i (concat (map (frame_of e rsv) ms)) v1 = ok v2"
    "srv_signals v2 = srv_signals v1 @ map (\<lambda>(cid, mt, m). Srv_Rcvd i cid mt m) ms" by auto
  then show ?case using v1 x by (intro exI [of _ v2]) simp
qed simp

text \<open>
  C8. Messages arrive as they were sent: when a connected client has sent any messages,
  interleaved in any way with the ends of its writes, and no write is under way any more,
  then a session of the server that reads what is on the wire signals exactly these
  messages, with their numbers, in their order.
\<close>

theorem stream_roundtrip:
  assumes "connected c" and "c_version c = PB_FRAME_V2" and "c_out c = out_new"
    and "\<forall>x. Some x \<in> set hs \<longrightarrow> sendable e x"
    and "\<not> oactive (c_out (client_run e rsv hs c))"
    and "reading i v" and "\<And>n b. \<exists>b'. realloc e n b = Some b' \<and> length b' = n"
  shows "\<exists>v'. session_feed (2 * length (List.map_filter id hs)) e i
      (wire (c_out (client_run e rsv hs c))) v = ok v' \<and>
    srv_signals v' = srv_signals v @
      map (\<lambda>(cid, mt, m). Srv_Rcvd i cid mt m) (List.map_filter id hs)"
proof -
  let ?hs = "map (map_option (frame_of e rsv)) hs"
  have out: "c_out (client_run e rsv hs c) = stream_out.run ?hs out_new"
    using client_run_out [OF assms(1,2,4)] assms(3) by simp
  have "out_ok (stream_out.run ?hs out_new)"
    by (rule stream_out.run_good [OF stream_out.good_emp])
  then have "out_content (stream_out.run ?hs out_new) = []"
    using assms(5) by (simp add: out [symmetric] out_ok_def out_content_def split: option.splits)
  then have "wire (stream_out.run ?hs out_new) = concat (List.map_filter id ?hs)"
    using stream_out.nothing_lost_emp [of ?hs] by simp
  also have "List.map_filter id ?hs = map (frame_of e rsv) (List.map_filter id hs)"
    by (induction hs) (auto simp: List.map_filter_def split: option.splits)
  finally have wire: "wire (c_out (client_run e rsv hs c)) =
      concat (map (frame_of e rsv) (List.map_filter id hs))" by (simp add: out)
  have "\<forall>x \<in> set (List.map_filter id hs). sendable e x"
    using assms(4) by (auto simp: List.map_filter_def)
  from session_feed_frames [OF assms(7,6) this, of rsv] show ?thesis by (simp add: wire)
qed

text \<open>
  A write error makes the client mute: however it is connected again, and whatever is
  sent then, every call succeeds, and nothing is ever written.
\<close>

theorem client_mute_after_write_error:
  assumes "oactive (c_out c)" and "c_version c = PB_FRAME_V2"
    and "\<forall>x \<in> set ms. sendable e x"
    and "c1 = client_handle_connect False (client_handle_resolve False (client_handle_write (Some n) c))"
  shows "connected (client_run e rsv (map Some ms) c1) \<and>
    wire (c_out (client_run e rsv (map Some ms) c1)) = wire (c_out c1) \<and>
    inflight (c_out (client_run e rsv (map Some ms) c1)) = None \<and>
    oqueue (c_out (client_run e rsv (map Some ms) c1)) = oqueue (c_out c) @ map (frame_of e rsv) ms"
proof -
  have c1: "connected c1" "c_version c1 = PB_FRAME_V2" "oactive (c_out c1)" "inflight (c_out c1) = None"
      "oqueue (c_out c1) = oqueue (c_out c)"
    using assms(1,2,4)
    by (simp_all add: client_handle_connect_def client_handle_resolve_def client_handle_write_def
        c_emit_def client_start_recv_def client_disconnect_nosig_def out_failed_def)
  have "connected d \<Longrightarrow> c_version d = PB_FRAME_V2 \<Longrightarrow> oactive (c_out d) \<Longrightarrow> inflight (c_out d) = None \<Longrightarrow>
      \<forall>x \<in> set ms. sendable e x \<Longrightarrow>
      connected (client_run e rsv (map Some ms) d) \<and>
      wire (c_out (client_run e rsv (map Some ms) d)) = wire (c_out d) \<and>
      inflight (c_out (client_run e rsv (map Some ms) d)) = None \<and>
      oqueue (c_out (client_run e rsv (map Some ms) d)) = oqueue (c_out d) @ map (frame_of e rsv) ms" for d
  proof (induction ms arbitrary: d)
    case (Cons x ms)
    obtain cid mt m where x: "x = (cid, mt, m)" by (metis prod_cases3)
    have "sendable e (cid, mt, m)" using Cons.prems x by simp
    then obtain data where "serialize (pb e) cid mt m (entry_header rsv) =
        Inr ((entry_header rsv)\<lparr>payload_size := word_of_nat (4 + length data)\<rparr>,
             \<lparr>component_id = cid, msg_type = mt\<rparr>, data)"
      by (rule sendable_frame)
    then have "client_send e rsv cid mt m d = ok (d\<lparr>c_out := (c_out d)
        \<lparr>oqueue := oqueue (c_out d) @ [frame_of e rsv (cid, mt, m)]\<rparr>\<rparr>)"
      using Cons.prems by (simp add: client_send_def frame_of_def out_push_def del: of_nat_add)
    then show ?case using Cons x by simp
  qed simp
  from this [OF c1(1-4) assms(3)] show ?thesis using c1(5) by simp
qed

section \<open>Examples\<close>

text \<open>A library with one message type, whose messages are their serialisations.\<close>

definition demo_desc :: mdesc where
  "demo_desc = \<lparr>full_name = ''demo.Beacon'',
     comp_type = Some [(''COMP_ID'', 2000), (''MSG_TYPE'', 1)]\<rparr>"

definition demo_pb :: "byte list pblib" where
  "demo_pb = \<lparr>generated_pool = (\<lambda>nm. if nm = ''demo.Beacon'' then Some demo_desc else None),
     importer_pool = (\<lambda>_. None), desc_of = (\<lambda>_. demo_desc), serialize_to = Some,
     parse_as = (\<lambda>_ b. Some b)\<rparr>"

definition demo_env :: "byte list senv" where
  "demo_env = \<lparr>pb = demo_pb, reg = fst (add_type demo_desc mregister_new),
     realloc = (\<lambda>n b. Some (take n (b @ replicate n 0)))\<rparr>"

definition demo_client :: "byte list sclient" where
  "demo_client = (client_new PB_FRAME_V2 (replicate 1024 0))\<lparr>connected := True\<rparr>"

definition demo_server :: "byte list pserver" where
  "demo_server = server_handle_accept False (replicate 1024 0) (server_new (replicate 1024 0))"

lemma demo_sendable: "length b < 2 ^ 31 \<Longrightarrow> sendable demo_env (2000, 1, b)"
  by (simp add: sendable_def demo_env_def add_type_def add_type_with_key_def key_from_desc_def
      demo_desc_def mregister_new_def demo_pb_def)

lemma demo_reading: "reading 1 demo_server"
  by (simp add: reading_def demo_server_def server_handle_accept_def server_start_accept_def
      server_new_def put_session_def session_new_def session_start_read_def srv_emit_def header_sizes)

lemma demo_client_sel [simp]:
  "connected demo_client" "c_version demo_client = PB_FRAME_V2" "c_out demo_client = out_new"
  by (simp_all add: demo_client_def client_new_def)

theorem stream_roundtrip_witness:
  "\<exists>v'. session_feed 2 demo_env 1 (wire (c_out (client_run demo_env (0, 0)
        [Some (2000, 1, [7, 8]), None] demo_client))) demo_server = ok v' \<and>
     srv_signals v' = srv_signals demo_server @ [Srv_Rcvd 1 2000 1 [7, 8]]"
proof -
  let ?hs = "[Some (2000, 1, [7, 8]), None]"
  have ms: "List.map_filter id ?hs = [(2000, 1, [7, 8])]" by (simp add: List.map_filter_def)
  have snd: "\<forall>x. Some x \<in> set ?hs \<longrightarrow> sendable demo_env x" by (simp add: demo_sendable)
  have "\<not> oactive (c_out (client_run demo_env (0, 0) ?hs demo_client))"
    unfolding client_run_out [OF demo_client_sel(1,2) snd]
    by (simp add: out_new_def out_push_def out_written_def)
  moreover have "\<exists>b'. realloc demo_env n b = Some b' \<and> length b' = n" for n b
    by (simp add: demo_env_def)
  ultimately show ?thesis
    using stream_roundtrip [OF demo_client_sel snd _ demo_reading] ms by simp
qed

theorem client_mute_after_write_error_witness:
  "wire (c_out (client_run demo_env (0, 0) (map Some [(2000, 1, [7])])
     (client_handle_connect False (client_handle_resolve False (client_handle_write (Some 0)
       (fst (client_send demo_env (0, 0) 2000 1 [5] demo_client))))))) = []"
proof -
  let ?c = "fst (client_send demo_env (0, 0) 2000 1 [5] demo_client)"
  have "?c = demo_client\<lparr>c_out := out_push (frame_of demo_env (0, 0) (2000, 1, [5])) out_new\<rparr>"
    by (simp add: client_send_def serialize_def demo_env_def demo_pb_def frame_of_def add.commute)
  then have c: "oactive (c_out ?c)" "c_version ?c = PB_FRAME_V2" "wire (c_out ?c) = []"
    by (simp_all add: out_push_def out_new_def)
  have "wire (c_out (client_handle_connect False (client_handle_resolve False
      (client_handle_write (Some 0) ?c)))) = wire (c_out ?c)"
    by (simp add: client_handle_connect_def client_handle_resolve_def client_handle_write_def
        c_emit_def client_start_recv_def client_disconnect_nosig_def out_failed_def)
  then show ?thesis
    using client_mute_after_write_error [OF c(1,2) _ refl, where ms = "[(2000, 1, [7])]" and e = demo_env and rsv = "(0, 0)"] c(3)
    by (simp add: demo_sendable)
qed

end
