(* ===== verification/Pb_Crypto.thy ===== *)
theory Pb_Crypto imports Pb_Register
begin

text \<open>
  Encryption of packets, \<open>src/libs/protobuf_comm/crypto.cpp\<close>, as it is compiled with
  OpenSSL. The library is a parameter: key derivation, the hash, random numbers and the
  ciphers themselves, with padding. Sizes are those OpenSSL documents for AES.
\<close>

datatype aes = AES_128_ECB | AES_128_CBC | AES_256_ECB | AES_256_CBC

fun key_length :: "aes \<Rightarrow> nat" where
  "key_length AES_128_ECB = 16"
| "key_length AES_128_CBC = 16"
| "key_length AES_256_ECB = 32"
| "key_length AES_256_CBC = 32"

fun iv_length :: "aes \<Rightarrow> nat" where
  "iv_length AES_128_ECB = 0"
| "iv_length AES_128_CBC = 16"
| "iv_length AES_256_ECB = 0"
| "iv_length AES_256_CBC = 16"

definition block_size :: "aes \<Rightarrow> nat" where
  "block_size a = 16"

text \<open>
  \<open>evp_key\<close> derives a key, \<open>evp_hash\<close> is the hash of the IV counter, \<open>evp_enc\<close> and
  \<open>evp_dec\<close> take the key, the initialisation vector and the data. \<open>None\<close> is a failure.
\<close>

record evp =
  evp_key :: "aes \<Rightarrow> string \<Rightarrow> byte list option"
  evp_hash :: "64 word \<Rightarrow> byte list option"
  evp_enc :: "aes \<Rightarrow> byte list \<Rightarrow> byte list \<Rightarrow> byte list \<Rightarrow> byte list option"
  evp_dec :: "aes \<Rightarrow> byte list \<Rightarrow> byte list \<Rightarrow> byte list \<Rightarrow> byte list option"

definition unknown_cipher :: exn where
  "unknown_cipher = RuntimeError ''Unknown cipher type''"

definition cipher_by_id :: "byte \<Rightarrow> aes result" where
  "cipher_by_id c =
     (if c = PB_ENCRYPTION_AES_128_ECB then Inr AES_128_ECB
      else if c = PB_ENCRYPTION_AES_128_CBC then Inr AES_128_CBC
      else if c = PB_ENCRYPTION_AES_256_ECB then Inr AES_256_ECB
      else if c = PB_ENCRYPTION_AES_256_CBC then Inr AES_256_CBC
      else Inl unknown_cipher)"

definition cipher_name_by_id :: "byte \<Rightarrow> string result" where
  "cipher_name_by_id c =
     (if c = PB_ENCRYPTION_AES_128_ECB then Inr ''AES-128-ECB''
      else if c = PB_ENCRYPTION_AES_128_CBC then Inr ''AES-128-CBC''
      else if c = PB_ENCRYPTION_AES_256_ECB then Inr ''AES-256-ECB''
      else if c = PB_ENCRYPTION_AES_256_CBC then Inr ''AES-256-CBC''
      else Inl unknown_cipher)"

definition cipher_name_to_id :: "string \<Rightarrow> byte result" where
  "cipher_name_to_id nm =
     (if nm = ''aes-128-ecb'' then Inr PB_ENCRYPTION_AES_128_ECB
      else if nm = ''aes-128-cbc'' then Inr PB_ENCRYPTION_AES_128_CBC
      else if nm = ''aes-256-ecb'' then Inr PB_ENCRYPTION_AES_256_ECB
      else if nm = ''aes-256-cbc'' then Inr PB_ENCRYPTION_AES_256_CBC
      else Inl unknown_cipher)"

definition cipher_by_name :: "string \<Rightarrow> aes result" where
  "cipher_by_name nm =
     (if nm = ''aes-128-ecb'' then Inr AES_128_ECB
      else if nm = ''aes-128-cbc'' then Inr AES_128_CBC
      else if nm = ''aes-256-ecb'' then Inr AES_256_ECB
      else if nm = ''aes-256-cbc'' then Inr AES_256_CBC
      else Inl unknown_cipher)"

section \<open>Encryptor\<close>

record encryptor =
  enc_key :: "byte list"
  enc_iv :: "64 word"
  enc_cipher_id :: byte

text \<open>\<open>seed\<close> is what \<open>RAND_bytes\<close> stores in the counter, \<open>None\<close> when it fails.\<close>

definition encryptor_new :: "evp \<Rightarrow> string \<Rightarrow> string \<Rightarrow> 64 word option \<Rightarrow> encryptor result" where
  "encryptor_new v key nm seed =
     (case (cipher_by_name nm, cipher_name_to_id nm) of
        (Inr a, Inr i) \<Rightarrow>
          (case evp_key v a key of
             None \<Rightarrow> Inl (RuntimeError ''Failed to generate key'')
           | Some k \<Rightarrow>
               (case seed of
                  None \<Rightarrow> Inl (RuntimeError ''Failed to generate IV'')
                | Some iv \<Rightarrow> Inr \<lparr>enc_key = k, enc_iv = iv, enc_cipher_id = i\<rparr>))
      | _ \<Rightarrow> Inl unknown_cipher)"

definition encrypted_buffer_size :: "encryptor \<Rightarrow> nat \<Rightarrow> nat result" where
  "encrypted_buffer_size n plain_length =
     (case cipher_by_id (enc_cipher_id n) of
        Inl e \<Rightarrow> Inl e
      | Inr a \<Rightarrow> Inr ((plain_length div block_size a + 1) * block_size a + iv_length a))"

text \<open>
  The encryptor afterwards and the encrypted buffer: the initialisation vector, if the
  cipher has one, followed by the cipher text.
\<close>

definition encrypt :: "evp \<Rightarrow> byte list \<Rightarrow> encryptor \<Rightarrow> encryptor \<times> byte list result" where
  "encrypt v plain n =
     (case cipher_by_id (enc_cipher_id n) of
        Inl e \<Rightarrow> (n, Inl e)
      | Inr a \<Rightarrow>
          (let n1 = (if iv_length a > 0 then n\<lparr>enc_iv := enc_iv n + 1\<rparr> else n) in
           case (if iv_length a > 0 then map_option (take (iv_length a)) (evp_hash v (enc_iv n1))
                 else Some []) of
             None \<Rightarrow> (n1, Inl (RuntimeError ''Failed to generate IV''))
           | Some iv \<Rightarrow>
               (case evp_enc v a (enc_key n1) iv plain of
                  None \<Rightarrow> (n1, Inl (RuntimeError ''EncryptUpdate failed''))
                | Some c \<Rightarrow> (n1, Inr (iv @ c)))))"

section \<open>Decryptor\<close>

record decryptor =
  dec_key :: string
  dec_keys :: "byte \<Rightarrow> byte list option"

definition decryptor_new :: "string \<Rightarrow> decryptor" where
  "decryptor_new key = \<lparr>dec_key = key, dec_keys = Map.empty\<rparr>"

definition generate_key :: "evp \<Rightarrow> byte \<Rightarrow> decryptor \<Rightarrow> decryptor mutation" where
  "generate_key v c d =
     (case cipher_by_id c of
        Inl e \<Rightarrow> throwing e d
      | Inr a \<Rightarrow>
          (case evp_key v a (dec_key d) of
             None \<Rightarrow> throwing (RuntimeError ''Failed to generate key'') d
           | Some k \<Rightarrow> ok (d\<lparr>dec_keys := (dec_keys d)(c \<mapsto> k)\<rparr>)))"

text \<open>A buffer shorter than the initialisation vector makes the size wrap around.\<close>

definition decrypt :: "evp \<Rightarrow> byte \<Rightarrow> byte list \<Rightarrow> decryptor \<Rightarrow> decryptor \<times> byte list result" where
  "decrypt v c enc d =
     (case (if dec_keys d c = None then generate_key v c d else ok d) of
        (d1, Some e) \<Rightarrow> (d1, Inl e)
      | (d1, None) \<Rightarrow>
          (case (cipher_by_id c, dec_keys d1 c) of
             (Inr a, Some k) \<Rightarrow>
               if length enc < iv_length a
               then (d1, Inl (UndefinedBehaviour ''decrypt: negative size''))
               else (case evp_dec v a k (take (iv_length a) enc) (drop (iv_length a) enc) of
                       None \<Rightarrow> (d1, Inl (RuntimeError ''DecryptUpdate failed''))
                     | Some p \<Rightarrow> (d1, Inr p))
           | (Inl e, _) \<Rightarrow> (d1, Inl e)
           | (Inr _, None) \<Rightarrow> (d1, Inl unknown_cipher)))"

section \<open>Properties\<close>

lemmas cipher_ids = PB_ENCRYPTION_NONE_def PB_ENCRYPTION_AES_128_ECB_def
  PB_ENCRYPTION_AES_128_CBC_def PB_ENCRYPTION_AES_256_ECB_def PB_ENCRYPTION_AES_256_CBC_def

text \<open>The two lookups by name and the lookup by number agree.\<close>

lemma cipher_names_agree:
  "cipher_name_to_id nm = Inr i \<Longrightarrow> cipher_by_id i = cipher_by_name nm \<and> i \<noteq> PB_ENCRYPTION_NONE"
  by (auto simp: cipher_name_to_id_def cipher_by_id_def cipher_by_name_def cipher_ids
      split: if_splits)

text \<open>
  What the library promises: decryption with the same key and vector inverts encryption,
  padding fills up the last block, and the hash has 32 bytes.
\<close>

definition evp_inverts :: "evp \<Rightarrow> bool" where
  "evp_inverts v \<longleftrightarrow> (\<forall>a k iv p c. evp_enc v a k iv p = Some c \<longrightarrow>
        evp_dec v a k iv c = Some p \<and> length c = (length p div 16 + 1) * 16) \<and>
     (\<forall>i b. evp_hash v i = Some b \<longrightarrow> length b = 32)"

text \<open>An encryptor and a decryptor for one key.\<close>

definition matching :: "evp \<Rightarrow> encryptor \<Rightarrow> decryptor \<Rightarrow> bool" where
  "matching v n d \<longleftrightarrow> (\<exists>a. cipher_by_id (enc_cipher_id n) = Inr a \<and>
     evp_key v a (dec_key d) = Some (enc_key n) \<and>
     dec_keys d (enc_cipher_id n) \<in> {None, Some (enc_key n)})"

lemma matching_new:
  "encryptor_new v key nm seed = Inr n \<Longrightarrow> matching v n (decryptor_new key) \<and>
     enc_cipher_id n \<noteq> PB_ENCRYPTION_NONE"
  using cipher_names_agree [of nm]
  by (auto simp: encryptor_new_def matching_def decryptor_new_def split: sum.splits option.splits)

lemma decrypt_encrypt:
  assumes "evp_inverts v" and "matching v n d" and "encrypt v p n = (n', Inr c)"
  shows "\<exists>d'. decrypt v (enc_cipher_id n) c d = (d', Inr p) \<and> matching v n' d' \<and>
    enc_cipher_id n' = enc_cipher_id n"
proof -
  from assms(2) obtain a where a: "cipher_by_id (enc_cipher_id n) = Inr a"
    "evp_key v a (dec_key d) = Some (enc_key n)" "dec_keys d (enc_cipher_id n) \<in> {None, Some (enc_key n)}"
    by (auto simp: matching_def)
  define d' where "d' = (if dec_keys d (enc_cipher_id n) = None
    then d\<lparr>dec_keys := (dec_keys d)(enc_cipher_id n \<mapsto> enc_key n)\<rparr> else d)"
  have gen: "(if dec_keys d (enc_cipher_id n) = None then generate_key v (enc_cipher_id n) d else ok d) = ok d'"
    using a by (simp add: generate_key_def d'_def)
  have keys: "dec_keys d' (enc_cipher_id n) = Some (enc_key n)" "dec_key d' = dec_key d"
    using a by (auto simp: d'_def)
  obtain iv ct where iv: "length iv = iv_length a" "evp_enc v a (enc_key n) iv p = Some ct" "c = iv @ ct"
    and n': "n' = (if iv_length a > 0 then n\<lparr>enc_iv := enc_iv n + 1\<rparr> else n)"
  proof (cases "iv_length a > 0")
    case True
    with assms(1,3) a obtain b ct where "evp_hash v (enc_iv n + 1) = Some b"
      "evp_enc v a (enc_key n) (take (iv_length a) b) p = Some ct"
      "c = take (iv_length a) b @ ct" "n' = n\<lparr>enc_iv := enc_iv n + 1\<rparr>"
      by (auto simp: encrypt_def Let_def split: option.splits)
    moreover have "iv_length a \<le> 32" by (cases a) simp_all
    ultimately show thesis using that assms(1) True by (fastforce simp: evp_inverts_def min_def)
  next
    case False
    with assms(3) a that [of "[]"] show thesis
      by (auto simp: encrypt_def Let_def split: option.splits)
  qed
  have "evp_dec v a (enc_key n) iv ct = Some p" using assms(1) iv by (simp add: evp_inverts_def)
  then have "decrypt v (enc_cipher_id n) c d = (d', Inr p)"
    using gen a keys iv by (simp add: decrypt_def ok_def)
  moreover have "matching v n' d'" using a keys n' by (auto simp: matching_def)
  ultimately show ?thesis using n' by simp
qed

text \<open>The buffer that is reserved has exactly the size of the encrypted data.\<close>

lemma encrypted_size:
  assumes "evp_inverts v" and "encrypt v p n = (n', Inr c)"
  shows "encrypted_buffer_size n (length p) = Inr (length c)"
proof -
  obtain a where a: "cipher_by_id (enc_cipher_id n) = Inr a"
    using assms(2) by (auto simp: encrypt_def split: sum.splits)
  obtain iv ct k where "length iv = iv_length a" "evp_enc v a k iv p = Some ct" "c = iv @ ct"
  proof (cases "iv_length a > 0")
    case True
    with assms a obtain b ct k where "evp_hash v (enc_iv n + 1) = Some b"
      "evp_enc v a k (take (iv_length a) b) p = Some ct" "c = take (iv_length a) b @ ct"
      by (auto simp: encrypt_def Let_def split: option.splits)
    moreover have "iv_length a \<le> 32" by (cases a) simp_all
    ultimately show thesis using that assms(1) True by (fastforce simp: evp_inverts_def min_def)
  next
    case False
    with assms(2) a that [of "[]"] show thesis
      by (auto simp: encrypt_def Let_def split: option.splits)
  qed
  then show ?thesis
    using assms(1) a by (simp add: evp_inverts_def encrypted_buffer_size_def block_size_def)
qed

end
