(* ===== verification/Pb_Peer.thy ===== *)
theory Pb_Peer imports Pb_Crypto
begin

text \<open>
  The datagram peer, \<open>ProtobufBroadcastPeer\<close> of \<open>src/libs/protobuf_comm/peer.cpp\<close>.
  Packets go out one at a time and are kept in \<open>p_wire\<close>; what arrives is handed to
  \<open>peer_handle_recv\<close>. The two buffers are part of the state, since a packet that is
  refused leaves the other buffer as it was.
\<close>

section \<open>State\<close>

definition max_packet_length :: nat where
  "max_packet_length = 1024"

record pentry =
  pe_frame :: frame_header
  pe_v1 :: "byte list option"
  pe_buf1 :: "byte list"
  pe_buf2 :: "byte list"

datatype ('e, 'm) psignal =
    P_Rcvd 'e "16 word" "16 word" 'm
  | P_Raw 'e frame_header "byte list"
  | P_Recv_Error 'e string
  | P_Send_Error string

record ('e, 'm) peer =
  p_version :: frame_version
  filter_self :: bool
  local_endpoints :: "'e list"
  has_slots :: bool
  crypto :: bool
  crypto_buf :: bool
  crypto_enc :: "encryptor option"
  crypto_dec :: "decryptor option"
  recv_enc :: bool
  p_in_data :: "byte list"
  p_enc_data :: "byte list"
  p_queue :: "pentry list"
  p_active :: bool
  p_wire :: "byte list list"
  p_signals :: "('e, 'm) psignal list"

record 'm penv =
  p_pb :: "'m pblib"
  p_reg :: mregister
  p_evp :: evp

definition p_emit :: "('e, 'm) psignal \<Rightarrow> ('e, 'm) peer \<Rightarrow> ('e, 'm) peer" where
  "p_emit sg p = p\<lparr>p_signals := p_signals p @ [sg]\<rparr>"

text \<open>The buffer of the next packet is chosen when the read is set up.\<close>

definition peer_start_recv :: "('e, 'm) peer \<Rightarrow> ('e, 'm) peer" where
  "peer_start_recv p = p\<lparr>crypto_buf := crypto p, recv_enc := crypto p\<rparr>"

definition peer_setup_crypto ::
  "'m penv \<Rightarrow> string \<Rightarrow> string \<Rightarrow> 64 word option \<Rightarrow> ('e, 'm) peer \<Rightarrow> ('e, 'm) peer mutation" where
  "peer_setup_crypto e key nm seed p =
     (if p_version p = PB_FRAME_V1
      then throwing (RuntimeError ''Crypto support only available with V2+ frame header'') p
      else
        (let p1 = p\<lparr>crypto_enc := None, crypto_dec := None, crypto := False, crypto_buf := False\<rparr> in
         if key \<noteq> [] \<and> nm \<noteq> [] then
           (case encryptor_new (p_evp e) key nm seed of
              Inl x \<Rightarrow> throwing x p1
            | Inr n \<Rightarrow> ok (p1\<lparr>crypto_enc := Some n, crypto_dec := Some (decryptor_new key),
                              crypto := True\<rparr>))
         else ok p1))"

text \<open>\<open>junk\<close> is what the two buffers hold at first.\<close>

definition peer_new ::
  "'m penv \<Rightarrow> 'e list \<Rightarrow> string \<Rightarrow> string \<Rightarrow> frame_version \<Rightarrow> 64 word option \<Rightarrow> byte list \<times> byte list
     \<Rightarrow> ('e, 'm) peer mutation" where
  "peer_new e locals key nm v seed junk =
     (let p = \<lparr>p_version = v, filter_self = True, local_endpoints = locals, has_slots = False,
               crypto = False, crypto_buf = False, crypto_enc = None, crypto_dec = None,
               recv_enc = False, p_in_data = fst junk, p_enc_data = snd junk, p_queue = [],
               p_active = True, p_wire = [], p_signals = []\<rparr> in
      andThen (if key \<noteq> [] then peer_setup_crypto e key nm seed p else ok p)
        (\<lambda>p. ok (peer_start_recv p)))"

definition set_filter_self :: "bool \<Rightarrow> ('e, 'm) peer \<Rightarrow> ('e, 'm) peer" where
  "set_filter_self f p = p\<lparr>filter_self := f\<rparr>"

section \<open>Sending\<close>

definition pentry_bytes :: "pentry \<Rightarrow> byte list" where
  "pentry_bytes n =
     (case pe_v1 n of None \<Rightarrow> frame_bytes (pe_frame n) | Some h \<Rightarrow> h) @ pe_buf1 n @ pe_buf2 n"

text \<open>An encryption that fails throws with the entry gone and the peer still active.\<close>

definition peer_start_send :: "'m penv \<Rightarrow> ('e, 'm) peer \<Rightarrow> ('e, 'm) peer mutation" where
  "peer_start_send e p =
     (case p_queue p of
        [] \<Rightarrow> ok p
      | n # rest \<Rightarrow>
          if p_active p then ok p
          else
            (let p1 = p\<lparr>p_active := True, p_queue := rest\<rparr> in
             if crypto p then
               (case crypto_enc p of
                  None \<Rightarrow> throwing (UndefinedBehaviour ''no encryptor'') p1
                | Some k \<Rightarrow>
                    (case encrypt (p_evp e) (pe_buf1 n @ pe_buf2 n) k of
                       (k', Inl x) \<Rightarrow> throwing x (p1\<lparr>crypto_enc := Some k'\<rparr>)
                     | (k', Inr enc) \<Rightarrow>
                         ok (p1\<lparr>crypto_enc := Some k',
                           p_wire := p_wire p1 @ [pentry_bytes (n\<lparr>
                             pe_frame := (pe_frame n)\<lparr>payload_size := word_of_nat (length enc),
                                                      cipher := enc_cipher_id k\<rparr>,
                             pe_buf1 := enc, pe_buf2 := []\<rparr>)]\<rparr>)))
             else ok (p1\<lparr>p_wire := p_wire p1 @ [pentry_bytes n]\<rparr>)))"

definition peer_handle_resolve :: "'m penv \<Rightarrow> bool \<Rightarrow> ('e, 'm) peer \<Rightarrow> ('e, 'm) peer mutation" where
  "peer_handle_resolve e err p =
     peer_start_send e
       (if \<not> err then p\<lparr>p_active := False\<rparr>
        else p_emit (P_Send_Error ''Resolving endpoint failed'') p)"

definition peer_handle_sent :: "'m penv \<Rightarrow> bool \<Rightarrow> ('e, 'm) peer \<Rightarrow> ('e, 'm) peer mutation" where
  "peer_handle_sent e err p =
     (let p1 = p\<lparr>p_active := False\<rparr> in
      peer_start_send e (if err then p_emit (P_Send_Error ''Sending message failed'') p1 else p1))"

definition peer_frame :: "byte \<times> byte \<Rightarrow> frame_header" where
  "peer_frame rsv = \<lparr>header_version = version_number PB_FRAME_V2, cipher = PB_ENCRYPTION_NONE,
     reserved_2 = fst rsv, reserved_3 = snd rsv, payload_size = 0\<rparr>"

definition peer_send ::
  "'m penv \<Rightarrow> byte \<times> byte \<Rightarrow> 16 word \<Rightarrow> 16 word \<Rightarrow> 'm \<Rightarrow> ('e, 'm) peer \<Rightarrow> ('e, 'm) peer mutation" where
  "peer_send e rsv cid mt m p =
     (case serialize (p_pb e) cid mt m (peer_frame rsv) of
        Inl x \<Rightarrow> throwing x p
      | Inr (fh, mh, data) \<Rightarrow>
          if length data > max_packet_length
          then throwing (RuntimeError ''Serialized message too big'') p
          else
            (let n = (case p_version p of
                 PB_FRAME_V1 \<Rightarrow>
                   \<lparr>pe_frame = fh, pe_v1 = Some (v1_bytes \<lparr>v1_component_id = component_id mh,
                      v1_msg_type = msg_type mh, v1_payload_size = payload_size fh\<rparr>),
                    pe_buf1 = [], pe_buf2 = data\<rparr>
               | PB_FRAME_V2 \<Rightarrow>
                   \<lparr>pe_frame = fh, pe_v1 = None, pe_buf1 = message_bytes mh, pe_buf2 = data\<rparr>)
             in peer_start_send e (p\<lparr>p_queue := p_queue p @ [n]\<rparr>)))"

definition peer_send_raw ::
  "'m penv \<Rightarrow> frame_header \<Rightarrow> byte list \<Rightarrow> ('e, 'm) peer \<Rightarrow> ('e, 'm) peer mutation" where
  "peer_send_raw e fh data p =
     peer_start_send e (p\<lparr>p_queue := p_queue p @
       [\<lparr>pe_frame = fh, pe_v1 = None, pe_buf1 = [], pe_buf2 = data\<rparr>]\<rparr>)"

definition peer_send_msg ::
  "'m penv \<Rightarrow> byte \<times> byte \<Rightarrow> 'm \<Rightarrow> ('e, 'm) peer \<Rightarrow> ('e, 'm) peer mutation" where
  "peer_send_msg e rsv m p =
     (case key_from_desc (desc_of (p_pb e) m) of
        Inl x \<Rightarrow> throwing x p | Inr (cid, mt) \<Rightarrow> peer_send e rsv cid mt m p)"

section \<open>Receiving\<close>

definition into_buffer :: "byte list \<Rightarrow> byte list \<Rightarrow> byte list" where
  "into_buffer b buf = b @ drop (length b) buf"

text \<open>
  The cipher checks and the decryption: the peer, the payload size and the number of
  bytes that the rest of the handler goes on with.
\<close>

definition peer_decrypt ::
  "'m penv \<Rightarrow> 'e \<Rightarrow> frame_header \<Rightarrow> nat \<Rightarrow> ('e, 'm) peer \<Rightarrow> ('e, 'm) peer \<times> 32 word \<times> nat \<times> exn option"
where
  "peer_decrypt e from fh n p =
     (if \<not> crypto_buf p \<and> cipher fh \<noteq> PB_ENCRYPTION_NONE then
        (p_emit (P_Recv_Error from ''Received encrypted message but encryption is disabled'') p,
         payload_size fh, n, None)
      else if crypto_buf p \<and> cipher fh = PB_ENCRYPTION_NONE then
        (p_emit (P_Recv_Error from ''Received plain text message but encryption is enabled'') p,
         payload_size fh, n, None)
      else if crypto_buf p then
        (let p1 = p\<lparr>p_in_data := into_buffer (take sizeof_frame_header (p_enc_data p)) (p_in_data p)\<rparr>;
             enc = take (n - sizeof_frame_header) (drop sizeof_frame_header (p_enc_data p)) in
         case crypto_dec p of
           None \<Rightarrow> (p1, payload_size fh, n, Some (UndefinedBehaviour ''no decryptor''))
         | Some k \<Rightarrow>
             (case decrypt (p_evp e) (cipher fh) enc k of
                (k', Inr plain) \<Rightarrow>
                  (p1\<lparr>crypto_dec := Some k',
                      p_in_data := take sizeof_frame_header (p_in_data p1) @
                        into_buffer plain (drop sizeof_frame_header (p_in_data p1))\<rparr>,
                   word_of_nat (length plain), length plain + sizeof_frame_header, None)
              | (k', Inl (RuntimeError what)) \<Rightarrow>
                  (p_emit (P_Recv_Error from (''Decryption fail: '' @ what))
                     (p1\<lparr>crypto_dec := Some k'\<rparr>), payload_size fh, 0, None)
              | (k', Inl x) \<Rightarrow> (p1\<lparr>crypto_dec := Some k'\<rparr>, payload_size fh, n, Some x)))
      else (p, payload_size fh, n, None))"

text \<open>The end of the handler: the size check, the filter, and the message in \<open>in_data_\<close>.\<close>

definition peer_deliver ::
  "'m penv \<Rightarrow> 'e \<Rightarrow> frame_header \<Rightarrow> nat \<Rightarrow> ('e, 'm) peer \<Rightarrow> ('e, 'm) peer mutation" where
  "peer_deliver e from fh n p =
     (if \<not> has_slots p then ok p
      else if n \<noteq> sizeof_frame_header + unat (payload_size fh)
      then ok (p_emit (P_Recv_Error from ''Invalid number of bytes received'') p)
      else if filter_self p \<and> from \<in> set (local_endpoints p) then ok p
      else
        (let (fh1, mh, data) =
           (case p_version p of
              PB_FRAME_V1 \<Rightarrow>
                (let h = bytes_v1 (p_in_data p) in
                 (fh\<lparr>payload_size := payload_size fh + word_of_nat sizeof_message_header\<rparr>,
                  \<lparr>component_id = v1_component_id h, msg_type = v1_msg_type h\<rparr>,
                  drop sizeof_frame_header_v1 (p_in_data p)))
            | PB_FRAME_V2 \<Rightarrow>
                (fh, bytes_message (drop sizeof_frame_header (p_in_data p)),
                 drop (sizeof_frame_header + sizeof_message_header) (p_in_data p)))
         in case deserialize (p_pb e) (p_reg e) fh1 mh data of
              Inr m \<Rightarrow> ok (p_emit (P_Rcvd from (component_id mh) (msg_type mh) m) p)
            | Inl (RuntimeError what) \<Rightarrow>
                ok (p_emit (P_Recv_Error from (''Deserialization fail: '' @ what)) p)
            | Inl x \<Rightarrow> throwing x p))"

definition expected_min_size :: "frame_version \<Rightarrow> nat" where
  "expected_min_size v =
     (case v of PB_FRAME_V1 \<Rightarrow> sizeof_frame_header_v1
      | PB_FRAME_V2 \<Rightarrow> sizeof_frame_header + sizeof_message_header)"

text \<open>A packet that is longer than the buffer arrives truncated.\<close>

definition peer_handle_recv ::
  "'m penv \<Rightarrow> bool \<Rightarrow> 'e \<Rightarrow> byte list \<Rightarrow> ('e, 'm) peer \<Rightarrow> ('e, 'm) peer mutation" where
  "peer_handle_recv e err from packet p =
     (let b = take max_packet_length packet; n = length b;
          p1 = (if recv_enc p then p\<lparr>p_enc_data := into_buffer b (p_enc_data p)\<rparr>
                else p\<lparr>p_in_data := into_buffer b (p_in_data p)\<rparr>) in
      if err \<or> n < expected_min_size (p_version p) then
        ok (peer_start_recv (p_emit (P_Recv_Error from
              ''General receiving error or truncated message'') p1))
      else
        (case p_version p of
           PB_FRAME_V1 \<Rightarrow>
             (let fh = \<lparr>header_version = version_number PB_FRAME_V1, cipher = PB_ENCRYPTION_NONE,
                        reserved_2 = 0, reserved_3 = 0,
                        payload_size = v1_payload_size (bytes_v1 (p_in_data p1))\<rparr>
              in andThen (peer_deliver e from fh n p1) (\<lambda>p. ok (peer_start_recv p)))
         | PB_FRAME_V2 \<Rightarrow>
             (let buf = (if crypto_buf p1 then p_enc_data p1 else p_in_data p1);
                  fh = bytes_frame buf;
                  p2 = p_emit (P_Raw from fh (take (n - sizeof_frame_header)
                         (drop sizeof_frame_header buf))) p1
              in if has_slots p2 then
                   (case peer_decrypt e from fh n p2 of
                      (p3, sz, n', None) \<Rightarrow>
                        andThen (peer_deliver e from (fh\<lparr>payload_size := sz\<rparr>) n' p3)
                          (\<lambda>p. ok (peer_start_recv p))
                    | (p3, _, _, Some x) \<Rightarrow> throwing x p3)
                 else ok (peer_start_recv p2))))"

section \<open>From peer to peer\<close>

lemma p_emit_sel [simp]:
  "p_version (p_emit g p) = p_version p" "has_slots (p_emit g p) = has_slots p"
  "filter_self (p_emit g p) = filter_self p" "local_endpoints (p_emit g p) = local_endpoints p"
  "crypto_buf (p_emit g p) = crypto_buf p" "crypto_dec (p_emit g p) = crypto_dec p"
  "p_in_data (p_emit g p) = p_in_data p" "p_enc_data (p_emit g p) = p_enc_data p"
  "p_signals (p_emit g p) = p_signals p @ [g]" "crypto (p_emit g p) = crypto p"
  by (simp_all add: p_emit_def)

lemma start_recv_sel [simp]:
  "p_signals (peer_start_recv p) = p_signals p" "p_in_data (peer_start_recv p) = p_in_data p"
  "crypto_buf (peer_start_recv p) = crypto p" "recv_enc (peer_start_recv p) = crypto p"
  "p_version (peer_start_recv p) = p_version p" "has_slots (peer_start_recv p) = has_slots p"
  "filter_self (peer_start_recv p) = filter_self p"
  "local_endpoints (peer_start_recv p) = local_endpoints p"
  by (simp_all add: peer_start_recv_def)

definition hears :: "('e, 'm) peer \<Rightarrow> 'e \<Rightarrow> bool" where
  "hears p from \<longleftrightarrow> p_version p = PB_FRAME_V2 \<and> has_slots p \<and>
     \<not> (filter_self p \<and> from \<in> set (local_endpoints p))"

lemma hears_sel [simp]:
  "hears (peer_start_recv p) x = hears p x" "hears (p_emit g p) x = hears p x"
  "hears (p\<lparr>p_in_data := b\<rparr>) x = hears p x" "hears (p\<lparr>p_enc_data := b\<rparr>) x = hears p x"
  by (simp_all add: hears_def)

definition parsed_back :: "'m penv \<Rightarrow> 16 word \<Rightarrow> 16 word \<Rightarrow> 'm \<Rightarrow> byte list \<Rightarrow> bool" where
  "parsed_back e cid mt m data \<longleftrightarrow> serialize_to (p_pb e) m = Some data \<and> length data < 2 ^ 31 \<and>
     (case by_comp_type (p_reg e) (cid, mt) of
        None \<Rightarrow> False | Some d \<Rightarrow> parse_as (p_pb e) d data = Some m)"

lemma peer_deliver_message:
  assumes "hears p from" and "parsed_back e cid mt m data"
    and "payload_size fh = word_of_nat (4 + length data)" and "n = 8 + (4 + length data)"
    and "p_in_data p = hd8 @ message_bytes \<lparr>component_id = cid, msg_type = mt\<rparr> @ data @ rest"
    and "length hd8 = 8"
  shows "peer_deliver e from fh n p = ok (p_emit (P_Rcvd from cid mt m) p)"
proof -
  obtain d where d: "by_comp_type (p_reg e) (cid, mt) = Some d" "serialize_to (p_pb e) m = Some data"
    "parse_as (p_pb e) d data = Some m" "length data < 2 ^ 31"
    using assms(2) by (auto simp: parsed_back_def split: option.splits)
  have n: "unat (payload_size fh) = 4 + length data"
    using d(4) assms(3) by (simp add: unat_of_nat take_bit_nat_eq_self del: of_nat_add)
  have fh: "fh\<lparr>payload_size := word_of_nat (4 + length data)\<rparr> = fh" using assms(3) by simp
  have "deserialize (p_pb e) (p_reg e) fh \<lparr>component_id = cid, msg_type = mt\<rparr> (data @ rest) = Inr m"
    using serialize_deserialize(2) [OF d, of fh rest] fh by simp
  then show ?thesis
    using assms n by (auto simp: peer_deliver_def hears_def header_sizes Let_def)
qed

lemma peer_handle_recv_frame:
  assumes "hears p from" and "length body + 8 \<le> 1024" and "4 \<le> length body"
    and "recv_enc p = crypto_buf p"
  shows "peer_handle_recv e False from (frame_bytes fh @ body) p =
    (case peer_decrypt e from fh (8 + length body)
        (p_emit (P_Raw from fh body)
          (if crypto_buf p then p\<lparr>p_enc_data := into_buffer (frame_bytes fh @ body) (p_enc_data p)\<rparr>
           else p\<lparr>p_in_data := into_buffer (frame_bytes fh @ body) (p_in_data p)\<rparr>)) of
       (p3, sz, n', None) \<Rightarrow>
         andThen (peer_deliver e from (fh\<lparr>payload_size := sz\<rparr>) n' p3) (\<lambda>p. ok (peer_start_recv p))
     | (p3, _, _, Some x) \<Rightarrow> throwing x p3)"
proof -
  have buf: "bytes_frame (into_buffer (frame_bytes fh @ body) b) = fh"
    "take (length body) (drop 8 (into_buffer (frame_bytes fh @ body) b)) = body" for b
    by (simp_all add: into_buffer_def)
  have tk: "take max_packet_length (frame_bytes fh @ body) = frame_bytes fh @ body"
    using assms(2) by (simp add: max_packet_length_def)
  show ?thesis
    unfolding peer_handle_recv_def tk Let_def using assms buf
    by (cases "crypto_buf p") (simp_all add: hears_def expected_min_size_def header_sizes)
qed

text \<open>What a peer puts on the wire for a message.\<close>

lemma peer_send_packet:
  assumes "p_version a = PB_FRAME_V2" and "p_queue a = []" and "\<not> p_active a"
    and "serialize_to (p_pb e) m = Some data" and "peer_send e rsv cid mt m a = (a', None)"
  shows "length data \<le> 1024 \<and> (\<exists>fh. cipher fh = PB_ENCRYPTION_NONE \<and>
     payload_size fh = word_of_nat (4 + length data) \<and> (if crypto a then \<exists>k k' enc. crypto_enc a = Some k \<and>
          encrypt (p_evp e) (message_bytes \<lparr>component_id = cid, msg_type = mt\<rparr> @ data) k = (k', Inr enc) \<and>
          p_wire a' = p_wire a @ [frame_bytes (fh\<lparr>payload_size := word_of_nat (length enc),
            cipher := enc_cipher_id k\<rparr>) @ enc]
      else p_wire a' = p_wire a @ [frame_bytes fh @
            message_bytes \<lparr>component_id = cid, msg_type = mt\<rparr> @ data]))"
proof -
  let ?fh = "(peer_frame rsv)\<lparr>payload_size := word_of_nat (4 + length data)\<rparr>"
  have ser: "serialize (p_pb e) cid mt m (peer_frame rsv) =
      Inr (?fh, \<lparr>component_id = cid, msg_type = mt\<rparr>, data)"
    using assms(4) by (simp add: serialize_def header_sizes)
  then have len: "length data \<le> 1024"
    using assms(5) by (auto simp: peer_send_def max_packet_length_def throwing_def split: if_splits)
  let ?n = "\<lparr>pe_frame = ?fh, pe_v1 = None, pe_buf1 = message_bytes \<lparr>component_id = cid, msg_type = mt\<rparr>,
    pe_buf2 = data\<rparr>"
  have "peer_start_send e (a\<lparr>p_queue := [?n]\<rparr>) = (a', None)"
    using assms ser len by (simp add: peer_send_def max_packet_length_def Let_def)
  then have "if crypto a then \<exists>k k' enc. crypto_enc a = Some k \<and>
        encrypt (p_evp e) (message_bytes \<lparr>component_id = cid, msg_type = mt\<rparr> @ data) k = (k', Inr enc) \<and>
        p_wire a' = p_wire a @ [frame_bytes (?fh\<lparr>payload_size := word_of_nat (length enc),
          cipher := enc_cipher_id k\<rparr>) @ enc]
      else p_wire a' = p_wire a @ [frame_bytes ?fh @
        message_bytes \<lparr>component_id = cid, msg_type = mt\<rparr> @ data]"
    using assms(3)
    by (auto simp: peer_start_send_def pentry_bytes_def Let_def ok_def throwing_def
        split: option.splits prod.splits sum.splits if_splits)
  moreover have "cipher ?fh = PB_ENCRYPTION_NONE" by (simp add: peer_frame_def)
  moreover have "payload_size ?fh = word_of_nat (4 + length data)" by simp
  ultimately show ?thesis using len by (intro conjI exI [of _ "?fh"])
qed

text \<open>Both peers use the same encryption, or none.\<close>

definition linked :: "'m penv \<Rightarrow> ('e, 'm) peer \<Rightarrow> ('e, 'm) peer \<Rightarrow> bool" where
  "linked e a b \<longleftrightarrow> recv_enc b = crypto_buf b \<and> crypto_buf b = crypto a \<and>
     (crypto a \<longrightarrow> evp_inverts (p_evp e) \<and>
        (case (crypto_enc a, crypto_dec b) of
           (Some k, Some d) \<Rightarrow> matching (p_evp e) k d \<and> enc_cipher_id k \<noteq> PB_ENCRYPTION_NONE
         | _ \<Rightarrow> False))"

lemma peer_receives:
  assumes "p_version a = PB_FRAME_V2" and "p_queue a = []" and "\<not> p_active a"
    and "parsed_back e cid mt m data" and "peer_send e rsv cid mt m a = (a', None)"
    and "linked e a b" and "hears b from" and "length (last (p_wire a')) \<le> 1024"
  shows "\<exists>b' fh body hd8 rest. peer_handle_recv e False from (last (p_wire a')) b = ok b' \<and>
    p_signals b' = p_signals b @ [P_Raw from fh body, P_Rcvd from cid mt m] \<and>
    p_in_data b' = hd8 @ message_bytes \<lparr>component_id = cid, msg_type = mt\<rparr> @ data @ rest \<and>
    length hd8 = 8 \<and> p_wire a' = p_wire a @ [last (p_wire a')] \<and>
    (\<forall>x. hears b x \<longrightarrow> hears b' x) \<and> crypto_buf b' = crypto b \<and> recv_enc b' = crypto b"
proof -
  let ?mb = "message_bytes \<lparr>component_id = cid, msg_type = mt\<rparr>"
  have ser: "serialize_to (p_pb e) m = Some data" using assms(4) by (simp add: parsed_back_def)
  obtain fh where len: "length data \<le> 1024" and fh: "cipher fh = PB_ENCRYPTION_NONE"
    "payload_size fh = word_of_nat (4 + length data)"
    and wire: "if crypto a then \<exists>k k' enc. crypto_enc a = Some k \<and>
          encrypt (p_evp e) (?mb @ data) k = (k', Inr enc) \<and>
          p_wire a' = p_wire a @ [frame_bytes (fh\<lparr>payload_size := word_of_nat (length enc),
            cipher := enc_cipher_id k\<rparr>) @ enc]
      else p_wire a' = p_wire a @ [frame_bytes fh @ ?mb @ data]"
    using peer_send_packet [OF assms(1-3) ser assms(5)] by blast
  have link: "recv_enc b = crypto_buf b" "crypto_buf b = crypto a"
    using assms(6) by (simp_all add: linked_def)
  show ?thesis
  proof (cases "crypto a")
    case False
    then have w: "p_wire a' = p_wire a @ [frame_bytes fh @ ?mb @ data]" using wire by simp
    let ?b1 = "p_emit (P_Raw from fh (?mb @ data))
      (b\<lparr>p_in_data := into_buffer (frame_bytes fh @ ?mb @ data) (p_in_data b)\<rparr>)"
    have inb: "p_in_data ?b1 = frame_bytes fh @ ?mb @ data @ drop (12 + length data) (p_in_data b)"
      by (simp add: into_buffer_def)
    have hears1: "hears ?b1 from" using assms(7) by (simp add: hears_def)
    have fits: "length (?mb @ data) + 8 \<le> 1024" "4 \<le> length (?mb @ data)"
      using assms(8) w by simp_all
    have "peer_decrypt e from fh (8 + length (?mb @ data)) ?b1 =
        (?b1, payload_size fh, 8 + length (?mb @ data), None)"
      using False link fh by (simp add: peer_decrypt_def)
    moreover have "peer_deliver e from (fh\<lparr>payload_size := payload_size fh\<rparr>) (8 + length (?mb @ data)) ?b1 =
        ok (p_emit (P_Rcvd from cid mt m) ?b1)"
      by (rule peer_deliver_message [OF hears1 assms(4) _ _ inb]) (use fh in simp_all)
    ultimately have "peer_handle_recv e False from (frame_bytes fh @ ?mb @ data) b =
        ok (peer_start_recv (p_emit (P_Rcvd from cid mt m) ?b1))"
      using peer_handle_recv_frame [OF assms(7) fits link(1), of e fh] False link by simp
    then show ?thesis using w inb assms(7)
      by - (rule exI [of _ "peer_start_recv (p_emit (P_Rcvd from cid mt m) ?b1)"], rule exI [of _ fh],
          rule exI [of _ "?mb @ data"], rule exI [of _ "frame_bytes fh"],
          rule exI [of _ "drop (12 + length data) (p_in_data b)"],
          simp)
  next
    case True
    then obtain k k' enc where w: "crypto_enc a = Some k"
      "encrypt (p_evp e) (?mb @ data) k = (k', Inr enc)"
      "p_wire a' = p_wire a @ [frame_bytes (fh\<lparr>payload_size := word_of_nat (length enc),
            cipher := enc_cipher_id k\<rparr>) @ enc]" using wire by auto
    let ?fh = "fh\<lparr>payload_size := word_of_nat (length enc), cipher := enc_cipher_id k\<rparr>"
    obtain d where d: "crypto_dec b = Some d" "matching (p_evp e) k d"
      "enc_cipher_id k \<noteq> PB_ENCRYPTION_NONE" "evp_inverts (p_evp e)"
      using assms(6) True w(1) by (auto simp: linked_def split: option.splits)
    obtain d' where d': "decrypt (p_evp e) (enc_cipher_id k) enc d = (d', Inr (?mb @ data))"
      using decrypt_encrypt [OF d(4,2) w(2)] by blast
    have "length (?mb @ data) \<le> length enc"
      using encrypted_size [OF d(4) w(2)]
      by (auto simp: encrypted_buffer_size_def block_size_def split: sum.splits)
    then have fits: "length enc + 8 \<le> 1024" "4 \<le> length enc" using assms(8) w(3) by simp_all
    let ?b1 = "p_emit (P_Raw from ?fh enc)
      (b\<lparr>p_enc_data := into_buffer (frame_bytes ?fh @ enc) (p_enc_data b)\<rparr>)"
    obtain b2 rest where dec: "peer_decrypt e from ?fh (8 + length enc) ?b1 =
        (b2, word_of_nat (4 + length data), 8 + (4 + length data), None)"
      and b2: "p_in_data b2 = frame_bytes ?fh @ ?mb @ data @ rest"
        "p_signals b2 = p_signals b @ [P_Raw from ?fh enc]"
        "\<forall>x. hears b x \<longrightarrow> hears b2 x" "crypto b2 = crypto b"
      using d d' True link by (simp add: peer_decrypt_def into_buffer_def header_sizes hears_def)
    have "peer_deliver e from (?fh\<lparr>payload_size := word_of_nat (4 + length data)\<rparr>) (8 + (4 + length data)) b2 =
        ok (p_emit (P_Rcvd from cid mt m) b2)"
      by (rule peer_deliver_message [OF _ assms(4) _ _ b2(1)]) (use b2 assms(7) in simp_all)
    then have "peer_handle_recv e False from (frame_bytes ?fh @ enc) b =
        ok (peer_start_recv (p_emit (P_Rcvd from cid mt m) b2))"
      using peer_handle_recv_frame [OF assms(7) fits link(1), of e ?fh] True link dec by simp
    then show ?thesis using w(3) b2
      by - (rule exI [of _ "peer_start_recv (p_emit (P_Rcvd from cid mt m) b2)"], rule exI [of _ ?fh],
          rule exI [of _ enc], rule exI [of _ "frame_bytes ?fh"], rule exI [of _ rest],
          simp)
  qed
qed

text \<open>
  C12. A message that one peer sends, plain or encrypted, another peer with the same key
  signals with the same numbers and the same content, as long as the packet fits into its
  buffer, whatever the buffers held before.
\<close>

theorem peer_roundtrip:
  assumes "p_version a = PB_FRAME_V2" and "p_queue a = []" and "\<not> p_active a"
    and "parsed_back e cid mt m data" and "peer_send e rsv cid mt m a = (a', None)"
    and "linked e a b" and "hears b from" and "length (last (p_wire a')) \<le> 1024"
  shows "\<exists>b' fh body. p_wire a' = p_wire a @ [last (p_wire a')] \<and>
    peer_handle_recv e False from (last (p_wire a')) b = ok b' \<and>
    p_signals b' = p_signals b @ [P_Raw from fh body, P_Rcvd from cid mt m]"
  using peer_receives [OF assms] by blast

text \<open>
  Plain packets replay encrypted messages: after a peer has received an encrypted
  message, anyone can make it signal that message again, as sent by himself, with a plain
  packet of the right length and any content. The packet is reported as an error first.
\<close>

theorem plain_packet_replays:
  assumes "p_version a = PB_FRAME_V2" and "p_queue a = []" and "\<not> p_active a"
    and "parsed_back e cid mt m data" and "peer_send e rsv cid mt m a = (a', None)"
    and "linked e a b" and "hears b from" and "length (last (p_wire a')) \<le> 1024"
    and "crypto b" and "peer_handle_recv e False from (last (p_wire a')) b = ok b'"
    and "hears b intruder" and "cipher fh = PB_ENCRYPTION_NONE"
    and "payload_size fh = word_of_nat (length body)" and "length body = 4 + length data"
    and "length body + 8 \<le> 1024"
  shows "\<exists>b''. peer_handle_recv e False intruder (frame_bytes fh @ body) b' = ok b'' \<and>
    p_signals b'' = p_signals b' @ [P_Raw intruder fh body,
      P_Recv_Error intruder ''Received plain text message but encryption is enabled'',
      P_Rcvd intruder cid mt m]"
proof -
  obtain hd8 rest where inb: "p_in_data b' = hd8 @
      message_bytes \<lparr>component_id = cid, msg_type = mt\<rparr> @ data @ rest" "length hd8 = 8"
    and b': "\<forall>x. hears b x \<longrightarrow> hears b' x" "crypto_buf b'" "recv_enc b' = crypto_buf b'"
    using peer_receives [OF assms(1-8)] assms(9,10) by auto
  let ?g = "P_Recv_Error intruder ''Received plain text message but encryption is enabled''"
  let ?b1 = "p_emit ?g (p_emit (P_Raw intruder fh body)
    (b'\<lparr>p_enc_data := into_buffer (frame_bytes fh @ body) (p_enc_data b')\<rparr>))"
  have hears: "hears b' intruder" using b'(1) assms(11) by blast
  have "peer_deliver e intruder (fh\<lparr>payload_size := payload_size fh\<rparr>) (8 + length body) ?b1 =
      ok (p_emit (P_Rcvd intruder cid mt m) ?b1)"
    by (rule peer_deliver_message [OF _ assms(4) _ _ _ inb(2)]) (use hears assms(13,14) inb in simp_all)
  moreover have "peer_decrypt e intruder fh (8 + length body)
      (p_emit (P_Raw intruder fh body)
        (b'\<lparr>p_enc_data := into_buffer (frame_bytes fh @ body) (p_enc_data b')\<rparr>)) =
      (?b1, payload_size fh, 8 + length body, None)"
    using b'(2) assms(12) by (simp add: peer_decrypt_def)
  moreover have "4 \<le> length body" using assms(14) by simp
  ultimately have "peer_handle_recv e False intruder (frame_bytes fh @ body) b' =
      ok (peer_start_recv (p_emit (P_Rcvd intruder cid mt m) ?b1))"
    using peer_handle_recv_frame [OF hears assms(15) _ b'(3), of e fh] b'(2) by simp
  then show ?thesis by simp
qed

text \<open>
  With the first frame version a peer sends a payload size that includes the message
  header, and expects one that does not: no peer accepts what another one sends.
\<close>

theorem v1_never_received:
  assumes "p_version a = PB_FRAME_V1" and "p_queue a = []" and "\<not> p_active a" and "\<not> crypto a"
    and "serialize_to (p_pb e) m = Some data" and "peer_send e rsv cid mt m a = (a', None)"
    and "p_version b = PB_FRAME_V1" and "has_slots b" and "\<not> recv_enc b" and "length data + 8 \<le> 1024"
  shows "\<exists>b'. peer_handle_recv e False from (last (p_wire a')) b = ok b' \<and>
    p_signals b' = p_signals b @ [P_Recv_Error from ''Invalid number of bytes received'']"
proof -
  let ?h = "\<lparr>v1_component_id = cid, v1_msg_type = mt, v1_payload_size = word_of_nat (4 + length data)\<rparr>"
  have wire: "last (p_wire a') = v1_bytes ?h @ data"
    using assms(1-6) by (auto simp: peer_send_def serialize_def header_sizes peer_start_send_def
        pentry_bytes_def Let_def ok_def throwing_def split: if_splits)
  have n: "unat (word_of_nat (4 + length data) :: 32 word) = 4 + length data"
    using assms(10) by (simp add: unat_of_nat take_bit_nat_eq_self del: of_nat_add)
  have tk: "take max_packet_length (v1_bytes ?h @ data) = v1_bytes ?h @ data"
    using assms(10) by (simp add: max_packet_length_def)
  show ?thesis
    unfolding wire peer_handle_recv_def tk Let_def
    using assms(7-9) n
    by (simp add: expected_min_size_def header_sizes into_buffer_def peer_deliver_def del: of_nat_add)
qed

section \<open>Examples\<close>

text \<open>A cipher that only pads, two peers that share a key, and one message type.\<close>

definition demo_pad :: "byte list \<Rightarrow> byte list" where
  "demo_pad p = (let n = 16 - length p mod 16 in p @ replicate n (word_of_nat n))"

definition demo_evp :: evp where
  "demo_evp = \<lparr>evp_key = (\<lambda>a k. Some (map (\<lambda>c. of_char c) k)), evp_hash = (\<lambda>i. Some (replicate 32 0)),
     evp_enc = (\<lambda>a k iv p. Some (demo_pad p)),
     evp_dec = (\<lambda>a k iv c. Some (take (length c - unat (last c)) c))\<rparr>"

lemma demo_pad_length: "length (demo_pad p) = (length p div 16 + 1) * 16"
  unfolding demo_pad_def Let_def length_append length_replicate by presburger

lemma demo_unpad: "take (length (demo_pad p) - unat (last (demo_pad p))) (demo_pad p) = p"
proof -
  have "0 < 16 - length p mod 16" "16 - length p mod 16 \<le> 16" by simp_all
  then have "unat (word_of_nat (16 - length p mod 16) :: byte) = 16 - length p mod 16"
    by (simp add: unat_of_nat take_bit_nat_eq_self del: of_nat_diff)
  then show ?thesis by (simp add: demo_pad_def Let_def)
qed

lemma demo_evp_inverts: "evp_inverts demo_evp"
  using demo_unpad by (simp add: evp_inverts_def demo_evp_def demo_pad_length)

definition demo_penv :: "byte list penv" where
  "demo_penv = \<lparr>p_pb = \<lparr>generated_pool = (\<lambda>_. None), importer_pool = (\<lambda>_. None),
       desc_of = (\<lambda>_. \<lparr>full_name = [], comp_type = None\<rparr>), serialize_to = Some,
       parse_as = (\<lambda>_ b. Some b)\<rparr>,
     p_reg = mregister_new\<lparr>by_comp_type := [(2000, 1) \<mapsto> \<lparr>full_name = [], comp_type = None\<rparr>]\<rparr>,
     p_evp = demo_evp\<rparr>"

definition demo_peer :: "(nat, byte list) peer" where
  "demo_peer = \<lparr>p_version = PB_FRAME_V2, filter_self = True, local_endpoints = [], has_slots = True,
     crypto = True, crypto_buf = True,
     crypto_enc = Some \<lparr>enc_key = [], enc_iv = 0, enc_cipher_id = PB_ENCRYPTION_AES_128_ECB\<rparr>,
     crypto_dec = Some (decryptor_new []), recv_enc = True,
     p_in_data = replicate 1024 0, p_enc_data = replicate 1024 0, p_queue = [], p_active = False,
     p_wire = [], p_signals = []\<rparr>"

lemma demo_peer_facts:
  "p_version demo_peer = PB_FRAME_V2" "p_queue demo_peer = []" "\<not> p_active demo_peer"
  "parsed_back demo_penv 2000 1 [7, 8] [7, 8]" "linked demo_penv demo_peer demo_peer"
  "hears demo_peer i" "crypto demo_peer"
  using demo_evp_inverts
  by (simp_all add: demo_peer_def demo_penv_def parsed_back_def linked_def hears_def matching_def
      cipher_by_id_def cipher_ids decryptor_new_def demo_evp_def)

definition demo_sent :: "(nat, byte list) peer" where
  "demo_sent = fst (peer_send demo_penv (0, 0) 2000 1 [7, 8] demo_peer)"

lemma demo_sent_ok:
  "peer_send demo_penv (0, 0) 2000 1 [7, 8] demo_peer = (demo_sent, None)"
  "length (last (p_wire demo_sent)) \<le> 1024"
proof -
  have "encrypt demo_evp p \<lparr>enc_key = [], enc_iv = 0, enc_cipher_id = PB_ENCRYPTION_AES_128_ECB\<rparr> =
      (\<lparr>enc_key = [], enc_iv = 0, enc_cipher_id = PB_ENCRYPTION_AES_128_ECB\<rparr>, Inr (demo_pad p))" for p
    by (simp add: encrypt_def cipher_by_id_def demo_evp_def)
  then show "peer_send demo_penv (0, 0) 2000 1 [7, 8] demo_peer = (demo_sent, None)"
    "length (last (p_wire demo_sent)) \<le> 1024"
    by (simp_all add: demo_sent_def peer_send_def serialize_def demo_penv_def demo_peer_def
        max_packet_length_def peer_start_send_def pentry_bytes_def ok_def demo_pad_def Let_def)
qed

theorem peer_roundtrip_witness:
  "\<exists>b' fh body. peer_handle_recv demo_penv False 5 (last (p_wire demo_sent)) demo_peer = ok b' \<and>
     p_signals b' = p_signals demo_peer @ [P_Raw 5 fh body, P_Rcvd 5 2000 1 [7, 8]]"
  using peer_roundtrip [OF demo_peer_facts(1-4) demo_sent_ok(1) demo_peer_facts(5,6) demo_sent_ok(2)]
  by blast

theorem plain_packet_replays_witness:
  "\<exists>b' b'' fh. peer_handle_recv demo_penv False 5 (last (p_wire demo_sent)) demo_peer = ok b' \<and>
     peer_handle_recv demo_penv False 6 (frame_bytes fh @ [0, 0, 0, 0, 0, 0]) b' = ok b'' \<and>
     cipher fh = PB_ENCRYPTION_NONE \<and> last (p_signals b'') = P_Rcvd 6 2000 1 [7, 8]"
proof -
  obtain b' where b': "peer_handle_recv demo_penv False 5 (last (p_wire demo_sent)) demo_peer = ok b'"
    using peer_receives [OF demo_peer_facts(1-4) demo_sent_ok(1) demo_peer_facts(5,6) demo_sent_ok(2)]
    by blast
  let ?fh = "\<lparr>header_version = 2, cipher = PB_ENCRYPTION_NONE, reserved_2 = 0, reserved_3 = 0,
    payload_size = word_of_nat 6\<rparr>"
  obtain b'' where "peer_handle_recv demo_penv False 6 (frame_bytes ?fh @ [0, 0, 0, 0, 0, 0]) b' = ok b''"
    "last (p_signals b'') = P_Rcvd 6 2000 1 [7, 8]"
    using plain_packet_replays [OF demo_peer_facts(1-4) demo_sent_ok(1) demo_peer_facts(5,6)
        demo_sent_ok(2) demo_peer_facts(7) b' demo_peer_facts(6),
        of ?fh "[0, 0, 0, 0, 0, 0]" 6] by auto
  then show ?thesis using b' by (intro exI [of _ b'] exI [of _ b''] exI [of _ ?fh]) simp
qed

end
