(* ===== verification/Pb_Fields.thy ===== *)
theory Pb_Fields imports Pb_Register
begin

text \<open>
  Protobuf messages in CLIPS, the field functions of
  \<open>src/libs/protobuf_clips/communicator.cpp\<close>. CLIPS holds the address of a
  \<open>std::shared_ptr\<close> on the heap; the model keeps those objects and the messages they
  point to in two maps, so that handles that share a message, empty handles, the null
  pointer and handles that were deleted are told apart. The reflection of the protobuf
  library and the values of clipsmm are parameters.
\<close>

section \<open>Parameters\<close>

datatype ftype = TYPE_DOUBLE | TYPE_FLOAT | TYPE_INT64 | TYPE_UINT64 | TYPE_INT32 | TYPE_FIXED64
  | TYPE_FIXED32 | TYPE_BOOL | TYPE_STRING | TYPE_GROUP | TYPE_MESSAGE | TYPE_BYTES | TYPE_UINT32
  | TYPE_ENUM | TYPE_SFIXED32 | TYPE_SFIXED64 | TYPE_SINT32 | TYPE_SINT64

datatype flabel = LABEL_OPTIONAL | LABEL_REQUIRED | LABEL_REPEATED

record fdesc =
  f_name :: string
  f_type :: ftype
  f_label :: flabel
  f_enum :: "string list"

text \<open>The C++ types of the accessors, and values of them; \<open>'f\<close> is \<open>double\<close>, \<open>'m\<close> a message.\<close>

datatype cpptype = CPP_DOUBLE | CPP_FLOAT | CPP_INT64 | CPP_UINT64 | CPP_INT32 | CPP_UINT32
  | CPP_BOOL | CPP_STRING | CPP_ENUM | CPP_MESSAGE

datatype ('f, 'm) pval = PV_Double 'f | PV_Float 'f | PV_Int64 "64 word" | PV_UInt64 "64 word"
  | PV_Int32 "32 word" | PV_UInt32 "32 word" | PV_Bool bool | PV_String string | PV_Enum string
  | PV_Msg 'm

fun cpp_of :: "('f, 'm) pval \<Rightarrow> cpptype" where
  "cpp_of (PV_Double _) = CPP_DOUBLE"
| "cpp_of (PV_Float _) = CPP_FLOAT"
| "cpp_of (PV_Int64 _) = CPP_INT64"
| "cpp_of (PV_UInt64 _) = CPP_UINT64"
| "cpp_of (PV_Int32 _) = CPP_INT32"
| "cpp_of (PV_UInt32 _) = CPP_UINT32"
| "cpp_of (PV_Bool _) = CPP_BOOL"
| "cpp_of (PV_String _) = CPP_STRING"
| "cpp_of (PV_Enum _) = CPP_ENUM"
| "cpp_of (PV_Msg _) = CPP_MESSAGE"

text \<open>
  Reflection: \<open>r_get t\<close> is the accessor \<open>GetInt64\<close>, \<open>GetString\<close>, ... of that C++ type,
  \<open>r_set\<close> and \<open>r_add\<close> the \<open>Set\<close> and \<open>Add\<close> accessors of the type of the value. An
  accessor that does not fit the field ends in \<open>google::protobuf::FatalException\<close>.
  \<open>r_copy\<close> is \<open>New\<close> and \<open>CopyFrom\<close>.
\<close>

record ('f, 'm) refl =
  r_fields :: "'m \<Rightarrow> fdesc list"
  r_has :: "'m \<Rightarrow> fdesc \<Rightarrow> bool result"
  r_size :: "'m \<Rightarrow> fdesc \<Rightarrow> nat result"
  r_get :: "cpptype \<Rightarrow> 'm \<Rightarrow> fdesc \<Rightarrow> ('f, 'm) pval result"
  r_get_rep :: "cpptype \<Rightarrow> 'm \<Rightarrow> fdesc \<Rightarrow> nat \<Rightarrow> ('f, 'm) pval result"
  r_set :: "('f, 'm) pval \<Rightarrow> 'm \<Rightarrow> fdesc \<Rightarrow> 'm result"
  r_add :: "('f, 'm) pval \<Rightarrow> 'm \<Rightarrow> fdesc \<Rightarrow> 'm result"

text \<open>clipsmm: the constructors of \<open>CLIPS::Value\<close> and the conversions from it.\<close>

record ('v, 'f) clipsmm =
  v_symbol :: "string \<Rightarrow> 'v"
  v_string :: "string \<Rightarrow> 'v"
  v_double :: "'f \<Rightarrow> 'v"
  v_float :: "'f \<Rightarrow> 'v"
  v_long :: "64 word \<Rightarrow> 'v"
  v_int :: "32 word \<Rightarrow> 'v"
  v_uint :: "32 word \<Rightarrow> 'v"
  v_bool :: "bool \<Rightarrow> 'v"
  v_ptr :: "nat \<Rightarrow> 'v"
  as_double :: "'v \<Rightarrow> 'f result"
  as_float :: "'v \<Rightarrow> 'f result"
  as_long :: "'v \<Rightarrow> 64 word result"
  as_int :: "'v \<Rightarrow> 32 word result"
  as_uint :: "'v \<Rightarrow> 32 word result"
  as_text :: "'v \<Rightarrow> string result"
  as_address :: "'v \<Rightarrow> nat result"
  equals_text :: "'v \<Rightarrow> string \<Rightarrow> bool"

section \<open>Handles\<close>

record 'm pheap =
  ptrs :: "nat \<Rightarrow> nat option option"
  msgs :: "nat \<Rightarrow> 'm option"
  next_ptr :: nat
  next_msg :: nat

definition pheap_empty :: "'m pheap" where
  "pheap_empty = \<lparr>ptrs = Map.empty, msgs = Map.empty, next_ptr = 1, next_msg = 1\<rparr>"

definition new_shared :: "nat option \<Rightarrow> 'm pheap \<Rightarrow> 'm pheap \<times> nat" where
  "new_shared k h =
     (h\<lparr>ptrs := (ptrs h)(next_ptr h \<mapsto> k), next_ptr := Suc (next_ptr h)\<rparr>, next_ptr h)"

definition new_message :: "'m \<Rightarrow> 'm pheap \<Rightarrow> 'm pheap \<times> nat" where
  "new_message m h =
     new_shared (Some (next_msg h)) (h\<lparr>msgs := (msgs h)(next_msg h \<mapsto> m), next_msg := Suc (next_msg h)\<rparr>)"

text \<open>
  \<open>!m || !*m\<close>: nothing for the null pointer and for an empty \<open>shared_ptr\<close>, otherwise the
  number of the message and the message. Using a handle that was deleted has no meaning.
\<close>

definition deref :: "nat \<Rightarrow> 'm pheap \<Rightarrow> (nat \<times> 'm) option result" where
  "deref p h =
     (if p = 0 then Inr None
      else case ptrs h p of
        None \<Rightarrow> Inl (UndefinedBehaviour ''dangling message handle'')
      | Some None \<Rightarrow> Inr None
      | Some (Some k) \<Rightarrow>
          (case msgs h k of
             None \<Rightarrow> Inl (UndefinedBehaviour ''dangling message'') | Some m \<Rightarrow> Inr (Some (k, m))))"

text \<open>What an operation that returns a value does on the two bad outcomes of \<open>deref\<close>.\<close>

definition on_message ::
  "nat \<Rightarrow> 'm pheap \<Rightarrow> 'a result \<Rightarrow> (nat \<Rightarrow> 'm \<Rightarrow> 'a result) \<Rightarrow> 'a result" where
  "on_message p h bad f =
     (case deref p h of Inl x \<Rightarrow> Inl x | Inr None \<Rightarrow> bad | Inr (Some (k, m)) \<Rightarrow> f k m)"

definition find_field :: "('f, 'm) refl \<Rightarrow> 'm \<Rightarrow> string \<Rightarrow> fdesc option" where
  "find_field R m nm = find (\<lambda>f. f_name f = nm) (r_fields R m)"

definition clips_pb_create ::
  "(mdesc \<Rightarrow> 'm) \<Rightarrow> 'm pblib \<Rightarrow> mregister \<Rightarrow> string \<Rightarrow> 'm pheap \<Rightarrow> 'm pheap \<times> nat" where
  "clips_pb_create prototype lib r nm h =
     (case new_message_named lib nm r of
        Inr d \<Rightarrow> new_message (prototype d) h
      | Inl _ \<Rightarrow> new_shared None h)"

definition clips_pb_ref :: "nat \<Rightarrow> 'm pheap \<Rightarrow> ('m pheap \<times> nat) result" where
  "clips_pb_ref p h =
     on_message p h (Inr (new_shared None h)) (\<lambda>k m. Inr (new_shared (Some k) h))"

definition clips_pb_destroy :: "nat \<Rightarrow> 'm pheap \<Rightarrow> 'm pheap result" where
  "clips_pb_destroy p h =
     on_message p h (Inr h) (\<lambda>k m. Inr (h\<lparr>ptrs := (ptrs h)(p := None)\<rparr>))"

section \<open>Reading fields\<close>

definition clips_pb_field_names ::
  "('v, 'f) clipsmm \<Rightarrow> ('f, 'm) refl \<Rightarrow> nat \<Rightarrow> 'm pheap \<Rightarrow> 'v list result" where
  "clips_pb_field_names C R p h =
     on_message p h (Inr []) (\<lambda>k m. Inr (map (\<lambda>f. v_symbol C (f_name f)) (r_fields R m)))"

fun type_text :: "ftype \<Rightarrow> string" where
  "type_text TYPE_DOUBLE = ''DOUBLE''"
| "type_text TYPE_FLOAT = ''FLOAT''"
| "type_text TYPE_INT64 = ''INT64''"
| "type_text TYPE_UINT64 = ''UINT64''"
| "type_text TYPE_INT32 = ''INT32''"
| "type_text TYPE_FIXED64 = ''FIXED64''"
| "type_text TYPE_FIXED32 = ''FIXED32''"
| "type_text TYPE_BOOL = ''BOOL''"
| "type_text TYPE_STRING = ''STRING''"
| "type_text TYPE_MESSAGE = ''MESSAGE''"
| "type_text TYPE_BYTES = ''BYTES''"
| "type_text TYPE_UINT32 = ''UINT32''"
| "type_text TYPE_ENUM = ''ENUM''"
| "type_text TYPE_SFIXED32 = ''SFIXED32''"
| "type_text TYPE_SFIXED64 = ''SFIXED64''"
| "type_text TYPE_SINT32 = ''SINT32''"
| "type_text TYPE_SINT64 = ''SINT64''"
| "type_text TYPE_GROUP = ''UNKNOWN''"

fun label_text :: "flabel \<Rightarrow> string" where
  "label_text LABEL_OPTIONAL = ''OPTIONAL''"
| "label_text LABEL_REQUIRED = ''REQUIRED''"
| "label_text LABEL_REPEATED = ''REPEATED''"

definition clips_pb_field_type ::
  "('v, 'f) clipsmm \<Rightarrow> ('f, 'm) refl \<Rightarrow> nat \<Rightarrow> string \<Rightarrow> 'm pheap \<Rightarrow> 'v result" where
  "clips_pb_field_type C R p nm h =
     on_message p h (Inr (v_symbol C ''INVALID-MESSAGE'')) (\<lambda>k m.
       case find_field R m nm of
         None \<Rightarrow> Inr (v_symbol C ''DOES-NOT-EXIST'')
       | Some f \<Rightarrow> Inr (v_symbol C (type_text (f_type f))))"

definition clips_pb_field_label ::
  "('v, 'f) clipsmm \<Rightarrow> ('f, 'm) refl \<Rightarrow> nat \<Rightarrow> string \<Rightarrow> 'm pheap \<Rightarrow> 'v result" where
  "clips_pb_field_label C R p nm h =
     on_message p h (Inr (v_symbol C ''INVALID-MESSAGE'')) (\<lambda>k m.
       case find_field R m nm of
         None \<Rightarrow> Inr (v_symbol C ''DOES-NOT-EXIST'')
       | Some f \<Rightarrow> Inr (v_symbol C (label_text (f_label f))))"

definition clips_pb_has_field ::
  "('f, 'm) refl \<Rightarrow> nat \<Rightarrow> string \<Rightarrow> 'm pheap \<Rightarrow> bool result" where
  "clips_pb_has_field R p nm h =
     on_message p h (Inr False) (\<lambda>k m.
       case find_field R m nm of
         None \<Rightarrow> Inr False
       | Some f \<Rightarrow>
           if f_label f = LABEL_REPEATED
           then (case r_size R m f of Inl x \<Rightarrow> Inl x | Inr n \<Rightarrow> Inr (n > 0))
           else r_has R m f)"

definition clips_pb_field_is_list :: "('f, 'm) refl \<Rightarrow> nat \<Rightarrow> string \<Rightarrow> 'm pheap \<Rightarrow> bool result" where
  "clips_pb_field_is_list R p nm h =
     on_message p h (Inr False) (\<lambda>k m.
       case find_field R m nm of
         None \<Rightarrow> Inr False | Some f \<Rightarrow> Inr (f_label f = LABEL_REPEATED))"

text \<open>
  The accessor the code calls for a field type. Messages and bytes have a branch of their
  own; the remaining type is the one the \<open>default\<close> branch refuses.
\<close>

fun accessor :: "ftype \<Rightarrow> cpptype option" where
  "accessor TYPE_DOUBLE = Some CPP_DOUBLE"
| "accessor TYPE_FLOAT = Some CPP_FLOAT"
| "accessor TYPE_INT64 = Some CPP_INT64"
| "accessor TYPE_UINT64 = Some CPP_UINT64"
| "accessor TYPE_INT32 = Some CPP_INT32"
| "accessor TYPE_FIXED64 = Some CPP_UINT64"
| "accessor TYPE_FIXED32 = Some CPP_UINT32"
| "accessor TYPE_BOOL = Some CPP_BOOL"
| "accessor TYPE_STRING = Some CPP_STRING"
| "accessor TYPE_MESSAGE = Some CPP_MESSAGE"
| "accessor TYPE_BYTES = None"
| "accessor TYPE_UINT32 = Some CPP_UINT32"
| "accessor TYPE_ENUM = Some CPP_ENUM"
| "accessor TYPE_SFIXED32 = Some CPP_INT32"
| "accessor TYPE_SFIXED64 = Some CPP_INT64"
| "accessor TYPE_SINT32 = Some CPP_INT32"
| "accessor TYPE_SINT64 = Some CPP_INT64"
| "accessor TYPE_GROUP = None"

definition unknown_type :: exn where
  "unknown_type = LogicError ''Unknown protobuf field type encountered''"

text \<open>The value a fetched C++ value becomes; a message is copied behind a new handle.\<close>

fun clips_of :: "('v, 'f) clipsmm \<Rightarrow> ('f, 'm) pval \<Rightarrow> 'm pheap \<Rightarrow> 'm pheap \<times> 'v" where
  "clips_of C (PV_Double x) h = (h, v_double C x)"
| "clips_of C (PV_Float x) h = (h, v_float C x)"
| "clips_of C (PV_Int64 w) h = (h, v_long C w)"
| "clips_of C (PV_UInt64 w) h = (h, v_long C w)"
| "clips_of C (PV_Int32 w) h = (h, v_int C w)"
| "clips_of C (PV_UInt32 w) h = (h, v_uint C w)"
| "clips_of C (PV_Bool b) h = (h, v_bool C b)"
| "clips_of C (PV_String s) h = (h, v_string C s)"
| "clips_of C (PV_Enum s) h = (h, v_symbol C s)"
| "clips_of C (PV_Msg m) h = (let (h', p) = new_message m h in (h', v_ptr C p))"

definition fetched ::
  "('v, 'f) clipsmm \<Rightarrow> ('f, 'm) pval result \<Rightarrow> 'm pheap \<Rightarrow> ('m pheap \<times> 'v) result" where
  "fetched C r h = (case r of Inl x \<Rightarrow> Inl x | Inr v \<Rightarrow> Inr (clips_of C v h))"

definition clips_pb_field_value ::
  "('v, 'f) clipsmm \<Rightarrow> ('f, 'm) refl \<Rightarrow> nat \<Rightarrow> string \<Rightarrow> 'm pheap \<Rightarrow> ('m pheap \<times> 'v) result" where
  "clips_pb_field_value C R p nm h =
     on_message p h (Inr (h, v_symbol C ''INVALID-MESSAGE'')) (\<lambda>k m.
       case find_field R m nm of
         None \<Rightarrow> Inr (h, v_symbol C ''DOES-NOT-EXIST'')
       | Some f \<Rightarrow>
           (case (if f_type f \<noteq> TYPE_MESSAGE then r_has R m f else Inr True) of
              Inl x \<Rightarrow> Inl x
            | Inr False \<Rightarrow> Inr (h, v_symbol C ''NOT-SET'')
            | Inr True \<Rightarrow>
                if f_type f = TYPE_BYTES then Inr (h, v_string C ''bytes'')
                else (case accessor (f_type f) of
                        None \<Rightarrow> Inl unknown_type
                      | Some t \<Rightarrow> fetched C (r_get R t m f) h)))"

definition list_elem ::
  "('v, 'f) clipsmm \<Rightarrow> ('f, 'm) refl \<Rightarrow> 'm \<Rightarrow> fdesc \<Rightarrow> nat \<Rightarrow> 'm pheap \<Rightarrow> ('m pheap \<times> 'v) result" where
  "list_elem C R m f i h =
     (if f_type f = TYPE_BYTES then Inr (h, v_symbol C ''BYTES'')
      else case accessor (f_type f) of
        None \<Rightarrow> Inl unknown_type
      | Some t \<Rightarrow> fetched C (r_get_rep R t m f i) h)"

text \<open>The loop over the elements \<open>i, i + 1, ..., i + n - 1\<close>.\<close>

fun list_loop ::
  "('v, 'f) clipsmm \<Rightarrow> ('f, 'm) refl \<Rightarrow> 'm \<Rightarrow> fdesc \<Rightarrow> nat \<Rightarrow> nat \<Rightarrow> 'm pheap \<Rightarrow> ('m pheap \<times> 'v list) result"
where
  "list_loop C R m f i 0 h = Inr (h, [])"
| "list_loop C R m f i (Suc n) h =
     (case list_elem C R m f i h of
        Inl x \<Rightarrow> Inl x
      | Inr (h1, v) \<Rightarrow>
          (case list_loop C R m f (Suc i) n h1 of
             Inl x \<Rightarrow> Inl x | Inr (h2, vs) \<Rightarrow> Inr (h2, v # vs)))"

definition clips_pb_field_list ::
  "('v, 'f) clipsmm \<Rightarrow> ('f, 'm) refl \<Rightarrow> nat \<Rightarrow> string \<Rightarrow> 'm pheap \<Rightarrow> ('m pheap \<times> 'v list) result" where
  "clips_pb_field_list C R p nm h =
     on_message p h (Inr (h, [v_symbol C ''INVALID-MESSAGE''])) (\<lambda>k m.
       case find_field R m nm of
         None \<Rightarrow> Inr (h, [v_symbol C ''DOES-NOT-EXIST''])
       | Some f \<Rightarrow>
           if f_label f = LABEL_REQUIRED \<or> f_label f = LABEL_OPTIONAL
           then (case clips_pb_field_value C R p nm h of
                   Inl x \<Rightarrow> Inl x | Inr (h', v) \<Rightarrow> Inr (h', [v]))
           else (case r_size R m f of
                   Inl x \<Rightarrow> Inl x | Inr n \<Rightarrow> list_loop C R m f 0 n h))"

section \<open>Writing fields\<close>

text \<open>
  The value that is written into a field, without the messages: nothing for bytes and
  for an unknown name of an enum.
\<close>

fun from_clips :: "('v, 'f) clipsmm \<Rightarrow> ftype \<Rightarrow> string list \<Rightarrow> 'v \<Rightarrow> ('f, 'm) pval option result" where
  "from_clips C TYPE_DOUBLE E v = map_sum id (Some \<circ> PV_Double) (as_double C v)"
| "from_clips C TYPE_FLOAT E v = map_sum id (Some \<circ> PV_Float) (as_float C v)"
| "from_clips C TYPE_SFIXED64 E v = map_sum id (Some \<circ> PV_Int64) (as_long C v)"
| "from_clips C TYPE_SINT64 E v = map_sum id (Some \<circ> PV_Int64) (as_long C v)"
| "from_clips C TYPE_INT64 E v = map_sum id (Some \<circ> PV_Int64) (as_long C v)"
| "from_clips C TYPE_FIXED64 E v = map_sum id (Some \<circ> PV_UInt64) (as_long C v)"
| "from_clips C TYPE_UINT64 E v = map_sum id (Some \<circ> PV_UInt64) (as_long C v)"
| "from_clips C TYPE_SFIXED32 E v = map_sum id (Some \<circ> PV_Int32) (as_int C v)"
| "from_clips C TYPE_SINT32 E v = map_sum id (Some \<circ> PV_Int32) (as_int C v)"
| "from_clips C TYPE_INT32 E v = map_sum id (Some \<circ> PV_Int32) (as_int C v)"
| "from_clips C TYPE_BOOL E v = Inr (Some (PV_Bool (equals_text C v ''TRUE'')))"
| "from_clips C TYPE_STRING E v = map_sum id (Some \<circ> PV_String) (as_text C v)"
| "from_clips C TYPE_BYTES E v = Inr None"
| "from_clips C TYPE_FIXED32 E v = map_sum id (Some \<circ> PV_UInt32) (as_uint C v)"
| "from_clips C TYPE_UINT32 E v = map_sum id (Some \<circ> PV_UInt32) (as_uint C v)"
| "from_clips C TYPE_ENUM E v =
     (case as_text C v of
        Inl x \<Rightarrow> Inl x
      | Inr s \<Rightarrow> Inr (if s \<in> set E then Some (PV_Enum s) else None))"
| "from_clips C TYPE_MESSAGE E v = Inl unknown_type"
| "from_clips C TYPE_GROUP E v = Inl unknown_type"

text \<open>
  Writing with \<open>put\<close>, the \<open>Set\<close> or the \<open>Add\<close> accessors. A message is copied from
  the handle in the value, which is deleted after it. The part that takes the copy is made
  first: when the field has none, its exception comes before the use of an empty handle.
\<close>

definition write_field ::
  "(('f, 'm) pval \<Rightarrow> 'm \<Rightarrow> fdesc \<Rightarrow> 'm result) \<Rightarrow> ('v, 'f) clipsmm \<Rightarrow> nat \<Rightarrow> 'm \<Rightarrow> fdesc \<Rightarrow> 'v
     \<Rightarrow> 'm pheap \<Rightarrow> 'm pheap mutation" where
  "write_field put C k m f v h =
     (if f_type f = TYPE_MESSAGE then
        (case as_address C v of
           Inl x \<Rightarrow> throwing x h
         | Inr q \<Rightarrow>
             (case deref q h of
                Inl x \<Rightarrow> throwing x h
              | Inr None \<Rightarrow>
                  throwing (case put (PV_Msg m) m f of
                      Inl x \<Rightarrow> x
                    | Inr _ \<Rightarrow> UndefinedBehaviour ''copy from an empty message handle'') h
              | Inr (Some (j, mfrom)) \<Rightarrow>
                  if j = k
                  then throwing (UndefinedBehaviour ''a message copied into a part of itself'') h
                  else (case put (PV_Msg mfrom) m f of
                          Inl x \<Rightarrow> throwing x h
                        | Inr m' \<Rightarrow>
                            ok (h\<lparr>msgs := (msgs h)(k \<mapsto> m'), ptrs := (ptrs h)(q := None)\<rparr>))))
      else case from_clips C (f_type f) (f_enum f) v of
        Inl x \<Rightarrow> throwing x h
      | Inr None \<Rightarrow> ok h
      | Inr (Some pv) \<Rightarrow>
          (case put pv m f of
             Inl x \<Rightarrow> throwing x h
           | Inr m' \<Rightarrow> ok (h\<lparr>msgs := (msgs h)(k \<mapsto> m')\<rparr>)))"

definition catch_logic :: "'s mutation \<Rightarrow> 's mutation" where
  "catch_logic r = (case r of (s, Some (LogicError _)) \<Rightarrow> ok s | _ \<Rightarrow> r)"

definition clips_pb_set_field ::
  "('v, 'f) clipsmm \<Rightarrow> ('f, 'm) refl \<Rightarrow> nat \<Rightarrow> string \<Rightarrow> 'v \<Rightarrow> 'm pheap \<Rightarrow> 'm pheap mutation" where
  "clips_pb_set_field C R p nm v h =
     (case deref p h of
        Inl x \<Rightarrow> throwing x h
      | Inr None \<Rightarrow> ok h
      | Inr (Some (k, m)) \<Rightarrow>
          (case find_field R m nm of
             None \<Rightarrow> ok h
           | Some f \<Rightarrow> catch_logic (write_field (r_set R) C k m f v h)))"

definition clips_pb_add_list ::
  "('v, 'f) clipsmm \<Rightarrow> ('f, 'm) refl \<Rightarrow> nat \<Rightarrow> string \<Rightarrow> 'v \<Rightarrow> 'm pheap \<Rightarrow> 'm pheap mutation" where
  "clips_pb_add_list C R p nm v h =
     (case deref p h of
        Inl x \<Rightarrow> throwing x h
      | Inr None \<Rightarrow> ok h
      | Inr (Some (k, m)) \<Rightarrow>
          (case find_field R m nm of
             None \<Rightarrow> ok h
           | Some f \<Rightarrow> catch_logic (write_field (r_add R) C k m f v h)))"

section \<open>What the reflection promises\<close>

text \<open>
  A value of the accessor's type can be set in a singular field and appended to a repeated
  one, and is what the field then holds; the elements before it stay; the other kind of
  access ends in the library's exception.
\<close>

definition fits :: "('f, 'm) refl \<Rightarrow> 'm \<Rightarrow> fdesc \<Rightarrow> ('f, 'm) pval \<Rightarrow> bool" where
  "fits R m f v \<longleftrightarrow> f \<in> set (r_fields R m) \<and> accessor (f_type f) = Some (cpp_of v)
     \<and> f_type f \<noteq> TYPE_MESSAGE \<and> (case v of PV_Enum s \<Rightarrow> s \<in> set (f_enum f) | _ \<Rightarrow> True)"

definition set_law :: "('f, 'm) refl \<Rightarrow> bool" where
  "set_law R \<longleftrightarrow> (\<forall>m f v. fits R m f v \<longrightarrow>
     (if f_label f = LABEL_REPEATED then (\<exists>what. r_set R v m f = Inl (LibraryException what))
      else (\<exists>m'. r_set R v m f = Inr m' \<and> r_fields R m' = r_fields R m
              \<and> r_has R m' f = Inr True \<and> r_get R (cpp_of v) m' f = Inr v)))"

definition add_law :: "('f, 'm) refl \<Rightarrow> bool" where
  "add_law R \<longleftrightarrow> (\<forall>m f v n. fits R m f v \<and> f_label f = LABEL_REPEATED \<and> r_size R m f = Inr n \<longrightarrow>
     (\<exists>m'. r_add R v m f = Inr m' \<and> r_fields R m' = r_fields R m \<and> r_size R m' f = Inr (Suc n)
        \<and> r_get_rep R (cpp_of v) m' f n = Inr v
        \<and> (\<forall>t. \<forall>i<n. r_get_rep R t m' f i = r_get_rep R t m f i)))"

lemma set_lawD:
  "\<lbrakk> set_law R; fits R m f v; f_label f \<noteq> LABEL_REPEATED \<rbrakk> \<Longrightarrow>
     \<exists>m'. r_set R v m f = Inr m' \<and> r_fields R m' = r_fields R m
       \<and> r_has R m' f = Inr True \<and> r_get R (cpp_of v) m' f = Inr v"
  unfolding set_law_def by presburger

lemma set_lawD_repeated:
  "\<lbrakk> set_law R; fits R m f v; f_label f = LABEL_REPEATED \<rbrakk> \<Longrightarrow>
     \<exists>what. r_set R v m f = Inl (LibraryException what)"
  unfolding set_law_def by presburger

lemma add_lawD:
  "\<lbrakk> add_law R; fits R m f v; f_label f = LABEL_REPEATED; r_size R m f = Inr n \<rbrakk> \<Longrightarrow>
     \<exists>m'. r_add R v m f = Inr m' \<and> r_fields R m' = r_fields R m \<and> r_size R m' f = Inr (Suc n)
        \<and> r_get_rep R (cpp_of v) m' f n = Inr v
        \<and> (\<forall>t. \<forall>i<n. r_get_rep R t m' f i = r_get_rep R t m f i)"
  unfolding add_law_def by presburger

lemma find_field_SomeD: "find_field R m nm = Some f \<Longrightarrow> f \<in> set (r_fields R m) \<and> f_name f = nm"
  by (auto simp: find_field_def find_Some_iff)

lemma find_field_same: "r_fields R m' = r_fields R m \<Longrightarrow> find_field R m' nm = find_field R m nm"
  by (simp add: find_field_def)

lemma from_clips_fits:
  assumes "from_clips C (f_type f) (f_enum f) v = Inr (Some pv)" and "f \<in> set (r_fields R m)"
  shows "fits R m f pv" "f_type f \<noteq> TYPE_BYTES" "f_type f \<noteq> TYPE_MESSAGE"
  using assms by (cases "f_type f"; auto simp: fits_def map_sum_def split: sum.splits if_splits)+

text \<open>What a value other than a message is for CLIPS.\<close>

definition plain_value :: "('v, 'f) clipsmm \<Rightarrow> ('f, 'm) pval \<Rightarrow> 'v" where
  "plain_value C pv = snd (clips_of C pv pheap_empty)"

lemma clips_of_scalar:
  assumes "fits R m f pv"
  shows "clips_of C pv h = (h, plain_value C pv)"
proof -
  have "cpp_of pv \<noteq> CPP_MESSAGE"
    using assms by (cases "f_type f") (auto simp: fits_def)
  then show ?thesis
    by (cases pv) (simp_all add: plain_value_def)
qed

text \<open>A write of a scalar: only the message itself changes.\<close>

lemma write_scalar:
  fixes R :: "('f, 'm) refl" and pv :: "('f, 'm) pval"
  assumes "from_clips C (f_type f) (f_enum f) v = Inr (Some pv)" and "f \<in> set (r_fields R m)"
    and "put pv m f = Inr m'"
  shows "write_field put C k m f v h = ok (h\<lparr>msgs := (msgs h)(k \<mapsto> m')\<rparr>)"
  using from_clips_fits(3) [OF assms(1,2)] assms(1,3) by (simp add: write_field_def)

lemma deref_update:
  "deref q h = Inr (Some (j, m)) \<Longrightarrow>
     deref q (h\<lparr>msgs := (msgs h)(k \<mapsto> m')\<rparr>) = Inr (Some (j, if j = k then m' else m))"
  by (auto simp: deref_def split: if_splits option.splits)

lemma catch_logic_ok [simp]: "catch_logic (ok h) = ok h"
  by (simp add: catch_logic_def ok_def)

section \<open>Setting and reading a field\<close>

lemma field_value_get:
  assumes "deref p h = Inr (Some (k, m))" and "find_field R m nm = Some f" and "fits R m f pv"
    and "f_type f \<noteq> TYPE_BYTES" and "r_has R m f = Inr True" and "r_get R (cpp_of pv) m f = Inr pv"
  shows "clips_pb_field_value C R p nm h = Inr (h, plain_value C pv)"
proof -
  have "accessor (f_type f) = Some (cpp_of pv)" and "f_type f \<noteq> TYPE_MESSAGE"
    using assms(3) by (simp_all add: fits_def)
  then show ?thesis
    using assms by (simp add: clips_pb_field_value_def on_message_def fetched_def
        clips_of_scalar [OF assms(3)])
qed

text \<open>
  C37. Setting a field that is neither repeated nor a message, with a value the library can
  convert, does not throw; afterwards the field is set and reading it, through this handle
  and through every other handle of the same message, gives the converted value. Handles of
  other messages read what they read before.
\<close>

theorem set_field_then_value:
  fixes R :: "('f, 'm) refl" and pv :: "('f, 'm) pval"
  assumes "set_law R" and "deref p h = Inr (Some (k, m))" and "find_field R m nm = Some f"
    and "f_label f \<noteq> LABEL_REPEATED" and "from_clips C (f_type f) (f_enum f) v = Inr (Some pv)"
  shows "\<exists>h'. clips_pb_set_field C R p nm v h = ok h'
    \<and> (\<forall>q. deref q h = Inr (Some (k, m)) \<longrightarrow>
         clips_pb_field_value C R q nm h' = Inr (h', plain_value C pv)
         \<and> clips_pb_has_field R q nm h' = Inr True)
    \<and> (\<forall>q j m2. deref q h = Inr (Some (j, m2)) \<and> j \<noteq> k \<longrightarrow> deref q h' = Inr (Some (j, m2)))"
proof -
  note f = find_field_SomeD [OF assms(3), THEN conjunct1]
  note fit = from_clips_fits [OF assms(5) f]
  obtain m' where m': "r_set R pv m f = Inr m'" "r_fields R m' = r_fields R m"
      "r_has R m' f = Inr True" "r_get R (cpp_of pv) m' f = Inr pv"
    using set_lawD [OF assms(1) fit(1) assms(4)] by blast
  define h' where "h' = h\<lparr>msgs := (msgs h)(k \<mapsto> m')\<rparr>"
  have ff: "find_field R m' nm = Some f" and fit': "fits R m' f pv"
    using fit(1) assms(3) m'(2) by (simp_all add: find_field_same [OF m'(2)] fits_def)
  have "clips_pb_set_field C R p nm v h = ok h'"
    using assms(2,3) write_scalar [OF assms(5) f, where put = "r_set R", OF m'(1)]
    by (simp add: clips_pb_set_field_def h'_def)
  moreover have "clips_pb_field_value C R q nm h' = Inr (h', plain_value C pv)
      \<and> clips_pb_has_field R q nm h' = Inr True" if "deref q h = Inr (Some (k, m))" for q
  proof -
    have d: "deref q h' = Inr (Some (k, m'))"
      using deref_update [OF that, of k m'] by (simp add: h'_def)
    then show ?thesis
      using field_value_get [OF d ff fit' fit(2) m'(3,4), where C = C] ff m'(3) assms(4)
      by (simp add: clips_pb_has_field_def on_message_def)
  qed
  moreover have "deref q h' = Inr (Some (j, m2))" if "deref q h = Inr (Some (j, m2))" "j \<noteq> k" for q j m2
    using deref_update [OF that(1), of k m'] that(2) by (simp add: h'_def)
  ultimately show ?thesis
    by blast
qed

text \<open>The list functions are for repeated fields; setting one leaves by the library's exception.\<close>

lemma set_field_on_list:
  fixes R :: "('f, 'm) refl" and pv :: "('f, 'm) pval"
  assumes "set_law R" and "deref p h = Inr (Some (k, m))" and "find_field R m nm = Some f"
    and "f_label f = LABEL_REPEATED" and "from_clips C (f_type f) (f_enum f) v = Inr (Some pv)"
  shows "\<exists>what. clips_pb_set_field C R p nm v h = throwing (LibraryException what) h"
proof -
  note f = find_field_SomeD [OF assms(3), THEN conjunct1]
  note fit = from_clips_fits [OF assms(5) f]
  obtain what where "r_set R pv m f = Inl (LibraryException what)"
    using set_lawD_repeated [OF assms(1) fit(1) assms(4)] by blast
  then show ?thesis
    using assms(2,3,5) fit(3)
    by (intro exI [of _ what])
      (simp add: clips_pb_set_field_def write_field_def catch_logic_def throwing_def)
qed

section \<open>Lists\<close>

fun add_all :: "('v, 'f) clipsmm \<Rightarrow> ('f, 'm) refl \<Rightarrow> nat \<Rightarrow> string \<Rightarrow> 'v list \<Rightarrow> 'm pheap \<Rightarrow> 'm pheap mutation"
where
  "add_all C R p nm [] h = ok h"
| "add_all C R p nm (v # vs) h = andThen (clips_pb_add_list C R p nm v h) (add_all C R p nm vs)"

lemma list_elem_scalar:
  "\<lbrakk> fits R m f pv; f_type f \<noteq> TYPE_BYTES; r_get_rep R (cpp_of pv) m f i = Inr pv \<rbrakk>
     \<Longrightarrow> list_elem C R m f i h = Inr (h, plain_value C pv)"
  using clips_of_scalar [of R m f pv C h] by (simp add: list_elem_def fetched_def fits_def)

text \<open>The elements of a repeated field that holds no messages, as CLIPS sees them.\<close>

definition holds_list ::
  "('v, 'f) clipsmm \<Rightarrow> ('f, 'm) refl \<Rightarrow> 'm \<Rightarrow> fdesc \<Rightarrow> 'v list \<Rightarrow> bool" where
  "holds_list C R m f ws \<longleftrightarrow> r_size R m f = Inr (length ws)
     \<and> (\<forall>i<length ws. \<forall>h. list_elem C R m f i h = Inr (h, ws ! i))"

lemma list_loop_holds:
  "(\<And>j. j < n \<Longrightarrow> list_elem C R m f (i + j) h = Inr (h, w j))
     \<Longrightarrow> list_loop C R m f i n h = Inr (h, map w [0..<n])"
proof (induction n arbitrary: i w)
  case (Suc n)
  have "list_elem C R m f i h = Inr (h, w 0)"
    using Suc.prems [of 0] by simp
  moreover have "list_loop C R m f (Suc i) n h = Inr (h, map (\<lambda>j. w (Suc j)) [0..<n])"
    using Suc.prems [of "Suc _"] by (intro Suc.IH) simp
  ultimately show ?case
    by (simp add: map_upt_Suc del: upt_Suc)
qed simp

lemma field_list_holds:
  assumes "holds_list C R m f ws" and "deref p h = Inr (Some (k, m))"
    and "find_field R m nm = Some f" and "f_label f = LABEL_REPEATED"
  shows "clips_pb_field_list C R p nm h = Inr (h, ws)"
proof -
  have "list_loop C R m f 0 (length ws) h = Inr (h, map ((!) ws) [0..<length ws])"
    using assms(1) by (intro list_loop_holds) (simp add: holds_list_def)
  then show ?thesis
    using assms by (simp add: clips_pb_field_list_def on_message_def holds_list_def map_nth)
qed

lemma add_list_holds:
  fixes R :: "('f, 'm) refl" and pv :: "('f, 'm) pval"
  assumes "add_law R" and "holds_list C R m f ws" and "deref p h = Inr (Some (k, m))"
    and "find_field R m nm = Some f" and "f_label f = LABEL_REPEATED"
    and "from_clips C (f_type f) (f_enum f) v = Inr (Some pv)"
  shows "\<exists>m'. clips_pb_add_list C R p nm v h = ok (h\<lparr>msgs := (msgs h)(k \<mapsto> m')\<rparr>)
    \<and> deref p (h\<lparr>msgs := (msgs h)(k \<mapsto> m')\<rparr>) = Inr (Some (k, m'))
    \<and> holds_list C R m' f (ws @ [plain_value C pv]) \<and> find_field R m' nm = Some f"
proof -
  note f = find_field_SomeD [OF assms(4), THEN conjunct1]
  note fit = from_clips_fits [OF assms(6) f]
  obtain m' where m': "r_add R pv m f = Inr m'" "r_fields R m' = r_fields R m"
      "r_size R m' f = Inr (Suc (length ws))" "r_get_rep R (cpp_of pv) m' f (length ws) = Inr pv"
      "\<forall>t. \<forall>i<length ws. r_get_rep R t m' f i = r_get_rep R t m f i"
    using add_lawD [OF assms(1) fit(1) assms(5)] assms(2) unfolding holds_list_def by blast
  have fit': "fits R m' f pv"
    using fit(1) m'(2) by (simp add: fits_def)
  have old: "list_elem C R m' f i h0 = list_elem C R m f i h0" if "i < length ws" for i h0
    using m'(5) that by (simp add: list_elem_def split: option.splits)
  have "holds_list C R m' f (ws @ [plain_value C pv])"
    using assms(2) m'(3) list_elem_scalar [OF fit' fit(2) m'(4), where C = C] old
    by (simp add: holds_list_def nth_append less_Suc_eq)
  moreover have "clips_pb_add_list C R p nm v h = ok (h\<lparr>msgs := (msgs h)(k \<mapsto> m')\<rparr>)"
    using assms(3,4) write_scalar [OF assms(6) f, where put = "r_add R", OF m'(1)]
    by (simp add: clips_pb_add_list_def)
  ultimately show ?thesis
    using deref_update [OF assms(3), of k m'] assms(4) find_field_same [OF m'(2)]
    by (intro exI [of _ m']) simp
qed

text \<open>
  Adding values to a repeated field one after the other and reading the field back as a
  list gives the elements it had, then the added values as converted, in the order of the
  additions; none of the additions throws.
\<close>

theorem add_list_then_list:
  fixes R :: "('f, 'm) refl" and pvs :: "('f, 'm) pval list"
  assumes "add_law R" and "holds_list C R m f ws" and "deref p h = Inr (Some (k, m))"
    and "find_field R m nm = Some f" and "f_label f = LABEL_REPEATED"
    and "map (from_clips C (f_type f) (f_enum f)) vs = map (\<lambda>pv. Inr (Some pv)) pvs"
  shows "\<exists>h'. add_all C R p nm vs h = ok h'
    \<and> clips_pb_field_list C R p nm h' = Inr (h', ws @ map (plain_value C) pvs)"
  using assms(2-)
proof (induction vs arbitrary: m h ws pvs)
  case Nil
  then show ?case
    by (simp add: field_list_holds [OF Nil.prems(1-4)])
next
  case (Cons v vs)
  then obtain pv ps where [simp]: "pvs = pv # ps"
      and v: "from_clips C (f_type f) (f_enum f) v = Inr (Some pv)"
      and vs: "map (from_clips C (f_type f) (f_enum f)) vs = map (\<lambda>pv. Inr (Some pv)) ps"
    by (cases pvs) auto
  obtain m' where step: "clips_pb_add_list C R p nm v h = ok (h\<lparr>msgs := (msgs h)(k \<mapsto> m')\<rparr>)"
      and d: "deref p (h\<lparr>msgs := (msgs h)(k \<mapsto> m')\<rparr>) = Inr (Some (k, m'))"
      and l: "holds_list C R m' f (ws @ [plain_value C pv])" and g: "find_field R m' nm = Some f"
    using add_list_holds [OF assms(1) Cons.prems(1-4) v] by blast
  show ?case
    using Cons.IH [OF l d g Cons.prems(4) vs] by (simp add: step)
qed

section \<open>A concrete reflection\<close>

text \<open>A message with four fields, as lists of values by field name, and values of CLIPS.\<close>

datatype dmsg = DMsg "(string \<times> (int, dmsg) pval list) list"

datatype dval = DV_Symbol string | DV_String string | DV_Integer int | DV_Float int | DV_Pointer nat

definition demo_fields :: "fdesc list" where
  "demo_fields =
     [\<lparr>f_name = ''x'', f_type = TYPE_SINT32, f_label = LABEL_OPTIONAL, f_enum = []\<rparr>,
      \<lparr>f_name = ''kind'', f_type = TYPE_ENUM, f_label = LABEL_REQUIRED, f_enum = [''A'', ''B'']\<rparr>,
      \<lparr>f_name = ''ids'', f_type = TYPE_FIXED64, f_label = LABEL_REPEATED, f_enum = []\<rparr>]"

fun dm_values :: "dmsg \<Rightarrow> fdesc \<Rightarrow> (int, dmsg) pval list" where
  "dm_values (DMsg fs) f = (case map_of fs (f_name f) of None \<Rightarrow> [] | Some vs \<Rightarrow> vs)"

fun dm_put :: "(int, dmsg) pval list \<Rightarrow> dmsg \<Rightarrow> fdesc \<Rightarrow> dmsg" where
  "dm_put vs (DMsg fs) f = DMsg ((f_name f, vs) # fs)"

lemma dm_values_put [simp]: "dm_values (dm_put vs m f) g = (if f_name g = f_name f then vs else dm_values m g)"
  by (cases m) simp

definition fatal :: exn where
  "fatal = LibraryException ''Protocol Buffer reflection usage error''"

definition dm_guard :: "cpptype \<Rightarrow> bool \<Rightarrow> fdesc \<Rightarrow> 'a result \<Rightarrow> 'a result" where
  "dm_guard t rep f r =
     (if accessor (f_type f) = Some t \<and> (f_label f = LABEL_REPEATED) = rep then r else Inl fatal)"

definition demo_refl :: "(int, dmsg) refl" where
  "demo_refl = \<lparr>r_fields = \<lambda>m. demo_fields,
     r_has = \<lambda>m f. if f_label f = LABEL_REPEATED then Inl fatal else Inr (dm_values m f \<noteq> []),
     r_size = \<lambda>m f. if f_label f = LABEL_REPEATED then Inr (length (dm_values m f)) else Inl fatal,
     r_get = \<lambda>t m f. dm_guard t False f
       (case dm_values m f of [] \<Rightarrow> Inl fatal | v # vs \<Rightarrow> Inr v),
     r_get_rep = \<lambda>t m f i. dm_guard t True f
       (if i < length (dm_values m f) then Inr (dm_values m f ! i) else Inl fatal),
     r_set = \<lambda>v m f. dm_guard (cpp_of v) False f (Inr (dm_put [v] m f)),
     r_add = \<lambda>v m f. dm_guard (cpp_of v) True f (Inr (dm_put (dm_values m f @ [v]) m f))\<rparr>"

definition demo_clips :: "(dval, int) clipsmm" where
  "demo_clips = \<lparr>v_symbol = DV_Symbol, v_string = DV_String, v_double = DV_Float, v_float = DV_Float,
     v_long = \<lambda>w. DV_Integer (sint w), v_int = \<lambda>w. DV_Integer (sint w),
     v_uint = \<lambda>w. DV_Integer (uint w), v_bool = \<lambda>b. DV_Integer (if b then 1 else 0),
     v_ptr = DV_Pointer,
     as_double = \<lambda>v. case v of DV_Float x \<Rightarrow> Inr x | _ \<Rightarrow> Inl (LogicError ''not a float''),
     as_float = \<lambda>v. case v of DV_Float x \<Rightarrow> Inr x | _ \<Rightarrow> Inl (LogicError ''not a float''),
     as_long = \<lambda>v. case v of DV_Integer i \<Rightarrow> Inr (word_of_int i) | _ \<Rightarrow> Inl (LogicError ''not an integer''),
     as_int = \<lambda>v. case v of DV_Integer i \<Rightarrow> Inr (word_of_int i) | _ \<Rightarrow> Inl (LogicError ''not an integer''),
     as_uint = \<lambda>v. case v of DV_Integer i \<Rightarrow> Inr (word_of_int i) | _ \<Rightarrow> Inl (LogicError ''not an integer''),
     as_text = \<lambda>v. case v of DV_Symbol s \<Rightarrow> Inr s | DV_String s \<Rightarrow> Inr s | _ \<Rightarrow> Inl (LogicError ''not a text''),
     as_address = \<lambda>v. case v of DV_Pointer p \<Rightarrow> Inr p | _ \<Rightarrow> Inl (LogicError ''not an address''),
     equals_text = \<lambda>v s. v = DV_Symbol s \<or> v = DV_String s\<rparr>"

lemma demo_set_law: "set_law demo_refl"
  by (auto simp: set_law_def fits_def demo_refl_def dm_guard_def fatal_def)

lemma demo_add_law: "add_law demo_refl"
  by (auto simp: add_law_def fits_def demo_refl_def dm_guard_def nth_append)

definition demo_heap :: "dmsg pheap" where
  "demo_heap = fst (new_message (DMsg []) pheap_empty)"

lemma demo_deref: "deref 1 demo_heap = Inr (Some (1, DMsg []))"
  by (simp add: demo_heap_def new_message_def new_shared_def pheap_empty_def deref_def)

theorem set_field_then_value_witness:
  "\<exists>h'. clips_pb_set_field demo_clips demo_refl 1 ''x'' (DV_Integer (-3)) demo_heap = ok h'
     \<and> clips_pb_field_value demo_clips demo_refl 1 ''x'' h' = Inr (h', DV_Integer (-3))"
  using set_field_then_value [OF demo_set_law demo_deref, where nm = "''x''"
      and f = "demo_fields ! 0" and C = demo_clips and v = "DV_Integer (-3)" and pv = "PV_Int32 (-3)"]
    demo_deref
  by (auto simp: find_field_def demo_refl_def demo_fields_def demo_clips_def plain_value_def)

theorem add_list_then_list_witness:
  "\<exists>h'. add_all demo_clips demo_refl 1 ''ids'' [DV_Integer 5, DV_Integer 7] demo_heap = ok h'
     \<and> clips_pb_field_list demo_clips demo_refl 1 ''ids'' h' = Inr (h', [DV_Integer 5, DV_Integer 7])"
  using add_list_then_list [OF demo_add_law _ demo_deref, where nm = "''ids''"
      and f = "demo_fields ! 2" and C = demo_clips and vs = "[DV_Integer 5, DV_Integer 7]"
      and ws = "[]" and pvs = "[PV_UInt64 5, PV_UInt64 7]"]
  by (simp add: holds_list_def find_field_def demo_refl_def demo_fields_def demo_clips_def
      plain_value_def)

end
