(* ===== verification/Pb_Clips.thy ===== *)
theory Pb_Clips imports Pb_Stream Pb_Peer Pb_Fields
begin

text \<open>
  The communicator between CLIPS and the network, \<open>ClipsProtobufCommunicator\<close> of
  \<open>src/libs/protobuf_clips/communicator.cpp\<close>: one identifier space for the clients of its
  server, its own connections and its peers, the functions that CLIPS calls, and the
  handlers that turn what arrives into facts. The server, the clients and the peers inside
  are those of \<open>Pb_Stream\<close> and \<open>Pb_Peer\<close>. A call into one of them empties its log of
  signals first, and the handlers are then run on what was emitted, in order.
\<close>

section \<open>State\<close>

type_synonym endpoint = "string \<times> 16 word"

datatype client_type = CT_SERVER | CT_CLIENT | CT_PEER

record msg_fact =
  slot_type :: string
  slot_comp_id :: "16 word"
  slot_msg_type :: "16 word"
  slot_rcvd_via :: string
  slot_rcvd_at :: "int \<times> int"
  slot_rcvd_from :: endpoint
  slot_client_type :: string
  slot_client_id :: "32 word"
  slot_ptr :: nat

datatype cfact =
    F_Msg msg_fact
  | F_Server_Client_Connected int endpoint
  | F_Server_Client_Disconnected int
  | F_Server_Receive_Failed "16 word" "16 word" int string endpoint
  | F_Client_Connected int
  | F_Client_Disconnected int
  | F_Receive_Failed int "16 word" "16 word" string

datatype 'm sent_signal =
    Server_Sent client_id 'm
  | Client_Sent endpoint 'm
  | Peer_Sent int 'm

record 'm comm =
  message_register :: mregister
  server :: "'m pserver option"
  next_client_id :: int
  server_clients :: "int \<Rightarrow> client_id option"
  rev_server_clients :: "client_id \<Rightarrow> int option"
  clients :: "int \<Rightarrow> 'm sclient option"
  peers :: "int \<Rightarrow> (endpoint, 'm) peer option"
  client_endpoints :: "int \<Rightarrow> endpoint option"
  msg_heap :: "'m pheap"
  facts :: "cfact list"
  sent :: "'m sent_signal list"

text \<open>
  What lies outside: the protobuf library, OpenSSL, \<open>realloc\<close>, whether the template
  \<open>protobuf-msg\<close> is loaded, and which facts the CLIPS environment takes.
\<close>

record 'm cenv =
  ce_pb :: "'m pblib"
  ce_evp :: evp
  ce_realloc :: "nat \<Rightarrow> byte list \<Rightarrow> byte list option"
  ce_template :: bool
  ce_accepts :: "msg_fact \<Rightarrow> bool"

definition stream_env :: "'m cenv \<Rightarrow> 'm comm \<Rightarrow> 'm senv" where
  "stream_env E s = \<lparr>pb = ce_pb E, reg = message_register s, realloc = ce_realloc E\<rparr>"

definition peer_env :: "'m cenv \<Rightarrow> 'm comm \<Rightarrow> 'm penv" where
  "peer_env E s = \<lparr>p_pb = ce_pb E, p_reg = message_register s, p_evp = ce_evp E\<rparr>"

text \<open>The constructor does not set \<open>next_client_id_\<close>: its first value is an argument.\<close>

definition comm_new :: "int \<Rightarrow> 'm comm" where
  "comm_new n0 = \<lparr>message_register = mregister_new, server = None, next_client_id = n0,
     server_clients = Map.empty, rev_server_clients = Map.empty, clients = Map.empty,
     peers = Map.empty, client_endpoints = Map.empty, msg_heap = pheap_empty, facts = [], sent = []\<rparr>"

text \<open>\<open>++next_client_id_\<close>, a \<open>long int\<close>.\<close>

definition with_fresh_id :: "(int \<Rightarrow> 'm comm \<Rightarrow> 'm comm) \<Rightarrow> 'm comm \<Rightarrow> 'm comm mutation" where
  "with_fresh_id f s =
     (let i = next_client_id s + 1 in
      if i \<ge> 2 ^ 63 then throwing (UndefinedBehaviour ''next_client_id_ overflows'') s
      else ok (f i (s\<lparr>next_client_id := i\<rparr>)))"

definition assert_fact :: "cfact \<Rightarrow> 'm comm \<Rightarrow> 'm comm" where
  "assert_fact f s = s\<lparr>facts := facts s @ [f]\<rparr>"

section \<open>Facts for messages\<close>

definition client_type_text :: "client_type \<Rightarrow> string" where
  "client_type_text ct =
     (if ct = CT_CLIENT then ''CLIENT'' else if ct = CT_SERVER then ''SERVER'' else ''PEER'')"

text \<open>The fact holds a new handle of the message; it is deleted when the fact is not taken.\<close>

definition clips_assert_message ::
  "'m cenv \<Rightarrow> int \<times> int \<Rightarrow> endpoint \<Rightarrow> 16 word \<Rightarrow> 16 word \<Rightarrow> 'm \<Rightarrow> client_type \<Rightarrow> 32 word
     \<Rightarrow> 'm comm \<Rightarrow> 'm comm" where
  "clips_assert_message E tv ep cid mt m ct client s =
     (if ce_template E then
        (let (h, ptr) = new_message m (msg_heap s);
             f = \<lparr>slot_type = full_name (desc_of (ce_pb E) m), slot_comp_id = cid,
                  slot_msg_type = mt,
                  slot_rcvd_via = (if client = 0 then ''BROADCAST'' else ''STREAM''),
                  slot_rcvd_at = tv, slot_rcvd_from = ep,
                  slot_client_type = client_type_text ct, slot_client_id = client,
                  slot_ptr = ptr\<rparr>
         in if ce_accepts E f then assert_fact (F_Msg f) (s\<lparr>msg_heap := h\<rparr>)
            else s\<lparr>msg_heap := h\<lparr>ptrs := (ptrs h)(ptr := None)\<rparr>\<rparr>)
      else s)"

text \<open>\<open>client_endpoints_[i]\<close> makes an entry when there is none.\<close>

definition endpoint_at :: "int \<Rightarrow> 'm comm \<Rightarrow> 'm comm \<times> endpoint" where
  "endpoint_at i s =
     (case client_endpoints s i of
        Some ep \<Rightarrow> (s, ep)
      | None \<Rightarrow> (s\<lparr>client_endpoints := (client_endpoints s)(i \<mapsto> ([], 0))\<rparr>, ([], 0)))"

section \<open>The handlers of the server\<close>

definition handle_server_client_connected ::
  "client_id \<Rightarrow> endpoint \<Rightarrow> 'm comm \<Rightarrow> 'm comm mutation" where
  "handle_server_client_connected client ep =
     with_fresh_id (\<lambda>i s. assert_fact (F_Server_Client_Connected i ep)
       (s\<lparr>client_endpoints := (client_endpoints s)(i \<mapsto> ep),
          server_clients := (server_clients s)(i \<mapsto> client),
          rev_server_clients := (rev_server_clients s)(client \<mapsto> i)\<rparr>))"

text \<open>The local variable that keeps the identifier is -1 when there is none.\<close>

definition handle_server_client_disconnected :: "client_id \<Rightarrow> 'm comm \<Rightarrow> 'm comm" where
  "handle_server_client_disconnected client s =
     (let (i, s1) =
        (case rev_server_clients s client of
           Some i \<Rightarrow> (i, s\<lparr>rev_server_clients := (rev_server_clients s)(client := None),
                           server_clients := (server_clients s)(i := None)\<rparr>)
         | None \<Rightarrow> (-1, s))
      in if i \<ge> 0 then assert_fact (F_Server_Client_Disconnected i) s1 else s1)"

definition handle_server_client_msg ::
  "'m cenv \<Rightarrow> int \<times> int \<Rightarrow> client_id \<Rightarrow> 16 word \<Rightarrow> 16 word \<Rightarrow> 'm \<Rightarrow> 'm comm \<Rightarrow> 'm comm" where
  "handle_server_client_msg E tv client cid mt m s =
     (case rev_server_clients s client of
        None \<Rightarrow> s
      | Some i \<Rightarrow>
          (let (s1, ep) = endpoint_at i s in
           clips_assert_message E tv ep cid mt m CT_SERVER (word_of_int i) s1))"

definition handle_server_client_fail ::
  "client_id \<Rightarrow> 16 word \<Rightarrow> 16 word \<Rightarrow> string \<Rightarrow> 'm comm \<Rightarrow> 'm comm" where
  "handle_server_client_fail client cid mt what s =
     (case rev_server_clients s client of
        None \<Rightarrow> s
      | Some i \<Rightarrow>
          (let (s1, ep) = endpoint_at i s in
           assert_fact (F_Server_Receive_Failed cid mt i what ep) s1))"

fun on_server_signal ::
  "'m cenv \<Rightarrow> int \<times> int \<Rightarrow> endpoint \<Rightarrow> 'm server_signal \<Rightarrow> 'm comm \<Rightarrow> 'm comm mutation" where
  "on_server_signal E tv ep (Srv_Connected c) s = handle_server_client_connected c ep s"
| "on_server_signal E tv ep (Srv_Disconnected c) s = ok (handle_server_client_disconnected c s)"
| "on_server_signal E tv ep (Srv_Rcvd c cid mt m) s = ok (handle_server_client_msg E tv c cid mt m s)"
| "on_server_signal E tv ep (Srv_Recv_Failed c cid mt what) s =
     ok (handle_server_client_fail c cid mt what s)"

section \<open>The handlers of clients and peers\<close>

fun on_client_signal ::
  "'m cenv \<Rightarrow> int \<times> int \<Rightarrow> int \<Rightarrow> 'm signal \<Rightarrow> 'm comm \<Rightarrow> 'm comm mutation" where
  "on_client_signal E tv i Sig_Connected s = ok (assert_fact (F_Client_Connected i) s)"
| "on_client_signal E tv i Sig_Disconnected s = ok (assert_fact (F_Client_Disconnected i) s)"
| "on_client_signal E tv i (Sig_Rcvd cid mt m) s =
     ok (clips_assert_message E tv ([], 0) cid mt m CT_CLIENT (word_of_int i) s)"
| "on_client_signal E tv i (Sig_Recv_Failed cid mt what) s =
     ok (assert_fact (F_Receive_Failed i cid mt what) s)"

text \<open>The two error handlers of a peer only have a commented-out log line in them.\<close>

fun on_peer_signal ::
  "'m cenv \<Rightarrow> int \<times> int \<Rightarrow> int \<Rightarrow> (endpoint, 'm) psignal \<Rightarrow> 'm comm \<Rightarrow> 'm comm mutation" where
  "on_peer_signal E tv i (P_Rcvd ep cid mt m) s =
     ok (clips_assert_message E tv ep cid mt m CT_PEER (word_of_int i) s)"
| "on_peer_signal E tv i (P_Raw ep fh b) s = ok s"
| "on_peer_signal E tv i (P_Recv_Error ep what) s = ok s"
| "on_peer_signal E tv i (P_Send_Error what) s = ok s"

fun run_handlers :: "('g \<Rightarrow> 'm comm \<Rightarrow> 'm comm mutation) \<Rightarrow> 'g list \<Rightarrow> 'm comm \<Rightarrow> 'm comm mutation" where
  "run_handlers f [] s = ok s"
| "run_handlers f (g # gs) s = andThen (f g s) (run_handlers f gs)"

text \<open>An operation inside the server, a client or a peer, then the handlers.\<close>

definition server_event ::
  "'m cenv \<Rightarrow> int \<times> int \<Rightarrow> endpoint \<Rightarrow> ('m pserver \<Rightarrow> 'm pserver mutation) \<Rightarrow> 'm comm \<Rightarrow> 'm comm mutation"
where
  "server_event E tv ep f s =
     (case server s of
        None \<Rightarrow> ok s
      | Some v \<Rightarrow>
          (case f (v\<lparr>srv_signals := []\<rparr>) of
             (v', x) \<Rightarrow>
               andThen (run_handlers (on_server_signal E tv ep) (srv_signals v') (s\<lparr>server := Some v'\<rparr>))
                 (\<lambda>s. (s, x))))"

definition session_event ::
  "client_id \<Rightarrow> ('m session \<Rightarrow> 'm pserver \<Rightarrow> 'm pserver mutation) \<Rightarrow> 'm pserver \<Rightarrow> 'm pserver mutation" where
  "session_event c f v = (case objs v c of None \<Rightarrow> ok v | Some s \<Rightarrow> f s v)"

definition client_event ::
  "'m cenv \<Rightarrow> int \<times> int \<Rightarrow> int \<Rightarrow> ('m sclient \<Rightarrow> 'm sclient mutation) \<Rightarrow> 'm comm \<Rightarrow> 'm comm mutation" where
  "client_event E tv i f s =
     (case clients s i of
        None \<Rightarrow> ok s
      | Some c \<Rightarrow>
          (case f (c\<lparr>c_signals := []\<rparr>) of
             (c', x) \<Rightarrow>
               andThen (run_handlers (on_client_signal E tv i) (c_signals c')
                          (s\<lparr>clients := (clients s)(i \<mapsto> c')\<rparr>))
                 (\<lambda>s. (s, x))))"

definition peer_event ::
  "'m cenv \<Rightarrow> int \<times> int \<Rightarrow> int \<Rightarrow> ((endpoint, 'm) peer \<Rightarrow> (endpoint, 'm) peer mutation)
     \<Rightarrow> 'm comm \<Rightarrow> 'm comm mutation" where
  "peer_event E tv i f s =
     (case peers s i of
        None \<Rightarrow> ok s
      | Some p \<Rightarrow>
          (case f (p\<lparr>p_signals := []\<rparr>) of
             (p', x) \<Rightarrow>
               andThen (run_handlers (on_peer_signal E tv i) (p_signals p')
                          (s\<lparr>peers := (peers s)(i \<mapsto> p')\<rparr>))
                 (\<lambda>s. (s, x))))"

section \<open>The functions for CLIPS\<close>

text \<open>\<open>bound\<close>: the port could be opened; the constructor of the server throws otherwise.\<close>

definition enable_server :: "int \<Rightarrow> bool \<Rightarrow> byte list \<Rightarrow> 'm comm \<Rightarrow> 'm comm mutation" where
  "enable_server port bound junk s =
     (if port > 0 \<and> server s = None then
        (if bound then ok (s\<lparr>server := Some (server_new junk)\<rparr>)
         else throwing (RuntimeError ''bind'') s)
      else ok s)"

definition disable_server :: "'m comm \<Rightarrow> 'm comm" where
  "disable_server s = s\<lparr>server := None\<rparr>"

record peer_args =
  pa_locals :: "endpoint list"
  pa_bound :: "int \<Rightarrow> bool"
  pa_seed :: "64 word option"
  pa_junk :: "byte list \<times> byte list"

text \<open>
  \<open>pa_bound\<close>: which ports can be opened to receive on. The returned identifier is 0 when
  nothing was made; the peer is connected to the handlers after it has been put into the map.
\<close>

definition peer_create_local_crypto ::
  "'m cenv \<Rightarrow> peer_args \<Rightarrow> int \<Rightarrow> int \<Rightarrow> string \<Rightarrow> string \<Rightarrow> 'm comm \<Rightarrow> 'm comm mutation \<times> int" where
  "peer_create_local_crypto E a send_port recv_port key nm s =
     (if send_port > 0 then
        (if \<not> pa_bound a (if recv_port \<le> 0 then send_port else recv_port) then (throwing (RuntimeError ''bind'') s, 0)
         else case peer_new (peer_env E s) (pa_locals a) key nm PB_FRAME_V2 (pa_seed a) (pa_junk a) of
           (p, Some x) \<Rightarrow> (throwing x s, 0)
         | (p, None) \<Rightarrow>
             (with_fresh_id (\<lambda>i s. s\<lparr>peers := (peers s)(i \<mapsto> p\<lparr>has_slots := True\<rparr>)\<rparr>) s,
              next_client_id s + 1))
      else (ok s, 0))"

definition peer_create_crypto ::
  "'m cenv \<Rightarrow> peer_args \<Rightarrow> int \<Rightarrow> string \<Rightarrow> string \<Rightarrow> 'm comm \<Rightarrow> 'm comm mutation \<times> int" where
  "peer_create_crypto E a port key nm s = peer_create_local_crypto E a port port key nm s"

definition peer_create :: "'m cenv \<Rightarrow> peer_args \<Rightarrow> int \<Rightarrow> 'm comm \<Rightarrow> 'm comm mutation \<times> int" where
  "peer_create E a port s = peer_create_local_crypto E a port port [] [] s"

definition peer_create_local ::
  "'m cenv \<Rightarrow> peer_args \<Rightarrow> int \<Rightarrow> int \<Rightarrow> 'm comm \<Rightarrow> 'm comm mutation \<times> int" where
  "peer_create_local E a send_port recv_port s =
     peer_create_local_crypto E a send_port recv_port [] [] s"

definition peer_destroy :: "int \<Rightarrow> 'm comm \<Rightarrow> 'm comm" where
  "peer_destroy i s = (if peers s i \<noteq> None then s\<lparr>peers := (peers s)(i := None)\<rparr> else s)"

definition comm_setup_crypto ::
  "'m cenv \<Rightarrow> int \<Rightarrow> string \<Rightarrow> string \<Rightarrow> 64 word option \<Rightarrow> 'm comm \<Rightarrow> 'm comm mutation" where
  "comm_setup_crypto E i key nm seed s =
     (case peers s i of
        None \<Rightarrow> ok s
      | Some p \<Rightarrow>
          (case peer_setup_crypto (peer_env E s) key nm seed p of
             (p', x) \<Rightarrow> (s\<lparr>peers := (peers s)(i \<mapsto> p')\<rparr>, x)))"

text \<open>
  \<open>pb-register-type\<close>: a \<open>std::runtime_error\<close> becomes false, every other exception goes on.
\<close>

definition clips_pb_register_type :: "'m cenv \<Rightarrow> string \<Rightarrow> 'm comm \<Rightarrow> 'm comm mutation \<times> bool" where
  "clips_pb_register_type E nm s =
     (case add_message_type (ce_pb E) nm (message_register s) of
        (r, None) \<Rightarrow> (ok (s\<lparr>message_register := r\<rparr>), True)
      | (r, Some (RuntimeError _)) \<Rightarrow> (ok (s\<lparr>message_register := r\<rparr>), False)
      | (r, Some x) \<Rightarrow> (throwing x (s\<lparr>message_register := r\<rparr>), False))"

definition clips_pb_client_connect :: "int \<Rightarrow> byte list \<Rightarrow> 'm comm \<Rightarrow> 'm comm mutation \<times> int" where
  "clips_pb_client_connect port junk s =
     (if port \<le> 0 then (ok s, 0)
      else (with_fresh_id (\<lambda>i s. s\<lparr>clients := (clients s)(i \<mapsto> client_new PB_FRAME_V2 junk)\<rparr>) s,
            next_client_id s + 1))"

definition emit_sent :: "'m sent_signal \<Rightarrow> 'm comm \<Rightarrow> 'm comm" where
  "emit_sent g s = s\<lparr>sent := sent s @ [g]\<rparr>"

text \<open>\<open>std::runtime_error\<close> and the exception of the protobuf library are caught.\<close>

definition catch_send :: "'s mutation \<Rightarrow> 's mutation" where
  "catch_send r =
     (case r of (s, Some (RuntimeError _)) \<Rightarrow> ok s | (s, Some (LibraryException _)) \<Rightarrow> ok s | _ \<Rightarrow> r)"

definition catch_fatal :: "'s mutation \<Rightarrow> 's mutation" where
  "catch_fatal r = (case r of (s, Some (LibraryException _)) \<Rightarrow> ok s | _ \<Rightarrow> r)"

definition catch_runtime :: "'s mutation \<Rightarrow> 's mutation" where
  "catch_runtime r = (case r of (s, Some (RuntimeError _)) \<Rightarrow> ok s | _ \<Rightarrow> r)"

text \<open>The three ways of \<open>pb-send\<close>, each with its signal after it.\<close>

definition send_server ::
  "'m cenv \<Rightarrow> byte \<times> byte \<Rightarrow> client_id \<Rightarrow> 'm \<Rightarrow> 'm pserver \<Rightarrow> 'm comm \<Rightarrow> 'm comm mutation" where
  "send_server E rsv c m v s =
     (case server_send_msg (stream_env E s) rsv c m v of
        (v', x) \<Rightarrow>
          andThen (s\<lparr>server := Some v'\<rparr>, x) (\<lambda>s. ok (emit_sent (Server_Sent c m) s)))"

definition send_client ::
  "'m cenv \<Rightarrow> byte \<times> byte \<Rightarrow> int \<Rightarrow> 'm \<Rightarrow> 'm sclient \<Rightarrow> 'm comm \<Rightarrow> 'm comm mutation" where
  "send_client E rsv i m c s =
     (case client_send_msg (stream_env E s) rsv m c of
        (c', x) \<Rightarrow>
          andThen (s\<lparr>clients := (clients s)(i \<mapsto> c')\<rparr>, x)
            (\<lambda>s. let (s1, ep) = endpoint_at i s in ok (emit_sent (Client_Sent ep m) s1)))"

definition send_peer ::
  "'m cenv \<Rightarrow> byte \<times> byte \<Rightarrow> int \<Rightarrow> 'm \<Rightarrow> (endpoint, 'm) peer \<Rightarrow> 'm comm \<Rightarrow> 'm comm mutation" where
  "send_peer E rsv i m p s =
     (case peer_send_msg (peer_env E s) rsv m p of
        (p', x) \<Rightarrow> (s\<lparr>peers := (peers s)(i \<mapsto> p')\<rparr>, x))"

definition clips_pb_send ::
  "'m cenv \<Rightarrow> byte \<times> byte \<Rightarrow> int \<Rightarrow> nat \<Rightarrow> 'm comm \<Rightarrow> 'm comm mutation" where
  "clips_pb_send E rsv i q s =
     (case deref q (msg_heap s) of
        Inl x \<Rightarrow> throwing x s
      | Inr None \<Rightarrow> ok s
      | Inr (Some (k, m)) \<Rightarrow>
          catch_send
            (case (server s, server_clients s i) of
               (Some v, Some c) \<Rightarrow> send_server E rsv c m v s
             | _ \<Rightarrow>
                 (case clients s i of
                    Some c \<Rightarrow> send_client E rsv i m c s
                  | None \<Rightarrow>
                      (case peers s i of
                         Some p \<Rightarrow> andThen (send_peer E rsv i m p s)
                           (\<lambda>s. ok (emit_sent (Peer_Sent i m) s))
                       | None \<Rightarrow> ok s))))"

definition clips_pb_broadcast ::
  "'m cenv \<Rightarrow> byte \<times> byte \<Rightarrow> int \<Rightarrow> nat \<Rightarrow> 'm comm \<Rightarrow> 'm comm mutation" where
  "clips_pb_broadcast E rsv i q s =
     (case deref q (msg_heap s) of
        Inl x \<Rightarrow> throwing x s
      | Inr None \<Rightarrow> ok s
      | Inr (Some (k, m)) \<Rightarrow>
          (case peers s i of
             None \<Rightarrow> ok s
           | Some p \<Rightarrow>
               andThen (catch_fatal (send_peer E rsv i m p s))
                 (\<lambda>s. ok (emit_sent (Peer_Sent i m) s))))"

definition clips_pb_disconnect :: "int \<Rightarrow> 'm comm \<Rightarrow> 'm comm mutation" where
  "clips_pb_disconnect i s =
     catch_runtime
       (case server_clients s i of
          Some c \<Rightarrow>
            (case server s of
               None \<Rightarrow> throwing (UndefinedBehaviour ''server_ is NULL'') s
             | Some v \<Rightarrow>
                 ok (s\<lparr>server := Some (server_disconnect c v),
                       server_clients := (server_clients s)(i := None),
                       rev_server_clients := (rev_server_clients s)(c := None)\<rparr>))
        | None \<Rightarrow>
            (case clients s i of
               Some _ \<Rightarrow> ok (s\<lparr>clients := (clients s)(i := None)\<rparr>)
             | None \<Rightarrow> ok s))"

end
