(* ===== verification/Pb_Comm.thy ===== *)
theory Pb_Comm imports Pb_Clips
begin

text \<open>
  What the communicator of \<open>Pb_Clips\<close> promises over every sequence of calls and network
  events: the identifiers of server clients, connections and peers never clash and are never
  reused, the two maps between identifiers and sessions fit together, and an answer to a
  message goes to the session it came from.
\<close>

section \<open>Events\<close>

text \<open>
  The calls from CLIPS and the completions of the network operations. \<open>Ev_Messages\<close> stands
  for the functions of \<open>Pb_Fields\<close>, which only change the messages.
\<close>

datatype 'm event =
    Ev_Enable int bool "byte list"
  | Ev_Disable
  | Ev_Accept "int \<times> int" endpoint bool "byte list"
  | Ev_Session_Header "int \<times> int" client_id "byte list option"
  | Ev_Session_Message "int \<times> int" client_id "byte list option"
  | Ev_Session_Write "int \<times> int" client_id "nat option"
  | Ev_Connect int "byte list"
  | Ev_Client_Resolve "int \<times> int" int bool
  | Ev_Client_Connect "int \<times> int" int bool
  | Ev_Client_Header "int \<times> int" int "byte list option"
  | Ev_Client_Message "int \<times> int" int "byte list option"
  | Ev_Client_Write "int \<times> int" int "nat option"
  | Ev_Peer_Create peer_args int int string string
  | Ev_Peer_Destroy int
  | Ev_Peer_Crypto int string string "64 word option"
  | Ev_Peer_Resolve "int \<times> int" int bool
  | Ev_Peer_Recv "int \<times> int" int bool endpoint "byte list"
  | Ev_Peer_Sent "int \<times> int" int bool
  | Ev_Send "byte \<times> byte" int nat
  | Ev_Broadcast "byte \<times> byte" int nat
  | Ev_Disconnect int
  | Ev_Register string
  | Ev_Messages "'m pheap"

fun perform :: "'m cenv \<Rightarrow> 'm event \<Rightarrow> 'm comm \<Rightarrow> 'm comm mutation" where
  "perform E (Ev_Enable port bound junk) s = enable_server port bound junk s"
| "perform E Ev_Disable s = ok (disable_server s)"
| "perform E (Ev_Accept tv ep err junk) s =
     server_event E tv ep (\<lambda>v. ok (server_handle_accept err junk v)) s"
| "perform E (Ev_Session_Header tv c inp) s =
     server_event E tv ([], 0)
       (session_event c (\<lambda>x v. ok (session_handle_read_header (stream_env E s) inp x v))) s"
| "perform E (Ev_Session_Message tv c inp) s =
     server_event E tv ([], 0)
       (session_event c (session_handle_read_message (stream_env E s) inp)) s"
| "perform E (Ev_Session_Write tv c inp) s =
     server_event E tv ([], 0)
       (session_event c (\<lambda>x v. ok (session_handle_write inp x v))) s"
| "perform E (Ev_Connect port junk) s = fst (clips_pb_client_connect port junk s)"
| "perform E (Ev_Client_Resolve tv i err) s =
     client_event E tv i (\<lambda>c. ok (client_handle_resolve err c)) s"
| "perform E (Ev_Client_Connect tv i err) s =
     client_event E tv i (\<lambda>c. ok (client_handle_connect err c)) s"
| "perform E (Ev_Client_Header tv i inp) s =
     client_event E tv i (\<lambda>c. ok (client_handle_read_header (stream_env E s) inp c)) s"
| "perform E (Ev_Client_Message tv i inp) s =
     client_event E tv i (client_handle_read_message (stream_env E s) inp) s"
| "perform E (Ev_Client_Write tv i inp) s =
     client_event E tv i (\<lambda>c. ok (client_handle_write inp c)) s"
| "perform E (Ev_Peer_Create a sp rp key nm) s = fst (peer_create_local_crypto E a sp rp key nm s)"
| "perform E (Ev_Peer_Destroy i) s = ok (peer_destroy i s)"
| "perform E (Ev_Peer_Crypto i key nm seed) s = comm_setup_crypto E i key nm seed s"
| "perform E (Ev_Peer_Resolve tv i err) s =
     peer_event E tv i (peer_handle_resolve (peer_env E s) err) s"
| "perform E (Ev_Peer_Recv tv i err from packet) s =
     peer_event E tv i (peer_handle_recv (peer_env E s) err from packet) s"
| "perform E (Ev_Peer_Sent tv i err) s =
     peer_event E tv i (peer_handle_sent (peer_env E s) err) s"
| "perform E (Ev_Send rsv i q) s = clips_pb_send E rsv i q s"
| "perform E (Ev_Broadcast rsv i q) s = clips_pb_broadcast E rsv i q s"
| "perform E (Ev_Disconnect i) s = clips_pb_disconnect i s"
| "perform E (Ev_Register nm) s = fst (clips_pb_register_type E nm s)"
| "perform E (Ev_Messages h) s = ok (s\<lparr>msg_heap := h\<rparr>)"

text \<open>A run goes on after an exception: the caller of the function, CLIPS or asio, sees it.\<close>

fun run_events :: "'m cenv \<Rightarrow> 'm event list \<Rightarrow> 'm comm \<Rightarrow> 'm comm" where
  "run_events E [] s = s"
| "run_events E (ev # evs) s = run_events E evs (fst (perform E ev s))"

lemma run_events_append: "run_events E (as @ bs) s = run_events E bs (run_events E as s)"
  by (induction as arbitrary: s) auto

section \<open>The identifier table\<close>

text \<open>
  The abstract view: what an identifier stands for, and the last identifier given out. An
  abstract step gives out the next identifier or retires one.
\<close>

datatype dest = To_Server client_id | To_Client | To_Peer

record id_table =
  last_id :: int
  entries :: "int \<Rightarrow> dest option"

inductive table_step :: "id_table \<Rightarrow> id_table \<Rightarrow> bool" where
  issue: "table_step t (t\<lparr>last_id := last_id t + 1, entries := (entries t)(last_id t + 1 \<mapsto> d)\<rparr>)"
| retire: "table_step t (t\<lparr>entries := (entries t)(i := None)\<rparr>)"

inductive_cases table_stepE: "table_step t t'"

abbreviation table_steps :: "id_table \<Rightarrow> id_table \<Rightarrow> bool" where
  "table_steps \<equiv> table_step\<^sup>*\<^sup>*"

definition table_ok :: "id_table \<Rightarrow> bool" where
  "table_ok t \<longleftrightarrow> (\<forall>i. last_id t < i \<longrightarrow> entries t i = None)"

lemma table_steps_ok: "table_steps t t' \<Longrightarrow> table_ok t \<Longrightarrow> table_ok t'"
  by (induction rule: rtranclp_induct) (auto simp: table_ok_def elim!: table_stepE)

lemma table_steps_last: "table_steps t t' \<Longrightarrow> last_id t \<le> last_id t'"
  by (induction rule: rtranclp_induct) (auto elim!: table_stepE)

text \<open>An identifier that was given out is never given to something else.\<close>

lemma table_steps_never_reused:
  "table_steps t t' \<Longrightarrow> i \<le> last_id t \<Longrightarrow> entries t' i = None \<or> entries t' i = entries t i"
proof (induction rule: rtranclp_induct)
  case (step t1 t2)
  have "i \<le> last_id t1"
    using table_steps_last [OF step.hyps(1)] step.prems by simp
  with step.hyps(2) step.IH [OF step.prems] show ?case
    by (auto elim!: table_stepE)
qed simp

definition route :: "'m comm \<Rightarrow> int \<Rightarrow> dest option" where
  "route s i =
     (case server_clients s i of
        Some c \<Rightarrow> Some (To_Server c)
      | None \<Rightarrow>
          (if clients s i \<noteq> None then Some To_Client
           else if peers s i \<noteq> None then Some To_Peer else None))"

definition table_of :: "'m comm \<Rightarrow> id_table" where
  "table_of s = \<lparr>last_id = next_client_id s, entries = route s\<rparr>"

section \<open>The invariant\<close>

definition comm_ok :: "'m comm \<Rightarrow> bool" where
  "comm_ok s \<longleftrightarrow>
     (\<forall>c i. rev_server_clients s c = Some i \<longrightarrow> server_clients s i = Some c)
     \<and> (\<forall>i. next_client_id s < i \<longrightarrow> server_clients s i = None \<and> clients s i = None \<and> peers s i = None)
     \<and> (\<forall>i. server_clients s i \<noteq> None \<longrightarrow> clients s i = None \<and> peers s i = None)
     \<and> (\<forall>i. clients s i \<noteq> None \<longrightarrow> peers s i = None)"

lemma comm_ok_new: "comm_ok (comm_new n0)"
  by (simp add: comm_ok_def comm_new_def)

lemma comm_ok_rev: "comm_ok s \<Longrightarrow> rev_server_clients s c = Some i \<Longrightarrow> server_clients s i = Some c"
  by (simp add: comm_ok_def)

lemma comm_ok_le: "comm_ok s \<Longrightarrow> server_clients s i = Some c \<Longrightarrow> i \<le> next_client_id s"
  unfolding comm_ok_def by (metis linorder_not_le option.distinct(1))

lemma comm_ok_rev_inj:
  "\<lbrakk> comm_ok s; rev_server_clients s c = Some i; rev_server_clients s d = Some i \<rbrakk> \<Longrightarrow> d = c"
  using comm_ok_rev [of s c i] comm_ok_rev [of s d i] by simp

lemma comm_ok_peer:
  assumes "comm_ok s" and "peers s i \<noteq> None"
  shows "server_clients s i = None" "clients s i = None"
proof -
  have "server_clients s i = None \<and> clients s i = None"
    using assms unfolding comm_ok_def by metis
  then show "server_clients s i = None" "clients s i = None"
    by simp_all
qed

text \<open>
  One concrete step: it keeps the invariant and is a sequence of abstract steps. This is a
  relation between states, so that the handlers can be composed.
\<close>

definition comm_moves :: "'m comm \<Rightarrow> 'm comm \<Rightarrow> bool" where
  "comm_moves s s' \<longleftrightarrow> (comm_ok s \<longrightarrow> comm_ok s' \<and> table_steps (table_of s) (table_of s'))"

lemma moves_refl [simp]: "comm_moves s s"
  by (simp add: comm_moves_def)

lemma moves_trans [trans]: "comm_moves s s' \<Longrightarrow> comm_moves s' s'' \<Longrightarrow> comm_moves s s''"
  unfolding comm_moves_def by (meson rtranclp_trans)

text \<open>What the invariant and the table depend on.\<close>

definition same_ids :: "'m comm \<Rightarrow> 'm comm \<Rightarrow> bool" where
  "same_ids s s' \<longleftrightarrow> next_client_id s' = next_client_id s \<and> server_clients s' = server_clients s
     \<and> rev_server_clients s' = rev_server_clients s
     \<and> (\<forall>i. (clients s' i = None) = (clients s i = None)) \<and> (\<forall>i. (peers s' i = None) = (peers s i = None))"

lemma same_ids_moves: "same_ids s s' \<Longrightarrow> comm_moves s s'"
proof -
  assume a: "same_ids s s'"
  have "route s' = route s"
    using a by (auto simp: same_ids_def route_def fun_eq_iff split: option.splits)
  then have "table_of s' = table_of s" and "comm_ok s \<Longrightarrow> comm_ok s'"
    using a by (simp_all add: table_of_def same_ids_def comm_ok_def)
  then show ?thesis
    by (simp add: comm_moves_def)
qed

lemma moves_andThen:
  "comm_moves s (fst r) \<Longrightarrow> (\<And>t. comm_moves t (fst (f t))) \<Longrightarrow> comm_moves s (fst (andThen r f))"
  by (auto simp: andThen_def intro: moves_trans split: prod.splits option.splits)

lemma same_ids_intros [simp]:
  "same_ids s (assert_fact f s)" "same_ids s (emit_sent g s)" "same_ids s (s\<lparr>msg_heap := h\<rparr>)"
  "same_ids s (s\<lparr>server := v\<rparr>)" "same_ids s (fst (endpoint_at i s))" "same_ids s (s\<lparr>message_register := r\<rparr>)"
  by (auto simp: same_ids_def assert_fact_def emit_sent_def endpoint_at_def split: option.splits)

lemma same_ids_trans: "same_ids s t \<Longrightarrow> same_ids t u \<Longrightarrow> same_ids s u"
  by (simp add: same_ids_def)

lemma same_ids_assert_message: "same_ids s (clips_assert_message E tv ep cid mt m ct c s)"
  by (simp add: clips_assert_message_def assert_fact_def same_ids_def Let_def split: prod.splits)

lemma same_ids_fail: "same_ids s (handle_server_client_fail c cid mt what s)"
  by (auto simp: handle_server_client_fail_def endpoint_at_def assert_fact_def same_ids_def
      split: option.splits)

lemma same_ids_msg: "same_ids s (handle_server_client_msg E tv c cid mt m s)"
proof (cases "rev_server_clients s c")
  case (Some i)
  obtain s1 ep where e: "endpoint_at i s = (s1, ep)"
    by (cases "endpoint_at i s")
  then have "same_ids s s1"
    using same_ids_intros(5) [of s i] by simp
  then show ?thesis
    using Some e by (auto simp: handle_server_client_msg_def intro: same_ids_trans same_ids_assert_message)
qed (simp add: handle_server_client_msg_def same_ids_def)

text \<open>Giving out an identifier, for each of the three maps.\<close>

lemma moves_issue:
  assumes "\<And>s0. comm_ok s0 \<Longrightarrow> let s1 = f (next_client_id s0 + 1) (s0\<lparr>next_client_id := next_client_id s0 + 1\<rparr>)
       in comm_ok s1 \<and> next_client_id s1 = next_client_id s0 + 1
        \<and> (\<exists>d. route s1 = (route s0)(next_client_id s0 + 1 \<mapsto> d))"
  shows "comm_moves s (fst (with_fresh_id f s))"
proof (cases "next_client_id s + 1 \<ge> 2 ^ 63")
  case False
  show ?thesis
    unfolding comm_moves_def
  proof (intro impI)
    assume "comm_ok s"
    let ?s1 = "f (next_client_id s + 1) (s\<lparr>next_client_id := next_client_id s + 1\<rparr>)"
    obtain d where *: "comm_ok ?s1" "next_client_id ?s1 = next_client_id s + 1"
        "route ?s1 = (route s)(next_client_id s + 1 \<mapsto> d)"
      using assms [OF \<open>comm_ok s\<close>] by (auto simp: Let_def)
    then have "table_of ?s1 = (table_of s)\<lparr>last_id := last_id (table_of s) + 1,
        entries := (entries (table_of s))(last_id (table_of s) + 1 \<mapsto> d)\<rparr>"
      by (simp add: table_of_def)
    then have "table_step (table_of s) (table_of ?s1)"
      using table_step.issue [of "table_of s" d] by simp
    with * False show "comm_ok (fst (with_fresh_id f s))
        \<and> table_steps (table_of s) (table_of (fst (with_fresh_id f s)))"
      by (simp add: with_fresh_id_def Let_def)
  qed
qed (simp add: with_fresh_id_def Let_def)

lemma moves_connected: "comm_moves s (fst (handle_server_client_connected c ep s))"
  unfolding handle_server_client_connected_def
proof (rule moves_issue)
  fix s :: "'a comm"
  assume ok: "comm_ok s"
  let ?i = "next_client_id s + 1"
  have none: "server_clients s ?i = None" "clients s ?i = None" "peers s ?i = None"
    using ok by (simp_all add: comm_ok_def)
  have rev: "rev_server_clients s d \<noteq> Some ?i" for d
    using comm_ok_rev [OF ok, of d ?i] none(1) by auto
  show "let s1 = assert_fact (F_Server_Client_Connected ?i ep)
      (s\<lparr>next_client_id := ?i\<rparr>\<lparr>client_endpoints := (client_endpoints (s\<lparr>next_client_id := ?i\<rparr>))(?i \<mapsto> ep),
          server_clients := (server_clients (s\<lparr>next_client_id := ?i\<rparr>))(?i \<mapsto> c),
          rev_server_clients := (rev_server_clients (s\<lparr>next_client_id := ?i\<rparr>))(c \<mapsto> ?i)\<rparr>)
    in comm_ok s1 \<and> next_client_id s1 = ?i \<and> (\<exists>d. route s1 = (route s)(?i \<mapsto> d))"
    using ok none rev
    by (auto simp: Let_def comm_ok_def assert_fact_def route_def fun_eq_iff split: option.splits)
qed

lemma moves_connect: "comm_moves s (fst (fst (clips_pb_client_connect port junk s)))"
  unfolding clips_pb_client_connect_def
  by (auto intro!: moves_issue simp: Let_def comm_ok_def route_def fun_eq_iff split: option.splits)

lemma moves_peer_create: "comm_moves s (fst (fst (peer_create_local_crypto E a sp rp key nm s)))"
  unfolding peer_create_local_crypto_def
  by (auto intro!: moves_issue simp: Let_def comm_ok_def route_def fun_eq_iff split: option.splits prod.splits)

text \<open>Retiring one.\<close>

lemma moves_retire:
  assumes "comm_ok s \<Longrightarrow> comm_ok s' \<and> next_client_id s' = next_client_id s \<and> route s' = (route s)(i := None)"
  shows "comm_moves s s'"
  unfolding comm_moves_def
proof (intro impI)
  assume "comm_ok s"
  then have *: "comm_ok s'" "table_of s' = (table_of s)\<lparr>entries := (entries (table_of s))(i := None)\<rparr>"
    using assms by (simp_all add: table_of_def)
  then show "comm_ok s' \<and> table_steps (table_of s) (table_of s')"
    using table_step.retire [of "table_of s" i] by auto
qed

lemma moves_peer_destroy: "comm_moves s (peer_destroy i s)"
proof (cases "peers s i")
  case (Some p)
  show ?thesis
  proof (rule moves_retire [where i = i])
    assume ok: "comm_ok s"
    have "server_clients s i = None" "clients s i = None"
      using comm_ok_peer [OF ok, of i] Some by simp_all
    then show "comm_ok (peer_destroy i s) \<and> next_client_id (peer_destroy i s) = next_client_id s
        \<and> route (peer_destroy i s) = (route s)(i := None)"
      using ok Some
      by (auto simp: peer_destroy_def comm_ok_def route_def fun_eq_iff split: option.splits)
  qed
qed (simp add: peer_destroy_def)

lemma moves_disconnected: "comm_moves s (handle_server_client_disconnected c s)"
proof (cases "rev_server_clients s c")
  case (Some i)
  let ?s1 = "s\<lparr>rev_server_clients := (rev_server_clients s)(c := None),
    server_clients := (server_clients s)(i := None)\<rparr>"
  have "comm_moves s ?s1"
  proof (rule moves_retire [where i = i])
    assume ok: "comm_ok s"
    have "server_clients s i = Some c" and "\<And>d. rev_server_clients s d = Some i \<Longrightarrow> d = c"
      using comm_ok_rev [OF ok Some] comm_ok_rev_inj [OF ok Some] by blast+
    then show "comm_ok ?s1 \<and> next_client_id ?s1 = next_client_id s \<and> route ?s1 = (route s)(i := None)"
      using ok by (auto simp: comm_ok_def route_def fun_eq_iff split: option.splits)
  qed
  moreover have "comm_moves ?s1 (handle_server_client_disconnected c s)"
    using Some by (auto simp: handle_server_client_disconnected_def intro: same_ids_moves)
  ultimately show ?thesis
    by (rule moves_trans)
qed (simp add: handle_server_client_disconnected_def)

lemma moves_disconnect: "comm_moves s (fst (clips_pb_disconnect i s))"
  by (auto simp: clips_pb_disconnect_def catch_runtime_def comm_ok_def route_def fun_eq_iff ok_def
      throwing_def intro!: moves_retire [where i = i] split: option.splits)

text \<open>The handlers, and the operations that run them.\<close>

lemma moves_server_signal: "comm_moves s (fst (on_server_signal E tv ep g s))"
  by (cases g) (simp_all add: moves_connected moves_disconnected same_ids_moves same_ids_msg same_ids_fail)

lemma moves_client_signal: "comm_moves s (fst (on_client_signal E tv i g s))"
  by (cases g) (simp_all add: same_ids_moves same_ids_assert_message)

lemma moves_peer_signal: "comm_moves s (fst (on_peer_signal E tv i g s))"
  by (cases g) (simp_all add: same_ids_moves same_ids_assert_message)

lemma moves_run_handlers:
  assumes "\<And>g t. comm_moves t (fst (f g t))"
  shows "comm_moves s (fst (run_handlers f gs s))"
  using assms by (induction gs arbitrary: s) (simp_all add: moves_andThen)

lemma moves_put_client: "clients s i = Some c \<Longrightarrow> comm_moves s (s\<lparr>clients := (clients s)(i \<mapsto> c')\<rparr>)"
  by (rule same_ids_moves) (simp add: same_ids_def)

lemma moves_put_peer: "peers s i = Some p \<Longrightarrow> comm_moves s (s\<lparr>peers := (peers s)(i \<mapsto> p')\<rparr>)"
  by (rule same_ids_moves) (simp add: same_ids_def)

lemma moves_server_event: "comm_moves s (fst (server_event E tv ep f s))"
proof (cases "server s")
  case (Some v)
  obtain v' x where f: "f (v\<lparr>srv_signals := []\<rparr>) = (v', x)"
    by (cases "f (v\<lparr>srv_signals := []\<rparr>)")
  have "comm_moves s (s\<lparr>server := Some v'\<rparr>)"
    by (simp add: same_ids_moves)
  then have "comm_moves s (fst (run_handlers (on_server_signal E tv ep) (srv_signals v') (s\<lparr>server := Some v'\<rparr>)))"
    by (rule moves_trans) (rule moves_run_handlers [OF moves_server_signal])
  then show ?thesis
    using Some f by (simp add: server_event_def moves_andThen)
qed (simp add: server_event_def)

lemma moves_client_event: "comm_moves s (fst (client_event E tv i f s))"
proof (cases "clients s i")
  case (Some c)
  obtain c' x where f: "f (c\<lparr>c_signals := []\<rparr>) = (c', x)"
    by (cases "f (c\<lparr>c_signals := []\<rparr>)")
  have "comm_moves s (fst (run_handlers (on_client_signal E tv i) (c_signals c')
      (s\<lparr>clients := (clients s)(i \<mapsto> c')\<rparr>)))"
    by (rule moves_trans [OF moves_put_client [OF Some]]) (rule moves_run_handlers [OF moves_client_signal])
  then show ?thesis
    using Some f by (simp add: client_event_def moves_andThen)
qed (simp add: client_event_def)

lemma moves_peer_event: "comm_moves s (fst (peer_event E tv i f s))"
proof (cases "peers s i")
  case (Some p)
  obtain p' x where f: "f (p\<lparr>p_signals := []\<rparr>) = (p', x)"
    by (cases "f (p\<lparr>p_signals := []\<rparr>)")
  have "comm_moves s (fst (run_handlers (on_peer_signal E tv i) (p_signals p')
      (s\<lparr>peers := (peers s)(i \<mapsto> p')\<rparr>)))"
    by (rule moves_trans [OF moves_put_peer [OF Some]]) (rule moves_run_handlers [OF moves_peer_signal])
  then show ?thesis
    using Some f by (simp add: peer_event_def moves_andThen)
qed (simp add: peer_event_def)

lemma catch_fst [simp]:
  "fst (catch_send r) = fst r" "fst (catch_fatal r) = fst r" "fst (catch_runtime r) = fst r"
  by (auto simp: catch_send_def catch_fatal_def catch_runtime_def split: prod.splits option.splits exn.splits)

lemma moves_send_server: "comm_moves s (fst (send_server E rsv c m v s))"
  unfolding send_server_def
  by (cases "server_send_msg (stream_env E s) rsv c m v")
    (auto intro!: moves_andThen simp: same_ids_moves)

lemma moves_send_client:
  "clients s i = Some c \<Longrightarrow> comm_moves s (fst (send_client E rsv i m c s))"
proof -
  assume c: "clients s i = Some c"
  have "comm_moves t (fst (let (s1, ep) = endpoint_at i t in ok (emit_sent (Client_Sent ep m) s1)))" for t
    using same_ids_intros(5) [of t i] same_ids_trans [OF _ same_ids_intros(2)]
    by (cases "endpoint_at i t") (auto intro!: same_ids_moves)
  then show ?thesis
    using moves_put_client [OF c]
    by (auto simp: send_client_def intro!: moves_andThen split: prod.splits)
qed

lemma moves_send_peer: "peers s i = Some p \<Longrightarrow> comm_moves s (fst (send_peer E rsv i m p s))"
  using moves_put_peer by (auto simp: send_peer_def split: prod.splits)

lemma moves_send: "comm_moves s (fst (clips_pb_send E rsv i q s))"
  by (auto simp: clips_pb_send_def moves_send_server moves_send_client moves_send_peer same_ids_moves
      intro!: moves_andThen split: sum.splits option.splits)

lemma moves_broadcast: "comm_moves s (fst (clips_pb_broadcast E rsv i q s))"
  by (auto simp: clips_pb_broadcast_def moves_send_peer same_ids_moves
      intro!: moves_andThen split: sum.splits option.splits)

lemma moves_register: "comm_moves s (fst (fst (clips_pb_register_type E nm s)))"
  by (auto simp: clips_pb_register_type_def same_ids_moves split: prod.splits option.splits exn.splits)

lemma moves_setup_crypto: "comm_moves s (fst (comm_setup_crypto E i key nm seed s))"
  using moves_put_peer by (auto simp: comm_setup_crypto_def split: prod.splits option.splits)

lemmas all_moves = moves_server_event moves_client_event moves_peer_event moves_send moves_broadcast
  moves_register moves_setup_crypto moves_connect moves_peer_create moves_peer_destroy moves_disconnect

lemma moves_enable: "comm_moves s (fst (enable_server port bound junk s))"
  by (simp add: enable_server_def same_ids_moves)

lemma moves_perform: "comm_moves s (fst (perform E ev s))"
  by (cases ev) (simp_all add: all_moves moves_enable disable_server_def same_ids_moves)

lemma moves_run: "comm_moves s (run_events E evs s)"
  by (induction evs arbitrary: s) (auto intro: moves_trans moves_perform)

lemma comm_ok_run: "comm_ok s \<Longrightarrow> comm_ok (run_events E evs s)"
  using moves_run [of s E evs] by (simp add: comm_moves_def)

text \<open>
  Whatever calls and network events happen: an identifier belongs to one server client,
  one connection or one peer at most and is not larger than the last one given out; and the
  session that the reverse map finds an identifier for is the session of that identifier.
\<close>

theorem comm_ids_sound:
  "comm_ok (run_events E evs (comm_new n0))"
  by (rule comm_ok_run) (rule comm_ok_new)

text \<open>
  C6. The communicator refines a table of identifiers: every sequence of calls and network
  events is, on what the identifiers stand for, a sequence of issues of the next identifier
  and of retirements. So an identifier that was given out is afterwards either retired or
  stands for what it stood for, never for something else.
\<close>

theorem comm_refines_table:
  "table_steps (table_of (run_events E evs (comm_new n0))) (table_of (run_events E (evs @ later) (comm_new n0)))
   \<and> (let s = run_events E evs (comm_new n0) in
        (i \<le> next_client_id s \<longrightarrow>
          route (run_events E (evs @ later) (comm_new n0)) i \<in> {None, route s i}))"
proof -
  let ?s = "run_events E evs (comm_new n0)"
  have "comm_ok ?s"
    by (rule comm_ok_run) (rule comm_ok_new)
  then have steps: "table_steps (table_of ?s) (table_of (run_events E (evs @ later) (comm_new n0)))"
    using moves_run [of ?s E later] by (simp add: comm_moves_def run_events_append)
  then show ?thesis
    using table_steps_never_reused [OF steps, of i] by (auto simp: table_of_def Let_def)
qed

section \<open>Identifiers and sessions\<close>

text \<open>Operations of the server keep its counters, and only an accept signals a connection.\<close>

definition srv_wf :: "'m pserver \<Rightarrow> bool" where
  "srv_wf v \<longleftrightarrow> (\<forall>c x. objs v c = Some x \<longrightarrow> s_id x = c)"

definition connects :: "'m server_signal \<Rightarrow> bool" where
  "connects g \<longleftrightarrow> (\<exists>c. g = Srv_Connected c)"

definition quiet :: "'m pserver \<Rightarrow> 'm pserver \<Rightarrow> bool" where
  "quiet v v' \<longleftrightarrow> next_cid v' = next_cid v \<and> accepting v' = accepting v \<and> (srv_wf v \<longrightarrow> srv_wf v')
     \<and> filter connects (srv_signals v') = filter connects (srv_signals v)"

lemma quiet_refl [simp]: "quiet v v"
  by (simp add: quiet_def)

lemma quiet_trans: "quiet v v' \<Longrightarrow> quiet v' v'' \<Longrightarrow> quiet v v''"
  by (simp add: quiet_def)

lemma srv_wf_put: "srv_wf v \<Longrightarrow> srv_wf (put_session x v)"
  unfolding srv_wf_def put_session_def by simp

lemma srv_wf_objs: "objs w = objs v \<Longrightarrow> srv_wf w = srv_wf v"
  unfolding srv_wf_def by simp

lemma emit_sel [simp]:
  "objs (srv_emit g v) = objs v" "next_cid (srv_emit g v) = next_cid v"
  "accepting (srv_emit g v) = accepting v" "srv_signals (srv_emit g v) = srv_signals v @ [g]"
  by (simp_all add: srv_emit_def)

lemma put_sel [simp]:
  "next_cid (put_session x v) = next_cid v" "accepting (put_session x v) = accepting v"
  "srv_signals (put_session x v) = srv_signals v"
  by (simp_all add: put_session_def)

lemma quiet_put [simp]: "quiet v w \<Longrightarrow> quiet v (put_session x w)"
  unfolding quiet_def by (simp add: srv_wf_put)

lemma quiet_emit: "\<not> connects g \<Longrightarrow> quiet v w \<Longrightarrow> quiet v (srv_emit g w)"
  unfolding quiet_def by (simp add: srv_wf_objs [of "srv_emit g w" w])

lemma quiet_disconnected [simp]: "quiet v w \<Longrightarrow> quiet v (server_disconnected c w)"
  unfolding server_disconnected_def
  by (rule quiet_emit) (simp_all add: connects_def quiet_def srv_wf_objs [of "w\<lparr>sessions := _\<rparr>" w])

lemma quiet_rcvd [simp]:
  "quiet v w \<Longrightarrow> quiet v (srv_emit (Srv_Rcvd c cid mt m) w)"
  "quiet v w \<Longrightarrow> quiet v (srv_emit (Srv_Recv_Failed c cid mt what) w)"
  by (simp_all add: quiet_emit connects_def)

lemma quiet_header: "quiet v (session_handle_read_header e inp x v)"
  by (auto simp: session_handle_read_header_def Let_def split: option.splits)

lemma quiet_message: "quiet v (fst (session_handle_read_message e inp x v))"
  by (auto simp: session_handle_read_message_def Let_def split: option.splits sum.splits exn.splits)

lemma quiet_write: "quiet v (session_handle_write inp x v)"
  by (auto simp: session_handle_write_def split: option.splits)

lemma quiet_send: "quiet v (fst (server_send_msg e rsv c m v))"
  by (auto simp: server_send_msg_def server_send_def split: sum.splits option.splits prod.splits)

lemma quiet_disconnect: "quiet v (server_disconnect c v)"
  by (auto simp: server_disconnect_def split: option.splits)

lemma quiet_session_event:
  "(\<And>x w. quiet w (fst (f x w))) \<Longrightarrow> quiet v (fst (session_event c f v))"
  by (simp add: session_event_def split: option.splits)

text \<open>The server has opened \<open>a\<close> sessions, the last of which waits to be accepted.\<close>

definition counted :: "nat \<Rightarrow> 'm pserver \<Rightarrow> bool" where
  "counted a v \<longleftrightarrow> srv_wf v \<and> accepting v = word_of_nat a \<and> next_cid v = word_of_nat (Suc a)"

lemma counted_new: "counted 1 (server_new junk)"
  by (simp add: counted_def server_new_def server_start_accept_def put_session_def srv_wf_def
      session_new_def)

lemma counted_quiet: "quiet v v' \<Longrightarrow> counted a v \<Longrightarrow> counted a v'"
  by (simp add: counted_def quiet_def)

lemma counted_start: "counted a v \<Longrightarrow> counted (Suc a) (server_start_accept junk v)"
  by (simp add: counted_def server_start_accept_def put_session_def srv_wf_def session_new_def)

lemma accept_counted:
  assumes "counted a v" and "srv_signals v = []"
  shows "counted (Suc a) (server_handle_accept err junk v)"
    and "srv_signals (server_handle_accept err junk v) \<in> {[], [Srv_Connected (word_of_nat a)]}"
proof -
  have sig: "srv_signals (server_start_accept junk w) = srv_signals w" for w :: "'a pserver"
    by (simp add: server_start_accept_def put_session_def)
  let ?w = "if err then v else (case objs v (accepting v) of None \<Rightarrow> v | Some x \<Rightarrow>
      put_session (session_start_read (x\<lparr>s_open := True\<rparr>))
        (srv_emit (Srv_Connected (s_id x)) (v\<lparr>sessions := smap_ins (s_id x) () (sessions v)\<rparr>)))"
  have "counted a ?w"
    using assms(1) by (auto simp: counted_def put_session_def srv_emit_def srv_wf_def
        session_start_read_def split: option.splits)
  then show "counted (Suc a) (server_handle_accept err junk v)"
    by (simp add: server_handle_accept_def counted_start del: if_split)
  show "srv_signals (server_handle_accept err junk v) \<in> {[], [Srv_Connected (word_of_nat a)]}"
    using assms by (auto simp: server_handle_accept_def sig counted_def put_session_def srv_emit_def
        srv_wf_def split: option.splits)
qed

text \<open>
  The maps are inverse to each other, and every known session was opened before the one
  that waits. Before the server is enabled the count is one and no session is known.
\<close>

definition paired :: "'m comm \<Rightarrow> bool" where
  "paired s \<longleftrightarrow> (\<forall>i c. server_clients s i = Some c \<longrightarrow> rev_server_clients s c = Some i)"

definition comm_count :: "nat \<Rightarrow> 'm comm \<Rightarrow> bool" where
  "comm_count a s \<longleftrightarrow> paired s
     \<and> (case server s of
          None \<Rightarrow> a = 1 \<and> server_clients s = Map.empty
        | Some v \<Rightarrow> counted a v \<and> (\<forall>i c. server_clients s i = Some c \<longrightarrow> unat c < a))"

definition keeps :: "'m comm \<Rightarrow> 'm comm \<Rightarrow> bool" where
  "keeps s s' \<longleftrightarrow> (\<forall>a. comm_count a s \<longrightarrow> comm_count a s')"

lemma keeps_refl [simp]: "keeps s s"
  by (simp add: keeps_def)

lemma keeps_trans [trans]: "keeps s t \<Longrightarrow> keeps t u \<Longrightarrow> keeps s u"
  by (simp add: keeps_def)

lemma keeps_andThen:
  "keeps s (fst r) \<Longrightarrow> (\<And>t. keeps t (fst (f t))) \<Longrightarrow> keeps s (fst (andThen r f))"
  by (auto simp: andThen_def intro: keeps_trans split: prod.splits option.splits)

lemma keeps_same:
  "\<lbrakk> server s' = server s; server_clients s' = server_clients s;
     rev_server_clients s' = rev_server_clients s \<rbrakk> \<Longrightarrow> keeps s s'"
  by (simp add: keeps_def comm_count_def paired_def split: option.splits)

lemma keeps_server:
  "\<lbrakk> server s = Some v; \<And>a. counted a v \<Longrightarrow> counted a w \<rbrakk> \<Longrightarrow> keeps s (s\<lparr>server := Some w\<rparr>)"
  by (simp add: keeps_def comm_count_def paired_def)

lemma endpoint_at_sel [simp]:
  "server (fst (endpoint_at i s)) = server s"
  "server_clients (fst (endpoint_at i s)) = server_clients s"
  "rev_server_clients (fst (endpoint_at i s)) = rev_server_clients s"
  by (simp_all add: endpoint_at_def split: option.splits)

lemma assert_sel [simp]:
  "server (assert_fact f s) = server s" "server_clients (assert_fact f s) = server_clients s"
  "rev_server_clients (assert_fact f s) = rev_server_clients s"
  "server (emit_sent g s) = server s" "server_clients (emit_sent g s) = server_clients s"
  "rev_server_clients (emit_sent g s) = rev_server_clients s"
  by (simp_all add: assert_fact_def emit_sent_def)

lemma assert_message_sel [simp]:
  "server (clips_assert_message E tv ep cid mt m ct c s) = server s"
  "server_clients (clips_assert_message E tv ep cid mt m ct c s) = server_clients s"
  "rev_server_clients (clips_assert_message E tv ep cid mt m ct c s) = rev_server_clients s"
  by (simp_all add: clips_assert_message_def Let_def split: prod.splits)

lemma keeps_msg: "keeps s (handle_server_client_msg E tv c cid mt m s)"
  by (rule keeps_same) (simp_all add: handle_server_client_msg_def case_prod_beta split: option.splits)

lemma keeps_fail: "keeps s (handle_server_client_fail c cid mt what s)"
  by (rule keeps_same) (simp_all add: handle_server_client_fail_def case_prod_beta split: option.splits)

lemma paired_forget:
  assumes "paired s" and "server_clients s i = Some c \<or> rev_server_clients s c = Some i"
  shows "paired (s\<lparr>rev_server_clients := (rev_server_clients s)(c := None),
    server_clients := (server_clients s)(i := None)\<rparr>)"
proof -
  have "rev_server_clients s c = Some i"
    using assms by (auto simp: paired_def)
  then show ?thesis
    using assms(1) by (auto simp: paired_def)
qed

lemma keeps_forget:
  assumes "server_clients s i = Some c \<or> rev_server_clients s c = Some i"
  shows "keeps s (s\<lparr>rev_server_clients := (rev_server_clients s)(c := None),
    server_clients := (server_clients s)(i := None)\<rparr>)"
  using paired_forget [OF _ assms]
  by (auto simp: keeps_def comm_count_def split: option.splits)

lemma keeps_disconnected: "keeps s (handle_server_client_disconnected c s)"
proof (cases "rev_server_clients s c")
  case (Some i)
  let ?s1 = "s\<lparr>rev_server_clients := (rev_server_clients s)(c := None),
    server_clients := (server_clients s)(i := None)\<rparr>"
  have "keeps s ?s1"
    using Some by (intro keeps_forget) simp
  moreover have "keeps ?s1 (handle_server_client_disconnected c s)"
    using Some by (intro keeps_same) (simp_all add: handle_server_client_disconnected_def)
  ultimately show ?thesis
    by (rule keeps_trans)
qed (simp add: handle_server_client_disconnected_def)

lemma keeps_disconnect: "keeps s (fst (clips_pb_disconnect i s))"
proof (cases "server_clients s i")
  case (Some c)
  show ?thesis
  proof (cases "server s")
    case v: (Some v)
    have "keeps s (s\<lparr>rev_server_clients := (rev_server_clients s)(c := None),
        server_clients := (server_clients s)(i := None)\<rparr>)" (is "keeps s ?s1")
      using Some by (intro keeps_forget) simp
    moreover have "keeps ?s1 (?s1\<lparr>server := Some (server_disconnect c v)\<rparr>)"
      using v counted_quiet [OF quiet_disconnect] by (intro keeps_server [of _ v]) simp_all
    ultimately have "keeps s (?s1\<lparr>server := Some (server_disconnect c v)\<rparr>)"
      by (rule keeps_trans)
    then have "keeps s (fst (clips_pb_disconnect i s))"
      by (rule keeps_trans) (rule keeps_same; simp add: clips_pb_disconnect_def Some v)
    then show ?thesis .
  qed (use Some in \<open>simp add: clips_pb_disconnect_def\<close>)
next
  case None
  then show ?thesis
    by (intro keeps_same) (simp_all add: clips_pb_disconnect_def split: option.splits)
qed

lemma keeps_server_signal: "\<not> connects g \<Longrightarrow> keeps s (fst (on_server_signal E tv ep g s))"
  by (cases g) (simp_all add: connects_def keeps_msg keeps_fail keeps_disconnected)

lemma keeps_client_signal: "keeps s (fst (on_client_signal E tv i g s))"
  by (cases g) (simp_all add: keeps_same)

lemma keeps_peer_signal: "keeps s (fst (on_peer_signal E tv i g s))"
  by (cases g) (simp_all add: keeps_same)

lemma keeps_run_handlers:
  "(\<And>g t. g \<in> set gs \<Longrightarrow> keeps t (fst (f g t))) \<Longrightarrow> keeps s (fst (run_handlers f gs s))"
  by (induction gs arbitrary: s) (simp_all add: keeps_andThen)

lemma keeps_client_event: "keeps s (fst (client_event E tv i f s))"
proof (cases "clients s i")
  case (Some c)
  obtain c' x where f: "f (c\<lparr>c_signals := []\<rparr>) = (c', x)"
    by (cases "f (c\<lparr>c_signals := []\<rparr>)")
  have "keeps s (s\<lparr>clients := (clients s)(i \<mapsto> c')\<rparr>)"
    by (simp add: keeps_same)
  then have "keeps s (fst (run_handlers (on_client_signal E tv i) (c_signals c')
      (s\<lparr>clients := (clients s)(i \<mapsto> c')\<rparr>)))"
    by (rule keeps_trans) (rule keeps_run_handlers, rule keeps_client_signal)
  then show ?thesis
    using Some f by (simp add: client_event_def keeps_andThen)
qed (simp add: client_event_def)

lemma keeps_peer_event: "keeps s (fst (peer_event E tv i f s))"
proof (cases "peers s i")
  case (Some p)
  obtain p' x where f: "f (p\<lparr>p_signals := []\<rparr>) = (p', x)"
    by (cases "f (p\<lparr>p_signals := []\<rparr>)")
  have "keeps s (s\<lparr>peers := (peers s)(i \<mapsto> p')\<rparr>)"
    by (simp add: keeps_same)
  then have "keeps s (fst (run_handlers (on_peer_signal E tv i) (p_signals p')
      (s\<lparr>peers := (peers s)(i \<mapsto> p')\<rparr>)))"
    by (rule keeps_trans) (rule keeps_run_handlers, rule keeps_peer_signal)
  then show ?thesis
    using Some f by (simp add: peer_event_def keeps_andThen)
qed (simp add: peer_event_def)

text \<open>An operation of the server that signals no connection.\<close>

lemma counted_signals [simp]: "counted a (v\<lparr>srv_signals := gs\<rparr>) = counted a v"
  by (simp add: counted_def srv_wf_def)

lemma keeps_quiet_event:
  assumes "\<And>v. quiet v (fst (f v))"
  shows "keeps s (fst (server_event E tv ep f s))"
proof (cases "server s")
  case (Some v)
  obtain v' x where f: "f (v\<lparr>srv_signals := []\<rparr>) = (v', x)"
    by (cases "f (v\<lparr>srv_signals := []\<rparr>)")
  have q: "quiet (v\<lparr>srv_signals := []\<rparr>) v'"
    using assms [of "v\<lparr>srv_signals := []\<rparr>"] f by simp
  then have none: "\<not> connects g" if "g \<in> set (srv_signals v')" for g
    using that by (simp add: quiet_def filter_empty_conv)
  have "keeps s (s\<lparr>server := Some v'\<rparr>)"
    using Some counted_quiet [OF q] by (intro keeps_server [of _ v]) simp_all
  then have "keeps s (fst (run_handlers (on_server_signal E tv ep) (srv_signals v') (s\<lparr>server := Some v'\<rparr>)))"
    by (rule keeps_trans) (rule keeps_run_handlers, rule keeps_server_signal, rule none)
  then show ?thesis
    using Some f by (simp add: server_event_def keeps_andThen)
qed (simp add: server_event_def)

lemma keeps_send: "keeps s (fst (clips_pb_send E rsv i q s))"
proof -
  have 1: "keeps s (fst (send_server E rsv c m v s))" if "server s = Some v" for c m v
  proof -
    have "keeps s (s\<lparr>server := Some (fst (server_send_msg (stream_env E s) rsv c m v))\<rparr>)"
      using that counted_quiet [OF quiet_send] by (intro keeps_server [of _ v]) simp_all
    then show ?thesis
      by (cases "server_send_msg (stream_env E s) rsv c m v")
        (simp add: send_server_def keeps_andThen keeps_same)
  qed
  have 2: "keeps s (fst (send_client E rsv j m c s))" for j m c
    by (auto simp: send_client_def case_prod_beta intro!: keeps_andThen keeps_same split: prod.splits)
  have 3: "keeps s (fst (send_peer E rsv j m p s))" for j m p
    by (auto simp: send_peer_def intro!: keeps_same split: prod.splits)
  show ?thesis
    by (auto simp: clips_pb_send_def 1 2 3 keeps_same intro!: keeps_andThen
        split: sum.splits option.splits)
qed

lemma keeps_broadcast: "keeps s (fst (clips_pb_broadcast E rsv i q s))"
proof -
  have "keeps s (fst (send_peer E rsv j m p s))" for j m p
    by (auto simp: send_peer_def intro!: keeps_same split: prod.splits)
  then show ?thesis
    by (auto simp: clips_pb_broadcast_def keeps_same intro!: keeps_andThen
        split: sum.splits option.splits)
qed

text \<open>An accept may give the waiting session an identifier; the count goes up.\<close>

lemma count_connected:
  assumes "comm_count a s" and "server s = Some v" and "counted (Suc a) w" and "a < 2 ^ 32"
  shows "comm_count (Suc a) (fst (handle_server_client_connected (word_of_nat a) ep (s\<lparr>server := Some w\<rparr>)))"
proof -
  have u: "unat (word_of_nat a :: client_id) = a"
    using assms(4) by (simp add: unat_of_nat take_bit_nat_eq_self)
  have old: "unat c < a" if "server_clients s i = Some c" for i c
    using assms(1,2) that by (auto simp: comm_count_def)
  then have new: "server_clients s i \<noteq> Some (word_of_nat a)" for i
    using u by fastforce
  have "comm_count (Suc a) (s\<lparr>server := Some w\<rparr>)"
    using assms(1-3) by (auto simp: comm_count_def paired_def intro: less_SucI)
  then show ?thesis
    using assms(1,3) u old new
    by (auto simp: handle_server_client_connected_def with_fresh_id_def Let_def comm_count_def
        paired_def intro: less_SucI)
qed

lemma count_accept:
  assumes "comm_count a s" and "a < 2 ^ 32"
  shows "\<exists>a'. a \<le> a' \<and> a' \<le> Suc a \<and>
    comm_count a' (fst (server_event E tv ep (\<lambda>v. ok (server_handle_accept err junk v)) s))"
proof (cases "server s")
  case None
  then show ?thesis
    using assms(1) by (auto simp: server_event_def)
next
  case (Some v)
  let ?w = "server_handle_accept err junk (v\<lparr>srv_signals := []\<rparr>)"
  have c: "counted a (v\<lparr>srv_signals := []\<rparr>)"
    using assms(1) Some by (simp add: comm_count_def)
  note w = accept_counted [OF c, of err junk]
  have same: "comm_count (Suc a) (s\<lparr>server := Some ?w\<rparr>)"
    using assms(1) Some w(1) by (auto simp: comm_count_def paired_def intro: less_SucI)
  have "srv_signals ?w = [] \<or> srv_signals ?w = [Srv_Connected (word_of_nat a)]"
    using w(2) by simp
  then have "comm_count (Suc a) (fst (server_event E tv ep (\<lambda>v. ok (server_handle_accept err junk v)) s))"
  proof
    assume "srv_signals ?w = []"
    then show ?thesis
      using Some same by (simp add: server_event_def ok_def andThen_def)
  next
    assume "srv_signals ?w = [Srv_Connected (word_of_nat a)]"
    then show ?thesis
      using Some count_connected [OF assms(1) Some w(1) [simplified] assms(2), of ep]
      by (cases "handle_server_client_connected (word_of_nat a) ep (s\<lparr>server := Some ?w\<rparr>)")
        (auto simp: server_event_def ok_def andThen_def split: option.splits)
  qed
  then show ?thesis
    by (intro exI [of _ "Suc a"]) simp
qed

lemma keeps_count: "keeps s s' \<Longrightarrow> comm_count a s \<Longrightarrow> \<exists>a'. a \<le> a' \<and> a' \<le> Suc a \<and> comm_count a' s'"
  by (auto simp: keeps_def)

lemma keeps_fresh:
  "(\<And>i t. keeps t (f i t)) \<Longrightarrow> keeps s (fst (with_fresh_id f s))"
proof -
  assume f: "\<And>i t. keeps t (f i t)"
  have "keeps s (s\<lparr>next_client_id := i\<rparr>)" for i
    by (simp add: keeps_same)
  then show ?thesis
    using keeps_trans [OF _ f] by (simp add: with_fresh_id_def Let_def)
qed

lemma keeps_connect: "keeps s (fst (fst (clips_pb_client_connect port junk s)))"
  by (auto simp: clips_pb_client_connect_def intro!: keeps_fresh keeps_same)

lemma keeps_peer_create: "keeps s (fst (fst (peer_create_local_crypto E a sp rp key nm s)))"
  by (auto simp: peer_create_local_crypto_def intro!: keeps_fresh keeps_same split: prod.splits option.splits)

lemma keeps_register: "keeps s (fst (fst (clips_pb_register_type E nm s)))"
  by (auto simp: clips_pb_register_type_def intro!: keeps_same split: prod.splits option.splits exn.splits)

lemma keeps_rest:
  "keeps s (peer_destroy i s)" "keeps s (fst (comm_setup_crypto E i key nm seed s))"
  "keeps s (s\<lparr>msg_heap := h\<rparr>)"
  by (auto simp: peer_destroy_def comm_setup_crypto_def intro!: keeps_same split: prod.splits option.splits)

lemma keeps_enable: "keeps s (fst (enable_server port bound junk s))"
  using counted_new [of junk] by (auto simp: keeps_def enable_server_def comm_count_def paired_def
      split: option.splits)

lemma count_perform:
  assumes "comm_count a s" and "a < 2 ^ 32" and "ev \<noteq> Ev_Disable"
  shows "\<exists>a'. a \<le> a' \<and> a' \<le> Suc a \<and> comm_count a' (fst (perform E ev s))"
proof -
  have q: "quiet v (fst (session_event c (\<lambda>x v. ok (session_handle_read_header e inp x v)) v))"
    "quiet v (fst (session_event c (session_handle_read_message e inp) v))"
    "quiet v (fst (session_event c (\<lambda>x v. ok (session_handle_write inp' x v)) v))" for v c e inp inp'
    by (rule quiet_session_event, simp add: quiet_header quiet_message quiet_write)+
  have "keeps s (fst (perform E ev s))" if "case ev of Ev_Accept _ _ _ _ \<Rightarrow> False | _ \<Rightarrow> True"
    using that assms(3)
    by (cases ev) (simp_all add: keeps_quiet_event q keeps_client_event keeps_peer_event keeps_send
        keeps_broadcast keeps_disconnect keeps_connect keeps_peer_create keeps_register keeps_rest
        keeps_enable)
  then show ?thesis
    using keeps_count [OF _ assms(1)] count_accept [OF assms(1,2)] by (cases ev) auto
qed

lemma count_run:
  "\<lbrakk> comm_count a s; a + length evs \<le> 2 ^ 32; Ev_Disable \<notin> set evs \<rbrakk>
     \<Longrightarrow> \<exists>a'. comm_count a' (run_events E evs s)"
proof (induction evs arbitrary: a s)
  case (Cons ev evs)
  obtain a' where "a' \<le> Suc a" "comm_count a' (fst (perform E ev s))"
    using count_perform [OF Cons.prems(1), of ev E] Cons.prems(2,3) by auto
  then show ?case
    using Cons.IH [of a' "fst (perform E ev s)"] Cons.prems(2,3) by simp
qed auto

lemma count_new: "comm_count 1 (comm_new n0)"
  by (simp add: comm_count_def paired_def comm_new_def)

section \<open>Answers\<close>

lemma ids_above:
  fixes E :: "'m cenv"
  assumes "route (run_events E evs (comm_new n0)) i \<noteq> None"
  shows "n0 < i"
proof (rule ccontr)
  assume "\<not> n0 < i"
  moreover have "table_steps (table_of (comm_new n0 :: 'm comm)) (table_of (run_events E evs (comm_new n0)))"
    by (rule moves_run [unfolded comm_moves_def, THEN mp, THEN conjunct2, OF comm_ok_new])
  ultimately show False
    using table_steps_never_reused [of _ _ i] assms
    by (fastforce simp: table_of_def comm_new_def route_def)
qed

lemma server_send_other:
  assumes "srv_wf v" and "d \<noteq> c"
  shows "objs (fst (server_send_msg e rsv c m v)) d = objs v d"
proof -
  have "s_id (fst (session_send e rsv cid mt m x)) = s_id x" for cid mt x
    by (simp add: session_send_def split: sum.splits)
  then have *: "objs (put_session (fst (session_send e rsv cid mt m x)) v) d = objs v d"
    if "objs v c = Some x" for cid mt x
    using assms that by (simp add: put_session_def srv_wf_def)
  show ?thesis
    using * by (auto simp: server_send_msg_def server_send_def split: sum.splits option.splits prod.splits)
      (metis fst_conv)+
qed

lemma srv_wf_run:
  "\<lbrakk> length evs < 2 ^ 32; Ev_Disable \<notin> set evs; server (run_events E evs (comm_new n0)) = Some v \<rbrakk>
     \<Longrightarrow> srv_wf v"
  using count_run [OF count_new, of evs E n0] by (auto simp: comm_count_def counted_def)

text \<open>
  C4. As long as the server is not disabled and fewer than 2 to the 32 events have happened,
  the two maps are inverse to each other; and when a session that is known sends a message,
  the fact that is asserted holds that message and a client identifier of 32 bits under which
  exactly that session is reached: \<open>pb-send\<close> with it hands the answer to that session, and
  leaves every other session as it was. The identifiers must have stayed below 2 to the 32,
  which holds when the member that the constructor does not set started small.
\<close>

theorem reply_reaches_sender:
  assumes "Ev_Disable \<notin> set evs" and "length evs < 2 ^ 32"
    and s: "s = run_events E evs (comm_new n0)" and "0 \<le> n0" and "next_client_id s < 2 ^ 32"
    and c: "rev_server_clients s c = Some i" and v: "server s = Some v"
    and "ce_template E" and "\<And>f. ce_accepts E f"
    and s1: "s1 = handle_server_client_msg E tv c cid mt m s"
  shows "paired s \<and> (\<exists>f. facts s1 = facts s @ [F_Msg f]
    \<and> slot_comp_id f = cid \<and> slot_msg_type f = mt
    \<and> (\<exists>k. ptrs (msg_heap s1) (slot_ptr f) = Some (Some k) \<and> msgs (msg_heap s1) k = Some m)
    \<and> route s1 (uint (slot_client_id f)) = Some (To_Server c)
    \<and> (\<forall>q k r. deref q (msg_heap s1) = Inr (Some (k, r)) \<longrightarrow>
         clips_pb_send E rsv (uint (slot_client_id f)) q s1 = catch_send (send_server E rsv c r v s1))
    \<and> (\<forall>r d. d \<noteq> c \<longrightarrow> objs (fst (server_send_msg (stream_env E s1) rsv c r v)) d = objs v d))"
proof -
  have ok: "comm_ok s"
    unfolding s by (rule comm_ok_run) (rule comm_ok_new)
  have sc: "server_clients s i = Some c"
    by (rule comm_ok_rev [OF ok c])
  have "n0 < i"
    using ids_above [of E evs n0 i] sc by (simp add: s route_def)
  moreover have "i \<le> next_client_id s"
    by (rule comm_ok_le [OF ok sc])
  ultimately have i: "uint (word_of_int i :: 32 word) = i"
    using assms(4,5) by (simp add: uint_word_of_int)
  have p: "paired s"
    using count_run [OF count_new, of evs E n0] assms(1,2) by (auto simp: s comm_count_def)
  obtain s0 ep where e: "endpoint_at i s = (s0, ep)"
    by (cases "endpoint_at i s")
  then have heap: "msg_heap s0 = msg_heap s" "facts s0 = facts s" "server_clients s0 = server_clients s"
      "server s0 = server s"
    by (auto simp: endpoint_at_def split: option.splits)
  define f where "f = \<lparr>slot_type = full_name (desc_of (ce_pb E) m), slot_comp_id = cid,
    slot_msg_type = mt, slot_rcvd_via = (if (word_of_int i :: 32 word) = 0 then ''BROADCAST'' else ''STREAM''),
    slot_rcvd_at = tv, slot_rcvd_from = ep, slot_client_type = client_type_text CT_SERVER,
    slot_client_id = word_of_int i, slot_ptr = next_ptr (msg_heap s)\<rparr>"
  have f: "s1 = assert_fact (F_Msg f) (s0\<lparr>msg_heap := fst (new_message m (msg_heap s))\<rparr>)"
    unfolding s1 handle_server_client_msg_def c clips_assert_message_def
    by (simp add: e heap(1) assms(8,9) Let_def f_def new_message_def new_shared_def)
  have sc1: "server_clients s1 i = Some c" and v1: "server s1 = Some v"
    using f heap sc v by simp_all
  have "facts s1 = facts s @ [F_Msg f]"
    using f heap by (simp add: assert_fact_def)
  moreover have "\<exists>k. ptrs (msg_heap s1) (slot_ptr f) = Some (Some k) \<and> msgs (msg_heap s1) k = Some m"
    using f by (simp add: assert_fact_def new_message_def new_shared_def f_def)
  moreover have "clips_pb_send E rsv (uint (slot_client_id f)) q s1 = catch_send (send_server E rsv c r v s1)"
    if "deref q (msg_heap s1) = Inr (Some (k, r))" for q k r
    using that sc1 v1 i by (simp add: clips_pb_send_def f_def)
  moreover have "objs (fst (server_send_msg (stream_env E s1) rsv c r v)) d = objs v d" if "d \<noteq> c" for r d
    using srv_wf_run [OF assms(2,1)] v s that by (intro server_send_other) auto
  ultimately show ?thesis
    using p sc1 i by (intro conjI exI [of _ f]) (auto simp: route_def f_def)
qed

lemma first_accept:
  "srv_signals (server_handle_accept False j2 (server_new j1\<lparr>srv_signals := []\<rparr>)) = [Srv_Connected 1]"
  by (simp add: server_handle_accept_def server_start_accept_def server_new_def put_session_def
      session_new_def session_start_read_def srv_emit_def)

text \<open>
  After the server was disabled and enabled again its sessions are numbered from one
  again, but the identifiers of the old sessions stay. So an identifier that stood for the
  first session of the old server reaches the first client of the new one: a message sent to
  it goes to that client, although the client has an identifier of its own.
\<close>

theorem reenabled_server_redirects:
  assumes s: "s = run_events E evs (comm_new n0)" and i: "server_clients s i = Some 1"
    and "0 < port" and "next_client_id s + 1 < 2 ^ 63"
    and s': "s' = run_events E [Ev_Disable, Ev_Enable port True j1, Ev_Accept tv ep False j2] s"
  shows "server_clients s' i = Some 1 \<and> rev_server_clients s' 1 = Some (next_client_id s + 1)
    \<and> i \<noteq> next_client_id s + 1 \<and> client_endpoints s' (next_client_id s + 1) = Some ep
    \<and> (\<exists>v. server s' = Some v \<and> (\<forall>q k r. deref q (msg_heap s') = Inr (Some (k, r)) \<longrightarrow>
         clips_pb_send E rsv i q s' = catch_send (send_server E rsv 1 r v s')))"
proof -
  have ok: "comm_ok s"
    unfolding s by (rule comm_ok_run) (rule comm_ok_new)
  have ne: "i \<noteq> next_client_id s + 1"
    using ok i by (auto simp: comm_ok_def)
  let ?s1 = "s\<lparr>server := Some (server_new j1)\<rparr>"
  let ?w = "server_handle_accept False j2 (server_new j1\<lparr>srv_signals := []\<rparr>)"
  have "s' = fst (handle_server_client_connected 1 ep (?s1\<lparr>server := Some ?w\<rparr>))"
    using assms(3) s'
    by (cases "handle_server_client_connected 1 ep (?s1\<lparr>server := Some ?w\<rparr>)")
      (auto simp: first_accept disable_server_def enable_server_def server_event_def ok_def andThen_def
        split: option.splits)
  then have "s' = assert_fact (F_Server_Client_Connected (next_client_id s + 1) ep)
      (s\<lparr>server := Some ?w, next_client_id := next_client_id s + 1,
         client_endpoints := (client_endpoints s)(next_client_id s + 1 \<mapsto> ep),
         server_clients := (server_clients s)(next_client_id s + 1 \<mapsto> 1),
         rev_server_clients := (rev_server_clients s)(1 \<mapsto> next_client_id s + 1)\<rparr>)"
    using assms(4) by (simp add: handle_server_client_connected_def with_fresh_id_def Let_def)
  then show ?thesis
    using i ne by (simp add: clips_pb_send_def assert_fact_def)
qed

section \<open>Examples\<close>

text \<open>One client connects to the server of a communicator that started counting at zero.\<close>

definition demo_cenv :: "byte list cenv" where
  "demo_cenv = \<lparr>ce_pb = demo_pb, ce_evp = demo_evp,
     ce_realloc = (\<lambda>n b. Some (take n (b @ replicate n 0))), ce_template = True,
     ce_accepts = (\<lambda>_. True)\<rparr>"

definition demo_events :: "byte list event list" where
  "demo_events = [Ev_Enable 4444 True [], Ev_Accept (0, 0) (''10.0.0.1'', 40000) False []]"

definition demo_comm :: "byte list comm" where
  "demo_comm = run_events demo_cenv demo_events (comm_new 0)"

lemma demo_comm_sel:
  "server_clients demo_comm = [1 \<mapsto> 1]" "rev_server_clients demo_comm = [1 \<mapsto> 1]"
  "next_client_id demo_comm = 1" "server demo_comm \<noteq> None"
  "msg_heap demo_comm = pheap_empty" "facts demo_comm = [F_Server_Client_Connected 1 (''10.0.0.1'', 40000)]"
  "clients demo_comm = Map.empty" "peers demo_comm = Map.empty"
  by (simp_all add: demo_comm_def demo_events_def comm_new_def enable_server_def server_event_def
      first_accept handle_server_client_connected_def with_fresh_id_def Let_def assert_fact_def
      ok_def andThen_def)

theorem comm_refines_table_witness:
  "route (run_events demo_cenv (demo_events @ [Ev_Disconnect 1, Ev_Connect 99 []]) (comm_new 0)) 1
     \<in> {None, Some (To_Server 1)}"
proof -
  have "route demo_comm 1 = Some (To_Server 1)" "1 \<le> next_client_id demo_comm"
    by (simp_all add: demo_comm_sel route_def)
  then show ?thesis
    using comm_refines_table [of demo_cenv demo_events 0 "[Ev_Disconnect 1, Ev_Connect 99 []]" 1]
    by (simp add: Let_def demo_comm_def)
qed

theorem reply_reaches_sender_witness:
  "\<exists>f. facts (handle_server_client_msg demo_cenv (5, 6) 1 2000 1 [7] demo_comm) =
       [F_Server_Client_Connected 1 (''10.0.0.1'', 40000), F_Msg f]
     \<and> slot_msg_type f = 1
     \<and> route (handle_server_client_msg demo_cenv (5, 6) 1 2000 1 [7] demo_comm)
         (uint (slot_client_id f)) = Some (To_Server 1)"
proof -
  obtain v where v: "server demo_comm = Some v"
    using demo_comm_sel(4) by blast
  have "Ev_Disable \<notin> set demo_events" "length demo_events < 2 ^ 32"
    "next_client_id demo_comm < 2 ^ 32" "rev_server_clients demo_comm 1 = Some 1"
    by (simp_all add: demo_events_def demo_comm_sel)
  moreover have "ce_template demo_cenv" "ce_accepts demo_cenv f" for f
    by (simp_all add: demo_cenv_def)
  ultimately show ?thesis
    using reply_reaches_sender [OF _ _ demo_comm_def _ _ _ v _ _ refl, of 1 1 "(5, 6)" 2000 1 "[7]"]
    by (fastforce simp: demo_comm_sel(6))
qed

theorem reenabled_server_redirects_witness:
  "rev_server_clients (run_events demo_cenv
     [Ev_Disable, Ev_Enable 4444 True [], Ev_Accept (0, 0) (''10.0.0.2'', 5) False []] demo_comm) 1 = Some 2
   \<and> server_clients (run_events demo_cenv
     [Ev_Disable, Ev_Enable 4444 True [], Ev_Accept (0, 0) (''10.0.0.2'', 5) False []] demo_comm) 1 = Some 1"
  using reenabled_server_redirects [OF demo_comm_def _ _ _ refl, of 1 4444 "[]" "(0, 0)"
      "(''10.0.0.2'', 5)" "[]"]
  by (simp add: demo_comm_sel)

end
