(* ===== verification/Devices.thy ===== *)
theory Devices imports Strings_Util
begin

text \<open>
  The device threads of \<open>rockin/plugins\<close>: drilling machine, force fitting machine and
  conveyor belt, which poll a ZeroMQ socket for the status of their device and publish
  commands to it, and the simulated drilling machine. Times are microseconds of the local
  clock, passed in by the caller. A message that was received is the status that the protobuf
  library makes of it.
\<close>

section \<open>Time\<close>

text \<open>
  A \<open>ptime\<close> that was never set is \<open>not_a_date_time\<close>; the difference to it is a special
  value whose number of seconds is beyond every bound the code compares with.
\<close>

definition elapsed :: "int \<Rightarrow> int option \<Rightarrow> int" where
  "elapsed now t = (case t of None \<Rightarrow> 2 ^ 63 - 2 | Some t \<Rightarrow> now - t)"

section \<open>Configuration and connection\<close>

record devcfg =
  has_key :: "string \<Rightarrow> bool"
  get_text :: "string \<Rightarrow> string result"
  get_number :: "string \<Rightarrow> 32 word result"
  get_flag :: "string \<Rightarrow> bool result"

record ('st, 'cmd) device =
  d_publisher :: bool
  d_subscriber :: bool
  d_interval :: "32 word"
  d_last_sent :: "int option"
  d_prev_update :: "int option"
  d_status :: 'st
  d_published :: "(int \<times> 'cmd) list"

definition device_new :: "'st \<Rightarrow> ('st, 'cmd) device" where
  "device_new st0 = \<lparr>d_publisher = False, d_subscriber = False, d_interval = 40,
     d_last_sent = None, d_prev_update = None, d_status = st0, d_published = []\<rparr>"

definition finalize_device :: "('st, 'cmd) device \<Rightarrow> ('st, 'cmd) device" where
  "finalize_device d = d\<lparr>d_publisher := False, d_subscriber := False\<rparr>"

text \<open>Failures that the code's handler catches, and the interval with its default.\<close>

definition read_interval :: "devcfg \<Rightarrow> 32 word \<Rightarrow> 32 word result" where
  "read_interval c old =
     (case get_number c ''/llsfrb/clips/timer-interval'' of
        Inr n \<Rightarrow> Inr n
      | Inl x \<Rightarrow> if is_fawkes x then Inr old else Inl x)"

definition address :: "string \<Rightarrow> 32 word \<Rightarrow> string" where
  "address host port = ''epgm://'' @ host @ '':'' @ nat_digits (unat port)"

text \<open>
  The keys of a device, the address to publish to on \<open>local\<close> and the address of its status.
  \<open>open_sockets\<close> is the exception that ZeroMQ throws for the two addresses, if any.
\<close>

definition device_addresses :: "devcfg \<Rightarrow> string \<Rightarrow> string option \<Rightarrow> (string \<times> string) result" where
  "device_addresses c prefix local =
     (case get_text c (prefix @ ''host'') of
        Inl x \<Rightarrow> Inl x
      | Inr host \<Rightarrow>
          (case get_number c (prefix @ ''command_port'') of
             Inl x \<Rightarrow> Inl x
           | Inr cp \<Rightarrow>
               (case get_number c (prefix @ ''status_port'') of
                  Inl x \<Rightarrow> Inl x
                | Inr sp \<Rightarrow>
                    Inr (address (case local of None \<Rightarrow> host | Some l \<Rightarrow> l) cp, address host sp))))"

definition has_keys :: "devcfg \<Rightarrow> string \<Rightarrow> bool" where
  "has_keys c prefix \<longleftrightarrow> has_key c (prefix @ ''host'') \<and> has_key c (prefix @ ''command_port'')
     \<and> has_key c (prefix @ ''status_port'')"

definition connect_device ::
  "(string \<times> string \<Rightarrow> exn option) \<Rightarrow> devcfg \<Rightarrow> string \<Rightarrow> string option
     \<Rightarrow> ('st, 'cmd) device \<Rightarrow> ('st, 'cmd) device mutation" where
  "connect_device open_sockets c prefix local d =
     (case device_addresses c prefix local of
        Inl x \<Rightarrow> throwing x d
      | Inr ab \<Rightarrow>
          (case open_sockets ab of
             Some x \<Rightarrow> throwing x (d\<lparr>d_publisher := True\<rparr>)
           | None \<Rightarrow> ok (d\<lparr>d_publisher := True, d_subscriber := True\<rparr>)))"

definition caught :: "(exn \<Rightarrow> bool) \<Rightarrow> ('st, 'cmd) device mutation \<Rightarrow> ('st, 'cmd) device mutation" where
  "caught handled r =
     (case r of (d, None) \<Rightarrow> ok d
      | (d, Some x) \<Rightarrow> if handled x then ok (finalize_device d) else throwing x d)"

text \<open>
  The three \<open>init()\<close>. The drilling machine catches \<open>fawkes::Exception\<close> only, the other two
  every \<open>std::exception\<close>; undefined behaviour is no exception.
\<close>

definition is_std :: "exn \<Rightarrow> bool" where
  "is_std x = (case x of UndefinedBehaviour _ \<Rightarrow> False | _ \<Rightarrow> True)"

definition drill_init ::
  "(string \<times> string \<Rightarrow> exn option) \<Rightarrow> devcfg \<Rightarrow> int \<Rightarrow> ('st, 'cmd) device \<Rightarrow> ('st, 'cmd) device mutation"
where
  "drill_init z c now d =
     (let d1 = d\<lparr>d_last_sent := Some now\<rparr> in
      case read_interval c (d_interval d1) of
        Inl x \<Rightarrow> throwing x d1
      | Inr n \<Rightarrow>
          caught is_fawkes
            (if has_keys c ''/llsfrb/drilling-machine/''
             then connect_device z c ''/llsfrb/drilling-machine/'' None (d1\<lparr>d_interval := n\<rparr>)
             else ok (d1\<lparr>d_interval := n\<rparr>)))"

definition enabled_init ::
  "string \<Rightarrow> (string \<times> string \<Rightarrow> exn option) \<Rightarrow> devcfg \<Rightarrow> int \<Rightarrow> ('st, 'cmd) device
     \<Rightarrow> ('st, 'cmd) device mutation" where
  "enabled_init prefix z c now d =
     (let d1 = d\<lparr>d_last_sent := Some now\<rparr> in
      case read_interval c (d_interval d1) of
        Inl x \<Rightarrow> throwing x d1
      | Inr n \<Rightarrow>
          (let d2 = d1\<lparr>d_interval := n\<rparr> in
           caught is_std
             (case get_flag c (prefix @ ''enable'') of
                Inl x \<Rightarrow> throwing x d2
              | Inr False \<Rightarrow> ok d2
              | Inr True \<Rightarrow>
                  if has_keys c prefix then connect_device z c prefix (Some ''eth0'') d2 else ok d2)))"

definition belt_init ::
  "(string \<times> string \<Rightarrow> exn option) \<Rightarrow> devcfg \<Rightarrow> int \<Rightarrow> ('st, 'cmd) device \<Rightarrow> ('st, 'cmd) device mutation"
where
  "belt_init = enabled_init ''/llsfrb/conveyor-belt/''"

definition force_init ::
  "(string \<times> string \<Rightarrow> exn option) \<Rightarrow> devcfg \<Rightarrow> int \<Rightarrow> ('st, 'cmd) device \<Rightarrow> ('st, 'cmd) device mutation"
where
  "force_init = enabled_init ''/llsfrb/force-fitting-machine/''"

section \<open>Status\<close>

datatype drill_state = AT_TOP | AT_BOTTOM | MOVING_UP | MOVING_DOWN | UNKNOWN

record drill_status =
  ds_connected :: "bool option"
  ds_state :: "drill_state option"

datatype run_mode = STOP | START

record belt_status =
  bs_connected :: "bool option"
  bs_mode :: "run_mode option"
  bs_cycle :: "32 word"

text \<open>
  A poll of the status socket: a message, or none. After three seconds without one, the
  status is overwritten by \<open>lost\<close>.
\<close>

definition receive_status ::
  "('st \<Rightarrow> 'st) \<Rightarrow> int \<Rightarrow> 'st option \<Rightarrow> ('st, 'cmd) device \<Rightarrow> ('st, 'cmd) device" where
  "receive_status lost now inp d =
     (if \<not> d_subscriber d then d
      else case inp of
        Some st \<Rightarrow> d\<lparr>d_status := st, d_prev_update := Some now\<rparr>
      | None \<Rightarrow>
          if elapsed now (d_prev_update d) \<ge> 3000000 then d\<lparr>d_status := lost (d_status d)\<rparr> else d)"

definition drill_lost :: "drill_status \<Rightarrow> drill_status" where
  "drill_lost s = s\<lparr>ds_state := Some UNKNOWN, ds_connected := Some False\<rparr>"

definition belt_lost :: "belt_status \<Rightarrow> belt_status" where
  "belt_lost s = s\<lparr>bs_mode := Some STOP, bs_connected := Some False\<rparr>"

definition drill_receive ::
  "int \<Rightarrow> drill_status option \<Rightarrow> (drill_status, 'c) device \<Rightarrow> (drill_status, 'c) device" where
  "drill_receive = receive_status drill_lost"

definition force_receive ::
  "int \<Rightarrow> drill_status option \<Rightarrow> (drill_status, 'c) device \<Rightarrow> (drill_status, 'c) device" where
  "force_receive = receive_status drill_lost"

definition belt_receive ::
  "int \<Rightarrow> belt_status option \<Rightarrow> (belt_status, 'c) device \<Rightarrow> (belt_status, 'c) device" where
  "belt_receive = receive_status belt_lost"

definition device_state :: "(drill_status, 'c) device \<Rightarrow> drill_state" where
  "device_state d = (case ds_state (d_status d) of Some s \<Rightarrow> s | None \<Rightarrow> UNKNOWN)"

definition device_connected :: "(drill_status, 'c) device \<Rightarrow> bool" where
  "device_connected d \<longleftrightarrow> ds_connected (d_status d) = Some True"

definition belt_running :: "(belt_status, 'c) device \<Rightarrow> bool" where
  "belt_running d \<longleftrightarrow> bs_mode (d_status d) = Some START"

definition belt_connected :: "(belt_status, 'c) device \<Rightarrow> bool" where
  "belt_connected d \<longleftrightarrow> bs_connected (d_status d) = Some True"

section \<open>Commands\<close>

datatype drill_command = MOVE_DOWN | MOVE_UP

text \<open>
  A command is dropped when there is no socket, when the last one was sent less than \<open>gap\<close>
  ago, or when the device is busy. \<open>sent_at\<close> is the time after the message was sent, or
  nothing when ZeroMQ threw its own exception, which no handler here catches.
\<close>

definition send_command ::
  "int \<Rightarrow> ('st \<Rightarrow> bool) \<Rightarrow> 'cmd \<Rightarrow> int \<Rightarrow> int option \<Rightarrow> ('st, 'cmd) device \<Rightarrow> ('st, 'cmd) device mutation"
where
  "send_command gap busy c now sent_at d =
     (if \<not> d_publisher d then ok d
      else if elapsed now (d_last_sent d) < gap then ok d
      else if busy (d_status d) then ok d
      else case sent_at of
        None \<Rightarrow> throwing (LibraryException ''zmq::error_t'') d
      | Some t \<Rightarrow> ok (d\<lparr>d_last_sent := Some t, d_published := d_published d @ [(t, c)]\<rparr>))"

text \<open>\<open>state()\<close> of a status without one is the first of the enum.\<close>

definition drill_moving :: "drill_status \<Rightarrow> bool" where
  "drill_moving s =
     (let x = (case ds_state s of Some x \<Rightarrow> x | None \<Rightarrow> AT_TOP) in x = MOVING_UP \<or> x = MOVING_DOWN)"

definition drill_move ::
  "drill_command \<Rightarrow> int \<Rightarrow> int option \<Rightarrow> (drill_status, drill_command) device
     \<Rightarrow> (drill_status, drill_command) device mutation" where
  "drill_move = send_command 1000000 drill_moving"

definition force_move ::
  "drill_command \<Rightarrow> int \<Rightarrow> int option \<Rightarrow> (drill_status, drill_command) device
     \<Rightarrow> (drill_status, drill_command) device mutation" where
  "force_move = send_command 200000 (\<lambda>_. False)"

definition belt_set_mode ::
  "run_mode \<Rightarrow> int \<Rightarrow> int option \<Rightarrow> (belt_status, run_mode) device
     \<Rightarrow> (belt_status, run_mode) device mutation" where
  "belt_set_mode = send_command 1000000 (\<lambda>_. False)"

section \<open>The status after a sequence of polls\<close>

fun polls :: "('st \<Rightarrow> 'st) \<Rightarrow> (int \<times> 'st option) list \<Rightarrow> ('st, 'cmd) device \<Rightarrow> ('st, 'cmd) device" where
  "polls lost [] d = d"
| "polls lost ((now, inp) # ps) d = polls lost ps (receive_status lost now inp d)"

lemma receive_subscriber [simp]: "d_subscriber (receive_status lost now inp d) = d_subscriber d"
  by (simp add: receive_status_def split: option.split)

lemma polls_append: "polls lost (ps @ qs) d = polls lost qs (polls lost ps d)"
  by (induction ps arbitrary: d) auto

lemma polls_subscriber [simp]: "d_subscriber (polls lost ps d) = d_subscriber d"
  by (induction lost ps d rule: polls.induct) simp_all

lemma polls_silent:
  assumes "d_subscriber d" and "d_prev_update d = Some t" and "\<And>s. lost (lost s) = lost s"
  shows "polls lost (map (\<lambda>now. (now, None)) ts) d =
    d\<lparr>d_status := (if \<exists>now\<in>set ts. now - t \<ge> 3000000 then lost (d_status d) else d_status d)\<rparr>"
  using assms(1,2)
proof (induction ts arbitrary: d)
  case (Cons now ts)
  have "polls lost (map (\<lambda>now. (now, None)) (now # ts)) d =
      polls lost (map (\<lambda>now. (now, None)) ts) (receive_status lost now None d)"
    by simp
  also have "\<dots> = (receive_status lost now None d)\<lparr>d_status :=
      (if \<exists>now\<in>set ts. now - t \<ge> 3000000 then lost (d_status (receive_status lost now None d))
       else d_status (receive_status lost now None d))\<rparr>"
    using Cons.prems by (intro Cons.IH) (simp_all add: receive_status_def)
  finally show ?case
    using Cons.prems assms(3) by (auto simp: receive_status_def elapsed_def)
qed simp

text \<open>
  What CLIPS is told about a drilling machine is its last message, as long as no later
  poll found the line silent for three seconds; from then on it is not connected and its
  state is unknown, until the next message. So what happened before that message is forgotten.
\<close>

theorem drill_status_is_last_message:
  assumes "d_subscriber d"
  shows "let d' = polls drill_lost (before @ (t, Some msg) # map (\<lambda>now. (now, None)) silent) d in
    (if \<exists>now\<in>set silent. now - t \<ge> 3000000
     then \<not> device_connected d' \<and> device_state d' = UNKNOWN
     else d_status d' = msg \<and> device_connected d' = (ds_connected msg = Some True))"
proof -
  let ?d1 = "receive_status drill_lost t (Some msg) (polls drill_lost before d)"
  have "d_subscriber ?d1" "d_prev_update ?d1 = Some t" "d_status ?d1 = msg"
    using assms by (simp_all add: receive_status_def)
  moreover have "\<And>s. drill_lost (drill_lost s) = drill_lost s"
    by (simp add: drill_lost_def)
  ultimately have "polls drill_lost (map (\<lambda>now. (now, None)) silent) ?d1 =
      ?d1\<lparr>d_status := (if \<exists>now\<in>set silent. now - t \<ge> 3000000 then drill_lost msg else msg)\<rparr>"
    using polls_silent [of ?d1 t drill_lost silent] by simp
  then show ?thesis
    by (simp add: Let_def polls_append device_connected_def device_state_def drill_lost_def)
qed

section \<open>Commands are spaced\<close>

text \<open>The calls on a device: polls and commands with the times at which they happen.\<close>

datatype drill_call = Poll int "drill_status option" | Move drill_command int "int option"

fun drill_calls :: "drill_call list \<Rightarrow> (drill_status, drill_command) device
    \<Rightarrow> (drill_status, drill_command) device" where
  "drill_calls [] d = d"
| "drill_calls (Poll now inp # cs) d = drill_calls cs (drill_receive now inp d)"
| "drill_calls (Move c now t # cs) d = drill_calls cs (fst (drill_move c now t d))"

text \<open>The clock does not go back while a command is sent.\<close>

fun call_ok :: "drill_call \<Rightarrow> bool" where
  "call_ok (Poll now inp) = True"
| "call_ok (Move c now None) = True"
| "call_ok (Move c now (Some t)) = (now \<le> t)"

definition spaced :: "int \<Rightarrow> int list \<Rightarrow> bool" where
  "spaced gap ts \<longleftrightarrow> sorted_wrt (\<lambda>a b. a + gap \<le> b) ts"

lemma spaced_snoc: "0 \<le> gap \<Longrightarrow> spaced gap (ts @ [t]) \<longleftrightarrow> spaced gap ts \<and> (\<forall>a\<in>set ts. a + gap \<le> t)"
  by (auto simp: spaced_def sorted_wrt_append)

text \<open>Everything sent so far was sent at the last time or a gap before it.\<close>

definition log_ok :: "int \<Rightarrow> ('st, 'cmd) device \<Rightarrow> bool" where
  "log_ok gap d \<longleftrightarrow> spaced gap (map fst (d_published d))
     \<and> (\<forall>a\<in>fst ` set (d_published d). \<exists>l. d_last_sent d = Some l \<and> a \<le> l)"

lemma log_ok_send:
  assumes "log_ok gap d" and "0 \<le> gap" and "\<And>t. sent_at = Some t \<Longrightarrow> now \<le> t"
  shows "log_ok gap (fst (send_command gap busy c now sent_at d))"
proof -
  have "log_ok gap (d\<lparr>d_last_sent := Some t, d_published := d_published d @ [(t, c)]\<rparr>)"
    if "sent_at = Some t" "elapsed now (d_last_sent d) \<ge> gap" for t
  proof -
    have "a + gap \<le> t" if "a \<in> fst ` set (d_published d)" for a
      using assms(1,3) that \<open>sent_at = Some t\<close> \<open>elapsed now (d_last_sent d) \<ge> gap\<close>
      by (fastforce simp: log_ok_def elapsed_def)
    then show ?thesis
      using assms(1,2) by (fastforce simp: log_ok_def spaced_snoc)
  qed
  then show ?thesis
    using assms(1) by (auto simp: send_command_def split: option.splits)
qed

lemma log_ok_receive: "log_ok gap d \<Longrightarrow> log_ok gap (receive_status lost now inp d)"
  by (simp add: receive_status_def log_ok_def split: option.splits)

lemma log_ok_calls:
  "\<lbrakk> log_ok 1000000 d; \<forall>c\<in>set cs. call_ok c \<rbrakk> \<Longrightarrow> log_ok 1000000 (drill_calls cs d)"
proof (induction cs arbitrary: d)
  case (Cons c cs)
  have "log_ok 1000000 (drill_calls [c] d)"
    using Cons.prems
    by (cases c) (auto simp: drill_receive_def drill_move_def intro!: log_ok_receive log_ok_send)
  then show ?case
    using Cons.IH [of "drill_calls [c] d"] Cons.prems(2) by (cases c) simp_all
qed simp

text \<open>
  However the rules of the referee call it and whatever the drilling machine reports, two
  commands that are sent to it are at least a second apart, and none is sent while the last
  status says that the drill moves: such a command is dropped and changes nothing.
\<close>

theorem drill_commands_spaced:
  assumes "\<forall>c\<in>set cs. call_ok c" and "d_published d0 = []"
  shows "spaced 1000000 (map fst (d_published (drill_calls cs d0)))
    \<and> (\<forall>d c now t. device_state d \<in> {MOVING_UP, MOVING_DOWN} \<longrightarrow> drill_move c now t d = ok d)"
proof -
  have "log_ok 1000000 d0"
    using assms(2) by (simp add: log_ok_def spaced_def)
  then have "spaced 1000000 (map fst (d_published (drill_calls cs d0)))"
    using log_ok_calls [OF _ assms(1)] by (simp add: log_ok_def)
  moreover have "drill_move c now t d = ok d" if "device_state d \<in> {MOVING_UP, MOVING_DOWN}" for d c now t
    using that by (auto simp: drill_move_def send_command_def drill_moving_def device_state_def
        split: option.splits)
  ultimately show ?thesis
    by blast
qed

section \<open>The simulated drilling machine\<close>

definition ENCODER_MAX :: int where "ENCODER_MAX = 40"

record drill_sim =
  tick :: int
  sim_status :: drill_state
  sim_command :: drill_command
  sim_last_sent :: "int option"

definition sim_init :: "int \<Rightarrow> drill_sim" where
  "sim_init now = \<lparr>tick = ENCODER_MAX, sim_status = AT_TOP, sim_command = MOVE_UP,
     sim_last_sent = Some now\<rparr>"

definition sim_loop :: "drill_sim \<Rightarrow> drill_sim" where
  "sim_loop s =
     (if sim_command s = MOVE_DOWN then
        (if tick s > 1 then s\<lparr>sim_status := MOVING_DOWN, tick := tick s - 1\<rparr>
         else s\<lparr>sim_status := AT_BOTTOM\<rparr>)
      else
        (if tick s < ENCODER_MAX then s\<lparr>sim_status := MOVING_UP, tick := tick s + 1\<rparr>
         else s\<lparr>sim_status := AT_TOP\<rparr>))"

definition sim_move :: "drill_command \<Rightarrow> int \<Rightarrow> int \<Rightarrow> drill_sim \<Rightarrow> drill_sim" where
  "sim_move c now now2 s =
     (if elapsed now (sim_last_sent s) < 200000 then s
      else s\<lparr>sim_command := c, sim_last_sent := Some now2\<rparr>)"

datatype sim_call = Sim_Loop | Sim_Move drill_command int int

fun sim_calls :: "sim_call list \<Rightarrow> drill_sim \<Rightarrow> drill_sim" where
  "sim_calls [] s = s"
| "sim_calls (Sim_Loop # cs) s = sim_calls cs (sim_loop s)"
| "sim_calls (Sim_Move c now now2 # cs) s = sim_calls cs (sim_move c now now2 s)"

definition sim_ok :: "drill_sim \<Rightarrow> bool" where
  "sim_ok s \<longleftrightarrow> 1 \<le> tick s \<and> tick s \<le> ENCODER_MAX
     \<and> (sim_status s = AT_TOP \<longrightarrow> tick s = ENCODER_MAX) \<and> (sim_status s = AT_BOTTOM \<longrightarrow> tick s = 1)"

lemma sim_ok_calls: "sim_ok s \<Longrightarrow> sim_ok (sim_calls cs s)"
proof (induction cs arbitrary: s)
  case (Cons c cs)
  have "sim_ok (sim_calls [c] s)"
    using Cons.prems by (cases c) (auto simp: sim_ok_def sim_loop_def sim_move_def)
  then show ?case
    using Cons.IH [of "sim_calls [c] s"] by (cases c) simp_all
qed simp

lemma loops_down:
  "\<lbrakk> sim_command s = MOVE_DOWN; 1 \<le> tick s \<rbrakk> \<Longrightarrow>
     (sim_loop ^^ n) s = s\<lparr>tick := max 1 (tick s - int n),
       sim_status := (if n = 0 then sim_status s else if int n < tick s then MOVING_DOWN else AT_BOTTOM)\<rparr>"
  by (induction n) (auto simp: sim_loop_def max_def)

lemma loops_up:
  "\<lbrakk> sim_command s = MOVE_UP; tick s \<le> ENCODER_MAX \<rbrakk> \<Longrightarrow>
     (sim_loop ^^ n) s = s\<lparr>tick := min ENCODER_MAX (tick s + int n),
       sim_status := (if n = 0 then sim_status s
         else if int n \<le> ENCODER_MAX - tick s then MOVING_UP else AT_TOP)\<rparr>"
  by (induction n) (auto simp: sim_loop_def min_def)

text \<open>
  After any sequence of loops and commands, a command to move down that is taken brings
  the simulated drill to the bottom: it moves down for one loop less than its encoder value
  and is at the bottom from the next loop on. Up likewise. The encoder stays within its range,
  and the drill is at an end only when the encoder is.
\<close>

theorem drill_reaches_end:
  assumes s: "s = sim_move c now now2 (sim_calls cs (sim_init t0))"
    and "elapsed now (sim_last_sent (sim_calls cs (sim_init t0))) \<ge> 200000"
  shows "sim_ok s \<and> (case c of
      MOVE_DOWN \<Rightarrow> (\<forall>n. 0 < n \<and> int n < tick s \<longrightarrow> sim_status ((sim_loop ^^ n) s) = MOVING_DOWN)
        \<and> (\<forall>n. int n \<ge> tick s \<longrightarrow> sim_status ((sim_loop ^^ n) s) = AT_BOTTOM \<and> tick ((sim_loop ^^ n) s) = 1)
    | MOVE_UP \<Rightarrow> (\<forall>n. 0 < n \<and> int n \<le> ENCODER_MAX - tick s \<longrightarrow> sim_status ((sim_loop ^^ n) s) = MOVING_UP)
        \<and> (\<forall>n. int n > ENCODER_MAX - tick s \<longrightarrow>
             sim_status ((sim_loop ^^ n) s) = AT_TOP \<and> tick ((sim_loop ^^ n) s) = ENCODER_MAX))"
proof -
  have "sim_ok (sim_init t0)"
    by (simp add: sim_ok_def sim_init_def ENCODER_MAX_def)
  then have ok: "sim_ok (sim_calls cs (sim_init t0))"
    by (rule sim_ok_calls)
  have cmd: "sim_command s = c" and t: "tick s = tick (sim_calls cs (sim_init t0))"
    and st: "sim_status s = sim_status (sim_calls cs (sim_init t0))"
    using assms by (simp_all add: sim_move_def)
  have range: "1 \<le> tick s" "tick s \<le> ENCODER_MAX"
    using ok t by (simp_all add: sim_ok_def)
  have "sim_ok s"
    using ok t st by (simp add: sim_ok_def)
  then show ?thesis
    using cmd range loops_down [of s] loops_up [of s] by (cases c) (auto simp: max_def min_def)
qed

section \<open>Examples\<close>

definition demo_drill :: "(drill_status, drill_command) device" where
  "demo_drill = (device_new \<lparr>ds_connected = None, ds_state = None\<rparr>)\<lparr>d_publisher := True, d_subscriber := True\<rparr>"

definition demo_report :: drill_status where
  "demo_report = \<lparr>ds_connected = Some True, ds_state = Some AT_TOP\<rparr>"

theorem drill_status_is_last_message_witness:
  "device_connected (polls drill_lost [(7, Some demo_report), (2000000, None)] demo_drill)
   \<and> device_state (polls drill_lost [(7, Some demo_report), (2000000, None), (3000007, None)] demo_drill) = UNKNOWN"
  using drill_status_is_last_message [of demo_drill "[]" 7 demo_report "[2000000]"]
    drill_status_is_last_message [of demo_drill "[]" 7 demo_report "[2000000, 3000007]"]
  by (simp add: demo_drill_def demo_report_def Let_def)

theorem drill_commands_spaced_witness:
  "spaced 1000000 (map fst (d_published (drill_calls
      [Move MOVE_DOWN 5 (Some 6), Move MOVE_UP 10 (Some 11), Move MOVE_UP 1000006 (Some 1000007)] demo_drill)))
   \<and> map fst (d_published (drill_calls
      [Move MOVE_DOWN 5 (Some 6), Move MOVE_UP 10 (Some 11), Move MOVE_UP 1000006 (Some 1000007)] demo_drill))
     = [6, 1000007]"
proof -
  have "map fst (d_published (drill_calls
      [Move MOVE_DOWN 5 (Some 6), Move MOVE_UP 10 (Some 11), Move MOVE_UP 1000006 (Some 1000007)] demo_drill))
     = [6, 1000007]"
    by (simp add: drill_move_def send_command_def demo_drill_def device_new_def elapsed_def drill_moving_def)
  then show ?thesis
    using drill_commands_spaced [of "[Move MOVE_DOWN 5 (Some 6), Move MOVE_UP 10 (Some 11),
      Move MOVE_UP 1000006 (Some 1000007)]" demo_drill] by (simp add: demo_drill_def device_new_def)
qed

theorem drill_reaches_end_witness:
  "sim_status ((sim_loop ^^ 40) (sim_move MOVE_DOWN 200000 200000 (sim_init 0))) = AT_BOTTOM"
proof -
  have t: "tick (sim_move MOVE_DOWN 200000 200000 (sim_init 0)) = 40"
    by (simp add: sim_move_def sim_init_def ENCODER_MAX_def elapsed_def)
  show ?thesis
    using drill_reaches_end [of _ MOVE_DOWN 200000 200000 "[]" 0, OF refl] t
    by (simp add: sim_init_def elapsed_def)
qed

end
