(* ===== verification/Trig_Belt.thy ===== *)
theory Trig_Belt imports Devices
begin

text \<open>
  The triggered conveyor belt with its quality control camera,
  \<open>rockin/plugins/triggered_conveyor_belt\<close>: commands carry the number of the next cycle and
  are repeated until the belt reports that number; and the simulated belt.
\<close>

section \<open>State\<close>

record camera_status =
  cs_connected :: "bool option"
  cs_state :: "nat option"

record belt_command =
  bc_mode :: run_mode
  bc_reset :: bool
  bc_next_cycle :: "32 word"

record tbelt =
  tb_publisher :: bool
  tb_conveyor :: bool
  tb_camera :: bool
  tb_interval :: "32 word"
  tb_cycle :: "32 word"
  send_conveyor_command :: bool
  send_reset_command :: bool
  requested_run_mode :: run_mode
  last_conveyor :: belt_status
  last_camera :: camera_status
  last_state :: nat
  prev_conveyor :: "int option"
  prev_camera :: "int option"
  last_sent :: "int option"
  tb_sent :: "(int \<times> belt_command) list"
  tb_facts :: "string list"

definition tbelt_new :: tbelt where
  "tbelt_new = \<lparr>tb_publisher = False, tb_conveyor = False, tb_camera = False, tb_interval = 40,
     tb_cycle = 0, send_conveyor_command = False, send_reset_command = True,
     requested_run_mode = STOP, last_conveyor = \<lparr>bs_connected = None, bs_mode = None, bs_cycle = 0\<rparr>,
     last_camera = \<lparr>cs_connected = None, cs_state = None\<rparr>, last_state = 0,
     prev_conveyor = None, prev_camera = None, last_sent = None, tb_sent = [], tb_facts = []\<rparr>"

section \<open>Commands\<close>

text \<open>There is no test of the socket: without one the null pointer is used.\<close>

definition set_run_mode :: "run_mode \<Rightarrow> int \<Rightarrow> int option \<Rightarrow> tbelt \<Rightarrow> tbelt mutation" where
  "set_run_mode mode now sent_at s =
     (if elapsed now (last_sent s) < 1000000 then ok s
      else if \<not> tb_publisher s then throwing (UndefinedBehaviour ''zmq_publisher_ is NULL'') s
      else case sent_at of
        None \<Rightarrow> throwing (LibraryException ''zmq::error_t'') s
      | Some t \<Rightarrow>
          ok (s\<lparr>last_sent := Some t,
                tb_sent := tb_sent s @ [(t, \<lparr>bc_mode = mode, bc_reset = send_reset_command s,
                                            bc_next_cycle = tb_cycle s + 1\<rparr>)]\<rparr>))"

definition start_belt :: "tbelt \<Rightarrow> tbelt" where
  "start_belt s = s\<lparr>requested_run_mode := START, send_conveyor_command := True\<rparr>"

definition stop_belt :: "tbelt \<Rightarrow> tbelt" where
  "stop_belt s = s\<lparr>requested_run_mode := STOP, send_conveyor_command := True\<rparr>"

definition tb_running :: "tbelt \<Rightarrow> bool" where
  "tb_running s \<longleftrightarrow> bs_mode (last_conveyor s) = Some START"

definition tb_connected :: "tbelt \<Rightarrow> bool" where
  "tb_connected s \<longleftrightarrow> bs_connected (last_conveyor s) = Some True"

definition camera_connected :: "tbelt \<Rightarrow> bool" where
  "camera_connected s \<longleftrightarrow> cs_connected (last_camera s) = Some True"

section \<open>Status\<close>

text \<open>
  A message is what \<open>ParseFromArray\<close> left in the member, and whether it succeeded. The
  cycles are compared as \<open>int\<close>.
\<close>

definition receive_conveyor :: "int \<Rightarrow> (belt_status \<times> bool) option \<Rightarrow> tbelt \<Rightarrow> tbelt" where
  "receive_conveyor now inp s =
     (if \<not> tb_conveyor s then s
      else case inp of
        Some (st, parsed) \<Rightarrow>
          (let s1 = s\<lparr>last_conveyor := st\<rparr> in
           if parsed then
             (let expected = tb_cycle s1 + 1;
                  s2 = (if bs_cycle st = expected then
                          s1\<lparr>tb_cycle := tb_cycle s1 + 1, send_conveyor_command := False,
                             send_reset_command := False\<rparr>
                        else if expected <s bs_cycle st then s1\<lparr>send_reset_command := True\<rparr>
                        else s1)
              in s2\<lparr>prev_conveyor := Some now\<rparr>)
           else s1)
      | None \<Rightarrow>
          if elapsed now (prev_conveyor s) \<ge> 3000000
          then s\<lparr>last_conveyor := belt_lost (last_conveyor s)\<rparr> else s)"

definition plate_text :: "nat \<Rightarrow> string" where
  "plate_text n =
     (if n = 0 then ''NO_PLATE'' else if n = 1 then ''UNKNOWN_PLATE''
      else if n = 2 then ''FAULTY_PLATE'' else if n = 3 then ''UNUSABLE_PLATE''
      else ''UNKNOWN_PLATE'')"

definition camera_state :: "camera_status \<Rightarrow> nat" where
  "camera_state st = (case cs_state st of Some n \<Rightarrow> n | None \<Rightarrow> 0)"

definition receive_camera :: "int \<Rightarrow> (camera_status \<times> bool) option \<Rightarrow> tbelt \<Rightarrow> tbelt" where
  "receive_camera now inp s =
     (if \<not> tb_camera s then s
      else case inp of
        Some (st, parsed) \<Rightarrow>
          (let s1 = s\<lparr>last_camera := st\<rparr> in
           if parsed then
             s1\<lparr>prev_camera := Some now, last_state := camera_state st,
                tb_facts := tb_facts s1 @
                  [''(quality-control-camera-object '' @ plate_text (camera_state st) @ '')'']\<rparr>
           else s1)
      | None \<Rightarrow>
          if elapsed now (prev_camera s) \<ge> 3000000
          then s\<lparr>last_camera := (last_camera s)\<lparr>cs_connected := Some False, cs_state := Some 1\<rparr>\<rparr>
          else s)"

record loop_input =
  li_now :: int
  li_conveyor :: "(belt_status \<times> bool) option"
  li_camera :: "(camera_status \<times> bool) option"
  li_sent_at :: "int option"

definition tb_loop :: "loop_input \<Rightarrow> tbelt \<Rightarrow> tbelt mutation" where
  "tb_loop i s0 =
     (let s = receive_camera (li_now i) (li_camera i) (receive_conveyor (li_now i) (li_conveyor i) s0) in
      if send_conveyor_command s then
        (if tb_cycle s + 1 = bs_cycle (last_conveyor s) then ok s
         else set_run_mode (requested_run_mode s) (li_now i) (li_sent_at i) s)
      else if send_reset_command s then
        set_run_mode (requested_run_mode s) (li_now i) (li_sent_at i) s
      else ok s)"

text \<open>
  \<open>init()\<close>: what happens while the sockets are made is \<open>sockets\<close>, made or not made by
  the configuration, or an exception, which is caught. Then the reset is sent.
\<close>

definition tb_init :: "devcfg \<Rightarrow> (bool + exn) \<Rightarrow> int \<Rightarrow> int option \<Rightarrow> tbelt \<Rightarrow> tbelt mutation" where
  "tb_init c sockets now sent_at s =
     (case read_interval c (tb_interval s) of
        Inl x \<Rightarrow> throwing x s
      | Inr n \<Rightarrow>
          (let up = (case sockets of Inl b \<Rightarrow> b | Inr x \<Rightarrow> False);
               s1 = s\<lparr>tb_interval := n, tb_publisher := up, tb_conveyor := up, tb_camera := up\<rparr>
           in set_run_mode (requested_run_mode s1) now sent_at s1))"

definition tb_finalize :: "tbelt \<Rightarrow> tbelt" where
  "tb_finalize s = s\<lparr>tb_publisher := False, tb_conveyor := False, tb_camera := False\<rparr>"

text \<open>
  Without sockets \<open>init()\<close> uses the null pointer: the time of the last command is not set,
  so the command is not held back.
\<close>

lemma tb_init_without_sockets:
  assumes "read_interval c 40 = Inr n" and "sockets \<noteq> Inl True"
  shows "snd (tb_init c sockets now sent_at tbelt_new) =
    Some (UndefinedBehaviour ''zmq_publisher_ is NULL'')"
  using assms by (auto simp: tb_init_def set_run_mode_def elapsed_def tbelt_new_def Let_def
      split: sum.splits)

section \<open>Stop and wait\<close>

fun tb_loops :: "loop_input list \<Rightarrow> tbelt \<Rightarrow> tbelt" where
  "tb_loops [] s = s"
| "tb_loops (i # is) s = tb_loops is (fst (tb_loop i s))"

text \<open>The belt does not acknowledge cycle \<open>n\<close>, and ZeroMQ takes the message.\<close>

definition unanswered :: "32 word \<Rightarrow> loop_input \<Rightarrow> bool" where
  "unanswered n i \<longleftrightarrow> (case li_conveyor i of None \<Rightarrow> True | Some (st, _) \<Rightarrow> bs_cycle st \<noteq> n)
     \<and> (\<exists>t. li_sent_at i = Some t \<and> li_now i \<le> t)"

definition waiting :: "run_mode \<Rightarrow> 32 word \<Rightarrow> tbelt \<Rightarrow> bool" where
  "waiting mode n s \<longleftrightarrow> send_conveyor_command s \<and> requested_run_mode s = mode \<and> tb_cycle s + 1 = n
     \<and> bs_cycle (last_conveyor s) \<noteq> n \<and> tb_publisher s \<and> tb_conveyor s"

lemma receive_conveyor_waiting:
  assumes "waiting mode n s" and "unanswered n i"
  shows "waiting mode n (receive_conveyor now (li_conveyor i) s)"
    and "last_sent (receive_conveyor now (li_conveyor i) s) = last_sent s"
    and "tb_sent (receive_conveyor now (li_conveyor i) s) = tb_sent s"
  using assms by (auto simp: waiting_def unanswered_def receive_conveyor_def belt_lost_def Let_def
      split: option.splits prod.splits)

lemma receive_camera_sel [simp]:
  "send_conveyor_command (receive_camera now inp s) = send_conveyor_command s"
  "send_reset_command (receive_camera now inp s) = send_reset_command s"
  "requested_run_mode (receive_camera now inp s) = requested_run_mode s"
  "tb_cycle (receive_camera now inp s) = tb_cycle s"
  "last_conveyor (receive_camera now inp s) = last_conveyor s"
  "tb_publisher (receive_camera now inp s) = tb_publisher s"
  "tb_conveyor (receive_camera now inp s) = tb_conveyor s"
  "last_sent (receive_camera now inp s) = last_sent s"
  "tb_sent (receive_camera now inp s) = tb_sent s"
  by (simp_all add: receive_camera_def Let_def split: option.splits prod.splits)

lemma receive_camera_waiting: "waiting mode n s \<Longrightarrow> waiting mode n (receive_camera now inp s)"
  by (simp add: waiting_def)

text \<open>The commands sent so far: all repeat the request, and the last was sent at \<open>last_sent\<close>.\<close>

definition repeats :: "run_mode \<Rightarrow> 32 word \<Rightarrow> (int \<times> belt_command) list \<Rightarrow> bool" where
  "repeats mode n cs \<longleftrightarrow> (\<forall>(t, c)\<in>set cs. bc_mode c = mode \<and> bc_next_cycle c = n)"

lemma tb_loop_waiting:
  assumes "waiting mode n s" and "unanswered n i"
  shows "\<exists>new. tb_sent (fst (tb_loop i s)) = tb_sent s @ new \<and> repeats mode n new
    \<and> waiting mode n (fst (tb_loop i s))
    \<and> (\<exists>l. last_sent (fst (tb_loop i s)) = Some l \<and> li_now i < l + 1000000
         \<and> (new = [] \<and> last_sent s = Some l
            \<or> (\<exists>c. new = [(l, c)]) \<and> elapsed (li_now i) (last_sent s) \<ge> 1000000 \<and> li_now i \<le> l))"
proof -
  let ?r = "receive_camera (li_now i) (li_camera i) (receive_conveyor (li_now i) (li_conveyor i) s)"
  note rc = receive_conveyor_waiting [OF assms, of "li_now i"]
  have w: "waiting mode n ?r"
    by (rule receive_camera_waiting) (rule rc)
  have ls: "last_sent ?r = last_sent s" "tb_sent ?r = tb_sent s"
    using rc by simp_all
  obtain t where t: "li_sent_at i = Some t" "li_now i \<le> t"
    using assms(2) by (auto simp: unanswered_def)
  have loop: "tb_loop i s = set_run_mode mode (li_now i) (Some t) ?r"
    using w t(1) unfolding tb_loop_def waiting_def Let_def by auto
  show ?thesis
  proof (cases "elapsed (li_now i) (last_sent s) < 1000000")
    case True
    then obtain l where "last_sent s = Some l"
      by (cases "last_sent s") (simp_all add: elapsed_def)
    then show ?thesis
      using True w ls by (simp add: loop set_run_mode_def repeats_def elapsed_def)
  next
    case False
    let ?c = "\<lparr>bc_mode = mode, bc_reset = send_reset_command ?r, bc_next_cycle = n\<rparr>"
    have pub: "tb_publisher ?r" "tb_cycle ?r + 1 = n"
      using w unfolding waiting_def by blast+
    have res: "fst (tb_loop i s) = ?r\<lparr>last_sent := Some t, tb_sent := tb_sent s @ [(t, ?c)]\<rparr>"
      using False pub ls by (simp add: loop set_run_mode_def)
    have "waiting mode n (fst (tb_loop i s))"
      using w unfolding res waiting_def by simp
    then show ?thesis
      using False t(2) by (intro exI [of _ "[(t, ?c)]"]) (simp add: res repeats_def)
  qed
qed

lemma spaced_append_one:
  "\<lbrakk> spaced gap (map fst cs); \<forall>a\<in>set cs. fst a \<le> l; l + gap \<le> t; 0 \<le> gap \<rbrakk> \<Longrightarrow> spaced gap (map fst (cs @ [(t, c)]))"
  by (auto simp: spaced_snoc)

definition sent_log_ok :: "tbelt \<Rightarrow> (int \<times> belt_command) list \<Rightarrow> bool" where
  "sent_log_ok s cs \<longleftrightarrow> spaced 1000000 (map fst cs) \<and> (\<forall>l. last_sent s = Some l \<longrightarrow> (\<forall>a\<in>set cs. fst a \<le> l))
     \<and> (last_sent s = None \<longrightarrow> cs = [])"

lemma tb_loops_waiting:
  assumes "waiting mode n s" and "\<forall>i\<in>set is. unanswered n i" and "sent_log_ok s old"
  shows "\<exists>new. tb_sent (tb_loops is s) = tb_sent s @ new \<and> repeats mode n new
    \<and> waiting mode n (tb_loops is s) \<and> sent_log_ok (tb_loops is s) (old @ new)
    \<and> (is \<noteq> [] \<longrightarrow> (\<exists>l. last_sent (tb_loops is s) = Some l \<and> li_now (last is) < l + 1000000))"
  using assms
proof (induction "is" arbitrary: s old)
  case Nil
  then show ?case
    by (auto simp: repeats_def)
next
  case (Cons i "is")
  let ?s1 = "fst (tb_loop i s)"
  have ui: "unanswered n i" and uis: "\<forall>i\<in>set is. unanswered n i"
    using Cons.prems(2) by simp_all
  obtain new l where 1: "tb_sent ?s1 = tb_sent s @ new" "repeats mode n new" "waiting mode n ?s1"
      "last_sent ?s1 = Some l" "li_now i < l + 1000000"
      "new = [] \<and> last_sent s = Some l \<or> (\<exists>c. new = [(l, c)]) \<and> elapsed (li_now i) (last_sent s) \<ge> 1000000 \<and> li_now i \<le> l"
    using tb_loop_waiting [OF Cons.prems(1) ui] by blast
  have log: "sent_log_ok ?s1 (old @ new)"
    using 1(6)
  proof
    assume a: "new = [] \<and> last_sent s = Some l"
    then show ?thesis
      using Cons.prems(3) 1(4) by (simp add: sent_log_ok_def)
  next
    assume a: "(\<exists>c. new = [(l, c)]) \<and> elapsed (li_now i) (last_sent s) \<ge> 1000000 \<and> li_now i \<le> l"
    then obtain c where c: "new = [(l, c)]" by blast
    show ?thesis
    proof (cases "last_sent s")
      case None
      then show ?thesis
        using Cons.prems(3) c 1(4) by (simp add: sent_log_ok_def spaced_def)
    next
      case (Some k)
      have old: "fst b \<le> k" if "b \<in> set old" for b
        using that Some Cons.prems(3) by (simp add: sent_log_ok_def)
      have gap: "k + 1000000 \<le> l"
        using a Some by (simp add: elapsed_def)
      then have "fst b \<le> l" if "b \<in> set (old @ new)" for b
        using that old [of b] c by auto
      moreover have "spaced 1000000 (map fst (old @ new))"
        using Cons.prems(3) old gap unfolding c by (intro spaced_append_one) (auto simp: sent_log_ok_def)
      ultimately show ?thesis
        using 1(4) by (simp add: sent_log_ok_def del: map_append)
    qed
  qed
  obtain new2 where 2: "tb_sent (tb_loops is ?s1) = tb_sent ?s1 @ new2" "repeats mode n new2"
      "waiting mode n (tb_loops is ?s1)" "sent_log_ok (tb_loops is ?s1) ((old @ new) @ new2)"
      "is \<noteq> [] \<longrightarrow> (\<exists>l. last_sent (tb_loops is ?s1) = Some l \<and> li_now (last is) < l + 1000000)"
    using Cons.IH [OF 1(3) uis log] by blast
  show ?case
  proof (intro exI [of _ "new @ new2"] conjI)
    show "repeats mode n (new @ new2)"
      using 1(2) 2(2) by (auto simp: repeats_def)
  qed (use 1 2 in auto)
qed


section \<open>The simulated belt\<close>

record belt_sim =
  bsim_running :: bool
  time_to_stop :: "int option"
  bsim_facts :: "string list"

definition bsim_new :: belt_sim where
  "bsim_new = \<lparr>bsim_running = False, time_to_stop = None, bsim_facts = []\<rparr>"

text \<open>
  \<open>boost::posix_time::seconds\<close> takes whole seconds: the random duration is cut off. The
  numbers that the generator gives are arguments.
\<close>

definition bsim_start :: "int \<Rightarrow> int \<Rightarrow> belt_sim \<Rightarrow> belt_sim" where
  "bsim_start now random_micros s =
     s\<lparr>bsim_running := True, time_to_stop := Some (now + random_micros div 1000000 * 1000000)\<rparr>"

definition bsim_stop :: "belt_sim \<Rightarrow> belt_sim" where
  "bsim_stop s = s\<lparr>bsim_running := False\<rparr>"

definition bsim_loop :: "int \<Rightarrow> nat \<Rightarrow> belt_sim \<Rightarrow> belt_sim" where
  "bsim_loop now plate s =
     (if \<not> bsim_running s then s
      else if (case time_to_stop s of None \<Rightarrow> False | Some t \<Rightarrow> now < t) then s
      else s\<lparr>bsim_running := False,
             bsim_facts := bsim_facts s @ [''(quality-control-camera-object '' @ plate_text plate @ '')'']\<rparr>)"

section \<open>Example\<close>

definition demo_belt :: tbelt where
  "demo_belt = tbelt_new\<lparr>tb_publisher := True, tb_conveyor := True, send_reset_command := False\<rparr>"

definition demo_loop :: "int \<Rightarrow> (belt_status \<times> bool) option \<Rightarrow> loop_input" where
  "demo_loop now c = \<lparr>li_now = now, li_conveyor = c, li_camera = None, li_sent_at = Some now\<rparr>"

definition demo_ack :: belt_status where
  "demo_ack = \<lparr>bs_connected = Some True, bs_mode = Some START, bs_cycle = 1\<rparr>"


end
