(* ===== verification/Plugin_Loader.thy ===== *)
theory Plugin_Loader imports Prelude
begin

text \<open>
  Shared objects and the plugins in them: \<open>ModuleManager\<close> and the reference counts of
  \<open>Module\<close> (\<open>src/libs/utils/system/dynamic_module\<close>), \<open>PluginLoader\<close>
  (\<open>src/libs/plugin/loader.cpp\<close>). The dynamic linker and the functions in the shared object
  are parameters; a plugin object is the number it was created with.
\<close>

section \<open>Modules\<close>

text \<open>
  \<open>dl_open\<close> is the exception that opening a file ends in, if any; \<open>dl_symbol\<close> whether an
  opened file has a symbol; \<open>dl_factory\<close> whether its factory returns an object, or throws.
\<close>

record dlenv =
  dl_open :: "string \<Rightarrow> exn option"
  dl_symbol :: "string \<Rightarrow> string \<Rightarrow> bool"
  dl_factory :: "string \<Rightarrow> bool result"

text \<open>What follows the last slash.\<close>

fun base_filename :: "string \<Rightarrow> string" where
  "base_filename [] = []"
| "base_filename (c # cs) = (if CHR ''/'' \<in> set cs \<or> c = CHR ''/'' then base_filename cs else c # cs)"

text \<open>The opened modules by base filename, with their reference counts.\<close>

record modules =
  base_dir :: string
  ref_count :: "string \<Rightarrow> nat option"

definition modules_new :: "string \<Rightarrow> modules" where
  "modules_new dir = \<lparr>base_dir = dir, ref_count = Map.empty\<rparr>"

definition module_ref :: "nat \<Rightarrow> nat" where
  "module_ref n = n + 1"

definition module_unref :: "nat \<Rightarrow> nat" where
  "module_unref n = (if n > 0 then n - 1 else n)"

definition module_notref :: "nat \<Rightarrow> bool" where
  "module_notref n \<longleftrightarrow> n = 0"

text \<open>The result is the base filename of the module that is returned.\<close>

definition open_module :: "dlenv \<Rightarrow> string \<Rightarrow> modules \<Rightarrow> (modules \<times> string) result" where
  "open_module D filename ms =
     (case ref_count ms filename of
        Some n \<Rightarrow> Inr (ms\<lparr>ref_count := (ref_count ms)(filename \<mapsto> module_ref n)\<rparr>, filename)
      | None \<Rightarrow>
          (let path = base_dir ms @ ''/'' @ filename in
           case dl_open D path of
             Some x \<Rightarrow> Inl x
           | None \<Rightarrow> Inr (ms\<lparr>ref_count := (ref_count ms)(base_filename path \<mapsto> 1)\<rparr>, base_filename path)))"

definition close_module :: "string \<Rightarrow> modules \<Rightarrow> modules" where
  "close_module filename ms =
     (case ref_count ms filename of
        None \<Rightarrow> ms
      | Some n \<Rightarrow>
          if module_notref (module_unref n)
          then ms\<lparr>ref_count := (ref_count ms)(filename := None)\<rparr>
          else ms\<lparr>ref_count := (ref_count ms)(filename \<mapsto> module_unref n)\<rparr>)"

definition get_module :: "string \<Rightarrow> modules \<Rightarrow> modules \<times> bool" where
  "get_module filename ms =
     (case ref_count ms filename of
        Some n \<Rightarrow> (ms\<lparr>ref_count := (ref_count ms)(filename \<mapsto> module_ref n)\<rparr>, True)
      | None \<Rightarrow> (ms, False))"

definition module_opened :: "string \<Rightarrow> modules \<Rightarrow> bool" where
  "module_opened filename ms \<longleftrightarrow> ref_count ms filename \<noteq> None"

lemma base_filename_plain: "CHR ''/'' \<notin> set s \<Longrightarrow> base_filename s = s"
  by (cases s) auto

lemma base_filename_path: "CHR ''/'' \<notin> set s \<Longrightarrow> base_filename (d @ CHR ''/'' # s) = s"
proof (induction d)
  case Nil
  then show ?case
    by (simp add: base_filename_plain)
qed simp

text \<open>Opening and closing a module is balanced.\<close>

lemma open_close:
  assumes "CHR ''/'' \<notin> set f" and "open_module D f ms = Inr (ms', k)" and "ref_count ms f \<noteq> Some 0"
  shows "k = f" and "ref_count (close_module k ms') = ref_count ms" and "ref_count ms' f \<noteq> None"
    and "ref_count ms' f \<noteq> Some 0" and "\<And>g. g \<noteq> f \<Longrightarrow> ref_count ms' g = ref_count ms g"
  using assms base_filename_path [OF assms(1), of "base_dir ms"]
  by (auto simp: open_module_def close_module_def module_ref_def module_unref_def module_notref_def
      Let_def fun_upd_idem split: option.splits if_splits)

section \<open>The loader\<close>

record loader =
  mm :: modules
  plugin_module_map :: "nat \<Rightarrow> string option"
  name_plugin_map :: "string \<Rightarrow> nat option"
  plugin_name_map :: "nat \<Rightarrow> string option"
  next_plugin :: nat

definition loader_new :: "string \<Rightarrow> loader" where
  "loader_new dir = \<lparr>mm = modules_new dir, plugin_module_map = Map.empty, name_plugin_map = Map.empty,
     plugin_name_map = Map.empty, next_plugin = 0\<rparr>"

definition module_file :: "string \<Rightarrow> string" where
  "module_file name = name @ ''.so''"

definition loader_open_module :: "dlenv \<Rightarrow> string \<Rightarrow> loader \<Rightarrow> (loader \<times> string) result" where
  "loader_open_module D name l =
     (case open_module D (module_file name) (mm l) of
        Inl x \<Rightarrow> Inl (if is_fawkes x then PluginLoadException name ''failed to open module'' else x)
      | Inr (ms, k) \<Rightarrow> Inr (l\<lparr>mm := ms\<rparr>, k))"

text \<open>A plugin object has a fresh number; without one the module stays open.\<close>

definition create_instance :: "dlenv \<Rightarrow> string \<Rightarrow> string \<Rightarrow> loader \<Rightarrow> loader \<times> nat result" where
  "create_instance D name k l =
     (if \<not> dl_symbol D k ''plugin_factory''
      then (l, Inl (PluginLoadException name ''Symbol 'plugin_factory' not found''))
      else if \<not> dl_symbol D k ''plugin_description''
      then (l, Inl (PluginLoadException name ''Symbol 'plugin_description' not found''))
      else case dl_factory D k of
        Inl x \<Rightarrow> (l, Inl x)
      | Inr False \<Rightarrow> (l, Inl (PluginLoadException name ''Plugin could not be instantiated''))
      | Inr True \<Rightarrow> (l\<lparr>next_plugin := Suc (next_plugin l)\<rparr>, Inr (next_plugin l)))"

definition loader_load :: "dlenv \<Rightarrow> string \<Rightarrow> loader \<Rightarrow> loader \<times> nat result" where
  "loader_load D name l =
     (case name_plugin_map l name of
        Some p \<Rightarrow> (l, Inr p)
      | None \<Rightarrow>
          (case loader_open_module D name l of
             Inl x \<Rightarrow> (l, Inl x)
           | Inr (l1, k) \<Rightarrow>
               (case create_instance D name k l1 of
                  (l2, Inl x) \<Rightarrow> (l2, Inl x)
                | (l2, Inr p) \<Rightarrow>
                    (l2\<lparr>plugin_module_map := (plugin_module_map l2)(p \<mapsto> k),
                        name_plugin_map := (name_plugin_map l2)(name \<mapsto> p),
                        plugin_name_map := (plugin_name_map l2)(p \<mapsto> name)\<rparr>, Inr p))))"

definition loader_is_loaded :: "string \<Rightarrow> loader \<Rightarrow> bool" where
  "loader_is_loaded name l \<longleftrightarrow> name_plugin_map l name \<noteq> None"

definition loader_unload :: "nat \<Rightarrow> loader \<Rightarrow> loader" where
  "loader_unload p l =
     (case plugin_module_map l p of
        None \<Rightarrow> l
      | Some k \<Rightarrow>
          l\<lparr>mm := close_module k (mm l),
            plugin_module_map := (plugin_module_map l)(p := None),
            name_plugin_map :=
              (name_plugin_map l)((case plugin_name_map l p of Some n \<Rightarrow> n | None \<Rightarrow> []) := None),
            plugin_name_map := (plugin_name_map l)(p := None)\<rparr>)"

text \<open>
  The maps between names and plugins are inverse to each other, and the module of every
  loaded plugin is open.
\<close>

definition loader_ok :: "loader \<Rightarrow> bool" where
  "loader_ok l \<longleftrightarrow>
     (\<forall>n p. name_plugin_map l n = Some p \<longleftrightarrow> plugin_name_map l p = Some n)
     \<and> (\<forall>p. plugin_name_map l p = None \<longleftrightarrow> plugin_module_map l p = None)
     \<and> (\<forall>p n. plugin_name_map l p = Some n \<longrightarrow> p < next_plugin l)
     \<and> (\<forall>k. ref_count (mm l) k \<noteq> Some 0)"

lemma loader_ok_new: "loader_ok (loader_new dir)"
  by (simp add: loader_ok_def loader_new_def modules_new_def)

lemma close_positive: "\<forall>k. ref_count ms k \<noteq> Some 0 \<Longrightarrow> ref_count (close_module f ms) k \<noteq> Some 0"
  by (auto simp: close_module_def module_unref_def module_notref_def split: option.splits)

lemma open_positive:
  "\<lbrakk> open_module D f ms = Inr (ms', k); \<forall>k. ref_count ms k \<noteq> Some 0 \<rbrakk> \<Longrightarrow> ref_count ms' g \<noteq> Some 0"
  by (auto simp: open_module_def module_ref_def Let_def split: option.splits if_splits)

lemma loader_load_cases:
  assumes "loader_ok l" and "loader_load D name l = (l', r)"
  shows "loader_ok l'
    \<and> (case r of
         Inl x \<Rightarrow> name_plugin_map l' = name_plugin_map l \<and> name_plugin_map l name = None
       | Inr p \<Rightarrow> name_plugin_map l' = (name_plugin_map l)(name \<mapsto> p))"
proof (cases "name_plugin_map l name")
  case (Some p)
  then show ?thesis
    using assms by (auto simp: loader_load_def fun_upd_idem)
next
  case None
  note ok = assms(1) [unfolded loader_ok_def]
  show ?thesis
  proof (cases "open_module D (module_file name) (mm l)")
    case (Inl x)
    then show ?thesis
      using assms None by (auto simp: loader_load_def loader_open_module_def)
  next
    case (Inr a)
    obtain ms k where o: "open_module D (module_file name) (mm l) = Inr (ms, k)"
      using Inr by (cases a) simp
    have pos: "\<forall>g. ref_count ms g \<noteq> Some 0"
      using open_positive [OF o] ok by blast
    then have ok1: "loader_ok (l\<lparr>mm := ms\<rparr>)"
      using ok by (simp add: loader_ok_def)
    show ?thesis
    proof (cases "snd (create_instance D name k (l\<lparr>mm := ms\<rparr>))")
      case (Inl x)
      then have "create_instance D name k (l\<lparr>mm := ms\<rparr>) = (l\<lparr>mm := ms\<rparr>, Inl x)"
        by (auto simp: create_instance_def split: sum.splits bool.splits if_splits)
      then show ?thesis
        using assms(2) None o ok1 by (auto simp: loader_load_def loader_open_module_def)
    next
      case (Inr p)
      then have c: "create_instance D name k (l\<lparr>mm := ms\<rparr>) =
          (l\<lparr>mm := ms, next_plugin := Suc (next_plugin l)\<rparr>, Inr (next_plugin l))"
        by (auto simp: create_instance_def split: sum.splits bool.splits if_splits)
      let ?p = "next_plugin l"
      have fresh: "plugin_name_map l ?p = None" "\<And>n. name_plugin_map l n \<noteq> Some ?p"
        using ok by (metis less_irrefl option.exhaust)+
      have r: "r = Inr ?p" "l' = l\<lparr>mm := ms, next_plugin := Suc ?p,
          plugin_module_map := (plugin_module_map l)(?p \<mapsto> k),
          name_plugin_map := (name_plugin_map l)(name \<mapsto> ?p),
          plugin_name_map := (plugin_name_map l)(?p \<mapsto> name)\<rparr>"
        using assms(2) None o c by (simp_all add: loader_load_def loader_open_module_def)
      have 1: "((name_plugin_map l)(name \<mapsto> ?p)) n = Some q \<longleftrightarrow> ((plugin_name_map l)(?p \<mapsto> name)) q = Some n" for n q
      proof -
        have inv: "name_plugin_map l n = Some q \<longleftrightarrow> plugin_name_map l q = Some n" for n q
          using ok by blast
        have "plugin_name_map l q \<noteq> Some name"
          using inv [of name q] None by simp
        then show ?thesis
          using inv [of n q] fresh by (cases "n = name"; cases "q = ?p") simp_all
      qed
      have 2: "((plugin_name_map l)(?p \<mapsto> name)) q = None \<longleftrightarrow> ((plugin_module_map l)(?p \<mapsto> k)) q = None" for q
        using ok by simp
      have 3: "((plugin_name_map l)(?p \<mapsto> name)) q = Some n \<longrightarrow> q < Suc ?p" for q n
        using ok less_SucI by (cases "q = ?p") fastforce+
      have "loader_ok l'"
        using 1 2 3 pos unfolding loader_ok_def r(2) by simp
      then show ?thesis
        using r by simp
    qed
  qed
qed

lemma loader_unload_ok:
  assumes "loader_ok l" and "plugin_name_map l p = Some n"
  shows "loader_ok (loader_unload p l)" and "name_plugin_map (loader_unload p l) = (name_plugin_map l)(n := None)"
proof -
  note ok = assms(1) [unfolded loader_ok_def]
  obtain k where k: "plugin_module_map l p = Some k"
    using ok assms(2) by (metis option.exhaust)
  have l': "loader_unload p l = l\<lparr>mm := close_module k (mm l),
      plugin_module_map := (plugin_module_map l)(p := None),
      name_plugin_map := (name_plugin_map l)(n := None),
      plugin_name_map := (plugin_name_map l)(p := None)\<rparr>"
    using k assms(2) by (simp add: loader_unload_def)
  then show "name_plugin_map (loader_unload p l) = (name_plugin_map l)(n := None)"
    by simp
  have inj: "m = n" if "plugin_name_map l p = Some m" for m
    using that assms(2) by simp
  have inj2: "q = p" if "plugin_name_map l q = Some n" for q
  proof -
    have "name_plugin_map l n = Some q" "name_plugin_map l n = Some p"
      using ok that assms(2) by blast+
    then show ?thesis by simp
  qed
  have pos: "\<forall>g. ref_count (close_module k (mm l)) g \<noteq> Some 0"
    using ok close_positive [of "mm l"] by blast
  have 1: "((name_plugin_map l)(n := None)) m = Some q \<longleftrightarrow> ((plugin_name_map l)(p := None)) q = Some m" for m q
  proof -
    have inv: "name_plugin_map l m = Some q \<longleftrightarrow> plugin_name_map l q = Some m"
      using ok by blast
    have a: "q \<noteq> p \<longrightarrow> plugin_name_map l q \<noteq> Some n" and b: "m \<noteq> n \<longrightarrow> plugin_name_map l p \<noteq> Some m"
      using inj inj2 by blast+
    show ?thesis
    proof (cases "m = n")
      case True
      then show ?thesis using a by (cases "q = p") simp_all
    next
      case False
      then show ?thesis using inv b by (cases "q = p") simp_all
    qed
  qed
  have 2: "((plugin_name_map l)(p := None)) q = None \<longleftrightarrow> ((plugin_module_map l)(p := None)) q = None" for q
    using ok by simp
  have 3: "((plugin_name_map l)(p := None)) q = Some m \<longrightarrow> q < next_plugin l" for q m
  proof -
    have "plugin_name_map l q = Some m \<longrightarrow> q < next_plugin l"
      using ok by blast
    then show ?thesis by (cases "q = p") simp_all
  qed
  show "loader_ok (loader_unload p l)"
    using 1 2 3 pos unfolding l' loader_ok_def by simp
qed

text \<open>
  Loading a plugin that is not loaded and unloading it again leaves the loader as it was:
  the same plugins under the same names, and the same reference count of every shared object.
  While it is loaded its shared object is open, and loading it once more returns the same
  object and changes nothing.
\<close>

theorem loader_load_unload:
  assumes "loader_ok l" and "name_plugin_map l name = None" and "CHR ''/'' \<notin> set name"
    and "loader_load D name l = (l', Inr p)"
  shows "name_plugin_map (loader_unload p l') = name_plugin_map l
    \<and> plugin_name_map (loader_unload p l') = plugin_name_map l
    \<and> plugin_module_map (loader_unload p l') = plugin_module_map l
    \<and> ref_count (mm (loader_unload p l')) = ref_count (mm l)
    \<and> module_opened (module_file name) (mm l') \<and> loader_load D name l' = (l', Inr p)"
proof -
  note ok = assms(1) [unfolded loader_ok_def]
  have slash: "CHR ''/'' \<notin> set (module_file name)"
    using assms(3) by (simp add: module_file_def)
  obtain ms k where o: "open_module D (module_file name) (mm l) = Inr (ms, k)"
    using assms(2,4) by (auto simp: loader_load_def loader_open_module_def split: sum.splits prod.splits)
  have pos: "ref_count (mm l) (module_file name) \<noteq> Some 0"
    using ok by blast
  note oc = open_close [OF slash o pos]
  have c: "create_instance D name k (l\<lparr>mm := ms\<rparr>) =
      (l\<lparr>mm := ms, next_plugin := Suc (next_plugin l)\<rparr>, Inr (next_plugin l))"
    using assms(2,4) o by (auto simp: loader_load_def loader_open_module_def create_instance_def
        split: sum.splits bool.splits if_splits)
  let ?p = "next_plugin l"
  have fresh: "plugin_name_map l ?p = None"
    using ok by (metis less_irrefl option.exhaust)
  then have freshm: "plugin_module_map l ?p = None"
    using ok by blast
  have l': "p = ?p" "l' = l\<lparr>mm := ms, next_plugin := Suc ?p,
      plugin_module_map := (plugin_module_map l)(?p \<mapsto> k),
      name_plugin_map := (name_plugin_map l)(name \<mapsto> ?p),
      plugin_name_map := (plugin_name_map l)(?p \<mapsto> name)\<rparr>"
    using assms(2,4) o c by (auto simp: loader_load_def loader_open_module_def)
  show ?thesis
    using oc(1-3) fresh freshm assms(2)
    by (simp add: l' loader_unload_def loader_load_def module_opened_def fun_upd_idem)
qed

section \<open>Example\<close>

definition demo_dl :: dlenv where
  "demo_dl = \<lparr>dl_open = (\<lambda>path. if path = ''lib/belt.so'' \<or> path = ''lib/drill.so'' then None
       else Some (FawkesException ''Cannot open module'')),
     dl_symbol = (\<lambda>_ _. True), dl_factory = (\<lambda>_. Inr True)\<rparr>"

theorem loader_load_unload_witness:
  "\<exists>l' p. loader_load demo_dl ''belt'' (loader_new ''lib'') = (l', Inr p)
     \<and> ref_count (mm (loader_unload p l')) = Map.empty \<and> module_opened ''belt.so'' (mm l')"
proof -
  have slash: "CHR ''/'' \<notin> set ''belt''" and none: "name_plugin_map (loader_new ''lib'') ''belt'' = None"
    by (simp_all add: loader_new_def)
  have "\<exists>l' p. loader_load demo_dl ''belt'' (loader_new ''lib'') = (l', Inr p)"
    by (simp add: loader_load_def loader_new_def loader_open_module_def open_module_def
        modules_new_def module_file_def demo_dl_def create_instance_def Let_def)
  then obtain l' p where l: "loader_load demo_dl ''belt'' (loader_new ''lib'') = (l', Inr p)"
    by blast
  have "ref_count (mm (loader_unload p l')) = ref_count (mm (loader_new ''lib''))"
    "module_opened (module_file ''belt'') (mm l')"
    using loader_load_unload [OF loader_ok_new none slash l] by blast+
  then show ?thesis
    using l by (intro exI [of _ l'] exI [of _ p]) (simp add: loader_new_def modules_new_def module_file_def)
qed

end
