(* ===== verification/Plugin_Manager.thy ===== *)
theory Plugin_Manager imports Plugin_Loader "HOL-Library.Product_Lexorder"
begin

text \<open>
  The plugin manager, \<open>src/libs/plugin/manager.cpp\<close>: comma-separated lists of plugins,
  meta plugins that the configuration defines as such lists, and the two mutexes of the
  lists, which a thread that holds them cannot lock again. The thread collector, an abstract
  class, and the configuration are parameters.
\<close>

section \<open>Outcomes\<close>

text \<open>
  A call ends, throws, or waits for ever for a mutex that its own thread holds. An outcome is
  optional where the number of nested calls is bounded by fuel.
\<close>

datatype 's outcome = Done 's | Raised exn 's | Blocked 's

fun final :: "'s outcome \<Rightarrow> 's" where
  "final (Done s) = s"
| "final (Raised e s) = s"
| "final (Blocked s) = s"

section \<open>State\<close>

record 'w collector =
  collect :: "nat \<Rightarrow> 'w \<Rightarrow> 'w \<times> exn option"
  uncollect :: "nat \<Rightarrow> 'w \<Rightarrow> 'w \<times> exn option"
  force_uncollect :: "nat \<Rightarrow> 'w \<Rightarrow> 'w \<times> exn option"

record 'w penviron =
  pe_dl :: dlenv
  pe_coll :: "'w collector"
  pe_config :: "string \<Rightarrow> string result"
  pe_prefix :: string

text \<open>
  Plugins in the list with the name they have, meta plugins with their lists, and the
  notifications of the listeners, loaded or unloaded, whose exceptions are swallowed.
\<close>

record 'w pmanager =
  the_loader :: loader
  plugins :: "(nat \<times> string) list"
  plugins_locked :: bool
  meta_plugins :: "(string \<times> string) list"
  meta_locked :: bool
  plugin_ids :: "string \<Rightarrow> nat option"
  next_plugin_id :: nat
  pinfo_cache :: "(string \<times> string) list"
  pinfo_locked :: bool
  notices :: "(bool \<times> string) list"
  outside :: 'w

definition pmanager_new :: "string \<Rightarrow> 'w \<Rightarrow> 'w pmanager" where
  "pmanager_new dir w = \<lparr>the_loader = loader_new dir, plugins = [], plugins_locked = False,
     meta_plugins = [], meta_locked = False, plugin_ids = Map.empty, next_plugin_id = 1,
     pinfo_cache = [], pinfo_locked = False, notices = [], outside = w\<rparr>"

definition has_plugin :: "string \<Rightarrow> 'w pmanager \<Rightarrow> bool" where
  "has_plugin nm s \<longleftrightarrow> nm \<in> snd ` set (plugins s)"

definition has_meta :: "string \<Rightarrow> 'w pmanager \<Rightarrow> bool" where
  "has_meta nm s \<longleftrightarrow> map_of (meta_plugins s) nm \<noteq> None"

definition notify :: "bool \<Rightarrow> string \<Rightarrow> 'w pmanager \<Rightarrow> 'w pmanager" where
  "notify b nm s = s\<lparr>notices := notices s @ [(b, nm)]\<rparr>"

definition erase_meta :: "string \<Rightarrow> 'w pmanager \<Rightarrow> 'w pmanager" where
  "erase_meta nm s = s\<lparr>meta_plugins := smap_del nm (meta_plugins s)\<rparr>"

definition is_loaded :: "string \<Rightarrow> 'w pmanager \<Rightarrow> bool" where
  "is_loaded nm s \<longleftrightarrow> loader_is_loaded nm (the_loader s) \<or> has_meta nm s"

text \<open>\<open>strtok_r\<close> with a comma: the longest parts without one, none of them empty.\<close>

fun tokens :: "string \<Rightarrow> string \<Rightarrow> string list" where
  "tokens acc [] = (if acc = [] then [] else [acc])"
| "tokens acc (c # cs) =
     (if c = CHR '','' then (if acc = [] then tokens [] cs else acc # tokens [] cs)
      else tokens (acc @ [c]) cs)"

definition parse_plugin_list :: "string \<Rightarrow> string list" where
  "parse_plugin_list s = tokens [] s"

lemma tokens_nonempty: "[] \<notin> set (tokens acc s)"
  by (induction acc s rule: tokens.induct) auto

lemma parse_nonempty: "[] \<notin> set (parse_plugin_list s)"
  by (simp add: parse_plugin_list_def tokens_nonempty)

section \<open>Loading\<close>

text \<open>
  A real plugin. Only \<open>CannotInitializeThreadException\<close> unlocks the list before it goes on;
  every other exception of the collector leaves it locked. The handler around it all swallows
  a \<open>fawkes::Exception\<close> when a meta plugin has that name.
\<close>

definition collect_plugin :: "'w penviron \<Rightarrow> string \<Rightarrow> nat \<Rightarrow> 'w pmanager \<Rightarrow> 'w pmanager outcome" where
  "collect_plugin E nm p s =
     (if plugins_locked s then Blocked s
      else
        (let s1 = s\<lparr>plugins_locked := True\<rparr> in
         case collect (pe_coll E) p (outside s1) of
           (w, None) \<Rightarrow>
             Done ((notify True nm (s1\<lparr>outside := w, plugins := plugins s1 @ [(p, nm)],
               plugin_ids := (plugin_ids s1)(nm \<mapsto> next_plugin_id s1),
               next_plugin_id := next_plugin_id s1 + 1\<rparr>))\<lparr>plugins_locked := False\<rparr>)
         | (w, Some CannotInitializeThreadException) \<Rightarrow>
             Raised CannotInitializeThreadException
               (s1\<lparr>outside := w, plugins_locked := False, the_loader := loader_unload p (the_loader s1)\<rparr>)
         | (w, Some x) \<Rightarrow> Raised x (s1\<lparr>outside := w\<rparr>)))"

definition catch_real :: "string \<Rightarrow> 'w pmanager outcome \<Rightarrow> 'w pmanager outcome" where
  "catch_real nm r =
     (case r of
        Raised x s \<Rightarrow>
          if \<not> is_fawkes x then Raised x s
          else if meta_locked s then Blocked s
          else if has_meta nm s then Done s else Raised x s
      | _ \<Rightarrow> r)"

definition load_real :: "'w penviron \<Rightarrow> string \<Rightarrow> 'w pmanager \<Rightarrow> 'w pmanager outcome" where
  "load_real E nm s =
     (if has_plugin nm s then Done s
      else catch_real nm
        (case loader_load (pe_dl E) nm (the_loader s) of
           (l, Inl x) \<Rightarrow> Raised x (s\<lparr>the_loader := l\<rparr>)
         | (l, Inr p) \<Rightarrow> collect_plugin E nm p (s\<lparr>the_loader := l\<rparr>)))"

text \<open>
  A meta plugin, if the configuration has one of that name. It is entered before its list is
  loaded with \<open>nested\<close>. The second component tells whether the real plugin is tried next.
  A \<open>ConfigEntryNotFoundException\<close> is taken for the missing entry wherever it comes from.
\<close>

definition load_meta ::
  "(string list \<Rightarrow> 'w pmanager \<Rightarrow> 'w pmanager outcome option) \<Rightarrow> 'w penviron \<Rightarrow> string
     \<Rightarrow> 'w pmanager \<Rightarrow> ('w pmanager outcome \<times> bool) option" where
  "load_meta nested E nm s =
     (case pe_config E (pe_prefix E @ nm) of
        Inl (ConfigEntryNotFoundException _) \<Rightarrow> Some (Done s, True)
      | Inl x \<Rightarrow> Some (Raised x s, False)
      | Inr pset \<Rightarrow>
          if pset = [] then Some (Raised (FawkesException ''Refusing to load an empty meta plugin'') s, False)
          else if meta_locked s then Some (Blocked s, False)
          else
            (case nested (parse_plugin_list pset) (s\<lparr>meta_plugins := smap_ins nm pset (meta_plugins s)\<rparr>) of
               None \<Rightarrow> None
             | Some (Done s2) \<Rightarrow> Some (Done (notify True nm s2), False)
             | Some (Blocked s2) \<Rightarrow> Some (Blocked s2, False)
             | Some (Raised x s2) \<Rightarrow>
                 if \<not> is_fawkes x then Some (Raised x s2, False)
                 else if meta_locked s2 then Some (Blocked s2, False)
                 else (case x of
                   ConfigEntryNotFoundException _ \<Rightarrow> Some (Done (erase_meta nm s2), True)
                 | _ \<Rightarrow> Some (Raised x (erase_meta nm s2), False))))"

definition load_one ::
  "(string list \<Rightarrow> 'w pmanager \<Rightarrow> 'w pmanager outcome option) \<Rightarrow> 'w penviron \<Rightarrow> string
     \<Rightarrow> 'w pmanager \<Rightarrow> 'w pmanager outcome option" where
  "load_one nested E nm s =
     (if has_meta nm s then Some (load_real E nm s)
      else case load_meta nested E nm s of
        None \<Rightarrow> None
      | Some (Done s1, True) \<Rightarrow> Some (load_real E nm s1)
      | Some (r, _) \<Rightarrow> Some r)"

fun load_items ::
  "(string list \<Rightarrow> 'w pmanager \<Rightarrow> 'w pmanager outcome option) \<Rightarrow> 'w penviron \<Rightarrow> string list
     \<Rightarrow> 'w pmanager \<Rightarrow> 'w pmanager outcome option" where
  "load_items nested E [] s = Some (Done s)"
| "load_items nested E (nm # ns) s =
     (if nm = [] then load_items nested E ns s
      else case load_one nested E nm s of
        Some (Done s1) \<Rightarrow> load_items nested E ns s1 | r \<Rightarrow> r)"

text \<open>Fuel bounds the nesting of meta plugins.\<close>

fun load_list :: "nat \<Rightarrow> 'w penviron \<Rightarrow> string list \<Rightarrow> 'w pmanager \<Rightarrow> 'w pmanager outcome option" where
  "load_list 0 E ns s = None"
| "load_list (Suc n) E ns s = load_items (load_list n E) E ns s"

definition load_plugins :: "nat \<Rightarrow> 'w penviron \<Rightarrow> string \<Rightarrow> 'w pmanager \<Rightarrow> 'w pmanager outcome option" where
  "load_plugins n E txt s = load_list n E (parse_plugin_list txt) s"

section \<open>Unloading\<close>

text \<open>The meta plugins whose list names the plugin are forgotten, in the order of the map.\<close>

fun drop_metas :: "string \<Rightarrow> (string \<times> string) list \<Rightarrow> 'w pmanager \<Rightarrow> 'w pmanager" where
  "drop_metas nm [] s = s"
| "drop_metas nm ((mp, pset) # ms) s =
     drop_metas nm ms
       (if nm \<in> set (parse_plugin_list pset) then erase_meta mp (notify False mp s) else s)"

definition plugin_named :: "string \<Rightarrow> 'w pmanager \<Rightarrow> nat option" where
  "plugin_named nm s = map_option fst (find (\<lambda>e. snd e = nm) (plugins s))"

definition unload_real :: "'w penviron \<Rightarrow> nat \<Rightarrow> string \<Rightarrow> 'w pmanager \<Rightarrow> 'w pmanager outcome" where
  "unload_real E p nm s =
     (case uncollect (pe_coll E) p (outside s) of
        (w, Some x) \<Rightarrow> Raised x (s\<lparr>outside := w\<rparr>)
      | (w, None) \<Rightarrow>
          (let s1 = notify False nm (s\<lparr>outside := w, the_loader := loader_unload p (the_loader s),
                 plugins := remove1 (p, nm) (plugins s), plugin_ids := (plugin_ids s)(nm := None)\<rparr>)
           in if meta_locked s1 then Blocked s1
              else Done (drop_metas nm (meta_plugins s1) s1)))"

text \<open>The members of a meta plugin, from the last to the first, with \<open>nested\<close> for the call.\<close>

fun unload_members ::
  "(string \<Rightarrow> 'w pmanager \<Rightarrow> 'w pmanager outcome option) \<Rightarrow> string list \<Rightarrow> 'w pmanager
     \<Rightarrow> 'w pmanager outcome option" where
  "unload_members nested [] s = Some (Done s)"
| "unload_members nested (nm # ns) s =
     (if nm = [] then unload_members nested ns s
      else if \<not> has_plugin nm s \<and> has_meta nm s then unload_members nested ns s
      else if meta_locked s then Some (Blocked s)
      else case nested nm (erase_meta nm s) of
        Some (Done s1) \<Rightarrow> unload_members nested ns s1 | r \<Rightarrow> r)"

text \<open>The list is locked until the function is left, also while it calls itself.\<close>

definition unlocked_after :: "'w pmanager outcome option \<Rightarrow> 'w pmanager outcome option" where
  "unlocked_after r =
     (case r of
        Some (Done s) \<Rightarrow> Some (Done (s\<lparr>plugins_locked := False\<rparr>))
      | Some (Raised x s) \<Rightarrow> Some (Raised x (s\<lparr>plugins_locked := False\<rparr>))
      | _ \<Rightarrow> r)"

fun unload :: "nat \<Rightarrow> 'w penviron \<Rightarrow> string \<Rightarrow> 'w pmanager \<Rightarrow> 'w pmanager outcome option" where
  "unload 0 E nm s = None"
| "unload (Suc n) E nm s =
     (if plugins_locked s then Some (Blocked s)
      else unlocked_after
        (let s1 = s\<lparr>plugins_locked := True\<rparr> in
         case plugin_named nm s1 of
           Some p \<Rightarrow> Some (unload_real E p nm s1)
         | None \<Rightarrow>
             (case map_of (meta_plugins s1) nm of
                Some pset \<Rightarrow> unload_members (unload n E) (rev (parse_plugin_list pset)) s1
              | None \<Rightarrow> Some (Done s1))))"

section \<open>The lists of plugins\<close>

definition get_available_plugins :: "'w pmanager \<Rightarrow> (string \<times> string) list" where
  "get_available_plugins s = pinfo_cache s"

definition get_loaded_plugins :: "'w pmanager \<Rightarrow> string list option" where
  "get_loaded_plugins s =
     (if plugins_locked s \<or> meta_locked s then None
      else Some (map snd (plugins s) @ map fst (meta_plugins s)))"

text \<open>
  The cache of descriptions: the files of the plugin directory, or the exception that opening
  it ends in, with the list still locked; then the string entries below the prefix. A file
  name is taken if the extension occurs anywhere in it; as many characters as the extension
  has are cut off its end. \<open>descr\<close> is the description of a plugin.
\<close>

fun occurs_in :: "string \<Rightarrow> string \<Rightarrow> bool" where
  "occurs_in pat [] = (pat = [])"
| "occurs_in pat (c # cs) = (take (length pat) (c # cs) = pat \<or> occurs_in pat cs)"

definition file_plugin :: "(string \<Rightarrow> string result) \<Rightarrow> string \<Rightarrow> (string \<times> string) list" where
  "file_plugin descr file_name =
     (if occurs_in ''.so'' file_name then
        (let nm = take (length file_name - 3) file_name in
         case descr nm of Inr d \<Rightarrow> [(nm, d)] | Inl x \<Rightarrow> [])
      else [])"

definition init_pinfo_cache ::
  "(string \<Rightarrow> string result) \<Rightarrow> string list result \<Rightarrow> (string \<times> string) list \<Rightarrow> string
     \<Rightarrow> 'w pmanager \<Rightarrow> 'w pmanager outcome" where
  "init_pinfo_cache descr files entries prefix s =
     (if pinfo_locked s then Blocked s
      else case files of
        Inl x \<Rightarrow> Raised x (s\<lparr>pinfo_locked := True\<rparr>)
      | Inr fs \<Rightarrow>
          Done (s\<lparr>pinfo_cache := sort (pinfo_cache s @ concat (map (file_plugin descr) fs)
                   @ map (\<lambda>(path, txt). (drop (length prefix) path, ''Meta: '' @ txt)) entries)\<rparr>))"

text \<open>The destructor: every plugin from the last to the first, exceptions swallowed.\<close>

fun destroy_plugins :: "'w penviron \<Rightarrow> (nat \<times> string) list \<Rightarrow> 'w pmanager \<Rightarrow> 'w pmanager" where
  "destroy_plugins E [] s = s"
| "destroy_plugins E ((p, nm) # ps) s =
     destroy_plugins E ps
       (s\<lparr>outside := fst (force_uncollect (pe_coll E) p (outside s)),
          the_loader := loader_unload p (the_loader s)\<rparr>)"

definition pmanager_delete :: "'w penviron \<Rightarrow> 'w pmanager \<Rightarrow> 'w pmanager" where
  "pmanager_delete E s =
     (destroy_plugins E (rev (plugins s)) (s\<lparr>pinfo_cache := []\<rparr>))\<lparr>plugins := [], plugin_ids := Map.empty\<rparr>"

section \<open>Loading ends and loads\<close>

definition unlocked :: "'w pmanager \<Rightarrow> bool" where
  "unlocked s \<longleftrightarrow> \<not> plugins_locked s \<and> \<not> meta_locked s"

text \<open>The plugins of the manager are those of its loader.\<close>

definition synced :: "'w pmanager \<Rightarrow> bool" where
  "synced s \<longleftrightarrow> loader_ok (the_loader s) \<and> smap_ok (meta_plugins s)
     \<and> (\<forall>p nm. (p, nm) \<in> set (plugins s) \<longleftrightarrow> name_plugin_map (the_loader s) nm = Some p)"

definition grows :: "'w pmanager \<Rightarrow> 'w pmanager \<Rightarrow> bool" where
  "grows s s' \<longleftrightarrow> unlocked s' \<and> synced s' \<and> (\<forall>nm. has_meta nm s \<longrightarrow> has_meta nm s')
     \<and> (\<forall>nm. has_plugin nm s \<longrightarrow> has_plugin nm s')"

definition blocked :: "'s outcome \<Rightarrow> bool" where
  "blocked r \<longleftrightarrow> (case r of Blocked s \<Rightarrow> True | _ \<Rightarrow> False)"

lemma blocked_simps [simp]: "\<not> blocked (Done s)" "\<not> blocked (Raised x s)" "blocked (Blocked s)"
  by (simp_all add: blocked_def)

text \<open>What a call that loads \<open>ns\<close> promises.\<close>

definition loads :: "string list \<Rightarrow> 'w pmanager \<Rightarrow> 'w pmanager outcome \<Rightarrow> bool" where
  "loads ns s r \<longleftrightarrow> \<not> blocked r \<and> grows s (final r)
     \<and> (\<forall>s'. r = Done s' \<longrightarrow> (\<forall>nm\<in>set ns. nm = [] \<or> has_plugin nm s' \<or> has_meta nm s'))"

definition good :: "'w pmanager \<Rightarrow> bool" where
  "good s \<longleftrightarrow> unlocked s \<and> synced s"

text \<open>The collector either takes the threads or reports that they could not be initialised.\<close>

definition collector_ok :: "'w penviron \<Rightarrow> bool" where
  "collector_ok E \<longleftrightarrow>
     (\<forall>p w. snd (collect (pe_coll E) p w) \<in> {None, Some CannotInitializeThreadException})"

lemma grows_refl: "good s \<Longrightarrow> grows s s"
  by (simp add: grows_def good_def)

lemma grows_good: "grows s s' \<Longrightarrow> good s'"
  by (simp add: grows_def good_def)

lemma grows_trans: "grows s t \<Longrightarrow> grows t u \<Longrightarrow> grows s u"
  by (simp add: grows_def)

lemma loaded_iff: "synced s \<Longrightarrow> is_loaded nm s \<longleftrightarrow> has_plugin nm s \<or> has_meta nm s"
  by (force simp: is_loaded_def loader_is_loaded_def has_plugin_def synced_def)

lemma synced_notify [simp]: "synced (notify b nm s) = synced s"
  by (simp add: synced_def notify_def)

lemma catch_real_keeps:
  "\<lbrakk> \<not> blocked r; \<not> meta_locked (final r) \<rbrakk> \<Longrightarrow>
     \<not> blocked (catch_real nm r) \<and> final (catch_real nm r) = final r
     \<and> (\<forall>s'. catch_real nm r = Done s' \<longrightarrow> r = Done s' \<or> has_meta nm s')"
  by (cases r) (auto simp: catch_real_def)

lemma load_real_loads:
  assumes "good s" and "collector_ok E"
  shows "loads [nm] s (load_real E nm s)" and "meta_plugins (final (load_real E nm s)) = meta_plugins s"
proof -
  note sy = assms(1) [unfolded good_def unlocked_def synced_def]
  obtain l r where l: "loader_load (pe_dl E) nm (the_loader s) = (l, r)"
    by (cases "loader_load (pe_dl E) nm (the_loader s)")
  have ok: "loader_ok (the_loader s)"
    using sy by blast
  note lc = loader_load_cases [OF ok l]
  have "loads [nm] s (load_real E nm s) \<and> meta_plugins (final (load_real E nm s)) = meta_plugins s"
  proof (cases "has_plugin nm s")
    case True
    then show ?thesis
      using assms(1) by (simp add: load_real_def loads_def grows_refl)
  next
    case False
    have "name_plugin_map (the_loader s) nm \<noteq> Some p" for p
    proof
      assume "name_plugin_map (the_loader s) nm = Some p"
      then have "(p, nm) \<in> set (plugins s)"
        using sy by blast
      then show False
        using False by (auto simp: has_plugin_def dest: rev_image_eqI [of _ _ nm snd])
    qed
    then have none: "name_plugin_map (the_loader s) nm = None"
      by blast
    show ?thesis
    proof (cases r)
      case (Inl x)
      let ?s1 = "s\<lparr>the_loader := l\<rparr>"
      have g: "grows s ?s1"
        using lc sy Inl by (simp add: grows_def unlocked_def synced_def has_meta_def has_plugin_def)
      have eq: "load_real E nm s = catch_real nm (Raised x ?s1)"
        using False l Inl by (simp add: load_real_def)
      show ?thesis
        using catch_real_keeps [of "Raised x ?s1" nm] g sy
        by (simp add: eq loads_def)
    next
      case (Inr p)
      then have lok: "loader_ok l" and names: "name_plugin_map l = (name_plugin_map (the_loader s))(nm \<mapsto> p)"
        using lc by simp_all
      obtain w x where c: "collect (pe_coll E) p (outside s) = (w, x)"
        by (cases "collect (pe_coll E) p (outside s)")
      have eq: "load_real E nm s = catch_real nm (collect_plugin E nm p (s\<lparr>the_loader := l\<rparr>))"
        using False l Inr by (simp add: load_real_def)
      consider (taken) "x = None" | (refused) "x = Some CannotInitializeThreadException"
        using assms(2) c unfolding collector_ok_def by (metis insertE singletonD snd_conv)
      then show ?thesis
      proof cases
        case taken
        let ?s1 = "(notify True nm (s\<lparr>the_loader := l, plugins_locked := True, outside := w,
          plugins := plugins s @ [(p, nm)], plugin_ids := (plugin_ids s)(nm \<mapsto> next_plugin_id s),
          next_plugin_id := next_plugin_id s + 1\<rparr>))\<lparr>plugins_locked := False\<rparr>"
        have d: "load_real E nm s = Done ?s1"
          using eq c taken sy by (simp add: collect_plugin_def catch_real_def Let_def)
        have "synced ?s1"
          using sy lok names none unfolding synced_def by (auto simp: notify_def)
        then have "grows s ?s1"
          using sy by (simp add: grows_def unlocked_def has_meta_def has_plugin_def notify_def image_Un)
        then show ?thesis
          by (simp add: d loads_def has_plugin_def notify_def)
      next
        case refused
        let ?s1 = "s\<lparr>outside := w, plugins_locked := False, the_loader := loader_unload p l\<rparr>"
        have d: "load_real E nm s = catch_real nm (Raised CannotInitializeThreadException ?s1)"
          using eq c refused sy by (simp add: collect_plugin_def Let_def)
        have "plugin_name_map l p = Some nm"
          using lok names unfolding loader_ok_def by (metis fun_upd_same)
        note un = loader_unload_ok [OF lok this]
        have "name_plugin_map (loader_unload p l) = name_plugin_map (the_loader s)"
          using un(2) names none by (simp add: fun_upd_idem)
        then have "grows s ?s1"
          using sy un(1) by (simp add: grows_def unlocked_def synced_def has_meta_def has_plugin_def)
        then show ?thesis
          using catch_real_keeps [of "Raised CannotInitializeThreadException ?s1" nm] sy
          by (simp add: d loads_def)
      qed
    qed
  qed
  then show "loads [nm] s (load_real E nm s)" and "meta_plugins (final (load_real E nm s)) = meta_plugins s"
    by simp_all
qed

text \<open>The meta plugins of the configuration that are not entered.\<close>

definition todo :: "string set \<Rightarrow> 'w pmanager \<Rightarrow> nat" where
  "todo M s = card (M - {nm. has_meta nm s})"

lemma todo_mono: "finite M \<Longrightarrow> grows s t \<Longrightarrow> todo M t \<le> todo M s"
  unfolding todo_def grows_def by (intro card_mono) auto

lemma has_meta_ins:
  "synced s \<Longrightarrow> has_meta k (s\<lparr>meta_plugins := smap_ins nm v (meta_plugins s)\<rparr>) \<longleftrightarrow> k = nm \<or> has_meta k s"
  by (simp add: has_meta_def synced_def smap.find_put)

lemma has_meta_erase: "synced s \<Longrightarrow> has_meta k (erase_meta nm s) \<longleftrightarrow> k \<noteq> nm \<and> has_meta k s"
  by (simp add: has_meta_def erase_meta_def synced_def smap.find_del)

lemma good_ins: "good s \<Longrightarrow> good (s\<lparr>meta_plugins := smap_ins nm v (meta_plugins s)\<rparr>)"
  by (simp add: good_def unlocked_def synced_def smap.good_put)

lemma todo_less:
  assumes "finite M" and "nm \<in> M" and "\<not> has_meta nm s" and "synced s"
  shows "todo M (s\<lparr>meta_plugins := smap_ins nm v (meta_plugins s)\<rparr>) < todo M s"
  unfolding todo_def
proof (rule psubset_card_mono)
  show "M - {k. has_meta k (s\<lparr>meta_plugins := smap_ins nm v (meta_plugins s)\<rparr>)} \<subset> M - {k. has_meta k s}"
    using assms(2-4) by (auto simp: has_meta_ins)
qed (use assms in simp)

definition configured :: "'w penviron \<Rightarrow> string set" where
  "configured E = {nm. \<exists>pset. pe_config E (pe_prefix E @ nm) = Inr pset}"

lemma grows_ins_erase:
  assumes "good s" and "\<not> has_meta nm s" and "grows (s\<lparr>meta_plugins := smap_ins nm v (meta_plugins s)\<rparr>) t"
  shows "grows s (erase_meta nm t)"
proof -
  have sy: "synced s" "synced t"
    using assms(1,3) by (simp_all add: good_def grows_def)
  have "synced (erase_meta nm t)" "unlocked (erase_meta nm t)"
    using assms(3) sy(2)
    by (simp_all add: grows_def synced_def unlocked_def erase_meta_def smap.good_del)
  moreover have "has_meta k (erase_meta nm t)" if "has_meta k s" for k
    using that assms(2,3) sy by (auto simp: has_meta_erase has_meta_ins grows_def)
  moreover have "has_plugin k (erase_meta nm t)" if "has_plugin k s" for k
    using that assms(3) by (simp add: grows_def has_plugin_def erase_meta_def)
  ultimately show ?thesis
    by (simp add: grows_def)
qed

lemma grows_ins:
  assumes "good s" and "grows (s\<lparr>meta_plugins := smap_ins nm v (meta_plugins s)\<rparr>) t"
  shows "grows s t" and "has_meta nm t"
proof -
  have "synced s"
    using assms(1) by (simp add: good_def)
  then show "grows s t" "has_meta nm t"
    using assms(2) by (simp_all add: grows_def has_meta_ins has_plugin_def)
qed

lemma ex_bool [simp]: "\<exists>b. \<not> b" "\<exists>b. b \<and> (\<not> b \<longrightarrow> P)"
  by blast+

lemma load_meta_loads:
  assumes "good s" and "\<not> has_meta nm s" and "finite M" and "configured E \<subseteq> M"
    and nested: "\<And>ms t. good t \<Longrightarrow> todo M t < todo M s \<Longrightarrow> \<exists>r. nested ms t = Some r \<and> loads ms t r"
  shows "\<exists>r b. load_meta nested E nm s = Some (r, b) \<and> \<not> blocked r \<and> grows s (final r)
    \<and> (\<not> b \<longrightarrow> (\<forall>s'. r = Done s' \<longrightarrow> has_meta nm s')) \<and> (b \<longrightarrow> (\<exists>s'. r = Done s'))"
proof (cases "pe_config E (pe_prefix E @ nm)")
  case (Inl x)
  have "load_meta nested E nm s = Some (Done s, True) \<or> load_meta nested E nm s = Some (Raised x s, False)"
    using Inl by (cases x) (simp_all add: load_meta_def)
  then show ?thesis
    using grows_refl [OF assms(1)]
    by (elim disjE) (rule exI [of _ "Done s"], rule exI [of _ True], simp,
        rule exI [of _ "Raised x s"], rule exI [of _ False], simp)
next
  case (Inr pset)
  have lk: "\<not> meta_locked s"
    using assms(1) by (simp add: good_def unlocked_def)
  show ?thesis
  proof (cases "pset = []")
    case True
    then show ?thesis
      using Inr grows_refl [OF assms(1)] by (auto simp: load_meta_def intro: exI [of _ False])
  next
    case False
    let ?s1 = "s\<lparr>meta_plugins := smap_ins nm pset (meta_plugins s)\<rparr>"
    have "nm \<in> M"
      using assms(4) Inr by (auto simp: configured_def)
    then have "todo M ?s1 < todo M s"
      using assms(1-3) by (intro todo_less) (simp_all add: good_def)
    then obtain r where r: "nested (parse_plugin_list pset) ?s1 = Some r" "loads (parse_plugin_list pset) ?s1 r"
      using nested [OF good_ins [OF assms(1)]] by blast
    have g: "grows ?s1 (final r)"
      using r(2) by (simp add: loads_def)
    show ?thesis
    proof (cases r)
      case (Done s2)
      have "grows s (notify True nm s2)" "has_meta nm (notify True nm s2)"
        using grows_ins [OF assms(1) g] Done
        by (simp_all add: grows_def unlocked_def has_meta_def has_plugin_def) (simp_all add: notify_def)
      then show ?thesis
        using Inr False lk r(1) Done by (simp add: load_meta_def)
    next
      case (Raised x s2)
      have g2: "grows s (erase_meta nm s2)" "grows s s2" and lk2: "\<not> meta_locked s2"
        using grows_ins_erase [OF assms(1,2) g] grows_ins(1) [OF assms(1) g] g Raised
        by (simp_all add: grows_def unlocked_def)
      then show ?thesis
        using Inr False lk r(1) Raised by (cases x) (simp_all add: load_meta_def)
    next
      case (Blocked s2)
      then show ?thesis
        using r(2) by (simp add: loads_def)
    qed
  qed
qed

lemma load_one_loads:
  assumes "good s" and "collector_ok E" and "finite M" and "configured E \<subseteq> M"
    and nested: "\<And>ms t. good t \<Longrightarrow> todo M t < todo M s \<Longrightarrow> \<exists>r. nested ms t = Some r \<and> loads ms t r"
  shows "\<exists>r. load_one nested E nm s = Some r \<and> loads [nm] s r"
proof (cases "has_meta nm s")
  case True
  then show ?thesis
    using load_real_loads(1) [OF assms(1,2), of nm] by (simp add: load_one_def)
next
  case False
  obtain r b where m: "load_meta nested E nm s = Some (r, b)" "\<not> blocked r" "grows s (final r)"
      "\<not> b \<longrightarrow> (\<forall>s'. r = Done s' \<longrightarrow> has_meta nm s')" "b \<longrightarrow> (\<exists>s'. r = Done s')"
    using load_meta_loads [OF assms(1) False assms(3,4) nested] by blast
  show ?thesis
  proof (cases b)
    case True
    then obtain s1 where s1: "r = Done s1"
      using m(5) by blast
    have "good s1"
      using m(3) s1 grows_good by fastforce
    then have "loads [nm] s (load_real E nm s1)"
      using load_real_loads(1) [of s1 E nm] assms(2) m(3) s1 grows_trans [of s s1]
      by (auto simp: loads_def)
    then show ?thesis
      using False m(1) True s1 by (simp add: load_one_def)
  next
    case nb: False
    then have "load_one nested E nm s = Some r"
      using False m(1) by (cases r) (simp_all add: load_one_def)
    then show ?thesis
      using m nb by (auto simp: loads_def)
  qed
qed

lemma load_items_loads:
  assumes "collector_ok E" and "finite M" and "configured E \<subseteq> M"
    and nested: "\<And>ms t. good t \<Longrightarrow> todo M t < k \<Longrightarrow> \<exists>r. nested ms t = Some r \<and> loads ms t r"
  shows "good s \<Longrightarrow> todo M s \<le> k \<Longrightarrow> \<exists>r. load_items nested E ns s = Some r \<and> loads ns s r"
proof (induction ns arbitrary: s)
  case Nil
  then show ?case
    by (simp add: loads_def grows_refl)
next
  case (Cons nm ns)
  show ?case
  proof (cases "nm = []")
    case True
    then show ?thesis
      using Cons.IH [OF Cons.prems] by (auto simp: loads_def)
  next
    case False
    have "\<exists>r. load_one nested E nm s = Some r \<and> loads [nm] s r"
      using nested Cons.prems(2) by (intro load_one_loads [OF Cons.prems(1) assms(1-3)]) simp
    then obtain r where r: "load_one nested E nm s = Some r" "loads [nm] s r"
      by blast
    show ?thesis
    proof (cases r)
      case (Done s1)
      have g: "grows s s1" and here: "has_plugin nm s1 \<or> has_meta nm s1"
        using r(2) Done False by (simp_all add: loads_def)
      obtain r2 where r2: "load_items nested E ns s1 = Some r2" "loads ns s1 r2"
        using Cons.IH [OF grows_good [OF g]] todo_mono [OF assms(2) g] Cons.prems(2) by auto
      have "loads (nm # ns) s r2"
        using r2(2) g here grows_trans [OF g, of "final r2"]
        by (auto simp: loads_def grows_def)
      then show ?thesis
        using False r(1) Done r2(1) by simp
    qed (use False r in \<open>auto simp: loads_def\<close>)
  qed
qed

lemma load_list_loads:
  assumes "collector_ok E" and "finite M" and "configured E \<subseteq> M"
  shows "good s \<Longrightarrow> todo M s < n \<Longrightarrow> \<exists>r. load_list n E ns s = Some r \<and> loads ns s r"
proof (induction n arbitrary: ns s)
  case (Suc n)
  then show ?case
    using load_items_loads [OF assms, of n "load_list n E" s ns] by simp
qed simp

text \<open>
  C9. Loading a list always ends, also when meta plugins name themselves or each other: fuel
  above the number of meta plugins in the configuration is enough. It never waits for a mutex
  of its own, leaves both lists unlocked and everything loaded that was loaded; and when it
  does not throw, everything named in the list is loaded. The thread collector must fail with
  \<open>CannotInitializeThreadException\<close> only.
\<close>

theorem load_ends_and_loads:
  assumes "good s" and "collector_ok E" and "finite (configured E)" and "card (configured E) < n"
  shows "\<exists>r. load_plugins n E txt s = Some r \<and> \<not> blocked r \<and> unlocked (final r)
    \<and> (\<forall>nm. is_loaded nm s \<longrightarrow> is_loaded nm (final r))
    \<and> (\<forall>s'. r = Done s' \<longrightarrow> (\<forall>nm\<in>set (parse_plugin_list txt). is_loaded nm s'))"
proof -
  have "todo (configured E) s < n"
    using card_mono [OF assms(3), of "configured E - {nm. has_meta nm s}"] assms(4)
    by (auto simp: todo_def)
  then obtain r where r: "load_plugins n E txt s = Some r" "loads (parse_plugin_list txt) s r"
    using load_list_loads [OF assms(2,3) order.refl assms(1)] unfolding load_plugins_def by blast
  then have g: "grows s (final r)" and b: "\<not> blocked r"
    by (simp_all add: loads_def)
  have sy: "synced s" "synced (final r)" "unlocked (final r)"
    using assms(1) g by (simp_all add: good_def grows_def)
  have "is_loaded nm (final r)" if "is_loaded nm s" for nm
    using that g sy by (auto simp: loaded_iff grows_def)
  moreover have "is_loaded nm s'" if "r = Done s'" "nm \<in> set (parse_plugin_list txt)" for s' nm
  proof -
    have "nm \<noteq> []"
      using that(2) parse_nonempty by metis
    then show ?thesis
      using that r(2) sy(2) by (auto simp: loads_def loaded_iff)
  qed
  ultimately show ?thesis
    using r(1) b sy(3) by blast
qed

section \<open>Waiting for oneself\<close>

lemma unload_members_block:
  assumes "plugins_locked s" and "\<not> meta_locked s"
    and "\<exists>j\<in>set ns. j \<noteq> [] \<and> (has_plugin j s \<or> \<not> has_meta j s)"
  shows "\<exists>s'. unload_members (unload (Suc n) E) ns s = Some (Blocked s')"
  using assms(3)
proof (induction ns)
  case (Cons j ns)
  show ?case
  proof (cases "j = [] \<or> \<not> has_plugin j s \<and> has_meta j s")
    case True
    then show ?thesis
      using Cons by auto
  next
    case False
    have "plugins_locked (erase_meta j s)"
      using assms(1) by (simp add: erase_meta_def)
    then show ?thesis
      using False assms(2) by auto
  qed
qed simp

text \<open>
  Unloading a meta plugin never returns when its list names a plugin that is loaded, or
  one that is no meta plugin in use: the function holds the mutex of the list of plugins when
  it calls itself for that name, and waits for it.
\<close>

theorem unload_meta_blocks:
  assumes "unlocked s" and "\<not> has_plugin nm s" and "map_of (meta_plugins s) nm = Some pset"
    and "j \<in> set (parse_plugin_list pset)" and "has_plugin j s \<or> \<not> has_meta j s"
  shows "\<exists>s'. unload (Suc (Suc n)) E nm s = Some (Blocked s')"
proof -
  let ?s1 = "s\<lparr>plugins_locked := True\<rparr>"
  have "j \<noteq> []"
    using assms(4) parse_nonempty by metis
  then have "\<exists>s'. unload_members (unload (Suc n) E) (rev (parse_plugin_list pset)) ?s1 = Some (Blocked s')"
    using assms by (intro unload_members_block) (auto simp: unlocked_def has_plugin_def has_meta_def)
  moreover have "plugin_named nm ?s1 = None"
    using assms(2) by (auto simp: plugin_named_def has_plugin_def find_None_iff image_iff)
  ultimately show ?thesis
    using assms(1,3) by (auto simp: unlocked_def unlocked_after_def Let_def simp del: unload.simps(2)
        simp: unload.simps(2) [of "Suc n"])
qed

text \<open>
  When the thread collector throws anything but \<open>CannotInitializeThreadException\<close>, the
  exception is passed on with the list of plugins still locked, and the plugin is in the
  loader but not in the list: after that unloading anything, and listing the loaded plugins,
  never returns.
\<close>

theorem failed_collect_leaves_locked:
  assumes "good s" and "\<not> has_plugin nm s" and "\<not> has_meta nm s" and "nm \<noteq> []"
    and "pe_config E (pe_prefix E @ nm) = Inl (ConfigEntryNotFoundException what)"
    and l: "loader_load (pe_dl E) nm (the_loader s) = (l, Inr p)"
    and c: "collect (pe_coll E) p (outside s) = (w, Some x)" and "x \<noteq> CannotInitializeThreadException"
  shows "\<exists>s'. load_list (Suc n) E [nm] s = Some (Raised x s') \<and> plugins_locked s'
    \<and> loader_is_loaded nm (the_loader s') \<and> \<not> has_plugin nm s'
    \<and> (\<forall>k m. unload (Suc k) E m s' = Some (Blocked s')) \<and> get_loaded_plugins s' = None"
proof -
  let ?s' = "s\<lparr>the_loader := l, plugins_locked := True, outside := w\<rparr>"
  have un: "\<not> plugins_locked s" "\<not> meta_locked s" and ok: "loader_ok (the_loader s)"
    using assms(1) by (simp_all add: good_def unlocked_def synced_def)
  have "collect_plugin E nm p (s\<lparr>the_loader := l\<rparr>) = Raised x ?s'"
    using un c assms(8) by (cases x) (simp_all add: collect_plugin_def Let_def)
  then have "load_real E nm s = Raised x ?s'"
    using assms(2,3) l un by (simp add: load_real_def catch_real_def has_meta_def)
  then have "load_list (Suc n) E [nm] s = Some (Raised x ?s')"
    using assms(3-5) by (simp add: load_one_def load_meta_def)
  moreover have "loader_is_loaded nm l"
    using loader_load_cases [OF ok l] by (simp add: loader_is_loaded_def)
  ultimately show ?thesis
    using assms(2) by (intro exI [of _ ?s']) (simp add: has_plugin_def get_loaded_plugins_def)
qed

section \<open>Example\<close>

text \<open>
  A configuration with one meta plugin, which names itself and a real plugin. The collector
  is given by what taking the threads of a plugin ends in.
\<close>

definition demo_collector :: "exn option \<Rightarrow> nat collector" where
  "demo_collector x = \<lparr>collect = (\<lambda>p w. (Suc w, x)), uncollect = (\<lambda>p w. (Suc w, None)),
     force_uncollect = (\<lambda>p w. (Suc w, None))\<rparr>"

definition demo_plenv :: "exn option \<Rightarrow> nat penviron" where
  "demo_plenv x = \<lparr>pe_dl = demo_dl, pe_coll = demo_collector x,
     pe_config = (\<lambda>path. if path = ''/p/all'' then Inr ''belt,all''
       else Inl (ConfigEntryNotFoundException path)),
     pe_prefix = ''/p/''\<rparr>"

definition demo_loaded :: "nat pmanager" where
  "demo_loaded = final (the (load_plugins 2 (demo_plenv None) ''all'' (pmanager_new ''lib'' 0)))"

lemma good_new: "good (pmanager_new dir w)"
  by (simp add: good_def unlocked_def synced_def pmanager_new_def loader_ok_new)
    (simp add: loader_new_def smap_ok_def)

lemma configured_demo: "configured (demo_plenv x) = {''all''}"
  by (auto simp: configured_def demo_plenv_def split: if_splits)

theorem load_ends_and_loads_witness:
  "\<exists>r. load_plugins 2 (demo_plenv None) ''all'' (pmanager_new ''lib'' 0) = Some r \<and> \<not> blocked r
     \<and> unlocked (final r) \<and> (\<forall>s'. r = Done s' \<longrightarrow> is_loaded ''all'' s')"
proof -
  have "collector_ok (demo_plenv None)"
    by (simp add: collector_ok_def demo_plenv_def demo_collector_def)
  moreover have "parse_plugin_list ''all'' = [''all'']"
    by (simp add: parse_plugin_list_def)
  ultimately show ?thesis
    using load_ends_and_loads [OF good_new [of "''lib''" "0::nat"], of "demo_plenv None" 2 "''all''"]
    by (auto simp: configured_demo)
qed

theorem unload_meta_blocks_witness:
  "has_plugin ''belt'' demo_loaded \<and> has_meta ''all'' demo_loaded
     \<and> (\<exists>s'. unload 2 (demo_plenv None) ''all'' demo_loaded = Some (Blocked s'))"
proof -
  have h: "unlocked demo_loaded" "\<not> has_plugin ''all'' demo_loaded"
      "map_of (meta_plugins demo_loaded) ''all'' = Some ''belt,all''"
      "''belt'' \<in> set (parse_plugin_list ''belt,all'')" "has_plugin ''belt'' demo_loaded"
    by code_simp+
  moreover have "\<exists>s'. unload (Suc (Suc 0)) (demo_plenv None) ''all'' demo_loaded = Some (Blocked s')"
    using h by (intro unload_meta_blocks [OF h(1-4)]) simp
  ultimately show ?thesis
    by (simp add: has_meta_def numeral_2_eq_2)
qed

theorem failed_collect_leaves_locked_witness:
  "\<exists>s'. load_list 1 (demo_plenv (Some (FawkesException ''thread failed''))) [''drill''] (pmanager_new ''lib'' 0)
        = Some (Raised (FawkesException ''thread failed'') s')
     \<and> get_loaded_plugins s' = None"
proof -
  let ?E = "demo_plenv (Some (FawkesException ''thread failed''))" and ?s = "pmanager_new ''lib'' (0::nat)"
  have h: "\<not> has_plugin ''drill'' ?s" "\<not> has_meta ''drill'' ?s" "''drill'' \<noteq> []"
      "pe_config ?E (pe_prefix ?E @ ''drill'') = Inl (ConfigEntryNotFoundException ''/p/drill'')"
      "collect (pe_coll ?E) 0 (outside ?s) = (1, Some (FawkesException ''thread failed''))"
    by (simp_all add: has_plugin_def has_meta_def pmanager_new_def demo_plenv_def demo_collector_def)
  obtain l where l: "loader_load (pe_dl ?E) ''drill'' (the_loader ?s) = (l, Inr 0)"
    by (simp add: loader_load_def loader_new_def loader_open_module_def open_module_def pmanager_new_def
        modules_new_def module_file_def demo_dl_def demo_plenv_def create_instance_def Let_def)
  have "FawkesException ''thread failed'' \<noteq> CannotInitializeThreadException"
    by simp
  from failed_collect_leaves_locked [OF good_new h(1-4) l h(5) this, of 0] show ?thesis
    by auto
qed

end
