(* ===== verification/Aspects.thy ===== *)
theory Aspects imports Thread_Life
begin

text \<open>
  The aspect manager, \<open>src/libs/aspect/manager.cpp\<close>, which gives threads access to the
  configuration, the log, CLIPS and the communicator before they are initialised, and its use
  as the initializer and finalizer of a thread list (\<open>Thread_Life\<close>). An initializer object is
  a number; what its functions do is a parameter, which may depend on all calls before.
\<close>

section \<open>State\<close>

datatype aevent = Ini string nat | Fin string nat | Prep string nat

text \<open>\<open>aspects_of\<close> is \<open>get_aspects()\<close> of a thread, or nothing when it is no \<open>Aspect\<close>.\<close>

record aenv =
  aspects_of :: "nat \<Rightarrow> string list option"
  ini_init :: "nat \<Rightarrow> nat \<Rightarrow> aevent list \<Rightarrow> exn option"
  ini_finalize :: "nat \<Rightarrow> nat \<Rightarrow> aevent list \<Rightarrow> exn option"
  ini_prepare :: "nat \<Rightarrow> nat \<Rightarrow> aevent list \<Rightarrow> bool result"

record amanager =
  inifins :: "string \<Rightarrow> nat option"
  default_inifins :: "(string \<times> nat) list"
  aspect_threads :: "string \<Rightarrow> nat list option"
  calls :: "aevent list"

definition amanager_new :: amanager where
  "amanager_new = \<lparr>inifins = Map.empty, default_inifins = [], aspect_threads = Map.empty, calls = []\<rparr>"

definition amanager_delete :: "amanager \<Rightarrow> amanager" where
  "amanager_delete s = s\<lparr>default_inifins := []\<rparr>"

definition called :: "aevent \<Rightarrow> amanager \<Rightarrow> amanager" where
  "called ev s = s\<lparr>calls := calls s @ [ev]\<rparr>"

definition threads_for :: "string \<Rightarrow> amanager \<Rightarrow> nat list" where
  "threads_for a s = (case aspect_threads s a of None \<Rightarrow> [] | Some ts \<Rightarrow> ts)"

definition put_threads :: "string \<Rightarrow> nat list \<Rightarrow> amanager \<Rightarrow> amanager" where
  "put_threads a ts s = s\<lparr>aspect_threads := (aspect_threads s)(a \<mapsto> ts)\<rparr>"

section \<open>Initializers\<close>

definition register_inifin :: "string \<Rightarrow> nat \<Rightarrow> amanager \<Rightarrow> amanager mutation" where
  "register_inifin a k s =
     (if inifins s a \<noteq> None
      then throwing (FawkesException ''An initializer has already been registered'') s
      else ok (s\<lparr>inifins := (inifins s)(a \<mapsto> k)\<rparr>))"

text \<open>\<open>__threads[name]\<close> makes an entry when there is none.\<close>

definition unregister_inifin :: "string \<Rightarrow> amanager \<Rightarrow> amanager mutation" where
  "unregister_inifin a s =
     (if inifins s a = None
      then throwing (FawkesException ''An initializer has not been registered'') s
      else
        (let s1 = put_threads a (threads_for a s) s in
         if threads_for a s1 \<noteq> []
         then throwing (FawkesException ''Threads with the aspect are still alive'') s1
         else ok (s1\<lparr>inifins := (inifins s1)(a := None),
                     aspect_threads := (aspect_threads s1)(a := None)\<rparr>)))"

definition has_threads_for_aspect :: "string \<Rightarrow> amanager \<Rightarrow> bool" where
  "has_threads_for_aspect a s \<longleftrightarrow> aspect_threads s a \<noteq> None \<and> threads_for a s \<noteq> []"

definition register_default_inifins :: "nat \<Rightarrow> nat \<Rightarrow> nat \<Rightarrow> nat \<Rightarrow> amanager \<Rightarrow> amanager" where
  "register_default_inifins config logger clips comm s =
     (if default_inifins s \<noteq> [] then s
      else
        (let ds = smap_ins ''ProtobufCommAspect'' comm (smap_ins ''CLIPSAspect'' clips
               (smap_ins ''LoggingAspect'' logger (smap_ins ''ConfigurableAspect'' config [])))
         in s\<lparr>default_inifins := ds,
              inifins := fold (\<lambda>(a, k) m. m(a \<mapsto> k)) ds (inifins s)\<rparr>))"

text \<open>
  The initializers of the library: they cast the thread to the class of their aspect, and
  finalizing does nothing. \<open>casts\<close> tells the result of the cast.
\<close>

definition default_aenv ::
  "(nat \<Rightarrow> string) \<Rightarrow> (nat \<Rightarrow> string list option) \<Rightarrow> (nat \<Rightarrow> string \<Rightarrow> bool) \<Rightarrow> aenv" where
  "default_aenv aspect_name aspects casts = \<lparr>aspects_of = aspects,
     ini_init = (\<lambda>k t l. if casts t (aspect_name k) then None else Some CannotInitializeThreadException),
     ini_finalize = (\<lambda>k t l. None), ini_prepare = (\<lambda>k t l. Inr True)\<rparr>"

section \<open>Threads\<close>

text \<open>The aspects in order, with those that are initialised.\<close>

fun init_each ::
  "aenv \<Rightarrow> nat \<Rightarrow> string list \<Rightarrow> string list \<Rightarrow> amanager \<Rightarrow> amanager \<times> string list \<times> exn option" where
  "init_each E t [] initialized s = (s, initialized, None)"
| "init_each E t (a # as) initialized s =
     (case inifins s a of
        None \<Rightarrow> (s, initialized, Some CannotInitializeThreadException)
      | Some k \<Rightarrow>
          (let s1 = called (Ini a t) s in
           case ini_init E k t (calls s) of
             Some x \<Rightarrow> (s1, initialized, Some x)
           | None \<Rightarrow> init_each E t as (initialized @ [a]) s1))"

fun finalize_aspects :: "exn \<Rightarrow> aenv \<Rightarrow> nat \<Rightarrow> string list \<Rightarrow> amanager \<Rightarrow> amanager mutation" where
  "finalize_aspects unknown E t [] s = ok s"
| "finalize_aspects unknown E t (a # as) s =
     (case inifins s a of
        None \<Rightarrow> throwing unknown s
      | Some k \<Rightarrow>
          (let s1 = called (Fin a t) s in
           case ini_finalize E k t (calls s) of
             Some x \<Rightarrow> throwing x s1
           | None \<Rightarrow> finalize_aspects unknown E t as s1))"

text \<open>The rollback uses \<open>__inifins[a]\<close> without looking for it.\<close>

definition roll_back :: "aenv \<Rightarrow> nat \<Rightarrow> string list \<Rightarrow> amanager \<Rightarrow> amanager mutation" where
  "roll_back = finalize_aspects (UndefinedBehaviour ''the inifin is NULL'')"

definition aspect_init :: "aenv \<Rightarrow> nat \<Rightarrow> amanager \<Rightarrow> amanager mutation" where
  "aspect_init E t s =
     (case aspects_of E t of
        None \<Rightarrow> ok s
      | Some as \<Rightarrow>
          (case init_each E t as [] s of
             (s1, initialized, None) \<Rightarrow>
               ok (fold (\<lambda>a s. put_threads a (threads_for a s @ [t]) s) as s1)
           | (s1, initialized, Some x) \<Rightarrow>
               if is_fawkes x
               then andThen (roll_back E t (rev initialized) s1) (throwing CannotInitializeThreadException)
               else throwing x s1))"

definition aspect_finalize :: "aenv \<Rightarrow> nat \<Rightarrow> amanager \<Rightarrow> amanager mutation" where
  "aspect_finalize E t s =
     (case aspects_of E t of
        None \<Rightarrow> ok s
      | Some as \<Rightarrow>
          andThen (finalize_aspects CannotFinalizeThreadException E t as s)
            (\<lambda>s1. ok (fold (\<lambda>a s. put_threads a (removeAll t (threads_for a s)) s) as s1)))"

fun prepare_aspects :: "aenv \<Rightarrow> nat \<Rightarrow> string list \<Rightarrow> amanager \<Rightarrow> amanager \<times> bool result" where
  "prepare_aspects E t [] s = (s, Inr True)"
| "prepare_aspects E t (a # as) s =
     (case inifins s a of
        None \<Rightarrow> (s, Inl CannotFinalizeThreadException)
      | Some k \<Rightarrow>
          (let s1 = called (Prep a t) s in
           case ini_prepare E k t (calls s) of
             Inr True \<Rightarrow> prepare_aspects E t as s1
           | r \<Rightarrow> (s1, r)))"

definition aspect_prepare :: "aenv \<Rightarrow> nat \<Rightarrow> amanager \<Rightarrow> amanager \<times> bool result" where
  "aspect_prepare E t s =
     (case aspects_of E t of None \<Rightarrow> (s, Inr True) | Some as \<Rightarrow> prepare_aspects E t as s)"

section \<open>Initialising a thread is all or nothing\<close>

lemma called_sel [simp]:
  "inifins (called ev s) = inifins s" "aspect_threads (called ev s) = aspect_threads s"
  "default_inifins (called ev s) = default_inifins s" "calls (called ev s) = calls s @ [ev]"
  by (simp_all add: called_def)

lemma threads_for_called [simp]: "threads_for a (called ev s) = threads_for a s"
  by (simp add: threads_for_def)

text \<open>Only the list of calls has grown.\<close>

definition calls_only :: "amanager \<Rightarrow> aevent list \<Rightarrow> amanager \<Rightarrow> bool" where
  "calls_only s evs s' \<longleftrightarrow> s' = s\<lparr>calls := calls s @ evs\<rparr>"

lemma calls_only_sel:
  "calls_only s evs s' \<Longrightarrow> inifins s' = inifins s \<and> aspect_threads s' = aspect_threads s
     \<and> threads_for a s' = threads_for a s \<and> calls s' = calls s @ evs"
  by (auto simp: calls_only_def threads_for_def)

lemma calls_only_refl: "calls_only s [] s"
  by (simp add: calls_only_def)

lemma calls_only_step: "calls_only (called ev s) evs s' \<Longrightarrow> calls_only s (ev # evs) s'"
  by (simp add: calls_only_def called_def)

lemma calls_only_trans: "\<lbrakk> calls_only s evs t; calls_only t evs' u \<rbrakk> \<Longrightarrow> calls_only s (evs @ evs') u"
  by (simp add: calls_only_def)

lemma finalize_aspects_known:
  assumes "\<forall>k l. ini_finalize E k t l = None" and "\<forall>a\<in>set as. inifins s a \<noteq> None"
  shows "snd (finalize_aspects u E t as s) = None
    \<and> calls_only s (map (\<lambda>a. Fin a t) as) (fst (finalize_aspects u E t as s))"
  using assms(2)
proof (induction as arbitrary: s)
  case (Cons a as)
  then show ?case
    using Cons.IH [of "called (Fin a t) s"] assms(1) by (auto simp: Let_def calls_only_step)
qed (simp add: calls_only_refl)

lemma finalize_aspects_calls: "\<exists>evs. calls_only s evs (fst (finalize_aspects u E t as s))"
proof (induction as arbitrary: s)
  case (Cons a as)
  obtain evs where "calls_only (called (Fin a t) s) evs (fst (finalize_aspects u E t as (called (Fin a t) s)))"
    using Cons.IH by blast
  then have "\<exists>evs. calls_only s evs (fst (finalize_aspects u E t as (called (Fin a t) s)))"
    using calls_only_step by blast
  moreover have "\<exists>evs. calls_only s evs (called (Fin a t) s)"
    using calls_only_step [OF calls_only_refl] by blast
  ultimately show ?case
    using calls_only_refl by (auto simp: Let_def split: option.splits)
qed (use calls_only_refl in auto)

lemma init_each_outcome:
  assumes "init_each E t as done0 s = (s', inited, x)"
  shows "(x = None \<and> inited = done0 @ as \<and> (\<forall>a\<in>set as. inifins s a \<noteq> None)
      \<and> calls_only s (map (\<lambda>a. Ini a t) as) s')
    \<or> (\<exists>p b q. as = p @ b # q \<and> x \<noteq> None \<and> inited = done0 @ p \<and> (\<forall>a\<in>set p. inifins s a \<noteq> None)
      \<and> calls_only s (map (\<lambda>a. Ini a t) p @ (if inifins s b = None then [] else [Ini b t])) s'
      \<and> (inifins s b = None \<longrightarrow> x = Some CannotInitializeThreadException)
      \<and> (inifins s b \<noteq> None \<longrightarrow> (\<exists>k l. ini_init E k t l = x)))"
  using assms
proof (induction as arbitrary: done0 s)
  case Nil
  then show ?case
    by (simp add: calls_only_refl)
next
  case (Cons a as)
  show ?case
  proof (cases "inifins s a")
    case None
    then have "s' = s" "inited = done0" "x = Some CannotInitializeThreadException"
      using Cons.prems by simp_all
    then show ?thesis
      using None by (intro disjI2 exI [of _ "[]"] exI [of _ a] exI [of _ as]) (simp add: calls_only_refl)
  next
    case (Some k)
    show ?thesis
    proof (cases "ini_init E k t (calls s)")
      case None
      then have "init_each E t as (done0 @ [a]) (called (Ini a t) s) = (s', inited, x)"
        using Cons.prems Some by simp
      from Cons.IH [OF this] show ?thesis
      proof (elim disjE exE conjE)
        assume *: "x = None" "inited = (done0 @ [a]) @ as" "\<forall>a'\<in>set as. inifins (called (Ini a t) s) a' \<noteq> None"
          "calls_only (called (Ini a t) s) (map (\<lambda>a. Ini a t) as) s'"
        show ?thesis
          using * Some calls_only_step [OF *(4)] by simp
      next
        fix p b q
        assume *: "as = p @ b # q" "x \<noteq> None" "inited = (done0 @ [a]) @ p"
          "\<forall>a'\<in>set p. inifins (called (Ini a t) s) a' \<noteq> None"
          "calls_only (called (Ini a t) s)
             (map (\<lambda>a. Ini a t) p @ (if inifins (called (Ini a t) s) b = None then [] else [Ini b t])) s'"
          "inifins (called (Ini a t) s) b = None \<longrightarrow> x = Some CannotInitializeThreadException"
          "inifins (called (Ini a t) s) b \<noteq> None \<longrightarrow> (\<exists>k l. ini_init E k t l = x)"
        show ?thesis
          using * Some calls_only_step [OF *(5)]
          by (intro disjI2 exI [of _ "a # p"] exI [of _ b] exI [of _ q]) simp
      qed
    next
      case (Some e)
      then have r: "s' = called (Ini a t) s" "inited = done0" "x = Some e"
        using Cons.prems \<open>inifins s a = Some k\<close> by simp_all
      moreover have "calls_only s [Ini a t] (called (Ini a t) s)"
        by (rule calls_only_step [OF calls_only_refl])
      ultimately show ?thesis
        using \<open>inifins s a = Some k\<close> Some
        by (intro disjI2 exI [of _ "[]"] exI [of _ a] exI [of _ as]) auto
    qed
  qed
qed

lemma put_threads_sel [simp]:
  "inifins (put_threads a ts s) = inifins s" "calls (put_threads a ts s) = calls s"
  "threads_for b (put_threads a ts s) = (if b = a then ts else threads_for b s)"
  by (simp_all add: put_threads_def threads_for_def)

lemma register_each_sel:
  "inifins (fold (\<lambda>a s. put_threads a (threads_for a s @ [t]) s) as s) = inifins s"
  "calls (fold (\<lambda>a s. put_threads a (threads_for a s @ [t]) s) as s) = calls s"
  "set (threads_for b (fold (\<lambda>a s. put_threads a (threads_for a s @ [t]) s) as s)) =
     set (threads_for b s) \<union> (if b \<in> set as then {t} else {})"
  by (induction as arbitrary: s) auto

lemma forget_each_sel:
  "inifins (fold (\<lambda>a s. put_threads a (removeAll t (threads_for a s)) s) as s) = inifins s"
  "calls (fold (\<lambda>a s. put_threads a (removeAll t (threads_for a s)) s) as s) = calls s"
  "set (threads_for b (fold (\<lambda>a s. put_threads a (removeAll t (threads_for a s)) s) as s)) =
     set (threads_for b s) - (if b \<in> set as then {t} else {})"
  by (induction as arbitrary: s) auto

text \<open>The assumptions on the initializers: finalizing never throws, initialising a \<open>fawkes::Exception\<close>.\<close>

definition tame :: "aenv \<Rightarrow> bool" where
  "tame E \<longleftrightarrow> (\<forall>k t l. ini_finalize E k t l = None) \<and> (\<forall>k t l x. ini_init E k t l = Some x \<longrightarrow> is_fawkes x)"

lemma aspect_init_trace:
  assumes "tame E" and "aspects_of E t = Some as" and "aspect_init E t s = (s', x)"
  shows "(x = None \<and> calls s' = calls s @ map (\<lambda>a. Ini a t) as
      \<and> (\<forall>b. set (threads_for b s') = set (threads_for b s) \<union> (if b \<in> set as then {t} else {})))
    \<or> (x = Some CannotInitializeThreadException \<and> aspect_threads s' = aspect_threads s
      \<and> (\<exists>p b q. as = p @ b # q \<and> calls s' = calls s @ map (\<lambda>a. Ini a t) p
           @ (if inifins s b = None then [] else [Ini b t]) @ map (\<lambda>a. Fin a t) (rev p)))"
proof -
  obtain s1 inited y where i: "init_each E t as [] s = (s1, inited, y)"
    by (cases "init_each E t as [] s") simp
  from init_each_outcome [OF i] show ?thesis
  proof (elim disjE exE conjE)
    assume *: "y = None" "calls_only s (map (\<lambda>a. Ini a t) as) s1"
    then have "x = None" "s' = fold (\<lambda>a s. put_threads a (threads_for a s @ [t]) s) as s1"
      using assms(2,3) i by (simp_all add: aspect_init_def ok_def)
    then show ?thesis
      using calls_only_sel [OF *(2)] by (simp add: register_each_sel)
  next
    fix p b q
    assume *: "as = p @ b # q" "y \<noteq> None" "inited = [] @ p" "\<forall>a\<in>set p. inifins s a \<noteq> None"
      "calls_only s (map (\<lambda>a. Ini a t) p @ (if inifins s b = None then [] else [Ini b t])) s1"
      "inifins s b = None \<longrightarrow> y = Some CannotInitializeThreadException"
      "inifins s b \<noteq> None \<longrightarrow> (\<exists>k l. ini_init E k t l = y)"
    obtain e where e: "y = Some e" "is_fawkes e"
      using *(2,6,7) assms(1) unfolding tame_def by (cases "inifins s b = None") auto
    have "\<forall>a\<in>set (rev p). inifins s1 a \<noteq> None"
      using *(4) calls_only_sel [OF *(5)] by simp
    with assms(1) have rb: "snd (roll_back E t (rev p) s1) = None"
      "calls_only s1 (map (\<lambda>a. Fin a t) (rev p)) (fst (roll_back E t (rev p) s1))"
      using finalize_aspects_known [of E t "rev p" s1] by (simp_all add: tame_def roll_back_def)
    have "x = Some CannotInitializeThreadException" "s' = fst (roll_back E t (rev p) s1)"
      using assms(2,3) i e *(3) andThen_fst [OF rb(1), of "throwing CannotInitializeThreadException"]
      by (simp_all add: aspect_init_def throwing_def)
    then show ?thesis
      using *(1) calls_only_sel [OF *(5)] calls_only_sel [OF rb(2)]
      by (intro disjI2 conjI exI [of _ p] exI [of _ b] exI [of _ q]) simp_all
  qed
qed


section \<open>Initializers outlive their threads\<close>

datatype acall =
    Register string nat | Unregister string | Register_Defaults nat nat nat nat
  | Thread_Init nat | Thread_Finalize nat | Thread_Prepare nat

fun aspect_call :: "aenv \<Rightarrow> acall \<Rightarrow> amanager \<Rightarrow> amanager" where
  "aspect_call E (Register a k) s = fst (register_inifin a k s)"
| "aspect_call E (Unregister a) s = fst (unregister_inifin a s)"
| "aspect_call E (Register_Defaults c l cl p) s = register_default_inifins c l cl p s"
| "aspect_call E (Thread_Init t) s = fst (aspect_init E t s)"
| "aspect_call E (Thread_Finalize t) s = fst (aspect_finalize E t s)"
| "aspect_call E (Thread_Prepare t) s = fst (aspect_prepare E t s)"

text \<open>
  A thread is registered with all of its aspects or with none, and every aspect with a thread
  has an initializer.
\<close>

definition aspects_ok :: "aenv \<Rightarrow> amanager \<Rightarrow> bool" where
  "aspects_ok E s \<longleftrightarrow>
     (\<forall>a t. t \<in> set (threads_for a s) \<longrightarrow> inifins s a \<noteq> None
        \<and> (\<exists>as. aspects_of E t = Some as \<and> a \<in> set as \<and> (\<forall>b\<in>set as. t \<in> set (threads_for b s))))"

lemma aspects_okD:
  assumes "aspects_ok E s" and "t \<in> set (threads_for a s)" and "aspects_of E t = Some as"
  shows "\<forall>b\<in>set as. inifins s b \<noteq> None \<and> t \<in> set (threads_for b s)"
  using assms unfolding aspects_ok_def by (metis option.inject)

text \<open>What keeps the invariant: registrations and initializers as far as it talks about them.\<close>

lemma aspects_ok_cong:
  assumes "aspects_ok E s" and "\<And>a. set (threads_for a s') = set (threads_for a s)"
    and "\<And>a. inifins s a \<noteq> None \<Longrightarrow> threads_for a s \<noteq> [] \<Longrightarrow> inifins s' a \<noteq> None"
  shows "aspects_ok E s'"
proof -
  have "inifins s' a \<noteq> None" if "t \<in> set (threads_for a s)" for a t
    using assms(1,3) that unfolding aspects_ok_def by (metis empty_iff empty_set)
  then show ?thesis
    using assms(1) unfolding aspects_ok_def assms(2) by blast
qed

lemma fold_put_keeps: "m b \<noteq> None \<Longrightarrow> fold (\<lambda>(a, k) m. m(a \<mapsto> k)) ds m b \<noteq> (None :: nat option)"
  by (induction ds arbitrary: m) auto

lemma prepare_calls: "\<exists>evs. calls_only s evs (fst (prepare_aspects E t as s))"
proof (induction as arbitrary: s)
  case (Cons a as)
  obtain evs where "calls_only (called (Prep a t) s) evs (fst (prepare_aspects E t as (called (Prep a t) s)))"
    using Cons.IH by blast
  then have "\<exists>evs. calls_only s evs (fst (prepare_aspects E t as (called (Prep a t) s)))"
    using calls_only_step by blast
  moreover have "\<exists>evs. calls_only s evs (called (Prep a t) s)"
    using calls_only_step [OF calls_only_refl] by blast
  ultimately show ?case
    using calls_only_refl by (auto simp: Let_def split: option.splits sum.splits bool.splits)
qed (use calls_only_refl in auto)

text \<open>The maps after \<open>init()\<close> and \<open>finalize()\<close>, whatever the initializers do.\<close>

lemma aspect_init_maps:
  assumes "aspect_init E t s = (s', x)"
  shows "inifins s' = inifins s
    \<and> ((\<forall>a. threads_for a s' = threads_for a s) \<or>
      (\<exists>as. aspects_of E t = Some as \<and> x = None \<and> (\<forall>a\<in>set as. inifins s a \<noteq> None)
        \<and> (\<forall>b. set (threads_for b s') = set (threads_for b s) \<union> (if b \<in> set as then {t} else {}))))"
proof (cases "aspects_of E t")
  case None
  then show ?thesis
    using assms by (simp add: aspect_init_def ok_def)
next
  case (Some as)
  obtain s1 inited y where i: "init_each E t as [] s = (s1, inited, y)"
    by (cases "init_each E t as [] s") simp
  obtain evs where evs: "calls_only s evs s1"
    using init_each_outcome [OF i] by blast
  show ?thesis
  proof (cases y)
    case None
    then have "x = None" "s' = fold (\<lambda>a s. put_threads a (threads_for a s @ [t]) s) as s1"
        "\<forall>a\<in>set as. inifins s a \<noteq> None"
      using assms Some i init_each_outcome [OF i] by (auto simp: aspect_init_def ok_def)
    then show ?thesis
      using Some calls_only_sel [OF evs] by (simp add: register_each_sel)
  next
    case (Some e)
    obtain evs' where "calls_only s1 evs' (fst (roll_back E t (rev inited) s1))"
      using finalize_aspects_calls unfolding roll_back_def by blast
    moreover have "s' \<in> {s1, fst (roll_back E t (rev inited) s1)}"
      using assms \<open>aspects_of E t = _\<close> i Some
      by (auto simp: aspect_init_def andThen_def throwing_def split: if_splits prod.splits option.splits)
    ultimately show ?thesis
      using calls_only_sel [OF evs] calls_only_sel [of s1 evs'] by auto
  qed
qed

lemma aspect_finalize_maps:
  assumes "aspect_finalize E t s = (s', x)"
  shows "inifins s' = inifins s
    \<and> ((\<forall>a. threads_for a s' = threads_for a s) \<or>
      (\<exists>as. aspects_of E t = Some as \<and> x = None
        \<and> (\<forall>b. set (threads_for b s') = set (threads_for b s) - (if b \<in> set as then {t} else {}))))"
proof (cases "aspects_of E t")
  case None
  then show ?thesis
    using assms by (simp add: aspect_finalize_def ok_def)
next
  case (Some as)
  let ?r = "finalize_aspects CannotFinalizeThreadException E t as s"
  obtain evs where evs: "calls_only s evs (fst ?r)"
    using finalize_aspects_calls by blast
  show ?thesis
  proof (cases "snd ?r")
    case None
    then have "x = None" "s' = fold (\<lambda>a s. put_threads a (removeAll t (threads_for a s)) s) as (fst ?r)"
      using assms Some by (simp_all add: aspect_finalize_def andThen_fst ok_def)
    then show ?thesis
      using Some calls_only_sel [OF evs] by (simp add: forget_each_sel)
  next
    case (Some e)
    then have "s' = fst ?r"
      using assms \<open>aspects_of E t = _\<close> by (cases ?r) (simp add: aspect_finalize_def andThen_def)
    then show ?thesis
      using calls_only_sel [OF evs] by simp
  qed
qed

lemma aspects_ok_init:
  assumes "aspects_ok E s" and "aspect_init E t s = (s', x)"
  shows "aspects_ok E s'"
proof -
  have ini: "inifins s' = inifins s"
    using aspect_init_maps [OF assms(2)] by simp
  from aspect_init_maps [OF assms(2)] consider "\<And>a. threads_for a s' = threads_for a s"
    | as where "aspects_of E t = Some as" "\<forall>a\<in>set as. inifins s a \<noteq> None"
      "\<And>b. set (threads_for b s') = set (threads_for b s) \<union> (if b \<in> set as then {t} else {})"
    by blast
  then show ?thesis
  proof cases
    case 1
    then show ?thesis
      using ini by (intro aspects_ok_cong [OF assms(1)]) simp_all
  next
    case 2
    show ?thesis
      unfolding aspects_ok_def ini
    proof (intro allI impI)
      fix a u
      assume "u \<in> set (threads_for a s')"
      then consider "u \<in> set (threads_for a s)" | "u = t" "a \<in> set as"
        using 2(3) by (auto split: if_splits)
      then show "inifins s a \<noteq> None \<and> (\<exists>as. aspects_of E u = Some as \<and> a \<in> set as
          \<and> (\<forall>b\<in>set as. u \<in> set (threads_for b s')))"
      proof cases
        assume "u \<in> set (threads_for a s)"
        then have "inifins s a \<noteq> None \<and> (\<exists>as. aspects_of E u = Some as \<and> a \<in> set as
            \<and> (\<forall>b\<in>set as. u \<in> set (threads_for b s)))"
          using assms(1) unfolding aspects_ok_def by blast
        then show ?thesis
          using 2(3) by blast
      qed (use 2 in auto)
    qed
  qed
qed

lemma aspects_ok_finalize:
  assumes "aspects_ok E s" and "aspect_finalize E t s = (s', x)"
  shows "aspects_ok E s'"
proof -
  have ini: "inifins s' = inifins s"
    using aspect_finalize_maps [OF assms(2)] by simp
  from aspect_finalize_maps [OF assms(2)] consider "\<And>a. threads_for a s' = threads_for a s"
    | as where "aspects_of E t = Some as"
      "\<And>b. set (threads_for b s') = set (threads_for b s) - (if b \<in> set as then {t} else {})"
    by blast
  then show ?thesis
  proof cases
    case 1
    then show ?thesis
      using ini by (intro aspects_ok_cong [OF assms(1)]) simp_all
  next
    case 2
    show ?thesis
      unfolding aspects_ok_def ini
    proof (intro allI impI)
      fix a u
      assume u: "u \<in> set (threads_for a s')"
      then have "u \<in> set (threads_for a s)"
        using 2(2) by blast
      then have *: "inifins s a \<noteq> None \<and> (\<exists>as. aspects_of E u = Some as \<and> a \<in> set as
          \<and> (\<forall>b\<in>set as. u \<in> set (threads_for b s)))"
        using assms(1) unfolding aspects_ok_def by blast
      moreover have "u \<noteq> t"
        using * u 2 by (auto split: if_splits)
      ultimately show "inifins s a \<noteq> None \<and> (\<exists>as. aspects_of E u = Some as \<and> a \<in> set as
          \<and> (\<forall>b\<in>set as. u \<in> set (threads_for b s')))"
        using 2(2) by auto
    qed
  qed
qed

lemma aspects_ok_call: "aspects_ok E s \<Longrightarrow> aspects_ok E (aspect_call E c s)"
proof (cases c)
  case (Unregister a)
  assume "aspects_ok E s"
  then show ?thesis
    unfolding Unregister by (rule aspects_ok_cong)
      (auto simp: unregister_inifin_def threads_for_def put_threads_def Let_def split: option.splits)
next
  case (Thread_Prepare t)
  have "\<exists>evs. calls_only s evs (fst (aspect_prepare E t s))"
    using prepare_calls calls_only_refl [of s]
    by (cases "aspects_of E t") (simp_all add: aspect_prepare_def, blast)
  then obtain evs where "calls_only s evs (aspect_call E c s)"
    unfolding Thread_Prepare by auto
  then show "aspects_ok E s \<Longrightarrow> ?thesis"
    by (rule_tac aspects_ok_cong) (simp_all add: calls_only_sel)
next
  case (Thread_Init t)
  then show "aspects_ok E s \<Longrightarrow> ?thesis"
    using aspects_ok_init [of E s t] by (cases "aspect_init E t s") simp
next
  case (Thread_Finalize t)
  then show "aspects_ok E s \<Longrightarrow> ?thesis"
    using aspects_ok_finalize [of E s t] by (cases "aspect_finalize E t s") simp
qed (auto simp: register_inifin_def register_default_inifins_def threads_for_def Let_def
    elim!: aspects_ok_cong intro: fold_put_keeps)

lemma aspects_ok_calls: "aspects_ok E s \<Longrightarrow> aspects_ok E (fold (aspect_call E) cs s)"
  by (induction cs arbitrary: s) (simp_all add: aspects_ok_call)

text \<open>
  C31. An initializer outlives the threads with its aspect. After any calls, for every thread that
  is registered with an aspect, unregistering that aspect throws and keeps its initializer; all
  aspects of the thread have one; and when finalizing does not throw, finalizing the thread
  succeeds and removes it from every aspect.
\<close>

theorem aspects_outlive_threads:
  assumes "s = fold (aspect_call E) cs amanager_new" and "t \<in> set (threads_for a s)"
    and "\<forall>k l. ini_finalize E k t l = None"
  shows "inifins (fst (unregister_inifin a s)) a \<noteq> None \<and> snd (unregister_inifin a s) \<noteq> None
    \<and> snd (aspect_finalize E t s) = None
    \<and> (\<forall>b. t \<notin> set (threads_for b (fst (aspect_finalize E t s))))"
proof -
  have "aspects_ok E amanager_new"
    by (simp add: aspects_ok_def amanager_new_def threads_for_def)
  then have ok: "aspects_ok E s"
    using aspects_ok_calls assms(1) by simp
  obtain as where as: "aspects_of E t = Some as" "a \<in> set as" and a: "inifins s a \<noteq> None"
    using ok assms(2) unfolding aspects_ok_def by blast
  have known: "\<forall>b\<in>set as. inifins s b \<noteq> None"
    using aspects_okD [OF ok assms(2) as(1)] by blast
  have f: "snd (finalize_aspects CannotFinalizeThreadException E t as s) = None"
    "calls_only s (map (\<lambda>a. Fin a t) as) (fst (finalize_aspects CannotFinalizeThreadException E t as s))"
    using finalize_aspects_known [of E t as s] assms(3) known by simp_all
  then have "snd (aspect_finalize E t s) = None"
    using as by (simp add: aspect_finalize_def andThen_fst)
  moreover have "t \<notin> set (threads_for b (fst (aspect_finalize E t s)))" for b
  proof
    assume b: "t \<in> set (threads_for b (fst (aspect_finalize E t s)))"
    have "set (threads_for b (fst (aspect_finalize E t s))) = set (threads_for b s) - (if b \<in> set as then {t} else {})"
      using as f calls_only_sel [OF f(2)] by (simp add: aspect_finalize_def andThen_fst forget_each_sel)
    then have "t \<in> set (threads_for b s)" "b \<notin> set as"
      using b by (auto split: if_splits)
    then show False
      using ok as(1) unfolding aspects_ok_def by fastforce
  qed
  moreover have "threads_for a s \<noteq> []"
    using assms(2) by auto
  ultimately show ?thesis
    using a by (simp add: unregister_inifin_def Let_def)
qed

section \<open>The manager as initializer of a thread list\<close>

text \<open>The manager after the calls that the log of a thread list records.\<close>

fun replay_one :: "aenv \<Rightarrow> tevent \<Rightarrow> amanager \<Rightarrow> amanager" where
  "replay_one E (Initializer i) s = fst (aspect_init E i s)"
| "replay_one E (Finalizer i) s = fst (aspect_finalize E i s)"
| "replay_one E (FinPrepare i) s = fst (aspect_prepare E i s)"
| "replay_one E _ s = s"

definition replay :: "aenv \<Rightarrow> amanager \<Rightarrow> tevent list \<Rightarrow> amanager" where
  "replay E s evs = fold (replay_one E) evs s"

definition aspect_hooks :: "aenv \<Rightarrow> amanager \<Rightarrow> hooks \<Rightarrow> hooks" where
  "aspect_hooks E s h = h\<lparr>
     h_initializer := (\<lambda>i l. snd (aspect_init E i (replay E s l))),
     h_finalizer := (\<lambda>i l. snd (aspect_finalize E i (replay E s l))),
     h_fin_prepare := (\<lambda>i l. snd (aspect_prepare E i (replay E s l)))\<rparr>"

definition wants :: "aenv \<Rightarrow> nat \<Rightarrow> string \<Rightarrow> bool" where
  "wants E t b \<longleftrightarrow> (case aspects_of E t of None \<Rightarrow> False | Some as \<Rightarrow> b \<in> set as)"

definition knows :: "aenv \<Rightarrow> amanager \<Rightarrow> nat \<Rightarrow> bool" where
  "knows E s t \<longleftrightarrow> (\<forall>b. wants E t b \<longrightarrow> inifins s b \<noteq> None)"

lemma replay_simps [simp]:
  "replay E s [] = s" "replay E s (ev # evs) = replay E (replay_one E ev s) evs"
  "replay E s (l @ evs) = replay E (replay E s l) evs"
  by (simp_all add: replay_def)

lemma replay_notify [simp]: "replay E s (map NotifyFailed ns) = s"
  by (induction ns) simp_all

lemma finalize_unknown:
  "tame E \<Longrightarrow> snd (finalize_aspects u E t as s) \<in> {None, Some u}"
  by (induction as arbitrary: s) (auto simp: tame_def Let_def split: option.splits)

lemma finalize_hook:
  assumes "tame E"
  shows "snd (aspect_finalize E t s) \<in> {None, Some CannotFinalizeThreadException}"
    and "knows E s t \<Longrightarrow> snd (aspect_finalize E t s) = None"
    and "knows E s t \<Longrightarrow> set (threads_for b (fst (aspect_finalize E t s))) =
      set (threads_for b s) - (if wants E t b then {t} else {})"
proof -
  show "snd (aspect_finalize E t s) \<in> {None, Some CannotFinalizeThreadException}"
    using finalize_unknown [OF assms, of CannotFinalizeThreadException t]
    by (auto simp: aspect_finalize_def andThen_def split: option.splits prod.splits)
      (metis insertE option.inject option.simps(3) singletonD snd_conv)
  have "snd (aspect_finalize E t s) = None \<and> set (threads_for b (fst (aspect_finalize E t s))) =
      set (threads_for b s) - (if wants E t b then {t} else {})" if k: "knows E s t"
  proof (cases "aspects_of E t")
    case (Some as)
    then have "\<forall>a\<in>set as. inifins s a \<noteq> None"
      using k by (simp add: knows_def wants_def)
    then have f: "snd (finalize_aspects CannotFinalizeThreadException E t as s) = None"
        "calls_only s (map (\<lambda>a. Fin a t) as) (fst (finalize_aspects CannotFinalizeThreadException E t as s))"
      using finalize_aspects_known [of E t as s] assms by (simp_all add: tame_def)
    show ?thesis
      using Some f calls_only_sel [OF f(2)]
      by (simp add: aspect_finalize_def andThen_fst forget_each_sel wants_def)
  qed (simp add: aspect_finalize_def wants_def)
  then show "knows E s t \<Longrightarrow> snd (aspect_finalize E t s) = None"
    and "knows E s t \<Longrightarrow> set (threads_for b (fst (aspect_finalize E t s))) =
      set (threads_for b s) - (if wants E t b then {t} else {})"
    by blast+
qed

lemma init_hook:
  assumes "tame E"
  shows "snd (aspect_init E t s) \<in> {None, Some CannotInitializeThreadException}"
    and "snd (aspect_init E t s) = None \<Longrightarrow> knows E s t"
    and "set (threads_for b (fst (aspect_init E t s))) =
      set (threads_for b s) \<union> (if snd (aspect_init E t s) = None \<and> wants E t b then {t} else {})"
proof -
  obtain s' x where i: "aspect_init E t s = (s', x)"
    by (cases "aspect_init E t s")
  have "x \<in> {None, Some CannotInitializeThreadException} \<and> (x = None \<longrightarrow> knows E s t)
    \<and> set (threads_for b s') = set (threads_for b s) \<union> (if x = None \<and> wants E t b then {t} else {})"
  proof (cases "aspects_of E t")
    case None
    then show ?thesis
      using i by (simp add: aspect_init_def ok_def knows_def wants_def)
  next
    case (Some as)
    have "knows E s t" if "x = None"
    proof -
      obtain s1 inited y where e: "init_each E t as [] s = (s1, inited, y)"
        by (cases "init_each E t as [] s") simp
      then have "y = None"
        using i Some that by (auto simp: aspect_init_def andThen_def throwing_def split: option.splits if_splits prod.splits)
      then show ?thesis
        using init_each_outcome [OF e] Some by (simp add: knows_def wants_def)
    qed
    moreover have "threads_for b s' = threads_for b s" if "aspect_threads s' = aspect_threads s"
      using that by (simp add: threads_for_def)
    ultimately show ?thesis
      using aspect_init_trace [OF assms Some i] Some by (elim disjE) (simp_all add: wants_def)
  qed
  then show "snd (aspect_init E t s) \<in> {None, Some CannotInitializeThreadException}"
    "snd (aspect_init E t s) = None \<Longrightarrow> knows E s t"
    "set (threads_for b (fst (aspect_init E t s))) =
      set (threads_for b s) \<union> (if snd (aspect_init E t s) = None \<and> wants E t b then {t} else {})"
    using i by simp_all
qed

lemma inifins_replay_one [simp]: "inifins (replay_one E ev s) = inifins s"
proof (cases ev)
  case (Initializer i)
  then show ?thesis
    using aspect_init_maps [of E i s] by (cases "aspect_init E i s") simp
next
  case (Finalizer i)
  then show ?thesis
    using aspect_finalize_maps [of E i s] by (cases "aspect_finalize E i s") simp
next
  case (FinPrepare i)
  show ?thesis
  proof (cases "aspects_of E i")
    case (Some as)
    obtain evs where "calls_only s evs (fst (prepare_aspects E i as s))"
      using prepare_calls by blast
    then show ?thesis
      using FinPrepare Some calls_only_sel by (simp add: aspect_prepare_def)
  qed (simp add: FinPrepare aspect_prepare_def)
qed simp_all

lemma inifins_replay [simp]: "inifins (replay E s l) = inifins s"
  by (induction l arbitrary: s) simp_all

lemma knows_replay [simp]: "knows E (replay E s l) t = knows E s t"
  by (simp add: knows_def)

lemma hooks_sel [simp]:
  "h_initializer (aspect_hooks E s h) i l = snd (aspect_init E i (replay E s l))"
  "h_finalizer (aspect_hooks E s h) i l = snd (aspect_finalize E i (replay E s l))"
  by (simp_all add: aspect_hooks_def)

lemma accepted_register:
  assumes "tame E"
  shows "accepted (aspect_hooks E s h) l ns \<Longrightarrow>
    (\<forall>j\<in>set ns. knows E s j) \<and> set (threads_for b (replay E s (l @ init_events ns))) =
      set (threads_for b (replay E s l)) \<union> {j \<in> set ns. wants E j b}"
proof (induction ns arbitrary: l)
  case (Cons i ns)
  then have i: "snd (aspect_init E i (replay E s l)) = None"
    by (simp add: accepted_Cons)
  then have "knows E s i"
    using init_hook(2) [OF assms i] by simp
  moreover have "set (threads_for b (replay E s (l @ [Initializer i, Init i]))) =
      set (threads_for b (replay E s l)) \<union> (if wants E i b then {i} else {})"
    using init_hook(3) [OF assms, of b i "replay E s l"] i by simp
  ultimately show ?case
    using Cons.IH [of "l @ [Initializer i, Init i]"] Cons.prems by (auto simp: accepted_Cons)
qed simp

lemma replay_finalize:
  assumes "tame E"
  shows "\<forall>j\<in>set ns. knows E s j \<Longrightarrow> set (threads_for b (replay E s (finalize_events ns))) =
    set (threads_for b s) - {j \<in> set ns. wants E j b}"
proof (induction ns)
  case (Cons i ns)
  let ?s = "replay E s (finalize_events ns)"
  have "finalize_events (i # ns) = finalize_events ns @ [Finalizer i, Finalize i]"
    by (simp add: finalize_events_def)
  then have "set (threads_for b (replay E s (finalize_events (i # ns)))) =
      set (threads_for b ?s) - (if wants E i b then {i} else {})"
    using finalize_hook(3) [OF assms, of ?s i b] Cons.prems by simp
  then show ?case
    using Cons by auto
qed (simp add: finalize_events_def)

text \<open>A list of which a thread fails, and its rollback, leave the registrations as they were.\<close>

lemma failed_start_forgotten:
  assumes "tame E" and a: "accepted (aspect_hooks E s h) l as"
    and fresh: "\<forall>j\<in>insert i (set as). j \<notin> set (threads_for b (replay E s l))"
    and fails: "h_initializer (aspect_hooks E s h) i (l @ init_events as) \<noteq> None \<and>
         l1 = l @ init_events as @ [Initializer i] \<or>
       h_initializer (aspect_hooks E s h) i (l @ init_events as) = None \<and>
         l1 = l @ init_events as @ [Initializer i, Init i] @ map NotifyFailed ns @ [Finalizer i]"
  shows "set (threads_for b (replay E s (l1 @ finalize_events as))) = set (threads_for b (replay E s l))"
proof -
  let ?h = "aspect_hooks E s h" and ?r = "\<lambda>l. set (threads_for b (replay E s l))" and ?l = "l @ init_events as"
  note reg = accepted_register [OF assms(1) a, of b]
  have undo: "?r (l1 @ finalize_events as) = ?r l1 - {j \<in> set as. wants E j b}"
    using replay_finalize [OF assms(1), of as "replay E s l1" b] reg by simp
  show ?thesis
  proof (cases "h_initializer ?h i ?l")
    case (Some e)
    then have "?r l1 = ?r ?l"
      using fails init_hook(3) [OF assms(1), of b i "replay E s ?l"] by auto
    then show ?thesis
      using undo reg fresh by auto
  next
    case None
    then have "knows E s i"
      using init_hook(2) [OF assms(1), of i "replay E s ?l"] by simp
    then have "?r l1 = ?r ?l \<union> (if wants E i b then {i} else {}) - (if wants E i b then {i} else {})"
      using None fails init_hook(3) [OF assms(1), of b i "replay E s ?l"]
        finalize_hook(3) [OF assms(1), of "fst (aspect_init E i (replay E s ?l))" i b]
        knows_replay [of E s "?l @ [Initializer i]" i] by simp
    then show ?thesis
      using undo reg fresh by auto
  qed
qed

text \<open>The aspect manager as hooks meets what the loop over the list asks of them.\<close>

lemma aspect_hooks_fit:
  assumes "tame E"
  shows "h_finalizer (aspect_hooks E s h) j l \<in> {None, Some CannotFinalizeThreadException}"
    and "h_finalizer (aspect_hooks E s h) j l = None \<or> (\<forall>l. h_initializer (aspect_hooks E s h) j l \<noteq> None)"
    and "h_initializer (aspect_hooks E s h) j l = Some e \<Longrightarrow> is_fawkes e"
proof -
  show "h_finalizer (aspect_hooks E s h) j l \<in> {None, Some CannotFinalizeThreadException}"
    using finalize_hook(1) [OF assms] by simp
  show "h_finalizer (aspect_hooks E s h) j l = None \<or> (\<forall>l. h_initializer (aspect_hooks E s h) j l \<noteq> None)"
  proof (cases "knows E s j")
    case False
    then have "snd (aspect_init E j (replay E s l')) \<noteq> None" for l'
      using init_hook(2) [OF assms, of j "replay E s l'"] by auto
    then show ?thesis
      by simp
  qed (use finalize_hook(2) [OF assms, of "replay E s l" j] in simp)
  show "is_fawkes e" if "h_initializer (aspect_hooks E s h) j l = Some e"
    using init_hook(1) [OF assms, of j "replay E s l"] that by auto
qed

text \<open>
  With the aspect manager as initializer, initialising a list of threads registers all of
  them with their aspects or none: when \<open>ThreadList::init\<close> succeeds, exactly the threads of the
  list have been added to the aspects they ask for; when it throws, because of an aspect that is
  not known, an initializer or the \<open>init()\<close> of a thread, every registration is as before.
\<close>

theorem list_init_registers:
  assumes "tame E" and fresh: "\<forall>j\<in>set ns. \<forall>b. j \<notin> set (threads_for b (replay E s (log w)))"
    and "init_list (aspect_hooks E s h) ns w = (w', x)"
  shows "\<forall>b. set (threads_for b (replay E s (log w'))) = set (threads_for b (replay E s (log w)))
    \<union> (if x = None then {j \<in> set ns. \<exists>as. aspects_of E j = Some as \<and> b \<in> set as} else {})"
proof
  fix b
  let ?h = "aspect_hooks E s h" and ?r = "\<lambda>l. set (threads_for b (replay E s l))"
  have w: "{j \<in> set ns. \<exists>as. aspects_of E j = Some as \<and> b \<in> set as} = {j \<in> set ns. wants E j b}"
    by (auto simp: wants_def split: option.splits)
  note fit = aspect_hooks_fit [OF assms(1), of s h]
  obtain w1 out where loop: "init_loop ?h ns ns [] w = (w1, out)"
    by fastforce
  have "(out = AllInit ([] @ ns) \<and> accepted ?h (log w) ns \<and> log w1 = log w @ init_events ns) \<or>
    (\<exists>as i bs. ns = as @ i # bs \<and> out = StoppedInit ([] @ as) \<and> accepted ?h (log w) as \<and>
      (h_initializer ?h i (log w @ init_events as) \<noteq> None \<and>
         log w1 = log w @ init_events as @ [Initializer i] \<or>
       h_initializer ?h i (log w @ init_events as) = None \<and>
         log w1 = log w @ init_events as @ [Initializer i, Init i] @ map NotifyFailed ns @ [Finalizer i]))"
    using fit(2,3) loop by (intro init_loop_trace) blast+
  then have "?r (log w') = ?r (log w) \<union> (if x = None then {j \<in> set ns. wants E j b} else {})"
  proof (elim disjE exE conjE)
    assume "out = AllInit ([] @ ns)" and a: "accepted ?h (log w) ns" and l: "log w1 = log w @ init_events ns"
    then have "x = None" "w' = w1"
      using assms(3) loop by (simp_all add: init_list_def ok_def)
    then show ?thesis
      using accepted_register [OF assms(1) a, of b] l by simp
  next
    fix as i bs
    assume *: "ns = as @ i # bs" "out = StoppedInit ([] @ as)" and a: "accepted ?h (log w) as"
    have w': "log w' = log w1 @ finalize_events as" and x: "x \<noteq> None"
      using assms(3) loop * finalize_list_trace(1) [OF allI [OF allI [OF fit(1)]], of as w1]
      by (auto simp: init_list_def andThen_def throwing_def split: prod.splits option.splits)
    have "\<forall>j\<in>insert i (set as). j \<notin> ?r (log w)"
      using fresh *(1) by simp
    note forgotten = failed_start_forgotten [OF assms(1) a this, where ?l1.0 = "log w1" and ns = ns]
    show ?thesis
      if "h_initializer ?h i (log w @ init_events as) \<noteq> None" "log w1 = log w @ init_events as @ [Initializer i]"
      unfolding w' if_not_P [OF x] Un_empty_right by (rule forgotten) (use that in blast)
    show ?thesis if "h_initializer ?h i (log w @ init_events as) = None"
      "log w1 = log w @ init_events as @ [Initializer i, Init i] @ map NotifyFailed ns @ [Finalizer i]"
      unfolding w' if_not_P [OF x] Un_empty_right by (rule forgotten) (use that in blast)
  qed
  then show "?r (log w') = ?r (log w)
      \<union> (if x = None then {j \<in> set ns. \<exists>as. aspects_of E j = Some as \<and> b \<in> set as} else {})"
    unfolding w .
qed

section \<open>Example\<close>

text \<open>Thread 0 asks for the configuration and the log, thread 1 for an aspect nobody provides.\<close>

definition demo_aenv :: aenv where
  "demo_aenv = default_aenv (\<lambda>k. if k = 0 then ''ConfigurableAspect'' else ''LoggingAspect'')
     (\<lambda>t. if t = 0 then Some [''ConfigurableAspect'', ''LoggingAspect'']
          else if t = 1 then Some [''LoggingAspect'', ''ClockAspect''] else None) (\<lambda>_ _. True)"

definition demo_amanager :: amanager where
  "demo_amanager = register_default_inifins 0 1 2 3 amanager_new"

lemma demo_amanager_sel:
  "inifins demo_amanager ''LoggingAspect'' = Some 1" "inifins demo_amanager ''ConfigurableAspect'' = Some 0"
  "inifins demo_amanager ''ClockAspect'' = None" "threads_for a demo_amanager = []"
  "calls demo_amanager = []"
  by (simp_all add: demo_amanager_def register_default_inifins_def amanager_new_def threads_for_def Let_def)

lemma demo_tame: "tame demo_aenv"
  by (simp add: tame_def demo_aenv_def default_aenv_def)

lemma demo_aspects_of:
  "aspects_of demo_aenv 0 = Some [''ConfigurableAspect'', ''LoggingAspect'']"
  "aspects_of demo_aenv 1 = Some [''LoggingAspect'', ''ClockAspect'']"
  by (simp_all add: demo_aenv_def default_aenv_def)


theorem aspects_outlive_threads_witness:
  "snd (unregister_inifin ''LoggingAspect''
      (fold (aspect_call demo_aenv) [Register_Defaults 0 1 2 3, Thread_Init 0] amanager_new)) \<noteq> None"
proof -
  let ?cs = "[Register_Defaults 0 1 2 3, Thread_Init 0]"
  have s: "fold (aspect_call demo_aenv) ?cs amanager_new = fst (aspect_init demo_aenv 0 demo_amanager)"
    by (simp add: demo_amanager_def)
  have "snd (aspect_init demo_aenv 0 demo_amanager) = None"
    using demo_amanager_sel demo_aspects_of
    by (simp add: aspect_init_def demo_aenv_def default_aenv_def Let_def)
  then have "0 \<in> set (threads_for ''LoggingAspect'' (fold (aspect_call demo_aenv) ?cs amanager_new))"
    unfolding s using init_hook(3) [OF demo_tame, of "''LoggingAspect''" 0 demo_amanager]
    by (simp add: wants_def demo_aspects_of)
  then show ?thesis
    using aspects_outlive_threads [OF refl, of 0 "''LoggingAspect''" demo_aenv ?cs] demo_tame
    by (simp add: tame_def)
qed

lemma demo_hook_results:
  "snd (aspect_init demo_aenv 0 demo_amanager) = None"
  "snd (aspect_init demo_aenv (Suc 0) (replay demo_aenv demo_amanager l)) = Some CannotInitializeThreadException"
  "snd (aspect_finalize demo_aenv 0 (replay demo_aenv demo_amanager l)) = None"
proof -
  show "snd (aspect_init demo_aenv 0 demo_amanager) = None"
    using demo_amanager_sel demo_aspects_of
    by (simp add: aspect_init_def demo_aenv_def default_aenv_def Let_def)
  have "\<not> knows demo_aenv demo_amanager 1"
    using demo_amanager_sel(3) demo_aspects_of(2) unfolding knows_def wants_def
    by (intro notI) (erule allE [of _ "''ClockAspect''"], simp)
  then have "snd (aspect_init demo_aenv 1 (replay demo_aenv demo_amanager l)) \<noteq> None"
    using init_hook(2) [OF demo_tame, of 1 "replay demo_aenv demo_amanager l"] by auto
  then show "snd (aspect_init demo_aenv (Suc 0) (replay demo_aenv demo_amanager l)) = Some CannotInitializeThreadException"
    using init_hook(1) [OF demo_tame, of 1 "replay demo_aenv demo_amanager l"] by auto
  have "knows demo_aenv demo_amanager 0"
    using demo_amanager_sel by (simp add: knows_def wants_def demo_aspects_of)
  then show "snd (aspect_finalize demo_aenv 0 (replay demo_aenv demo_amanager l)) = None"
    by (intro finalize_hook(2) [OF demo_tame]) simp
qed

theorem list_init_registers_witness:
  "\<exists>w' x. init_list (aspect_hooks demo_aenv demo_amanager demo_hooks) [0, 1] demo_started = (w', x)
     \<and> x \<noteq> None \<and> threads_for ''LoggingAspect'' (replay demo_aenv demo_amanager (log w')) = []"
proof -
  let ?w = demo_started and ?h = "aspect_hooks demo_aenv demo_amanager demo_hooks"
  obtain w' x where i: "init_list ?h [0, 1] ?w = (w', x)"
    by (cases "init_list ?h [0, 1] ?w")
  have "\<forall>j\<in>set [0, 1]. \<forall>b. j \<notin> set (threads_for b (replay demo_aenv demo_amanager (log ?w)))"
    by (simp add: demo_amanager_sel demo_started_def)
  note l = list_init_registers [OF demo_tame this i]
  have "x \<noteq> None"
  proof -
    obtain w1 inited where "init_loop ?h [0, 1] [0, 1] [] ?w = (w1, StoppedInit inited)"
      using demo_hook_results demo_hook_results(2) [of "[Initializer 0, Init 0]"]
      by (simp add: Let_def logged_def demo_started_def) (simp add: aspect_hooks_def demo_hooks_def logged_def)
    then show ?thesis
      using i by (auto simp: init_list_def andThen_def throwing_def split: prod.splits option.splits)
  qed
  then show ?thesis
    using i spec [OF l, of "''LoggingAspect''"]
    by (intro exI [of _ w'] exI [of _ x]) (auto simp: demo_amanager_sel demo_started_def)
qed

end
