(* ===== verification/Logging.thy ===== *)
theory Logging imports Prelude
begin

text \<open>
  The loggers of \<open>src/libs/logging\<close>: the levels and the dispatch of \<open>Logger\<close>, the
  loggers for the console, for a file and for the network, the bounded cache, and
  \<open>MultiLogger\<close>, which passes every call on; and the logger that collects what CLIPS prints
  (\<open>src/refbox/clips_logger.cpp\<close>). Text has been formatted by the C library; \<open>clock\<close> is
  the local time of day as text.
\<close>

section \<open>Levels\<close>

datatype log_level = LL_DEBUG | LL_INFO | LL_WARN | LL_ERROR | LL_NONE

fun level_value :: "log_level \<Rightarrow> nat" where
  "level_value LL_DEBUG = 0"
| "level_value LL_INFO = 1"
| "level_value LL_WARN = 2"
| "level_value LL_ERROR = 4"
| "level_value LL_NONE = 8"

lemma level_value_inject: "level_value a = level_value b \<Longrightarrow> a = b"
  by (cases a; cases b) simp_all

instantiation log_level :: linorder
begin

definition less_eq_log_level :: "log_level \<Rightarrow> log_level \<Rightarrow> bool" where
  "less_eq_log_level a b \<longleftrightarrow> level_value a \<le> level_value b"

definition less_log_level :: "log_level \<Rightarrow> log_level \<Rightarrow> bool" where
  "less_log_level a b \<longleftrightarrow> level_value a < level_value b"

instance
  by standard (auto simp: less_eq_log_level_def less_log_level_def level_value_inject)

end

section \<open>Calls\<close>

text \<open>
  A call of a logger: one of \<open>log\<close>, \<open>vlog\<close>, \<open>tlog\<close>, \<open>vtlog\<close>, with the level as
  an argument or in the name of the function (\<open>log_debug\<close> and so on), the time of the
  \<open>t\<close> functions, and a text or the messages of an exception. A text that cannot be formatted
  is \<open>None\<close>.
\<close>

type_synonym timeval = "int \<times> int"

datatype body = Text "string option" | Exception "string list"

record log_call =
  by_argument :: bool
  va_variant :: bool
  c_level :: log_level
  c_time :: "timeval option"
  c_component :: string
  c_body :: body

text \<open>
  What of a call a logger of level \<open>l\<close> outputs: \<open>Logger::log\<close> and its relatives drop calls
  below the level and levels that have no function; the functions themselves drop calls below
  the level.
\<close>

definition accepts :: "log_level \<Rightarrow> log_call \<Rightarrow> bool" where
  "accepts l c \<longleftrightarrow> l \<le> c_level c \<and> c_level c \<noteq> LL_NONE"

lemma accepts_none [simp]: "\<not> accepts LL_NONE c"
  by (cases "c_level c") (simp_all add: accepts_def less_eq_log_level_def)

definition call_time :: "timeval \<Rightarrow> log_call \<Rightarrow> timeval" where
  "call_time now c = (case c_time c of None \<Rightarrow> now | Some t \<Rightarrow> t)"

section \<open>Console and file\<close>

fun color :: "log_level \<Rightarrow> string" where
  "color LL_DEBUG = CHR 0x1B # ''[2;37m''"
| "color LL_WARN = CHR 0x1B # ''[0;33m''"
| "color LL_ERROR = CHR 0x1B # ''[0;31m''"
| "color _ = []"

definition c_normal :: string where
  "c_normal = CHR 0x1B # ''[0;39m''"

definition newline :: string where
  "newline = [CHR 0x0A]"

definition console_text :: "(timeval \<Rightarrow> string) \<Rightarrow> log_level \<Rightarrow> timeval \<Rightarrow> string \<Rightarrow> string \<Rightarrow> string" where
  "console_text clock l t component msg =
     color l @ clock t @ '' '' @ component @ '': '' @ msg @ (if l = LL_INFO then [] else c_normal) @ newline"

definition console_exception ::
  "(timeval \<Rightarrow> string) \<Rightarrow> log_level \<Rightarrow> timeval \<Rightarrow> string \<Rightarrow> string list \<Rightarrow> string list" where
  "console_exception clock l t component msgs =
     map (\<lambda>m. color l @ clock t @ '' '' @ component @ '': [EXCEPTION] '' @ m @ c_normal @ newline) msgs"

fun letter :: "log_level \<Rightarrow> string" where
  "letter LL_DEBUG = ''D''"
| "letter LL_INFO = ''I''"
| "letter LL_WARN = ''W''"
| "letter LL_ERROR = ''E''"
| "letter LL_NONE = []"

definition file_text :: "(timeval \<Rightarrow> string) \<Rightarrow> log_level \<Rightarrow> timeval \<Rightarrow> string \<Rightarrow> string \<Rightarrow> string" where
  "file_text clock l t component msg =
     letter l @ '' '' @ clock t @ '' '' @ component @ '': '' @ msg @ newline"

definition file_exception ::
  "(timeval \<Rightarrow> string) \<Rightarrow> log_level \<Rightarrow> timeval \<Rightarrow> string \<Rightarrow> string list \<Rightarrow> string list" where
  "file_exception clock l t component msgs =
     map (\<lambda>m. letter l @ '' '' @ clock t @ '' '' @ component @ '' [EXCEPTION]: '' @ m @ newline) msgs"

text \<open>A stream that has been written to, with the level of its logger.\<close>

record stream_logger =
  s_level :: log_level
  s_out :: "string list"

definition render_console :: "(timeval \<Rightarrow> string) \<Rightarrow> timeval \<Rightarrow> log_call \<Rightarrow> string list" where
  "render_console clock now c =
     (case c_body c of
        Text None \<Rightarrow> [console_text clock (c_level c) (call_time now c) (c_component c) []]
      | Text (Some m) \<Rightarrow> [console_text clock (c_level c) (call_time now c) (c_component c) m]
      | Exception ms \<Rightarrow> console_exception clock (c_level c) (call_time now c) (c_component c) ms)"

definition render_file :: "(timeval \<Rightarrow> string) \<Rightarrow> timeval \<Rightarrow> log_call \<Rightarrow> string list" where
  "render_file clock now c =
     (case c_body c of
        Text None \<Rightarrow> [file_text clock (c_level c) (call_time now c) (c_component c) []]
      | Text (Some m) \<Rightarrow> [file_text clock (c_level c) (call_time now c) (c_component c) m]
      | Exception ms \<Rightarrow> file_exception clock (c_level c) (call_time now c) (c_component c) ms)"

definition console_log :: "(timeval \<Rightarrow> string) \<Rightarrow> timeval \<Rightarrow> log_call \<Rightarrow> stream_logger \<Rightarrow> stream_logger" where
  "console_log clock now c s =
     (if accepts (s_level s) c then s\<lparr>s_out := s_out s @ render_console clock now c\<rparr> else s)"

definition file_log :: "(timeval \<Rightarrow> string) \<Rightarrow> timeval \<Rightarrow> log_call \<Rightarrow> stream_logger \<Rightarrow> stream_logger" where
  "file_log clock now c s =
     (if accepts (s_level s) c then s\<lparr>s_out := s_out s @ render_file clock now c\<rparr> else s)"

section \<open>Network\<close>

text \<open>
  A message to all clients of the server. When the caller gives a time, the local variable that
  the time stamp is taken from has not been set: \<open>junk\<close> is what it happens to hold.
\<close>

record log_message =
  lm_sec :: int
  lm_nsec :: int
  lm_component :: string
  lm_exception :: bool
  lm_message :: string
  lm_level :: log_level

record net_logger =
  n_level :: log_level
  n_sent :: "log_message list"

definition send_message ::
  "timeval \<Rightarrow> timeval \<Rightarrow> log_level \<Rightarrow> timeval option \<Rightarrow> string \<Rightarrow> bool \<Rightarrow> string \<Rightarrow> log_message" where
  "send_message junk now l t component is_exception msg =
     (let now1 = (case t of None \<Rightarrow> now | Some _ \<Rightarrow> junk) in
      \<lparr>lm_sec = fst now1, lm_nsec = snd now1 * 1000, lm_component = component,
        lm_exception = is_exception, lm_message = msg, lm_level = (if l = LL_NONE then LL_INFO else l)\<rparr>)"

definition render_net :: "timeval \<Rightarrow> timeval \<Rightarrow> log_call \<Rightarrow> log_message list" where
  "render_net junk now c =
     (case c_body c of
        Text None \<Rightarrow> []
      | Text (Some m) \<Rightarrow> [send_message junk now (c_level c) (c_time c) (c_component c) False m]
      | Exception ms \<Rightarrow> map (send_message junk now (c_level c) (c_time c) (c_component c) True) ms)"

definition net_log :: "timeval \<Rightarrow> timeval \<Rightarrow> log_call \<Rightarrow> net_logger \<Rightarrow> net_logger" where
  "net_log junk now c s =
     (if accepts (n_level s) c then s\<lparr>n_sent := n_sent s @ render_net junk now c\<rparr> else s)"

section \<open>The interface of a logger\<close>

text \<open>
  What a logger promises: a call below its level leaves no trace, every other one is appended
  to what it has put out, and the level stays. A client knows the output of any sequence of calls.
\<close>

locale logger =
  fixes level_of :: "'s \<Rightarrow> log_level"
    and put :: "timeval \<Rightarrow> log_call \<Rightarrow> 's \<Rightarrow> 's"
    and out :: "'s \<Rightarrow> 'o list"
    and render :: "timeval \<Rightarrow> log_call \<Rightarrow> 'o list"
  assumes put_out: "out (put now c s) = out s @ (if accepts (level_of s) c then render now c else [])"
    and put_level: "level_of (put now c s) = level_of s"
begin

lemma log_all_level: "level_of (fold (\<lambda>(now, c). put now c) cs s) = level_of s"
  by (induction cs arbitrary: s) (auto simp: put_level)

lemma log_all:
  "out (fold (\<lambda>(now, c). put now c) cs s) =
     out s @ concat (map (\<lambda>(now, c). render now c) (filter (\<lambda>(now, c). accepts (level_of s) c) cs))"
  by (induction cs arbitrary: s) (auto simp: put_out put_level)

lemma none_is_silent: "level_of s = LL_NONE \<Longrightarrow> out (fold (\<lambda>(now, c). put now c) cs s) = out s"
  by (induction cs arbitrary: s) (auto simp: put_out put_level)

end

interpretation console: logger s_level "console_log clock" s_out "render_console clock" for clock
  by unfold_locales (simp_all add: console_log_def)

interpretation file_logger: logger s_level "file_log clock" s_out "render_file clock" for clock
  by unfold_locales (simp_all add: file_log_def)

interpretation net_logger: logger n_level "net_log junk" n_sent "render_net junk" for junk
  by unfold_locales (simp_all add: net_log_def)

section \<open>Cache\<close>

record cache_entry =
  ce_level :: log_level
  ce_component :: string
  ce_time :: timeval
  ce_timestr :: string
  ce_message :: string

text \<open>
  The newest entry is the first. \<open>held\<close> counts how often the mutex was locked more than
  unlocked by the calls that have returned.
\<close>

record cache_logger =
  k_level :: log_level
  max_num_entries :: "32 word"
  num_entries :: "32 word"
  messages :: "cache_entry list"
  held :: int

definition cache_new :: "32 word \<Rightarrow> log_level \<Rightarrow> cache_logger" where
  "cache_new n l = \<lparr>k_level = l, max_num_entries = n, num_entries = 0, messages = [], held = 0\<rparr>"

definition cache_clear :: "cache_logger \<Rightarrow> cache_logger" where
  "cache_clear c = c\<lparr>num_entries := 0, messages := []\<rparr>"

text \<open>\<open>std::list::resize\<close>, which fills up with entries made by the default constructor.\<close>

definition list_resize :: "nat \<Rightarrow> 'a \<Rightarrow> 'a list \<Rightarrow> 'a list" where
  "list_resize n d xs = take n xs @ replicate (n - length xs) d"

definition blank_entry :: cache_entry where
  "blank_entry = \<lparr>ce_level = LL_DEBUG, ce_component = [], ce_time = (0, 0), ce_timestr = [], ce_message = []\<rparr>"

definition cache_set_size :: "32 word \<Rightarrow> cache_logger \<Rightarrow> cache_logger" where
  "cache_set_size n c =
     (let c1 = (if n < num_entries c
                then c\<lparr>num_entries := n, messages := list_resize (unat n) blank_entry (messages c)\<rparr>
                else c)
      in c1\<lparr>max_num_entries := n\<rparr>)"

definition push_text :: "(timeval \<Rightarrow> string) \<Rightarrow> timeval \<Rightarrow> log_level \<Rightarrow> string \<Rightarrow> string option \<Rightarrow> cache_logger \<Rightarrow> cache_logger" where
  "push_text clock t l component text c =
     (if k_level c \<le> l then
        (case text of
           None \<Rightarrow> c
         | Some m \<Rightarrow>
             (let c1 = c\<lparr>messages := \<lparr>ce_level = l, ce_component = component, ce_time = t,
                           ce_timestr = clock t, ce_message = m\<rparr> # messages c\<rparr>
              in if num_entries c1 = max_num_entries c1 then c1\<lparr>messages := butlast (messages c1)\<rparr>
                 else c1\<lparr>num_entries := num_entries c1 + 1\<rparr>))
      else c)"

fun push_each :: "(timeval \<Rightarrow> string) \<Rightarrow> timeval \<Rightarrow> log_level \<Rightarrow> string \<Rightarrow> string list \<Rightarrow> cache_logger \<Rightarrow> cache_logger" where
  "push_each clock t l component [] c = c"
| "push_each clock t l component (m # ms) c =
     push_each clock t l component ms
       (c\<lparr>messages := \<lparr>ce_level = l, ce_component = component, ce_time = t,
            ce_timestr = clock t, ce_message = ''[EXCEPTION] '' @ m\<rparr> # messages c,
          num_entries := num_entries c + 1\<rparr>)"

definition push_exception ::
  "(timeval \<Rightarrow> string) \<Rightarrow> timeval \<Rightarrow> log_level \<Rightarrow> string \<Rightarrow> string list \<Rightarrow> cache_logger \<Rightarrow> cache_logger" where
  "push_exception clock t l component ms c =
     (if k_level c \<le> l then
        (let c1 = push_each clock t l component ms c in
         if max_num_entries c1 < num_entries c1
         then c1\<lparr>num_entries := max_num_entries c1,
                 messages := list_resize (unat (max_num_entries c1)) blank_entry (messages c1)\<rparr>
         else c1)
      else c)"

text \<open>
  \<open>tlog_push_message\<close> of a text unlocks the mutex itself before the locker does so again;
  the other three functions leave it to the locker.
\<close>

definition cache_log :: "(timeval \<Rightarrow> string) \<Rightarrow> timeval \<Rightarrow> log_call \<Rightarrow> cache_logger \<Rightarrow> cache_logger" where
  "cache_log clock now k c =
     (if \<not> accepts (k_level c) k then c
      else case c_body k of
        Exception ms \<Rightarrow> push_exception clock (call_time now k) (c_level k) (c_component k) ms c
      | Text t \<Rightarrow>
          (let c1 = push_text clock (call_time now k) (c_level k) (c_component k) t c in
           if c_time k \<noteq> None \<and> t \<noteq> None then c1\<lparr>held := held c1 - 1\<rparr> else c1))"

section \<open>Passing on to several loggers\<close>

datatype logger_object =
    Console_Logger stream_logger | File_Logger stream_logger
  | Network_Logger net_logger | Cache_Logger cache_logger

fun object_log ::
  "(timeval \<Rightarrow> string) \<Rightarrow> timeval \<Rightarrow> timeval \<Rightarrow> log_call \<Rightarrow> logger_object \<Rightarrow> logger_object" where
  "object_log clock junk now c (Console_Logger s) = Console_Logger (console_log clock now c s)"
| "object_log clock junk now c (File_Logger s) = File_Logger (file_log clock now c s)"
| "object_log clock junk now c (Network_Logger s) = Network_Logger (net_log junk now c s)"
| "object_log clock junk now c (Cache_Logger s) = Cache_Logger (cache_log clock now c s)"

fun object_set_level :: "log_level \<Rightarrow> logger_object \<Rightarrow> logger_object" where
  "object_set_level l (Console_Logger s) = Console_Logger (s\<lparr>s_level := l\<rparr>)"
| "object_set_level l (File_Logger s) = File_Logger (s\<lparr>s_level := l\<rparr>)"
| "object_set_level l (Network_Logger s) = Network_Logger (s\<lparr>n_level := l\<rparr>)"
| "object_set_level l (Cache_Logger s) = Cache_Logger (s\<lparr>k_level := l\<rparr>)"

text \<open>The loggers are addresses of objects; the list is kept sorted by address, without repetition.\<close>

record multi =
  m_loggers :: "nat list"
  m_objects :: "nat \<Rightarrow> logger_object"

definition add_logger :: "nat \<Rightarrow> multi \<Rightarrow> multi" where
  "add_logger p s = s\<lparr>m_loggers := remdups_adj (sort (m_loggers s @ [p]))\<rparr>"

definition remove_logger :: "nat \<Rightarrow> multi \<Rightarrow> multi" where
  "remove_logger p s = s\<lparr>m_loggers := removeAll p (m_loggers s)\<rparr>"

definition for_each_logger :: "(logger_object \<Rightarrow> logger_object) \<Rightarrow> multi \<Rightarrow> multi" where
  "for_each_logger f s =
     fold (\<lambda>p s. s\<lparr>m_objects := (m_objects s)(p := f (m_objects s p))\<rparr>) (m_loggers s) s"

definition set_loglevel :: "log_level \<Rightarrow> multi \<Rightarrow> multi" where
  "set_loglevel l s = for_each_logger (object_set_level l) s"

text \<open>
  The function that each logger is called with. A text keeps its level; \<open>log\<close> with the level
  as argument adds the time. An exception without a time gets one, except by \<open>log\<close> with the
  level as argument; an exception with a time and the level in the name is passed on to
  \<open>tlog_error\<close>, whatever the name.
\<close>

definition forwarded :: "timeval \<Rightarrow> log_call \<Rightarrow> log_call" where
  "forwarded now c =
     (case c_body c of
        Text _ \<Rightarrow>
          c\<lparr>va_variant := True,
            c_time := (if by_argument c \<and> \<not> va_variant c \<and> c_time c = None then Some now else c_time c)\<rparr>
      | Exception _ \<Rightarrow>
          if by_argument c then c
          else (case c_time c of
                  None \<Rightarrow> c\<lparr>c_time := Some now\<rparr>
                | Some t \<Rightarrow> c\<lparr>c_level := LL_ERROR\<rparr>))"

definition multi_log :: "(timeval \<Rightarrow> string) \<Rightarrow> timeval \<Rightarrow> timeval \<Rightarrow> log_call \<Rightarrow> multi \<Rightarrow> multi" where
  "multi_log clock junk now c s = for_each_logger (object_log clock junk now (forwarded now c)) s"

section \<open>What CLIPS prints\<close>

text \<open>
  CLIPS prints pieces, each under a logical name, and a line break as a piece of its own. The
  names are macros of CLIPS.
\<close>

record router_names =
  WTRACE :: string
  WWARNING :: string
  WERROR :: string
  WDISPLAY :: string

definition log_router_query :: "router_names \<Rightarrow> string \<Rightarrow> bool" where
  "log_router_query R nm \<longleftrightarrow>
     nm \<in> {''l'', ''info'', ''debug'', ''warn'', ''error'', ''stdout'', WTRACE R, WWARNING R, WERROR R, WDISPLAY R}"

text \<open>Whether a line goes to the trace logger, and its level.\<close>

definition line_level :: "router_names \<Rightarrow> string \<Rightarrow> bool \<times> log_level" where
  "line_level R nm =
     (if nm = ''debug'' then (False, LL_DEBUG)
      else if nm = WTRACE R then (True, LL_DEBUG)
      else if nm = ''warn'' \<or> nm = WWARNING R then (False, LL_WARN)
      else if nm = ''error'' \<or> nm = WERROR R then (False, LL_ERROR)
      else (False, LL_INFO))"

record clips_logger =
  buffer :: string
  lines_out :: "(bool \<times> log_level \<times> string) list"

definition clips_logger_log :: "router_names \<Rightarrow> string \<Rightarrow> string \<Rightarrow> clips_logger \<Rightarrow> clips_logger" where
  "clips_logger_log R nm str s =
     (if str = newline
      then (case line_level R nm of (tr, l) \<Rightarrow>
              s\<lparr>lines_out := lines_out s @ [(tr, l, buffer s)], buffer := []\<rparr>)
      else s\<lparr>buffer := buffer s @ str\<rparr>)"

section \<open>The cache is a window on the log\<close>

datatype cache_call = Log_Call timeval log_call | Clear_Call | Size_Call "32 word"

fun cache_step :: "(timeval \<Rightarrow> string) \<Rightarrow> cache_call \<Rightarrow> cache_logger \<Rightarrow> cache_logger" where
  "cache_step clock (Log_Call now k) c = cache_log clock now k c"
| "cache_step clock Clear_Call c = cache_clear c"
| "cache_step clock (Size_Call n) c = cache_set_size n c"

text \<open>The entries of a call, newest first, and the specification: a list cut off at a length.\<close>

definition entries_of :: "(timeval \<Rightarrow> string) \<Rightarrow> timeval \<Rightarrow> log_call \<Rightarrow> cache_entry list" where
  "entries_of clock now k =
     (let e = (\<lambda>m. \<lparr>ce_level = c_level k, ce_component = c_component k, ce_time = call_time now k,
                 ce_timestr = clock (call_time now k), ce_message = m\<rparr>)
      in case c_body k of
           Text None \<Rightarrow> []
         | Text (Some m) \<Rightarrow> [e m]
         | Exception ms \<Rightarrow> rev (map (\<lambda>m. e (''[EXCEPTION] '' @ m)) ms))"

fun window_step ::
  "(timeval \<Rightarrow> string) \<Rightarrow> log_level \<Rightarrow> cache_call \<Rightarrow> cache_entry list \<times> nat \<Rightarrow> cache_entry list \<times> nat" where
  "window_step clock l (Log_Call now k) (es, n) =
     (take n ((if accepts l k then entries_of clock now k else []) @ es), n)"
| "window_step clock l Clear_Call (es, n) = ([], n)"
| "window_step clock l (Size_Call m) (es, n) = (take (unat m) es, unat m)"

text \<open>Sizes and exceptions are far from the range of \<open>unsigned int\<close>.\<close>

fun small_call :: "cache_call \<Rightarrow> bool" where
  "small_call (Log_Call now k) =
     (case c_body k of Exception ms \<Rightarrow> length ms < 2 ^ 31 | Text t \<Rightarrow> True)"
| "small_call Clear_Call = True"
| "small_call (Size_Call n) = (unat n < 2 ^ 31)"

definition cache_ok :: "cache_logger \<Rightarrow> bool" where
  "cache_ok c \<longleftrightarrow> unat (num_entries c) = length (messages c)
     \<and> length (messages c) \<le> unat (max_num_entries c) \<and> unat (max_num_entries c) < 2 ^ 31"

lemma unat_Suc_small: "unat (w :: 32 word) + 1 < 2 ^ 32 \<Longrightarrow> unat (w + 1) = Suc (unat w)"
  using unat_add_lem [of w 1] by simp

lemma push_each_result:
  assumes "unat (num_entries c) + length ms < 2 ^ 32"
  shows "\<exists>n. unat n = unat (num_entries c) + length ms
    \<and> push_each clock t l component ms c =
      c\<lparr>messages := rev (map (\<lambda>m. \<lparr>ce_level = l, ce_component = component, ce_time = t,
            ce_timestr = clock t, ce_message = ''[EXCEPTION] '' @ m\<rparr>) ms) @ messages c,
        num_entries := n\<rparr>"
  using assms
proof (induction ms arbitrary: c)
  case (Cons m ms c)
  let ?c = "c\<lparr>messages := \<lparr>ce_level = l, ce_component = component, ce_time = t,
      ce_timestr = clock t, ce_message = ''[EXCEPTION] '' @ m\<rparr> # messages c,
    num_entries := num_entries c + 1\<rparr>"
  have u: "unat (num_entries c + 1) = Suc (unat (num_entries c))"
    using Cons.prems by (intro unat_Suc_small) simp
  then obtain n where "unat n = unat (num_entries ?c) + length ms"
    "push_each clock t l component ms ?c =
      ?c\<lparr>messages := rev (map (\<lambda>m. \<lparr>ce_level = l, ce_component = component, ce_time = t,
            ce_timestr = clock t, ce_message = ''[EXCEPTION] '' @ m\<rparr>) ms) @ messages ?c,
        num_entries := n\<rparr>"
    using Cons.IH [of ?c] Cons.prems by auto
  then show ?case
    using u by (intro exI [of _ n]) simp
next
  case (Nil c)
  show ?case
    by (rule exI [of _ "num_entries c"]) simp
qed

lemma push_text_window:
  assumes "cache_ok c" and "k_level c \<le> l"
  shows "cache_ok (push_text clock t l component (Some m) c)
    \<and> messages (push_text clock t l component (Some m) c) =
      take (unat (max_num_entries c)) (\<lparr>ce_level = l, ce_component = component, ce_time = t,
        ce_timestr = clock t, ce_message = m\<rparr> # messages c)
    \<and> max_num_entries (push_text clock t l component (Some m) c) = max_num_entries c
    \<and> k_level (push_text clock t l component (Some m) c) = k_level c"
proof (cases "num_entries c = max_num_entries c")
  case True
  then have "length (messages c) = unat (max_num_entries c)"
    using assms(1) by (simp add: cache_ok_def)
  then show ?thesis
    using assms True by (auto simp: push_text_def cache_ok_def butlast_conv_take Let_def)
next
  case False
  then have "unat (num_entries c) < unat (max_num_entries c)"
    using assms(1) unfolding cache_ok_def by (metis le_neq_implies_less word_unat_eq_iff)
  moreover have "unat (num_entries c + 1) = Suc (unat (num_entries c))"
    using assms(1) by (intro unat_Suc_small) (simp add: cache_ok_def)
  ultimately show ?thesis
    using assms False by (simp add: push_text_def cache_ok_def Let_def)
qed

lemma push_exception_window:
  assumes "cache_ok c" and "k_level c \<le> l" and "length ms < 2 ^ 31"
  shows "cache_ok (push_exception clock t l component ms c)
    \<and> messages (push_exception clock t l component ms c) =
      take (unat (max_num_entries c)) (rev (map (\<lambda>m. \<lparr>ce_level = l, ce_component = component,
        ce_time = t, ce_timestr = clock t, ce_message = ''[EXCEPTION] '' @ m\<rparr>) ms) @ messages c)
    \<and> max_num_entries (push_exception clock t l component ms c) = max_num_entries c
    \<and> k_level (push_exception clock t l component ms c) = k_level c"
proof -
  have "unat (num_entries c) + length ms < 2 ^ 32"
    using assms(1,3) by (simp add: cache_ok_def)
  from push_each_result [OF this, of clock t l component] obtain n where
    n: "unat n = unat (num_entries c) + length ms" and
    p: "push_each clock t l component ms c =
      c\<lparr>messages := rev (map (\<lambda>m. \<lparr>ce_level = l, ce_component = component, ce_time = t,
            ce_timestr = clock t, ce_message = ''[EXCEPTION] '' @ m\<rparr>) ms) @ messages c,
        num_entries := n\<rparr>"
    by blast
  then show ?thesis
    using assms(1,2) by (auto simp: push_exception_def cache_ok_def list_resize_def word_less_nat_alt min_def Let_def)
qed

lemma cache_step_window:
  assumes "cache_ok c" and "small_call op"
  shows "cache_ok (cache_step clock op c) \<and> k_level (cache_step clock op c) = k_level c
    \<and> (messages (cache_step clock op c), unat (max_num_entries (cache_step clock op c))) =
      window_step clock (k_level c) op (messages c, unat (max_num_entries c))"
proof (cases op)
  case (Log_Call now k)
  show ?thesis
  proof (cases "accepts (k_level c) k")
    case False
    then show ?thesis
      using Log_Call assms(1) by (simp add: cache_log_def cache_ok_def)
  next
    case True
    then have le: "k_level c \<le> c_level k"
      by (simp add: accepts_def)
    show ?thesis
    proof (cases "c_body k")
      case (Text t)
      show ?thesis
      proof (cases t)
        case None
        then show ?thesis
          using Log_Call Text assms(1)
          by (simp add: cache_log_def push_text_def entries_of_def cache_ok_def Let_def)
      next
        case (Some m)
        then show ?thesis
          using Log_Call Text True push_text_window [OF assms(1) le] assms(1)
          by (simp add: cache_log_def entries_of_def cache_ok_def Let_def)
      qed
    next
      case (Exception ms)
      then show ?thesis
        using Log_Call True push_exception_window [OF assms(1) le] assms(2)
        by (simp add: cache_log_def entries_of_def Let_def)
    qed
  qed
next
  case Clear_Call
  then show ?thesis
    using assms(1) by (simp add: cache_clear_def cache_ok_def)
next
  case (Size_Call n)
  then show ?thesis
    using assms by (auto simp: cache_set_size_def cache_ok_def list_resize_def word_less_nat_alt Let_def)
qed

lemma cache_run_window:
  "\<lbrakk> cache_ok c; \<forall>op\<in>set ops. small_call op \<rbrakk> \<Longrightarrow>
     cache_ok (fold (cache_step clock) ops c)
     \<and> (messages (fold (cache_step clock) ops c), unat (max_num_entries (fold (cache_step clock) ops c))) =
       fold (window_step clock (k_level c)) ops (messages c, unat (max_num_entries c))"
proof (induction ops arbitrary: c)
  case (Cons op ops)
  then show ?case
    using cache_step_window [of c op clock] Cons.IH [of "cache_step clock op c"] by simp
qed simp

text \<open>
  C24. The cache of log messages is a window on the log. After any sequence of log calls, changes
  of the size and clearings, it holds what the specification holds, a list that every accepted
  message or exception is put in front of and that is cut off at the size, nothing else; its
  counter is the number of entries and never above the size.
\<close>

theorem cache_refines_window:
  assumes "unat n < 2 ^ 31" and "\<forall>op\<in>set ops. small_call op"
    and "c = fold (cache_step clock) ops (cache_new n l)"
  shows "(messages c, unat (max_num_entries c)) = fold (window_step clock l) ops ([], unat n)
    \<and> unat (num_entries c) = length (messages c) \<and> num_entries c \<le> max_num_entries c"
proof -
  have "cache_ok (cache_new n l)" "k_level (cache_new n l) = l" "messages (cache_new n l) = []"
      "max_num_entries (cache_new n l) = n"
    using assms(1) by (simp_all add: cache_new_def cache_ok_def)
  then show ?thesis
    using cache_run_window [of "cache_new n l" ops clock] assms(2,3)
    by (simp add: cache_ok_def word_le_nat_alt)
qed

section \<open>Every logger gets every message once\<close>

datatype multi_call = Add nat | Remove nat | Set_Level log_level | Pass_On timeval log_call

fun multi_step :: "(timeval \<Rightarrow> string) \<Rightarrow> timeval \<Rightarrow> multi_call \<Rightarrow> multi \<Rightarrow> multi" where
  "multi_step clock junk (Add p) s = add_logger p s"
| "multi_step clock junk (Remove p) s = remove_logger p s"
| "multi_step clock junk (Set_Level l) s = set_loglevel l s"
| "multi_step clock junk (Pass_On now c) s = multi_log clock junk now c s"

lemma for_each_loggers [simp]: "m_loggers (for_each_logger f s) = m_loggers s"
proof -
  have "m_loggers (fold (\<lambda>p s. s\<lparr>m_objects := (m_objects s)(p := f (m_objects s p))\<rparr>) ps s) = m_loggers s" for ps
    by (induction ps arbitrary: s) simp_all
  then show ?thesis
    by (simp add: for_each_logger_def)
qed

lemma for_each_objects:
  assumes "distinct (m_loggers s)"
  shows "m_objects (for_each_logger f s) p =
    (if p \<in> set (m_loggers s) then f (m_objects s p) else m_objects s p)"
proof -
  have "distinct ps \<Longrightarrow> m_objects (fold (\<lambda>p s. s\<lparr>m_objects := (m_objects s)(p := f (m_objects s p))\<rparr>) ps s) p =
      (if p \<in> set ps then f (m_objects s p) else m_objects s p)" for ps
    by (induction ps arbitrary: s) auto
  then show ?thesis
    using assms by (simp add: for_each_logger_def)
qed

text \<open>The loggers that were added and not removed since.\<close>

fun members_after :: "multi_call list \<Rightarrow> nat set \<Rightarrow> nat set" where
  "members_after [] M = M"
| "members_after (Add p # cs) M = members_after cs (insert p M)"
| "members_after (Remove p # cs) M = members_after cs (M - {p})"
| "members_after (_ # cs) M = members_after cs M"

lemma strict_remdups_adj: "sorted xs \<Longrightarrow> sorted_wrt (<) (remdups_adj (xs :: nat list))"
proof (induction xs rule: remdups_adj.induct)
  case (3 x y xs)
  then show ?case
    by (cases "x = y") (auto simp: order.strict_iff_order)
qed simp_all

lemma multi_loggers:
  "sorted_wrt (<) (m_loggers s) \<Longrightarrow>
     sorted_wrt (<) (m_loggers (fold (multi_step clock junk) cs s))
     \<and> set (m_loggers (fold (multi_step clock junk) cs s)) = members_after cs (set (m_loggers s))"
proof (induction cs arbitrary: s)
  case (Cons c cs)
  have "sorted_wrt (<) (m_loggers (multi_step clock junk c s))"
    using Cons.prems
  proof (cases c)
    case (Add p)
    then show ?thesis
      using Add strict_remdups_adj [of "sort (m_loggers s @ [p])"] by (simp add: add_logger_def)
  qed (simp_all add: remove_logger_def set_loglevel_def multi_log_def removeAll_filter_not_eq sorted_wrt_filter)
  moreover have "members_after (c # cs) (set (m_loggers s)) =
      members_after cs (set (m_loggers (multi_step clock junk c s)))"
    by (cases c) (simp_all add: add_logger_def remove_logger_def set_loglevel_def multi_log_def)
  ultimately show ?case
    using Cons.IH [of "multi_step clock junk c s"] by simp
qed simp

text \<open>A text that is passed on is put out by a console or a file as if it had been logged there.\<close>

lemma forwarded_text:
  assumes "c_body c = Text t"
  shows "console_log clock now (forwarded now c) st = console_log clock now c st"
    and "file_log clock now (forwarded now c) st = file_log clock now c st"
  using assms by (cases t; simp add: console_log_def file_log_def forwarded_def accepts_def
      render_console_def render_file_def call_time_def)+

text \<open>
  After any calls of a \<open>MultiLogger\<close>, its loggers are those that were added and not removed
  since, however often they were added; a text then reaches each of them once: a console or a
  file puts out exactly what it would have put out had it been called itself, by its own level,
  and an object that is not among the loggers is not touched.
\<close>

theorem multi_text_reaches_all:
  assumes "m_loggers s0 = []" and "s = fold (multi_step clock junk) cs s0" and "c_body c = Text t"
  shows "set (m_loggers s) = members_after cs {}
    \<and> (\<forall>p st. p \<in> members_after cs {} \<and> m_objects s p = Console_Logger st \<longrightarrow>
         m_objects (multi_log clock junk now c s) p = Console_Logger (console_log clock now c st))
    \<and> (\<forall>p st. p \<in> members_after cs {} \<and> m_objects s p = File_Logger st \<longrightarrow>
         m_objects (multi_log clock junk now c s) p = File_Logger (file_log clock now c st))
    \<and> (\<forall>p. p \<notin> members_after cs {} \<longrightarrow> m_objects (multi_log clock junk now c s) p = m_objects s p)"
proof -
  have m: "sorted_wrt (<) (m_loggers s)" "set (m_loggers s) = members_after cs {}"
    using multi_loggers [of s0 clock junk cs] assms(1,2) by simp_all
  then have "distinct (m_loggers s)"
    by (simp add: strict_sorted_iff)
  then show ?thesis
    using m(2) by (simp add: multi_log_def for_each_objects forwarded_text [OF assms(3)])
qed

text \<open>
  An exception that is logged with a time is passed on as an error, whatever its level: a
  console shows it in red, even when its level would have dropped it.
\<close>

lemma timed_exception_is_error:
  assumes "c_body c = Exception ms" and "\<not> by_argument c" and "c_time c = Some t" and "s_level st \<le> LL_ERROR"
  shows "object_log clock junk now (forwarded now c) (Console_Logger st) =
    Console_Logger (st\<lparr>s_out := s_out st @ console_exception clock LL_ERROR t (c_component c) ms\<rparr>)"
  using assms by (simp add: console_log_def forwarded_def accepts_def render_console_def call_time_def)

text \<open>A text that is logged with the level as an argument gets a time stamp of junk on the network.\<close>

lemma network_time_is_junk:
  assumes "c_body c = Text (Some m)" and "by_argument c" and "\<not> va_variant c" and "accepts (n_level st) c"
  shows "\<exists>st'. object_log clock junk now (forwarded now c) (Network_Logger st) = Network_Logger st'
    \<and> map lm_sec (n_sent st') = map lm_sec (n_sent st) @ [fst junk]"
  using assms by (cases "c_time c")
    (simp_all add: net_log_def forwarded_def accepts_def render_net_def send_message_def Let_def)

text \<open>A text logged into the cache with a time unlocks the mutex once more than it was locked.\<close>

lemma timed_text_unlocks_twice:
  assumes "accepts (k_level c) k" and "c_body k = Text (Some m)" and "c_time k = Some t"
  shows "held (cache_log clock now k c) = held c - 1"
  using assms by (auto simp: cache_log_def push_text_def accepts_def Let_def)

section \<open>Lines of CLIPS\<close>

text \<open>
  Pieces up to a line break make one message, whatever name they are printed under; the level
  is that of the name of the line break.
\<close>

lemma clips_line:
  assumes "\<forall>(nm, str)\<in>set pieces. str \<noteq> newline"
  shows "clips_logger_log R nm newline (fold (\<lambda>(nm, str). clips_logger_log R nm str) pieces s) =
    s\<lparr>lines_out := lines_out s @ [case line_level R nm of (tr, l) \<Rightarrow> (tr, l, buffer s @ concat (map snd pieces))],
      buffer := []\<rparr>"
proof -
  have "fold (\<lambda>(nm, str). clips_logger_log R nm str) pieces s =
      s\<lparr>buffer := buffer s @ concat (map snd pieces)\<rparr>"
    using assms by (induction pieces arbitrary: s) (auto simp: clips_logger_log_def)
  then show ?thesis
    by (simp add: clips_logger_log_def split: prod.splits)
qed

text \<open>A line that is printed in one piece with its line break is not logged before the next one.\<close>

lemma clips_line_in_one_piece:
  "str \<noteq> [] \<Longrightarrow> lines_out (clips_logger_log R nm (str @ newline) s) = lines_out s"
  by (simp add: clips_logger_log_def newline_def)

section \<open>Examples\<close>

definition demo_call :: "log_level \<Rightarrow> string \<Rightarrow> log_call" where
  "demo_call l m = \<lparr>by_argument = False, va_variant = False, c_level = l, c_time = None,
     c_component = ''RefBox'', c_body = Text (Some m)\<rparr>"

definition demo_objects :: "nat \<Rightarrow> logger_object" where
  "demo_objects p = (if p = 1 then Console_Logger \<lparr>s_level = LL_WARN, s_out = []\<rparr>
     else File_Logger \<lparr>s_level = LL_DEBUG, s_out = []\<rparr>)"

theorem cache_refines_window_witness:
  "map ce_message (messages (fold (cache_step (\<lambda>_. [])) [Log_Call (0, 0) (demo_call LL_INFO ''a''),
      Log_Call (0, 0) (demo_call LL_DEBUG ''b''), Log_Call (0, 0) (demo_call LL_INFO ''c''),
      Log_Call (0, 0) (demo_call LL_ERROR ''d'')] (cache_new 2 LL_INFO))) = [''d'', ''c'']"
proof -
  let ?ops = "[Log_Call (0, 0) (demo_call LL_INFO ''a''), Log_Call (0, 0) (demo_call LL_DEBUG ''b''),
      Log_Call (0, 0) (demo_call LL_INFO ''c''), Log_Call (0, 0) (demo_call LL_ERROR ''d'')]"
  have "unat (2 :: 32 word) < 2 ^ 31" "\<forall>op\<in>set ?ops. small_call op"
    by (simp_all add: demo_call_def)
  from cache_refines_window [OF this refl, of "\<lambda>_. []" LL_INFO] show ?thesis
    by (simp add: entries_of_def demo_call_def accepts_def less_eq_log_level_def Let_def)
qed

theorem multi_text_reaches_all_witness:
  "\<exists>s. m_loggers s = [1, 2]
     \<and> m_objects (multi_log (\<lambda>_. ''12:00'') (0, 0) (0, 0) (demo_call LL_INFO ''ready'') s) 1
         = Console_Logger \<lparr>s_level = LL_WARN, s_out = []\<rparr>
     \<and> m_objects (multi_log (\<lambda>_. ''12:00'') (0, 0) (0, 0) (demo_call LL_INFO ''ready'') s) 2
         = File_Logger \<lparr>s_level = LL_DEBUG, s_out = [''I 12:00 RefBox: ready'' @ newline]\<rparr>"
proof -
  let ?start = "\<lparr>m_loggers = [], m_objects = demo_objects\<rparr>" and ?cs = "[Add 2, Add 1, Add 2]"
  let ?s = "fold (multi_step (\<lambda>_. ''12:00'') (0, 0)) ?cs ?start" and ?c = "demo_call LL_INFO ''ready''"
  have s: "m_loggers ?s = [1, 2]" "m_objects ?s = demo_objects"
    by (simp_all add: add_logger_def)
  have "m_loggers ?start = []" "c_body ?c = Text (Some ''ready'')"
    by (simp_all add: demo_call_def)
  from multi_text_reaches_all [OF this(1) refl this(2), of "\<lambda>_. ''12:00''" "(0, 0)" ?cs "(0, 0)"]
  have "m_objects (multi_log (\<lambda>_. ''12:00'') (0, 0) (0, 0) ?c ?s) 1 =
      Console_Logger (console_log (\<lambda>_. ''12:00'') (0, 0) ?c \<lparr>s_level = LL_WARN, s_out = []\<rparr>)"
    and "m_objects (multi_log (\<lambda>_. ''12:00'') (0, 0) (0, 0) ?c ?s) 2 =
      File_Logger (file_log (\<lambda>_. ''12:00'') (0, 0) ?c \<lparr>s_level = LL_DEBUG, s_out = []\<rparr>)"
    unfolding s(2) by (simp_all add: demo_objects_def)
  then show ?thesis
    using s(1) by (intro exI [of _ ?s]) (simp add: console_log_def file_log_def accepts_def demo_call_def
        less_eq_log_level_def render_file_def file_text_def call_time_def)
qed

end
