(* ===== verification/Refbox.thy ===== *)
theory Refbox imports Config_Load Logging
begin

text \<open>
  The application \<open>LLSFRefBox\<close>, \<open>src/refbox/refbox.cpp\<close>: what it reads from the
  configuration (\<open>Yaml_Config\<close>), directories with variables, the facts it makes of the
  configuration for CLIPS, and the timer that runs the rules.
\<close>

section \<open>Directories\<close>

text \<open>The directories that are set when the program is built.\<close>

record build_dirs =
  BASEDIR :: string
  RESDIR :: string
  CONFDIR :: string
  SRCDIR :: string

text \<open>\<open>std::string::find\<close>: the first position of a text.\<close>

fun str_find :: "string \<Rightarrow> string \<Rightarrow> nat option" where
  "str_find pat [] = (if pat = [] then Some 0 else None)"
| "str_find pat (c # cs) =
     (if take (length pat) (c # cs) = pat then Some 0 else map_option Suc (str_find pat cs))"

definition str_replace :: "nat \<Rightarrow> nat \<Rightarrow> string \<Rightarrow> string \<Rightarrow> string" where
  "str_replace pos len new s = take pos s @ new @ drop (pos + len) s"

definition expand :: "string \<Rightarrow> string \<Rightarrow> string \<Rightarrow> string" where
  "expand var val s = (case str_find var s of None \<Rightarrow> s | Some pos \<Rightarrow> str_replace pos (length var) val s)"

definition modify_directory_path :: "build_dirs \<Rightarrow> string \<Rightarrow> string" where
  "modify_directory_path B dir =
     (let d1 = expand ''@BASEDIR@'' (BASEDIR B) dir;
          d2 = expand ''@RESDIR@'' (RESDIR B) d1;
          d3 = expand ''@CONFDIR@'' (CONFDIR B) d2
      in if d3 \<noteq> [] \<and> last d3 \<noteq> slash then d3 @ [slash] else d3)"

lemma modify_directory_path_slash:
  "modify_directory_path B dir \<noteq> [] \<Longrightarrow> last (modify_directory_path B dir) = slash"
  by (auto simp: modify_directory_path_def Let_def)

text \<open>A directory without variables only gets its slash.\<close>

lemma modify_plain_path:
  assumes "CHR ''@'' \<notin> set dir" and "dir \<noteq> []" and "last dir \<noteq> slash"
  shows "modify_directory_path B dir = dir @ [slash]"
proof -
  have no: "str_find (CHR ''@'' # v) s = None" if "CHR ''@'' \<notin> set s" for v s
    using that by (induction s) auto
  show ?thesis
    using assms no [OF assms(1)] by (simp add: modify_directory_path_def expand_def Let_def)
qed

section \<open>What the constructor reads\<close>

definition parse_log_level :: "string \<Rightarrow> log_level" where
  "parse_log_level ll =
     (if ll = ''debug'' then LL_DEBUG else if ll = ''info'' then LL_INFO
      else if ll = ''warn'' then LL_WARN else if ll = ''error'' then LL_ERROR else LL_INFO)"

record refbox_config =
  timer_interval :: "32 word"
  log_level :: log_level
  general_log :: "string option"
  clips_dir :: string
  proto_dirs :: "string list"
  server_port :: "32 word"
  clips_log :: "string option"
  plugin_list :: string

text \<open>A handler for \<open>fawkes::Exception\<close> that goes on with a default.\<close>

definition or_default :: "'a \<Rightarrow> 'a result \<Rightarrow> 'a result" where
  "or_default d r = (case r of Inr x \<Rightarrow> Inr x | Inl x \<Rightarrow> if is_fawkes x then Inr d else Inl x)"

text \<open>The log file is used when it is configured and can be opened; \<open>opens\<close> tells that.\<close>

definition log_file :: "(string \<Rightarrow> bool) \<Rightarrow> config \<Rightarrow> string \<Rightarrow> string option result" where
  "log_file opens s path =
     or_default None
       (bind (cfg_get_string s path)
         (\<lambda>f. if opens f then Inr (Some f) else Inl (FawkesException (''Failed to open log file '' @ f))))"

definition setup_protobuf_dirs :: "build_dirs \<Rightarrow> config \<Rightarrow> string list result" where
  "setup_protobuf_dirs B s =
     or_default []
       (bind (cfg_get_strings s ''/llsfrb/comm/protobuf-dirs'') (\<lambda>ds. Inr (map (modify_directory_path B) ds)))"

definition read_refbox_config :: "build_dirs \<Rightarrow> (string \<Rightarrow> bool) \<Rightarrow> config \<Rightarrow> refbox_config result" where
  "read_refbox_config B opens s =
     bind (cfg_get_uint s ''/llsfrb/clips/timer-interval'') (\<lambda>interval.
     bind (or_default LL_INFO (bind (cfg_get_string s ''/llsfrb/log/level'') (\<lambda>ll. Inr (parse_log_level ll)))) (\<lambda>level.
     bind (log_file opens s ''/llsfrb/log/general'') (\<lambda>general.
     bind (or_default (SRCDIR B @ ''/clips/'')
             (bind (cfg_get_string s ''/llsfrb/clips/dir'') (\<lambda>d. Inr (modify_directory_path B d)))) (\<lambda>cdir.
     bind (setup_protobuf_dirs B s) (\<lambda>dirs.
     bind (cfg_get_uint s ''/llsfrb/comm/server-port'') (\<lambda>port.
     bind (log_file opens s ''/llsfrb/log/clips'') (\<lambda>clog.
     bind (or_default [] (cfg_get_string s ''llsfrb/plugins'')) (\<lambda>plugins.
       Inr \<lparr>timer_interval = interval, log_level = level, general_log = general, clips_dir = cdir,
            proto_dirs = dirs, server_port = port, clips_log = clog, plugin_list = plugins\<rparr>))))))))"

text \<open>Reading a configuration that was loaded throws \<open>fawkes::Exception\<close> only.\<close>

lemma find_from_fawkes: "find_from path n q = Inl x \<Longrightarrow> is_fawkes x"
  by (induction path n q rule: find_from.induct) (auto simp: Let_def split: option.splits)

lemma find_leaf_fawkes: "find_leaf r path = Inl x \<Longrightarrow> is_fawkes x"
  using find_from_fawkes by (fastforce simp: find_leaf_def bind_def find_node_def find_queue_def
      split: sum.splits if_splits)

lemma get_value_fawkes: "get_value conv n = Inl x \<Longrightarrow> is_fawkes x"
  by (auto simp: get_value_def split: if_splits option.splits)

lemma cfg_get_string_fawkes: "root s = Some r \<Longrightarrow> cfg_get_string s path = Inl x \<Longrightarrow> is_fawkes x"
  using find_leaf_fawkes get_value_fawkes
  by (fastforce simp: cfg_get_string_def root_of_def bind_def get_value_as_def split: sum.splits)

lemma collect_fawkes:
  "(\<And>v x. f v = Inl x \<Longrightarrow> is_fawkes x) \<Longrightarrow> collect f vs = Inl x \<Longrightarrow> is_fawkes x"
  by (induction vs) (auto split: sum.splits)

lemma cfg_get_strings_fawkes: "root s = Some r \<Longrightarrow> cfg_get_strings s path = Inl x \<Longrightarrow> is_fawkes x"
  using find_leaf_fawkes collect_fawkes [of "\<lambda>v. case convert_string v of Some t \<Rightarrow> Inr t | None \<Rightarrow> _"]
  by (fastforce simp: cfg_get_strings_def root_of_def bind_def get_list_as_def get_list_def not_a_list_def
      convert_string_def split: sum.splits if_splits)

lemma or_default_ok: "(\<And>x. r = Inl x \<Longrightarrow> is_fawkes x) \<Longrightarrow> is_ok (or_default d r)"
  by (cases r) (simp_all add: or_default_def)

lemma is_ok_bind: "is_ok (bind r f) \<longleftrightarrow> (\<exists>x. r = Inr x \<and> is_ok (f x))"
  by (cases r) (simp_all add: bind_def)

text \<open>
  Only two entries are required of a configuration: the constructor can read it if and only
  if the timer interval and the port of the server are there as unsigned numbers. Every other
  entry may be missing, may have another type, and a log file may be impossible to open.
\<close>

theorem two_entries_required:
  assumes "root s = Some r"
  shows "is_ok (read_refbox_config B opens s) \<longleftrightarrow>
    is_ok (cfg_get_uint s ''/llsfrb/clips/timer-interval'') \<and>
    is_ok (cfg_get_uint s ''/llsfrb/comm/server-port'')"
proof -
  have str: "is_ok (or_default d (bind (cfg_get_string s p) (\<lambda>x. Inr (f x))))" for d p and f :: "string \<Rightarrow> 'z"
    using cfg_get_string_fawkes [OF assms] by (intro or_default_ok) (auto simp: bind_def split: sum.splits)
  have plain: "is_ok (or_default d (cfg_get_string s p))" for d p
    using cfg_get_string_fawkes [OF assms] by (intro or_default_ok)
  have log: "is_ok (log_file opens s p)" for p
    unfolding log_file_def using cfg_get_string_fawkes [OF assms]
    by (intro or_default_ok) (auto simp: bind_def split: sum.splits if_splits)
  have dirs: "is_ok (setup_protobuf_dirs B s)"
    unfolding setup_protobuf_dirs_def using cfg_get_strings_fawkes [OF assms]
    by (intro or_default_ok) (auto simp: bind_def split: sum.splits)
  obtain level where level: "or_default LL_INFO (bind (cfg_get_string s ''/llsfrb/log/level'')
      (\<lambda>ll. Inr (parse_log_level ll))) = Inr level"
    using str [of LL_INFO "''/llsfrb/log/level''" parse_log_level] unfolding is_ok_iff by blast
  obtain cdir where cdir: "or_default (SRCDIR B @ ''/clips/'') (bind (cfg_get_string s ''/llsfrb/clips/dir'')
      (\<lambda>d. Inr (modify_directory_path B d))) = Inr cdir"
    using str [of "SRCDIR B @ ''/clips/''" "''/llsfrb/clips/dir''" "modify_directory_path B"]
    unfolding is_ok_iff by blast
  obtain general clog ds plugins where o: "log_file opens s ''/llsfrb/log/general'' = Inr general"
      "log_file opens s ''/llsfrb/log/clips'' = Inr clog" "setup_protobuf_dirs B s = Inr ds"
      "or_default [] (cfg_get_string s ''llsfrb/plugins'') = Inr plugins"
    using log dirs plain unfolding is_ok_iff by metis
  show ?thesis
    unfolding read_refbox_config_def level cdir o
    by (cases "cfg_get_uint s ''/llsfrb/clips/timer-interval''";
        cases "cfg_get_uint s ''/llsfrb/comm/server-port''") (simp_all add: bind_def)
qed

section \<open>The configuration as facts\<close>

text \<open>
  The body of the loop of \<open>clips_load_config\<close>, at a valid iterator. \<open>printf\<close> puts the
  texts in as they are.
\<close>

definition value_type :: "env \<Rightarrow> value_iter \<Rightarrow> string result" where
  "value_type e it =
     bind (iter_is_uint it) (\<lambda>u. if u then Inr ''UINT'' else
     bind (iter_is_int it) (\<lambda>i. if i then Inr ''INT'' else
     bind (iter_is_float e it) (\<lambda>f. if f then Inr ''FLOAT'' else
     bind (iter_is_bool it) (\<lambda>b. if b then Inr ''BOOL'' else
     bind (iter_is_string it) (\<lambda>s. Inr (if s then ''STRING'' else []))))))"

definition quote :: "string \<Rightarrow> string" where
  "quote s = CHR 0x22 # s @ [CHR 0x22]"

definition confval :: "string \<Rightarrow> string \<Rightarrow> bool \<Rightarrow> string \<Rightarrow> string" where
  "confval path type is_list value =
     ''(confval (path '' @ quote path @ '') (type '' @ type @
     (if is_list then '') (is-list TRUE) (list-value '' else '') (value '') @ value @ ''))''"

definition config_fact :: "env \<Rightarrow> value_iter \<Rightarrow> string result" where
  "config_fact e it =
     bind (iter_get_as_string e it) (\<lambda>value.
     bind (value_type e it) (\<lambda>type.
     bind (iter_is_list it) (\<lambda>is_list.
     bind (iter_path it) (\<lambda>path.
       Inr (confval path type is_list (if type = ''STRING'' \<and> \<not> is_list then quote value else value))))))"

fun load_config_loop :: "nat \<Rightarrow> env \<Rightarrow> value_iter \<Rightarrow> string list \<Rightarrow> string list mutation option" where
  "load_config_loop 0 e it facts = None"
| "load_config_loop (Suc n) e it facts =
     (case iter_next it of
        Inl x \<Rightarrow> Some (throwing x facts)
      | Inr (it', False) \<Rightarrow> Some (ok facts)
      | Inr (it', True) \<Rightarrow>
          (case config_fact e it' of
             Inl x \<Rightarrow> Some (throwing x facts)
           | Inr f \<Rightarrow> load_config_loop n e it' (facts @ [f])))"

definition clips_load_config :: "nat \<Rightarrow> env \<Rightarrow> config \<Rightarrow> string \<Rightarrow> string list mutation option" where
  "clips_load_config n e s cfg_prefix =
     (case cfg_search s cfg_prefix of
        Inl x \<Rightarrow> Some (throwing x []) | Inr it \<Rightarrow> load_config_loop n e it [])"

text \<open>The fact of a leaf, and the text of a leaf.\<close>

definition leaf_type :: "env \<Rightarrow> node \<Rightarrow> string" where
  "leaf_type e m =
     (if is_type convert_uint m then ''UINT'' else if is_type convert_int m then ''INT''
      else if is_type (convert_float (yc e)) m then ''FLOAT'' else if is_type convert_bool m then ''BOOL''
      else if is_type convert_string m then ''STRING'' else [])"

definition leaf_text :: "env \<Rightarrow> node \<Rightarrow> string result" where
  "leaf_text e m =
     (if node_type m = SEQUENCE then get_list_as_string (yc e) m else Inr (scalar_value m))"

definition leaf_fact :: "env \<Rightarrow> string \<Rightarrow> node \<Rightarrow> string \<Rightarrow> string" where
  "leaf_fact e path m value =
     confval path (leaf_type e m) (node_type m = SEQUENCE)
       (if leaf_type e m = ''STRING'' \<and> node_type m \<noteq> SEQUENCE then quote value else value)"

lemma config_fact_leaf:
  assumes "i < length ns" and "ns ! i = (p, m)"
  shows "config_fact e \<lparr>first = False, nodes = ns, current = i\<rparr> =
    bind (leaf_text e m) (\<lambda>v. Inr (leaf_fact e p m v))"
proof -
  let ?it = "\<lparr>first = False, nodes = ns, current = i\<rparr>"
  have cur: "iter_current what ?it = Inr (p, m)" for what
    using assms by (simp add: iter_current_def iter_valid_def)
  have "value_type e ?it = Inr (leaf_type e m)"
    by (simp add: value_type_def leaf_type_def cur iter_is_uint_def iter_is_int_def iter_is_float_def
        iter_is_bool_def iter_is_string_def)
  moreover have "iter_get_as_string e ?it = leaf_text e m"
    by (simp add: iter_get_as_string_def leaf_text_def cur get_value_def convert_string_def)
  ultimately show ?thesis
    by (simp add: config_fact_def leaf_fact_def cur iter_is_list_def iter_path_def)
qed

text \<open>The loop over the iterator is the loop over its leaves.\<close>

fun facts_of :: "env \<Rightarrow> (string \<times> node) list \<Rightarrow> string list \<Rightarrow> string list mutation" where
  "facts_of e [] fs = ok fs"
| "facts_of e ((p, m) # ls) fs =
     (case leaf_text e m of Inl x \<Rightarrow> throwing x fs | Inr v \<Rightarrow> facts_of e ls (fs @ [leaf_fact e p m v]))"

lemma loop_from:
  "\<lbrakk> i < length ns; length ns - i < n \<rbrakk> \<Longrightarrow>
     (case config_fact e \<lparr>first = False, nodes = ns, current = i\<rparr> of
        Inl x \<Rightarrow> Some (throwing x fs)
      | Inr f \<Rightarrow> load_config_loop n e \<lparr>first = False, nodes = ns, current = i\<rparr> (fs @ [f]))
     = Some (facts_of e (drop i ns) fs)"
proof (induction n arbitrary: i fs)
  case (Suc n)
  obtain p m where pm: "ns ! i = (p, m)"
    by (cases "ns ! i")
  have d: "drop i ns = (p, m) # drop (Suc i) ns"
    using Suc.prems(1) pm Cons_nth_drop_Suc by metis
  show ?case
  proof (cases "leaf_text e m")
    case (Inl x)
    then show ?thesis
      using config_fact_leaf [OF Suc.prems(1) pm] d by simp
  next
    case (Inr v)
    show ?thesis
    proof (cases "Suc i < length ns")
      case True
      then show ?thesis
        using config_fact_leaf [OF Suc.prems(1) pm] d Inr Suc.IH [of "Suc i" "fs @ [leaf_fact e p m v]"] Suc.prems
        by (simp add: iter_next_def)
    next
      case False
      then have "Suc i = length ns"
        using Suc.prems(1) by simp
      then show ?thesis
        using config_fact_leaf [OF Suc.prems(1) pm] d Inr Suc.prems by (simp add: iter_next_def)
    qed
  qed
qed simp

lemma loop_new:
  assumes "Suc (length ns) < n"
  shows "load_config_loop n e (iter_new ns) fs = Some (facts_of e ns fs)"
proof -
  obtain k where n: "n = Suc k" "length ns < k"
    using assms by (cases n) auto
  show ?thesis
  proof (cases ns)
    case Nil
    then show ?thesis
      using n by (simp add: iter_new_def iter_next_def)
  next
    case (Cons l ls)
    then show ?thesis
      using n loop_from [where i = 0 and ns = "l # ls" and n = k and e = e and fs = fs]
      by (simp add: iter_new_def iter_next_def)
  qed
qed

text \<open>A leaf that can be written: a list must not begin with an unsigned number.\<close>

definition printable :: "node \<Rightarrow> bool" where
  "printable m \<longleftrightarrow>
     node_type m \<noteq> SEQUENCE \<or> list_values m = [] \<or> convert_uint (hd (list_values m)) = None"

lemma leaf_text_ok: "is_ok (leaf_text e m) \<longleftrightarrow> printable m"
  by (cases "list_values m")
    (auto simp: printable_def leaf_text_def get_list_as_string_def determine_scalar_type_def is_type_def
      get_int_def get_value_def is_ok_iff)

lemma facts_until:
  "\<exists>x. facts_of e ls fs =
     (fs @ map (\<lambda>(p, m). leaf_fact e p m (projr (leaf_text e m))) (takeWhile (\<lambda>l. printable (snd l)) ls), x)
   \<and> (x = None \<longleftrightarrow> list_all (\<lambda>l. printable (snd l)) ls)"
proof (induction ls arbitrary: fs)
  case (Cons l ls)
  obtain p m where l: "l = (p, m)"
    by (cases l)
  show ?case
  proof (cases "leaf_text e m")
    case (Inl x)
    then show ?thesis
      using l leaf_text_ok [of e m] by (simp add: throwing_def)
  next
    case (Inr v)
    then show ?thesis
      using l leaf_text_ok [of e m] Cons.IH [of "fs @ [leaf_fact e p m v]"] by simp
  qed
qed (simp add: ok_def)

text \<open>
  C10. Loading the configuration below a path asserts one fact for every leaf below it, with the
  leaf's full path and value, in the order of the paths, each once; it ends (the fuel is more than
  one above the number of leaves). A list whose first element reads as an unsigned number cannot
  be written: it makes the function throw, and neither it nor any leaf after it gets a fact.
\<close>

theorem load_config_one_fact_per_leaf:
  assumes "root s = Some r" and "cfg_wf s" and "lookup r q = Some k" and "q \<noteq> []"
    and "path = join_path slash q \<or> path = join_path slash q @ [slash]"
  shows "\<exists>ls. sorted_wrt (<) (map fst ls) \<and>
    (\<forall>p m. (p, m) \<in> set ls \<longleftrightarrow>
       (\<exists>q'. q' \<noteq> [] \<and> leaf_at r (q @ q') m \<and> p = join_path slash (q @ q'))) \<and>
    (\<forall>n > Suc (length ls). \<exists>x. clips_load_config n e s path =
       Some (map (\<lambda>(p, m). leaf_fact e p m (projr (leaf_text e m))) (takeWhile (\<lambda>l. printable (snd l)) ls), x) \<and>
       (x = None \<longleftrightarrow> list_all (\<lambda>l. printable (snd l)) ls))"
proof -
  obtain ls where ls: "cfg_search s path = Inr (iter_new ls)" "sorted_wrt (<) (map fst ls)"
    "\<forall>p m. (p, m) \<in> set ls \<longleftrightarrow>
       (\<exists>q'. q' \<noteq> [] \<and> leaf_at r (q @ q') m \<and> p = join_path slash (q @ q'))"
    using cfg_search_leaves [OF assms] by blast
  have "\<exists>x. clips_load_config n e s path =
       Some (map (\<lambda>(p, m). leaf_fact e p m (projr (leaf_text e m))) (takeWhile (\<lambda>l. printable (snd l)) ls), x) \<and>
       (x = None \<longleftrightarrow> list_all (\<lambda>l. printable (snd l)) ls)" if "n > Suc (length ls)" for n
    using loop_new [OF that] facts_until [of e ls "[]"] by (auto simp: clips_load_config_def ls(1))
  then show ?thesis
    using ls(2,3) by blast
qed


definition list_config :: config where
  "list_config = config_empty\<lparr>root := Some (fst (set_list (\<lambda>t. t) ''/llsf/list'' [''1'', ''2''] demo_tree)),
     host_root := Some root_node, host_file := ''/etc/host.yaml''\<rparr>"

theorem two_entries_required_witness:
  "\<not> is_ok (read_refbox_config \<lparr>BASEDIR = [], RESDIR = [], CONFDIR = [], SRCDIR = []\<rparr> (\<lambda>f. True) demo_config)"
  unfolding two_entries_required [OF demo_facts(1)] by code_simp

theorem load_config_one_fact_per_leaf_witness:
  "\<exists>ls. sorted_wrt (<) (map fst ls) \<and>
    (\<forall>n > Suc (length ls). \<exists>x. clips_load_config n demo_env demo_config ''/llsf/'' =
       Some (map (\<lambda>(p, m). leaf_fact demo_env p m (projr (leaf_text demo_env m)))
         (takeWhile (\<lambda>l. printable (snd l)) ls), x))"
proof -
  obtain k where k: "lookup demo_tree [''llsf''] = Some k"
  proof -
    have "lookup demo_tree [''llsf''] \<noteq> None" by code_simp
    then show thesis using that by auto
  qed
  have path: "''/llsf/'' = join_path slash [''llsf''] \<or> ''/llsf/'' = join_path slash [''llsf''] @ [slash]"
    by code_simp
  show ?thesis
    by (rule ex_forward [OF load_config_one_fact_per_leaf [OF demo_facts(1,3) k list.simps(3) path]],
        erule conj_forward, assumption, drule conjunct2, erule all_forward, erule imp_forward, assumption,
        erule ex_forward, erule conjunct1)
qed

lemma demo_facts_loaded:
  "clips_load_config 4 demo_env demo_config ''/llsf/'' = Some (ok
     [''(confval (path '' @ quote ''/llsf/comm/port'' @ '') (type UINT) (value 4444))'',
      ''(confval (path '' @ quote ''/llsf/name'' @ '') (type STRING) (value '' @ quote ''hub'' @ ''))''])"
  by code_simp


text \<open>The numbers of the list stop the loading: the name after it is not loaded.\<close>

lemma list_of_numbers_not_loaded:
  "map_option (\<lambda>(facts, x). (facts, x \<noteq> None)) (clips_load_config 5 demo_env list_config ''/llsf/'') = Some (
     [''(confval (path '' @ quote ''/llsf/comm/port'' @ '') (type UINT) (value 4444))''], True)"
  by code_simp


section \<open>The timer\<close>

text \<open>
  The clock counts microseconds. \<open>pending\<close> tells that a wait for the timer is registered with
  the \<open>io_service\<close>, \<open>halted\<close> that the service was stopped; \<open>ticks\<close> records when
  the fact with the time was asserted and the rules were run.
\<close>

record rtimer =
  interval :: "32 word"
  expires_at :: int
  pending :: bool
  halted :: bool
  ticks :: "int list"

definition step_time :: "rtimer \<Rightarrow> int" where
  "step_time t = 1000 * uint (interval t)"

definition start_timer :: "int \<Rightarrow> rtimer \<Rightarrow> rtimer" where
  "start_timer now t = t\<lparr>expires_at := now + step_time t, pending := True\<rparr>"

text \<open>The handler is called once for a wait, with an error when the wait was cancelled.\<close>

definition handle_timer :: "bool \<Rightarrow> int \<Rightarrow> rtimer \<Rightarrow> rtimer" where
  "handle_timer failed now t =
     (if failed then t
      else t\<lparr>ticks := ticks t @ [now], expires_at := expires_at t + step_time t, pending := True\<rparr>)"

definition handle_signal :: "rtimer \<Rightarrow> rtimer" where
  "handle_signal t = t\<lparr>pending := False, halted := True\<rparr>"

text \<open>The service: time passes, an expired wait is handled (which takes time), a signal arrives.\<close>

inductive service :: "int \<times> rtimer \<Rightarrow> int \<times> rtimer \<Rightarrow> bool" where
  pass: "now \<le> now' \<Longrightarrow> service (now, t) (now', t)"
| expired: "\<lbrakk> pending t; \<not> halted t; expires_at t \<le> now; now \<le> now' \<rbrakk> \<Longrightarrow>
    service (now, t) (now', handle_timer False now (t\<lparr>pending := False\<rparr>))"
| signalled: "\<not> halted t \<Longrightarrow> service (now, t) (now, handle_signal t)"

inductive_cases serviceE: "service c d"

inductive running :: "32 word \<Rightarrow> int \<Rightarrow> int \<times> rtimer \<Rightarrow> bool" for i start where
  run: "running i start (start, start_timer start \<lparr>interval = i, expires_at = 0, pending = False, halted = False, ticks = []\<rparr>)"
| serve: "running i start c \<Longrightarrow> service c d \<Longrightarrow> running i start d"

definition on_schedule :: "32 word \<Rightarrow> int \<Rightarrow> int \<times> rtimer \<Rightarrow> bool" where
  "on_schedule i start c \<longleftrightarrow>
     (case c of (now, t) \<Rightarrow>
        interval t = i \<and> (pending t \<longleftrightarrow> \<not> halted t) \<and> start \<le> now \<and>
        expires_at t = start + (int (length (ticks t)) + 1) * (1000 * uint i) \<and>
        sorted (ticks t) \<and> (\<forall>x \<in> set (ticks t). x \<le> now) \<and>
        (\<forall>k < length (ticks t). start + (int k + 1) * (1000 * uint i) \<le> ticks t ! k))"

lemma handle_timer_on_schedule:
  assumes "on_schedule i start (now, t)" and "pending t" and "expires_at t \<le> now" and "now \<le> now'"
  shows "on_schedule i start (now', handle_timer False now (t\<lparr>pending := False\<rparr>))"
  using assms
  by (auto simp: on_schedule_def handle_timer_def step_time_def sorted_append nth_append less_Suc_eq algebra_simps)

lemma service_on_schedule: "service c d \<Longrightarrow> on_schedule i start c \<Longrightarrow> on_schedule i start d"
  by (induction c d rule: service.induct)
    (auto simp: handle_timer_on_schedule, auto simp: on_schedule_def handle_signal_def)

lemma running_on_schedule: "running i start c \<Longrightarrow> on_schedule i start c"
proof (induction rule: running.induct)
  case run
  show ?case by (simp add: on_schedule_def start_timer_def step_time_def)
qed (rule service_on_schedule)

text \<open>
  C33. The rules are run on schedule, without drift: however long they take and however late the
  service gets to the timer, the run numbered k is never before the start plus k intervals, the
  next one is due at the start plus a whole number of intervals, and as long as no signal came it
  is possible exactly when the runs so far are fewer than the intervals that have passed, so that
  delayed runs are made up for and none is added. After a signal no further run happens.
\<close>

theorem timer_no_drift:
  assumes "running i start (now, t)"
  shows "sorted (ticks t) \<and> (\<forall>k < length (ticks t). start + (int k + 1) * (1000 * uint i) \<le> ticks t ! k) \<and>
    ((\<exists>now' t'. service (now, t) (now', t') \<and> ticks t' \<noteq> ticks t) \<longleftrightarrow>
       \<not> halted t \<and> (int (length (ticks t)) + 1) * (1000 * uint i) \<le> now - start) \<and>
    (halted t \<longrightarrow> (\<forall>c. service\<^sup>*\<^sup>* (now, t) c \<longrightarrow> ticks (snd c) = ticks t))"
proof -
  have inv: "on_schedule i start (now, t)"
    using assms by (rule running_on_schedule)
  have "(\<exists>now' t'. service (now, t) (now', t') \<and> ticks t' \<noteq> ticks t) \<longleftrightarrow>
       pending t \<and> \<not> halted t \<and> expires_at t \<le> now"
  proof
    assume "\<exists>now' t'. service (now, t) (now', t') \<and> ticks t' \<noteq> ticks t"
    then show "pending t \<and> \<not> halted t \<and> expires_at t \<le> now"
      by (auto elim!: serviceE simp: handle_signal_def)
  next
    assume "pending t \<and> \<not> halted t \<and> expires_at t \<le> now"
    then have "service (now, t) (now, handle_timer False now (t\<lparr>pending := False\<rparr>))"
      by (intro service.expired) auto
    moreover have "ticks (handle_timer False now (t\<lparr>pending := False\<rparr>)) \<noteq> ticks t"
      by (simp add: handle_timer_def)
    ultimately show "\<exists>now' t'. service (now, t) (now', t') \<and> ticks t' \<noteq> ticks t"
      by blast
  qed
  moreover have "ticks (snd c) = ticks t" if "halted t" "service\<^sup>*\<^sup>* (now, t) c" for c
  proof -
    have "ticks (snd c) = ticks t \<and> halted (snd c)"
      using that(2,1) by (induction rule: rtranclp_induct) (auto elim!: serviceE)
    then show ?thesis ..
  qed
  ultimately show ?thesis
    using inv by (auto simp: on_schedule_def algebra_simps)
qed

theorem timer_no_drift_witness:
  "\<exists>t. running 40 0 (100000, t) \<and> ticks t = [95000, 95000] \<and>
     (\<forall>k < 2. (int k + 1) * 40000 \<le> ticks t ! k)"
proof -
  let ?new = "start_timer 0 \<lparr>interval = 40, expires_at = 0, pending = False, halted = False, ticks = []\<rparr>"
  let ?a = "handle_timer False 95000 (?new\<lparr>pending := False\<rparr>)"
  let ?b = "handle_timer False 95000 (?a\<lparr>pending := False\<rparr>)"
  have 1: "running 40 0 (95000, ?new)"
    by (rule running.serve [OF running.run], rule service.pass) simp
  have 2: "running 40 0 (95000, ?a)"
    by (rule running.serve [OF 1], rule service.expired) (simp_all add: start_timer_def step_time_def)
  have 3: "running 40 0 (100000, ?b)"
    by (rule running.serve [OF 2], rule service.expired)
      (simp_all add: start_timer_def handle_timer_def step_time_def)
  have "ticks ?b = [95000, 95000]"
    by (simp add: start_timer_def handle_timer_def)
  then show ?thesis
    using 3 timer_no_drift [OF 3] by (intro exI [of _ ?b] conjI) (assumption, assumption, simp)
qed

end
