(* ===== verification/Barriers.thy ===== *)
theory Barriers imports Prelude
begin

text \<open>
  The barrier that a list of threads is woken with, \<open>InterruptibleBarrier\<close> of
  \<open>src/libs/core/threading/interruptible_barrier.cpp\<close> over \<open>Barrier\<close>. What a thread does
  while it holds the mutex is one step; the two members that are read after the mutex was
  released are read in steps of their own. Threads are numbers; \<open>timed\<close> tells which of them
  wait with a time limit.
\<close>

section \<open>State\<close>

text \<open>
  Where a thread is in \<open>wait()\<close>: in the loop on the wait condition, past the mutex, in
  \<open>Barrier::wait()\<close>, before the last statement, or done, with the result of the call.
\<close>

datatype bphase =
    Outside | Waiting | Leaving | At_Barrier | Returning | Done "bool result" | Crashed

text \<open>
  \<open>passed_threads\<close> is \<open>None\<close> when the reference is empty, \<open>posix\<close> are the threads
  blocked in the POSIX barrier. The two last fields count the calls of \<open>wait()\<close> of every thread
  and those that have returned.
\<close>

record bstate =
  threads_left :: nat
  interrupted :: bool
  timed_out :: bool
  wait_at_barrier :: bool
  passed_threads :: "nat list option"
  posix :: "nat list"
  phase :: "nat \<Rightarrow> bphase"
  arrivals :: "nat \<Rightarrow> nat"
  passes :: "nat \<Rightarrow> nat"

definition barrier_new :: "nat \<Rightarrow> bstate result" where
  "barrier_new count =
     (if count = 0 then Inl (FawkesException ''Barrier count must be at least 1'')
      else Inr \<lparr>threads_left = 0, interrupted = False, timed_out = False, wait_at_barrier = False,
             passed_threads = Some [], posix = [], phase = (\<lambda>_. Outside), arrivals = (\<lambda>_. 0),
             passes = (\<lambda>_. 0)\<rparr>)"

definition goto :: "nat \<Rightarrow> bphase \<Rightarrow> bstate \<Rightarrow> bstate" where
  "goto t p s = s\<lparr>phase := (phase s)(t := p)\<rparr>"

definition finish :: "nat \<Rightarrow> bool result \<Rightarrow> bstate \<Rightarrow> bstate" where
  "finish t r s = goto t (Done r) s\<lparr>passes := (passes s)(t := passes s t + 1)\<rparr>"

definition barrier_interrupt :: "bstate \<Rightarrow> bstate" where
  "barrier_interrupt s = s\<lparr>interrupted := True\<rparr>"

text \<open>\<open>reset()\<close> clears the reference to the list, not the list.\<close>

definition barrier_reset :: "nat \<Rightarrow> bstate \<Rightarrow> bstate" where
  "barrier_reset count s =
     s\<lparr>interrupted := False, timed_out := False, threads_left := count, passed_threads := None\<rparr>"

text \<open>The rest of \<open>wait()\<close> behind the loop, up to the release of the mutex.\<close>

definition after_loop :: "bool \<Rightarrow> bool \<Rightarrow> nat \<Rightarrow> bstate \<Rightarrow> bstate" where
  "after_loop waker local_timeout t s =
     (let s1 = (if local_timeout then s\<lparr>timed_out := True\<rparr> else s) in
      if interrupted s1 then finish t (Inl (FawkesException ''InterruptibleBarrier forcefully interrupted'')) s1
      else goto t Leaving (if waker \<or> local_timeout then s1\<lparr>wait_at_barrier := waker\<rparr> else s1))"

text \<open>\<open>wait()\<close> from its beginning to the loop.\<close>

definition enter :: "nat \<Rightarrow> nat \<Rightarrow> bstate \<Rightarrow> bstate" where
  "enter count t s =
     (if threads_left s \<noteq> 0 \<and> (interrupted s \<or> timed_out s) then finish t (Inr True) s
      else
        (let s1 = (if threads_left s = 0
                   then s\<lparr>timed_out := False, interrupted := False, wait_at_barrier := False,
                          threads_left := count, passed_threads := map_option (\<lambda>_. []) (passed_threads s)\<rparr>
                   else s);
             s2 = s1\<lparr>threads_left := threads_left s1 - 1\<rparr>
         in case passed_threads s2 of
              None \<Rightarrow> goto t Crashed s2
            | Some l \<Rightarrow>
                (let s3 = s2\<lparr>passed_threads := Some (l @ [t])\<rparr>
                 in if threads_left s3 = 0 then after_loop True False t s3 else goto t Waiting s3)))"

definition loop_goes_on :: "bstate \<Rightarrow> bool" where
  "loop_goes_on s \<longleftrightarrow> threads_left s \<noteq> 0 \<and> \<not> interrupted s \<and> \<not> timed_out s"

text \<open>\<open>Barrier::wait()\<close>: the POSIX barrier lets a thread in, and lets all out when it is the last.\<close>

definition barrier_wait :: "nat \<Rightarrow> nat \<Rightarrow> bstate \<Rightarrow> bstate" where
  "barrier_wait count t s =
     (if Suc (length (posix s)) = count
      then s\<lparr>posix := [], phase := (\<lambda>u. if u \<in> set (t # posix s) then Returning else phase s u)\<rparr>
      else goto t At_Barrier (s\<lparr>posix := posix s @ [t]\<rparr>))"

section \<open>Steps\<close>

datatype baction =
    Arrive nat | Woken nat | Times_Out nat | Leave nat | Return nat | Interrupt | Reset

fun idle :: "bphase \<Rightarrow> bool" where
  "idle Outside = True"
| "idle (Done r) = True"
| "idle _ = False"

text \<open>The effect of an action, or nothing when it cannot happen.\<close>

fun bact :: "nat \<Rightarrow> (nat \<Rightarrow> bool) \<Rightarrow> baction \<Rightarrow> bstate \<Rightarrow> bstate option" where
  "bact count timed (Arrive t) s =
     (if idle (phase s t) then Some (enter count t (s\<lparr>arrivals := (arrivals s)(t := arrivals s t + 1)\<rparr>))
      else None)"
| "bact count timed (Woken t) s =
     (if phase s t = Waiting \<and> \<not> loop_goes_on s then Some (after_loop False False t s) else None)"
| "bact count timed (Times_Out t) s =
     (if phase s t = Waiting \<and> timed t then Some (after_loop False True t s) else None)"
| "bact count timed (Leave t) s =
     (if phase s t = Leaving
      then Some (if wait_at_barrier s then barrier_wait count t s else goto t Returning s) else None)"
| "bact count timed (Return t) s =
     (if phase s t = Returning then Some (finish t (Inr (\<not> timed_out s)) s) else None)"
| "bact count timed Interrupt s = Some (barrier_interrupt s)"
| "bact count timed Reset s = Some (barrier_reset count s)"

fun brun :: "nat \<Rightarrow> (nat \<Rightarrow> bool) \<Rightarrow> baction list \<Rightarrow> bstate \<Rightarrow> bstate option" where
  "brun count timed [] s = Some s"
| "brun count timed (a # as) s =
     (case bact count timed a s of None \<Rightarrow> None | Some s' \<Rightarrow> brun count timed as s')"

lemma brun_append:
  "brun count timed (as @ bs) s = (case brun count timed as s of None \<Rightarrow> None | Some s' \<Rightarrow> brun count timed bs s')"
  by (induction as arbitrary: s) (auto split: option.splits)

section \<open>Threads that meet, again and again\<close>

text \<open>
  The state while the threads \<open>T\<close> use the barrier without time limits: nobody is inside
  (\<open>fresh\<close>), some of them wait for the others (\<open>collecting\<close>), or all have come
  (\<open>closing\<close>). \<open>k\<close> is the number of the round.
\<close>

definition calm :: "nat set \<Rightarrow> bstate \<Rightarrow> bool" where
  "calm T s \<longleftrightarrow>
     \<not> interrupted s \<and> \<not> timed_out s \<and> (\<forall>t. t \<notin> T \<longrightarrow> phase s t = Outside) \<and>
     (\<forall>t. arrivals s t = passes s t + (if idle (phase s t) then 0 else 1)) \<and>
     (\<forall>t r. phase s t = Done r \<longrightarrow> r = Inr True) \<and> (\<forall>t. phase s t \<noteq> Crashed) \<and>
     (\<forall>t. phase s t = Outside \<longrightarrow> arrivals s t = 0)"

definition collecting :: "nat \<Rightarrow> nat set \<Rightarrow> nat \<Rightarrow> nat list \<Rightarrow> bstate \<Rightarrow> bool" where
  "collecting count T k l s \<longleftrightarrow>
     calm T s \<and> passed_threads s = Some l \<and> distinct l \<and> set l = {t. phase s t = Waiting} \<and>
     length l + threads_left s = count \<and> 0 < threads_left s \<and> posix s = [] \<and>
     (\<forall>t. phase s t \<noteq> Leaving \<and> phase s t \<noteq> At_Barrier) \<and>
     (\<forall>t\<in>T. arrivals s t = (if phase s t = Waiting then Suc k else k))"

definition fresh :: "nat set \<Rightarrow> nat \<Rightarrow> bstate \<Rightarrow> bool" where
  "fresh T k s \<longleftrightarrow>
     calm T s \<and> passed_threads s \<noteq> None \<and> threads_left s = 0 \<and> posix s = [] \<and>
     (\<forall>t. phase s t \<noteq> Waiting \<and> phase s t \<noteq> Leaving \<and> phase s t \<noteq> At_Barrier) \<and>
     (\<forall>t\<in>T. arrivals s t = k)"

definition closing :: "nat set \<Rightarrow> nat \<Rightarrow> bstate \<Rightarrow> bool" where
  "closing T k s \<longleftrightarrow>
     calm T s \<and> (\<exists>l. passed_threads s = Some l \<and> distinct l \<and> set l = T) \<and> threads_left s = 0 \<and>
     wait_at_barrier s \<and> (\<forall>t\<in>T. phase s t \<in> {Waiting, Leaving, At_Barrier}) \<and>
     distinct (posix s) \<and> set (posix s) = {t. phase s t = At_Barrier} \<and> (\<exists>t\<in>T. phase s t \<noteq> At_Barrier) \<and>
     (\<forall>t\<in>T. arrivals s t = k)"

lemma calmD:
  assumes "calm T s"
  shows "\<not> interrupted s" "\<not> timed_out s" "t \<notin> T \<Longrightarrow> phase s t = Outside"
    "phase s t = Done r \<Longrightarrow> r = Inr True" "phase s t \<noteq> Crashed"
    "arrivals s t = passes s t + (if idle (phase s t) then 0 else 1)"
    "phase s t = Outside \<Longrightarrow> arrivals s t = 0"
  using assms unfolding calm_def by blast+

lemma in_T: "calm T s \<Longrightarrow> \<not> idle (phase s t) \<Longrightarrow> t \<in> T"
  using calmD(3) by fastforce

text \<open>A thread comes.\<close>

definition joins :: "nat \<Rightarrow> nat list \<Rightarrow> bstate \<Rightarrow> bstate" where
  "joins t l s =
     s\<lparr>arrivals := (arrivals s)(t := arrivals s t + 1), threads_left := threads_left s - 1,
       passed_threads := Some (l @ [t])\<rparr>"

lemma enter_joins:
  assumes "collecting count T k l s"
  shows "enter count t (s\<lparr>arrivals := (arrivals s)(t := arrivals s t + 1)\<rparr>) =
    (if threads_left s = 1 then goto t Leaving (joins t l s\<lparr>wait_at_barrier := True\<rparr>)
     else goto t Waiting (joins t l s))"
  using assms by (auto simp: enter_def collecting_def calm_def joins_def goto_def after_loop_def Let_def)

lemma collecting_join:
  assumes "collecting count T k l s" and "idle (phase s t)" and "t \<in> T" and "threads_left s \<noteq> 1"
  shows "collecting count T k (l @ [t]) (goto t Waiting (joins t l s))"
proof -
  have "calm T (goto t Waiting (joins t l s))"
    using assms by (auto simp: collecting_def calm_def goto_def joins_def)
  moreover have "t \<notin> set l" "set l = {u. phase s u = Waiting}"
    using assms(1,2) by (auto simp: collecting_def)
  ultimately show ?thesis
    using assms by (auto simp: collecting_def goto_def joins_def)
qed

lemma collecting_last:
  assumes "collecting count T k l s" and "idle (phase s t)" and "t \<in> T" and "threads_left s = 1"
    and T: "finite T" "card T = count"
  shows "closing T (Suc k) (goto t Leaving (joins t l s\<lparr>wait_at_barrier := True\<rparr>))"
proof -
  have l: "t \<notin> set l" "set l = {u. phase s u = Waiting}" "distinct l" "Suc (length l) = count"
    using assms(1,2,4) by (auto simp: collecting_def)
  have "calm T s"
    using assms(1) by (simp add: collecting_def)
  then have "insert t (set l) \<subseteq> T"
    using assms(3) l(2) in_T [of T s] by auto
  moreover have "card (insert t (set l)) = card T"
    using l(1,4) distinct_card [OF l(3)] T(2) by simp
  ultimately have all: "insert t (set l) = T"
    using T(1) by (simp add: card_subset_eq)
  have "calm T (goto t Leaving (joins t l s\<lparr>wait_at_barrier := True\<rparr>))"
    using assms by (auto simp: collecting_def calm_def goto_def joins_def)
  moreover have "phase s u = Waiting" if "u \<in> T" "u \<noteq> t" for u
    using that all l(2) by auto
  ultimately show ?thesis
    using assms all l by (auto simp: collecting_def closing_def goto_def joins_def)
qed

lemma fresh_open:
  assumes "fresh T k s" and "idle (phase s t)" and "0 < count"
  shows "collecting count T k [] (s\<lparr>wait_at_barrier := False, threads_left := count, passed_threads := Some []\<rparr>)"
    and "enter count t (s\<lparr>arrivals := (arrivals s)(t := arrivals s t + 1)\<rparr>) =
      enter count t (s\<lparr>wait_at_barrier := False, threads_left := count, passed_threads := Some [],
        arrivals := (arrivals s)(t := arrivals s t + 1)\<rparr>)"
proof -
  show "collecting count T k [] (s\<lparr>wait_at_barrier := False, threads_left := count, passed_threads := Some []\<rparr>)"
    using assms by (auto simp: fresh_def collecting_def calm_def)
  show "enter count t (s\<lparr>arrivals := (arrivals s)(t := arrivals s t + 1)\<rparr>) =
      enter count t (s\<lparr>wait_at_barrier := False, threads_left := count, passed_threads := Some [],
        arrivals := (arrivals s)(t := arrivals s t + 1)\<rparr>)"
    using assms by (cases s) (auto simp: fresh_def calm_def enter_def)
qed

text \<open>The rounds, for a barrier that is used by \<open>T\<close>.\<close>

definition in_round :: "nat \<Rightarrow> nat set \<Rightarrow> bstate \<Rightarrow> bool" where
  "in_round count T s \<longleftrightarrow> (\<exists>k. (\<exists>l. collecting count T k l s) \<or> fresh T k s \<or> closing T k s)"

lemma arrive_round:
  assumes "in_round count T s" and "idle (phase s t)" and "t \<in> T" and "finite T" and "card T = count"
  shows "in_round count T (enter count t (s\<lparr>arrivals := (arrivals s)(t := arrivals s t + 1)\<rparr>))"
proof -
  have count: "0 < count"
    using assms(3-5) card_gt_0_iff by blast
  have joined: "in_round count T (enter count t (s\<lparr>arrivals := (arrivals s)(t := arrivals s t + 1)\<rparr>))"
    if "collecting count T k l s" "idle (phase s t)" for k l s
    using collecting_join [OF that assms(3)] collecting_last [OF that assms(3) _ assms(4,5)]
    unfolding enter_joins [OF that(1)] in_round_def by (cases "threads_left s = 1") auto
  obtain k where "(\<exists>l. collecting count T k l s) \<or> fresh T k s \<or> closing T k s"
    using assms(1) unfolding in_round_def by blast
  then consider l where "collecting count T k l s" | "fresh T k s" | "closing T k s"
    by blast
  then show ?thesis
  proof cases
    case 1
    then show ?thesis by (rule joined [OF _ assms(2)])
  next
    case 2
    have "s\<lparr>wait_at_barrier := False, threads_left := count, passed_threads := Some [],
        arrivals := (arrivals s)(t := arrivals s t + 1)\<rparr> =
      (s\<lparr>wait_at_barrier := False, threads_left := count, passed_threads := Some []\<rparr>)
        \<lparr>arrivals := (arrivals s)(t := arrivals s t + 1)\<rparr>" by simp
    then show ?thesis
      using joined [OF fresh_open(1) [OF 2 assms(2) count]] fresh_open(2) [OF 2 assms(2) count] assms(2) by simp
  next
    case 3
    then show ?thesis using assms(2,3) by (auto simp: closing_def)
  qed
qed

lemma closing_steps:
  assumes "closing T k s" and "finite T" and "card T = count"
  shows "phase s t = Waiting \<Longrightarrow> closing T k (after_loop False False t s)"
    and "phase s t = Leaving \<Longrightarrow> closing T k (barrier_wait count t s) \<or> fresh T k (barrier_wait count t s)"
proof -
  assume t: "phase s t = Waiting"
  then have "t \<in> T"
    using assms(1) in_T [of T s t] by (simp add: closing_def)
  then show "closing T k (after_loop False False t s)"
    using t assms(1) by (auto simp: closing_def calm_def after_loop_def goto_def)
next
  assume t: "phase s t = Leaving"
  have c: "calm T s" "distinct (posix s)" "set (posix s) = {t. phase s t = At_Barrier}" "threads_left s = 0"
      "\<forall>t\<in>T. phase s t \<in> {Waiting, Leaving, At_Barrier}" "\<forall>t\<in>T. arrivals s t = k"
    using assms(1) by (auto simp: closing_def)
  then have tT: "t \<in> T" "t \<notin> set (posix s)"
    using t in_T [of T s t] by auto
  have sub: "set (posix s) \<subseteq> T"
    using c(1,3) in_T [of T s] by auto
  show "closing T k (barrier_wait count t s) \<or> fresh T k (barrier_wait count t s)"
  proof (cases "Suc (length (posix s)) = count")
    case True
    then have "card (insert t (set (posix s))) = card T"
      using tT(2) distinct_card [OF c(2)] assms(3) by simp
    then have all: "insert t (set (posix s)) = T"
      using card_subset_eq [OF assms(2)] tT(1) sub by blast
    have "(\<lambda>u. if u \<in> set (t # posix s) then Returning else phase s u) = (\<lambda>u. if u \<in> T then Returning else Outside)"
      using all calmD(3) [OF c(1)] by (intro ext) auto
    then have s': "barrier_wait count t s = s\<lparr>posix := [], phase := (\<lambda>u. if u \<in> T then Returning else Outside)\<rparr>"
      using True by (simp add: barrier_wait_def)
    have "\<not> idle (phase s u)" if "u \<in> T" for u
      using c(5) that by auto
    then have "arrivals s u = passes s u + (if u \<in> T then 1 else 0)" for u
      using calmD(6) [OF c(1), of u] calmD(3) [OF c(1), of u] by auto
    then have "calm T (barrier_wait count t s)"
      using calmD(1,2) [OF c(1)] calmD(3,7) [OF c(1)] unfolding s' by (simp add: calm_def)
    moreover have "passed_threads s \<noteq> None"
      using assms(1) by (auto simp: closing_def)
    ultimately have "fresh T k (barrier_wait count t s)"
      using c(4,6) by (simp add: fresh_def s')
    then show ?thesis ..
  next
    case False
    have "insert t (set (posix s)) \<noteq> T"
      using False tT(2) distinct_card [OF c(2)] assms(3) by auto
    then have "\<exists>u\<in>T. u \<noteq> t \<and> phase s u \<noteq> At_Barrier"
      using sub tT(1) c(3) by auto
    then have "closing T k (barrier_wait count t s)"
      using False c tT assms(1) t by (auto simp: closing_def calm_def barrier_wait_def goto_def)
    then show ?thesis ..
  qed
qed

lemma finish_calm: "calm T s \<Longrightarrow> phase s t = Returning \<Longrightarrow> calm T (finish t (Inr (\<not> timed_out s)) s)"
  by (auto simp: calm_def finish_def goto_def)

lemma return_round:
  assumes "in_round count T s" and "phase s t = Returning"
  shows "in_round count T (finish t (Inr (\<not> timed_out s)) s)"
proof -
  obtain k where "(\<exists>l. collecting count T k l s) \<or> fresh T k s \<or> closing T k s"
    using assms(1) unfolding in_round_def by blast
  then consider l where "collecting count T k l s" | "fresh T k s" | "closing T k s"
    by blast
  then show ?thesis
  proof cases
    case 1
    then have "collecting count T k l (finish t (Inr (\<not> timed_out s)) s)"
      using assms(2) finish_calm [of T s t] by (auto simp: collecting_def finish_def goto_def)
    then show ?thesis unfolding in_round_def by blast
  next
    case 2
    then have "fresh T k (finish t (Inr (\<not> timed_out s)) s)"
      using assms(2) finish_calm [of T s t] by (auto simp: fresh_def finish_def goto_def)
    then show ?thesis unfolding in_round_def by blast
  next
    case 3
    then show ?thesis
      using assms(2) in_T [of T s t] by (fastforce simp: closing_def)
  qed
qed

text \<open>The actions of threads of \<open>T\<close>, which have no time limit.\<close>

fun plain :: "nat set \<Rightarrow> baction \<Rightarrow> bool" where
  "plain T (Arrive t) = (t \<in> T)"
| "plain T Interrupt = False"
| "plain T Reset = False"
| "plain T _ = True"

lemma step_round:
  assumes "in_round count T s" and "bact count (\<lambda>t. False) a s = Some s'" and "plain T a"
    and "finite T" and "card T = count"
  shows "in_round count T s'"
proof -
  obtain k where k: "(\<exists>l. collecting count T k l s) \<or> fresh T k s \<or> closing T k s"
    using assms(1) unfolding in_round_def by blast
  have closing: "closing T k s" if "phase s t = Waiting \<and> \<not> loop_goes_on s \<or> phase s t = Leaving" for t
    using k that by (auto simp: collecting_def fresh_def calm_def loop_goes_on_def)
  show ?thesis
  proof (cases a)
    case (Arrive t)
    then show ?thesis
      using assms(2,3) arrive_round [OF assms(1) _ _ assms(4,5), of t] by (auto split: if_splits)
  next
    case (Woken t)
    then show ?thesis
      using assms(2) closing_steps(1) [OF closing assms(4,5)] unfolding in_round_def
      by (auto split: if_splits)
  next
    case (Leave t)
    then show ?thesis
      using assms(2) closing_steps(2) [OF closing assms(4,5), of t t] closing [of t] unfolding in_round_def
      by (auto simp: closing_def split: if_splits)
  next
    case (Return t)
    then show ?thesis
      using assms(2) return_round [OF assms(1)] by (auto split: if_splits)
  qed (use assms(2,3) in auto)
qed

lemma run_round:
  "\<lbrakk> in_round count T s; brun count (\<lambda>t. False) as s = Some s'; list_all (plain T) as; finite T; card T = count \<rbrakk>
   \<Longrightarrow> in_round count T s'"
proof (induction as arbitrary: s)
  case (Cons a as)
  obtain s1 where "bact count (\<lambda>t. False) a s = Some s1" "brun count (\<lambda>t. False) as s1 = Some s'"
    using Cons.prems(2) by (auto split: option.splits)
  then show ?case
    using Cons.IH [of s1] step_round [of count T s a s1] Cons.prems by simp
qed simp

lemma new_round: "barrier_new count = Inr s \<Longrightarrow> in_round count T s"
  by (auto simp: barrier_new_def in_round_def fresh_def calm_def split: if_splits)

text \<open>
  C19. No thread overtakes the others at the barrier. Used again and again by as many threads as
  it was made for, without time limits and interrupts: when a thread's n-th call of \<open>wait()\<close> has
  returned, every other thread has made its n-th call; every call returns true; and when all have
  come, the list of threads that passed holds each of them once.
\<close>

theorem nobody_overtakes:
  assumes "barrier_new count = Inr s0" and "finite T" and "card T = count"
    and "brun count (\<lambda>t. False) as s0 = Some s" and "list_all (plain T) as" and "t \<in> T" and "u \<in> T"
  shows "passes s t \<le> arrivals s u \<and> (\<forall>r. phase s t = Done r \<longrightarrow> r = Inr True) \<and>
    (wait_at_barrier s \<and> phase s t \<in> {Leaving, At_Barrier} \<longrightarrow>
       (\<exists>l. passed_threads s = Some l \<and> distinct l \<and> set l = T))"
proof -
  obtain k where k: "(\<exists>l. collecting count T k l s) \<or> fresh T k s \<or> closing T k s"
    using run_round [OF new_round [OF assms(1)] assms(4,5,2,3)] unfolding in_round_def by blast
  then have calm: "calm T s" and a: "\<forall>v\<in>T. arrivals s v \<in> {k, Suc k} \<and> (arrivals s v = Suc k \<longrightarrow> phase s v = Waiting)"
    by (auto simp: collecting_def fresh_def closing_def split: if_splits)
  have "passes s t \<le> k"
    using calmD(6) [OF calm, of t] bspec [OF a assms(6)] by (cases "phase s t") auto
  moreover have "k \<le> arrivals s u"
    using bspec [OF a assms(7)] by auto
  ultimately have "passes s t \<le> arrivals s u"
    by simp
  moreover have "\<exists>l. passed_threads s = Some l \<and> distinct l \<and> set l = T" if "phase s t \<in> {Leaving, At_Barrier}"
    using k that by (auto simp: collecting_def fresh_def closing_def)
  ultimately show ?thesis
    using calmD(4) [OF calm] by blast
qed

text \<open>The steps of threads that have entered, and how far they are from the end of the call.\<close>

fun inside :: "baction \<Rightarrow> bool" where
  "inside (Woken t) = True"
| "inside (Leave t) = True"
| "inside (Return t) = True"
| "inside _ = False"

fun rank :: "bphase \<Rightarrow> nat" where
  "rank Waiting = 4"
| "rank Leaving = 3"
| "rank At_Barrier = 2"
| "rank Returning = 1"
| "rank _ = 0"

definition ranks :: "nat set \<Rightarrow> bstate \<Rightarrow> nat" where
  "ranks T s = (\<Sum>t\<in>T. rank (phase s t))"

lemma ranks_less:
  assumes "finite T" and "t \<in> T" and "rank (phase s' t) < rank (phase s t)"
    and "\<And>u. rank (phase s' u) \<le> rank (phase s u)"
  shows "ranks T s' < ranks T s"
  unfolding ranks_def using assms by (intro sum_strict_mono_ex1) auto

lemma inside_step:
  assumes "in_round count T s" and "bact count (\<lambda>t. False) a s = Some s'" and "inside a"
    and "finite T" and "card T = count"
  shows "ranks T s' < ranks T s \<and> arrivals s' = arrivals s"
proof -
  obtain k where k: "(\<exists>l. collecting count T k l s) \<or> fresh T k s \<or> closing T k s"
    using assms(1) unfolding in_round_def by blast
  then have calm: "calm T s"
    by (auto simp: collecting_def fresh_def closing_def)
  have phases: "\<And>u. u \<in> set (posix s) \<Longrightarrow> phase s u = At_Barrier"
    using k by (auto simp: collecting_def fresh_def closing_def)
  have T: "phase s t \<in> {Waiting, Leaving, Returning} \<Longrightarrow> t \<in> T" for t
    using in_T [OF calm, of t] by auto
  show ?thesis
  proof (cases a)
    case (Woken t)
    then have "phase s t = Waiting" "s' = goto t Leaving s"
      using assms(2) calmD(1) [OF calm] by (auto simp: after_loop_def split: if_splits)
    then show ?thesis
      using T [of t] ranks_less [OF assms(4), of t s' s] by (simp add: goto_def)
  next
    case (Leave t)
    then have t: "phase s t = Leaving"
      and s': "s' = (if wait_at_barrier s then barrier_wait count t s else goto t Returning s)"
      using assms(2) by (auto split: if_splits)
    have "rank (phase s' t) < rank (phase s t)" "rank (phase s' u) \<le> rank (phase s u)" for u
      using t phases [of u] by (auto simp: s' barrier_wait_def goto_def)
    then show ?thesis
      using t T [of t] ranks_less [OF assms(4), of t s' s] s' by (simp add: barrier_wait_def goto_def)
  next
    case (Return t)
    then have "phase s t = Returning" "s' = finish t (Inr (\<not> timed_out s)) s"
      using assms(2) by (auto split: if_splits)
    then show ?thesis
      using T [of t] ranks_less [OF assms(4), of t s' s] by (simp add: finish_def goto_def)
  qed (use assms(3) in auto)
qed

lemma inside_plain: "inside a \<Longrightarrow> plain T a"
  by (cases a) auto

lemma inside_run:
  "\<lbrakk> in_round count T s; brun count (\<lambda>t. False) bs s = Some s'; list_all inside bs; finite T; card T = count \<rbrakk>
   \<Longrightarrow> ranks T s' + length bs \<le> ranks T s \<and> arrivals s' = arrivals s \<and> in_round count T s'"
proof (induction bs arbitrary: s)
  case (Cons b bs)
  obtain s1 where s1: "bact count (\<lambda>t. False) b s = Some s1" "brun count (\<lambda>t. False) bs s1 = Some s'"
    using Cons.prems(2) by (auto split: option.splits)
  then show ?case
    using Cons.IH [of s1] inside_step [of count T s b s1] step_round [of count T s b s1] Cons.prems
      inside_plain [of b T] by fastforce
qed simp

lemma stuck_done:
  assumes "in_round count T s" and "finite T" and "card T = count" and "\<forall>u\<in>T. arrivals s u = n"
    and "\<forall>a. inside a \<longrightarrow> bact count (\<lambda>t. False) a s = None" and "t \<in> T" and "0 < n"
  shows "phase s t = Done (Inr True) \<and> passes s t = n"
proof -
  obtain k where k: "(\<exists>l. collecting count T k l s) \<or> fresh T k s \<or> closing T k s"
    using assms(1) unfolding in_round_def by blast
  then have calm: "calm T s"
    by (auto simp: collecting_def fresh_def closing_def)
  have no: "phase s u \<noteq> Leaving" "phase s u \<noteq> Returning" "phase s u = Waiting \<Longrightarrow> loop_goes_on s" for u
    using spec [OF assms(5), of "Leave u"] spec [OF assms(5), of "Return u"] spec [OF assms(5), of "Woken u"]
    by (auto split: if_splits)
  have "\<not> closing T k s"
  proof
    assume c: "closing T k s"
    then obtain u where "phase s u = Waiting \<or> phase s u = Leaving"
      unfolding closing_def by blast
    then show False
      using c no(1,3) [of u] by (auto simp: closing_def loop_goes_on_def)
  qed
  moreover have "phase s t \<noteq> Waiting" if "collecting count T k l s" for l
  proof
    assume "phase s t = Waiting"
    then have "n = Suc k"
      using that assms(4,6) by (auto simp: collecting_def)
    then have "\<forall>u\<in>T. phase s u = Waiting"
      using that assms(4) by (auto simp: collecting_def split: if_splits)
    then have "T \<subseteq> set l" "length l < count" "distinct l"
      using that by (auto simp: collecting_def)
    then show False
      using card_mono [of "set l" T] distinct_card [of l] assms(3) by simp
  qed
  ultimately have "idle (phase s t)"
    using k no(1,2) [of t] calmD(5) [OF calm, of t]
    by (cases "phase s t") (auto simp: collecting_def fresh_def)
  then show ?thesis
    using calmD(4,6,7) [OF calm, of t] bspec [OF assms(4,6)] assms(7) by (cases "phase s t") auto
qed

lemma ranks_bound: "ranks T s \<le> 4 * card T"
proof -
  have "rank p \<le> 4" for p
    by (cases p) auto
  then show ?thesis
    using sum_bounded_above [of T "\<lambda>t. rank (phase s t)" 4] by (simp add: ranks_def)
qed


section \<open>Time limits, interrupts and reset\<close>

text \<open>
  A late time limit strands a thread. Two threads use a new barrier, the first with a time
  limit. It is possible that the second one comes in time, is counted as passed and goes on to
  the POSIX barrier, while the first one, whose time ran out before it got the mutex, takes the
  flag back and returns false. From then on, whatever happens short of a new call of \<open>wait()\<close>,
  also an interrupt, the second thread stays in the POSIX barrier.
\<close>

theorem late_timeout_strands:
  "\<exists>s0 s. barrier_new 2 = Inr s0 \<and>
     brun 2 (\<lambda>t. t = 0) [Arrive 0, Arrive 1, Leave 1, Times_Out 0, Leave 0, Return 0] s0 = Some s \<and>
     phase s 0 = Done (Inr False) \<and> passed_threads s = Some [0, 1] \<and>
     (\<forall>bs s'. (\<forall>t. Arrive t \<notin> set bs) \<longrightarrow> brun 2 (\<lambda>t. t = 0) bs s = Some s' \<longrightarrow> phase s' 1 = At_Barrier)"
proof -
  define s0 :: bstate where "s0 = \<lparr>threads_left = 0, interrupted = False, timed_out = False, wait_at_barrier = False,
    passed_threads = Some [], posix = [], phase = (\<lambda>_. Outside), arrivals = (\<lambda>_. 0), passes = (\<lambda>_. 0)\<rparr>"
  have s0: "barrier_new 2 = Inr s0"
    by (simp add: barrier_new_def s0_def)
  let ?as = "[Arrive 0, Arrive 1, Leave 1, Times_Out 0, Leave 0, Return 0]"
  have "case brun 2 (\<lambda>t. t = 0) ?as s0 of None \<Rightarrow> False | Some s \<Rightarrow> phase s 0 = Done (Inr False) \<and>
      passed_threads s = Some [0, 1] \<and> phase s 1 = At_Barrier \<and> (\<forall>t. t \<noteq> 1 \<longrightarrow> idle (phase s t))"
    by (simp add: s0_def enter_def after_loop_def goto_def finish_def barrier_wait_def)
  then obtain s where s: "brun 2 (\<lambda>t. t = 0) ?as s0 = Some s" "phase s 0 = Done (Inr False)"
      "passed_threads s = Some [0, 1]" "phase s 1 = At_Barrier" "\<forall>t. t \<noteq> 1 \<longrightarrow> idle (phase s t)"
    by (cases "brun 2 (\<lambda>t. t = 0) ?as s0") simp_all
  have "phase s' 1 = At_Barrier"
    if "\<forall>t. Arrive t \<notin> set bs" "brun 2 (\<lambda>t. t = 0) bs s = Some s'" for bs s'
  proof -
    have "phase s' 1 = At_Barrier \<and> (\<forall>t. t \<noteq> 1 \<longrightarrow> idle (phase s' t))"
      using that s(4,5)
    proof (induction bs arbitrary: s)
      case (Cons b bs)
      obtain s1 where s1: "bact 2 (\<lambda>t. t = 0) b s = Some s1" "brun 2 (\<lambda>t. t = 0) bs s1 = Some s'"
        using Cons.prems(2) by (auto split: option.splits)
      have "idle (phase s t) \<Longrightarrow> phase s t \<notin> {Waiting, Leaving, Returning}" for t
        by auto
      then have "phase s t \<notin> {Waiting, Leaving, Returning}" for t
        using Cons.prems(3,4) by (cases "t = 1") auto
      then have "phase s1 = phase s"
        using s1(1) Cons.prems(1)
        by (cases b) (auto simp: barrier_interrupt_def barrier_reset_def split: if_splits)
      then show ?case
        using Cons.IH [of s1] s1(2) Cons.prems by simp
    qed simp
    then show ?thesis ..
  qed
  then show ?thesis
    using s0 s(1-3) by blast
qed

text \<open>
  A barrier that was reset cannot be used again: \<open>reset()\<close> empties the reference to the list
  of passed threads, and the next thread that calls \<open>wait()\<close> goes through that reference.
\<close>

theorem wait_after_reset_crashes:
  assumes "0 < count" and "idle (phase s t)"
  shows "\<exists>s'. brun count timed [Reset, Arrive t] s = Some s' \<and> phase s' t = Crashed"
  using assms by (simp add: barrier_reset_def enter_def goto_def)

text \<open>
  After an interrupt, every thread that waits throws when it is woken, and a thread that comes
  while others are still missing returns true at once.
\<close>

lemma interrupt_throws:
  assumes "phase s t = Waiting"
  shows "\<exists>s' x. brun count timed [Interrupt, Woken t] s = Some s' \<and> phase s' t = Done (Inl x)"
  using assms by (simp add: barrier_interrupt_def loop_goes_on_def after_loop_def finish_def goto_def)

lemma interrupted_lets_pass:
  assumes "threads_left s \<noteq> 0" and "idle (phase s t)"
  shows "\<exists>s'. brun count timed [Interrupt, Arrive t] s = Some s' \<and> phase s' t = Done (Inr True)"
  using assms by (simp add: barrier_interrupt_def enter_def finish_def goto_def)

section \<open>Two threads\<close>

definition demo_barrier :: bstate where
  "demo_barrier = \<lparr>threads_left = 0, interrupted = False, timed_out = False, wait_at_barrier = False,
     passed_threads = Some [], posix = [], phase = (\<lambda>_. Outside), arrivals = (\<lambda>_. 0), passes = (\<lambda>_. 0)\<rparr>"

lemma demo_barrier_new: "barrier_new 2 = Inr demo_barrier"
  by (simp add: barrier_new_def demo_barrier_def)

lemmas demo_unfold = demo_barrier_def enter_def after_loop_def goto_def finish_def barrier_wait_def loop_goes_on_def

theorem nobody_overtakes_witness:
  "\<exists>s. brun 2 (\<lambda>t. False) [Arrive 0, Arrive 1, Leave 1, Woken 0, Leave 0, Return 1] demo_barrier = Some s \<and>
     passes s 1 = 1 \<and> passes s 1 \<le> arrivals s 0"
proof -
  let ?as = "[Arrive 0, Arrive 1, Leave 1, Woken 0, Leave 0, Return 1]"
  have "case brun 2 (\<lambda>t. False) ?as demo_barrier of None \<Rightarrow> False | Some s \<Rightarrow> passes s 1 = 1"
    by (simp add: demo_unfold)
  then obtain s where s: "brun 2 (\<lambda>t. False) ?as demo_barrier = Some s" "passes s 1 = 1"
    by (cases "brun 2 (\<lambda>t. False) ?as demo_barrier") simp_all
  have "passes s 1 \<le> arrivals s 0"
    using nobody_overtakes [OF demo_barrier_new, of "{0, 1}" ?as s 1 0] s(1) by simp
  then show ?thesis
    using s by blast
qed


theorem late_timeout_strands_witness:
  "\<exists>s0 s. barrier_new 2 = Inr s0 \<and>
     brun 2 (\<lambda>t. t = 0) [Arrive 0, Arrive 1, Leave 1, Times_Out 0, Leave 0, Return 0] s0 = Some s \<and>
     (\<exists>s'. brun 2 (\<lambda>t. t = 0) [Interrupt] s = Some s' \<and> phase s' 1 = At_Barrier)"
proof -
  obtain s0 s where s: "barrier_new 2 = Inr s0"
      "brun 2 (\<lambda>t. t = 0) [Arrive 0, Arrive 1, Leave 1, Times_Out 0, Leave 0, Return 0] s0 = Some s"
    and stays: "\<forall>bs s'. (\<forall>t. Arrive t \<notin> set bs) \<longrightarrow> brun 2 (\<lambda>t. t = 0) bs s = Some s' \<longrightarrow> phase s' 1 = At_Barrier"
    using late_timeout_strands by blast
  have i: "brun 2 (\<lambda>t. t = 0) [Interrupt] s = Some (barrier_interrupt s)"
    by simp
  have "phase (barrier_interrupt s) 1 = At_Barrier"
    by (rule stays [rule_format, OF _ i]) simp
  then show ?thesis
    using s i by blast
qed

theorem wait_after_reset_crashes_witness:
  "\<exists>s'. brun 2 (\<lambda>t. False) [Reset, Arrive 0] demo_barrier = Some s' \<and> phase s' 0 = Crashed"
  by (rule wait_after_reset_crashes) (simp_all add: demo_barrier_def)

end
