(* ===== verification/References.thy ===== *)
theory References imports Prelude "HOL-Library.Multiset"
begin

text \<open>
  Counted references, \<open>RefPtr\<close> of \<open>src/libs/core/utils/refptr.h\<close> (\<open>LockPtr\<close> is the same
  with one more mutex): the counter and its mutex live in a block on the heap that all references
  to an object share. The mutex makes every access to the counter one step. Destructors of the
  objects are not modelled; that an object is deleted is logged.
\<close>

section \<open>References and blocks\<close>

record ref =
  cpp_object :: "nat option"
  ref_block :: "nat option"

text \<open>
  The counters of the blocks that exist, the address of the next block, and the objects that were
  deleted, in order.
\<close>

record rheap =
  ref_count :: "nat \<Rightarrow> nat option"
  next_block :: nat
  deleted :: "nat list"

definition ref_empty :: ref where
  "ref_empty = \<lparr>cpp_object = None, ref_block = None\<rparr>"

text \<open>The body of the copy constructors.\<close>

definition acquire :: "ref \<Rightarrow> rheap \<Rightarrow> rheap mutation" where
  "acquire r h =
     (case (cpp_object r, ref_block r) of
        (Some _, Some b) \<Rightarrow>
          (case ref_count h b of
             None \<Rightarrow> throwing (UndefinedBehaviour ''the counter was deleted'') h
           | Some n \<Rightarrow> ok (h\<lparr>ref_count := (ref_count h)(b \<mapsto> n + 1)\<rparr>))
      | _ \<Rightarrow> ok h)"

text \<open>The destructor. A counter that is 0 would wrap around; it is never met.\<close>

definition release :: "ref \<Rightarrow> rheap \<Rightarrow> rheap mutation" where
  "release r h =
     (case ref_block r of
        None \<Rightarrow> ok h
      | Some b \<Rightarrow>
          (case ref_count h b of
             None \<Rightarrow> throwing (UndefinedBehaviour ''the counter was deleted'') h
           | Some n \<Rightarrow>
               if n = 0 then throwing (UndefinedBehaviour ''the counter is 0'') h
               else if n - 1 = 0
               then ok (h\<lparr>ref_count := (ref_count h)(b := None),
                          deleted := deleted h @ (case cpp_object r of None \<Rightarrow> [] | Some p \<Rightarrow> [p])\<rparr>)
               else ok (h\<lparr>ref_count := (ref_count h)(b \<mapsto> n - 1)\<rparr>)))"

text \<open>The constructor that takes ownership of an object.\<close>

definition ref_new :: "nat option \<Rightarrow> rheap \<Rightarrow> rheap \<times> ref" where
  "ref_new p h =
     (if p = None then (h, ref_empty)
      else (h\<lparr>ref_count := (ref_count h)(next_block h \<mapsto> 1), next_block := next_block h + 1\<rparr>,
            \<lparr>cpp_object = p, ref_block = Some (next_block h)\<rparr>))"

definition use_count :: "ref \<Rightarrow> rheap \<Rightarrow> nat result" where
  "use_count r h =
     (case ref_block r of
        None \<Rightarrow> Inl (UndefinedBehaviour ''no counter'')
      | Some b \<Rightarrow> (case ref_count h b of None \<Rightarrow> Inl (UndefinedBehaviour ''the counter was deleted'') | Some n \<Rightarrow> Inr n))"

section \<open>Variables\<close>

text \<open>The variables of a program, those that have been destroyed being \<open>None\<close>.\<close>

record rprog =
  vars :: "ref option list"
  rheap_of :: rheap

definition rprog_new :: rprog where
  "rprog_new = \<lparr>vars = [], rheap_of = \<lparr>ref_count = Map.empty, next_block = 0, deleted = []\<rparr>\<rparr>"

definition alive :: "nat \<Rightarrow> rprog \<Rightarrow> bool" where
  "alive i s \<longleftrightarrow> i < length (vars s) \<and> vars s ! i \<noteq> None"

definition ref_at :: "nat \<Rightarrow> rprog \<Rightarrow> ref" where
  "ref_at i s = the (vars s ! i)"

definition on_heap :: "(rheap \<Rightarrow> rheap mutation) \<Rightarrow> rprog \<Rightarrow> rprog mutation" where
  "on_heap f s = (case f (rheap_of s) of (h, x) \<Rightarrow> (s\<lparr>rheap_of := h\<rparr>, x))"

definition declared :: "ref \<Rightarrow> rprog \<Rightarrow> rprog" where
  "declared r s = s\<lparr>vars := vars s @ [Some r]\<rparr>"

definition set_var :: "nat \<Rightarrow> ref option \<Rightarrow> rprog \<Rightarrow> rprog" where
  "set_var i r s = s\<lparr>vars := (vars s)[i := r]\<rparr>"

text \<open>
  The operations. The assignments and \<open>clear()\<close> make a temporary, swap it with the variable and
  destroy it.
\<close>

datatype rop =
    Make_Empty | Make_Raw "nat option" | Make_Copy nat | Cast_Dynamic bool nat | Assign_Copy nat nat
  | Assign_Raw nat "nat option" | Clear nat | Swap nat nat | Destroy nat

fun ref_op :: "rop \<Rightarrow> rprog \<Rightarrow> rprog mutation" where
  "ref_op Make_Empty s = ok (declared ref_empty s)"
| "ref_op (Make_Raw p) s =
     (case ref_new p (rheap_of s) of (h, r) \<Rightarrow> ok (declared r (s\<lparr>rheap_of := h\<rparr>)))"
| "ref_op (Make_Copy i) s = andThen (on_heap (acquire (ref_at i s)) s) (\<lambda>s1. ok (declared (ref_at i s) s1))"
| "ref_op (Cast_Dynamic works i) s =
     (if works \<and> cpp_object (ref_at i s) \<noteq> None
      then andThen (on_heap (acquire (ref_at i s)) s) (\<lambda>s1. ok (declared (ref_at i s) s1))
      else ok (declared ref_empty s))"
| "ref_op (Assign_Copy i j) s =
     andThen (on_heap (acquire (ref_at j s)) s)
       (\<lambda>s1. on_heap (release (ref_at i s1)) (set_var i (Some (ref_at j s1)) s1))"
| "ref_op (Assign_Raw i p) s =
     (case ref_new p (rheap_of s) of (h, r) \<Rightarrow>
        on_heap (release (ref_at i s)) (set_var i (Some r) (s\<lparr>rheap_of := h\<rparr>)))"
| "ref_op (Clear i) s = on_heap (release (ref_at i s)) (set_var i (Some ref_empty) s)"
| "ref_op (Swap i j) s = ok (set_var j (Some (ref_at i s)) (set_var i (Some (ref_at j s)) s))"
| "ref_op (Destroy i) s = on_heap (release (ref_at i s)) (set_var i None s)"

text \<open>What a program may do: use variables that exist.\<close>

fun rop_ok :: "rop \<Rightarrow> rprog \<Rightarrow> bool" where
  "rop_ok (Make_Copy i) s = alive i s"
| "rop_ok (Cast_Dynamic w i) s = alive i s"
| "rop_ok (Assign_Copy i j) s = (alive i s \<and> alive j s)"
| "rop_ok (Assign_Raw i p) s = alive i s"
| "rop_ok (Clear i) s = alive i s"
| "rop_ok (Swap i j) s = (alive i s \<and> alive j s)"
| "rop_ok (Destroy i) s = alive i s"
| "rop_ok _ s = True"

text \<open>The objects that an operation hands over.\<close>

fun adopts :: "rop \<Rightarrow> nat list" where
  "adopts (Make_Raw (Some p)) = [p]"
| "adopts (Assign_Raw i (Some p)) = [p]"
| "adopts _ = []"

fun ref_run :: "rop list \<Rightarrow> rprog \<Rightarrow> rprog mutation" where
  "ref_run [] s = ok s"
| "ref_run (c # cs) s = andThen (ref_op c s) (ref_run cs)"

fun run_ok :: "rop list \<Rightarrow> rprog \<Rightarrow> bool" where
  "run_ok [] s = True"
| "run_ok (c # cs) s = (rop_ok c s \<and> run_ok cs (fst (ref_op c s)))"

section \<open>The counters count\<close>

definition points :: "nat \<Rightarrow> ref option \<Rightarrow> nat" where
  "points b v = (case v of None \<Rightarrow> 0 | Some r \<Rightarrow> if ref_block r = Some b then 1 else 0)"

definition uses :: "nat \<Rightarrow> ref option list \<Rightarrow> nat" where
  "uses b vs = sum_list (map (points b) vs)"

lemma uses_simps [simp]: "uses b [] = 0" "uses b (v # vs) = points b v + uses b vs"
  by (simp_all add: uses_def)

lemma points_simps [simp]: "points b None = 0" "points b (Some r) = (if ref_block r = Some b then 1 else 0)"
  by (simp_all add: points_def)

lemma uses_pos: "0 < uses b vs \<longleftrightarrow> (\<exists>r. Some r \<in> set vs \<and> ref_block r = Some b)"
  by (induction vs) (auto simp: points_def split: option.splits)

text \<open>
  The state of the heap for the references \<open>vs\<close>: every counter is the number of references to
  its block, a block belongs to one object, the objects of \<open>A\<close> that no reference refers to any
  more are those that were deleted, each once.
\<close>

definition owned :: "nat set \<Rightarrow> ref option list \<Rightarrow> bool" where
  "owned A vs \<longleftrightarrow>
     (\<forall>r. Some r \<in> set vs \<longrightarrow> r = ref_empty \<or> (\<exists>p b. r = \<lparr>cpp_object = Some p, ref_block = Some b\<rparr> \<and> p \<in> A)) \<and>
     (\<forall>r r'. Some r \<in> set vs \<longrightarrow> Some r' \<in> set vs \<longrightarrow> (ref_block r = ref_block r' \<longleftrightarrow> cpp_object r = cpp_object r'))"

lemma owned_sub: "owned A vs \<Longrightarrow> set ws \<subseteq> set vs \<Longrightarrow> owned A ws"
  unfolding owned_def by blast

definition counted :: "nat set \<Rightarrow> ref option list \<Rightarrow> rheap \<Rightarrow> bool" where
  "counted A vs h \<longleftrightarrow>
     (\<forall>b. ref_count h b = (if uses b vs = 0 then None else Some (uses b vs))) \<and>
     (\<forall>b \<ge> next_block h. ref_count h b = None) \<and>
     owned A vs \<and> distinct (deleted h) \<and>
     set (deleted h) = {p \<in> A. \<forall>r. Some r \<in> set vs \<longrightarrow> cpp_object r \<noteq> Some p}"

lemma countedD:
  assumes "counted A vs h"
  shows "ref_count h b = (if uses b vs = 0 then None else Some (uses b vs))"
    "next_block h \<le> b \<Longrightarrow> ref_count h b = None"
    "Some r \<in> set vs \<Longrightarrow> r = ref_empty \<or> (\<exists>p b. r = \<lparr>cpp_object = Some p, ref_block = Some b\<rparr> \<and> p \<in> A)"
    "Some r \<in> set vs \<Longrightarrow> Some r' \<in> set vs \<Longrightarrow> ref_block r = ref_block r' \<longleftrightarrow> cpp_object r = cpp_object r'"
    "distinct (deleted h)"
    "set (deleted h) = {p \<in> A. \<forall>r. Some r \<in> set vs \<longrightarrow> cpp_object r \<noteq> Some p}"
    "owned A vs"
  using assms unfolding counted_def owned_def by blast+

lemma counted_cong:
  assumes "mset vs = mset ws"
  shows "counted A vs h = counted A ws h"
proof -
  have "uses b vs = uses b ws" for b
    using assms unfolding uses_def by (metis mset_map sum_mset_sum_list)
  moreover have "set vs = set ws"
    using assms by (rule mset_eq_setD)
  ultimately show ?thesis
    by (simp add: counted_def owned_def)
qed

lemma counted_None: "counted A (None # vs) h = counted A vs h"
  by (simp add: counted_def owned_def)

lemma counted_empty: "counted A vs h \<Longrightarrow> counted A (Some ref_empty # vs) h"
proof -
  assume c: "counted A vs h"
  have "(ref_block ref_empty = ref_block r \<longleftrightarrow> cpp_object ref_empty = cpp_object r) \<and>
      (ref_block r = ref_block ref_empty \<longleftrightarrow> cpp_object r = cpp_object ref_empty)" if "Some r \<in> set vs" for r
    using countedD(3) [OF c that] by (auto simp: ref_empty_def)
  then have "owned A (Some ref_empty # vs)"
    using countedD(7) [OF c] unfolding owned_def by auto
  moreover have "uses b (Some ref_empty # vs) = uses b vs" for b
    by (simp add: ref_empty_def)
  ultimately show ?thesis
    using c unfolding counted_def by (simp only: set_simps) (auto simp: ref_empty_def)
qed

lemma counted_acquire:
  assumes "counted A vs h" and "Some r \<in> set vs"
  shows "\<exists>h'. acquire r h = ok h' \<and> counted A (Some r # vs) h'"
proof (cases "r = ref_empty")
  case True
  then show ?thesis
    using counted_empty [OF assms(1)] by (simp add: acquire_def ref_empty_def)
next
  case False
  then obtain p b where r: "r = \<lparr>cpp_object = Some p, ref_block = Some b\<rparr>" "p \<in> A"
    using countedD(3) [OF assms] by blast
  have "0 < uses b vs"
    using assms(2) r by (auto simp: uses_pos intro!: exI [of _ r])
  then have "ref_count h b = Some (uses b vs)"
    using countedD(1) [OF assms(1), of b] by simp
  moreover from this have "b < next_block h"
    using countedD(2) [OF assms(1), of b] by (cases "b < next_block h") auto
  ultimately have n: "ref_count h b = Some (uses b vs)" "b < next_block h"
    by blast+
  let ?h = "h\<lparr>ref_count := (ref_count h)(b \<mapsto> uses b vs + 1)\<rparr>"
  have "counted A (Some r # vs) ?h"
    unfolding counted_def
  proof (intro conjI allI impI)
    fix b'
    show "ref_count ?h b' = (if uses b' (Some r # vs) = 0 then None else Some (uses b' (Some r # vs)))"
      using countedD(1) [OF assms(1), of b'] r by simp
  next
    show "set (deleted ?h) = {p \<in> A. \<forall>q. Some q \<in> set (Some r # vs) \<longrightarrow> cpp_object q \<noteq> Some p}"
      using countedD(6) [OF assms(1)] assms(2) by auto
  next
    show "owned A (Some r # vs)"
      by (rule owned_sub [OF countedD(7) [OF assms(1)]]) (use assms(2) in auto)
  next
    fix b'
    assume "next_block ?h \<le> b'"
    then show "ref_count ?h b' = None"
      using n(2) countedD(2) [OF assms(1), of b'] by simp
  qed (use countedD(5) [OF assms(1)] in simp)
  then show ?thesis
    using r n by (simp add: acquire_def)
qed

lemma counted_release:
  assumes "counted A (Some r # vs) h"
  shows "\<exists>h'. release r h = ok h' \<and> counted A vs h'"
proof (cases "r = ref_empty")
  case True
  have "counted A vs h"
    unfolding counted_def
  proof (intro conjI allI impI)
    fix b
    show "ref_count h b = (if uses b vs = 0 then None else Some (uses b vs))"
      using countedD(1) [OF assms, of b] True by (simp add: ref_empty_def)
  next
    show "owned A vs"
      using countedD(7) [OF assms] by (rule owned_sub) auto
  next
    show "set (deleted h) = {p \<in> A. \<forall>q. Some q \<in> set vs \<longrightarrow> cpp_object q \<noteq> Some p}"
      using countedD(6) [OF assms] True by (auto simp: ref_empty_def)
  qed (use countedD(2,5) [OF assms] in simp_all)
  then show ?thesis
    using True by (simp add: release_def ref_empty_def)
next
  case False
  then obtain p b where r: "r = \<lparr>cpp_object = Some p, ref_block = Some b\<rparr>" "p \<in> A"
    using countedD(3) [OF assms, of r] by auto
  have n: "ref_count h b = Some (Suc (uses b vs))"
    using countedD(1) [OF assms, of b] r by simp
  have same: "Some r' \<in> set vs \<Longrightarrow> ref_block r' = Some b \<longleftrightarrow> cpp_object r' = Some p" for r'
  proof -
    assume "Some r' \<in> set vs"
    then have "ref_block r = ref_block r' \<longleftrightarrow> cpp_object r = cpp_object r'"
      using countedD(4) [OF assms, of r r'] by simp
    then show "ref_block r' = Some b \<longleftrightarrow> cpp_object r' = Some p"
      unfolding r(1) by (simp add: eq_commute)
  qed
  have p: "p \<notin> set (deleted h)"
    using countedD(6) [OF assms] unfolding r(1) by auto
  have own: "owned A vs"
    using countedD(7) [OF assms] by (rule owned_sub) auto
  show ?thesis
  proof (cases "uses b vs = 0")
    case True
    let ?h = "h\<lparr>ref_count := (ref_count h)(b := None), deleted := deleted h @ [p]\<rparr>"
    have gone: "Some r' \<in> set vs \<Longrightarrow> cpp_object r' \<noteq> Some p" for r'
      using True same uses_pos [of b vs] by auto
    have "counted A vs ?h"
      unfolding counted_def
    proof (intro conjI allI impI)
      fix b'
      show "ref_count ?h b' = (if uses b' vs = 0 then None else Some (uses b' vs))"
        using countedD(1) [OF assms, of b'] r True by auto
    next
      show "set (deleted ?h) = {p \<in> A. \<forall>q. Some q \<in> set vs \<longrightarrow> cpp_object q \<noteq> Some p}"
        using countedD(6) [OF assms] r gone by auto
    qed (use p own countedD(2,5) [OF assms] in simp_all)
    then show ?thesis
      using r n True by (simp add: release_def)
  next
    case False
    let ?h = "h\<lparr>ref_count := (ref_count h)(b \<mapsto> uses b vs)\<rparr>"
    obtain r' where r': "Some r' \<in> set vs" "cpp_object r' = Some p"
      using False same uses_pos [of b vs] by auto
    have "b < next_block h"
      using n countedD(2) [OF assms, of b] by (cases "b < next_block h") auto
    have "counted A vs ?h"
      unfolding counted_def
    proof (intro conjI allI impI)
      fix b'
      show "ref_count ?h b' = (if uses b' vs = 0 then None else Some (uses b' vs))"
        using countedD(1) [OF assms, of b'] r False by auto
    next
      show "set (deleted ?h) = {p \<in> A. \<forall>q. Some q \<in> set vs \<longrightarrow> cpp_object q \<noteq> Some p}"
        using countedD(6) [OF assms] r r' by auto
    next
      fix b'
      assume "next_block ?h \<le> b'"
      then show "ref_count ?h b' = None"
        using \<open>b < next_block h\<close> countedD(2) [OF assms, of b'] by simp
    qed (use own countedD(5) [OF assms] in simp_all)
    then show ?thesis
      using r n False by (simp add: release_def)
  qed
qed

lemma ref_new_counted:
  assumes "counted A vs h" and "\<forall>q \<in> set_option p. q \<notin> A"
  shows "\<exists>h' r. ref_new p h = (h', r) \<and> counted (A \<union> set_option p) (Some r # vs) h'"
proof (cases p)
  case None
  then show ?thesis
    using counted_empty [OF assms(1)] by (simp add: ref_new_def)
next
  case (Some q)
  let ?b = "next_block h" and ?r = "\<lparr>cpp_object = Some q, ref_block = Some (next_block h)\<rparr>"
  let ?h = "h\<lparr>ref_count := (ref_count h)(?b \<mapsto> 1), next_block := ?b + 1\<rparr>"
  have none: "uses ?b vs = 0"
    using countedD(1,2) [OF assms(1), of ?b] by (simp split: if_splits)
  have other: "ref_block r \<noteq> Some ?b" "cpp_object r \<noteq> Some q" if "Some r \<in> set vs" for r
    using that none uses_pos [of ?b vs] countedD(3) [OF assms(1) that] assms(2) Some by (auto simp: ref_empty_def)
  have own: "owned (insert q A) (Some ?r # vs)"
    unfolding owned_def
  proof (intro conjI allI impI)
    fix r
    assume "Some r \<in> set (Some ?r # vs)"
    then show "r = ref_empty \<or> (\<exists>p b. r = \<lparr>cpp_object = Some p, ref_block = Some b\<rparr> \<and> p \<in> insert q A)"
      using countedD(3) [OF assms(1), of r] by auto
  next
    fix r r'
    assume "Some r \<in> set (Some ?r # vs)" "Some r' \<in> set (Some ?r # vs)"
    then show "ref_block r = ref_block r' \<longleftrightarrow> cpp_object r = cpp_object r'"
      using countedD(4) [OF assms(1), of r r'] other [of r] other [of r'] by auto
  qed
  have "counted (insert q A) (Some ?r # vs) ?h"
    unfolding counted_def
  proof (intro conjI allI impI)
    fix b'
    show "ref_count ?h b' = (if uses b' (Some ?r # vs) = 0 then None else Some (uses b' (Some ?r # vs)))"
      using countedD(1) [OF assms(1), of b'] none by simp
  next
    show "set (deleted ?h) = {p \<in> insert q A. \<forall>r. Some r \<in> set (Some ?r # vs) \<longrightarrow> cpp_object r \<noteq> Some p}"
      using countedD(6) [OF assms(1)] assms(2) Some by auto
  next
    fix b'
    assume "next_block ?h \<le> b'"
    then show "ref_count ?h b' = None"
      using countedD(2) [OF assms(1), of b'] by simp
  qed (use own countedD(5) [OF assms(1)] in simp_all)
  then show ?thesis
    using Some by (simp add: ref_new_def)
qed

section \<open>Programs\<close>

text \<open>Rearranging the references, a variable being overwritten by the first of them.\<close>

lemma counted_update:
  assumes "counted A (v # vs) h" and "i < length vs"
  shows "counted A (vs ! i # vs[i := v]) h"
proof -
  have "mset (vs ! i # vs[i := v]) = mset (v # vs)"
    using assms(2) by (simp add: mset_update)
  then show ?thesis
    using assms(1) counted_cong by blast
qed

lemma counted_append: "counted A (v # vs) h \<Longrightarrow> counted A (vs @ [v]) h"
  using counted_cong [of "vs @ [v]" "v # vs"] by simp

lemma counted_overwrite:
  assumes "counted A (v # vs) h" and "i < length vs" and "vs ! i = Some r"
  shows "\<exists>h'. release r h = ok h' \<and> counted A (vs[i := v]) h'"
  using counted_release [of A r "vs[i := v]" h] counted_update [OF assms(1,2)] assms(3) by simp

lemma counted_swap:
  assumes "counted A vs h" and "i < length vs" and "j < length vs"
  shows "counted A (vs[i := vs ! j, j := vs ! i]) h"
proof -
  have "mset (vs[i := vs ! j, j := vs ! i]) = mset vs"
    using assms(2,3) by (simp add: mset_swap)
  then show ?thesis
    using assms(1) counted_cong by blast
qed

lemma aliveD: "alive i s \<Longrightarrow> i < length (vars s) \<and> vars s ! i = Some (ref_at i s) \<and> Some (ref_at i s) \<in> set (vars s)"
  by (auto simp: alive_def ref_at_def)

lemma on_heap_ok: "f (rheap_of s) = ok h \<Longrightarrow> on_heap f s = ok (s\<lparr>rheap_of := h\<rparr>)"
  by (simp add: on_heap_def ok_def)

lemma ref_op_counted:
  assumes "counted A (vars s) (rheap_of s)" and "rop_ok c s" and "\<forall>p\<in>set (adopts c). p \<notin> A"
  shows "\<exists>s'. ref_op c s = ok s' \<and> counted (A \<union> set (adopts c)) (vars s') (rheap_of s')"
proof (cases c)
  case Make_Empty
  then show ?thesis
    using counted_append [OF counted_empty [OF assms(1)]] by (simp add: declared_def)
next
  case (Make_Raw p)
  then have "\<forall>q\<in>set_option p. q \<notin> A" "set (adopts c) = set_option p"
    using assms(3) by (cases p; simp)+
  then show ?thesis
    using ref_new_counted [OF assms(1), of p] Make_Raw counted_append by (fastforce simp: declared_def)
next
  case (Make_Copy i)
  then have i: "Some (ref_at i s) \<in> set (vars s)"
    using assms(2) aliveD by simp
  then show ?thesis
    using counted_acquire [OF assms(1) i] Make_Copy counted_append on_heap_ok [of "acquire (ref_at i s)" s]
    by (fastforce simp: declared_def)
next
  case (Cast_Dynamic w i)
  then have i: "Some (ref_at i s) \<in> set (vars s)"
    using assms(2) aliveD by simp
  show ?thesis
  proof (cases "w \<and> cpp_object (ref_at i s) \<noteq> None")
    case True
    then show ?thesis
      using counted_acquire [OF assms(1) i] Cast_Dynamic counted_append on_heap_ok [of "acquire (ref_at i s)" s]
      by (fastforce simp: declared_def)
  next
    case False
    then have "ref_op c s = ok (declared ref_empty s)"
      unfolding Cast_Dynamic by auto
    then show ?thesis
      using counted_append [OF counted_empty [OF assms(1)]] Cast_Dynamic by (simp add: declared_def)
  qed
next
  case (Assign_Copy i j)
  then have ij: "alive i s" "Some (ref_at j s) \<in> set (vars s)"
    using assms(2) aliveD by simp_all
  obtain h where h: "acquire (ref_at j s) (rheap_of s) = ok h" "counted A (Some (ref_at j s) # vars s) h"
    using counted_acquire [OF assms(1) ij(2)] by blast
  obtain h' where "release (ref_at i s) h = ok h'" "counted A ((vars s)[i := Some (ref_at j s)]) h'"
    using counted_overwrite [OF h(2)] aliveD [OF ij(1)] by blast
  then show ?thesis
    using Assign_Copy h(1) by (simp add: on_heap_ok ref_at_def set_var_def)
next
  case (Assign_Raw i p)
  then have p: "\<forall>q\<in>set_option p. q \<notin> A" "set (adopts c) = set_option p" "alive i s"
    using assms(2,3) by (cases p; simp)+
  obtain h r where h: "ref_new p (rheap_of s) = (h, r)" "counted (A \<union> set_option p) (Some r # vars s) h"
    using ref_new_counted [OF assms(1) p(1)] by blast
  obtain h' where "release (ref_at i s) h = ok h'" "counted (A \<union> set_option p) ((vars s)[i := Some r]) h'"
    using counted_overwrite [OF h(2)] aliveD [OF p(3)] by blast
  then show ?thesis
    using Assign_Raw h(1) p(2) by (simp add: on_heap_ok set_var_def)
next
  case (Clear i)
  then obtain h' where "release (ref_at i s) (rheap_of s) = ok h'" "counted A ((vars s)[i := Some ref_empty]) h'"
    using counted_overwrite [OF counted_empty [OF assms(1)]] aliveD [of i s] assms(2) by fastforce
  then show ?thesis
    using Clear by (simp add: on_heap_ok set_var_def)
next
  case (Swap i j)
  then have "i < length (vars s)" "j < length (vars s)" "vars s ! i = Some (ref_at i s)" "vars s ! j = Some (ref_at j s)"
    using assms(2) aliveD [of i s] aliveD [of j s] by simp_all
  then show ?thesis
    using counted_swap [OF assms(1), of i j] Swap by (simp add: set_var_def)
next
  case (Destroy i)
  have "counted A (None # vars s) (rheap_of s)"
    using assms(1) counted_None by simp
  then obtain h' where "release (ref_at i s) (rheap_of s) = ok h'" "counted A ((vars s)[i := None]) h'"
    using counted_overwrite aliveD [of i s] assms(2) Destroy by fastforce
  then show ?thesis
    using Destroy by (simp add: on_heap_ok set_var_def)
qed

lemma ref_run_counted:
  "\<lbrakk> counted A (vars s) (rheap_of s); run_ok cs s; distinct (concat (map adopts cs));
     \<forall>p \<in> set (concat (map adopts cs)). p \<notin> A \<rbrakk>
   \<Longrightarrow> \<exists>s'. ref_run cs s = ok s' \<and> counted (A \<union> set (concat (map adopts cs))) (vars s') (rheap_of s')"
proof (induction cs arbitrary: s A)
  case (Cons c cs)
  obtain s1 where s1: "ref_op c s = ok s1" "counted (A \<union> set (adopts c)) (vars s1) (rheap_of s1)"
    using ref_op_counted [OF Cons.prems(1), of c] Cons.prems(2,4) by auto
  have "run_ok cs s1"
    using Cons.prems(2) s1(1) by (simp add: ok_def)
  then obtain s' where "ref_run cs s1 = ok s'"
      "counted ((A \<union> set (adopts c)) \<union> set (concat (map adopts cs))) (vars s') (rheap_of s')"
    using Cons.IH [OF s1(2)] Cons.prems(3,4) by auto
  then show ?case
    using s1(1) by (intro exI [of _ s']) (simp add: Un_assoc)
qed simp

lemma new_counted: "counted {} (vars rprog_new) (rheap_of rprog_new)"
  by (simp add: counted_def owned_def rprog_new_def)

text \<open>
  C15. Every object is deleted exactly when its last reference goes. In a program that uses
  references that exist and hands every object over once, no operation touches a counter that was
  deleted; no object is deleted twice; an object that was handed over is deleted if and only if no
  reference refers to it; and the counter of a reference is the number of references to its object.
\<close>

theorem deleted_with_last_reference:
  assumes "run_ok cs rprog_new" and "distinct (concat (map adopts cs))"
  shows "\<exists>s. ref_run cs rprog_new = ok s \<and> distinct (deleted (rheap_of s)) \<and>
    (\<forall>p \<in> set (concat (map adopts cs)).
       p \<in> set (deleted (rheap_of s)) \<longleftrightarrow> (\<forall>r. Some r \<in> set (vars s) \<longrightarrow> cpp_object r \<noteq> Some p)) \<and>
    (\<forall>r. Some r \<in> set (vars s) \<longrightarrow> cpp_object r \<noteq> None \<longrightarrow>
       use_count r (rheap_of s) =
         Inr (length (filter (\<lambda>v. \<exists>r'. v = Some r' \<and> cpp_object r' = cpp_object r) (vars s))))"
proof -
  let ?A = "set (concat (map adopts cs))"
  obtain s where s: "ref_run cs rprog_new = ok s" "counted ?A (vars s) (rheap_of s)"
    using ref_run_counted [OF new_counted assms] by auto
  have "use_count r (rheap_of s) =
      Inr (length (filter (\<lambda>v. \<exists>r'. v = Some r' \<and> cpp_object r' = cpp_object r) (vars s)))"
    if r: "Some r \<in> set (vars s)" "cpp_object r \<noteq> None" for r
  proof -
    obtain b where b: "ref_block r = Some b"
      using countedD(3) [OF s(2) r(1)] r(2) by (auto simp: ref_empty_def)
    have "0 < uses b (vars s)"
      using r(1) b uses_pos by blast
    moreover have "uses b vs = length (filter (\<lambda>v. \<exists>r'. v = Some r' \<and> cpp_object r' = cpp_object r) vs)"
      if "set vs \<subseteq> set (vars s)" for vs
      using that
    proof (induction vs)
      case (Cons v vs)
      have "ref_block r' = Some b \<longleftrightarrow> cpp_object r' = cpp_object r" if "v = Some r'" for r'
        using countedD(4) [OF s(2) _ r(1), of r'] b Cons.prems that by simp
      then show ?case
        using Cons by (cases v) auto
    qed simp
    ultimately show ?thesis
      using countedD(1) [OF s(2), of b] b by (simp add: use_count_def)
  qed
  then show ?thesis
    using s countedD(5,6) [OF s(2)] by auto
qed

theorem deleted_with_last_reference_witness:
  "\<exists>s. ref_run [Make_Raw (Some 7), Make_Copy 0, Assign_Copy 0 0, Destroy 0, Assign_Raw 1 (Some 8)] rprog_new = ok s \<and>
     deleted (rheap_of s) = [7] \<and> distinct (deleted (rheap_of s))"
proof -
  let ?cs = "[Make_Raw (Some 7), Make_Copy 0, Assign_Copy 0 0, Destroy 0, Assign_Raw 1 (Some 8)]"
  have "run_ok ?cs rprog_new \<and> deleted (rheap_of (fst (ref_run ?cs rprog_new))) = [7]"
    by code_simp
  then show ?thesis
    using deleted_with_last_reference [of ?cs] by (auto simp: ok_def)
qed

end
