(* ===== verification/Llsf_Machine.thy ===== *)
theory Llsf_Machine imports Refbox Sps Machines
begin

text \<open>
  The thread of the LLSF plugin that joins the field controllers (\<open>Sps\<close>) and CLIPS,
  \<open>src/plugins/llsf_machine/llsf_machine_thread.cpp\<close>: it reads the configuration, connects,
  reports the RFID readers as facts and sets the signal lights by the names of the machines
  (\<open>Machines\<close>).
\<close>

section \<open>The thread\<close>

record machine_thread =
  mt_sps :: "sps option"
  mt_interval :: "32 word"
  mt_assignment :: machine_assignment

text \<open>The state of the field controllers and the facts that were asserted.\<close>

type_synonym 'w field = "'w \<times> string list"

definition read_clips_interval :: "config \<Rightarrow> 32 word result" where
  "read_clips_interval s = or_default 40 (cfg_get_uint s ''/llsfrb/clips/timer-interval'')"

definition read_assignment :: "config \<Rightarrow> machine_assignment result" where
  "read_assignment s =
     or_default ASSIGNMENT_2014
       (bind (cfg_get_string s ''/llsfrb/game/machine-assignment'')
         (\<lambda>t. Inr (if t = ''2013'' then ASSIGNMENT_2013 else ASSIGNMENT_2014)))"

text \<open>The parameter of the constructors is an \<open>unsigned short\<close>.\<close>

definition port_of :: "32 word \<Rightarrow> nat" where
  "port_of p = unat (ucast p :: 16 word)"

text \<open>The object is made from a list of hosts, or from a single one.\<close>

definition new_sps :: "'w modbus \<Rightarrow> config \<Rightarrow> machine_assignment \<Rightarrow> 'w \<Rightarrow> 'w \<times> sps result" where
  "new_sps b s a w =
     (case cfg_exists s ''/llsfrb/sps/hosts'' of
        Inl x \<Rightarrow> (w, Inl x)
      | Inr ex \<Rightarrow>
          if ex \<and> a = ASSIGNMENT_2014
          then (case bind (cfg_get_strings s ''/llsfrb/sps/hosts'')
                      (\<lambda>hs. bind (cfg_get_uint s ''/llsfrb/sps/port'') (\<lambda>p. Inr (hs, p))) of
                  Inl x \<Rightarrow> (w, Inl x)
                | Inr (hs, p) \<Rightarrow> sps_new b hs (port_of p) w)
          else (case bind (cfg_get_string s ''/llsfrb/sps/host'')
                      (\<lambda>h. bind (cfg_get_uint s ''/llsfrb/sps/port'') (\<lambda>p. Inr (h, p))) of
                  Inl x \<Rightarrow> (w, Inl x)
                | Inr (h, p) \<Rightarrow> sps_new_single b h (port_of p) w))"

text \<open>
  What is done with the new object; when it fails, the object is deleted and the thread runs
  without it.
\<close>

definition start_sps :: "'w modbus \<Rightarrow> bool \<Rightarrow> sps \<Rightarrow> 'w \<Rightarrow> 'w mutation" where
  "start_sps b test p w =
     andThen (reset_lights b p w) (\<lambda>w. andThen (reset_rfids b p w)
       (\<lambda>w. if test then test_lights b p w else ok w))"

definition connect_sps :: "'w modbus \<Rightarrow> config \<Rightarrow> machine_assignment \<Rightarrow> 'w \<Rightarrow> 'w \<times> sps option result" where
  "connect_sps b s a w =
     (case cfg_get_bool s ''/llsfrb/sps/enable'' of
        Inl x \<Rightarrow> (w, or_default None (Inl x))
      | Inr False \<Rightarrow> (w, Inr None)
      | Inr True \<Rightarrow>
          (case or_default True (cfg_get_bool s ''/llsfrb/sps/test-lights'') of
             Inl x \<Rightarrow> (w, Inl x)
           | Inr test \<Rightarrow>
               (case new_sps b s a w of
                  (w1, Inl x) \<Rightarrow> (w1, or_default None (Inl x))
                | (w1, Inr p) \<Rightarrow>
                    (case start_sps b test p w1 of
                       (w2, None) \<Rightarrow> (w2, Inr (Some p))
                     | (w2, Some x) \<Rightarrow>
                         if is_fawkes x then (sps_delete b p w2, Inr None) else (w2, Inl x)))))"

definition machine_init :: "'w modbus \<Rightarrow> config \<Rightarrow> 'w \<Rightarrow> 'w \<times> machine_thread result" where
  "machine_init b s w =
     (case bind (read_clips_interval s) (\<lambda>i. bind (read_assignment s) (\<lambda>a. Inr (i, a))) of
        Inl x \<Rightarrow> (w, Inl x)
      | Inr (i, a) \<Rightarrow>
          (case connect_sps b s a w of
             (w1, Inl x) \<Rightarrow> (w1, Inl x)
           | (w1, Inr p) \<Rightarrow> (w1, Inr \<lparr>mt_sps = p, mt_interval = i, mt_assignment = a\<rparr>)))"

text \<open>The function that the rules call; every \<open>fawkes::Exception\<close> is only reported.\<close>

definition clips_sps_set_signal ::
  "'w modbus \<Rightarrow> machine_thread \<Rightarrow> string \<Rightarrow> string \<Rightarrow> string \<Rightarrow> 'w \<Rightarrow> 'w mutation" where
  "clips_sps_set_signal b t machine light state w =
     (case mt_sps t of
        None \<Rightarrow> ok w
      | Some p \<Rightarrow>
          (case to_machine machine (mt_assignment t) of
             Inl x \<Rightarrow> if is_fawkes x then ok w else throwing x w
           | Inr m \<Rightarrow>
               (case set_light_named b p m light state w of
                  (w1, None) \<Rightarrow> ok w1
                | (w1, Some x) \<Rightarrow> if is_fawkes x then ok w1 else throwing x w1)))"

definition rfid_fact :: "string \<Rightarrow> 32 word \<Rightarrow> string" where
  "rfid_fact machine_name i =
     (if i = NO_PUCK then ''(rfid-input (machine '' @ machine_name @ '') (has-puck FALSE))''
      else ''(rfid-input (machine '' @ machine_name @ '') (has-puck TRUE) (id '' @ to_string_uint i @ ''))'')"

fun report_rfids :: "machine_assignment \<Rightarrow> nat \<Rightarrow> 32 word list \<Rightarrow> string list \<Rightarrow> string list mutation" where
  "report_rfids a i [] facts = ok facts"
| "report_rfids a i (v # vs) facts =
     (case machine_to_string i a of
        Inl x \<Rightarrow> throwing x facts
      | Inr nm \<Rightarrow> report_rfids a (i + 1) vs (facts @ [rfid_fact nm v]))"

text \<open>When reading or reporting fails, the thread tries to connect again, and goes on in any case.\<close>

definition reconnecting :: "'w modbus \<Rightarrow> sps \<Rightarrow> exn \<Rightarrow> 'w \<Rightarrow> 'w mutation" where
  "reconnecting b p x w =
     (if \<not> is_fawkes x then throwing x w
      else case try_reconnect b p w of
        (w1, Some y) \<Rightarrow> if is_fawkes y then ok w1 else throwing y w1
      | (w1, None) \<Rightarrow> ok w1)"

definition sps_read_rfids :: "'w modbus \<Rightarrow> machine_thread \<Rightarrow> 'w field \<Rightarrow> 'w field mutation" where
  "sps_read_rfids b t f =
     (case mt_sps t of
        None \<Rightarrow> ok f
      | Some p \<Rightarrow>
          (case read_rfids b p (fst f) of
             (w1, Inl x) \<Rightarrow> (case reconnecting b p x w1 of (w2, y) \<Rightarrow> ((w2, snd f), y))
           | (w1, Inr ids) \<Rightarrow>
               (case report_rfids (mt_assignment t) 0 ids (snd f) of
                  (facts, None) \<Rightarrow> ok (w1, facts)
                | (facts, Some x) \<Rightarrow>
                    (case reconnecting b p x w1 of (w2, y) \<Rightarrow> ((w2, facts), y)))))"

section \<open>Facts carry the names of their machines\<close>

lemma machine_to_string_total:
  "i < machine_count a \<Longrightarrow> \<exists>nm. machine_to_string i a = Inr nm \<and> to_machine nm a = Inr i"
  using machine_to_string_iff [of i a] machine_roundtrip [of _ a i] unfolding is_ok_iff by blast

lemma report_rfids_exact:
  "\<exists>names x. report_rfids a i ids facts = (facts @ map2 rfid_fact names ids, x) \<and>
     length names = min (length ids) (machine_count a - i) \<and>
     (\<forall>j < length names. to_machine (names ! j) a = Inr (i + j)) \<and>
     (x = None \<longleftrightarrow> i + length ids \<le> machine_count a \<or> ids = []) \<and> (\<forall>y. x = Some y \<longrightarrow> is_fawkes y)"
proof (induction ids arbitrary: i facts)
  case Nil
  then show ?case
    by (intro exI [of _ "[]"] exI [of _ None]) (simp add: ok_def)
next
  case (Cons v ids)
  show ?case
  proof (cases "i < machine_count a")
    case True
    then obtain nm where nm: "machine_to_string i a = Inr nm" "to_machine nm a = Inr i"
      using machine_to_string_total by blast
    obtain names x where ih: "report_rfids a (i + 1) ids (facts @ [rfid_fact nm v]) =
          ((facts @ [rfid_fact nm v]) @ map2 rfid_fact names ids, x)"
        "length names = min (length ids) (machine_count a - (i + 1))"
        "\<forall>j < length names. to_machine (names ! j) a = Inr (i + 1 + j)"
        "x = None \<longleftrightarrow> i + 1 + length ids \<le> machine_count a \<or> ids = []" "\<forall>y. x = Some y \<longrightarrow> is_fawkes y"
      using Cons.IH by blast
    have "to_machine ((nm # names) ! j) a = Inr (i + j)" if "j < length (nm # names)" for j
      using that ih(3) nm(2) by (cases j) simp_all
    then show ?thesis
      using ih nm(1) True by (intro exI [of _ "nm # names"] exI [of _ x]) auto
  next
    case False
    then obtain y where y: "machine_to_string i a = Inl y"
      using machine_to_string_iff [of i a] by (cases "machine_to_string i a") auto
    then have "is_fawkes y"
      by (auto simp: machine_to_string_def split: option.splits)
    then show ?thesis
      using y False by (intro exI [of _ "[]"] exI [of _ "Some y"]) (simp add: throwing_def)
  qed
qed

lemma try_reconnect_fawkes: "snd (try_reconnect b p w) = Some y \<Longrightarrow> is_fawkes y"
proof -
  have "snd (reconnect_all b hs w) = Some y \<Longrightarrow> is_fawkes y" for hs w
    by (induction hs arbitrary: w) (auto simp: ok_def throwing_def sps_fail_def split: prod.splits bool.splits)
  then show "snd (try_reconnect b p w) = Some y \<Longrightarrow> is_fawkes y"
    by (simp add: try_reconnect_def)
qed

lemma reconnecting_ok: "is_fawkes x \<Longrightarrow> reconnecting b p x w = ok (fst (try_reconnect b p w))"
  using try_reconnect_fawkes [of b p w]
  by (cases "try_reconnect b p w") (auto simp: reconnecting_def split: option.splits)


section \<open>Signals by name\<close>

text \<open>The tables of names are those that every new object has.\<close>

definition new_tables :: "sps \<Rightarrow> bool" where
  "new_tables p \<longleftrightarrow> (\<exists>hs. p = construct_mappings \<lparr>mbs = hs, name_to_light = [], name_to_signal_state = []\<rparr>)"

lemma to_light_valid: "new_tables p \<Longrightarrow> to_light p n = Inr l \<Longrightarrow> valid_light l"
  by (auto simp: new_tables_def to_light_def construct_mappings_def valid_light_cases
      split: option.splits if_splits)

text \<open>A name that is not known ends the call, and so does a machine beyond the controllers.\<close>

lemma unknown_name_ignored:
  assumes "\<not> is_ok (to_machine machine (mt_assignment t)) \<or> mt_sps t = Some p \<and> \<not> is_ok (to_light p light) \<or>
    mt_sps t = Some p \<and> \<not> is_ok (to_signal_state p state)"
  shows "clips_sps_set_signal b t machine light state w = ok w"
  using assms
  by (auto simp: clips_sps_set_signal_def set_light_named_def throwing_def to_machine_def to_light_def
      to_signal_state_def split: option.splits sum.splits)

lemma set_light_beyond:
  assumes "valid_light l" and "\<not> m < 16 * length (mbs p)"
  shows "\<exists>x. set_light b p m l st w = throwing x w \<and> is_fawkes x"
proof -
  have "length (mbs p) \<le> m div 16"
    using assms(2) by (simp add: less_mult_imp_div_less not_less [symmetric] div_less_iff_less_mult mult.commute)
  then show ?thesis
    using assms(1) by (auto simp: set_light_def plc_index_def valid_light_def Let_def)
qed

text \<open>
  A rule that sets a signal by the name of a machine, a light and a state sets that light of
  that machine and leaves every other light alone; a name that is not known, or a machine beyond
  the controllers that are connected, changes nothing; and no exception reaches the rule.
\<close>

theorem signal_set_by_name:
  assumes "mt_sps t = Some p" and "new_tables p" and "distinct (mbs p)"
  shows "\<exists>w'. clips_sps_set_signal reg_bus t machine light state w = ok w' \<and>
    (case (to_machine machine (mt_assignment t), to_light p light, to_signal_state p state) of
       (Inr m, Inr l, Inr st) \<Rightarrow>
         if m < 16 * length (mbs p)
         then light_is p w' m l st \<and>
           (\<forall>m' l' st'. m' < 16 * length (mbs p) \<and> valid_light l' \<and> (m', l') \<noteq> (m, l) \<longrightarrow>
              light_is p w' m' l' st' = light_is p w m' l' st')
         else w' = w
     | _ \<Rightarrow> w' = w)"
proof (cases "to_machine machine (mt_assignment t)" "to_light p light" "to_signal_state p state"
    rule: sum.exhaust [case_product sum.exhaust sum.exhaust])
  case (Inr_Inr_Inr m l st)
  have valid: "valid_light l"
    using to_light_valid assms(2) Inr_Inr_Inr(2) by blast
  have call: "clips_sps_set_signal reg_bus t machine light state w =
      (case set_light reg_bus p m l st w of (w1, None) \<Rightarrow> ok w1
       | (w1, Some x) \<Rightarrow> if is_fawkes x then ok w1 else throwing x w1)"
    using Inr_Inr_Inr assms(1) by (simp add: clips_sps_set_signal_def set_light_named_def)
  show ?thesis
  proof (cases "m < 16 * length (mbs p)")
    case True
    obtain w' where w': "set_light reg_bus p m l st w = ok w'" "light_is p w' m l st"
      using set_light_effect [OF assms(3) True True valid valid] by blast
    have "light_is p w' m' l' st' = light_is p w m' l' st'"
      if "m' < 16 * length (mbs p)" "valid_light l'" "(m', l') \<noteq> (m, l)" for m' l' st'
      using set_light_effect [OF assms(3) True that(1) valid that(2), of st w st'] w'(1) that(3) by (auto simp: ok_def)
    then show ?thesis
      using call w' Inr_Inr_Inr True by (simp add: ok_def)
  next
    case False
    then show ?thesis
      using set_light_beyond [OF valid False, of reg_bus st w] call Inr_Inr_Inr by (auto simp: throwing_def ok_def)
  qed
qed (use unknown_name_ignored [of machine t p light state reg_bus w] assms(1) in simp_all)

section \<open>Witnesses\<close>

text \<open>Readers that all hold the puck with the same number.\<close>

definition puck_bus :: "unit modbus" where
  "puck_bus = \<lparr>mb_open = (\<lambda>_ _ w. (w, None)), mb_connect = (\<lambda>_ w. (w, True)), mb_close = (\<lambda>_ w. w),
     mb_write = (\<lambda>h a vs w. (w, True)), mb_read = (\<lambda>h a n w. (w, Some (replicate n 0x0100)))\<rparr>"

definition demo_thread :: machine_thread where
  "demo_thread = \<lparr>mt_sps = Some demo_sps, mt_interval = 40, mt_assignment = ASSIGNMENT_2013\<rparr>"


theorem signal_set_by_name_witness:
  "\<exists>w'. clips_sps_set_signal reg_bus demo_thread ''M5'' ''RED'' ''BLINK'' (\<lambda>_ _. 0) = ok w' \<and>
     light_is demo_sps w' 4 LIGHT_RED SIGNAL_BLINK"
proof -
  have t: "mt_sps demo_thread = Some demo_sps"
    by (simp add: demo_thread_def)
  have n: "new_tables demo_sps"
    by (auto simp: new_tables_def demo_sps_def)
  have names: "to_machine ''M5'' (mt_assignment demo_thread) = Inr 4" "to_light demo_sps ''RED'' = Inr LIGHT_RED"
      "to_signal_state demo_sps ''BLINK'' = Inr SIGNAL_BLINK"
    by code_simp+
  show ?thesis
    using signal_set_by_name [OF t n, of "''M5''" "''RED''" "''BLINK''" "\<lambda>_ _. 0"] by (auto simp: names)
qed

end
