(* ===== verification/Property_Client.thy ===== *)
theory Property_Client imports Prelude "HOL-Library.Word"
begin

text \<open>
  The client of a property server, \<open>src/libs/property_client\<close>, and the devices of atwork that
  use it, \<open>atwork/plugins\<close>: conveyor belt and rotating turntable. The client looks for a server
  that knows its device, polls its properties and tells its listener what has changed. Requests,
  JSON values and the conversions of numbers are those of cpprest; what the servers answer and
  the conversions are parameters.
\<close>

section \<open>JSON\<close>

datatype 'n json =
    J_Null | J_Bool bool | J_Number 'n | J_String string | J_Array "'n json list"
  | J_Object "(string \<times> 'n json) list"

text \<open>
  The conversions of numbers; \<open>'d\<close> are the values of type \<open>double\<close>. \<open>index_first\<close> tells whether
  the compiler evaluates the left side of an assignment to an entry of a map before the right
  side, which the language leaves open.
\<close>

record ('n, 'd) numbers =
  to_int64 :: "'n \<Rightarrow> 64 word"
  to_uint64 :: "'n \<Rightarrow> 64 word"
  to_double :: "'n \<Rightarrow> 'd"
  of_int64 :: "64 word \<Rightarrow> 'n"
  of_uint64 :: "64 word \<Rightarrow> 'n"
  of_double :: "'d \<Rightarrow> 'n"
  zero_double :: 'd
  index_first :: bool

definition json_exception :: exn where
  "json_exception = LibraryException ''json_exception''"

text \<open>Indexing an object makes a null member when there is none.\<close>

definition member :: "(string \<times> 'n json) list \<Rightarrow> string \<Rightarrow> 'n json" where
  "member ob k = (case map_of ob k of None \<Rightarrow> J_Null | Some v \<Rightarrow> v)"

fun as_json_string :: "'n json \<Rightarrow> string result" where
  "as_json_string (J_String s) = Inr s"
| "as_json_string _ = Inl json_exception"

fun as_json_bool :: "'n json \<Rightarrow> bool result" where
  "as_json_bool (J_Bool b) = Inr b"
| "as_json_bool _ = Inl json_exception"

fun as_json_number :: "'n json \<Rightarrow> 'n result" where
  "as_json_number (J_Number n) = Inr n"
| "as_json_number _ = Inl json_exception"

section \<open>Properties\<close>

datatype prop_value_type = T_bool | T_string | T_long | T_ulong | T_double | T_unknown

text \<open>
  The union that holds a value; the type of the property tells the member that is used. A string
  is kept as a pointer into a text that is gone when the function returns.
\<close>

datatype 'd holder = V_Bool bool | V_Dangling | V_Long "64 word" | V_ULong "64 word" | V_Double 'd | V_Unset

record 'd property =
  p_uri :: string
  p_id :: string
  p_name :: string
  p_description :: string
  p_readonly :: bool
  p_timestamp :: "64 word"
  p_type :: prop_value_type
  p_value :: "'d holder"
  p_min :: "'d holder"
  p_max :: "'d holder"

definition as_long :: "'d property \<Rightarrow> 64 word" where
  "as_long p = (if p_type p \<noteq> T_long then 0 else case p_value p of V_Long v \<Rightarrow> v | _ \<Rightarrow> 0)"

definition as_ulong :: "'d property \<Rightarrow> 64 word" where
  "as_ulong p = (if p_type p \<noteq> T_ulong then 0 else case p_value p of V_ULong v \<Rightarrow> v | _ \<Rightarrow> 0)"

definition as_bool :: "'d property \<Rightarrow> bool" where
  "as_bool p = (if p_type p \<noteq> T_bool then False else case p_value p of V_Bool v \<Rightarrow> v | _ \<Rightarrow> False)"

definition as_double :: "('n, 'd) numbers \<Rightarrow> 'd property \<Rightarrow> 'd" where
  "as_double N p = (if p_type p \<noteq> T_double then zero_double N else case p_value p of V_Double v \<Rightarrow> v | _ \<Rightarrow> zero_double N)"

definition as_string :: "'d property \<Rightarrow> string result" where
  "as_string p = (if p_type p \<noteq> T_string then Inr [] else Inl (UndefinedBehaviour ''the text of a string property is gone''))"

text \<open>The bounds of a value.\<close>

definition min_long :: "'d property \<Rightarrow> 64 word" where
  "min_long p = (if p_type p \<noteq> T_long then 0 else case p_min p of V_Long v \<Rightarrow> v | _ \<Rightarrow> 0)"

definition max_long :: "'d property \<Rightarrow> 64 word" where
  "max_long p = (if p_type p \<noteq> T_long then 0 else case p_max p of V_Long v \<Rightarrow> v | _ \<Rightarrow> 0)"

definition min_ulong :: "'d property \<Rightarrow> 64 word" where
  "min_ulong p = (if p_type p \<noteq> T_ulong then 0 else case p_min p of V_ULong v \<Rightarrow> v | _ \<Rightarrow> 0)"

definition max_ulong :: "'d property \<Rightarrow> 64 word" where
  "max_ulong p = (if p_type p \<noteq> T_ulong then 0 else case p_max p of V_ULong v \<Rightarrow> v | _ \<Rightarrow> 0)"

definition min_double :: "('n, 'd) numbers \<Rightarrow> 'd property \<Rightarrow> 'd" where
  "min_double N p = (if p_type p \<noteq> T_double then zero_double N else case p_min p of V_Double v \<Rightarrow> v | _ \<Rightarrow> zero_double N)"

definition max_double :: "('n, 'd) numbers \<Rightarrow> 'd property \<Rightarrow> 'd" where
  "max_double N p = (if p_type p \<noteq> T_double then zero_double N else case p_max p of V_Double v \<Rightarrow> v | _ \<Rightarrow> zero_double N)"

definition read_type :: "string \<Rightarrow> prop_value_type" where
  "read_type t =
     (if t = ''bool'' then T_bool else if t = ''long'' then T_long else if t = ''ulong'' then T_ulong
      else if t = ''string'' then T_string else if t = ''double'' then T_double else T_unknown)"

text \<open>A value, its minimum and its maximum, as the type asks for.\<close>

definition three :: "('n \<Rightarrow> 'd holder) \<Rightarrow> (string \<times> 'n json) list \<Rightarrow> ('d holder \<times> 'd holder \<times> 'd holder) result" where
  "three f ob =
     bind_result (as_json_number (member ob ''value'')) (\<lambda>v.
     bind_result (as_json_number (member ob ''min'')) (\<lambda>lo.
     bind_result (as_json_number (member ob ''max'')) (\<lambda>hi. Inr (f v, f lo, f hi))))"

fun read_values ::
  "('n, 'd) numbers \<Rightarrow> prop_value_type \<Rightarrow> (string \<times> 'n json) list \<Rightarrow> ('d holder \<times> 'd holder \<times> 'd holder) result" where
  "read_values N T_long ob = three (\<lambda>n. V_Long (to_int64 N n)) ob"
| "read_values N T_ulong ob = three (\<lambda>n. V_ULong (to_uint64 N n)) ob"
| "read_values N T_double ob = three (\<lambda>n. V_Double (to_double N n)) ob"
| "read_values N T_bool ob =
     bind_result (as_json_bool (member ob ''value'')) (\<lambda>b. Inr (V_Bool b, V_Unset, V_Unset))"
| "read_values N T_string ob =
     bind_result (as_json_string (member ob ''value'')) (\<lambda>s. Inr (V_Dangling, V_Unset, V_Unset))"
| "read_values N T_unknown ob = Inr (V_Unset, V_Unset, V_Unset)"

text \<open>New values of a property; those before one that cannot be read are kept.\<close>

definition assign_number ::
  "'n json \<Rightarrow> ('n \<Rightarrow> 'd property \<Rightarrow> 'd property) \<Rightarrow> 'd property \<Rightarrow> 'd property mutation" where
  "assign_number j f p = (case as_json_number j of Inl x \<Rightarrow> throwing x p | Inr n \<Rightarrow> ok (f n p))"

definition assign_three :: "('n \<Rightarrow> 'd holder) \<Rightarrow> (string \<times> 'n json) list \<Rightarrow> 'd property \<Rightarrow> 'd property mutation" where
  "assign_three f ob p =
     andThen (assign_number (member ob ''value'') (\<lambda>n p. p\<lparr>p_value := f n\<rparr>) p) (\<lambda>p.
     andThen (assign_number (member ob ''min'') (\<lambda>n p. p\<lparr>p_min := f n\<rparr>) p)
       (assign_number (member ob ''max'') (\<lambda>n p. p\<lparr>p_max := f n\<rparr>)))"

definition assign_values :: "('n, 'd) numbers \<Rightarrow> (string \<times> 'n json) list \<Rightarrow> 'd property \<Rightarrow> 'd property mutation" where
  "assign_values N ob p =
     (case p_type p of
        T_long \<Rightarrow> assign_three (\<lambda>n. V_Long (to_int64 N n)) ob p
      | T_ulong \<Rightarrow> assign_three (\<lambda>n. V_ULong (to_uint64 N n)) ob p
      | T_double \<Rightarrow> assign_three (\<lambda>n. V_Double (to_double N n)) ob p
      | T_bool \<Rightarrow>
          (case as_json_bool (member ob ''value'') of
             Inl x \<Rightarrow> throwing x p | Inr b \<Rightarrow> ok (p\<lparr>p_value := V_Bool b\<rparr>))
      | T_string \<Rightarrow>
          (case as_json_string (member ob ''value'') of
             Inl x \<Rightarrow> throwing x p | Inr t \<Rightarrow> ok (p\<lparr>p_value := V_Dangling\<rparr>))
      | T_unknown \<Rightarrow> ok p)"

definition create_property :: "('n, 'd) numbers \<Rightarrow> (string \<times> 'n json) list \<Rightarrow> 'd property result" where
  "create_property N ob =
     bind_result (as_json_string (member ob ''id'')) (\<lambda>i.
     bind_result (as_json_string (member ob ''name'')) (\<lambda>nm.
     bind_result (as_json_string (member ob ''uri'')) (\<lambda>uri.
     bind_result (as_json_string (member ob ''description'')) (\<lambda>desc.
     bind_result (as_json_bool (member ob ''readonly'')) (\<lambda>ro.
     bind_result (as_json_string (member ob ''type'')) (\<lambda>t.
     bind_result (read_values N (read_type t) ob) (\<lambda>(v, lo, hi).
       Inr \<lparr>p_uri = uri, p_id = i, p_name = nm, p_description = desc, p_readonly = ro,
            p_timestamp = 0, p_type = read_type t, p_value = v, p_min = lo, p_max = hi\<rparr>)))))))"

section \<open>The client\<close>

datatype 'd notice = Connected | Device_Error | Disconnected | Changed "'d property"

text \<open>
  \<open>http\<close> is the address of the server that the client is connected to. An entry of
  \<open>properties\<close> can be the null pointer. \<open>notices\<close> are the calls of the listener.
\<close>

record 'd pclient =
  device_id :: string
  server_name :: string
  http :: "string option"
  properties :: "string \<Rightarrow> 'd property option option"
  servers :: "string \<Rightarrow> string option"
  notices :: "'d notice list"

definition prop_client_new :: "string \<Rightarrow> 'd pclient" where
  "prop_client_new device =
     \<lparr>device_id = device, server_name = [], http = None, properties = Map.empty, servers = Map.empty, notices = []\<rparr>"

definition notify_listener :: "'d notice \<Rightarrow> 'd pclient \<Rightarrow> 'd pclient" where
  "notify_listener n s = s\<lparr>notices := notices s @ [n]\<rparr>"

text \<open>
  What a server answers: the request fails, or there is a status, which may be OK, and the body,
  which may be no JSON.
\<close>

datatype 'n body = Body "'n json" | Body_Http_Error | Body_Json_Error

datatype 'n response = Http_Exception | Response bool "'n body"

definition put_property :: "string \<Rightarrow> 'd property option \<Rightarrow> 'd pclient \<Rightarrow> 'd pclient" where
  "put_property i p s = s\<lparr>properties := (properties s)(i \<mapsto> p)\<rparr>"

text \<open>The entry of a property, which is made when there is none.\<close>

definition find_or_create ::
  "('n, 'd) numbers \<Rightarrow> string \<Rightarrow> (string \<times> 'n json) list \<Rightarrow> 'd pclient \<Rightarrow> 'd pclient \<times> 'd property option result" where
  "find_or_create N i ob s =
     (case properties s i of
        Some q \<Rightarrow> (s, Inr q)
      | None \<Rightarrow>
          (case create_property N ob of
             Inl x \<Rightarrow> (if index_first N then put_property i None s else s, Inl x)
           | Inr p \<Rightarrow> (put_property i (Some p) s, Inr (Some p))))"

text \<open>
  One property of the list. The time stamp is stored before the values are read. The second
  component collects the identifiers of the properties that have changed.
\<close>

definition process_property ::
  "('n, 'd) numbers \<Rightarrow> (string \<times> 'n json) list \<Rightarrow> 'd pclient \<times> string list \<Rightarrow> ('d pclient \<times> string list) mutation" where
  "process_property N ob sc =
     (case sc of (s, changed) \<Rightarrow>
     (case as_json_string (member ob ''id'') of
        Inl x \<Rightarrow> throwing x sc
      | Inr i \<Rightarrow>
          (case find_or_create N i ob s of
             (s1, Inl x) \<Rightarrow> throwing x (s1, changed)
           | (s1, Inr None) \<Rightarrow> throwing (UndefinedBehaviour ''the property is NULL'') (s1, changed)
           | (s1, Inr (Some p)) \<Rightarrow>
               (case as_json_number (member ob ''timestamp'') of
                  Inl x \<Rightarrow> throwing x (s1, changed)
                | Inr ts \<Rightarrow>
                    (let p1 = p\<lparr>p_timestamp := to_uint64 N ts\<rparr> in
                     if p_timestamp p = to_uint64 N ts then ok (put_property i (Some p1) s1, changed)
                     else case assign_values N ob p1 of
                       (p2, None) \<Rightarrow> ok (put_property i (Some p2) s1, changed @ [i])
                     | (p2, Some x) \<Rightarrow> throwing x (put_property i (Some p2) s1, changed))))))"

fun process_each ::
  "('n, 'd) numbers \<Rightarrow> 'n json list \<Rightarrow> 'd pclient \<times> string list \<Rightarrow> ('d pclient \<times> string list) mutation" where
  "process_each N [] sc = ok sc"
| "process_each N (J_Object ob # js) sc = andThen (process_property N ob sc) (process_each N js)"
| "process_each N (_ # js) sc = process_each N js sc"

definition notify_changed :: "string list \<Rightarrow> 'd pclient \<Rightarrow> 'd pclient" where
  "notify_changed changed s =
     fold (\<lambda>i s. case properties s i of Some (Some p) \<Rightarrow> notify_listener (Changed p) s | _ \<Rightarrow> s) changed s"

definition process_property_list :: "('n, 'd) numbers \<Rightarrow> 'n json \<Rightarrow> 'd pclient \<Rightarrow> 'd pclient mutation" where
  "process_property_list N j s =
     (case j of
        J_Object device \<Rightarrow>
          (case member device ''properties'' of
             J_Array ps \<Rightarrow>
               (case process_each N ps (s, []) of
                  ((s1, changed), None) \<Rightarrow> ok (notify_changed changed s1)
                | ((s1, changed), Some x) \<Rightarrow> throwing x s1)
           | _ \<Rightarrow> ok s)
      | _ \<Rightarrow> ok s)"

definition device_url :: "'d pclient \<Rightarrow> string" where
  "device_url s = ''/devices/'' @ device_id s"

definition lost_server :: "'d pclient \<Rightarrow> 'd pclient" where
  "lost_server s = s\<lparr>http := None, properties := Map.empty\<rparr>"

text \<open>A poll of the server, given its answer. The status is not looked at.\<close>

definition poll_properties :: "('n, 'd) numbers \<Rightarrow> 'n response \<Rightarrow> 'd pclient \<Rightarrow> 'd pclient mutation" where
  "poll_properties N r s =
     (case r of
        Response st (Body j) \<Rightarrow> process_property_list N j s
      | Response st Body_Json_Error \<Rightarrow> throwing json_exception s
      | _ \<Rightarrow> ok (notify_listener Disconnected (notify_listener Device_Error (lost_server s))))"

text \<open>The client object is stored before the list is processed.\<close>

definition test_server ::
  "('n, 'd) numbers \<Rightarrow> string \<Rightarrow> string \<Rightarrow> 'n response \<Rightarrow> 'd pclient \<Rightarrow> 'd pclient \<times> bool result" where
  "test_server N name url r s =
     (case r of
        Response True (Body j) \<Rightarrow>
          (case process_property_list N j (s\<lparr>server_name := name, http := Some url\<rparr>) of
             (s1, None) \<Rightarrow> (notify_listener Connected s1, Inr True)
           | (s1, Some x) \<Rightarrow> (s1, Inl x))
      | Response True Body_Json_Error \<Rightarrow> (s, Inl json_exception)
      | _ \<Rightarrow> (s, Inr False))"

text \<open>
  The servers in the order of the map; \<open>ask\<close> is what the server at an address answers to the
  request for the device.
\<close>

fun search_server ::
  "('n, 'd) numbers \<Rightarrow> (string \<Rightarrow> 'n response) \<Rightarrow> (string \<times> string) list \<Rightarrow> 'd pclient \<Rightarrow> 'd pclient mutation" where
  "search_server N ask [] s = ok s"
| "search_server N ask ((name, url) # ss) s =
     (case test_server N name url (ask url) s of
        (s1, Inl x) \<Rightarrow> throwing x s1
      | (s1, Inr True) \<Rightarrow> ok s1
      | (s1, Inr False) \<Rightarrow> search_server N ask ss s1)"

text \<open>\<open>listing\<close> is an enumeration of the map of servers.\<close>

definition client_loop ::
  "('n, 'd) numbers \<Rightarrow> (string \<Rightarrow> 'n response) \<Rightarrow> (string \<times> string) list \<Rightarrow> 'd pclient \<Rightarrow> 'd pclient mutation" where
  "client_loop N ask listing s =
     (case http s of
        Some url \<Rightarrow> poll_properties N (ask url) s
      | None \<Rightarrow> search_server N ask listing s)"

definition service_added :: "string \<Rightarrow> string \<Rightarrow> string \<Rightarrow> 'd pclient \<Rightarrow> 'd pclient" where
  "service_added name ip port s =
     s\<lparr>servers := (servers s)(name \<mapsto> ''http://'' @ ip @ '':'' @ port)\<rparr>"

definition service_removed :: "string \<Rightarrow> 'd pclient \<Rightarrow> 'd pclient" where
  "service_removed name s =
     (let s1 = s\<lparr>servers := (servers s)(name := None)\<rparr> in
      if http s1 = None \<or> server_name s1 \<noteq> name then s1 else notify_listener Disconnected (lost_server s1))"

definition exists_property :: "string \<Rightarrow> 'd pclient \<Rightarrow> bool" where
  "exists_property i s \<longleftrightarrow> properties s i \<noteq> None"

text \<open>Asking for a property that is not known makes an entry with the null pointer.\<close>

definition get_property :: "string \<Rightarrow> 'd pclient \<Rightarrow> 'd pclient \<times> 'd property option" where
  "get_property i s =
     (case properties s i of Some q \<Rightarrow> (s, q) | None \<Rightarrow> (put_property i None s, None))"

section \<open>Setting a property\<close>

text \<open>A request: the address, the path and the new value.\<close>

type_synonym 'n http_request = "string \<times> string \<times> 'n json"

datatype 'd new_value = N_Bool bool | N_Long "64 word" | N_ULong "64 word" | N_Double 'd | N_String string

fun new_type :: "'d new_value \<Rightarrow> prop_value_type" where
  "new_type (N_Bool b) = T_bool"
| "new_type (N_Long v) = T_long"
| "new_type (N_ULong v) = T_ulong"
| "new_type (N_Double v) = T_double"
| "new_type (N_String t) = T_string"

fun new_json :: "('n, 'd) numbers \<Rightarrow> 'd new_value \<Rightarrow> 'n json" where
  "new_json N (N_Bool b) = J_Bool b"
| "new_json N (N_Long v) = J_Number (of_int64 N v)"
| "new_json N (N_ULong v) = J_Number (of_uint64 N v)"
| "new_json N (N_Double v) = J_Number (of_double N v)"
| "new_json N (N_String t) = J_String t"

text \<open>
  The functions \<open>set_long\<close> and so on, with \<open>update_property\<close> and \<open>send_property_update\<close>: the
  request that is sent, if any, and the result; \<open>accepted\<close> tells whether the server answers a
  request with OK.
\<close>

definition set_property ::
  "('n, 'd) numbers \<Rightarrow> ('n http_request \<Rightarrow> bool) \<Rightarrow> 'd property \<Rightarrow> 'd new_value \<Rightarrow> 'd pclient \<Rightarrow> 'n http_request option \<times> bool" where
  "set_property N accepted p v s =
     (if p_type p \<noteq> new_type v then (None, False)
      else case http s of
        None \<Rightarrow> (None, False)
      | Some url \<Rightarrow>
          (let r = (url, p_uri p, J_Object [(''value'', new_json N v)]) in (Some r, accepted r)))"

section \<open>The devices\<close>

text \<open>
  A device thread as the listener of its client. The rotating turntable reads its speed as a
  double, the conveyor belt as a long. The two members start as
  false.
\<close>

record belt_device =
  d_connected :: bool
  d_running :: bool

definition device_notice :: "('d property \<Rightarrow> bool) \<Rightarrow> 'd notice \<Rightarrow> belt_device \<Rightarrow> belt_device" where
  "device_notice moves n d =
     (case n of
        Connected \<Rightarrow> d\<lparr>d_connected := True\<rparr>
      | Disconnected \<Rightarrow> d\<lparr>d_connected := False, d_running := False\<rparr>
      | Device_Error \<Rightarrow> d
      | Changed p \<Rightarrow> if p_id p = ''current_speed'' then d\<lparr>d_running := moves p\<rparr> else d)"

definition turntable_moves :: "('n, 'd) numbers \<Rightarrow> 'd property \<Rightarrow> bool" where
  "turntable_moves N p \<longleftrightarrow> as_double N p \<noteq> zero_double N"

definition belt_moves :: "'d property \<Rightarrow> bool" where
  "belt_moves p \<longleftrightarrow> as_long p \<noteq> 0"

text \<open>\<open>start\<close> and \<open>stop\<close> of a device, with the value that is set.\<close>

definition set_target_speed ::
  "('n, 'd) numbers \<Rightarrow> ('n http_request \<Rightarrow> bool) \<Rightarrow> 'd new_value \<Rightarrow> 'd pclient \<Rightarrow> 'd pclient \<times> 'n http_request option" where
  "set_target_speed N accepted v s =
     (if http s = None then (s, None)
      else case get_property ''target_speed'' s of
        (s1, None) \<Rightarrow> (s1, None)
      | (s1, Some p) \<Rightarrow> (s1, fst (set_property N accepted p v s1)))"

definition belt_start where
  "belt_start N accepted = set_target_speed N accepted (N_Long 100)"

definition belt_stop where
  "belt_stop N accepted = set_target_speed N accepted (N_Long 0)"

text \<open>The turntable sets 180.0 and 0.0; the former is an argument.\<close>

definition turntable_start where
  "turntable_start N accepted d180 = set_target_speed N accepted (N_Double d180)"

definition turntable_stop where
  "turntable_stop N accepted = set_target_speed N accepted (N_Double (zero_double N))"

section \<open>The device mirrors the server\<close>

text \<open>Entries belong to their key, and have been stamped by a server.\<close>

definition entries_ok :: "'d pclient \<Rightarrow> bool" where
  "entries_ok s \<longleftrightarrow> (\<forall>i p. properties s i = Some (Some p) \<longrightarrow> p_id p = i \<and> p_timestamp p \<noteq> 0)"

text \<open>A server that never uses the time stamp 0, which new entries have.\<close>

fun stamped :: "('n, 'd) numbers \<Rightarrow> 'n json \<Rightarrow> bool" where
  "stamped N (J_Object device) =
     (case member device ''properties'' of
        J_Array ps \<Rightarrow> \<forall>ob ts. J_Object ob \<in> set ps \<longrightarrow> member ob ''timestamp'' = J_Number ts \<longrightarrow> to_uint64 N ts \<noteq> 0
      | _ \<Rightarrow> True)"
| "stamped N _ = True"

definition same_but_entries :: "'d pclient \<Rightarrow> 'd pclient \<Rightarrow> bool" where
  "same_but_entries s s' \<longleftrightarrow> s' = s\<lparr>properties := properties s'\<rparr>"

lemma same_but_entries_iff: "same_but_entries s s' \<longleftrightarrow> (\<exists>m. s' = s\<lparr>properties := m\<rparr>)"
  by (auto simp: same_but_entries_def)

lemma same_but_entries_refl [simp]: "same_but_entries s s"
  by (simp add: same_but_entries_def)

lemma same_but_entries_trans [trans]: "same_but_entries s s1 \<Longrightarrow> same_but_entries s1 s2 \<Longrightarrow> same_but_entries s s2"
  by (auto simp: same_but_entries_iff)

lemma same_but_entries_put [simp]: "same_but_entries s (put_property i q s)"
  by (auto simp: same_but_entries_iff put_property_def)

lemma assign_values_keeps:
  assumes "assign_values N ob p = (p', x)"
  shows "p_id p' = p_id p" "p_timestamp p' = p_timestamp p"
  using assms
  by (auto simp: assign_values_def assign_three_def assign_number_def andThen_def ok_def throwing_def
      split: prop_value_type.splits sum.splits prod.splits option.splits)

lemma create_property_id:
  "create_property N ob = Inr p \<Longrightarrow> as_json_string (member ob ''id'') = Inr (p_id p) \<and> p_timestamp p = 0"
  by (auto simp: create_property_def bind_result_def split: sum.splits)

lemma as_json_number_Inr: "as_json_number j = Inr n \<longleftrightarrow> j = J_Number n"
  by (cases j) auto

text \<open>One property, when nothing is thrown.\<close>

lemma process_property_step:
  assumes "process_property N ob (s, ch) = ((s', ch'), None)" and "entries_ok s"
    and "\<forall>ts. member ob ''timestamp'' = J_Number ts \<longrightarrow> to_uint64 N ts \<noteq> 0"
  shows "same_but_entries s s' \<and> entries_ok s' \<and>
    (\<exists>i p. properties s' i = Some (Some p) \<and> (\<forall>j. j \<noteq> i \<longrightarrow> properties s' j = properties s j) \<and>
       (ch' = ch @ [i] \<or> ch' = ch \<and> properties s' i = properties s i))"
proof -
  obtain i where i: "as_json_string (member ob ''id'') = Inr i"
    using assms(1) by (auto simp: process_property_def throwing_def split: sum.splits)
  obtain s1 p where f: "find_or_create N i ob s = (s1, Inr (Some p))"
    using assms(1) i by (auto simp: process_property_def throwing_def split: sum.splits prod.splits option.splits)
  have s1: "same_but_entries s s1" "\<forall>j. j \<noteq> i \<longrightarrow> properties s1 j = properties s j" "p_id p = i"
      "properties s i = Some (Some p) \<or> p_timestamp p = 0"
      "properties s i = Some (Some p) \<Longrightarrow> s1 = s"
    using f assms(2) create_property_id [of N ob p] i
    by (auto simp: find_or_create_def same_but_entries_def put_property_def entries_ok_def
        split: option.splits sum.splits if_splits)
  obtain ts where ts: "member ob ''timestamp'' = J_Number ts"
    using assms(1) i f as_json_number_Inr [of "member ob ''timestamp''"]
    by (auto simp: process_property_def throwing_def split: sum.splits)
  let ?p1 = "p\<lparr>p_timestamp := to_uint64 N ts\<rparr>"
  show ?thesis
  proof (cases "p_timestamp p = to_uint64 N ts")
    case True
    then have old: "properties s i = Some (Some p)" "s1 = s"
      using s1(4,5) assms(3) ts by auto
    have "?p1 = p"
      using True by simp
    moreover have "s' = put_property i (Some ?p1) s" "ch' = ch"
      using assms(1) i f ts True old(2) by (simp_all add: process_property_def ok_def)
    ultimately have "s' = put_property i (Some p) s" "ch' = ch"
      by simp_all
    moreover have "put_property i (Some p) s = s"
      using old(1) by (simp add: put_property_def fun_upd_idem)
    ultimately show ?thesis
      using old(1) assms(2) by (auto simp: same_but_entries_def)
  next
    case False
    obtain p2 where p2: "assign_values N ob ?p1 = (p2, None)"
      using assms(1) i f ts False
      by (auto simp: process_property_def throwing_def split: prod.splits option.splits)
    then have s': "s' = put_property i (Some p2) s1" "ch' = ch @ [i]"
      using assms(1) i f ts False by (simp_all add: process_property_def ok_def)
    have "p_id p2 = i" "p_timestamp p2 \<noteq> 0"
      using assign_values_keeps [OF p2] s1(3) assms(3) ts by simp_all
    moreover have "same_but_entries s s'"
      using s1(1) s'(1) same_but_entries_trans same_but_entries_put by blast
    ultimately show ?thesis
      using s' s1(2) assms(2) by (auto simp: entries_ok_def put_property_def)
  qed
qed

lemma process_each_step:
  assumes "process_each N js (s, ch) = ((s', ch'), None)" and "entries_ok s"
    and "\<forall>ob ts. J_Object ob \<in> set js \<longrightarrow> member ob ''timestamp'' = J_Number ts \<longrightarrow> to_uint64 N ts \<noteq> 0"
    and "\<forall>i \<in> set ch. \<exists>p. properties s i = Some (Some p)"
  shows "same_but_entries s s' \<and> entries_ok s' \<and> (\<forall>i \<in> set ch'. \<exists>p. properties s' i = Some (Some p)) \<and>
    set ch \<subseteq> set ch' \<and> (\<forall>i. i \<notin> set ch' \<longrightarrow> properties s' i = properties s i)"
  using assms
proof (induction js arbitrary: s ch)
  case Nil
  then show ?case by (simp add: ok_def same_but_entries_def)
next
  case (Cons j js)
  show ?case
  proof (cases "\<exists>ob. j = J_Object ob")
    case False
    then have "process_each N (j # js) (s, ch) = process_each N js (s, ch)"
      by (cases j) auto
    then show ?thesis
      using Cons.IH [of s ch] Cons.prems by simp
  next
    case True
    then obtain ob where ob: "j = J_Object ob" ..
    obtain s1 ch1 where one: "process_property N ob (s, ch) = ((s1, ch1), None)"
        "process_each N js (s1, ch1) = ((s', ch'), None)"
      using Cons.prems(1) ob by (auto simp: andThen_def split: prod.splits option.splits)
    have "\<forall>ts. member ob ''timestamp'' = J_Number ts \<longrightarrow> to_uint64 N ts \<noteq> 0"
      using Cons.prems(3) ob by simp
    from process_property_step [OF one(1) Cons.prems(2) this]
    obtain i p where step: "same_but_entries s s1" "entries_ok s1" "properties s1 i = Some (Some p)"
        "\<forall>j. j \<noteq> i \<longrightarrow> properties s1 j = properties s j"
        "ch1 = ch @ [i] \<or> ch1 = ch \<and> properties s1 i = properties s i"
      by blast
    have "\<forall>i \<in> set ch1. \<exists>p. properties s1 i = Some (Some p)"
    proof
      fix k
      assume "k \<in> set ch1"
      then show "\<exists>p. properties s1 k = Some (Some p)"
        using step(3-5) Cons.prems(4) by (cases "k = i") auto
    qed
    then have ih: "same_but_entries s1 s'" "entries_ok s'" "\<forall>i \<in> set ch'. \<exists>p. properties s' i = Some (Some p)"
        "set ch1 \<subseteq> set ch'" "\<forall>i. i \<notin> set ch' \<longrightarrow> properties s' i = properties s1 i"
      using Cons.IH [OF one(2) step(2)] Cons.prems(3) by simp_all
    have "properties s' k = properties s k" if "k \<notin> set ch'" for k
      using that ih(4,5) step(4,5) by (cases "k = i") auto
    moreover have "same_but_entries s s'"
      using step(1) ih(1) by (rule same_but_entries_trans)
    ultimately show ?thesis
      using ih step(5) by auto
  qed
qed

text \<open>The device after the calls of the listener so far; both members start as false.\<close>

definition device_of :: "('d property \<Rightarrow> bool) \<Rightarrow> 'd pclient \<Rightarrow> belt_device" where
  "device_of moves s = fold (device_notice moves) (notices s) \<lparr>d_connected = False, d_running = False\<rparr>"

definition speed_entry_moves :: "('d property \<Rightarrow> bool) \<Rightarrow> 'd pclient \<Rightarrow> bool" where
  "speed_entry_moves moves s \<longleftrightarrow> (case properties s ''current_speed'' of Some (Some p) \<Rightarrow> moves p | _ \<Rightarrow> False)"

lemma device_of_notify [simp]: "device_of moves (notify_listener n s) = device_notice moves n (device_of moves s)"
  by (simp add: device_of_def notify_listener_def)

lemma notify_fields [simp]:
  "properties (notify_listener n s) = properties s" "http (notify_listener n s) = http s" "entries_ok (notify_listener n s) = entries_ok s"
  "speed_entry_moves moves (notify_listener n s) = speed_entry_moves moves s"
  by (simp_all add: notify_listener_def entries_ok_def speed_entry_moves_def)

lemma notify_changed_Cons:
  "notify_changed (i # is1) s =
     notify_changed is1 (case properties s i of Some (Some p) \<Rightarrow> notify_listener (Changed p) s | _ \<Rightarrow> s)"
  by (simp add: notify_changed_def)

lemma notify_changed_fields:
  "properties (notify_changed ch s) = properties s \<and> http (notify_changed ch s) = http s"
  by (induction ch arbitrary: s)
    (simp add: notify_changed_def, simp add: notify_changed_Cons split: option.split)

lemma notify_changed_device:
  assumes "entries_ok s" and "\<forall>i \<in> set ch. \<exists>p. properties s i = Some (Some p)"
  shows "d_connected (device_of moves (notify_changed ch s)) = d_connected (device_of moves s) \<and>
    d_running (device_of moves (notify_changed ch s)) =
      (if ''current_speed'' \<in> set ch then speed_entry_moves moves s else d_running (device_of moves s))"
  using assms
proof (induction ch arbitrary: s)
  case Nil
  then show ?case by (simp add: notify_changed_def)
next
  case (Cons i ch)
  obtain p where p: "properties s i = Some (Some p)"
    using Cons.prems(2) by auto
  then have "p_id p = i"
    using Cons.prems(1) by (simp add: entries_ok_def)
  then show ?case
    using p Cons.IH [of "notify_listener (Changed p) s"] Cons.prems
    by (auto simp: notify_changed_Cons device_notice_def speed_entry_moves_def)
qed

text \<open>What holds between the calls.\<close>

definition mirrored :: "('d property \<Rightarrow> bool) \<Rightarrow> 'd pclient \<Rightarrow> bool" where
  "mirrored moves s \<longleftrightarrow> entries_ok s \<and>
     (d_connected (device_of moves s) \<longleftrightarrow> http s \<noteq> None) \<and>
     (d_running (device_of moves s) \<longleftrightarrow> speed_entry_moves moves s)"

text \<open>A list, processed by a client that may or may not have told its listener that it is connected.\<close>

lemma process_property_list_device:
  assumes run: "process_property_list N j s = (s', None)" and "stamped N j" and "entries_ok s"
    and "d_running (device_of moves s) \<longleftrightarrow> speed_entry_moves moves s"
  shows "entries_ok s' \<and> http s' = http s \<and> d_connected (device_of moves s') = d_connected (device_of moves s) \<and>
    (d_running (device_of moves s') \<longleftrightarrow> speed_entry_moves moves s')"
proof (cases "\<exists>dev ps. j = J_Object dev \<and> member dev ''properties'' = J_Array ps")
  case False
  then have "s' = s"
    using run by (auto simp: process_property_list_def ok_def split: json.splits)
  then show ?thesis
    using assms by simp
next
  case True
  then obtain dev ps where j: "j = J_Object dev" "member dev ''properties'' = J_Array ps"
    by blast
  obtain s1 ch where each: "process_each N ps (s, []) = ((s1, ch), None)" and s': "s' = notify_changed ch s1"
    using run j by (auto simp: process_property_list_def ok_def throwing_def split: prod.splits option.splits)
  have "\<forall>ob ts. J_Object ob \<in> set ps \<longrightarrow> member ob ''timestamp'' = J_Number ts \<longrightarrow> to_uint64 N ts \<noteq> 0"
    using assms(2) j by simp
  from process_each_step [OF each assms(3) this]
  have step: "same_but_entries s s1" "entries_ok s1" "\<forall>i \<in> set ch. \<exists>p. properties s1 i = Some (Some p)"
      "\<forall>i. i \<notin> set ch \<longrightarrow> properties s1 i = properties s i"
    by simp_all
  have same: "http s1 = http s" "device_of moves s1 = device_of moves s"
    using step(1) by (auto simp: same_but_entries_iff device_of_def)
  have "speed_entry_moves moves s1 = speed_entry_moves moves s" if "''current_speed'' \<notin> set ch"
    using that step(4) by (simp add: speed_entry_moves_def)
  then show ?thesis
    using notify_changed_device [OF step(2,3), of moves] notify_changed_fields [of ch s1] step(2) same assms(4) s'
    by (auto simp: entries_ok_def speed_entry_moves_def)
qed

text \<open>
  The calls of a client: the loop of its thread, the two calls of the service browser, and a
  device that asks for a property. They run one after the other, under the mutex of the client.
\<close>

datatype 'n pcall =
    Loop "string \<Rightarrow> 'n response" "(string \<times> string) list"
  | Added string string string
  | Removed string
  | Asked string

fun client_call :: "('n, 'd) numbers \<Rightarrow> 'n pcall \<Rightarrow> 'd pclient \<Rightarrow> 'd pclient mutation" where
  "client_call N (Loop ask listing) s = client_loop N ask listing s"
| "client_call N (Added name ip port) s = ok (service_added name ip port s)"
| "client_call N (Removed name) s = ok (service_removed name s)"
| "client_call N (Asked i) s = ok (fst (get_property i s))"

fun client_run :: "('n, 'd) numbers \<Rightarrow> 'n pcall list \<Rightarrow> 'd pclient \<Rightarrow> 'd pclient mutation" where
  "client_run N [] s = ok s"
| "client_run N (c # cs) s = andThen (client_call N c s) (client_run N cs)"

definition stamped_answers :: "('n, 'd) numbers \<Rightarrow> (string \<Rightarrow> 'n response) \<Rightarrow> bool" where
  "stamped_answers N ask \<longleftrightarrow> (\<forall>url st j. ask url = Response st (Body j) \<longrightarrow> stamped N j)"

lemma mirrored_cong:
  "properties s' = properties s \<Longrightarrow> http s' = http s \<Longrightarrow> notices s' = notices s \<Longrightarrow> mirrored moves s' = mirrored moves s"
  by (simp add: mirrored_def entries_ok_def device_of_def speed_entry_moves_def)

lemma lost_server_mirrored:
  "mirrored moves (notify_listener Disconnected (lost_server s))"
  "mirrored moves (notify_listener Disconnected (notify_listener Device_Error (lost_server s)))"
  by (simp_all add: mirrored_def entries_ok_def speed_entry_moves_def lost_server_def notify_listener_def
      device_of_def device_notice_def)

lemma poll_mirrored:
  assumes "poll_properties N r s = (s', None)" and "mirrored moves s" and "\<forall>st j. r = Response st (Body j) \<longrightarrow> stamped N j"
  shows "mirrored moves s'"
proof (cases "\<exists>st j. r = Response st (Body j)")
  case True
  then obtain st j where r: "r = Response st (Body j)" by blast
  then have "process_property_list N j s = (s', None)" "stamped N j"
    using assms(1,3) by (simp_all add: poll_properties_def)
  then show ?thesis
    using process_property_list_device [of N j s s' moves] assms(2) by (simp add: mirrored_def)
next
  case False
  then show ?thesis
    using assms(1) lost_server_mirrored(2)
    by (auto simp: poll_properties_def ok_def throwing_def split: response.splits body.splits)
qed

lemma test_server_mirrored:
  assumes "test_server N name url r s = (s', Inr b)" and "mirrored moves s" and "http s = None"
    and "\<forall>st j. r = Response st (Body j) \<longrightarrow> stamped N j"
  shows "mirrored moves s' \<and> (b \<or> s' = s)"
proof (cases "\<exists>j. r = Response True (Body j)")
  case True
  let ?s = "s\<lparr>server_name := name, http := Some url\<rparr>"
  from True obtain j where r: "r = Response True (Body j)" ..
  obtain s1 where run: "process_property_list N j ?s = (s1, None)" "s' = notify_listener Connected s1" "b"
    using assms(1) r by (auto simp: test_server_def split: prod.splits option.splits)
  have "entries_ok ?s" "d_running (device_of moves ?s) \<longleftrightarrow> speed_entry_moves moves ?s"
    using assms(2) by (simp_all add: mirrored_def entries_ok_def device_of_def speed_entry_moves_def)
  from process_property_list_device [OF run(1) _ this] show ?thesis
    using run(2,3) assms(4) r by (simp add: mirrored_def device_notice_def)
next
  case False
  then show ?thesis
    using assms(1,2) by (auto simp: test_server_def split: response.splits bool.splits body.splits)
qed

lemma search_mirrored:
  assumes "search_server N ask listing s = (s', None)" and "mirrored moves s" and "http s = None" and "stamped_answers N ask"
  shows "mirrored moves s'"
  using assms
proof (induction listing arbitrary: s)
  case Nil
  then show ?case by (simp add: ok_def)
next
  case (Cons e listing)
  obtain name url where e: "e = (name, url)" by (cases e)
  obtain s1 b where t: "test_server N name url (ask url) s = (s1, Inr b)"
    using Cons.prems(1) e by (auto simp: throwing_def split: prod.splits sum.splits)
  have m: "mirrored moves s1 \<and> (b \<or> s1 = s)"
    using test_server_mirrored [OF t Cons.prems(2,3)] Cons.prems(4) by (simp add: stamped_answers_def)
  show ?case
  proof (cases b)
    case True
    then show ?thesis
      using m Cons.prems(1) e t by (simp add: ok_def)
  next
    case False
    then show ?thesis
      using m Cons.IH [of s] Cons.prems e t by simp
  qed
qed

lemma client_call_mirrored:
  assumes "client_call N c s = (s', None)" and "mirrored moves s" and "\<forall>ask l. c = Loop ask l \<longrightarrow> stamped_answers N ask"
  shows "mirrored moves s'"
proof (cases c)
  case (Loop ask l)
  show ?thesis
  proof (cases "http s")
    case None
    then show ?thesis
      using assms Loop search_mirrored [of N ask l s s' moves] by (simp add: client_loop_def)
  next
    case (Some url)
    then show ?thesis
      using assms Loop poll_mirrored [of N "ask url" s s' moves] by (simp add: client_loop_def stamped_answers_def)
  qed
next
  case (Added name ip port)
  then show ?thesis
    using assms(1,2) mirrored_cong [of s' s moves] by (auto simp: ok_def service_added_def)
next
  case (Removed name)
  then show ?thesis
    using assms(1,2) lost_server_mirrored(1) mirrored_cong [of s' s moves]
    by (auto simp: ok_def service_removed_def Let_def)
next
  case (Asked i)
  have "mirrored moves (put_property i None s)" if "properties s i = None"
    using that assms(2)
    by (auto simp: mirrored_def put_property_def entries_ok_def device_of_def speed_entry_moves_def)
  then show ?thesis
    using assms(1,2) Asked by (auto simp: ok_def get_property_def split: option.splits)
qed

lemma client_run_mirrored:
  assumes "client_run N cs s = (s', None)" and "mirrored moves s"
    and "\<forall>ask l. Loop ask l \<in> set cs \<longrightarrow> stamped_answers N ask"
  shows "mirrored moves s'"
  using assms
proof (induction cs arbitrary: s)
  case Nil
  then show ?case by (simp add: ok_def)
next
  case (Cons c cs)
  obtain s1 where "client_call N c s = (s1, None)" "client_run N cs s1 = (s', None)"
    using Cons.prems(1) by (auto simp: andThen_def split: prod.splits option.splits)
  moreover from this have "mirrored moves s1"
    using client_call_mirrored [of N c s s1 moves] Cons.prems(2,3) by fastforce
  ultimately show ?case
    using Cons.IH [of s1] Cons.prems(3) by fastforce
qed

text \<open>
  C13. A device mirrors its server. Let a new client run through any calls, of its loop, of the
  service browser, of the device, none of which throws, where the servers never use the time stamp
  0. Then its device, which has heard nothing but the notices, is connected exactly if the client
  has a server, and runs exactly if the client knows the current speed and it moves the device:
  no notice is missing, none is out of date, whatever the order of the properties in the lists
  and however often a server is lost and found.
\<close>

theorem device_mirrors_server:
  assumes "client_run N calls (prop_client_new dev) = (s, None)"
    and "\<forall>ask listing. Loop ask listing \<in> set calls \<longrightarrow> stamped_answers N ask"
  shows "(d_connected (device_of moves s) \<longleftrightarrow> http s \<noteq> None) \<and>
    (d_running (device_of moves s) \<longleftrightarrow> (\<exists>p. properties s ''current_speed'' = Some (Some p) \<and> moves p))"
proof -
  have "mirrored moves (prop_client_new dev)"
    by (simp add: mirrored_def prop_client_new_def entries_ok_def device_of_def speed_entry_moves_def)
  from client_run_mirrored [OF assms(1) this assms(2)] show ?thesis
    by (auto simp: mirrored_def speed_entry_moves_def split: option.splits)
qed

text \<open>A server with one property, the speed of a belt, and integers for all numbers.\<close>

definition demo_numbers :: "(int, int) numbers" where
  "demo_numbers = \<lparr>to_int64 = word_of_int, to_uint64 = word_of_int, to_double = id, of_int64 = sint,
     of_uint64 = uint, of_double = id, zero_double = 0, index_first = True\<rparr>"

definition demo_speed :: "int \<Rightarrow> int \<Rightarrow> (string \<times> int json) list" where
  "demo_speed ts v =
     [(''id'', J_String ''current_speed''), (''name'', J_String ''speed''), (''uri'', J_String ''/speed''),
      (''description'', J_String []), (''readonly'', J_Bool True), (''type'', J_String ''long''),
      (''timestamp'', J_Number ts), (''value'', J_Number v), (''min'', J_Number 0), (''max'', J_Number 100)]"

definition demo_device :: "int \<Rightarrow> int \<Rightarrow> (string \<times> int json) list" where
  "demo_device ts v = [(''properties'', J_Array [J_Null, J_Object (demo_speed ts v)])]"

definition demo_ask :: "string \<Rightarrow> int response" where
  "demo_ask url = Response True (Body (J_Object (demo_device 7 50)))"

definition demo_calls :: "int pcall list" where
  "demo_calls = [Added ''hub'' ''10.0.0.1'' ''80'', Loop demo_ask [(''hub'', ''http://10.0.0.1:80'')]]"

lemma demo_stamped: "stamped_answers demo_numbers demo_ask"
  by (simp add: stamped_answers_def demo_ask_def demo_device_def demo_speed_def member_def demo_numbers_def)

lemmas client_defs = client_loop_def test_server_def process_property_list_def process_property_def
  find_or_create_def create_property_def bind_result_def three_def assign_values_def assign_three_def
  assign_number_def notify_changed_def put_property_def notify_listener_def service_added_def prop_client_new_def ok_def
  throwing_def andThen_def member_def read_type_def Let_def

lemma demo_run:
  "\<exists>s p. client_run demo_numbers demo_calls (prop_client_new ''belt'') = (s, None) \<and> http s = Some ''http://10.0.0.1:80'' \<and>
     properties s ''current_speed'' = Some (Some p) \<and> belt_moves p"
  by (simp add: client_defs demo_calls_def demo_ask_def demo_device_def demo_speed_def demo_numbers_def
      belt_moves_def as_long_def)

theorem device_mirrors_server_witness:
  "\<exists>s. client_run demo_numbers demo_calls (prop_client_new ''belt'') = (s, None) \<and>
     d_connected (device_of belt_moves s) \<and> d_running (device_of belt_moves s)"
proof -
  from demo_run obtain s p where s: "client_run demo_numbers demo_calls (prop_client_new ''belt'') = (s, None)"
      "http s = Some ''http://10.0.0.1:80''" "properties s ''current_speed'' = Some (Some p)" "belt_moves p"
    by blast
  have "\<forall>ask listing. Loop ask listing \<in> set demo_calls \<longrightarrow> stamped_answers demo_numbers ask"
    using demo_stamped by (simp add: demo_calls_def)
  from device_mirrors_server [OF s(1) this, of belt_moves] s show ?thesis
    by blast
qed

section \<open>A property that is not known\<close>

lemma process_property_keeps_null:
  assumes "process_property N ob (s, ch) = ((s', ch'), None)" and "properties s i = Some None"
  shows "properties s' i = Some None"
proof -
  obtain k s1 p where k: "find_or_create N k ob s = (s1, Inr (Some p))" "as_json_string (member ob ''id'') = Inr k"
    using assms(1) by (auto simp: process_property_def throwing_def split: sum.splits prod.splits option.splits)
  have "k \<noteq> i" "properties s1 i = Some None"
    using k(1) assms(2) by (auto simp: find_or_create_def put_property_def split: option.splits sum.splits if_splits)
  then show ?thesis
    using assms(1) k
    by (auto simp: process_property_def throwing_def ok_def put_property_def Let_def
        split: sum.splits prod.splits option.splits if_splits)
qed

lemma process_each_keeps_null:
  assumes "process_each N js sc = ((s', ch'), None)" and "properties (fst sc) i = Some None"
  shows "properties s' i = Some None"
  using assms
proof (induction N js sc rule: process_each.induct)
  case (2 N ob js sc)
  obtain sc1 where one: "process_property N ob sc = (sc1, None)" "process_each N js sc1 = ((s', ch'), None)"
    using 2(2) by (auto simp: andThen_def split: prod.splits option.splits)
  then have "properties (fst sc1) i = Some None"
    using process_property_keeps_null [of N ob "fst sc" "snd sc" "fst sc1" "snd sc1" i] 2(3) by simp
  then show ?case
    using 2(1) one by simp
qed (simp_all add: ok_def)

lemma process_each_append:
  "process_each N (js @ ks) sc = andThen (process_each N js sc) (process_each N ks)"
  by (induction N js sc rule: process_each.induct) (auto simp: andThen_def ok_def split: prod.splits option.splits)

text \<open>
  Asking a connected client for a property that it does not know yet returns the null
  pointer, and leaves the null pointer in the map: the client then claims that the property
  exists, and the first poll whose list has it, after properties that are processed without an
  exception, dereferences the null pointer.
\<close>

theorem unknown_property_crashes:
  assumes "http s = Some url" and "properties s i = None"
    and "get_property i s = (s1, q)"
    and "ask url = Response st (Body (J_Object dev))"
    and "member dev ''properties'' = J_Array (before @ J_Object ob # after)" and "member ob ''id'' = J_String i"
    and "process_each N before (s1, []) = (sc, None)"
  shows "q = None \<and> exists_property i s1 \<and>
    (\<exists>s2. client_loop N ask listing s1 = (s2, Some (UndefinedBehaviour ''the property is NULL'')))"
proof -
  have s1: "q = None" "s1 = put_property i None s"
    using assms(2,3) by (simp_all add: get_property_def)
  then have null: "properties s1 i = Some None" "http s1 = Some url"
    using assms(1) by (simp_all add: put_property_def)
  obtain s2 ch where sc: "sc = (s2, ch)" by (cases sc)
  have "properties s2 i = Some None"
    using process_each_keeps_null [of N before "(s1, [])" s2 ch i] assms(7) sc null by simp
  then have "process_property N ob (s2, ch) = throwing (UndefinedBehaviour ''the property is NULL'') (s2, ch)"
    using assms(6) by (simp add: process_property_def find_or_create_def)
  then have "process_each N (before @ J_Object ob # after) (s1, []) =
      ((s2, ch), Some (UndefinedBehaviour ''the property is NULL''))"
    using assms(7) sc by (simp add: process_each_append andThen_def throwing_def)
  then have "client_loop N ask listing s1 = (s2, Some (UndefinedBehaviour ''the property is NULL''))"
    using null(2) assms(4,5)
    by (simp add: client_loop_def poll_properties_def process_property_list_def throwing_def)
  then show ?thesis
    using s1 null(1) by (simp add: exists_property_def)
qed

definition demo_client :: "int pclient" where
  "demo_client = (prop_client_new ''belt'')\<lparr>http := Some ''http://10.0.0.1:80'', server_name := ''hub''\<rparr>"

theorem unknown_property_crashes_witness:
  "\<exists>s2. client_loop demo_numbers demo_ask [] (fst (get_property ''current_speed'' demo_client)) =
     (s2, Some (UndefinedBehaviour ''the property is NULL''))"
proof -
  have "http demo_client = Some ''http://10.0.0.1:80''" "properties demo_client ''current_speed'' = None"
    by (simp_all add: demo_client_def prop_client_new_def)
  moreover have "demo_ask ''http://10.0.0.1:80'' = Response True (Body (J_Object (demo_device 7 50)))"
    by (simp add: demo_ask_def)
  moreover have "member (demo_device 7 50) ''properties'' = J_Array ([J_Null] @ J_Object (demo_speed 7 50) # [])"
    by (simp add: demo_device_def member_def)
  moreover have "member (demo_speed 7 50) ''id'' = J_String ''current_speed''"
    by (simp add: demo_speed_def member_def)
  moreover have "process_each demo_numbers [J_Null] (fst (get_property ''current_speed'' demo_client), []) =
      ((fst (get_property ''current_speed'' demo_client), []), None)"
    by (simp add: ok_def)
  ultimately show ?thesis
    using unknown_property_crashes
      [of demo_client "''http://10.0.0.1:80''" "''current_speed''" "fst (get_property ''current_speed'' demo_client)"
          "snd (get_property ''current_speed'' demo_client)" demo_ask]
    by (metis prod.collapse)
qed

end
