(* ===== verification/Exception_Data.thy ===== *)
theory Exception_Data imports Strings_Util
begin

text \<open>
  What a \<open>fawkes::Exception\<close> carries, \<open>src/libs/core/exception.cpp\<close>: its messages, in a list on
  the heap with a pointer to the last element, its error number and its type. The components take
  exceptions as values (theory \<open>Prelude\<close>); here the lists they are made of are modelled with
  their pointers, and shown to behave as such values as long as no message holds a percent sign.
\<close>

section \<open>State\<close>

text \<open>An element of the list of messages.\<close>

record cell =
  cell_next :: "nat option"
  cell_msg :: string

record exc_obj =
  ex_messages :: "nat option"
  ex_end :: "nat option"
  ex_errno :: int
  ex_type :: string

text \<open>The memory: the elements that are allocated, the exceptions that exist. Addresses are not used twice.\<close>

record exc_heap =
  cells :: "nat \<Rightarrow> cell option"
  next_cell :: nat
  objects :: "nat \<Rightarrow> exc_obj option"

definition exc_heap_new :: exc_heap where
  "exc_heap_new = \<lparr>cells = Map.empty, next_cell = 0, objects = Map.empty\<rparr>"

definition exc_empty :: exc_obj where
  "exc_empty = \<lparr>ex_messages = None, ex_end = None, ex_errno = 0, ex_type = ''unknown''\<rparr>"

definition put_object :: "nat \<Rightarrow> exc_obj \<Rightarrow> exc_heap \<Rightarrow> exc_heap" where
  "put_object i e s = s\<lparr>objects := (objects s)(i \<mapsto> e)\<rparr>"

definition dangling :: "exc_heap \<Rightarrow> exc_heap mutation" where
  "dangling s = throwing (UndefinedBehaviour ''the memory was freed'') s"

definition with_object :: "nat \<Rightarrow> (exc_obj \<Rightarrow> exc_heap mutation) \<Rightarrow> exc_heap \<Rightarrow> exc_heap mutation" where
  "with_object i f s = (case objects s i of None \<Rightarrow> dangling s | Some e \<Rightarrow> f e)"

section \<open>Messages\<close>

text \<open>The list operations, given the message with its arguments in place.\<close>

definition append_nolock_nocopy :: "nat \<Rightarrow> string \<Rightarrow> exc_heap \<Rightarrow> exc_heap mutation" where
  "append_nolock_nocopy i msg s = with_object i (\<lambda>e.
     let a = next_cell s;
         s1 = s\<lparr>cells := (cells s)(a \<mapsto> \<lparr>cell_next = None, cell_msg = msg\<rparr>), next_cell := a + 1\<rparr>
     in if ex_messages e = None then ok (put_object i (e\<lparr>ex_messages := Some a, ex_end := Some a\<rparr>) s1)
        else case ex_end e of
          None \<Rightarrow> dangling s1
        | Some z \<Rightarrow>
            (case cells s z of
               None \<Rightarrow> dangling s1
             | Some c \<Rightarrow> ok (put_object i (e\<lparr>ex_end := Some a\<rparr>) (s1\<lparr>cells := (cells s1)(z \<mapsto> c\<lparr>cell_next := Some a\<rparr>)\<rparr>)))) s"

definition prepend_nolock :: "nat \<Rightarrow> string \<Rightarrow> exc_heap \<Rightarrow> exc_heap mutation" where
  "prepend_nolock i msg s = with_object i (\<lambda>e.
     let a = next_cell s;
         s1 = s\<lparr>cells := (cells s)(a \<mapsto> \<lparr>cell_next = ex_messages e, cell_msg = msg\<rparr>), next_cell := a + 1\<rparr>
     in if ex_messages e = None then ok (put_object i (e\<lparr>ex_messages := Some a, ex_end := Some a\<rparr>) s1)
        else ok (put_object i (e\<lparr>ex_messages := Some a\<rparr>) s1)) s"

text \<open>
  What \<open>printf\<close> makes of a format without arguments: two percent signs are one, and any other
  conversion reads an argument that is not there (\<open>%m\<close>, which reads none, is not modelled
  either).
\<close>

fun render :: "string \<Rightarrow> string option" where
  "render [] = Some []"
| "render (c # cs) =
     (if c = CHR ''%''
      then (case cs of d # ds \<Rightarrow> if d = CHR ''%'' then map_option ((#) d) (render ds) else None | [] \<Rightarrow> None)
      else map_option ((#) c) (render cs))"

text \<open>\<open>append()\<close> and \<open>prepend()\<close>, with \<open>None\<close> for the null pointer as format.\<close>

definition exc_append :: "nat \<Rightarrow> string option \<Rightarrow> exc_heap \<Rightarrow> exc_heap mutation" where
  "exc_append i msg s = (case msg of None \<Rightarrow> ok s | Some m \<Rightarrow> append_nolock_nocopy i m s)"

definition exc_prepend :: "nat \<Rightarrow> string option \<Rightarrow> exc_heap \<Rightarrow> exc_heap mutation" where
  "exc_prepend i msg s = (case msg of None \<Rightarrow> ok s | Some m \<Rightarrow> prepend_nolock i m s)"

text \<open>
  The loop of \<open>copy_messages()\<close>: every message of the other exception is the format of a new one.
\<close>

partial_function (option) copy_loop :: "nat \<Rightarrow> nat option \<Rightarrow> exc_heap \<Rightarrow> exc_heap mutation option" where
  "copy_loop i p s =
     (case p of
        None \<Rightarrow> Some (ok s)
      | Some a \<Rightarrow>
          (case cells s a of
             None \<Rightarrow> Some (dangling s)
           | Some c \<Rightarrow>
               (case render (cell_msg c) of
                  None \<Rightarrow> Some (throwing (UndefinedBehaviour ''the format asks for arguments'') s)
                | Some m \<Rightarrow>
                    (case append_nolock_nocopy i m s of
                       (s1, Some x) \<Rightarrow> Some (s1, Some x)
                     | (s1, None) \<Rightarrow>
                         (case cells s1 a of
                            None \<Rightarrow> Some (dangling s1)
                          | Some c1 \<Rightarrow> copy_loop i (cell_next c1) s1)))))"

text \<open>Both mutexes are locked, so that an exception that copies its own messages waits for itself.\<close>

definition copy_messages :: "nat \<Rightarrow> nat \<Rightarrow> exc_heap \<Rightarrow> exc_heap mutation option" where
  "copy_messages i j s =
     (case objects s j of
        None \<Rightarrow> Some (dangling s)
      | Some e \<Rightarrow> if i = j then None else copy_loop i (ex_messages e) s)"

partial_function (option) free_loop :: "nat option \<Rightarrow> exc_heap \<Rightarrow> exc_heap mutation option" where
  "free_loop p s =
     (case p of
        None \<Rightarrow> Some (ok s)
      | Some a \<Rightarrow>
          (case cells s a of
             None \<Rightarrow> Some (dangling s)
           | Some c \<Rightarrow> free_loop (cell_next c) (s\<lparr>cells := (cells s)(a := None)\<rparr>)))"

section \<open>Operations\<close>

text \<open>
  The constructors, the destructor and the functions that change an exception. Texts are formats
  with their arguments in place; \<open>strerror\<close> is that of the system, whose texts hold no percent
  sign.
\<close>

datatype exc_call =
    Exc_Empty nat | Exc_New nat "string option" | Exc_Errno nat int "string option" | Exc_Copy nat nat
  | Exc_Destroy nat | Exc_Append nat "string option" | Exc_Prepend nat "string option"
  | Exc_Append_Exc nat nat | Exc_Assign nat nat | Exc_Set_Type nat string

definition errno_text :: "(int \<Rightarrow> string) \<Rightarrow> int \<Rightarrow> string option \<Rightarrow> string" where
  "errno_text strerror err text =
     (case text of
        Some t \<Rightarrow> t @ '' (errno: '' @ to_string_int err @ '', '' @ strerror err @ '')''
      | None \<Rightarrow> ''Exception with errno='' @ to_string_int err @ '' ('' @ strerror err @ '')'')"

definition new_text :: "string option \<Rightarrow> string" where
  "new_text text = (case text of Some t \<Rightarrow> t | None \<Rightarrow> ''Unnkown Exception'')"

fun exc_op :: "(int \<Rightarrow> string) \<Rightarrow> exc_call \<Rightarrow> exc_heap \<Rightarrow> exc_heap mutation option" where
  "exc_op strerror (Exc_Empty i) s = Some (ok (put_object i exc_empty s))"
| "exc_op strerror (Exc_New i text) s =
     Some (append_nolock_nocopy i (new_text text) (put_object i exc_empty s))"
| "exc_op strerror (Exc_Errno i err text) s =
     Some (append_nolock_nocopy i (errno_text strerror err text) (put_object i (exc_empty\<lparr>ex_errno := err\<rparr>) s))"
| "exc_op strerror (Exc_Copy i j) s =
     (case objects s j of
        None \<Rightarrow> Some (dangling s)
      | Some e \<Rightarrow> copy_messages i j (put_object i (exc_empty\<lparr>ex_errno := ex_errno e, ex_type := ex_type e\<rparr>) s))"
| "exc_op strerror (Exc_Destroy i) s =
     (case objects s i of
        None \<Rightarrow> Some (dangling s)
      | Some e \<Rightarrow> free_loop (ex_messages e) (s\<lparr>objects := (objects s)(i := None)\<rparr>))"
| "exc_op strerror (Exc_Append i text) s = Some (exc_append i text s)"
| "exc_op strerror (Exc_Prepend i text) s = Some (exc_prepend i text s)"
| "exc_op strerror (Exc_Append_Exc i j) s = copy_messages i j s"
| "exc_op strerror (Exc_Assign i j) s = copy_messages i j s"
| "exc_op strerror (Exc_Set_Type i t) s = Some (with_object i (\<lambda>e. ok (put_object i (e\<lparr>ex_type := t\<rparr>) s)) s)"

fun exc_run :: "(int \<Rightarrow> string) \<Rightarrow> exc_call list \<Rightarrow> exc_heap \<Rightarrow> exc_heap mutation option" where
  "exc_run strerror [] s = Some (ok s)"
| "exc_run strerror (c # cs) s =
     (case exc_op strerror c s of
        None \<Rightarrow> None
      | Some (s1, Some x) \<Rightarrow> Some (s1, Some x)
      | Some (s1, None) \<Rightarrow> exc_run strerror cs s1)"

section \<open>Reading an exception\<close>

definition what :: "nat \<Rightarrow> exc_heap \<Rightarrow> string result" where
  "what i s =
     (case objects s i of
        None \<Rightarrow> Inl (UndefinedBehaviour ''the memory was freed'')
      | Some e \<Rightarrow>
          (case ex_messages e of
             None \<Rightarrow> Inr ''Unknown error''
           | Some a \<Rightarrow>
               (case cells s a of None \<Rightarrow> Inl (UndefinedBehaviour ''the memory was freed'') | Some c \<Rightarrow> Inr (cell_msg c))))"

text \<open>The iterator: its position, the next one, and the message there.\<close>

definition exc_begin :: "nat \<Rightarrow> exc_heap \<Rightarrow> nat option" where
  "exc_begin i s = (case objects s i of None \<Rightarrow> None | Some e \<Rightarrow> ex_messages e)"

definition exc_iter_next :: "nat option \<Rightarrow> exc_heap \<Rightarrow> nat option result" where
  "exc_iter_next p s =
     (case p of
        None \<Rightarrow> Inr None
      | Some a \<Rightarrow>
          (case cells s a of None \<Rightarrow> Inl (UndefinedBehaviour ''the memory was freed'') | Some c \<Rightarrow> Inr (cell_next c)))"

definition exc_iter_message :: "nat option \<Rightarrow> exc_heap \<Rightarrow> string option result" where
  "exc_iter_message p s =
     (case p of
        None \<Rightarrow> Inr None
      | Some a \<Rightarrow>
          (case cells s a of None \<Rightarrow> Inl (UndefinedBehaviour ''the memory was freed'') | Some c \<Rightarrow> Inr (Some (cell_msg c))))"

text \<open>A loop over all messages, as in \<open>print_trace()\<close> and in the loggers.\<close>

partial_function (option) trace_loop :: "nat option \<Rightarrow> exc_heap \<Rightarrow> string list result option" where
  "trace_loop p s =
     (case exc_iter_message p s of
        Inl x \<Rightarrow> Some (Inl x)
      | Inr None \<Rightarrow> Some (Inr [])
      | Inr (Some m) \<Rightarrow>
          (case exc_iter_next p s of
             Inl x \<Rightarrow> Some (Inl x)
           | Inr q \<Rightarrow>
               Option.bind (trace_loop q s)
                 (\<lambda>r. Some (case r of Inl x \<Rightarrow> Inl x | Inr ms \<Rightarrow> Inr (m # ms)))))"

definition print_trace :: "nat \<Rightarrow> exc_heap \<Rightarrow> string list result option" where
  "print_trace i s =
     (if exc_begin i s = None then Some (Inr [''No messages recorded.'']) else trace_loop (exc_begin i s) s)"

section \<open>Exceptions as values\<close>

text \<open>The specification: an error number, a type and a list of messages.\<close>

type_synonym exc_value = "int \<times> string \<times> string list"

definition renders :: "string list \<Rightarrow> string list option" where
  "renders ms = those (map render ms)"

text \<open>
  The calls on values; none when an exception is used that does not exist, one is made in the place
  of another, an exception is appended or assigned to itself, or a message that is copied asks for
  arguments.
\<close>

fun value_op :: "(int \<Rightarrow> string) \<Rightarrow> exc_call \<Rightarrow> (nat \<Rightarrow> exc_value option) \<Rightarrow> (nat \<Rightarrow> exc_value option) option" where
  "value_op strerror (Exc_Empty i) m = (if m i = None then Some (m(i \<mapsto> (0, ''unknown'', []))) else None)"
| "value_op strerror (Exc_New i text) m =
     (if m i = None then Some (m(i \<mapsto> (0, ''unknown'', [new_text text]))) else None)"
| "value_op strerror (Exc_Errno i err text) m =
     (if m i = None then Some (m(i \<mapsto> (err, ''unknown'', [errno_text strerror err text]))) else None)"
| "value_op strerror (Exc_Copy i j) m =
     (case (m i, m j) of
        (None, Some (err, t, ms)) \<Rightarrow> map_option (\<lambda>ns. m(i \<mapsto> (err, t, ns))) (renders ms)
      | _ \<Rightarrow> None)"
| "value_op strerror (Exc_Destroy i) m = (if m i = None then None else Some (m(i := None)))"
| "value_op strerror (Exc_Append i text) m =
     map_option (\<lambda>(err, t, ms). m(i \<mapsto> (err, t, case text of None \<Rightarrow> ms | Some x \<Rightarrow> ms @ [x]))) (m i)"
| "value_op strerror (Exc_Prepend i text) m =
     map_option (\<lambda>(err, t, ms). m(i \<mapsto> (err, t, case text of None \<Rightarrow> ms | Some x \<Rightarrow> x # ms))) (m i)"
| "value_op strerror (Exc_Append_Exc i j) m =
     (case (m i, m j) of
        (Some (err, t, ms), Some (_, _, ms')) \<Rightarrow>
          if i = j then None else map_option (\<lambda>ns. m(i \<mapsto> (err, t, ms @ ns))) (renders ms')
      | _ \<Rightarrow> None)"
| "value_op strerror (Exc_Assign i j) m =
     (case (m i, m j) of
        (Some (err, t, ms), Some (_, _, ms')) \<Rightarrow>
          if i = j then None else map_option (\<lambda>ns. m(i \<mapsto> (err, t, ms @ ns))) (renders ms')
      | _ \<Rightarrow> None)"
| "value_op strerror (Exc_Set_Type i t) m = map_option (\<lambda>(err, _, ms). m(i \<mapsto> (err, t, ms))) (m i)"

fun value_run :: "(int \<Rightarrow> string) \<Rightarrow> exc_call list \<Rightarrow> (nat \<Rightarrow> exc_value option) \<Rightarrow> (nat \<Rightarrow> exc_value option) option" where
  "value_run strerror [] m = Some m"
| "value_run strerror (c # cs) m =
     (case value_op strerror c m of None \<Rightarrow> None | Some m1 \<Rightarrow> value_run strerror cs m1)"

section \<open>The lists on the heap\<close>

text \<open>The elements from \<open>p\<close> on are at the addresses \<open>as\<close> and hold the messages \<open>ms\<close>.\<close>

fun path :: "(nat \<Rightarrow> cell option) \<Rightarrow> nat option \<Rightarrow> nat list \<Rightarrow> string list \<Rightarrow> bool" where
  "path C p [] ms \<longleftrightarrow> p = None \<and> ms = []"
| "path C p (a # as) ms \<longleftrightarrow>
     p = Some a \<and> (\<exists>c ns. C a = Some c \<and> ms = cell_msg c # ns \<and> path C (cell_next c) as ns)"

lemma path_cong: "\<forall>a \<in> set as. C' a = C a \<Longrightarrow> path C' p as ms = path C p as ms"
  by (induction as arbitrary: p ms) auto

lemma path_length: "path C p as ms \<Longrightarrow> length as = length ms"
  by (induction as arbitrary: p ms) auto

lemma path_snoc:
  assumes "path C p as ms" and "as \<noteq> []" and "distinct as" and "b \<notin> set as" and "C (last as) = Some c"
  shows "path (C(b \<mapsto> \<lparr>cell_next = None, cell_msg = m\<rparr>, last as \<mapsto> c\<lparr>cell_next := Some b\<rparr>)) p (as @ [b]) (ms @ [m])"
  using assms
proof (induction as arbitrary: p ms)
  case (Cons a as)
  obtain c' ns where c': "C a = Some c'" "ms = cell_msg c' # ns" "path C (cell_next c') as ns" "p = Some a"
    using Cons.prems(1) by auto
  show ?case
  proof (cases as)
    case Nil
    then show ?thesis
      using c' Cons.prems by auto
  next
    case (Cons a' as')
    then have "last as \<noteq> a"
      using Cons.prems(3) last_in_set [of as] by auto
    then show ?thesis
      using Cons.IH [of "cell_next c'" ns] c' Cons.prems Cons by auto
  qed
qed simp

text \<open>
  The lists of all exceptions: \<open>own i\<close> are the addresses of exception \<open>i\<close>. Nothing is shared, and
  nothing is allocated that no exception owns.
\<close>

definition holds :: "exc_heap \<Rightarrow> nat \<Rightarrow> nat list \<Rightarrow> exc_value option \<Rightarrow> bool" where
  "holds s i as v =
     (case v of
        None \<Rightarrow> objects s i = None \<and> as = []
      | Some (err, t, ms) \<Rightarrow>
          (\<exists>e. objects s i = Some e \<and> ex_errno e = err \<and> ex_type e = t \<and> path (cells s) (ex_messages e) as ms \<and>
             (as \<noteq> [] \<longrightarrow> ex_end e = Some (last as))))"

definition lists_ok :: "exc_heap \<Rightarrow> (nat \<Rightarrow> nat list) \<Rightarrow> (nat \<Rightarrow> exc_value option) \<Rightarrow> bool" where
  "lists_ok s own m \<longleftrightarrow>
     (\<forall>i. holds s i (own i) (m i)) \<and> (\<forall>i. distinct (own i)) \<and>
     (\<forall>i j. i \<noteq> j \<longrightarrow> set (own i) \<inter> set (own j) = {}) \<and>
     (\<forall>a. cells s a \<noteq> None \<longleftrightarrow> (\<exists>i. a \<in> set (own i))) \<and> (\<forall>i. \<forall>a \<in> set (own i). a < next_cell s)"

lemma lists_okD:
  assumes "lists_ok s own m"
  shows "holds s i (own i) (m i)" "distinct (own i)" "i \<noteq> j \<Longrightarrow> set (own i) \<inter> set (own j) = {}"
    "cells s a \<noteq> None \<longleftrightarrow> (\<exists>i. a \<in> set (own i))" "a \<in> set (own i) \<Longrightarrow> a < next_cell s"
  using assms unfolding lists_ok_def by blast+

lemma holds_cong:
  "objects s' i = objects s i \<Longrightarrow> \<forall>a \<in> set as. cells s' a = cells s a \<Longrightarrow> holds s' i as v = holds s i as v"
  using path_cong [of as "cells s'" "cells s"] by (auto simp: holds_def split: option.splits)

text \<open>One exception changes, the others stay.\<close>

lemma lists_ok_update:
  assumes ok: "lists_ok s own m" and h: "holds s' i as v" and "distinct as"
    and old: "\<forall>j a. j \<noteq> i \<longrightarrow> a \<in> set (own j) \<longrightarrow> a \<notin> set as"
    and obj: "\<forall>j. j \<noteq> i \<longrightarrow> objects s' j = objects s j"
    and frame: "\<forall>a. a \<notin> set (own i) \<union> set as \<longrightarrow> cells s' a = cells s a"
    and dom: "\<forall>a. a \<in> set (own i) \<union> set as \<longrightarrow> (cells s' a \<noteq> None \<longleftrightarrow> a \<in> set as)"
    and next_a: "next_cell s \<le> next_cell s'" "\<forall>a \<in> set as. a < next_cell s'"
  shows "lists_ok s' (own(i := as)) (m(i := v))"
proof -
  note d = lists_okD [OF ok]
  have same: "cells s' a = cells s a" if "j \<noteq> i" "a \<in> set (own j)" for j a
    using that frame old d(3) [of j i] by auto
  have "holds s' j ((own(i := as)) j) ((m(i := v)) j)" for j
    using h d(1) [of j] obj same [of j] holds_cong [of s' j s "own j" "m j"] by auto
  moreover have "cells s' a \<noteq> None \<longleftrightarrow> (\<exists>j. a \<in> set ((own(i := as)) j))" for a
  proof (cases "a \<in> set (own i) \<union> set as")
    case True
    have "a \<notin> set (own j)" if "j \<noteq> i" "a \<notin> set as" for j
      using True that d(3) [of i j] by auto
    then show ?thesis
      using True dom by (auto split: if_splits)
  next
    case False
    then show ?thesis
      using frame d(4) [of a] by auto
  qed
  moreover have "set ((own(i := as)) j) \<inter> set ((own(i := as)) k) = {}" if "j \<noteq> k" for j k
    using that d(3) [of j k] old by auto
  moreover have "a < next_cell s'" if "a \<in> set ((own(i := as)) j)" for j a
    using that d(5) [of a j] next_a by (auto split: if_splits)
  ultimately show ?thesis
    using assms(3) d(2) unfolding lists_ok_def by auto
qed

lemma holds_Some:
  assumes "lists_ok s own m" and "m i = Some (err, t, ms)"
  obtains e where "objects s i = Some e" "ex_errno e = err" "ex_type e = t"
    "path (cells s) (ex_messages e) (own i) ms" "own i \<noteq> [] \<longrightarrow> ex_end e = Some (last (own i))"
    "own i = [] \<longleftrightarrow> ex_messages e = None" "own i = [] \<longleftrightarrow> ms = []"
proof -
  obtain e where e: "objects s i = Some e" "ex_errno e = err" "ex_type e = t"
      "path (cells s) (ex_messages e) (own i) ms" "own i \<noteq> [] \<longrightarrow> ex_end e = Some (last (own i))"
    using lists_okD(1) [OF assms(1), of i] assms(2) by (auto simp: holds_def)
  have start: "own i = [] \<longleftrightarrow> ex_messages e = None"
    using e(4) by (cases "own i") auto
  have empty: "own i = [] \<longleftrightarrow> ms = []"
    using path_length [OF e(4)] by (metis length_0_conv)
  show thesis
    by (rule that [OF e start empty])
qed

lemma append_lists:
  assumes ok: "lists_ok s own m" and m: "m i = Some (err, t, ms)"
  shows "\<exists>s'. append_nolock_nocopy i msg s = ok s' \<and>
    lists_ok s' (own(i := own i @ [next_cell s])) (m(i \<mapsto> (err, t, ms @ [msg]))) \<and>
    (\<forall>a. a \<notin> set (own i) \<longrightarrow> cells s a \<noteq> None \<longrightarrow> cells s' a = cells s a)"
proof -
  note d = lists_okD [OF ok]
  obtain e where e: "objects s i = Some e" "ex_errno e = err" "ex_type e = t"
      "path (cells s) (ex_messages e) (own i) ms" "own i \<noteq> [] \<longrightarrow> ex_end e = Some (last (own i))"
      "own i = [] \<longleftrightarrow> ex_messages e = None" "own i = [] \<longleftrightarrow> ms = []"
    by (rule holds_Some [OF ok m])
  let ?a = "next_cell s" and ?new = "\<lparr>cell_next = None, cell_msg = msg\<rparr>"
  have new: "?a \<notin> set (own j)" for j
    using d(5) [of ?a j] by auto
  have none: "cells s ?a = None"
    using d(4) [of ?a] new by auto
  obtain s' where s': "append_nolock_nocopy i msg s = ok s'" "objects s' = (objects s)(i := objects s' i)"
      "next_cell s' = ?a + 1" "holds s' i (own i @ [?a]) (Some (err, t, ms @ [msg]))"
      "\<forall>a. a \<notin> set (own i) \<and> a \<noteq> ?a \<longrightarrow> cells s' a = cells s a"
      "\<forall>a. a \<in> set (own i) \<or> a = ?a \<longrightarrow> cells s' a \<noteq> None"
  proof (cases "own i = []")
    case True
    show thesis
      by (rule that [of "put_object i (e\<lparr>ex_messages := Some ?a, ex_end := Some ?a\<rparr>)
            (s\<lparr>cells := (cells s)(?a \<mapsto> ?new), next_cell := ?a + 1\<rparr>)"])
        (use True e in \<open>auto simp: append_nolock_nocopy_def with_object_def put_object_def Let_def holds_def\<close>)
  next
    case False
    then have "last (own i) \<in> set (own i)"
      by simp
    then obtain c where c: "cells s (last (own i)) = Some c"
      using d(4) [of "last (own i)"] by blast
    have "path ((cells s)(?a \<mapsto> ?new, last (own i) \<mapsto> c\<lparr>cell_next := Some ?a\<rparr>)) (ex_messages e) (own i @ [?a]) (ms @ [msg])"
      using path_snoc [OF e(4) False d(2) new c] .
    then show thesis
      using False e c d(4) new
      by (intro that [of "put_object i (e\<lparr>ex_end := Some ?a\<rparr>)
            (s\<lparr>cells := (cells s)(?a \<mapsto> ?new, last (own i) \<mapsto> c\<lparr>cell_next := Some ?a\<rparr>), next_cell := ?a + 1\<rparr>)"])
        (auto simp: append_nolock_nocopy_def with_object_def put_object_def Let_def holds_def)
  qed
  have "lists_ok s' (own(i := own i @ [?a])) (m(i \<mapsto> (err, t, ms @ [msg])))"
  proof (rule lists_ok_update [OF ok s'(4)])
    show "\<forall>j a. j \<noteq> i \<longrightarrow> a \<in> set (own j) \<longrightarrow> a \<notin> set (own i @ [?a])"
      using new d(3) by auto
    show "\<forall>j. j \<noteq> i \<longrightarrow> objects s' j = objects s j"
      using s'(2) by (metis fun_upd_other)
    show "\<forall>a \<in> set (own i @ [?a]). a < next_cell s'"
      using d(5) [of _ i] s'(3) by fastforce
  qed (use d(2) new s' in auto)
  then show ?thesis
    using s'(1,5) none by metis
qed

lemma prepend_lists:
  assumes ok: "lists_ok s own m" and m: "m i = Some (err, t, ms)"
  shows "\<exists>s'. prepend_nolock i msg s = ok s' \<and>
    lists_ok s' (own(i := next_cell s # own i)) (m(i \<mapsto> (err, t, msg # ms)))"
proof -
  note d = lists_okD [OF ok]
  obtain e where e: "objects s i = Some e" "ex_errno e = err" "ex_type e = t"
      "path (cells s) (ex_messages e) (own i) ms" "own i \<noteq> [] \<longrightarrow> ex_end e = Some (last (own i))"
      "own i = [] \<longleftrightarrow> ex_messages e = None" "own i = [] \<longleftrightarrow> ms = []"
    by (rule holds_Some [OF ok m])
  let ?a = "next_cell s"
  let ?e = "if own i = [] then e\<lparr>ex_messages := Some ?a, ex_end := Some ?a\<rparr> else e\<lparr>ex_messages := Some ?a\<rparr>"
  let ?C = "(cells s)(?a \<mapsto> \<lparr>cell_next = ex_messages e, cell_msg = msg\<rparr>)"
  let ?s = "put_object i ?e (s\<lparr>cells := ?C, next_cell := ?a + 1\<rparr>)"
  have new: "?a \<notin> set (own j)" for j
    using d(5) [of ?a j] by auto
  have "prepend_nolock i msg s = ok ?s"
    using e(1,6) by (simp add: prepend_nolock_def with_object_def Let_def)
  moreover have "lists_ok ?s (own(i := ?a # own i)) (m(i \<mapsto> (err, t, msg # ms)))"
  proof (rule lists_ok_update [OF ok])
    have "path ?C (ex_messages e) (own i) ms"
      using e(4) path_cong [of "own i" ?C "cells s"] new by auto
    then show "holds ?s i (?a # own i) (Some (err, t, msg # ms))"
      using e by (auto simp: holds_def put_object_def)
    show "\<forall>a. a \<in> set (own i) \<union> set (?a # own i) \<longrightarrow> (cells ?s a \<noteq> None \<longleftrightarrow> a \<in> set (?a # own i))"
      using d(4) by (auto simp: put_object_def)
    show "\<forall>a \<in> set (?a # own i). a < next_cell ?s"
      using d(5) [of _ i] by (fastforce simp: put_object_def)
  qed (use d(2,3) new in \<open>auto simp: put_object_def\<close>)
  ultimately show ?thesis by blast
qed

section \<open>Copying, freeing and reading\<close>

lemma renders_Cons:
  "renders (n # ns) = Some rs \<longleftrightarrow> (\<exists>r rs'. render n = Some r \<and> renders ns = Some rs' \<and> rs = r # rs')"
  by (auto simp: renders_def split: option.splits)

lemma copy_loop_lists:
  assumes "lists_ok s own m" and "m i = Some (err, t, ms)" and "path (cells s) p as ns"
    and "set as \<subseteq> set (own j)" and "j \<noteq> i" and "renders ns = Some rs"
  shows "\<exists>s' bs. copy_loop i p s = Some (ok s') \<and> lists_ok s' (own(i := bs)) (m(i \<mapsto> (err, t, ms @ rs)))"
  using assms
proof (induction as arbitrary: s own m ms p ns rs)
  case Nil
  then have "copy_loop i p s = Some (ok s)" "own(i := own i) = own" "m(i \<mapsto> (err, t, ms @ rs)) = m"
    by (auto simp: copy_loop.simps renders_def fun_upd_idem)
  then show ?case
    using Nil.prems(1) by metis
next
  case (Cons a as)
  obtain c ns' where c: "p = Some a" "cells s a = Some c" "ns = cell_msg c # ns'" "path (cells s) (cell_next c) as ns'"
    using Cons.prems(3) by auto
  obtain r rs' where r: "render (cell_msg c) = Some r" "renders ns' = Some rs'" "rs = r # rs'"
    using Cons.prems(6) c(3) by (auto simp: renders_Cons)
  obtain s1 where s1: "append_nolock_nocopy i r s = ok s1"
      "lists_ok s1 (own(i := own i @ [next_cell s])) (m(i \<mapsto> (err, t, ms @ [r])))"
      "\<forall>b. b \<notin> set (own i) \<longrightarrow> cells s b \<noteq> None \<longrightarrow> cells s1 b = cells s b"
    using append_lists [OF Cons.prems(1,2), of r] by blast
  have same: "cells s1 b = cells s b" if "b \<in> set (a # as)" for b
    using that s1(3) Cons.prems(4,5) lists_okD(3) [OF Cons.prems(1), of j i] lists_okD(4) [OF Cons.prems(1), of b] by blast
  then have p: "path (cells s1) (cell_next c) as ns'"
    using c(4) path_cong [of as "cells s1" "cells s"] by simp
  have sub: "set as \<subseteq> set ((own(i := own i @ [next_cell s])) j)"
    using Cons.prems(4,5) by simp
  obtain s' bs where "copy_loop i (cell_next c) s1 = Some (ok s')"
      "lists_ok s' ((own(i := own i @ [next_cell s]))(i := bs)) ((m(i \<mapsto> (err, t, ms @ [r])))(i \<mapsto> (err, t, (ms @ [r]) @ rs')))"
    using Cons.IH [OF s1(2) fun_upd_same p sub Cons.prems(5) r(2)] by blast
  moreover have "copy_loop i p s = copy_loop i (cell_next c) s1"
    using c(1,2) r(1) s1(1) same [of a] by (simp add: copy_loop.simps [of i "Some a" s] ok_def)
  ultimately show ?case
    unfolding fun_upd_upd r(3) append_assoc append_Cons append_Nil by metis
qed

lemma free_loop_lists:
  assumes "path (cells s) p as ms" and "distinct as"
  shows "free_loop p s = Some (ok (s\<lparr>cells := (\<lambda>a. if a \<in> set as then None else cells s a)\<rparr>))"
  using assms
proof (induction as arbitrary: p ms s)
  case Nil
  then show ?case by (simp add: free_loop.simps)
next
  case (Cons a as)
  obtain c ns where c: "p = Some a" "cells s a = Some c" "path (cells s) (cell_next c) as ns"
    using Cons.prems(1) by auto
  let ?s = "s\<lparr>cells := (cells s)(a := None)\<rparr>"
  have "path (cells ?s) (cell_next c) as ns"
    using c(3) Cons.prems(2) path_cong [of as "cells ?s" "cells s"] by auto
  from Cons.IH [OF this] Cons.prems(2) have "free_loop (cell_next c) ?s =
      Some (ok (s\<lparr>cells := (\<lambda>b. if b \<in> set as then None else (cells ?s) b)\<rparr>))"
    by simp
  moreover have "(\<lambda>b. if b \<in> set as then None else (cells ?s) b) = (\<lambda>b. if b \<in> set (a # as) then None else cells s b)"
    by auto
  ultimately show ?case
    using c(1,2) by (simp add: free_loop.simps [of "Some a" s])
qed

lemma trace_loop_path: "path (cells s) p as ms \<Longrightarrow> trace_loop p s = Some (Inr ms)"
proof (induction as arbitrary: p ms)
  case Nil
  then show ?case by (simp add: trace_loop.simps exc_iter_message_def)
next
  case (Cons a as)
  then show ?case
    by (auto simp: trace_loop.simps [of "Some a"] exc_iter_message_def exc_iter_next_def)
qed

text \<open>A new exception, and one that is changed in place.\<close>

lemma construct_lists:
  assumes "lists_ok s own m" and "m i = None"
  shows "lists_ok (put_object i (exc_empty\<lparr>ex_errno := err, ex_type := t\<rparr>) s) own (m(i \<mapsto> (err, t, [])))"
proof -
  have "own i = []"
    using lists_okD(1) [OF assms(1), of i] assms(2) by (simp add: holds_def)
  moreover from this have "lists_ok (put_object i (exc_empty\<lparr>ex_errno := err, ex_type := t\<rparr>) s) (own(i := [])) (m(i \<mapsto> (err, t, [])))"
    using lists_okD(5) [OF assms(1)]
    by (intro lists_ok_update [OF assms(1)]) (auto simp: holds_def put_object_def exc_empty_def)
  ultimately show ?thesis
    by (simp add: fun_upd_idem)
qed

lemma set_type_lists:
  assumes "lists_ok s own m" and "m i = Some (err, t, ms)" and "objects s i = Some e"
  shows "lists_ok (put_object i (e\<lparr>ex_type := t'\<rparr>) s) own (m(i \<mapsto> (err, t', ms)))"
proof -
  obtain e' where e': "objects s i = Some e'" "ex_errno e' = err" "path (cells s) (ex_messages e') (own i) ms"
      "own i \<noteq> [] \<longrightarrow> ex_end e' = Some (last (own i))"
    by (rule holds_Some [OF assms(1,2)])
  have "\<forall>j a. j \<noteq> i \<longrightarrow> a \<in> set (own j) \<longrightarrow> a \<notin> set (own i)"
    using lists_okD(3) [OF assms(1)] by blast
  then have "lists_ok (put_object i (e\<lparr>ex_type := t'\<rparr>) s) (own(i := own i)) (m(i \<mapsto> (err, t', ms)))"
    using lists_okD(2,4,5) [OF assms(1)] e' assms(3)
    by (intro lists_ok_update [OF assms(1)]) (auto simp: holds_def put_object_def)
  then show ?thesis
    by simp
qed

lemma destroy_lists:
  assumes "lists_ok s own m" and "m i \<noteq> None"
  shows "\<exists>s'. exc_op strerror (Exc_Destroy i) s = Some (ok s') \<and> lists_ok s' (own(i := [])) (m(i := None))"
proof -
  obtain err t ms where m: "m i = Some (err, t, ms)"
    using assms(2) by auto
  obtain e where e: "objects s i = Some e" "path (cells s) (ex_messages e) (own i) ms"
    by (rule holds_Some [OF assms(1) m])
  let ?t = "s\<lparr>objects := (objects s)(i := None)\<rparr>"
  let ?s = "?t\<lparr>cells := (\<lambda>a. if a \<in> set (own i) then None else cells ?t a)\<rparr>"
  have "exc_op strerror (Exc_Destroy i) s = Some (ok ?s)"
    using free_loop_lists [of ?t "ex_messages e" "own i" ms] e lists_okD(2) [OF assms(1)] by simp
  moreover have "lists_ok ?s (own(i := [])) (m(i := None))"
    by (rule lists_ok_update [OF assms(1)]) (simp_all add: holds_def)
  ultimately show ?thesis by blast
qed

lemma copy_lists:
  assumes "lists_ok s own m" and "m i = Some (err, t, ms)" and "m j = Some (err', t', ms')" and "i \<noteq> j"
    and "renders ms' = Some rs"
  shows "\<exists>s' bs. copy_messages i j s = Some (ok s') \<and> lists_ok s' (own(i := bs)) (m(i \<mapsto> (err, t, ms @ rs)))"
proof -
  obtain e where e: "objects s j = Some e" "path (cells s) (ex_messages e) (own j) ms'"
    by (rule holds_Some [OF assms(1,3)])
  show ?thesis
    using copy_loop_lists [OF assms(1,2) e(2) subset_refl _ assms(5)] e(1) assms(4)
    by (auto simp: copy_messages_def)
qed

section \<open>Refinement\<close>

lemma value_op_refined:
  assumes "value_op strerror c m = Some m1" and ok: "lists_ok s own m"
  shows "\<exists>s1 own1. exc_op strerror c s = Some (ok s1) \<and> lists_ok s1 own1 m1"
proof (cases c)
  case (Exc_Empty i)
  then show ?thesis
    using assms(1) construct_lists [OF ok, where i = i and err = "0" and t = "''unknown''"] by (auto simp: exc_empty_def split: if_splits)
next
  case (Exc_New i tx)
  then have m: "m i = None" "m1 = m(i \<mapsto> (0, ''unknown'', [new_text tx]))"
    using assms(1) by (auto split: if_splits)
  have "lists_ok (put_object i exc_empty s) own (m(i \<mapsto> (0, ''unknown'', [])))"
    using construct_lists [OF ok m(1), where err = "0" and t = "''unknown''"] by (simp add: exc_empty_def)
  from append_lists [OF this fun_upd_same, of "new_text tx", unfolded fun_upd_upd append_Nil] show ?thesis
    using Exc_New m(2) by auto
next
  case (Exc_Errno i err tx)
  then have m: "m i = None" "m1 = m(i \<mapsto> (err, ''unknown'', [errno_text strerror err tx]))"
    using assms(1) by (auto split: if_splits)
  have "lists_ok (put_object i (exc_empty\<lparr>ex_errno := err\<rparr>) s) own (m(i \<mapsto> (err, ''unknown'', [])))"
    using construct_lists [OF ok m(1), where err = err and t = "''unknown''"] by (simp add: exc_empty_def)
  from append_lists [OF this fun_upd_same, of "errno_text strerror err tx", unfolded fun_upd_upd append_Nil] show ?thesis
    using Exc_Errno m(2) by auto
next
  case (Exc_Copy i j)
  then obtain err t ms rs where m: "m i = None" "m j = Some (err, t, ms)" "renders ms = Some rs"
      "m1 = m(i \<mapsto> (err, t, rs))"
    using assms(1) by (auto split: option.splits)
  then have ij: "i \<noteq> j"
    by auto
  obtain e where e: "objects s j = Some e" "ex_errno e = err" "ex_type e = t"
    by (rule holds_Some [OF ok m(2)])
  note new = construct_lists [OF ok m(1), where err = err and t = t]
  have "(m(i \<mapsto> (err, t, []))) j = Some (err, t, ms)"
    using m(2) ij by simp
  from copy_lists [OF new fun_upd_same this ij m(3), unfolded fun_upd_upd append_Nil] show ?thesis
    using Exc_Copy e m(4) by auto
next
  case (Exc_Destroy i)
  then show ?thesis
    using assms(1) destroy_lists [OF ok, of i strerror] by (auto split: if_splits)
next
  case (Exc_Append i tx)
  then obtain err t ms where m: "m i = Some (err, t, ms)"
      "m1 = m(i \<mapsto> (err, t, case tx of None \<Rightarrow> ms | Some x \<Rightarrow> ms @ [x]))"
    using assms(1) by auto
  show ?thesis
    using Exc_Append m ok append_lists [OF ok m(1), of "the tx"]
    by (cases tx) (auto simp: exc_append_def fun_upd_idem)
next
  case (Exc_Prepend i tx)
  then obtain err t ms where m: "m i = Some (err, t, ms)"
      "m1 = m(i \<mapsto> (err, t, case tx of None \<Rightarrow> ms | Some x \<Rightarrow> x # ms))"
    using assms(1) by auto
  show ?thesis
    using Exc_Prepend m ok prepend_lists [OF ok m(1), of "the tx"]
    by (cases tx) (auto simp: exc_prepend_def fun_upd_idem)
next
  case (Exc_Set_Type i t)
  then obtain err t' ms where m: "m i = Some (err, t', ms)" "m1 = m(i \<mapsto> (err, t, ms))"
    using assms(1) by auto
  obtain e where e: "objects s i = Some e"
    by (rule holds_Some [OF ok m(1)])
  show ?thesis
    using set_type_lists [OF ok m(1) e, of t] Exc_Set_Type m(2) e by (auto simp: with_object_def)
next
  case (Exc_Append_Exc i j)
  then obtain err t ms err' t' ms' rs where m: "m i = Some (err, t, ms)" "m j = Some (err', t', ms')" "i \<noteq> j"
      "renders ms' = Some rs" "m1 = m(i \<mapsto> (err, t, ms @ rs))"
    using assms(1) by (auto split: option.splits if_splits)
  show ?thesis
    using copy_lists [OF ok m(1-4)] Exc_Append_Exc m(5) by auto
next
  case (Exc_Assign i j)
  then obtain err t ms err' t' ms' rs where m: "m i = Some (err, t, ms)" "m j = Some (err', t', ms')" "i \<noteq> j"
      "renders ms' = Some rs" "m1 = m(i \<mapsto> (err, t, ms @ rs))"
    using assms(1) by (auto split: option.splits if_splits)
  show ?thesis
    using copy_lists [OF ok m(1-4)] Exc_Assign m(5) by auto
qed

lemma value_run_refined:
  "value_run strerror cs m = Some m1 \<Longrightarrow> lists_ok s own m \<Longrightarrow>
     \<exists>s1 own1. exc_run strerror cs s = Some (ok s1) \<and> lists_ok s1 own1 m1"
proof (induction cs arbitrary: m s own)
  case (Cons c cs)
  obtain m' where m': "value_op strerror c m = Some m'" "value_run strerror cs m' = Some m1"
    using Cons.prems(1) by (auto split: option.splits)
  obtain s' own' where "exc_op strerror c s = Some (ok s')" "lists_ok s' own' m'"
    using value_op_refined [OF m'(1) Cons.prems(2)] by blast
  then show ?case
    using Cons.IH [OF m'(2)] by (auto simp: ok_def)
qed auto


section \<open>Percent signs\<close>

lemma renders_None: "renders (n # ns) = None \<longleftrightarrow> render n = None \<or> renders ns = None"
  by (auto simp: renders_def split: option.splits)

lemma copy_loop_breaks:
  assumes "lists_ok s own m" and "m i = Some (err, t, ms)" and "path (cells s) p as ns"
    and "set as \<subseteq> set (own j)" and "j \<noteq> i" and "renders ns = None"
  shows "\<exists>s'. copy_loop i p s = Some (s', Some (UndefinedBehaviour ''the format asks for arguments''))"
  using assms
proof (induction as arbitrary: s own m ms p ns)
  case Nil
  then show ?case by (simp add: renders_def)
next
  case (Cons a as)
  obtain c ns' where c: "p = Some a" "cells s a = Some c" "ns = cell_msg c # ns'" "path (cells s) (cell_next c) as ns'"
    using Cons.prems(3) by auto
  show ?case
  proof (cases "render (cell_msg c)")
    case None
    then show ?thesis
      using c(1,2) by (simp add: copy_loop.simps [of i "Some a" s] throwing_def)
  next
    case (Some r)
    obtain s1 where s1: "append_nolock_nocopy i r s = ok s1"
        "lists_ok s1 (own(i := own i @ [next_cell s])) (m(i \<mapsto> (err, t, ms @ [r])))"
        "\<forall>b. b \<notin> set (own i) \<longrightarrow> cells s b \<noteq> None \<longrightarrow> cells s1 b = cells s b"
      using append_lists [OF Cons.prems(1,2), of r] by blast
    have same: "cells s1 b = cells s b" if "b \<in> set (a # as)" for b
      using that s1(3) Cons.prems(4,5) lists_okD(3) [OF Cons.prems(1), of j i] lists_okD(4) [OF Cons.prems(1), of b] by blast
    then have p: "path (cells s1) (cell_next c) as ns'"
      using c(4) path_cong [of as "cells s1" "cells s"] by simp
    have sub: "set as \<subseteq> set ((own(i := own i @ [next_cell s])) j)"
      using Cons.prems(4,5) by simp
    have "renders ns' = None"
      using Cons.prems(6) c(3) Some by (simp add: renders_None)
    from Cons.IH [OF s1(2) fun_upd_same p sub Cons.prems(5) this] show ?thesis
      using c(1,2) Some s1(1) same [of a] by (simp add: copy_loop.simps [of i "Some a" s] ok_def)
  qed
qed

lemma exc_run_append:
  "exc_run strerror cs s = Some (ok s1) \<Longrightarrow> exc_run strerror (cs @ ds) s = exc_run strerror ds s1"
  by (induction cs arbitrary: s) (auto simp: ok_def split: option.splits prod.splits)


section \<open>Example\<close>

definition demo_exc_calls :: "exc_call list" where
  "demo_exc_calls =
     [Exc_New 0 (Some ''cannot open''), Exc_Append 0 (Some ''100%% sure''), Exc_Errno 1 2 (Some ''init''), Exc_Append_Exc 1 0,
      Exc_Prepend 1 (Some ''first''), Exc_Copy 2 0, Exc_Destroy 2, Exc_Destroy 0]"

lemma demo_errno: "nat_digits 2 = ''2''"
  by code_simp

lemma demo_exc_values:
  "value_run (\<lambda>_. ''No such file'') demo_exc_calls Map.empty =
     Some [1 \<mapsto> (2, ''unknown'', [''first'', ''init (errno: 2, No such file)'', ''cannot open'', ''100% sure''])]"
  by (simp add: demo_exc_calls_def renders_def errno_text_def new_text_def to_string_int_def demo_errno)



end
