(* ===== verification/Mongo_Log.thy ===== *)
theory Mongo_Log imports Pb_Fields Logging
begin

text \<open>
  What the hub writes into a MongoDB database, when it is built for it: log messages and protobuf
  messages (\<open>src/libs/mongodb_log\<close>) and the documents that the rules build in CLIPS
  (\<open>clips_bson_*\<close> and \<open>clips_mongodb_*\<close> of \<open>src/refbox/refbox.cpp\<close>). The MongoDB library is a
  parameter: a document is the list of what was appended to its builder, in order, and the
  database is the list of the requests it was sent.
\<close>

section \<open>Documents\<close>

text \<open>One constructor per overload of \<open>append\<close>; \<open>'f\<close> are the values of type \<open>double\<close>.\<close>

datatype 'f bvalue =
    B_Double 'f | B_Long "64 word" | B_Int "32 word" | B_UInt "32 word" | B_Bool bool | B_Text string
  | B_Bin string | B_Date int | B_Doc "(string \<times> 'f bvalue) list" | B_Array "'f bvalue list"

type_synonym 'f document = "(string \<times> 'f bvalue) list"

text \<open>Milliseconds; the division rounds towards zero.\<close>

definition date_of :: "timeval \<Rightarrow> int" where
  "date_of t = fst t * 1000 + (if snd t < 0 then - ((- snd t) div 1000) else snd t div 1000)"

section \<open>Log messages\<close>

fun level_text :: "log_level \<Rightarrow> string" where
  "level_text LL_DEBUG = ''DEBUG''"
| "level_text LL_INFO = ''INFO''"
| "level_text LL_WARN = ''WARN''"
| "level_text LL_ERROR = ''ERROR''"
| "level_text LL_NONE = ''UNKN''"

definition log_document :: "log_level \<Rightarrow> string \<Rightarrow> timeval \<Rightarrow> string \<Rightarrow> 'f document" where
  "log_document l component t msg =
     [(''level'', B_Text (level_text l)), (''component'', B_Text component), (''time'', B_Date (date_of t)),
      (''message'', B_Text msg)]"

text \<open>\<open>g_held\<close> counts how often the mutex was locked more than unlocked by the calls that have returned.\<close>

record 'f mongo_logger =
  g_level :: log_level
  g_sent :: "'f document list"
  g_held :: int

definition render_mongo :: "timeval \<Rightarrow> log_call \<Rightarrow> 'f document list" where
  "render_mongo now c =
     (case c_body c of
        Text None \<Rightarrow> []
      | Text (Some m) \<Rightarrow> [log_document (c_level c) (c_component c) (call_time now c) m]
      | Exception ms \<Rightarrow> map (\<lambda>m. log_document (c_level c) (c_component c) (call_time now c) (''[EXCEPTION] '' @ m)) ms)"

text \<open>With a time and a text, the mutex is unlocked explicitly and again at the end of the scope.\<close>

definition mongo_log :: "timeval \<Rightarrow> log_call \<Rightarrow> 'f mongo_logger \<Rightarrow> 'f mongo_logger" where
  "mongo_log now c s =
     (if accepts (g_level s) c
      then s\<lparr>g_sent := g_sent s @ render_mongo now c,
             g_held := g_held s - (if c_time c \<noteq> None \<and> (\<exists>m. c_body c = Text (Some m)) then 1 else 0)\<rparr>
      else s)"

interpretation mongo: logger g_level mongo_log g_sent render_mongo
  by unfold_locales (simp_all add: mongo_log_def)

section \<open>Protobuf messages\<close>

text \<open>
  A message as its reflection shows it: the name of its type, its serialization, and the fields
  that are set, in the order of \<open>ListFields\<close>, with their elements (one, when the field is not
  repeated).
\<close>

datatype 'f mview = MView string string "'f mfield list"
  and 'f mfield = MField fdesc "'f melem list"
  and 'f melem = MPlain "('f, unit) pval" | MSub "'f mview"

text \<open>Unsigned numbers of 64 bits are passed on as \<open>long long\<close>.\<close>

fun bson_value :: "ftype \<Rightarrow> ('f, unit) pval \<Rightarrow> 'f bvalue option" where
  "bson_value t (PV_Double x) = Some (B_Double x)"
| "bson_value t (PV_Float x) = Some (B_Double x)"
| "bson_value t (PV_Int64 w) = Some (B_Long w)"
| "bson_value t (PV_UInt64 w) = Some (B_Long w)"
| "bson_value t (PV_Int32 w) = Some (B_Int w)"
| "bson_value t (PV_UInt32 w) = Some (B_UInt w)"
| "bson_value t (PV_Bool b) = Some (B_Bool b)"
| "bson_value t (PV_String s) = Some (if t = TYPE_BYTES then B_Bin s else B_Text s)"
| "bson_value t (PV_Enum s) = Some (B_Text s)"
| "bson_value t (PV_Msg _) = None"

text \<open>Every element of a repeated field is appended under the name of the field.\<close>

fun add_message :: "'f mview \<Rightarrow> 'f document"
  and add_field :: "'f mfield \<Rightarrow> 'f document"
  and add_elem :: "fdesc \<Rightarrow> 'f melem \<Rightarrow> 'f document" where
  "add_message (MView ty data fs) =
     (''_type'', B_Text ty) # (''_protobuf'', B_Bin data) # concat (map add_field fs)"
| "add_field (MField f es) = (if f_type f = TYPE_GROUP then [] else concat (map (add_elem f) es))"
| "add_elem f (MPlain v) = (case bson_value (f_type f) v of None \<Rightarrow> [] | Some b \<Rightarrow> [(f_name f, b)])"
| "add_elem f (MSub m) = [(f_name f, B_Doc (add_message m))]"

text \<open>\<open>write()\<close>: the document that is inserted; a failure of the database is ignored.\<close>

definition write_message :: "timeval \<Rightarrow> 'f mview \<Rightarrow> 'f document option \<Rightarrow> 'f document" where
  "write_message now m meta =
     (''_time'', B_Date (date_of now)) # add_message m @ (case meta of None \<Rightarrow> [] | Some d \<Rightarrow> [(''_meta'', B_Doc d)])"

text \<open>
  The numbers of component and message type that the enum \<open>CompType\<close> of a message gives;
  \<open>ct\<close> is what the descriptor knows, if there are both.
\<close>

definition add_comp_type :: "('f mview \<Rightarrow> (32 word \<times> 32 word) option) \<Rightarrow> 'f mview \<Rightarrow> 'f document" where
  "add_comp_type ct m =
     (case ct m of None \<Rightarrow> [] | Some (c, t) \<Rightarrow> [(''component_id'', B_Int c), (''msg_type'', B_Int t)])"

text \<open>The events of the communicator that are logged, and the description they get.\<close>

datatype traffic =
    Server_Received "32 word" "16 word" "16 word"
  | Peer_Received string "16 word" "16 word" "16 word"
  | Server_Sent "32 word"
  | Client_Sent string "16 word"
  | Peer_Sent

fun meta_data :: "('f mview \<Rightarrow> (32 word \<times> 32 word) option) \<Rightarrow> traffic \<Rightarrow> 'f mview \<Rightarrow> 'f document" where
  "meta_data ct (Server_Received client c t) m =
     [(''direction'', B_Text ''inbound''), (''via'', B_Text ''server''), (''component_id'', B_Int (ucast c)),
      (''msg_type'', B_Int (ucast t)), (''client_id'', B_UInt client)]"
| "meta_data ct (Peer_Received host port c t) m =
     [(''direction'', B_Text ''inbound''), (''via'', B_Text ''peer''), (''endpoint-host'', B_Text host),
      (''endpoint-port'', B_Int (ucast port)), (''component_id'', B_Int (ucast c)), (''msg_type'', B_Int (ucast t))]"
| "meta_data ct (Server_Sent client) m =
     [(''direction'', B_Text ''outbound''), (''via'', B_Text ''server''), (''client_id'', B_UInt client)] @ add_comp_type ct m"
| "meta_data ct (Client_Sent host port) m =
     [(''direction'', B_Text ''outbound''), (''via'', B_Text ''client''), (''host'', B_Text host),
      (''port'', B_Int (ucast port))] @ add_comp_type ct m"
| "meta_data ct Peer_Sent m =
     [(''direction'', B_Text ''outbound''), (''via'', B_Text ''peer'')] @ add_comp_type ct m"

definition log_traffic ::
  "('f mview \<Rightarrow> (32 word \<times> 32 word) option) \<Rightarrow> timeval \<Rightarrow> traffic \<Rightarrow> 'f mview \<Rightarrow> 'f document" where
  "log_traffic ct now e m = write_message now m (Some (meta_data ct e m))"

section \<open>Documents of the rules\<close>

datatype 'f cvalue =
    C_Float 'f | C_Integer "64 word" | C_Symbol string | C_String string | C_Instance_Name string
  | C_Address nat | C_Other

text \<open>
  A builder on the heap. Once \<open>obj()\<close> was called it does not own its memory any more; while an
  array of it is being built, only that array may be written to.
\<close>

record 'f builder =
  bd_fields :: "'f document"
  bd_owned :: bool
  bd_open :: bool

record 'f array_builder =
  ar_parent :: nat
  ar_name :: string
  ar_elems :: "'f bvalue list"

datatype 'f db_request = Insert string "'f document" | Update string "'f document" "'f document" bool

record 'f mongo =
  builders :: "nat \<Rightarrow> 'f builder option"
  arrays :: "nat \<Rightarrow> 'f array_builder option"
  next_builder :: nat
  mongodb_enabled :: bool
  requests :: "'f db_request list"

definition bad_builder :: exn where
  "bad_builder = UndefinedBehaviour ''a builder that cannot be used''"

definition usable :: "nat \<Rightarrow> 'f mongo \<Rightarrow> 'f builder option" where
  "usable p s = (case builders s p of None \<Rightarrow> None | Some b \<Rightarrow> if bd_owned b \<and> \<not> bd_open b then Some b else None)"

definition put_builder :: "nat \<Rightarrow> 'f builder \<Rightarrow> 'f mongo \<Rightarrow> 'f mongo" where
  "put_builder p b s = s\<lparr>builders := (builders s)(p \<mapsto> b)\<rparr>"

definition bson_create :: "'f mongo \<Rightarrow> 'f mongo \<times> nat" where
  "bson_create s =
     (put_builder (next_builder s) \<lparr>bd_fields = [], bd_owned = True, bd_open = False\<rparr> (s\<lparr>next_builder := next_builder s + 1\<rparr>),
      next_builder s)"

text \<open>\<open>fromjson\<close> gives the document of a text, or throws, which is only logged.\<close>

definition bson_parse :: "(string \<Rightarrow> 'f document option) \<Rightarrow> string \<Rightarrow> 'f mongo \<Rightarrow> 'f mongo \<times> nat" where
  "bson_parse fromjson text s =
     (let (s1, p) = bson_create s in
      case fromjson text of
        None \<Rightarrow> (s1, p)
      | Some d \<Rightarrow> (put_builder p \<lparr>bd_fields = d, bd_owned = True, bd_open = False\<rparr> s1, p))"

definition bson_destroy :: "nat \<Rightarrow> 'f mongo \<Rightarrow> 'f mongo mutation" where
  "bson_destroy p s =
     (if builders s p = None then throwing bad_builder s else ok (s\<lparr>builders := (builders s)(p := None)\<rparr>))"

text \<open>\<open>asTempObj()\<close>.\<close>

definition temp_doc :: "nat \<Rightarrow> 'f mongo \<Rightarrow> 'f document result" where
  "temp_doc p s = (case usable p s of None \<Rightarrow> Inl bad_builder | Some b \<Rightarrow> Inr (bd_fields b))"

definition bson_tostring :: "('f document \<Rightarrow> string) \<Rightarrow> nat \<Rightarrow> 'f mongo \<Rightarrow> string result" where
  "bson_tostring json p s = (case temp_doc p s of Inl x \<Rightarrow> Inl x | Inr d \<Rightarrow> Inr (json d))"

text \<open>The value that is appended to a document or an array; values of other types are only logged.\<close>

fun append_value :: "'f mongo \<Rightarrow> 'f cvalue \<Rightarrow> 'f bvalue option result" where
  "append_value s (C_Float x) = Inr (Some (B_Double x))"
| "append_value s (C_Integer w) = Inr (Some (B_Long w))"
| "append_value s (C_Symbol t) = Inr (Some (B_Text t))"
| "append_value s (C_String t) = Inr (Some (B_Text t))"
| "append_value s (C_Instance_Name t) = Inr (Some (B_Text t))"
| "append_value s (C_Address q) = (case temp_doc q s of Inl x \<Rightarrow> Inl x | Inr d \<Rightarrow> Inr (Some (B_Doc d)))"
| "append_value s C_Other = Inr None"

definition append_field :: "nat \<Rightarrow> string \<Rightarrow> 'f bvalue \<Rightarrow> 'f mongo \<Rightarrow> 'f mongo mutation" where
  "append_field p name v s =
     (case usable p s of
        None \<Rightarrow> throwing bad_builder s
      | Some b \<Rightarrow> ok (put_builder p (b\<lparr>bd_fields := bd_fields b @ [(name, v)]\<rparr>) s))"

text \<open>Appending a document to itself reads memory that the builder may have moved.\<close>

definition bson_append :: "nat \<Rightarrow> string \<Rightarrow> 'f cvalue \<Rightarrow> 'f mongo \<Rightarrow> 'f mongo mutation" where
  "bson_append p name v s =
     (if v = C_Address p then throwing bad_builder s
      else case append_value s v of
        Inl x \<Rightarrow> throwing x s
      | Inr None \<Rightarrow> ok s
      | Inr (Some b) \<Rightarrow> append_field p name b s)"

definition bson_array_start :: "nat \<Rightarrow> string \<Rightarrow> 'f mongo \<Rightarrow> 'f mongo mutation" where
  "bson_array_start p name s =
     (case usable p s of
        None \<Rightarrow> throwing bad_builder s
      | Some b \<Rightarrow>
          ok (put_builder p (b\<lparr>bd_open := True\<rparr>)
            (s\<lparr>arrays := (arrays s)(next_builder s \<mapsto> \<lparr>ar_parent = p, ar_name = name, ar_elems = []\<rparr>),
               next_builder := next_builder s + 1\<rparr>)))"

definition bson_array_append :: "nat \<Rightarrow> 'f cvalue \<Rightarrow> 'f mongo \<Rightarrow> 'f mongo mutation" where
  "bson_array_append q v s =
     (case arrays s q of
        None \<Rightarrow> throwing bad_builder s
      | Some a \<Rightarrow>
          if builders s (ar_parent a) = None then throwing bad_builder s
          else case append_value s v of
            Inl x \<Rightarrow> throwing x s
          | Inr None \<Rightarrow> ok s
          | Inr (Some b) \<Rightarrow> ok (s\<lparr>arrays := (arrays s)(q \<mapsto> a\<lparr>ar_elems := ar_elems a @ [b]\<rparr>)\<rparr>))"

text \<open>The destructor of an array builder closes the array in its document.\<close>

definition bson_array_finish :: "nat \<Rightarrow> 'f mongo \<Rightarrow> 'f mongo mutation" where
  "bson_array_finish q s =
     (case arrays s q of
        None \<Rightarrow> throwing bad_builder s
      | Some a \<Rightarrow>
          (case builders s (ar_parent a) of
             None \<Rightarrow> throwing bad_builder s
           | Some b \<Rightarrow>
               ok (put_builder (ar_parent a)
                 (b\<lparr>bd_fields := bd_fields b @ [(ar_name a, B_Array (ar_elems a))], bd_open := False\<rparr>)
                 (s\<lparr>arrays := (arrays s)(q := None)\<rparr>))))"

fun array_append_each :: "nat \<Rightarrow> 'f cvalue list \<Rightarrow> 'f mongo \<Rightarrow> 'f mongo mutation" where
  "array_append_each q [] s = ok s"
| "array_append_each q (v # vs) s = andThen (bson_array_append q v s) (array_append_each q vs)"

text \<open>The array builder of \<open>bson-append-array\<close> lives on the stack.\<close>

definition bson_append_array :: "nat \<Rightarrow> string \<Rightarrow> 'f cvalue list \<Rightarrow> 'f mongo \<Rightarrow> 'f mongo mutation" where
  "bson_append_array p name vs s =
     andThen (bson_array_start p name s) (\<lambda>s1.
     andThen (array_append_each (next_builder s) vs s1) (bson_array_finish (next_builder s)))"

text \<open>A date of 64 bits; leaving them is an overflow of a signed number.\<close>

definition bson_append_time :: "nat \<Rightarrow> string \<Rightarrow> 'f cvalue list \<Rightarrow> 'f mongo \<Rightarrow> 'f mongo mutation" where
  "bson_append_time p name time s =
     (case time of
        [C_Integer sec, C_Integer usec] \<Rightarrow>
          (if - (2 ^ 63) \<le> sint sec * 1000 \<and> sint sec * 1000 < 2 ^ 63 \<and> - (2 ^ 63) \<le> date_of (sint sec, sint usec) \<and> date_of (sint sec, sint usec) < 2 ^ 63
           then append_field p name (B_Date (date_of (sint sec, sint usec))) s
           else throwing (UndefinedBehaviour ''signed overflow'') s)
      | _ \<Rightarrow> ok s)"

section \<open>Requests of the rules\<close>

text \<open>Failures of the database are only logged. \<open>obj()\<close> takes the memory from the builder.\<close>

definition clips_mongodb_insert :: "string \<Rightarrow> nat \<Rightarrow> 'f mongo \<Rightarrow> 'f mongo mutation" where
  "clips_mongodb_insert collection p s =
     (if \<not> mongodb_enabled s then ok s
      else case usable p s of
        None \<Rightarrow> throwing bad_builder s
      | Some b \<Rightarrow> ok (put_builder p (b\<lparr>bd_owned := False\<rparr>) (s\<lparr>requests := requests s @ [Insert collection (bd_fields b)]\<rparr>)))"

definition mongodb_update ::
  "(string \<Rightarrow> 'f document option) \<Rightarrow> string \<Rightarrow> 'f document \<Rightarrow> 'f cvalue \<Rightarrow> bool \<Rightarrow> 'f mongo \<Rightarrow> 'f mongo mutation" where
  "mongodb_update fromjson collection d query upsert s =
     (if \<not> mongodb_enabled s then ok s
      else let send = (\<lambda>q. ok (s\<lparr>requests := requests s @ [Update collection q d upsert]\<rparr>)) in
        case query of
          C_String t \<Rightarrow> (case fromjson t of None \<Rightarrow> ok s | Some q \<Rightarrow> send q)
        | C_Address p \<Rightarrow> (case temp_doc p s of Inl x \<Rightarrow> throwing x s | Inr q \<Rightarrow> send q)
        | _ \<Rightarrow> ok s)"

definition with_doc :: "nat \<Rightarrow> ('f document \<Rightarrow> 'f mongo \<Rightarrow> 'f mongo mutation) \<Rightarrow> 'f mongo \<Rightarrow> 'f mongo mutation" where
  "with_doc p f s = (case temp_doc p s of Inl x \<Rightarrow> throwing x s | Inr d \<Rightarrow> f d s)"

definition clips_mongodb_upsert where
  "clips_mongodb_upsert fromjson collection p query =
     with_doc p (\<lambda>d. mongodb_update fromjson collection d query True)"

definition clips_mongodb_update where
  "clips_mongodb_update fromjson collection p query =
     with_doc p (\<lambda>d. mongodb_update fromjson collection [(''$set'', B_Doc d)] query False)"

definition clips_mongodb_replace where
  "clips_mongodb_replace fromjson collection p query =
     with_doc p (\<lambda>d. mongodb_update fromjson collection d query False)"

section \<open>A document with its arrays reaches the database\<close>

text \<open>
  What the rules put into a document, one after the other: a value, an array at once, an array
  element by element, or a time.
\<close>

datatype 'f item =
    Field string "'f cvalue" | Elements string "'f cvalue list" | Stepwise string "'f cvalue list"
  | Time string "64 word" "64 word"

fun run_item :: "nat \<Rightarrow> 'f item \<Rightarrow> 'f mongo \<Rightarrow> 'f mongo mutation" where
  "run_item p (Field name v) s = bson_append p name v s"
| "run_item p (Elements name vs) s = bson_append_array p name vs s"
| "run_item p (Stepwise name vs) s =
     andThen (bson_array_start p name s) (\<lambda>s1.
     andThen (array_append_each (next_builder s) vs s1) (bson_array_finish (next_builder s)))"
| "run_item p (Time name sec usec) s = bson_append_time p name [C_Integer sec, C_Integer usec] s"

fun run_items :: "nat \<Rightarrow> 'f item list \<Rightarrow> 'f mongo \<Rightarrow> 'f mongo mutation" where
  "run_items p [] s = ok s"
| "run_items p (i # is1) s = andThen (run_item p i s) (run_items p is1)"

text \<open>The values that are stored; those of a type that is not supported are left out.\<close>

definition stored :: "'f mongo \<Rightarrow> 'f cvalue list \<Rightarrow> 'f bvalue list" where
  "stored s vs = concat (map (\<lambda>v. case append_value s v of Inr (Some b) \<Rightarrow> [b] | _ \<Rightarrow> []) vs)"

fun entries :: "'f mongo \<Rightarrow> 'f item \<Rightarrow> 'f document" where
  "entries s (Field name v) = map (Pair name) (stored s [v])"
| "entries s (Elements name vs) = [(name, B_Array (stored s vs))]"
| "entries s (Stepwise name vs) = [(name, B_Array (stored s vs))]"
| "entries s (Time name sec usec) = [(name, B_Date (date_of (sint sec, sint usec)))]"

text \<open>The values that can be appended: documents are other ones than the one that is built, and usable.\<close>

definition readable :: "nat \<Rightarrow> 'f mongo \<Rightarrow> 'f cvalue \<Rightarrow> bool" where
  "readable p s v \<longleftrightarrow> v \<noteq> C_Address p \<and> is_ok (append_value s v)"

fun item_ok :: "nat \<Rightarrow> 'f mongo \<Rightarrow> 'f item \<Rightarrow> bool" where
  "item_ok p s (Field name v) \<longleftrightarrow> readable p s v"
| "item_ok p s (Elements name vs) \<longleftrightarrow> (\<forall>v \<in> set vs. readable p s v)"
| "item_ok p s (Stepwise name vs) \<longleftrightarrow> (\<forall>v \<in> set vs. readable p s v)"
| "item_ok p s (Time name sec usec) \<longleftrightarrow> \<bar>sint sec\<bar> < 2 ^ 50 \<and> \<bar>sint usec\<bar> < 2 ^ 50"

text \<open>Nothing but the builder \<open>p\<close> and array builders has changed.\<close>

definition others_same :: "nat \<Rightarrow> 'f mongo \<Rightarrow> 'f mongo \<Rightarrow> bool" where
  "others_same p s s' \<longleftrightarrow>
     (\<forall>q. q \<noteq> p \<longrightarrow> builders s' q = builders s q) \<and> requests s' = requests s \<and> mongodb_enabled s' = mongodb_enabled s"

lemma others_same_refl [simp]: "others_same p s s"
  by (simp add: others_same_def)

lemma others_same_trans: "others_same p s s1 \<Longrightarrow> others_same p s1 s2 \<Longrightarrow> others_same p s s2"
  by (simp add: others_same_def)

lemma append_value_same: "others_same p s s' \<Longrightarrow> v \<noteq> C_Address p \<Longrightarrow> append_value s' v = append_value s v"
  by (cases v) (auto simp: others_same_def temp_doc_def usable_def)

lemma readable_same: "others_same p s s' \<Longrightarrow> readable p s' v = readable p s v"
  using append_value_same [of p s s' v] by (auto simp: readable_def)

lemma stored_same:
  "others_same p s s' \<Longrightarrow> \<forall>v \<in> set vs. v \<noteq> C_Address p \<Longrightarrow> stored s' vs = stored s vs"
  by (induction vs) (simp_all add: stored_def append_value_same)

lemma item_same:
  assumes "others_same p s s'"
  shows "item_ok p s' i = item_ok p s i" and "item_ok p s i \<Longrightarrow> entries s' i = entries s i"
  using assms readable_same [OF assms] stored_same [OF assms]
  by (cases i; simp add: readable_def)+

lemma append_field_others:
  assumes "usable p s = Some b"
  shows "\<exists>s'. append_field p name v s = ok s' \<and> others_same p s s' \<and>
    usable p s' = Some (b\<lparr>bd_fields := bd_fields b @ [(name, v)]\<rparr>)"
  using assms by (auto simp: append_field_def others_same_def put_builder_def usable_def split: option.splits if_splits)

text \<open>While an array is open, its elements are collected.\<close>

definition filling :: "nat \<Rightarrow> nat \<Rightarrow> string \<Rightarrow> 'f bvalue list \<Rightarrow> 'f builder \<Rightarrow> 'f mongo \<Rightarrow> bool" where
  "filling p q name es b s \<longleftrightarrow>
     arrays s q = Some \<lparr>ar_parent = p, ar_name = name, ar_elems = es\<rparr> \<and> builders s p = Some (b\<lparr>bd_open := True\<rparr>)"

lemma array_append_filling:
  assumes "filling p q name es b s" and "readable p s v"
  shows "\<exists>s'. bson_array_append q v s = ok s' \<and> others_same p s s' \<and> filling p q name (es @ stored s [v]) b s'"
proof -
  obtain ob where ob: "append_value s v = Inr ob"
    using assms(2) by (auto simp: readable_def is_ok_iff)
  show ?thesis
    using assms(1) ob
    by (cases ob) (auto simp: bson_array_append_def filling_def stored_def others_same_def)
qed

lemma array_append_each_filling:
  assumes "filling p q name es b s" and "\<forall>v \<in> set vs. readable p s v"
  shows "\<exists>s'. array_append_each q vs s = ok s' \<and> others_same p s s' \<and> filling p q name (es @ stored s vs) b s'"
  using assms
proof (induction vs arbitrary: es s)
  case Nil
  then show ?case by (simp add: stored_def)
next
  case (Cons v vs)
  obtain s1 where s1: "bson_array_append q v s = ok s1" "others_same p s s1" "filling p q name (es @ stored s [v]) b s1"
    using array_append_filling [OF Cons.prems(1)] Cons.prems(2) by auto
  obtain s2 where s2: "array_append_each q vs s1 = ok s2" "others_same p s1 s2"
      "filling p q name ((es @ stored s [v]) @ stored s1 vs) b s2"
    using Cons.IH [OF s1(3)] Cons.prems(2) readable_same [OF s1(2)] by auto
  have "stored s1 vs = stored s vs"
    using stored_same [OF s1(2)] Cons.prems(2) by (simp add: readable_def)
  then have "(es @ stored s [v]) @ stored s1 vs = es @ stored s (v # vs)"
    by (simp add: stored_def)
  then show ?case
    using s1(1,2) s2 others_same_trans by fastforce
qed

lemma array_built:
  assumes u: "usable p s = Some b" and "\<forall>v \<in> set vs. readable p s v"
  shows "\<exists>s'. run_item p (Stepwise name vs) s = ok s' \<and> others_same p s s' \<and>
    usable p s' = Some (b\<lparr>bd_fields := bd_fields b @ [(name, B_Array (stored s vs))]\<rparr>)"
proof -
  let ?q = "next_builder s"
  have b: "builders s p = Some b" "bd_owned b" "\<not> bd_open b"
    using u by (auto simp: usable_def split: option.splits if_splits)
  obtain s1 where s1: "bson_array_start p name s = ok s1" "others_same p s s1" "filling p ?q name [] b s1"
    using u by (auto simp: bson_array_start_def others_same_def put_builder_def filling_def)
  obtain s2 where s2: "array_append_each ?q vs s1 = ok s2" "others_same p s1 s2" "filling p ?q name ([] @ stored s1 vs) b s2"
    using array_append_each_filling [OF s1(3), of vs] assms(2) readable_same [OF s1(2)] by auto
  obtain s3 where s3: "bson_array_finish ?q s2 = ok s3" "others_same p s2 s3"
      "builders s3 p = Some (b\<lparr>bd_fields := bd_fields b @ [(name, B_Array (stored s1 vs))], bd_open := False\<rparr>)"
    using s2(3) by (auto simp: bson_array_finish_def filling_def others_same_def put_builder_def)
  have "stored s1 vs = stored s vs"
    using stored_same [OF s1(2)] assms(2) by (simp add: readable_def)
  moreover have "others_same p s s3"
    using s1(2) s2(2) s3(2) others_same_trans by blast
  ultimately show ?thesis
    using s1(1) s2(1) s3(1,3) b by (auto simp: usable_def)
qed

lemma date_in_range:
  assumes "\<bar>sec\<bar> < 2 ^ 50" and "\<bar>usec\<bar> < 2 ^ 50"
  shows "\<bar>date_of (sec, usec)\<bar> < 2 ^ 63" and "\<bar>sec * 1000\<bar> < 2 ^ 63"
proof -
  have "\<bar>(if usec < 0 then - ((- usec) div 1000) else usec div 1000)\<bar> \<le> \<bar>usec\<bar>"
    by (auto simp: abs_if div_le_dividend zdiv_mono2 intro: order_trans [OF zdiv_mono2 [of _ 1]])
  then show "\<bar>date_of (sec, usec)\<bar> < 2 ^ 63"
    using assms by (auto simp: date_of_def split: if_splits)
  show "\<bar>sec * 1000\<bar> < 2 ^ 63"
    using assms(1) by simp
qed

lemma item_built:
  assumes u: "usable p s = Some b" and ok: "item_ok p s i"
  shows "\<exists>s'. run_item p i s = ok s' \<and> others_same p s s' \<and>
    usable p s' = Some (b\<lparr>bd_fields := bd_fields b @ entries s i\<rparr>)"
proof (cases i)
  case (Field name v)
  then obtain ob where ob: "append_value s v = Inr ob" "v \<noteq> C_Address p"
    using ok by (auto simp: readable_def is_ok_iff)
  show ?thesis
    using Field ob u append_field_others [OF u, of name "the ob"]
    by (cases ob) (auto simp: bson_append_def stored_def)
next
  case (Elements name vs)
  then show ?thesis
    using array_built [OF u, of vs name] ok by (simp add: bson_append_array_def)
next
  case (Stepwise name vs)
  then show ?thesis
    using array_built [OF u, of vs name] ok by simp
next
  case (Time name sec usec)
  then show ?thesis
    using date_in_range [of "sint sec" "sint usec"] ok append_field_others [OF u, of name "B_Date (date_of (sint sec, sint usec))"]
    by (auto simp: bson_append_time_def abs_less_iff)
qed

lemma items_built:
  assumes "usable p s = Some b" and "\<forall>i \<in> set items. item_ok p s i"
  shows "\<exists>s'. run_items p items s = ok s' \<and> others_same p s s' \<and>
    usable p s' = Some (b\<lparr>bd_fields := bd_fields b @ concat (map (entries s) items)\<rparr>)"
  using assms
proof (induction items arbitrary: s b)
  case Nil
  then show ?case by simp
next
  case (Cons i items)
  obtain s1 where s1: "run_item p i s = ok s1" "others_same p s s1"
      "usable p s1 = Some (b\<lparr>bd_fields := bd_fields b @ entries s i\<rparr>)"
    using item_built [OF Cons.prems(1)] Cons.prems(2) by auto
  have "\<forall>i \<in> set items. item_ok p s1 i" "map (entries s1) items = map (entries s) items"
    using Cons.prems(2) item_same [OF s1(2)] by simp_all
  with Cons.IH [OF s1(3)] obtain s2 where "run_items p items s1 = ok s2" "others_same p s1 s2"
      "usable p s2 = Some (b\<lparr>bd_fields := (bd_fields b @ entries s i) @ concat (map (entries s) items)\<rparr>)"
    by auto
  then show ?case
    using s1(1,2) others_same_trans by fastforce
qed

text \<open>
  C22. A document reaches the database as the rules built it: values, arrays built at once or
  element by element, times and copies of other documents appear in the order of the calls, and
  nothing else does; values that are not supported are left out. The insertion uses the builder
  up: it can only be destroyed afterwards, and every other builder is as before.
\<close>

theorem document_reaches_database:
  assumes "usable p s = Some b" and "\<forall>i \<in> set items. item_ok p s i" and "mongodb_enabled s"
  shows "\<exists>s'. andThen (run_items p items s) (clips_mongodb_insert collection p) = ok s' \<and>
    requests s' = requests s @ [Insert collection (bd_fields b @ concat (map (entries s) items))] \<and>
    (\<forall>q. q \<noteq> p \<longrightarrow> usable q s' = usable q s) \<and>
    (\<forall>name v. snd (bson_append p name v s') \<noteq> None \<or> append_value s' v = Inr None) \<and>
    snd (clips_mongodb_insert collection p s') = Some bad_builder \<and> snd (bson_destroy p s') = None"
proof -
  obtain s1 where s1: "run_items p items s = ok s1" "others_same p s s1"
      "usable p s1 = Some (b\<lparr>bd_fields := bd_fields b @ concat (map (entries s) items)\<rparr>)"
    using items_built [OF assms(1,2)] by blast
  let ?b = "b\<lparr>bd_fields := bd_fields b @ concat (map (entries s) items)\<rparr>"
  let ?s = "put_builder p (?b\<lparr>bd_owned := False\<rparr>) (s1\<lparr>requests := requests s1 @ [Insert collection (bd_fields ?b)]\<rparr>)"
  have "clips_mongodb_insert collection p s1 = ok ?s"
    using s1(2,3) assms(3) by (simp add: clips_mongodb_insert_def others_same_def)
  moreover have "usable p ?s = None" "mongodb_enabled ?s" "builders ?s p \<noteq> None"
    using s1(2) assms(3) by (simp_all add: usable_def put_builder_def others_same_def)
  moreover have "\<forall>q. q \<noteq> p \<longrightarrow> usable q ?s = usable q s"
    using s1(2) by (simp add: usable_def put_builder_def others_same_def)
  moreover have "snd (bson_append p name v ?s) \<noteq> None \<or> append_value ?s v = Inr None" for name v
    using \<open>usable p ?s = None\<close> by (auto simp: bson_append_def append_field_def split: sum.splits option.splits)
  ultimately show ?thesis
    using s1(1,2) by (intro exI [of _ ?s]) (auto simp: clips_mongodb_insert_def bson_destroy_def others_same_def put_builder_def)
qed

section \<open>A protobuf message as a document\<close>

lemma add_elem_name: "e \<in> set (add_elem f x) \<Longrightarrow> fst e = f_name f"
  by (cases x) (auto split: option.splits)

fun field_name :: "'f mfield \<Rightarrow> string" where
  "field_name (MField f _) = f_name f"

lemma add_field_name: "e \<in> set (add_field x) \<Longrightarrow> fst e = field_name x"
  by (cases x) (auto split: if_splits dest: add_elem_name)

lemma filter_fields:
  assumes "x \<in> set fs" and "distinct (map field_name fs)"
  shows "filter (\<lambda>e. fst e = field_name x) (concat (map add_field fs)) = add_field x"
  using assms
proof (induction fs)
  case (Cons y fs)
  show ?case
  proof (cases "x = y")
    case True
    then have "filter (\<lambda>e. fst e = field_name x) (concat (map add_field fs)) = []"
      using Cons.prems(2) by (fastforce simp: filter_empty_conv dest: add_field_name)
    moreover have "filter (\<lambda>e. fst e = field_name x) (add_field y) = add_field y"
      using True by (auto simp: filter_id_conv dest: add_field_name)
    ultimately show ?thesis
      using True by simp
  next
    case False
    then have "field_name y \<noteq> field_name x"
      using Cons.prems by auto
    then have "filter (\<lambda>e. fst e = field_name x) (add_field y) = []"
      by (auto simp: filter_empty_conv dest: add_field_name)
    then show ?thesis
      using Cons False by simp
  qed
qed simp

lemma add_elem_length: "length (add_elem f e) \<le> 1"
  by (cases e) (auto split: option.splits)

lemma concat_singles:
  "\<forall>e \<in> set es. add_elem f e \<noteq> [] \<Longrightarrow> length (concat (map (add_elem f) es)) = length es"
proof (induction es)
  case (Cons e es)
  then have "length (add_elem f e) = 1"
    using add_elem_length [of f e] by (cases "add_elem f e") auto
  then show ?case
    using Cons by simp
qed simp

lemma meta_not_field:
  assumes "nm \<notin> {''_time'', ''_type'', ''_protobuf'', ''_meta''}"
  shows "filter (\<lambda>e. fst e = nm) (log_traffic ct now ev (MView ty data fs)) =
    filter (\<lambda>e. fst e = nm) (concat (map add_field fs))"
  using assms by (auto simp: log_traffic_def write_message_def)

lemma map_of_filter: "map_of xs k = map_of (filter (\<lambda>e. fst e = k) xs) k"
  by (induction xs) auto

text \<open>
  The document of a message that was received or sent holds, beside its time, type,
  serialization and description, the elements of each field that is set, in their order and under
  the name of the field. A repeated field does not become an array: a document has as many entries
  of its name as it has elements, and a reader that looks the name up finds the first one only.
\<close>

theorem message_document_entries:
  assumes "MField f es \<in> set fs" and "f_type f \<noteq> TYPE_GROUP" and "distinct (map field_name fs)"
    and "f_name f \<notin> {''_time'', ''_type'', ''_protobuf'', ''_meta''}"
    and "es \<noteq> []" and "\<forall>e \<in> set es. add_elem f e \<noteq> []"
  shows "let d = log_traffic ct now ev (MView ty data fs) in
    filter (\<lambda>e. fst e = f_name f) d = concat (map (add_elem f) es) \<and>
    length (filter (\<lambda>e. fst e = f_name f) d) = length es \<and>
    map_of d (f_name f) = Some (snd (hd (add_elem f (hd es))))"
proof -
  let ?d = "log_traffic ct now ev (MView ty data fs)"
  have fil: "filter (\<lambda>e. fst e = f_name f) ?d = concat (map (add_elem f) es)"
    using filter_fields [OF assms(1,3)] meta_not_field [OF assms(4), of ct now ev ty data fs] assms(2) by simp
  obtain e es' where es: "es = e # es'"
    using assms(5) by (cases es) auto
  obtain v where "add_elem f e = [(f_name f, v)]"
    using assms(6) es add_elem_length [of f e] add_elem_name [of _ f e] by (cases "add_elem f e") auto
  then have "map_of ?d (f_name f) = Some v"
    using map_of_filter [of ?d "f_name f"] fil es by simp
  then show ?thesis
    using fil concat_singles [OF assms(6)] es \<open>add_elem f e = [(f_name f, v)]\<close> by (simp add: Let_def)
qed

section \<open>Examples\<close>

text \<open>The game report of the rules: points in an array, with a document that was built meanwhile.\<close>

definition demo_mongo :: "nat mongo" where
  "demo_mongo =
     \<lparr>builders = [0 \<mapsto> \<lparr>bd_fields = [], bd_owned = True, bd_open = False\<rparr>,
                  1 \<mapsto> \<lparr>bd_fields = [(''team'', B_Text ''CYAN'')], bd_owned = True, bd_open = False\<rparr>],
       arrays = Map.empty, next_builder = 2, mongodb_enabled = True, requests = []\<rparr>"

definition demo_items :: "nat item list" where
  "demo_items = [Time ''start-time'' 10 5000, Elements ''teams'' [C_String ''A'', C_Other], Stepwise ''points'' [C_Address 1], Field ''total'' (C_Integer 7)]"

theorem document_reaches_database_witness:
  "\<exists>s'. andThen (run_items 0 demo_items demo_mongo) (clips_mongodb_insert ''llsfrb.game_report'' 0) = ok s' \<and>
     requests s' = [Insert ''llsfrb.game_report''
       [(''start-time'', B_Date 10005), (''teams'', B_Array [B_Text ''A'']),
        (''points'', B_Array [B_Doc [(''team'', B_Text ''CYAN'')]]), (''total'', B_Long 7)]]"
proof -
  have u: "usable 0 demo_mongo = Some \<lparr>bd_fields = [], bd_owned = True, bd_open = False\<rparr>"
    by (simp add: usable_def demo_mongo_def)
  have ok: "\<forall>i \<in> set demo_items. item_ok 0 demo_mongo i"
    by (simp add: demo_items_def demo_mongo_def readable_def temp_doc_def usable_def)
  have "concat (map (entries demo_mongo) demo_items) =
      [(''start-time'', B_Date 10005), (''teams'', B_Array [B_Text ''A'']),
       (''points'', B_Array [B_Doc [(''team'', B_Text ''CYAN'')]]), (''total'', B_Long 7)]"
    by (simp add: demo_items_def demo_mongo_def stored_def temp_doc_def usable_def date_of_def)
  moreover have "mongodb_enabled demo_mongo" "requests demo_mongo = []"
    by (simp_all add: demo_mongo_def)
  ultimately show ?thesis
    using document_reaches_database [OF u ok, of "''llsfrb.game_report''"] by auto
qed

definition demo_points :: fdesc where
  "demo_points = \<lparr>f_name = ''points'', f_type = TYPE_UINT32, f_label = LABEL_REPEATED, f_enum = []\<rparr>"

theorem message_document_entries_witness:
  "map_of (log_traffic (\<lambda>_. None) (1, 2) (Server_Sent 4)
       (MView ''llsf.GameInfo'' [] [MField demo_points [MPlain (PV_UInt32 3), MPlain (PV_UInt32 5)]] :: nat mview)) ''points'' =
     Some (B_UInt 3)"
proof -
  have "f_name demo_points = ''points''" "f_type demo_points = TYPE_UINT32"
    by (simp_all add: demo_points_def)
  then show ?thesis
    using message_document_entries [of demo_points "[MPlain (PV_UInt32 3), MPlain (PV_UInt32 5)] :: nat melem list"
        "[MField demo_points [MPlain (PV_UInt32 3), MPlain (PV_UInt32 5)]]" "\<lambda>_. None" "(1, 2)" "Server_Sent 4"
        "''llsf.GameInfo''" "[]"]
    by (simp add: Let_def)
qed

end
