(* ===== verification/Resolver.thy ===== *)
theory Resolver imports Prelude "HOL-Library.Multiset"
begin

text \<open>
  The resolver of host names and addresses, \<open>src/libs/netcomm/utils/resolver.cpp\<close> and
  \<open>resolver_thread.cpp\<close>: the caches, the queues of the worker thread and the memory that both
  own. Calls of the clients, flushes, results of Avahi and the steps of the worker are the steps
  of the model; each of them is one section of the code under a lock, and they may come in any
  order. The lookups of the operating system and the allocator are parameters.
\<close>

section \<open>State\<close>

text \<open>
  A text or a socket address (with its length), at an address of the memory. The name cache and
  the queue of names are hash tables with the addresses of the texts as keys: the bucket is the
  address modulo the number of buckets, but within a bucket the texts are compared.
\<close>

type_synonym ptr = nat

datatype 'a block = Str string | Sock 'a

type_synonym 'v hash_entries = "(ptr \<times> 'v) list"

datatype worker_phase = Waiting | Addresses | Names

record 'a resolver =
  mem :: "ptr \<Rightarrow> 'a block option"
  cache_timeout :: "32 word"
  addr2name_cache :: "(32 word \<times> ptr \<times> int) list"
  name2addr_cache :: "(ptr \<times> int) hash_entries"
  name2addr_buckets :: nat
  namesq :: "unit hash_entries"
  namesq_buckets :: nat
  namesq_proc :: "unit hash_entries"
  namesq_proc_buckets :: nat
  addrq :: "(32 word \<times> ptr) list"
  addrq_proc :: "(32 word \<times> ptr) list"
  worker :: worker_phase
  wakeups :: nat

text \<open>
  The parameters: where \<open>malloc\<close> puts a block when the given addresses are in use; the number of
  buckets of a table with some buckets and entries, when one is added; and \<open>s_addr\<close> and
  \<open>inet_ntop\<close> of a socket address.
\<close>

record 'a host =
  alloc :: "ptr set \<Rightarrow> ptr"
  grow :: "nat \<Rightarrow> nat \<Rightarrow> nat"
  s_addr :: "'a \<Rightarrow> 32 word"
  ntop :: "'a \<Rightarrow> string option"

definition resolver_new :: "nat \<Rightarrow> 'a resolver" where
  "resolver_new b =
     \<lparr>mem = Map.empty, cache_timeout = 30, addr2name_cache = [], name2addr_cache = [], name2addr_buckets = b,
      namesq = [], namesq_buckets = b, namesq_proc = [], namesq_proc_buckets = b, addrq = [], addrq_proc = [],
      worker = Waiting, wakeups = 0\<rparr>"

section \<open>Memory\<close>

definition freed :: exn where
  "freed = UndefinedBehaviour ''the memory was freed''"

definition free_block :: "ptr \<Rightarrow> 'a resolver \<Rightarrow> 'a resolver result" where
  "free_block p s = (if mem s p = None then Inl freed else Inr (s\<lparr>mem := (mem s)(p := None)\<rparr>))"

definition new_block :: "'a host \<Rightarrow> 'a block \<Rightarrow> 'a resolver \<Rightarrow> 'a resolver \<times> ptr" where
  "new_block H b s = (let p = alloc H (dom (mem s)) in (s\<lparr>mem := (mem s)(p \<mapsto> b)\<rparr>, p))"

definition text_at :: "'a resolver \<Rightarrow> ptr \<Rightarrow> string result" where
  "text_at s p = (case mem s p of Some (Str t) \<Rightarrow> Inr t | _ \<Rightarrow> Inl freed)"

definition sock_at :: "'a resolver \<Rightarrow> ptr \<Rightarrow> 'a result" where
  "sock_at s p = (case mem s p of Some (Sock a) \<Rightarrow> Inr a | _ \<Rightarrow> Inl freed)"

text \<open>\<open>find\<close> of a table with \<open>n\<close> buckets for the text \<open>t\<close> at \<open>p\<close>; the entry added last comes first.\<close>

fun hash_find :: "'a resolver \<Rightarrow> nat \<Rightarrow> ptr \<Rightarrow> string \<Rightarrow> 'v hash_entries \<Rightarrow> (ptr \<times> 'v) option result" where
  "hash_find s n p t [] = Inr None"
| "hash_find s n p t (e # es) =
     (if fst e mod n \<noteq> p mod n then hash_find s n p t es
      else bind_result (text_at s (fst e)) (\<lambda>t'. if t' = t then Inr (Some e) else hash_find s n p t es))"

section \<open>The queues of the worker\<close>

definition enqueue_name :: "'a host \<Rightarrow> ptr \<Rightarrow> string \<Rightarrow> 'a resolver \<Rightarrow> 'a resolver result" where
  "enqueue_name H p t s =
     bind_result (hash_find s (namesq_buckets s) p t (namesq s)) (\<lambda>hit.
     case hit of
       Some _ \<Rightarrow> Inr s
     | None \<Rightarrow>
         let (s1, q) = new_block H (Str t) s in
         Inr (s1\<lparr>namesq := (q, ()) # namesq s1, namesq_buckets := grow H (namesq_buckets s1) (length (namesq s1)),
                 wakeups := wakeups s1 + 1\<rparr>))"

definition enqueue_address :: "'a host \<Rightarrow> 'a \<Rightarrow> 'a resolver \<Rightarrow> 'a resolver" where
  "enqueue_address H a s =
     (if map_of (addrq s) (s_addr H a) \<noteq> None then s
      else let (s1, q) = new_block H (Sock a) s in
        s1\<lparr>addrq := smap_ins (s_addr H a) q (addrq s1), wakeups := wakeups s1 + 1\<rparr>)"

section \<open>Results\<close>

text \<open>The old entry of the name, if it was found, is gone, and with it its memory.\<close>

definition drop_name :: "(ptr \<times> ptr \<times> int) option \<Rightarrow> 'a resolver \<Rightarrow> 'a resolver result" where
  "drop_name hit s =
     (case hit of
        None \<Rightarrow> Inr s
      | Some (k, r', x) \<Rightarrow>
          bind_result (free_block r' s) (\<lambda>s1.
          free_block k (s1\<lparr>name2addr_cache := remove1 (k, r', x) (name2addr_cache s1)\<rparr>)))"

text \<open>
  \<open>name_resolved\<close> takes over the text at \<open>p\<close> and the address at \<open>r\<close>. After the old entry was
  erased, \<open>operator[]\<close> looks for the name once more, and overwrites what it finds.
\<close>

definition name_resolved :: "'a host \<Rightarrow> int \<Rightarrow> ptr \<Rightarrow> ptr \<Rightarrow> 'a resolver \<Rightarrow> 'a resolver result" where
  "name_resolved H now p r s =
     bind_result (text_at s p) (\<lambda>t.
     bind_result (hash_find s (name2addr_buckets s) p t (name2addr_cache s)) (\<lambda>hit.
     bind_result (drop_name hit s) (\<lambda>s2.
     bind_result (hash_find s2 (name2addr_buckets s2) p t (name2addr_cache s2)) (\<lambda>again.
     let x = now + uint (cache_timeout s2) in
     case again of
       None \<Rightarrow> Inr (s2\<lparr>name2addr_cache := (p, r, x) # name2addr_cache s2,
                      name2addr_buckets := grow H (name2addr_buckets s2) (length (name2addr_cache s2))\<rparr>)
     | Some e \<Rightarrow> Inr (s2\<lparr>name2addr_cache := map (\<lambda>e'. if e' = e then (fst e, r, x) else e') (name2addr_cache s2)\<rparr>)))))"

text \<open>\<open>addr_resolved\<close> takes over the address at \<open>r\<close> and the text at \<open>p\<close>.\<close>

definition addr_resolved :: "'a host \<Rightarrow> int \<Rightarrow> ptr \<Rightarrow> ptr \<Rightarrow> bool \<Rightarrow> 'a resolver \<Rightarrow> 'a resolver result" where
  "addr_resolved H now r p namefound s =
     bind_result (sock_at s r) (\<lambda>a.
     bind_result
       (case map_of (addr2name_cache s) (s_addr H a) of
          Some (p', x) \<Rightarrow>
            if namefound
            then bind_result (free_block p' s) (\<lambda>s1.
              Inr (s1\<lparr>addr2name_cache :=
                (s_addr H a, p, now + uint (cache_timeout s1)) # smap_del (s_addr H a) (addr2name_cache s1)\<rparr>))
            else free_block p s
        | None \<Rightarrow>
            if namefound then free_block p s
            else Inr (s\<lparr>addr2name_cache := (s_addr H a, p, 0) # addr2name_cache s\<rparr>))
       (free_block r))"

section \<open>Calls of the clients\<close>

text \<open>The name is a text of the client at \<open>p\<close>; the result points into the cache.\<close>

definition resolve_name :: "'a host \<Rightarrow> int \<Rightarrow> ptr \<Rightarrow> string \<Rightarrow> 'a resolver \<Rightarrow> ('a resolver \<times> ptr option) result" where
  "resolve_name H now p t s =
     bind_result (hash_find s (name2addr_buckets s) p t (name2addr_cache s)) (\<lambda>hit.
     case hit of
       Some (k, r, x) \<Rightarrow>
         bind_result (if x \<le> now then enqueue_name H p t s else Inr s) (\<lambda>s1. Inr (s1, Some r))
     | None \<Rightarrow> bind_result (enqueue_name H p t s) (\<lambda>s1. Inr (s1, None)))"

text \<open>\<open>found\<close> is what \<open>getaddrinfo\<close> has for the name.\<close>

definition resolve_name_blocking ::
  "'a host \<Rightarrow> int \<Rightarrow> ptr \<Rightarrow> string \<Rightarrow> 'a option \<Rightarrow> 'a resolver \<Rightarrow> ('a resolver \<times> ptr option) result" where
  "resolve_name_blocking H now p t found s =
     bind_result (resolve_name H now p t s) (\<lambda>(s1, res).
     if res \<noteq> None then Inr (s1, res)
     else case found of
       None \<Rightarrow> Inr (s1, None)
     | Some a \<Rightarrow>
         let (s2, r) = new_block H (Sock a) s1; (s3, q) = new_block H (Str t) s2 in
         bind_result (name_resolved H now q r s3) (\<lambda>s4. Inr (s4, Some r)))"

definition resolve_address :: "'a host \<Rightarrow> int \<Rightarrow> 'a \<Rightarrow> 'a resolver \<Rightarrow> ('a resolver \<times> string option) result" where
  "resolve_address H now a s =
     (case map_of (addr2name_cache s) (s_addr H a) of
        Some (p, x) \<Rightarrow>
          bind_result (text_at s p) (\<lambda>t. Inr (if x \<le> now then enqueue_address H a s else s, Some t))
      | None \<Rightarrow>
          (case ntop H a of
             None \<Rightarrow> Inr (s, None)
           | Some t \<Rightarrow>
               let (s1, p) = new_block H (Str t) s;
                   s2 = s1\<lparr>addr2name_cache := (s_addr H a, p, now + uint (cache_timeout s1)) # addr2name_cache s1\<rparr>
               in Inr (enqueue_address H a s2, Some t)))"

definition set_cache_timeout :: "32 word \<Rightarrow> 'a resolver \<Rightarrow> 'a resolver" where
  "set_cache_timeout sec s = s\<lparr>cache_timeout := sec\<rparr>"

text \<open>The two halves of \<open>flush_cache\<close>, one for each lock.\<close>

fun flush_addresses :: "(32 word \<times> ptr \<times> int) list \<Rightarrow> 'a resolver \<Rightarrow> 'a resolver result" where
  "flush_addresses [] s = Inr s"
| "flush_addresses (e # es) s =
     bind_result (free_block (fst (snd e)) s) (\<lambda>s1. flush_addresses es (s1\<lparr>addr2name_cache := es\<rparr>))"

fun flush_names :: "(ptr \<times> int) hash_entries \<Rightarrow> 'a resolver \<Rightarrow> 'a resolver result" where
  "flush_names [] s = Inr s"
| "flush_names (e # es) s =
     bind_result (free_block (fst (snd e)) s) (\<lambda>s1.
     bind_result (free_block (fst e) (s1\<lparr>name2addr_cache := es\<rparr>)) (flush_names es))"

definition flush_cache :: "'a resolver \<Rightarrow> 'a resolver result" where
  "flush_cache s =
     bind_result (flush_addresses (addr2name_cache s) s) (\<lambda>s1. flush_names (name2addr_cache s1) s1)"

section \<open>The worker\<close>

text \<open>
  One step of \<open>loop\<close>: the exchange of the queues of addresses, one address, the exchange of the
  queues of names, or one name, the one that \<open>begin()\<close> happens to give. The arguments are what
  \<open>getnameinfo\<close> has for the address, with the information whether it is a name, and what
  \<open>getaddrinfo\<close> has for the name.
\<close>

definition work_address :: "'a host \<Rightarrow> int \<Rightarrow> (string \<times> bool) option \<Rightarrow> 'a resolver \<Rightarrow> 'a resolver result" where
  "work_address H now answer s =
     (case addrq_proc s of
        [] \<Rightarrow> Inr s
      | (k, r) # rest \<Rightarrow>
          bind_result (sock_at s r) (\<lambda>a.
          bind_result
            (case answer of
               Some (t, namefound) \<Rightarrow> let (s1, p) = new_block H (Str t) s in addr_resolved H now r p namefound s1
             | None \<Rightarrow> free_block r s) (\<lambda>s2.
          Inr (s2\<lparr>addrq_proc := rest\<rparr>))))"

definition work_name :: "'a host \<Rightarrow> int \<Rightarrow> nat \<Rightarrow> 'a option \<Rightarrow> 'a resolver \<Rightarrow> 'a resolver result" where
  "work_name H now i answer s =
     (if namesq_proc s = [] then Inr s
      else let e = namesq_proc s ! (i mod length (namesq_proc s)) in
        bind_result (text_at s (fst e)) (\<lambda>t.
        bind_result
          (case answer of
             Some a \<Rightarrow>
               let (s1, r) = new_block H (Sock a) s; (s2, p) = new_block H (Str t) s1 in name_resolved H now p r s2
           | None \<Rightarrow> let (s1, p) = new_block H (Str t) s in free_block p s1) (\<lambda>s3.
        free_block (fst e) (s3\<lparr>namesq_proc := remove1 e (namesq_proc s3)\<rparr>))))"

definition work ::
  "'a host \<Rightarrow> int \<Rightarrow> nat \<Rightarrow> 'a option \<Rightarrow> (string \<times> bool) option \<Rightarrow> 'a resolver \<Rightarrow> 'a resolver result" where
  "work H now i name_answer addr_answer s =
     (case worker s of
        Waiting \<Rightarrow> Inr (s\<lparr>addrq_proc := addrq s, addrq := addrq_proc s, worker := Addresses\<rparr>)
      | Addresses \<Rightarrow>
          if addrq_proc s = []
          then Inr (s\<lparr>namesq_proc := namesq s, namesq_proc_buckets := namesq_buckets s, namesq := namesq_proc s,
                     namesq_buckets := namesq_proc_buckets s, worker := Names\<rparr>)
          else work_address H now addr_answer s
      | Names \<Rightarrow>
          if namesq_proc s = [] then Inr (s\<lparr>worker := Waiting\<rparr>) else work_name H now i name_answer s)"

text \<open>The destructors; queues that are being worked on are not theirs to delete.\<close>

fun free_all :: "ptr list \<Rightarrow> 'a resolver \<Rightarrow> 'a resolver result" where
  "free_all [] s = Inr s"
| "free_all (p # ps) s = bind_result (free_block p s) (free_all ps)"

definition resolver_delete :: "'a resolver \<Rightarrow> 'a resolver result" where
  "resolver_delete s =
     bind_result (flush_cache s) (\<lambda>s1.
     bind_result (free_all (map fst (namesq s1)) s1) (\<lambda>s2.
     if namesq_proc s2 \<noteq> [] then Inl (UndefinedBehaviour ''an iterator of another queue'')
     else bind_result (free_all (map snd (addrq s2)) s2) (\<lambda>s3.
       if addrq_proc s3 \<noteq> [] then Inl (UndefinedBehaviour ''an iterator of another queue'')
       else Inr (s3\<lparr>namesq := [], addrq := []\<rparr>))))"

section \<open>Steps\<close>

text \<open>Everything that may happen to a resolver. Avahi gives its results away.\<close>

datatype 'a resolver_event =
    Ask_Name int ptr string
  | Ask_Name_Blocking int ptr string "'a option"
  | Ask_Address int 'a
  | Flush_Addresses
  | Flush_Names
  | Set_Timeout "32 word"
  | Work int nat "'a option" "(string \<times> bool) option"
  | Avahi_Name int string 'a
  | Avahi_Address int 'a string
  | Avahi_Name_Failed string
  | Avahi_Address_Failed 'a

fun happen :: "'a host \<Rightarrow> 'a resolver_event \<Rightarrow> 'a resolver \<Rightarrow> 'a resolver result" where
  "happen H (Ask_Name now p t) s = bind_result (resolve_name H now p t s) (\<lambda>(s1, _). Inr s1)"
| "happen H (Ask_Name_Blocking now p t found) s =
     bind_result (resolve_name_blocking H now p t found s) (\<lambda>(s1, _). Inr s1)"
| "happen H (Ask_Address now a) s = bind_result (resolve_address H now a s) (\<lambda>(s1, _). Inr s1)"
| "happen H Flush_Addresses s = flush_addresses (addr2name_cache s) s"
| "happen H Flush_Names s = flush_names (name2addr_cache s) s"
| "happen H (Set_Timeout sec) s = Inr (set_cache_timeout sec s)"
| "happen H (Work now i name_answer addr_answer) s = work H now i name_answer addr_answer s"
| "happen H (Avahi_Name now t a) s =
     (let (s1, r) = new_block H (Sock a) s; (s2, p) = new_block H (Str t) s1 in name_resolved H now p r s2)"
| "happen H (Avahi_Address now a t) s =
     (let (s1, r) = new_block H (Sock a) s; (s2, p) = new_block H (Str t) s1 in addr_resolved H now r p True s2)"
| "happen H (Avahi_Name_Failed t) s = (let (s1, p) = new_block H (Str t) s in free_block p s1)"
| "happen H (Avahi_Address_Failed a) s = (let (s1, r) = new_block H (Sock a) s in free_block r s1)"

fun happen_all :: "'a host \<Rightarrow> 'a resolver_event list \<Rightarrow> 'a resolver \<Rightarrow> 'a resolver result" where
  "happen_all H [] s = Inr s"
| "happen_all H (e # es) s = bind_result (happen H e s) (happen_all H es)"

section \<open>Who owns the memory\<close>

text \<open>
  \<open>T\<close> and \<open>U\<close> are the texts and the socket addresses that somebody owns: all of them are there,
  and nobody else owns them. With \<open>e\<close>, nothing else is allocated.
\<close>

definition sane :: "bool \<Rightarrow> (ptr \<Rightarrow> 'a block option) \<Rightarrow> ptr multiset \<Rightarrow> ptr multiset \<Rightarrow> bool" where
  "sane e m T U \<longleftrightarrow>
     finite (dom m) \<and> (\<forall>p. count T p + count U p \<le> 1) \<and> (\<forall>p \<in># T. \<exists>t. m p = Some (Str t)) \<and>
     (\<forall>p \<in># U. \<exists>a. m p = Some (Sock a)) \<and> (e \<longrightarrow> dom m = set_mset (T + U))"

definition cache_texts :: "'a resolver \<Rightarrow> ptr multiset" where
  "cache_texts s = mset (map (\<lambda>e. fst (snd e)) (addr2name_cache s)) + mset (map fst (name2addr_cache s))"

definition cache_socks :: "'a resolver \<Rightarrow> ptr multiset" where
  "cache_socks s = mset (map (\<lambda>e. fst (snd e)) (name2addr_cache s))"

definition queue_texts :: "'a resolver \<Rightarrow> ptr multiset" where
  "queue_texts s = mset (map fst (namesq s)) + mset (map fst (namesq_proc s))"

definition queue_socks :: "'a resolver \<Rightarrow> ptr multiset" where
  "queue_socks s = mset (map snd (addrq s)) + mset (map snd (addrq_proc s))"

text \<open>No bucket of the name cache has a text twice.\<close>

definition separate :: "'a resolver \<Rightarrow> bool" where
  "separate s \<longleftrightarrow> distinct (map (\<lambda>e. (fst e mod name2addr_buckets s, mem s (fst e))) (name2addr_cache s))"

text \<open>The caches, when \<open>T\<close> and \<open>U\<close> belong to others.\<close>

definition caches_own :: "bool \<Rightarrow> ptr multiset \<Rightarrow> ptr multiset \<Rightarrow> 'a resolver \<Rightarrow> bool" where
  "caches_own e T U s \<longleftrightarrow>
     sane e (mem s) (cache_texts s + T) (cache_socks s + U) \<and> distinct (map fst (addr2name_cache s)) \<and>
     (e \<longrightarrow> separate s)"

definition queues_fit :: "'a resolver \<Rightarrow> bool" where
  "queues_fit s \<longleftrightarrow>
     (case worker s of
        Waiting \<Rightarrow> addrq_proc s = [] \<and> namesq_proc s = []
      | Addresses \<Rightarrow> namesq_proc s = []
      | Names \<Rightarrow> addrq_proc s = [])"

definition owns :: "bool \<Rightarrow> 'a resolver \<Rightarrow> bool" where
  "owns e s \<longleftrightarrow> caches_own e (queue_texts s) (queue_socks s) s \<and> queues_fit s"

abbreviation queues :: "'a resolver \<Rightarrow> _" where
  "queues s \<equiv> (namesq s, namesq_buckets s, namesq_proc s, namesq_proc_buckets s, addrq s, addrq_proc s, worker s)"

definition fresh_alloc :: "'a host \<Rightarrow> bool" where
  "fresh_alloc H \<longleftrightarrow> (\<forall>M. finite M \<longrightarrow> alloc H M \<notin> M)"

lemma sane_new_text:
  "sane e m T U \<Longrightarrow> p \<notin> dom m \<Longrightarrow> sane e (m(p \<mapsto> Str t)) (add_mset p T) U"
  unfolding sane_def by (auto simp: not_in_iff [symmetric] count_eq_zero_iff)

lemma sane_new_sock:
  "sane e m T U \<Longrightarrow> p \<notin> dom m \<Longrightarrow> sane e (m(p \<mapsto> Sock a)) T (add_mset p U)"
  unfolding sane_def by (auto simp: not_in_iff [symmetric] count_eq_zero_iff)

lemma sane_free_text:
  assumes "sane e m (add_mset p T) U"
  shows "sane e (m(p := None)) T U" and "\<exists>t. m p = Some (Str t)" and "p \<notin># T" and "p \<notin># U"
proof -
  have c: "count T p = 0" "count U p = 0"
    using assms by (force simp: sane_def dest: spec [of _ p])+
  then show "p \<notin># T" "p \<notin># U"
    by (simp_all add: count_eq_zero_iff)
  show "\<exists>t. m p = Some (Str t)"
    using assms by (simp add: sane_def)
  have "count T q + count U q \<le> 1" for q
    using assms by (cases "q = p") (auto simp: sane_def c split: if_splits dest!: spec [of _ q])
  then show "sane e (m(p := None)) T U"
    using assms \<open>p \<notin># T\<close> \<open>p \<notin># U\<close> unfolding sane_def by auto
qed

lemma sane_free_sock:
  assumes "sane e m T (add_mset p U)"
  shows "sane e (m(p := None)) T U" and "\<exists>a. m p = Some (Sock a)" and "p \<notin># T" and "p \<notin># U"
proof -
  have c: "count T p = 0" "count U p = 0"
    using assms by (force simp: sane_def dest: spec [of _ p])+
  then show "p \<notin># T" "p \<notin># U"
    by (simp_all add: count_eq_zero_iff)
  show "\<exists>a. m p = Some (Sock a)"
    using assms by (simp add: sane_def)
  have "count T q + count U q \<le> 1" for q
    using assms by (cases "q = p") (auto simp: sane_def c split: if_splits dest!: spec [of _ q])
  then show "sane e (m(p := None)) T U"
    using assms \<open>p \<notin># T\<close> \<open>p \<notin># U\<close> unfolding sane_def by auto
qed

lemma sane_text: "sane e m T U \<Longrightarrow> p \<in># T \<Longrightarrow> \<exists>t. m p = Some (Str t)"
  by (simp add: sane_def)

lemma sane_sock: "sane e m T U \<Longrightarrow> p \<in># U \<Longrightarrow> \<exists>a. m p = Some (Sock a)"
  by (simp add: sane_def)

lemma sane_fresh: "sane e m T U \<Longrightarrow> fresh_alloc H \<Longrightarrow> alloc H (dom m) \<notin> dom m"
  by (simp add: sane_def fresh_alloc_def)

lemma separate_mem:
  "separate s \<Longrightarrow> \<forall>k \<in> fst ` set (name2addr_cache s). m k = mem s k \<Longrightarrow> separate (s\<lparr>mem := m\<rparr>)"
  unfolding separate_def by (simp cong: map_cong)

lemma own_new_text:
  assumes "caches_own e T U s" and "fresh_alloc H" and "new_block H (Str t) s = (s1, p)"
  shows "caches_own e (add_mset p T) U s1" and "s1 = s\<lparr>mem := (mem s)(p \<mapsto> Str t)\<rparr>" and "mem s p = None"
proof -
  have s: "sane e (mem s) (cache_texts s + T) (cache_socks s + U)"
    using assms(1) by (simp add: caches_own_def)
  have p: "p = alloc H (dom (mem s))" and s1: "s1 = s\<lparr>mem := (mem s)(p \<mapsto> Str t)\<rparr>"
    using assms(3) by (auto simp: new_block_def Let_def)
  have new: "p \<notin> dom (mem s)"
    using sane_fresh [OF s assms(2)] p by simp
  then show "mem s p = None" and "s1 = s\<lparr>mem := (mem s)(p \<mapsto> Str t)\<rparr>"
    using s1 by auto
  have "separate s \<Longrightarrow> separate s1"
    unfolding s1 by (rule separate_mem) (use s new in \<open>auto simp: cache_texts_def dest!: sane_text\<close>)
  then show "caches_own e (add_mset p T) U s1"
    using assms(1) sane_new_text [OF s new, of t] unfolding s1
    by (simp add: caches_own_def cache_texts_def cache_socks_def ac_simps)
qed

lemma own_new_sock:
  assumes "caches_own e T U s" and "fresh_alloc H" and "new_block H (Sock a) s = (s1, p)"
  shows "caches_own e T (add_mset p U) s1" and "s1 = s\<lparr>mem := (mem s)(p \<mapsto> Sock a)\<rparr>" and "mem s p = None"
proof -
  have s: "sane e (mem s) (cache_texts s + T) (cache_socks s + U)"
    using assms(1) by (simp add: caches_own_def)
  have p: "p = alloc H (dom (mem s))" and s1: "s1 = s\<lparr>mem := (mem s)(p \<mapsto> Sock a)\<rparr>"
    using assms(3) by (auto simp: new_block_def Let_def)
  have new: "p \<notin> dom (mem s)"
    using sane_fresh [OF s assms(2)] p by simp
  then show "mem s p = None" and "s1 = s\<lparr>mem := (mem s)(p \<mapsto> Sock a)\<rparr>"
    using s1 by auto
  have "separate s \<Longrightarrow> separate s1"
    unfolding s1 by (rule separate_mem) (use s new in \<open>auto simp: cache_texts_def dest!: sane_text\<close>)
  then show "caches_own e T (add_mset p U) s1"
    using assms(1) sane_new_sock [OF s new, of a] unfolding s1
    by (simp add: caches_own_def cache_texts_def cache_socks_def ac_simps)
qed

lemma own_free_text:
  assumes "caches_own e (add_mset p T) U s"
  shows "free_block p s = Inr (s\<lparr>mem := (mem s)(p := None)\<rparr>)" and "caches_own e T U (s\<lparr>mem := (mem s)(p := None)\<rparr>)"
proof -
  have "sane e (mem s) (add_mset p (cache_texts s + T)) (cache_socks s + U)"
    using assms by (simp add: caches_own_def)
  note f = sane_free_text [OF this]
  show "free_block p s = Inr (s\<lparr>mem := (mem s)(p := None)\<rparr>)"
    using f(2) by (auto simp: free_block_def)
  have "separate s \<Longrightarrow> separate (s\<lparr>mem := (mem s)(p := None)\<rparr>)"
    by (rule separate_mem) (use f(3) in \<open>auto simp: cache_texts_def\<close>)
  then show "caches_own e T U (s\<lparr>mem := (mem s)(p := None)\<rparr>)"
    using f(1) assms by (simp add: caches_own_def cache_texts_def cache_socks_def)
qed

lemma own_free_sock:
  assumes "caches_own e T (add_mset p U) s"
  shows "free_block p s = Inr (s\<lparr>mem := (mem s)(p := None)\<rparr>)" and "caches_own e T U (s\<lparr>mem := (mem s)(p := None)\<rparr>)"
proof -
  have "sane e (mem s) (cache_texts s + T) (add_mset p (cache_socks s + U))"
    using assms by (simp add: caches_own_def)
  note f = sane_free_sock [OF this]
  show "free_block p s = Inr (s\<lparr>mem := (mem s)(p := None)\<rparr>)"
    using f(2) by (auto simp: free_block_def)
  have "separate s \<Longrightarrow> separate (s\<lparr>mem := (mem s)(p := None)\<rparr>)"
    by (rule separate_mem) (use f(3) in \<open>auto simp: cache_texts_def\<close>)
  then show "caches_own e T U (s\<lparr>mem := (mem s)(p := None)\<rparr>)"
    using f(1) assms by (simp add: caches_own_def cache_texts_def cache_socks_def)
qed

lemma hash_find_live:
  assumes "\<forall>k \<in> fst ` set es. \<exists>u. mem s k = Some (Str u)"
  shows "\<exists>hit. hash_find s n p t es = Inr hit \<and>
    (case hit of
       None \<Rightarrow> \<forall>k \<in> fst ` set es. k mod n = p mod n \<longrightarrow> mem s k \<noteq> Some (Str t)
     | Some e \<Rightarrow> e \<in> set es \<and> fst e mod n = p mod n \<and> mem s (fst e) = Some (Str t))"
  using assms
proof (induction es)
  case (Cons e es)
  obtain hit where hit: "hash_find s n p t es = Inr hit"
      "case hit of
         None \<Rightarrow> \<forall>k \<in> fst ` set es. k mod n = p mod n \<longrightarrow> mem s k \<noteq> Some (Str t)
       | Some e \<Rightarrow> e \<in> set es \<and> fst e mod n = p mod n \<and> mem s (fst e) = Some (Str t)"
    using Cons by auto
  obtain u where "mem s (fst e) = Some (Str u)"
    using Cons.prems by auto
  then show ?case
    using hit by (cases "fst e mod n = p mod n \<and> u = t"; cases hit) (simp_all add: text_at_def)
qed simp

lemma own_text: "caches_own e T U s \<Longrightarrow> p \<in># T \<Longrightarrow> \<exists>t. text_at s p = Inr t \<and> mem s p = Some (Str t)"
  unfolding caches_own_def by (auto dest!: sane_text [where p = p] simp: text_at_def)

lemma own_sock: "caches_own e T U s \<Longrightarrow> p \<in># U \<Longrightarrow> \<exists>a. sock_at s p = Inr a \<and> mem s p = Some (Sock a)"
  unfolding caches_own_def by (auto dest!: sane_sock [where p = p] simp: sock_at_def)

lemma own_cache_live: "caches_own e T U s \<Longrightarrow> \<forall>k \<in> fst ` set (name2addr_cache s). \<exists>u. mem s k = Some (Str u)"
  by (rule ballI, rule sane_text [of e _ "cache_texts s + T" "cache_socks s + U"]) (auto simp: caches_own_def cache_texts_def)

lemma distinct_map_remove1: "distinct (map f xs) \<Longrightarrow> distinct (map f (remove1 x xs))"
  by (auto simp: distinct_map intro: inj_on_subset dest: set_remove1_subset [THEN subsetD])

text \<open>An entry of the name cache leaves it, or is added to it.\<close>

lemma own_take_name:
  assumes "caches_own e T U s" and "(k, r, x) \<in> set (name2addr_cache s)"
  shows "caches_own e (add_mset k T) (add_mset r U) (s\<lparr>name2addr_cache := remove1 (k, r, x) (name2addr_cache s)\<rparr>)"
proof -
  let ?es = "name2addr_cache s" and ?es' = "remove1 (k, r, x) (name2addr_cache s)"
  have m: "mset ?es = add_mset (k, r, x) (mset ?es')"
    using assms(2) by simp
  then have "mset (map fst ?es) = add_mset k (mset (map fst ?es'))"
    "mset (map (\<lambda>e. fst (snd e)) ?es) = add_mset r (mset (map (\<lambda>e. fst (snd e)) ?es'))"
    by (simp_all only: mset_map image_mset_add_mset fst_conv snd_conv)
  moreover have "separate s \<Longrightarrow> separate (s\<lparr>name2addr_cache := ?es'\<rparr>)"
    by (simp add: separate_def distinct_map_remove1)
  ultimately show ?thesis
    using assms(1) by (simp add: caches_own_def cache_texts_def cache_socks_def ac_simps)
qed

lemma own_put_name:
  assumes "caches_own e (add_mset p T) (add_mset r U) s" and "e \<longrightarrow> b = name2addr_buckets s"
    and "\<forall>k \<in> fst ` set (name2addr_cache s). k mod name2addr_buckets s = p mod name2addr_buckets s \<longrightarrow> mem s k \<noteq> mem s p"
  shows "caches_own e T U (s\<lparr>name2addr_cache := (p, r, x) # name2addr_cache s, name2addr_buckets := b\<rparr>)"
  using assms by (auto simp: caches_own_def cache_texts_def cache_socks_def separate_def)

lemma distinct_keys: "caches_own e T U s \<Longrightarrow> distinct (name2addr_cache s)"
proof -
  assume "caches_own e T U s"
  then have c: "count (cache_texts s + T) p \<le> 1" for p
    unfolding caches_own_def sane_def by (meson add_leE)
  have "count (mset (map fst (name2addr_cache s))) p \<le> 1" for p
    using c [of p] by (simp add: cache_texts_def)
  then have "distinct (map fst (name2addr_cache s))"
    by (auto simp: distinct_count_atmost_1 le_Suc_eq count_eq_zero_iff simp flip: set_mset_mset)
  then show ?thesis
    by (simp add: distinct_map)
qed

lemma sane_mono:
  assumes "sane False m T U" and "A \<subseteq># T" and "B \<subseteq># U"
  shows "sane False m A B"
proof -
  have "count A p + count B p \<le> 1" for p
    using add_mono [OF mset_subset_eq_count [OF assms(2)] mset_subset_eq_count [OF assms(3)], of p p] assms(1)
    by (auto simp: sane_def intro: order_trans)
  then show ?thesis
    using assms mset_subset_eqD [OF assms(2)] mset_subset_eqD [OF assms(3)] by (simp add: sane_def)
qed

lemma own_overwrite:
  assumes "caches_own False (add_mset p T) (add_mset r U) s" and "e \<in> set (name2addr_cache s)"
  shows "caches_own False T U (s\<lparr>name2addr_cache := map (\<lambda>e'. if e' = e then (fst e, r, x) else e') (name2addr_cache s)\<rparr>)"
proof -
  let ?es' = "map (\<lambda>e'. if e' = e then (fst e, r, x) else e') (name2addr_cache s)"
  obtain as bs where es: "name2addr_cache s = as @ e # bs"
    using split_list [OF assms(2)] by auto
  then have d: "e \<notin> set as" "e \<notin> set bs"
    using distinct_keys [OF assms(1)] by auto
  then have es': "?es' = as @ (fst e, r, x) # bs"
    using es by (auto intro: map_idI)
  have sub: "cache_texts (s\<lparr>name2addr_cache := ?es'\<rparr>) = cache_texts s"
    "cache_socks (s\<lparr>name2addr_cache := ?es'\<rparr>) + U \<subseteq># cache_socks s + add_mset r U"
    unfolding cache_texts_def cache_socks_def es' by (simp_all add: es)
  show ?thesis
    using assms(1) sane_mono [OF _ _ sub(2), of "mem s" "add_mset p (cache_texts s + T)" "cache_texts s + T"] sub(1) by (auto simp: caches_own_def)
qed

lemma drop_name_owns:
  assumes own: "caches_own e T U s" and hit: "\<forall>h. hit = Some h \<longrightarrow> h \<in> set (name2addr_cache s)"
  shows "\<exists>s2. drop_name hit s = Inr s2 \<and> caches_own e T U s2 \<and> queues s2 = queues s \<and>
    name2addr_buckets s2 = name2addr_buckets s \<and> mem s2 \<subseteq>\<^sub>m mem s \<and>
    name2addr_cache s2 = (case hit of None \<Rightarrow> name2addr_cache s | Some h \<Rightarrow> remove1 h (name2addr_cache s))"
proof (cases hit)
  case (Some h)
  then obtain k r x where h: "hit = Some (k, r, x)"
    by (cases h) auto
  let ?s = "s\<lparr>name2addr_cache := remove1 (k, r, x) (name2addr_cache s)\<rparr>"
  have "caches_own e (add_mset k T) (add_mset r U) ?s"
    using own_take_name [OF own] hit h by simp
  note fr = own_free_sock [OF this]
  note fk = own_free_text [OF fr(2)]
  have "free_block r s = Inr (s\<lparr>mem := (mem s)(r := None)\<rparr>)"
    using fr(1) by (auto simp: free_block_def split: if_splits)
  then have "drop_name hit s = Inr (?s\<lparr>mem := ((mem s)(r := None))(k := None)\<rparr>)"
    using fk(1) h by (auto simp: drop_name_def free_block_def split: if_splits)
  moreover have "(mem s)(r := None, k := None) \<subseteq>\<^sub>m mem s"
    by (auto simp: map_le_def)
  ultimately show ?thesis
    using fk(2) h by simp
qed (use own in \<open>simp add: drop_name_def\<close>)

lemma separate_drop:
  assumes "separate s" and "e \<in> set (name2addr_cache s)" and "e' \<in> set (remove1 e (name2addr_cache s))"
    and "fst e mod name2addr_buckets s = fst e' mod name2addr_buckets s"
  shows "mem s (fst e) \<noteq> mem s (fst e')"
proof -
  let ?f = "\<lambda>e. (fst e mod name2addr_buckets s, mem s (fst e))"
  have "distinct (name2addr_cache s)" "inj_on ?f (set (name2addr_cache s))"
    using assms(1) by (auto simp: separate_def distinct_map)
  moreover from this(1) have "e' \<noteq> e" "e' \<in> set (name2addr_cache s)"
    using assms(3) by (auto dest: notin_set_remove1)
  ultimately show ?thesis
    using assms(2,4) by (auto simp: inj_on_def)
qed

lemma name_resolved_owns:
  assumes own: "caches_own e (add_mset p T) (add_mset r U) s" and grow: "e \<longrightarrow> (\<forall>b m. grow H b m = b)"
  shows "\<exists>s'. name_resolved H now p r s = Inr s' \<and> caches_own e T U s' \<and> queues s' = queues s"
proof -
  obtain t where t: "text_at s p = Inr t" "mem s p = Some (Str t)"
    using own_text [OF own, of p] by auto
  let ?n = "name2addr_buckets s" and ?es = "name2addr_cache s"
  obtain hit where hit: "hash_find s ?n p t ?es = Inr hit"
      "case hit of
         None \<Rightarrow> \<forall>k \<in> fst ` set ?es. k mod ?n = p mod ?n \<longrightarrow> mem s k \<noteq> Some (Str t)
       | Some h \<Rightarrow> h \<in> set ?es \<and> fst h mod ?n = p mod ?n \<and> mem s (fst h) = Some (Str t)"
    using hash_find_live [OF own_cache_live [OF own], of ?n p t] by blast
  obtain s2 where s2: "drop_name hit s = Inr s2" "caches_own e (add_mset p T) (add_mset r U) s2" "queues s2 = queues s"
      "name2addr_buckets s2 = ?n" "mem s2 \<subseteq>\<^sub>m mem s"
      "name2addr_cache s2 = (case hit of None \<Rightarrow> ?es | Some h \<Rightarrow> remove1 h ?es)"
    using drop_name_owns [OF own, of hit] hit(2) by (auto split: option.splits)
  have p2: "mem s2 p = Some (Str t)"
    using own_text [OF s2(2), of p] s2(5) t(2) by (auto simp: map_le_def dom_def)
  have none: "\<forall>k \<in> fst ` set (name2addr_cache s2). k mod ?n = p mod ?n \<longrightarrow> mem s2 k \<noteq> Some (Str t)" if e
  proof (cases hit)
    case None
    then show ?thesis
      using hit(2) s2(5,6) by (auto simp: map_le_def dom_def)
  next
    case (Some h)
    have "separate s"
      using own that by (simp add: caches_own_def)
    then show ?thesis
      using Some hit(2) s2(5,6) separate_drop [of s h] by (force simp: map_le_def dom_def)
  qed
  obtain again where again: "hash_find s2 ?n p t (name2addr_cache s2) = Inr again"
      "case again of
         None \<Rightarrow> \<forall>k \<in> fst ` set (name2addr_cache s2). k mod ?n = p mod ?n \<longrightarrow> mem s2 k \<noteq> Some (Str t)
       | Some h \<Rightarrow> h \<in> set (name2addr_cache s2) \<and> fst h mod ?n = p mod ?n \<and> mem s2 (fst h) = Some (Str t)"
    using hash_find_live [OF own_cache_live [OF s2(2)], of ?n p t] by blast
  have eq: "name_resolved H now p r s =
      (let x = now + uint (cache_timeout s2) in
       case again of
         None \<Rightarrow> Inr (s2\<lparr>name2addr_cache := (p, r, x) # name2addr_cache s2,
                        name2addr_buckets := grow H (name2addr_buckets s2) (length (name2addr_cache s2))\<rparr>)
       | Some e \<Rightarrow> Inr (s2\<lparr>name2addr_cache := map (\<lambda>e'. if e' = e then (fst e, r, x) else e') (name2addr_cache s2)\<rparr>))"
    using s2(1,4) again(1) by (simp add: name_resolved_def t(1) hit(1))
  show ?thesis
  proof (cases again)
    case None
    then show ?thesis
      using eq own_put_name [OF s2(2), of "grow H (name2addr_buckets s2) (length (name2addr_cache s2))"] again(2) grow s2(3,4) p2
      by (simp add: Let_def)
  next
    case (Some h)
    then have h: "h \<in> set (name2addr_cache s2)" and "\<not> e"
      using again(2) none by auto
    then show ?thesis
      using eq Some own_overwrite [of p T r U s2 h] s2(2,3) by (simp add: Let_def)
  qed
qed

lemma caches_own_queues [simp]:
  "caches_own e T U (s\<lparr>namesq := a\<rparr>) = caches_own e T U s"
  "caches_own e T U (s\<lparr>namesq_buckets := b\<rparr>) = caches_own e T U s"
  "caches_own e T U (s\<lparr>namesq_proc := a\<rparr>) = caches_own e T U s"
  "caches_own e T U (s\<lparr>namesq_proc_buckets := b\<rparr>) = caches_own e T U s"
  "caches_own e T U (s\<lparr>addrq := c\<rparr>) = caches_own e T U s"
  "caches_own e T U (s\<lparr>addrq_proc := c\<rparr>) = caches_own e T U s"
  "caches_own e T U (s\<lparr>worker := d\<rparr>) = caches_own e T U s"
  "caches_own e T U (s\<lparr>wakeups := b\<rparr>) = caches_own e T U s"
  "caches_own e T U (s\<lparr>cache_timeout := w\<rparr>) = caches_own e T U s"
  by (simp_all add: caches_own_def cache_texts_def cache_socks_def separate_def)

lemma mset_smap_del:
  "distinct (map fst m) \<Longrightarrow> map_of m k = Some v \<Longrightarrow> mset m = add_mset (k, v) (mset (smap_del k m))"
proof (induction m)
  case (Cons e m)
  show ?case
  proof (cases "fst e = k")
    case True
    then have "filter (\<lambda>p. fst p \<noteq> k) m = m"
      using Cons.prems(1) by (intro filter_True ballI) (metis distinct.simps(2) image_eqI list.simps(9) set_map)
    then show ?thesis
      using True Cons.prems(2) by (cases e) (simp add: smap_del_def)
  qed (use Cons in \<open>simp add: smap_del_def\<close>)
qed simp

lemma own_take_addr:
  assumes "caches_own e T U s" and "map_of (addr2name_cache s) k = Some (p, x)"
  shows "caches_own e (add_mset p T) U (s\<lparr>addr2name_cache := smap_del k (addr2name_cache s)\<rparr>)"
proof -
  have d: "distinct (map fst (addr2name_cache s))"
    using assms(1) by (simp add: caches_own_def)
  have "mset (map (\<lambda>e. fst (snd e)) (addr2name_cache s)) =
      add_mset p (mset (map (\<lambda>e. fst (snd e)) (smap_del k (addr2name_cache s))))"
    using mset_smap_del [OF d assms(2)] by (simp only: mset_map image_mset_add_mset fst_conv snd_conv)
  moreover have "distinct (map fst (smap_del k (addr2name_cache s)))"
    using d by (simp add: smap_del_def distinct_map_filter)
  ultimately show ?thesis
    using assms(1) by (simp add: caches_own_def cache_texts_def cache_socks_def separate_def ac_simps)
qed

lemma own_put_addr:
  "caches_own e (add_mset p T) U s \<Longrightarrow> k \<notin> fst ` set (addr2name_cache s) \<Longrightarrow>
   caches_own e T U (s\<lparr>addr2name_cache := (k, p, x) # addr2name_cache s\<rparr>)"
  by (simp add: caches_own_def cache_texts_def cache_socks_def separate_def)

lemma addr_resolved_owns:
  assumes own: "caches_own e (add_mset p T) (add_mset r U) s"
  shows "\<exists>s'. addr_resolved H now r p namefound s = Inr s' \<and> caches_own e T U s' \<and> queues s' = queues s"
proof -
  obtain a where a: "sock_at s r = Inr a"
    using own_sock [OF own, of r] by auto
  let ?k = "s_addr H a"
  have "\<exists>s1. (case map_of (addr2name_cache s) ?k of
          Some (p', x) \<Rightarrow>
            if namefound
            then bind_result (free_block p' s) (\<lambda>s1.
              Inr (s1\<lparr>addr2name_cache := (?k, p, now + uint (cache_timeout s1)) # smap_del ?k (addr2name_cache s1)\<rparr>))
            else free_block p s
        | None \<Rightarrow>
            if namefound then free_block p s
            else Inr (s\<lparr>addr2name_cache := (?k, p, 0) # addr2name_cache s\<rparr>)) = Inr s1 \<and>
      caches_own e T (add_mset r U) s1 \<and> queues s1 = queues s"
  proof (cases "map_of (addr2name_cache s) ?k")
    case None
    then have "?k \<notin> fst ` set (addr2name_cache s)"
      by (simp add: map_of_eq_None_iff)
    then show ?thesis
      using None own_free_text [OF own] own_put_addr [OF own] by simp
  next
    case (Some e')
    then obtain p' x where k: "map_of (addr2name_cache s) ?k = Some (p', x)"
      by (cases e') auto
    note f = own_free_text [OF own_take_addr [OF own k]]
    have "free_block p' s = Inr (s\<lparr>mem := (mem s)(p' := None)\<rparr>)"
      using f(1) by (auto simp: free_block_def split: if_splits)
    moreover have "?k \<notin> fst ` set (smap_del ?k (addr2name_cache s))"
      by auto
    ultimately show ?thesis
      using k own_free_text [OF own] own_put_addr [OF f(2), of ?k] by simp
  qed
  then obtain s1 where s1: "addr_resolved H now r p namefound s = free_block r s1"
      "caches_own e T (add_mset r U) s1" "queues s1 = queues s"
    by (auto simp: addr_resolved_def a)
  show ?thesis
    using own_free_sock [OF s1(2)] s1(1,3) by simp
qed

lemma own_queue_live: "owns e s \<Longrightarrow> \<forall>k \<in> fst ` set (namesq s) \<union> fst ` set (namesq_proc s). \<exists>u. mem s k = Some (Str u)"
  unfolding owns_def
  by (rule ballI, rule sane_text [of e _ "cache_texts s + queue_texts s" "cache_socks s + queue_socks s"])
    (auto simp: caches_own_def queue_texts_def)

lemma enqueue_name_owns:
  assumes own: "owns e s" and H: "fresh_alloc H"
  shows "\<exists>s'. enqueue_name H p t s = Inr s' \<and> owns e s'"
proof -
  obtain hit where hit: "hash_find s (namesq_buckets s) p t (namesq s) = Inr hit"
    using hash_find_live [of "namesq s" s "namesq_buckets s" p t] own_queue_live [OF own] by auto
  obtain s1 q where n: "new_block H (Str t) s = (s1, q)"
    by (cases "new_block H (Str t) s") auto
  have c: "caches_own e (queue_texts s) (queue_socks s) s" and f: "queues_fit s"
    using own by (simp_all add: owns_def)
  note o = own_new_text [OF c H n]
  show ?thesis
  proof (cases hit)
    case None
    then show ?thesis
      using o(1) f hit n unfolding o(2)
      by (simp add: enqueue_name_def owns_def queue_texts_def queue_socks_def queues_fit_def split: worker_phase.splits)
  qed (use own hit in \<open>simp add: enqueue_name_def\<close>)
qed

lemma mset_smap_ins: "k \<notin> fst ` set m \<Longrightarrow> mset (smap_ins k v m) = add_mset (k, v) (mset m)"
  by (induction k v m rule: smap_ins.induct) auto

lemma enqueue_address_owns:
  assumes own: "owns e s" and H: "fresh_alloc H"
  shows "owns e (enqueue_address H a s)"
proof (cases "map_of (addrq s) (s_addr H a)")
  case None
  obtain s1 q where n: "new_block H (Sock a) s = (s1, q)"
    by (cases "new_block H (Sock a) s") auto
  have c: "caches_own e (queue_texts s) (queue_socks s) s" and f: "queues_fit s"
    using own by (simp_all add: owns_def)
  note o = own_new_sock [OF c H n]
  have "mset (map snd (smap_ins (s_addr H a) q (addrq s))) = add_mset q (mset (map snd (addrq s)))"
    using None by (simp add: mset_map mset_smap_ins map_of_eq_None_iff)
  then show ?thesis
    using o(1) f n None unfolding o(2)
    by (simp add: enqueue_address_def owns_def queue_texts_def queue_socks_def queues_fit_def split: worker_phase.splits)
qed (use own in \<open>simp add: enqueue_address_def\<close>)

lemma mem_last:
  "s\<lparr>mem := m, name2addr_cache := c\<rparr> = s\<lparr>name2addr_cache := c, mem := m\<rparr>"
  "s\<lparr>mem := m, addr2name_cache := d\<rparr> = s\<lparr>addr2name_cache := d, mem := m\<rparr>"
  by simp_all

lemma flush_addresses_owns:
  "caches_own e T U s \<Longrightarrow> addr2name_cache s = es \<Longrightarrow>
   \<exists>s'. flush_addresses es s = Inr s' \<and> caches_own e T U s' \<and> queues s' = queues s \<and> addr2name_cache s' = [] \<and>
     name2addr_cache s' = name2addr_cache s"
proof (induction es arbitrary: s)
  case (Cons x es)
  obtain k p t where x: "x = (k, p, t)"
    by (cases x) auto
  have "k \<notin> fst ` set es"
    using Cons.prems x by (simp add: caches_own_def)
  then have "smap_del k (addr2name_cache s) = es"
    using Cons.prems(2) x by (auto simp: smap_del_def filter_id_conv)
  then have "caches_own e (add_mset p T) U (s\<lparr>addr2name_cache := es\<rparr>)"
    using own_take_addr [OF Cons.prems(1), of k p t] Cons.prems(2) x by simp
  note f = own_free_text [OF this]
  have "free_block p s = Inr (s\<lparr>mem := (mem s)(p := None)\<rparr>)"
    using f(1) by (auto simp: free_block_def split: if_splits)
  then show ?case
    using Cons.IH [OF f(2)] x by (simp add: mem_last)
qed simp

lemma flush_names_owns:
  "caches_own e T U s \<Longrightarrow> name2addr_cache s = es \<Longrightarrow>
   \<exists>s'. flush_names es s = Inr s' \<and> caches_own e T U s' \<and> queues s' = queues s \<and> name2addr_cache s' = [] \<and>
     addr2name_cache s' = addr2name_cache s"
proof (induction es arbitrary: s)
  case (Cons x es)
  obtain k r t where x: "x = (k, r, t)"
    by (cases x) auto
  have "caches_own e (add_mset k T) (add_mset r U) (s\<lparr>name2addr_cache := es\<rparr>)"
    using own_take_name [OF Cons.prems(1), of k r t] Cons.prems(2) x by simp
  note fr = own_free_sock [OF this]
  note fk = own_free_text [OF fr(2)]
  have "free_block r s = Inr (s\<lparr>mem := (mem s)(r := None)\<rparr>)"
    using fr(1) by (auto simp: free_block_def split: if_splits)
  then show ?case
    using Cons.IH [OF fk(2)] fk(1) x by (simp add: mem_last)
qed simp

lemma flush_cache_owns:
  assumes "caches_own e T U s"
  shows "\<exists>s'. flush_cache s = Inr s' \<and> caches_own e T U s' \<and> queues s' = queues s \<and> addr2name_cache s' = [] \<and>
     name2addr_cache s' = []"
proof -
  obtain s1 where s1: "flush_addresses (addr2name_cache s) s = Inr s1" "caches_own e T U s1" "queues s1 = queues s"
      "addr2name_cache s1 = []"
    using flush_addresses_owns [OF assms] by blast
  then show ?thesis
    using flush_names_owns [OF s1(2)] by (auto simp: flush_cache_def)
qed

lemma owns_queues:
  assumes "caches_own e T U s'" and "queues s' = queues s" and "T = queue_texts s" and "U = queue_socks s" and "queues_fit s"
  shows "owns e s'"
  using assms by (simp add: owns_def queue_texts_def queue_socks_def queues_fit_def split: worker_phase.splits)

text \<open>A result that is given to the resolver: a text and an address of the memory, new ones.\<close>

lemma two_new_blocks:
  assumes "caches_own e T U s" and "fresh_alloc H"
    and "new_block H (Sock a) s = (s1, r)" and "new_block H (Str t) s1 = (s2, p)"
  shows "caches_own e (add_mset p T) (add_mset r U) s2" and "queues s2 = queues s"
  using own_new_text(1) [OF own_new_sock(1) [OF assms(1,2,3)] assms(2,4)]
    own_new_text(2) [OF own_new_sock(1) [OF assms(1,2,3)] assms(2,4)] own_new_sock(2) [OF assms(1,2,3)] by simp_all

lemma name_result_owns:
  assumes "caches_own e T U s" and "fresh_alloc H" and "e \<longrightarrow> (\<forall>b m. grow H b m = b)"
    and "new_block H (Sock a) s = (s1, r)" and "new_block H (Str t) s1 = (s2, p)"
  shows "\<exists>s'. name_resolved H now p r s2 = Inr s' \<and> caches_own e T U s' \<and> queues s' = queues s"
  using name_resolved_owns [OF two_new_blocks(1) [OF assms(1,2,4,5)] assms(3)] two_new_blocks(2) [OF assms(1,2,4,5)] by auto

lemma resolve_name_owns:
  assumes "owns e s" and "fresh_alloc H"
  shows "\<exists>s' res. resolve_name H now p t s = Inr (s', res) \<and> owns e s'"
proof -
  have c: "caches_own e (queue_texts s) (queue_socks s) s"
    using assms(1) by (simp add: owns_def)
  obtain hit where hit: "hash_find s (name2addr_buckets s) p t (name2addr_cache s) = Inr hit"
    using hash_find_live [OF own_cache_live [OF c]] by blast
  obtain s1 where "enqueue_name H p t s = Inr s1" "owns e s1"
    using enqueue_name_owns [OF assms] by blast
  then show ?thesis
    using hit assms(1) by (cases hit) (auto simp: resolve_name_def)
qed

lemma resolve_name_blocking_owns:
  assumes "owns e s" and "fresh_alloc H" and "e \<longrightarrow> (\<forall>b m. grow H b m = b)"
  shows "\<exists>s' res. resolve_name_blocking H now p t found s = Inr (s', res) \<and> owns e s'"
proof -
  obtain s1 res where s1: "resolve_name H now p t s = Inr (s1, res)" "owns e s1"
    using resolve_name_owns [OF assms(1,2)] by blast
  show ?thesis
  proof (cases "res = None \<and> found \<noteq> None")
    case True
    then obtain a where a: "found = Some a" "res = None"
      by auto
    obtain s2 r s3 q where n: "new_block H (Sock a) s1 = (s2, r)" "new_block H (Str t) s2 = (s3, q)"
      by (cases "new_block H (Sock a) s1", cases "new_block H (Str t) (fst (new_block H (Sock a) s1))") auto
    have c: "caches_own e (queue_texts s1) (queue_socks s1) s1" "queues_fit s1"
      using s1(2) by (simp_all add: owns_def)
    obtain s4 where "name_resolved H now q r s3 = Inr s4" "owns e s4"
      using name_result_owns [OF c(1) assms(2,3) n] owns_queues [OF _ _ refl refl c(2)] by blast
    then show ?thesis
      using s1(1) a n by (simp add: resolve_name_blocking_def)
  qed (use s1 in \<open>auto simp: resolve_name_blocking_def\<close>)
qed

lemma resolve_address_owns:
  assumes own: "owns e s" and H: "fresh_alloc H"
  shows "\<exists>s' res. resolve_address H now a s = Inr (s', res) \<and> owns e s'"
proof -
  have c: "caches_own e (queue_texts s) (queue_socks s) s" and f: "queues_fit s"
    using own by (simp_all add: owns_def)
  show ?thesis
  proof (cases "map_of (addr2name_cache s) (s_addr H a)")
    case None
    show ?thesis
    proof (cases "ntop H a")
      case (Some t)
      obtain s1 q where n: "new_block H (Str t) s = (s1, q)"
        by (cases "new_block H (Str t) s") auto
      note o = own_new_text [OF c H n]
      have "s_addr H a \<notin> fst ` set (addr2name_cache s1)"
        using None o(2) by (simp add: map_of_eq_None_iff)
      then have "caches_own e (queue_texts s) (queue_socks s)
          (s1\<lparr>addr2name_cache := (s_addr H a, q, now + uint (cache_timeout s1)) # addr2name_cache s1\<rparr>)"
        by (rule own_put_addr [OF o(1)])
      then have "owns e (s1\<lparr>addr2name_cache := (s_addr H a, q, now + uint (cache_timeout s1)) # addr2name_cache s1\<rparr>)"
        by (rule owns_queues) (use o(2) f in auto)
      then show ?thesis
        using None Some n enqueue_address_owns [OF _ H] by (auto simp: resolve_address_def Let_def)
    qed (use None own in \<open>simp add: resolve_address_def\<close>)
  next
    case (Some e')
    then obtain p x where k: "map_of (addr2name_cache s) (s_addr H a) = Some (p, x)"
      by (cases e') auto
    have "p \<in># cache_texts s"
      using map_of_SomeD [OF k] by (force simp: cache_texts_def)
    then obtain t where "text_at s p = Inr t"
      using c by (auto simp: caches_own_def text_at_def dest: sane_text [where p = p])
    then show ?thesis
      using k own enqueue_address_owns [OF own H] by (auto simp: resolve_address_def)
  qed
qed

lemma work_address_owns:
  assumes own: "owns e s" and H: "fresh_alloc H" and w: "worker s = Addresses"
  shows "\<exists>s'. work_address H now answer s = Inr s' \<and> owns e s'"
proof (cases "addrq_proc s")
  case (Cons x rest)
  then obtain k r where q: "addrq_proc s = (k, r) # rest"
    by (cases x) auto
  let ?T = "queue_texts s" and ?U = "mset (map snd (addrq s)) + mset (map snd rest)"
  have c: "caches_own e ?T (add_mset r ?U) s" and f: "namesq_proc s = []"
    using own q w by (simp_all add: owns_def queue_socks_def queues_fit_def)
  obtain a where a: "sock_at s r = Inr a"
    using own_sock [OF c, of r] by auto
  obtain s1 p where n: "new_block H (Str (fst (the answer))) s = (s1, p)"
    by (cases "new_block H (Str (fst (the answer))) s") auto
  note o = own_new_text [OF c H n]
  have "\<exists>s2. (case answer of
      Some (t, namefound) \<Rightarrow> let (s1, p) = new_block H (Str t) s in addr_resolved H now r p namefound s1
    | None \<Rightarrow> free_block r s) = Inr s2 \<and> caches_own e ?T ?U s2 \<and> queues s2 = queues s"
  proof (cases answer)
    case None
    then show ?thesis
      using own_free_sock [OF c] by simp
  next
    case (Some ans)
    then show ?thesis
      using addr_resolved_owns [OF o(1), of H now "snd ans"] n o(2) by (cases ans) simp
  qed
  then obtain s2 where s2: "work_address H now answer s = Inr (s2\<lparr>addrq_proc := rest\<rparr>)"
      "caches_own e ?T ?U s2" "queues s2 = queues s"
    using q a by (auto simp: work_address_def)
  have "owns e (s2\<lparr>addrq_proc := rest\<rparr>)"
    using s2(2,3) f w by (simp add: owns_def queue_texts_def queue_socks_def queues_fit_def)
  then show ?thesis
    using s2(1) by simp
qed (use own in \<open>simp add: work_address_def\<close>)

lemma work_name_owns:
  assumes own: "owns e s" and H: "fresh_alloc H" and G: "e \<longrightarrow> (\<forall>b m. grow H b m = b)" and w: "worker s = Names"
  shows "\<exists>s'. work_name H now i answer s = Inr s' \<and> owns e s'"
proof (cases "namesq_proc s = []")
  case False
  let ?e = "namesq_proc s ! (i mod length (namesq_proc s))"
  let ?rest = "remove1 ?e (namesq_proc s)"
  let ?T = "mset (map fst (namesq s)) + mset (map fst ?rest)" and ?U = "queue_socks s"
  have "?e \<in> set (namesq_proc s)"
    using False by simp
  then have "mset (namesq_proc s) = add_mset ?e (mset ?rest)"
    by simp
  then have "mset (map fst (namesq_proc s)) = add_mset (fst ?e) (mset (map fst ?rest))"
    by (simp only: mset_map image_mset_add_mset)
  then have c: "caches_own e (add_mset (fst ?e) ?T) ?U s" and f: "addrq_proc s = []"
    using own w by (simp_all add: owns_def queue_texts_def queues_fit_def)
  obtain t where t: "text_at s (fst ?e) = Inr t"
    using own_text [OF c, of "fst ?e"] by auto
  obtain s1 r s2 p where n: "new_block H (Sock (the answer)) s = (s1, r)" "new_block H (Str t) s1 = (s2, p)"
    by (cases "new_block H (Sock (the answer)) s", cases "new_block H (Str t) (fst (new_block H (Sock (the answer)) s))") auto
  obtain s4 q where m: "new_block H (Str t) s = (s4, q)"
    by (cases "new_block H (Str t) s") auto
  have "\<exists>s3. (case answer of
      Some a \<Rightarrow> let (s1, r) = new_block H (Sock a) s; (s2, p) = new_block H (Str t) s1 in name_resolved H now p r s2
    | None \<Rightarrow> let (s1, p) = new_block H (Str t) s in free_block p s1) = Inr s3 \<and>
      caches_own e (add_mset (fst ?e) ?T) ?U s3 \<and> queues s3 = queues s"
  proof (cases answer)
    case None
    then show ?thesis
      using m own_free_text [OF own_new_text(1) [OF c H m]] own_new_text(2) [OF c H m] by simp
  next
    case (Some ans)
    then show ?thesis
      using name_result_owns [OF c H G n] n by simp
  qed
  then obtain s3 where s3: "work_name H now i answer s = free_block (fst ?e) (s3\<lparr>namesq_proc := ?rest\<rparr>)"
      "caches_own e (add_mset (fst ?e) ?T) ?U s3" "queues s3 = queues s"
    using False t by (auto simp: work_name_def Let_def)
  have "caches_own e (add_mset (fst ?e) ?T) ?U (s3\<lparr>namesq_proc := ?rest\<rparr>)"
    using s3(2) by simp
  note o = own_free_text [OF this]
  have "owns e (s3\<lparr>namesq_proc := ?rest, mem := (mem s3)(fst ?e := None)\<rparr>)"
    using o(2) s3(3) f w by (simp add: owns_def queue_texts_def queue_socks_def queues_fit_def)
  then show ?thesis
    using s3(1) o(1) by simp
qed (use own in \<open>simp add: work_name_def\<close>)

lemma work_owns:
  assumes own: "owns e s" and H: "fresh_alloc H" and G: "e \<longrightarrow> (\<forall>b m. grow H b m = b)"
  shows "\<exists>s'. work H now i na aa s = Inr s' \<and> owns e s'"
proof -
  have c: "caches_own e (queue_texts s) (queue_socks s) s" and f: "queues_fit s"
    using own by (simp_all add: owns_def)
  show ?thesis
  proof (cases "worker s")
    case Waiting
    then have "namesq_proc s = []" "addrq_proc s = []"
      using f by (simp_all add: queues_fit_def)
    then show ?thesis
      using c Waiting by (simp add: work_def owns_def queue_texts_def queue_socks_def queues_fit_def)
  next
    case Addresses
    then have "namesq_proc s = []"
      using f by (simp add: queues_fit_def)
    then have "addrq_proc s = [] \<Longrightarrow> owns e
        (s\<lparr>namesq_proc := namesq s, namesq_proc_buckets := namesq_buckets s, namesq := namesq_proc s,
           namesq_buckets := namesq_proc_buckets s, worker := Names\<rparr>)"
      using c by (simp add: owns_def queue_texts_def queue_socks_def queues_fit_def)
    then show ?thesis
      using work_address_owns [OF own H Addresses] Addresses by (simp add: work_def)
  next
    case Names
    then have "namesq_proc s = [] \<Longrightarrow> owns e (s\<lparr>worker := Waiting\<rparr>)"
      using c f by (simp add: owns_def queue_texts_def queue_socks_def queues_fit_def)
    then show ?thesis
      using work_name_owns [OF own H G Names] Names by (simp add: work_def)
  qed
qed

lemma happen_owns:
  assumes own: "owns e s" and H: "fresh_alloc H" and G: "e \<longrightarrow> (\<forall>b m. grow H b m = b)"
  shows "\<exists>s'. happen H ev s = Inr s' \<and> owns e s'"
proof -
  have c: "caches_own e (queue_texts s) (queue_socks s) s" and f: "queues_fit s"
    using own by (simp_all add: owns_def)
  have two: "\<exists>s1 r s2 p. new_block H (Sock a) s = (s1, r) \<and> new_block H (Str t) s1 = (s2, p)" for a t
    by (cases "new_block H (Sock a) s") (auto simp: new_block_def Let_def)
  note held = owns_queues [OF _ _ refl refl f]
  show ?thesis
  proof (cases ev)
    case (Ask_Name now p t)
    then show ?thesis
      using resolve_name_owns [OF own H, of now p t] by auto
  next
    case (Ask_Name_Blocking now p t found)
    then show ?thesis
      using resolve_name_blocking_owns [OF own H G, of now p t found] by auto
  next
    case (Ask_Address now a)
    then show ?thesis
      using resolve_address_owns [OF own H, of now a] by auto
  next
    case Flush_Addresses
    then show ?thesis
      using flush_addresses_owns [OF c refl] held by auto
  next
    case Flush_Names
    then show ?thesis
      using flush_names_owns [OF c refl] held by auto
  next
    case (Set_Timeout sec)
    then show ?thesis
      using c held [of e "s\<lparr>cache_timeout := sec\<rparr>"] by (simp add: set_cache_timeout_def)
  next
    case (Work now i na aa)
    then show ?thesis
      using work_owns [OF own H G] by simp
  next
    case (Avahi_Name now t a)
    obtain s1 r s2 p where n: "new_block H (Sock a) s = (s1, r)" "new_block H (Str t) s1 = (s2, p)"
      using two by blast
    then show ?thesis
      using Avahi_Name name_result_owns [OF c H G n, of now] held by auto
  next
    case (Avahi_Address now a t)
    obtain s1 r s2 p where n: "new_block H (Sock a) s = (s1, r)" "new_block H (Str t) s1 = (s2, p)"
      using two by blast
    then show ?thesis
      using Avahi_Address addr_resolved_owns [OF two_new_blocks(1) [OF c H n], of H now True]
        two_new_blocks(2) [OF c H n] held by auto
  next
    case (Avahi_Name_Failed t)
    obtain s1 p where n: "new_block H (Str t) s = (s1, p)"
      by (cases "new_block H (Str t) s") auto
    note o = own_new_text [OF c H n]
    have "owns e (s1\<lparr>mem := (mem s1)(p := None)\<rparr>)"
      by (rule held [OF own_free_text(2) [OF o(1)]]) (use o(2) in simp)
    then show ?thesis
      using Avahi_Name_Failed n own_free_text(1) [OF o(1)] by simp
  next
    case (Avahi_Address_Failed a)
    obtain s1 p where n: "new_block H (Sock a) s = (s1, p)"
      by (cases "new_block H (Sock a) s") auto
    note o = own_new_sock [OF c H n]
    have "owns e (s1\<lparr>mem := (mem s1)(p := None)\<rparr>)"
      by (rule held [OF own_free_sock(2) [OF o(1)]]) (use o(2) in simp)
    then show ?thesis
      using Avahi_Address_Failed n own_free_sock(1) [OF o(1)] by simp
  qed
qed

lemma happen_all_owns:
  "owns e s \<Longrightarrow> fresh_alloc H \<Longrightarrow> e \<longrightarrow> (\<forall>b m. grow H b m = b) \<Longrightarrow> \<exists>s'. happen_all H evs s = Inr s' \<and> owns e s'"
proof (induction evs arbitrary: s)
  case (Cons ev evs)
  obtain s1 where "happen H ev s = Inr s1" "owns e s1"
    using happen_owns [OF Cons.prems] by blast
  then show ?case
    using Cons by auto
qed simp

lemma owns_new: "owns e (resolver_new b)"
  by (simp add: owns_def caches_own_def sane_def separate_def resolver_new_def cache_texts_def cache_socks_def
      queue_texts_def queue_socks_def queues_fit_def)

lemma free_all_texts:
  "caches_own e (mset ps + T) U s \<Longrightarrow> \<exists>m. free_all ps s = Inr (s\<lparr>mem := m\<rparr>) \<and> caches_own e T U (s\<lparr>mem := m\<rparr>)"
proof (induction ps arbitrary: s)
  case (Cons p ps)
  have "caches_own e (add_mset p (mset ps + T)) U s"
    using Cons.prems by simp
  note f = own_free_text [OF this]
  show ?case
    using f(1) Cons.IH [OF f(2)] by auto
next
  case Nil
  then show ?case
    by (intro exI [of _ "mem s"]) simp
qed

lemma free_all_socks:
  "caches_own e T (mset ps + U) s \<Longrightarrow> \<exists>m. free_all ps s = Inr (s\<lparr>mem := m\<rparr>) \<and> caches_own e T U (s\<lparr>mem := m\<rparr>)"
proof (induction ps arbitrary: s)
  case (Cons p ps)
  have "caches_own e T (add_mset p (mset ps + U)) s"
    using Cons.prems by simp
  note f = own_free_sock [OF this]
  show ?case
    using f(1) Cons.IH [OF f(2)] by auto
next
  case Nil
  then show ?case
    by (intro exI [of _ "mem s"]) simp
qed

lemma delete_owns:
  assumes own: "owns e s" and w: "worker s = Waiting"
  shows "\<exists>s'. resolver_delete s = Inr s' \<and> caches_own e {#} {#} s' \<and> cache_texts s' = {#} \<and> cache_socks s' = {#}"
proof -
  have c: "caches_own e (queue_texts s) (queue_socks s) s" and p: "namesq_proc s = []" "addrq_proc s = []"
    using own w by (simp_all add: owns_def queues_fit_def)
  obtain s1 where s1: "flush_cache s = Inr s1" "caches_own e (queue_texts s) (queue_socks s) s1" "queues s1 = queues s"
      "addr2name_cache s1 = []" "name2addr_cache s1 = []"
    using flush_cache_owns [OF c] by blast
  then have "caches_own e (mset (map fst (namesq s1)) + {#}) (mset (map snd (addrq s1)) + {#}) s1"
    using p by (simp add: queue_texts_def queue_socks_def)
  from free_all_texts [OF this] obtain m where m: "free_all (map fst (namesq s1)) s1 = Inr (s1\<lparr>mem := m\<rparr>)"
      "caches_own e {#} (mset (map snd (addrq s1)) + {#}) (s1\<lparr>mem := m\<rparr>)"
    by blast
  from free_all_socks [OF this(2)] obtain m' where m': "free_all (map snd (addrq s1)) (s1\<lparr>mem := m\<rparr>) = Inr (s1\<lparr>mem := m'\<rparr>)"
      "caches_own e {#} {#} (s1\<lparr>mem := m'\<rparr>)"
    by auto
  show ?thesis
    using s1 m(1) m' p by (simp add: resolver_delete_def cache_texts_def cache_socks_def)
qed

section \<open>Memory safety\<close>

lemma nothing_left:
  assumes "caches_own True {#} {#} s" and "cache_texts s = {#}" and "cache_socks s = {#}"
  shows "mem s = Map.empty"
  using assms by (simp add: caches_own_def sane_def)

text \<open>
  C25. Whatever clients, Avahi, flushes and the worker do, in any order, and however the allocator
  and the hash tables behave, the resolver frees nothing twice and reads nothing that was freed,
  and everything its caches and queues point to is there, and is pointed to once. While the worker
  waits it can be deleted. If the tables never get more buckets, it has also lost no memory, and
  nothing is left after it was deleted.
\<close>

theorem resolver_memory_safe:
  assumes "fresh_alloc H"
  shows "\<exists>s. happen_all H evs (resolver_new b) = Inr s \<and> owns False s \<and>
    (worker s = Waiting \<longrightarrow> (\<exists>s'. resolver_delete s = Inr s')) \<and>
    ((\<forall>b m. grow H b m = b) \<longrightarrow> owns True s \<and>
      (worker s = Waiting \<longrightarrow> (\<exists>s'. resolver_delete s = Inr s' \<and> mem s' = Map.empty)))"
proof -
  obtain s where s: "happen_all H evs (resolver_new b) = Inr s" "owns False s"
    using happen_all_owns [OF owns_new assms, of False] by blast
  have t: "owns True s" if "\<forall>b m. grow H b m = b"
    using happen_all_owns [OF owns_new assms, of True evs b] that s(1) by auto
  then have "\<exists>s'. resolver_delete s = Inr s' \<and> mem s' = Map.empty" if "\<forall>b m. grow H b m = b" and "worker s = Waiting"
    using delete_owns [OF t that(2)] nothing_left that by blast
  then show ?thesis
    using s t delete_owns [OF s(2)] by blast
qed

section \<open>What a client sees\<close>

lemma flush_keeps_mem: "flush_addresses es s = Inr s' \<Longrightarrow> mem s' \<subseteq>\<^sub>m mem s"
proof (induction es arbitrary: s)
  case (Cons x es)
  then obtain s1 where "free_block (fst (snd x)) s = Inr s1" "flush_addresses es (s1\<lparr>addr2name_cache := es\<rparr>) = Inr s'"
    by (cases "free_block (fst (snd x)) s") auto
  then have "mem s' \<subseteq>\<^sub>m mem s1" "mem s1 \<subseteq>\<^sub>m mem s"
    using Cons.IH by (force simp: free_block_def map_le_def split: if_splits)+
  then show ?case
    by (rule map_le_trans)
qed simp

text \<open>The worker gets a name for the address that waits, while the caches are in order.\<close>

lemma work_on_address:
  assumes c: "caches_own e T U s" and H: "fresh_alloc H" and w: "worker s = Addresses"
    and q: "addrq_proc s = [(k, r)]" and r: "mem s r = Some (Sock a)" "s_addr H a = k"
    and U: "r \<in># U"
  shows "\<exists>s' p. work H now i na (Some (t, True)) s = Inr s' \<and> cache_timeout s' = cache_timeout s \<and>
    addrq s' = addrq s \<and>
    (case map_of (addr2name_cache s) k of
       None \<Rightarrow> addr2name_cache s' = addr2name_cache s
     | Some _ \<Rightarrow> mem s' p = Some (Str t) \<and> map_of (addr2name_cache s') k = Some (p, now + uint (cache_timeout s)))"
proof -
  obtain U' where U': "U = add_mset r U'"
    using U by (metis insert_DiffM)
  obtain s1 p where n: "new_block H (Str t) s = (s1, p)"
    by (cases "new_block H (Str t) s") auto
  note o = own_new_text [OF c [unfolded U'] H n]
  have a: "sock_at s r = Inr a" "sock_at s1 r = Inr a"
    using r(1) o(2,3) by (auto simp: sock_at_def)
  obtain s2 where s2: "addr_resolved H now r p True s1 = Inr s2"
    using addr_resolved_owns [OF o(1)] by blast
  have "work H now i na (Some (t, True)) s = Inr (s2\<lparr>addrq_proc := []\<rparr>)"
    using s2 n a by (simp add: work_def w q work_address_def)
  moreover have "cache_timeout s2 = cache_timeout s \<and> addrq s2 = addrq s \<and>
    (case map_of (addr2name_cache s) k of
       None \<Rightarrow> addr2name_cache s2 = addr2name_cache s
     | Some _ \<Rightarrow> mem s2 p = Some (Str t) \<and> map_of (addr2name_cache s2) k = Some (p, now + uint (cache_timeout s)))"
  proof (cases "map_of (addr2name_cache s) k")
    case None
    then show ?thesis
      using s2 a(2) r(2) by (auto simp: addr_resolved_def free_block_def o(2) split: if_splits)
  next
    case (Some e')
    obtain p' x where k: "map_of (addr2name_cache s) k = Some (p', x)"
      using Some by (cases e') auto
    have "p' \<in># cache_texts s"
      using map_of_SomeD [OF k] by (force simp: cache_texts_def)
    then have "p' \<noteq> p"
      using c o(3) by (auto simp: caches_own_def dest: sane_text [where p = p'])
    moreover have "r \<noteq> p"
      using r(1) o(3) by auto
    ultimately show ?thesis
      using s2 a(2) r(2) k by (auto simp: addr_resolved_def free_block_def o(2) split: if_splits)
  qed
  ultimately show ?thesis
    by (intro exI [of _ "s2\<lparr>addrq_proc := []\<rparr>"] exI [of _ p]) (simp split: option.splits)
qed

text \<open>
  C38. A client that asks for the name of a new address gets the digits at once, and the name when the
  worker has looked it up; until the name expires nothing is looked up again. If the caches are
  flushed after the worker took the address and before it has the answer, the answer is thrown
  away, and the client gets the digits once more.
\<close>

theorem address_answered:
  assumes own: "owns e s" and H: "fresh_alloc H" and w: "worker s = Waiting" and q: "addrq s = []"
    and new: "map_of (addr2name_cache s) (s_addr H a) = None" and t: "ntop H a = Some digits"
  shows "\<exists>s1 s2. resolve_address H now a s = Inr (s1, Some digits) \<and> work H now1 i na None s1 = Inr s2 \<and>
    (\<exists>s3 s4. work H now1 i na (Some (name, True)) s2 = Inr s3 \<and> resolve_address H now2 a s3 = Inr (s4, Some name) \<and>
      (now2 < now1 + uint (cache_timeout s) \<longrightarrow> s4 = s3)) \<and>
    (\<exists>s3 s4 s5. happen H Flush_Addresses s2 = Inr s3 \<and> work H now1 i na (Some (name, True)) s3 = Inr s4 \<and>
      resolve_address H now2 a s4 = Inr (s5, Some digits))"
proof -
  let ?k = "s_addr H a"
  have c: "caches_own e (queue_texts s) (queue_socks s) s" and f: "namesq_proc s = []" "addrq_proc s = []"
    using own w by (simp_all add: owns_def queues_fit_def)
  obtain s0 p where n: "new_block H (Str digits) s = (s0, p)"
    by (cases "new_block H (Str digits) s") auto
  note o = own_new_text [OF c H n]
  let ?s0 = "s0\<lparr>addr2name_cache := (?k, p, now + uint (cache_timeout s0)) # addr2name_cache s0\<rparr>"
  have c0: "caches_own e (queue_texts s) (queue_socks s) ?s0"
    using own_put_addr [OF o(1)] new o(2) by (simp add: map_of_eq_None_iff)
  obtain s1 r where m: "new_block H (Sock a) ?s0 = (s1, r)"
    by (cases "new_block H (Sock a) ?s0") auto
  note o1 = own_new_sock [OF c0 H m]
  let ?s1 = "s1\<lparr>addrq := [(?k, r)], wakeups := wakeups s1 + 1\<rparr>"
  let ?s2 = "?s1\<lparr>addrq_proc := [(?k, r)], addrq := [], worker := Addresses\<rparr>"
  have r1: "resolve_address H now a s = Inr (?s1, Some digits)"
    using new t n m q o(2) o1(2) by (simp add: resolve_address_def enqueue_address_def)
  have r2: "work H now1 i na None ?s1 = Inr ?s2"
    using w f(2) o(2) o1(2) by (simp add: work_def)
  have c2: "caches_own e (queue_texts s) (add_mset r (queue_socks s)) ?s2"
    using o1(1) by simp
  have s2: "worker ?s2 = Addresses" "addrq_proc ?s2 = [(?k, r)]" "mem ?s2 r = Some (Sock a)"
      "map_of (addr2name_cache ?s2) ?k = Some (p, now + uint (cache_timeout s))" "cache_timeout ?s2 = cache_timeout s" "addrq ?s2 = []"
    using o(2) o1(2) by simp_all
  have "\<exists>s3 s4. work H now1 i na (Some (name, True)) ?s2 = Inr s3 \<and> resolve_address H now2 a s3 = Inr (s4, Some name) \<and>
      (now2 < now1 + uint (cache_timeout s) \<longrightarrow> s4 = s3)"
  proof -
    obtain s3 p' where s3: "work H now1 i na (Some (name, True)) ?s2 = Inr s3" "mem s3 p' = Some (Str name)"
        "map_of (addr2name_cache s3) ?k = Some (p', now1 + uint (cache_timeout s))"
      using work_on_address [OF c2 H s2(1,2,3) refl, of now1 i na name] s2(4,5) by auto
    then show ?thesis
      by (simp add: resolve_address_def text_at_def)
  qed
  moreover have "\<exists>s3 s4 s5. happen H Flush_Addresses ?s2 = Inr s3 \<and> work H now1 i na (Some (name, True)) s3 = Inr s4 \<and>
      resolve_address H now2 a s4 = Inr (s5, Some digits)"
  proof -
    obtain s3 where s3: "happen H Flush_Addresses ?s2 = Inr s3" "caches_own e (queue_texts s) (add_mset r (queue_socks s)) s3"
        "queues s3 = queues ?s2" "addr2name_cache s3 = []"
      using flush_addresses_owns [OF c2 refl] by auto
    have "mem s3 r = Some (Sock a)"
      using own_sock [OF s3(2), of r] flush_keeps_mem [OF s3(1) [unfolded happen.simps]] s2(3)
      by (auto simp: map_le_def dom_def)
    then obtain s4 where "work H now1 i na (Some (name, True)) s3 = Inr s4" "addr2name_cache s4 = []"
      using work_on_address [where r = r and a = a and now = now1 and i = i and na = na and t = name, OF s3(2) H _ _ _ refl] s3(3,4) by auto
    then show ?thesis
      using s3(1) t by (auto simp: resolve_address_def Let_def split: prod.splits)
  qed
  ultimately show ?thesis
    using r1 r2 by blast
qed

section \<open>Examples\<close>

text \<open>An allocator that prefers some addresses; socket addresses are their own numbers.\<close>

definition demo_alloc :: "ptr set \<Rightarrow> ptr" where
  "demo_alloc M =
     (if 0 \<notin> M then 0 else if 1 \<notin> M then 1 else if 5 \<notin> M then 5 else if 6 \<notin> M then 6 else if 10 \<notin> M then 10
      else if 11 \<notin> M then 11 else Suc (Max M))"

definition demo_host :: "(nat \<Rightarrow> nat \<Rightarrow> nat) \<Rightarrow> 32 word host" where
  "demo_host g = \<lparr>alloc = demo_alloc, grow = g, s_addr = id, ntop = (\<lambda>_. Some ''10.0.0.7'')\<rparr>"

lemma demo_alloc_fresh [simp]: "fresh_alloc (demo_host g)"
proof -
  have "Suc (Max M) \<notin> M" if "finite M" for M :: "ptr set"
    using Max_ge [OF that] not_less_eq_eq by blast
  then show ?thesis
    by (simp add: fresh_alloc_def demo_host_def demo_alloc_def)
qed

lemmas demo_run = resolver_new_def new_block_def Let_def name_resolved_def drop_name_def text_at_def sock_at_def free_block_def
  demo_host_def demo_alloc_def resolve_address_def enqueue_address_def work_def work_address_def addr_resolved_def
  resolver_delete_def flush_cache_def smap_del_def

text \<open>
  The same name, resolved three times. The second time its text falls into another bucket, and it
  is stored twice; then the table grows, and both entries are in one bucket. The third time one
  of them is erased and the other one found and overwritten: the text and an address are lost.
\<close>

lemma rehash_loses_memory:
  "\<exists>s s'. happen_all (demo_host (\<lambda>b m. if m = 0 then 2 else 5)) (replicate 3 (Avahi_Name 0 ''h'' 7)) (resolver_new 2) = Inr s \<and>
     resolver_delete s = Inr s' \<and> mem s' 0 = Some (Sock 7) \<and> mem s' 11 = Some (Str ''h'')"
  by (simp add: demo_run numeral_3_eq_3)

theorem resolver_memory_safe_witness:
  "\<exists>s s'. happen_all (demo_host (\<lambda>b m. b))
       [Ask_Address 3 7, Work 4 0 None None, Work 5 0 None (Some (''robot'', True)), Work 5 0 None None, Work 5 0 None None]
       (resolver_new 11) = Inr s \<and>
     owns True s \<and> resolver_delete s = Inr s' \<and> mem s' = Map.empty"
proof -
  let ?H = "demo_host (\<lambda>b m. b)"
  let ?evs = "[Ask_Address 3 7, Work 4 0 None None, Work 5 0 None (Some (''robot'', True)), Work 5 0 None None, Work 5 0 None None]"
  have run: "\<exists>s. happen_all ?H ?evs (resolver_new 11) = Inr s \<and> worker s = Waiting"
    by (simp add: demo_run)
  have grow: "\<forall>b m. grow ?H b m = b"
    by (simp add: demo_host_def)
  obtain s where "happen_all ?H ?evs (resolver_new 11) = Inr s" "owns True s"
      "worker s = Waiting \<longrightarrow> (\<exists>s'. resolver_delete s = Inr s' \<and> mem s' = Map.empty)"
    using resolver_memory_safe [OF demo_alloc_fresh, of "\<lambda>b m. b" ?evs 11] grow by blast
  then show ?thesis
    using run by (metis sum.inject(2))
qed

theorem address_answered_witness:
  "\<exists>s1 s2. resolve_address (demo_host (\<lambda>b m. b)) 3 7 (resolver_new 11) = Inr (s1, Some ''10.0.0.7'') \<and>
     work (demo_host (\<lambda>b m. b)) 4 0 None None s1 = Inr s2 \<and>
     (\<exists>s3. work (demo_host (\<lambda>b m. b)) 4 0 None (Some (''robot'', True)) s2 = Inr s3 \<and>
       resolve_address (demo_host (\<lambda>b m. b)) 33 7 s3 = Inr (s3, Some ''robot''))"
proof -
  have s: "worker (resolver_new 11) = Waiting" "addrq (resolver_new 11) = []" "addr2name_cache (resolver_new 11) = []"
      "cache_timeout (resolver_new 11) = 30"
    by (simp_all add: resolver_new_def)
  have t: "ntop (demo_host (\<lambda>b m. b)) 7 = Some ''10.0.0.7''"
    by (simp add: demo_host_def)
  have new: "map_of (addr2name_cache (resolver_new 11)) (s_addr (demo_host (\<lambda>b m. b)) 7) = None"
    by (simp add: s)
  show ?thesis
    using address_answered [OF owns_new demo_alloc_fresh s(1,2) new t, of 3 4 0 None "''robot''" 33] by (auto simp: s(4))
qed

end
