(* ===== verification/Network_Service.thy ===== *)
theory Network_Service imports Strings_Util "HOL-Library.Product_Lexorder"
begin

text \<open>
  Services as they are announced and found in the network,
  \<open>src/libs/netcomm/service_discovery/service.cpp\<close>: their constructors, the copies that queues and
  maps make of them, and the order that \<open>std::map\<close> uses, which looks at type and name only.
\<close>

section \<open>Data\<close>

text \<open>\<open>None\<close> is a null pointer. An address is the bytes of a socket address, with its length.\<close>

record network_service =
  txt_list :: "string list"
  sv_name :: string
  sv_type :: string
  sv_domain :: "string option"
  sv_host :: "string option"
  sv_port :: "16 word"
  sv_addr :: "8 word list option"
  sv_modified_name :: "string option"

definition service_full :: "string \<Rightarrow> string \<Rightarrow> string \<Rightarrow> string \<Rightarrow> 16 word \<Rightarrow> network_service" where
  "service_full name type domain host port =
     \<lparr>txt_list = [], sv_name = name, sv_type = type, sv_domain = Some domain, sv_host = Some host,
      sv_port = port, sv_addr = None, sv_modified_name = None\<rparr>"

definition service_found ::
  "string \<Rightarrow> string \<Rightarrow> string \<Rightarrow> string \<Rightarrow> 16 word \<Rightarrow> 8 word list \<Rightarrow> string list \<Rightarrow> network_service" where
  "service_found name type domain host port addr txts =
     \<lparr>txt_list = txts, sv_name = name, sv_type = type, sv_domain = Some domain, sv_host = Some host,
      sv_port = port, sv_addr = Some addr, sv_modified_name = None\<rparr>"

definition service_here :: "string \<Rightarrow> string \<Rightarrow> 16 word \<Rightarrow> network_service" where
  "service_here name type port =
     \<lparr>txt_list = [], sv_name = name, sv_type = type, sv_domain = None, sv_host = None,
      sv_port = port, sv_addr = None, sv_modified_name = None\<rparr>"

text \<open>\<open>find("%h")\<close> and \<open>replace\<close>: the first occurrence only.\<close>

fun replace_host :: "string \<Rightarrow> string \<Rightarrow> string" where
  "replace_host h [] = []"
| "replace_host h (c # cs) =
     (if c = CHR ''%'' \<and> take 1 cs = ''h'' then h @ drop 1 cs else c # replace_host h cs)"

text \<open>The short host name is known when there is a resolver.\<close>

definition service_on_host :: "string option \<Rightarrow> string \<Rightarrow> string \<Rightarrow> 16 word \<Rightarrow> network_service" where
  "service_on_host short_hostname name type port =
     service_here (case short_hostname of None \<Rightarrow> name | Some h \<Rightarrow> replace_host h name) type port"

definition service_of_type :: "string \<Rightarrow> string \<Rightarrow> string \<Rightarrow> network_service" where
  "service_of_type name type domain =
     \<lparr>txt_list = [], sv_name = name, sv_type = type, sv_domain = Some domain, sv_host = None,
      sv_port = 0, sv_addr = None, sv_modified_name = None\<rparr>"

text \<open>Both copy constructors leave the address behind.\<close>

definition service_copy :: "network_service \<Rightarrow> network_service" where
  "service_copy s = s\<lparr>sv_addr := None\<rparr>"

section \<open>Operations\<close>

definition add_txt :: "string \<Rightarrow> network_service \<Rightarrow> network_service" where
  "add_txt t s = s\<lparr>txt_list := txt_list s @ [t]\<rparr>"

definition set_txt :: "string list \<Rightarrow> network_service \<Rightarrow> network_service" where
  "set_txt l s = s\<lparr>txt_list := l\<rparr>"

definition set_name :: "string \<Rightarrow> network_service \<Rightarrow> network_service" where
  "set_name n s = s\<lparr>sv_name := n\<rparr>"

definition set_modified_name :: "string \<Rightarrow> network_service \<Rightarrow> network_service" where
  "set_modified_name n s = s\<lparr>sv_modified_name := Some n\<rparr>"

text \<open>The bytes 4 to 7 of a \<open>sockaddr_in\<close> are its address; \<open>inet_ntop\<close> prints them.\<close>

definition dotted :: "8 word list \<Rightarrow> string" where
  "dotted bs = nat_digits (unat (bs ! 0)) @ ''.'' @ nat_digits (unat (bs ! 1)) @ ''.'' @
     nat_digits (unat (bs ! 2)) @ ''.'' @ nat_digits (unat (bs ! 3))"

definition addr_string :: "network_service \<Rightarrow> string result" where
  "addr_string s =
     (case sv_addr s of
        None \<Rightarrow> Inl (UndefinedBehaviour ''reads through a null pointer'')
      | Some bs \<Rightarrow>
          if length bs < 8 then Inl (UndefinedBehaviour ''reads past the end of the address'')
          else Inr (dotted (drop 4 bs)))"

text \<open>\<open>strcmp\<close>: characters compare as unsigned numbers, a text comes before its continuations.\<close>

fun strcmp :: "string \<Rightarrow> string \<Rightarrow> int" where
  "strcmp [] [] = 0"
| "strcmp [] (_ # _) = - 1"
| "strcmp (_ # _) [] = 1"
| "strcmp (a # as) (b # bs) = (if a = b then strcmp as bs else of_char a - of_char b)"

definition service_eq :: "network_service \<Rightarrow> network_service \<Rightarrow> bool" where
  "service_eq s t \<longleftrightarrow> strcmp (sv_name s) (sv_name t) = 0 \<and> strcmp (sv_type s) (sv_type t) = 0"

definition service_less :: "network_service \<Rightarrow> network_service \<Rightarrow> bool" where
  "service_less s t =
     (let typediff = strcmp (sv_type s) (sv_type t) in
      if typediff = 0 then strcmp (sv_name s) (sv_name t) < 0 else typediff < 0)"

section \<open>The order of services\<close>

text \<open>What the operators see of a service: they are equality and order of these pairs.\<close>

definition service_key :: "network_service \<Rightarrow> string \<times> string" where
  "service_key s = (sv_type s, sv_name s)"

lemma of_char_less: "(of_char a :: int) < of_char b \<longleftrightarrow> a < b"
proof -
  have "(of_char c :: int) = int (of_char c)" for c
    by (simp add: of_nat_of_char)
  then show ?thesis by (simp only: less_char_def of_nat_less_iff)
qed

lemma strcmp_zero: "strcmp a b = 0 \<longleftrightarrow> a = b"
  by (induction a b rule: strcmp.induct) auto

lemma strcmp_neg: "strcmp a b < 0 \<longleftrightarrow> a < b"
  by (induction a b rule: strcmp.induct) (auto simp: of_char_less)

lemma service_eq_key: "service_eq s t \<longleftrightarrow> service_key s = service_key t"
  by (auto simp: service_eq_def service_key_def strcmp_zero)

lemma service_less_key: "service_less s t \<longleftrightarrow> service_key s < service_key t"
  by (auto simp: service_less_def service_key_def strcmp_zero strcmp_neg Let_def less_prod_def)

lemma service_copy_key [simp]: "service_key (service_copy s) = service_key s"
  by (simp add: service_copy_def service_key_def)

lemma set_modified_name_key [simp]: "service_key (set_modified_name n s) = service_key s"
  by (simp add: set_modified_name_def service_key_def)

lemma service_copy_idem [simp]: "service_copy (service_copy s) = service_copy s"
  by (simp add: service_copy_def)

lemma addr_string_copy: "addr_string (service_copy s) = Inl (UndefinedBehaviour ''reads through a null pointer'')"
  by (simp add: addr_string_def service_copy_def)

end
