(* ===== verification/Avahi.thy ===== *)
theory Avahi imports Network_Service
begin

text \<open>
  The thread that talks to Avahi, \<open>src/libs/netcomm/dns-sd/avahi_thread.cpp\<close>: services to publish,
  types to browse for, names and addresses to resolve. Clients put their requests in queues, the
  loop of the thread works on them, and the library calls back in between. The library is a
  parameter; what the thread asks of it and what it tells its own clients is recorded in the order
  of the calls.
\<close>

section \<open>The library\<close>

text \<open>Objects of the library, and handlers, are numbers: their addresses.\<close>

type_synonym obj = nat

datatype client_state = S_Registering | S_Running | S_Collision | S_Failure | S_Connecting

datatype group_state = G_Uncommited | G_Registering | G_Established | G_Collision | G_Failure

text \<open>
  A \<open>sockaddr_in\<close> that the thread fills in: the family may be what was in the memory before.
\<close>

record sock_in =
  in_family :: "nat option"
  in_addr :: "32 word"

datatype avahi_address = IPv4 "32 word" | IPv6 "8 word list"

datatype avahi_call =
    Poll_New "obj option" | Poll_Free obj | Poll_Wakeup obj | Poll_Iterate obj
  | Client_New "obj option" | Client_Free obj
  | Group_New obj "obj option" | Group_Add obj string network_service int | Group_Commit obj int
  | Group_Reset obj | Group_Free obj
  | Browser_New obj string "obj option" | Browser_Free "obj option"
  | Service_Resolver_New obj string string string "obj option" | Service_Resolver_Free obj
  | Host_Resolver_New obj string obj "obj option" | Host_Resolver_Free obj
  | Address_Resolver_New obj "32 word" obj "obj option" | Address_Resolver_Free obj
  | Init_Wake_All
  | Service_Added obj string string string string sock_in "16 word" "string list" int
  | Service_Removed obj string string string | Browse_Failed obj string string string
  | All_For_Now obj | Cache_Exhausted obj
  | Resolved_Name obj string sock_in | Name_Failed obj string
  | Resolved_Address obj sock_in string | Address_Failed obj sock_in

text \<open>
  What the library answers, given all calls so far, the last one first. A client may report
  states while it is made. \<open>in_addr_alloc\<close> is the address of a new block of memory, given those in
  use. The language leaves open whether \<open>m[k] = f()\<close> evaluates \<open>m[k]\<close> before \<open>f()\<close>.
\<close>

record avahi_lib =
  poll_new :: "avahi_call list \<Rightarrow> obj option"
  client_new :: "avahi_call list \<Rightarrow> obj option"
  during_client_new :: "avahi_call list \<Rightarrow> client_state list"
  group_new :: "avahi_call list \<Rightarrow> obj option"
  add_service :: "avahi_call list \<Rightarrow> obj \<Rightarrow> string \<Rightarrow> network_service \<Rightarrow> int"
  commit :: "avahi_call list \<Rightarrow> obj \<Rightarrow> int"
  browser_new :: "avahi_call list \<Rightarrow> string \<Rightarrow> obj option"
  service_resolver_new :: "avahi_call list \<Rightarrow> obj option"
  host_resolver_new :: "avahi_call list \<Rightarrow> string \<Rightarrow> obj option"
  address_resolver_new :: "avahi_call list \<Rightarrow> 32 word \<Rightarrow> obj option"
  alternative_name :: "string \<Rightarrow> string"
  strerror :: "int \<Rightarrow> string"
  last_error :: "avahi_call list \<Rightarrow> int"
  in_addr_alloc :: "nat set \<Rightarrow> nat"
  subscript_first :: bool

text \<open>\<open>AVAHI_ERR_COLLISION\<close>, and \<open>avahi_proto_to_af\<close> for the protocols 0 (IPv4) and 1 (IPv6).\<close>

definition err_collision :: int where
  "err_collision = - 8"

definition proto_to_af :: "int \<Rightarrow> nat" where
  "proto_to_af p = (if p = 0 then 2 else if p = 1 then 10 else 0)"

section \<open>The thread\<close>

type_synonym service_entry = "(string \<times> string) \<times> network_service \<times> obj option"

record avahi =
  need_recover :: bool
  do_reset_groups :: bool
  simple_poll :: "obj option"
  client :: "obj option"
  client_state :: client_state
  services :: "service_entry list"
  pending_services :: "network_service list"
  pending_remove_services :: "network_service list"
  handlers :: "(string \<times> obj list) list"
  browsers :: "(string \<times> obj) list"
  pending_browsers :: "string list"
  pending_browser_removes :: "string list"
  running_hostname_resolvers :: "obj list"
  running_address_resolvers :: "obj list"
  pending_hostname_resolves :: "(string \<times> obj) list"
  pending_address_resolves :: "(nat \<times> 32 word \<times> obj) list"
  calls :: "avahi_call list"

text \<open>The constructor leaves the state of the client as it is in memory.\<close>

definition avahi_new :: "client_state \<Rightarrow> avahi" where
  "avahi_new st =
     \<lparr>need_recover = False, do_reset_groups = False, simple_poll = None, client = None, client_state = st,
      services = [], pending_services = [], pending_remove_services = [], handlers = [], browsers = [],
      pending_browsers = [], pending_browser_removes = [], running_hostname_resolvers = [],
      running_address_resolvers = [], pending_hostname_resolves = [], pending_address_resolves = [],
      calls = []\<rparr>"

definition call :: "avahi_call \<Rightarrow> avahi \<Rightarrow> avahi" where
  "call c s = s\<lparr>calls := c # calls s\<rparr>"

text \<open>A loop over a container, up to the first exception.\<close>

fun each :: "('a \<Rightarrow> avahi \<Rightarrow> avahi mutation) \<Rightarrow> 'a list \<Rightarrow> avahi \<Rightarrow> avahi mutation" where
  "each f [] s = ok s"
| "each f (x # xs) s = andThen (f x s) (each f xs)"

section \<open>Client and poller\<close>

definition wake_poller :: "avahi \<Rightarrow> avahi" where
  "wake_poller s = (case simple_poll s of None \<Rightarrow> s | Some p \<Rightarrow> call (Poll_Wakeup p) s)"

definition recover :: "avahi \<Rightarrow> avahi" where
  "recover s = wake_poller (s\<lparr>need_recover := True\<rparr>)"

definition init_done :: "avahi \<Rightarrow> avahi" where
  "init_done s = call Init_Wake_All (wake_poller s)"

definition client_callback :: "client_state \<Rightarrow> avahi \<Rightarrow> avahi" where
  "client_callback st s =
     (let s = s\<lparr>client_state := st\<rparr> in
      case st of
        S_Running \<Rightarrow> init_done s
      | S_Collision \<Rightarrow> s\<lparr>do_reset_groups := True\<rparr>
      | S_Failure \<Rightarrow> recover s
      | S_Connecting \<Rightarrow> s
      | S_Registering \<Rightarrow> s)"

definition free_client :: "avahi \<Rightarrow> avahi" where
  "free_client s =
     (case client s of None \<Rightarrow> s | Some c \<Rightarrow> (call (Client_Free c) s)\<lparr>client := None\<rparr>)"

definition free_poll :: "avahi \<Rightarrow> avahi" where
  "free_poll s =
     (case simple_poll s of None \<Rightarrow> s | Some p \<Rightarrow> (call (Poll_Free p) s)\<lparr>simple_poll := None\<rparr>)"

text \<open>A poller whose client could not be made is freed, and the pointer to it kept.\<close>

definition connect :: "avahi_lib \<Rightarrow> avahi \<Rightarrow> avahi" where
  "connect A s =
     (case simple_poll s of
        Some _ \<Rightarrow> s
      | None \<Rightarrow>
          let p = poll_new A (calls s); s1 = (call (Poll_New p) s)\<lparr>simple_poll := p\<rparr> in
          (case p of
             None \<Rightarrow> s1
           | Some q \<Rightarrow>
               let c = client_new A (calls s1);
                   s2 = fold client_callback (during_client_new A (calls s1)) s1;
                   s3 = (call (Client_New c) s2)\<lparr>client := c\<rparr> in
               if c = None then call (Poll_Free q) s3 else s3))"

section \<open>Services\<close>

definition publish_service :: "network_service \<Rightarrow> avahi \<Rightarrow> avahi mutation" where
  "publish_service v s =
     (if map_of (services s) (service_key (service_copy v)) = None
      then ok (wake_poller (s\<lparr>pending_services := pending_services s @ [service_copy v]\<rparr>))
      else throwing (FawkesException ''Service already registered'') s)"

definition unpublish_service :: "network_service \<Rightarrow> avahi \<Rightarrow> avahi mutation" where
  "unpublish_service v s =
     (if map_of (services s) (service_key (service_copy v)) \<noteq> None
      then ok (wake_poller (s\<lparr>pending_remove_services := pending_remove_services s @ [service_copy v]\<rparr>))
      else throwing (FawkesException ''Service not registered'') s)"

text \<open>The name of the \<open>i\<close>-th attempt, and the loop over at most 100 of them.\<close>

definition try_name :: "network_service \<Rightarrow> nat \<Rightarrow> string" where
  "try_name v i = (if 1 < i then sv_name v @ '' '' @ to_string_int (int i) else sv_name v)"

function add_names ::
  "avahi_lib \<Rightarrow> obj \<Rightarrow> nat \<Rightarrow> int \<Rightarrow> network_service \<Rightarrow> avahi \<Rightarrow> avahi \<times> network_service \<times> int" where
  "add_names A g i rv v s =
     (if i \<le> 100 \<and> rv = err_collision then
        let n = try_name v i;
            rv' = add_service A (calls s) g n v;
            s' = call (Group_Add g n v rv') s;
            v' = (if 1 < i \<and> 0 \<le> rv' then set_modified_name n v else v) in
        add_names A g (i + 1) rv' v' s'
      else (s, v, rv))"
  by pat_completeness auto

termination
  by (relation "measure (\<lambda>(A, g, i, rv, v, s). 101 - i)") auto

declare add_names.simps [simp del]

text \<open>The modified name is set on the service itself, which is therefore a result as well.\<close>

definition announce ::
  "avahi_lib \<Rightarrow> network_service \<Rightarrow> obj \<Rightarrow> avahi \<Rightarrow> avahi \<times> network_service \<times> obj option result" where
  "announce A v g s =
     (case add_names A g 1 err_collision v s of
        (s1, v1, rv) \<Rightarrow>
          if rv < 0
          then (s1, v1, Inl (FawkesException (''Adding Avahi/mDNS-SD service failed: '' @ strerror A rv)))
          else
            let r = commit A (calls s1) g; s2 = call (Group_Commit g r) s1 in
            if r < 0 then (s2, v1, Inl (FawkesException ''Registering Avahi services failed''))
            else (s2, v1, Inr (Some g)))"

definition create_service ::
  "avahi_lib \<Rightarrow> network_service \<Rightarrow> obj option \<Rightarrow> avahi \<Rightarrow> avahi \<times> network_service \<times> obj option result" where
  "create_service A v exgroup s =
     (case client s of
        None \<Rightarrow> (s, v, Inr None)
      | Some c \<Rightarrow>
          (case exgroup of
             Some g \<Rightarrow> announce A v g s
           | None \<Rightarrow>
               let g = group_new A (calls s); s1 = call (Group_New c g) s in
               (case g of
                  None \<Rightarrow> (s1, v, Inl (NullPointerException ''Cannot create service group''))
                | Some g' \<Rightarrow> announce A v g' s1)))"

definition recreate_service :: "avahi_lib \<Rightarrow> string \<times> string \<Rightarrow> avahi \<Rightarrow> avahi mutation" where
  "recreate_service A k s =
     (case map_of (services s) k of
        None \<Rightarrow> ok s
      | Some (v, g) \<Rightarrow>
          (case create_service A v g s of
             (s1, v1, Inl x) \<Rightarrow> throwing x s1
           | (s1, v1, Inr g1) \<Rightarrow> ok (s1\<lparr>services := smap_ins k (v1, g1) (services s1)\<rparr>)))"

definition recreate_services :: "avahi_lib \<Rightarrow> avahi \<Rightarrow> avahi mutation" where
  "recreate_services A s = each (recreate_service A) (map fst (services s)) s"

text \<open>\<open>__services[s] = g\<close> keeps the service that is in the map, if there is one.\<close>

definition put_service :: "network_service \<Rightarrow> obj option \<Rightarrow> service_entry list \<Rightarrow> service_entry list" where
  "put_service v g m =
     smap_ins (service_key v)
       (case map_of m (service_key v) of None \<Rightarrow> (service_copy v, g) | Some (w, _) \<Rightarrow> (w, g)) m"

definition create_pending_service :: "avahi_lib \<Rightarrow> network_service \<Rightarrow> avahi \<Rightarrow> avahi mutation" where
  "create_pending_service A v s =
     (case create_service A v None s of
        (s1, v1, Inl x) \<Rightarrow> throwing x s1
      | (s1, v1, Inr g) \<Rightarrow>
          ok (s1\<lparr>services := put_service (if subscript_first A then v else v1) g (services s1),
                 pending_services := tl (pending_services s1)\<rparr>))"

definition create_pending_services :: "avahi_lib \<Rightarrow> avahi \<Rightarrow> avahi mutation" where
  "create_pending_services A s = each (create_pending_service A) (pending_services s) s"

definition group_reset :: "obj option \<Rightarrow> avahi \<Rightarrow> avahi" where
  "group_reset g s = (case g of None \<Rightarrow> s | Some g' \<Rightarrow> call (Group_Reset g') s)"

definition group_erase :: "obj option \<Rightarrow> avahi \<Rightarrow> avahi" where
  "group_erase g s =
     (case g of None \<Rightarrow> s | Some g' \<Rightarrow> call (Group_Free g') (call (Group_Reset g') s))"

definition remove_pending_service :: "network_service \<Rightarrow> avahi \<Rightarrow> avahi" where
  "remove_pending_service v s =
     (let s1 =
        (case map_of (services s) (service_key v) of
           None \<Rightarrow> s
         | Some (_, g) \<Rightarrow>
             let s' = group_erase g s in s'\<lparr>services := smap_del (service_key v) (services s')\<rparr>) in
      s1\<lparr>pending_remove_services := tl (pending_remove_services s1)\<rparr>)"

definition remove_pending_services :: "avahi \<Rightarrow> avahi" where
  "remove_pending_services s = fold remove_pending_service (pending_remove_services s) s"

definition erase_groups :: "avahi \<Rightarrow> avahi" where
  "erase_groups s =
     (let s1 = fold (\<lambda>e. group_erase (snd (snd e))) (services s) s in
      s1\<lparr>services := map (\<lambda>(k, v, g). (k, v, None)) (services s1)\<rparr>)"

definition reset_groups :: "avahi \<Rightarrow> avahi" where
  "reset_groups s = fold (\<lambda>e. group_reset (snd (snd e))) (services s) s"

definition rename_entry :: "avahi_lib \<Rightarrow> obj \<Rightarrow> service_entry \<Rightarrow> avahi \<Rightarrow> avahi" where
  "rename_entry A g e s =
     (case e of (k, v, g') \<Rightarrow>
        if g' = Some g
        then s\<lparr>pending_remove_services := pending_remove_services s @ [service_copy v],
               pending_services :=
                 pending_services s @ [set_name (alternative_name A (sv_name v)) (service_copy v)]\<rparr>
        else s)"

definition name_collision :: "avahi_lib \<Rightarrow> obj \<Rightarrow> avahi \<Rightarrow> avahi" where
  "name_collision A g s = fold (rename_entry A g) (services s) s"

definition entry_group_callback :: "avahi_lib \<Rightarrow> obj \<Rightarrow> group_state \<Rightarrow> avahi \<Rightarrow> avahi" where
  "entry_group_callback A g st s =
     (case st of
        G_Established \<Rightarrow> s
      | G_Collision \<Rightarrow> name_collision A g s
      | G_Failure \<Rightarrow> recover s
      | G_Uncommited \<Rightarrow> s
      | G_Registering \<Rightarrow> s)"

section \<open>Browsers\<close>

definition handlers_of :: "string \<Rightarrow> avahi \<Rightarrow> obj list" where
  "handlers_of t s = (case map_of (handlers s) t of None \<Rightarrow> [] | Some hs \<Rightarrow> hs)"

definition watch_service :: "string \<Rightarrow> obj \<Rightarrow> avahi \<Rightarrow> avahi" where
  "watch_service t h s =
     wake_poller (s\<lparr>handlers := smap_ins t (handlers_of t s @ [h]) (handlers s),
                    pending_browsers := pending_browsers s @ [t]\<rparr>)"

definition unwatch_service :: "string \<Rightarrow> obj \<Rightarrow> avahi \<Rightarrow> avahi" where
  "unwatch_service t h s =
     wake_poller
       (case map_of (handlers s) t of
          None \<Rightarrow> s
        | Some hs \<Rightarrow>
            let hs' = removeAll h hs in
            if hs' = []
            then s\<lparr>pending_browser_removes :=
                     pending_browser_removes s @ (if map_of (browsers s) t \<noteq> None then [t] else []),
                   handlers := smap_del t (handlers s)\<rparr>
            else s\<lparr>handlers := smap_ins t hs' (handlers s)\<rparr>)"

definition create_browser :: "avahi_lib \<Rightarrow> string \<Rightarrow> avahi \<Rightarrow> avahi mutation" where
  "create_browser A t s =
     (if map_of (browsers s) t \<noteq> None then ok s
      else
        case client s of
          None \<Rightarrow> ok s
        | Some c \<Rightarrow>
            let b = browser_new A (calls s) t; s1 = call (Browser_New c t b) s in
            (case b of
               None \<Rightarrow>
                 if handlers_of t s1 = []
                 then throwing (UndefinedBehaviour ''pop_back on an empty list'') s1
                 else throwing (NullPointerException ''Could not instantiate AvahiServiceBrowser'')
                        (s1\<lparr>handlers := smap_ins t (butlast (handlers_of t s1)) (handlers s1)\<rparr>)
             | Some b' \<Rightarrow> ok (s1\<lparr>browsers := smap_ins t b' (browsers s1)\<rparr>)))"

definition recreate_browsers :: "avahi_lib \<Rightarrow> avahi \<Rightarrow> avahi mutation" where
  "recreate_browsers A s = each (create_browser A) (map fst (handlers s)) s"

definition create_pending_browser :: "avahi_lib \<Rightarrow> string \<Rightarrow> avahi \<Rightarrow> avahi mutation" where
  "create_pending_browser A t s =
     andThen (create_browser A t s) (\<lambda>s1. ok (s1\<lparr>pending_browsers := tl (pending_browsers s1)\<rparr>))"

definition create_pending_browsers :: "avahi_lib \<Rightarrow> avahi \<Rightarrow> avahi mutation" where
  "create_pending_browsers A s = each (create_pending_browser A) (pending_browsers s) s"

text \<open>\<open>__browsers[s]\<close> is a null pointer for a type without a browser.\<close>

definition remove_pending_browser :: "string \<Rightarrow> avahi \<Rightarrow> avahi" where
  "remove_pending_browser t s =
     (let s1 = call (Browser_Free (map_of (browsers s) t)) s in
      s1\<lparr>browsers := smap_del t (browsers s1), pending_browser_removes := tl (pending_browser_removes s1)\<rparr>)"

definition remove_pending_browsers :: "avahi \<Rightarrow> avahi" where
  "remove_pending_browsers s = fold remove_pending_browser (pending_browser_removes s) s"

definition erase_browsers :: "avahi \<Rightarrow> avahi" where
  "erase_browsers s = (fold (\<lambda>p. call (Browser_Free (Some (snd p)))) (browsers s) s)\<lparr>browsers := []\<rparr>"

section \<open>What the browsers find\<close>

definition tell_handlers :: "string \<Rightarrow> (obj \<Rightarrow> avahi_call) \<Rightarrow> avahi \<Rightarrow> avahi" where
  "tell_handlers t c s = fold (\<lambda>h. call (c h)) (handlers_of t s) s"

definition call_handler_service_removed :: "string \<Rightarrow> string \<Rightarrow> string \<Rightarrow> avahi \<Rightarrow> avahi" where
  "call_handler_service_removed name type domain =
     tell_handlers type (\<lambda>h. Service_Removed h name type domain)"

text \<open>The family of the address is not set.\<close>

definition call_handler_service_added ::
  "string \<Rightarrow> string \<Rightarrow> string \<Rightarrow> string \<Rightarrow> avahi_address \<Rightarrow> 16 word \<Rightarrow> string list \<Rightarrow> int \<Rightarrow> avahi \<Rightarrow> avahi"
where
  "call_handler_service_added name type domain host_name address port txts flags s =
     (case address of
        IPv4 a \<Rightarrow>
          tell_handlers type
            (\<lambda>h. Service_Added h name type domain host_name \<lparr>in_family = None, in_addr = a\<rparr> port txts flags) s
      | IPv6 _ \<Rightarrow> s)"

definition call_handler_failed :: "string \<Rightarrow> string \<Rightarrow> string \<Rightarrow> avahi \<Rightarrow> avahi" where
  "call_handler_failed name type domain = tell_handlers type (\<lambda>h. Browse_Failed h name type domain)"

definition call_handler_all_for_now :: "string \<Rightarrow> avahi \<Rightarrow> avahi" where
  "call_handler_all_for_now type = tell_handlers type All_For_Now"

definition call_handler_cache_exhausted :: "string \<Rightarrow> avahi \<Rightarrow> avahi" where
  "call_handler_cache_exhausted type = tell_handlers type Cache_Exhausted"

datatype browser_event = B_Failure | B_New | B_Remove | B_All_For_Now | B_Cache_Exhausted

text \<open>A browser exists only while there is a client.\<close>

definition browse_callback ::
  "avahi_lib \<Rightarrow> browser_event \<Rightarrow> string \<Rightarrow> string \<Rightarrow> string \<Rightarrow> avahi \<Rightarrow> avahi mutation" where
  "browse_callback A event name type domain s =
     (case event of
        B_Failure \<Rightarrow> ok s
      | B_New \<Rightarrow>
          (case client s of
             None \<Rightarrow> throwing (UndefinedBehaviour ''resolver without a client'') s
           | Some c \<Rightarrow>
               let r = service_resolver_new A (calls s); s1 = call (Service_Resolver_New c name type domain r) s in
               if r = None then throwing (NullPointerException ''Could not instantiate resolver'') s1 else ok s1)
      | B_Remove \<Rightarrow> ok (call_handler_service_removed name type domain s)
      | B_All_For_Now \<Rightarrow> ok (call_handler_all_for_now type s)
      | B_Cache_Exhausted \<Rightarrow> ok (call_handler_cache_exhausted type s))"

text \<open>What the resolver of a service found, if it did.\<close>

definition resolve_callback ::
  "obj \<Rightarrow> string \<Rightarrow> string \<Rightarrow> string \<Rightarrow> (string \<times> avahi_address \<times> 16 word \<times> string list \<times> int) option \<Rightarrow>
   avahi \<Rightarrow> avahi" where
  "resolve_callback r name type domain found s =
     call (Service_Resolver_Free r)
       (case found of
          None \<Rightarrow> call_handler_failed name type domain s
        | Some (host_name, address, port, txts, flags) \<Rightarrow>
            call_handler_service_added name type domain host_name address port txts flags s)"

section \<open>Resolvers of names and addresses\<close>

text \<open>A name that waits already keeps the handler of its first request.\<close>

definition avahi_resolve_name :: "string \<Rightarrow> obj \<Rightarrow> avahi \<Rightarrow> avahi" where
  "avahi_resolve_name name h s =
     wake_poller
       (if map_of (pending_hostname_resolves s) name = None
        then s\<lparr>pending_hostname_resolves := smap_ins name h (pending_hostname_resolves s)\<rparr> else s)"

text \<open>A \<open>sockaddr_in\<close> has 16 bytes; of its contents only the address is used.\<close>

definition avahi_resolve_address :: "avahi_lib \<Rightarrow> 32 word \<Rightarrow> nat \<Rightarrow> obj \<Rightarrow> avahi \<Rightarrow> avahi mutation" where
  "avahi_resolve_address A addr addrlen h s =
     (if addrlen \<noteq> 16 then throwing (FawkesException ''Only IPv4 is currently supported'') s
      else
        let p = in_addr_alloc A (set (map fst (pending_address_resolves s))) in
        ok (wake_poller (s\<lparr>pending_address_resolves := smap_ins p (addr, h) (pending_address_resolves s)\<rparr>)))"

definition start_hostname_resolver :: "avahi_lib \<Rightarrow> string \<times> obj \<Rightarrow> avahi \<Rightarrow> avahi mutation" where
  "start_hostname_resolver A e s =
     (case e of (name, h) \<Rightarrow>
        case client s of
          None \<Rightarrow> throwing (UndefinedBehaviour ''resolver without a client'') s
        | Some c \<Rightarrow>
            let r = host_resolver_new A (calls s) name; s1 = call (Host_Resolver_New c name h r) s in
            (case r of
               None \<Rightarrow> throwing (FawkesException ''Cannot create Avahi name resolver'') s1
             | Some r' \<Rightarrow> ok (s1\<lparr>running_hostname_resolvers := running_hostname_resolvers s1 @ [r']\<rparr>)))"

definition start_hostname_resolvers :: "avahi_lib \<Rightarrow> avahi \<Rightarrow> avahi mutation" where
  "start_hostname_resolvers A s =
     andThen (each (start_hostname_resolver A) (pending_hostname_resolves s) s)
       (\<lambda>s1. ok (s1\<lparr>pending_hostname_resolves := []\<rparr>))"

definition start_address_resolver :: "avahi_lib \<Rightarrow> nat \<times> 32 word \<times> obj \<Rightarrow> avahi \<Rightarrow> avahi mutation" where
  "start_address_resolver A e s =
     (case e of (p, addr, h) \<Rightarrow>
        case client s of
          None \<Rightarrow> throwing (UndefinedBehaviour ''resolver without a client'') s
        | Some c \<Rightarrow>
            let r = address_resolver_new A (calls s) addr; s1 = call (Address_Resolver_New c addr h r) s in
            (case r of
               None \<Rightarrow> throwing (FawkesException ''Cannot create Avahi address resolver'') s1
             | Some r' \<Rightarrow> ok (s1\<lparr>running_address_resolvers := running_address_resolvers s1 @ [r']\<rparr>)))"

definition start_address_resolvers :: "avahi_lib \<Rightarrow> avahi \<Rightarrow> avahi mutation" where
  "start_address_resolvers A s =
     andThen (each (start_address_resolver A) (pending_address_resolves s) s)
       (\<lambda>s1. ok (s1\<lparr>pending_address_resolves := []\<rparr>))"

definition remove_hostname_resolver :: "obj \<Rightarrow> avahi \<Rightarrow> avahi" where
  "remove_hostname_resolver r s =
     s\<lparr>running_hostname_resolvers := removeAll r (running_hostname_resolvers s)\<rparr>"

definition remove_address_resolver :: "obj \<Rightarrow> avahi \<Rightarrow> avahi" where
  "remove_address_resolver r s =
     s\<lparr>running_address_resolvers := removeAll r (running_address_resolvers s)\<rparr>"

text \<open>The callbacks get the handler that was given to the resolver, and what was found, if it was.\<close>

definition host_name_resolver_callback ::
  "obj \<Rightarrow> int \<Rightarrow> string \<Rightarrow> 32 word option \<Rightarrow> obj \<Rightarrow> avahi \<Rightarrow> avahi" where
  "host_name_resolver_callback r protocol name found h s =
     (let s1 = call (Host_Resolver_Free r) (remove_hostname_resolver r s) in
      case found of
        Some a \<Rightarrow> call (Resolved_Name h name \<lparr>in_family = Some (proto_to_af protocol), in_addr = a\<rparr>) s1
      | None \<Rightarrow> call (Name_Failed h name) s1)"

definition address_resolver_callback ::
  "obj \<Rightarrow> int \<Rightarrow> 32 word \<Rightarrow> string option \<Rightarrow> obj \<Rightarrow> avahi \<Rightarrow> avahi" where
  "address_resolver_callback r protocol a found h s =
     (let s1 = call (Address_Resolver_Free r) (remove_address_resolver r s);
          res = \<lparr>in_family = Some (proto_to_af protocol), in_addr = a\<rparr> in
      case found of
        Some name \<Rightarrow> call (Resolved_Address h res name) s1
      | None \<Rightarrow> call (Address_Failed h res) s1)"

section \<open>The loop of the thread\<close>

definition work_on_requests :: "avahi_lib \<Rightarrow> avahi \<Rightarrow> avahi mutation" where
  "work_on_requests A s =
     andThen (create_pending_services A (remove_pending_browsers (remove_pending_services s)))
       (\<lambda>s1. andThen (create_pending_browsers A s1)
       (\<lambda>s2. andThen (start_hostname_resolvers A s2) (start_address_resolvers A)))"

definition poll_iterate :: "avahi \<Rightarrow> avahi mutation" where
  "poll_iterate s =
     (case simple_poll s of
        None \<Rightarrow> throwing (UndefinedBehaviour ''polls through a null pointer'') s
      | Some p \<Rightarrow> ok (call (Poll_Iterate p) s))"

text \<open>
  One round, up to the call that waits for events; what the library calls back there are steps of
  their own.
\<close>

definition with_client :: "avahi_lib \<Rightarrow> avahi \<Rightarrow> avahi mutation" where
  "with_client A s =
     andThen (if do_reset_groups s then recreate_services A (reset_groups s) else ok s)
       (\<lambda>s1. andThen
          (if need_recover s1
           then andThen (recreate_services A (erase_browsers (erase_groups s1))) (recreate_browsers A)
           else ok s1)
       (\<lambda>s2. andThen (if client_state s2 = S_Running then work_on_requests A s2 else ok s2)
       (\<lambda>s3. poll_iterate (s3\<lparr>need_recover := False\<rparr>))))"

definition avahi_loop :: "avahi_lib \<Rightarrow> avahi \<Rightarrow> avahi mutation" where
  "avahi_loop A s =
     (let s1 = connect A (if need_recover s then free_poll (free_client s) else s) in
      if client s1 = None then ok s1 else with_client A s1)"

definition avahi_delete :: "avahi \<Rightarrow> avahi" where
  "avahi_delete s =
     free_poll (free_client (erase_browsers (erase_groups
       (remove_pending_browsers (remove_pending_services s)))))"

section \<open>All steps\<close>

text \<open>
  Rounds of the loop, requests of the clients, and calls of the library, which come only from
  objects that exist. An exception that a client's request throws reaches that client. Nothing
  catches one that leaves the loop or a callback: the program ends.
\<close>

datatype avahi_op =
    Loop
  | Publish network_service | Unpublish network_service
  | Watch string obj | Unwatch string obj
  | Resolve_Name string obj | Resolve_Address "32 word" nat obj
  | Client_State client_state
  | Group_State obj group_state
  | Browse browser_event string string string
  | Resolve obj string string string "(string \<times> avahi_address \<times> 16 word \<times> string list \<times> int) option"
  | Host_Name obj int string "32 word option" obj
  | Address obj int "32 word" "string option" obj

fun perform :: "avahi_lib \<Rightarrow> avahi_op \<Rightarrow> avahi \<Rightarrow> avahi mutation" where
  "perform A Loop s = avahi_loop A s"
| "perform A (Publish v) s = publish_service v s"
| "perform A (Unpublish v) s = unpublish_service v s"
| "perform A (Watch t h) s = ok (watch_service t h s)"
| "perform A (Unwatch t h) s = ok (unwatch_service t h s)"
| "perform A (Resolve_Name n h) s = ok (avahi_resolve_name n h s)"
| "perform A (Resolve_Address a l h) s = avahi_resolve_address A a l h s"
| "perform A (Client_State st) s = ok (client_callback st s)"
| "perform A (Group_State g st) s = ok (entry_group_callback A g st s)"
| "perform A (Browse e n t d) s = browse_callback A e n t d s"
| "perform A (Resolve r n t d found) s = ok (resolve_callback r n t d found s)"
| "perform A (Host_Name r p n found h) s = ok (host_name_resolver_callback r p n found h s)"
| "perform A (Address r p a found h) s = ok (address_resolver_callback r p a found h s)"

fun client_request :: "avahi_op \<Rightarrow> bool" where
  "client_request (Publish _) = True"
| "client_request (Unpublish _) = True"
| "client_request (Resolve_Address _ _ _) = True"
| "client_request _ = False"

text \<open>
  The client that a group belongs to while the group exists. A client that is freed takes its
  groups with it.
\<close>

fun group_owner :: "avahi_call list \<Rightarrow> obj \<Rightarrow> obj option" where
  "group_owner [] g = None"
| "group_owner (Group_New c (Some g') # cs) g = (if g' = g then Some c else group_owner cs g)"
| "group_owner (Group_Free g' # cs) g = (if g' = g then None else group_owner cs g)"
| "group_owner (Client_Free c # cs) g = (if group_owner cs g = Some c then None else group_owner cs g)"
| "group_owner (_ # cs) g = group_owner cs g"

text \<open>Groups are used only while they exist.\<close>

fun groups_used_well :: "avahi_call list \<Rightarrow> bool" where
  "groups_used_well [] = True"
| "groups_used_well (Group_Add g n v rv # cs) = (group_owner cs g \<noteq> None \<and> groups_used_well cs)"
| "groups_used_well (Group_Commit g rv # cs) = (group_owner cs g \<noteq> None \<and> groups_used_well cs)"
| "groups_used_well (Group_Reset g # cs) = (group_owner cs g \<noteq> None \<and> groups_used_well cs)"
| "groups_used_well (Group_Free g # cs) = (group_owner cs g \<noteq> None \<and> groups_used_well cs)"
| "groups_used_well (_ # cs) = groups_used_well cs"

fun op_enabled :: "avahi_op \<Rightarrow> avahi \<Rightarrow> bool" where
  "op_enabled (Client_State st) s = (client s \<noteq> None)"
| "op_enabled (Group_State g st) s = (group_owner (calls s) g \<noteq> None)"
| "op_enabled (Browse e n t d) s = (client s \<noteq> None)"
| "op_enabled (Host_Name r p n found h) s = (r \<in> set (running_hostname_resolvers s))"
| "op_enabled (Address r p a found h) s = (r \<in> set (running_address_resolvers s))"
| "op_enabled _ s = True"

inductive avahi_reach :: "avahi_lib \<Rightarrow> (avahi_op \<Rightarrow> bool) \<Rightarrow> avahi \<Rightarrow> bool" for A allowed where
  start: "avahi_reach A allowed (avahi_new st)"
| step: "avahi_reach A allowed s \<Longrightarrow> allowed op \<Longrightarrow> op_enabled op s \<Longrightarrow> perform A op s = (s', x) \<Longrightarrow>
    x = None \<or> client_request op \<Longrightarrow> avahi_reach A allowed s'"

end
