(* ===== verification/Avahi_Laws.thy ===== *)
theory Avahi_Laws imports Avahi
begin

text \<open>
  Properties of the thread that talks to Avahi: groups of services are used while they exist,
  what is published gets announced, and what is watched gets a browser; and what goes wrong when
  the connection is lost or requests come in an unlucky order.
\<close>

section \<open>Loops and frames\<close>

lemma each_inv:
  assumes "snd (each f xs s) = None" and "P s"
    and "\<And>x s. x \<in> set xs \<Longrightarrow> P s \<Longrightarrow> snd (f x s) = None \<Longrightarrow> P (fst (f x s))"
  shows "P (fst (each f xs s))"
  using assms
proof (induction xs arbitrary: s)
  case (Cons x xs)
  from Cons.prems(1) have n: "snd (f x s) = None" "snd (each f xs (fst (f x s))) = None"
    by (simp_all add: andThen_None)
  have "P (fst (f x s))" using Cons.prems(2,3) n(1) by simp
  with Cons.IH [of "fst (f x s)"] Cons.prems(3) n(2) have "P (fst (each f xs (fst (f x s))))" by simp
  with n(1) show ?case by (simp add: andThen_fst)
qed simp

lemma fold_inv: "P s \<Longrightarrow> (\<And>x s. x \<in> set xs \<Longrightarrow> P s \<Longrightarrow> P (f x s)) \<Longrightarrow> P (fold f xs s)"
  by (induction xs arbitrary: s) auto

text \<open>An operation is quiet when it neither uses groups nor changes the services.\<close>

fun group_call :: "avahi_call \<Rightarrow> bool" where
  "group_call (Client_Free _) = True"
| "group_call (Group_New _ _) = True"
| "group_call (Group_Add _ _ _ _) = True"
| "group_call (Group_Commit _ _) = True"
| "group_call (Group_Reset _) = True"
| "group_call (Group_Free _) = True"
| "group_call _ = False"

text \<open>The name and type that a group announces: what was added to it before the last commit.\<close>

fun staged :: "avahi_call list \<Rightarrow> obj \<Rightarrow> (string \<times> string) option" where
  "staged [] g = None"
| "staged (Group_Add g' n v rv # cs) g = (if g' = g \<and> 0 \<le> rv then Some (n, sv_type v) else staged cs g)"
| "staged (Group_Reset g' # cs) g = (if g' = g then None else staged cs g)"
| "staged (Group_Free g' # cs) g = (if g' = g then None else staged cs g)"
| "staged (_ # cs) g = staged cs g"

fun announced :: "avahi_call list \<Rightarrow> obj \<Rightarrow> (string \<times> string) option" where
  "announced [] g = None"
| "announced (Group_Commit g' r # cs) g = (if g' = g \<and> 0 \<le> r then staged cs g else announced cs g)"
| "announced (Group_Reset g' # cs) g = (if g' = g then None else announced cs g)"
| "announced (Group_Free g' # cs) g = (if g' = g then None else announced cs g)"
| "announced (_ # cs) g = announced cs g"

lemma quiet_call:
  assumes "\<not> group_call c"
  shows "group_owner (c # cs) = group_owner cs" and "groups_used_well (c # cs) = groups_used_well cs"
    and "staged (c # cs) = staged cs" and "announced (c # cs) = announced cs"
  using assms by (cases c; simp add: fun_eq_iff)+

definition quiet :: "avahi \<Rightarrow> avahi \<Rightarrow> bool" where
  "quiet s s' \<longleftrightarrow>
     services s' = services s \<and> need_recover s' = need_recover s \<and> client s' = client s \<and>
     group_owner (calls s') = group_owner (calls s) \<and>
     groups_used_well (calls s') = groups_used_well (calls s) \<and>
     announced (calls s') = announced (calls s)"

lemma quiet_self [simp]: "quiet s s"
  by (simp add: quiet_def)

lemma quiet_compose: "quiet s s1 \<Longrightarrow> quiet s1 s2 \<Longrightarrow> quiet s s2"
  by (simp add: quiet_def)

lemma quiet_step: "\<not> group_call c \<Longrightarrow> quiet s s1 \<Longrightarrow> quiet s (call c s1)"
  by (simp add: quiet_def call_def quiet_call)

lemma quiet_fold: "quiet s s1 \<Longrightarrow> (\<And>x s1. quiet s s1 \<Longrightarrow> quiet s (f x s1)) \<Longrightarrow> quiet s (fold f xs s1)"
  by (rule fold_inv)

lemma quiet_andThen:
  "quiet s (fst r) \<Longrightarrow> (\<And>s1. quiet s s1 \<Longrightarrow> quiet s (fst (f s1))) \<Longrightarrow> quiet s (fst (andThen r f))"
  by (rule andThen_inv)

lemma quiet_each:
  assumes "\<And>x s1. quiet s s1 \<Longrightarrow> quiet s (fst (f x s1))" and "quiet s s1"
  shows "quiet s (fst (each f xs s1))"
  using assms(2)
proof (induction xs arbitrary: s1)
  case (Cons x xs)
  then show ?case by (simp add: quiet_andThen assms(1))
qed simp

named_theorems quietly

lemma quiet_wake [quietly]: "quiet s s1 \<Longrightarrow> quiet s (wake_poller s1)"
  by (simp add: wake_poller_def quiet_step split: option.split)

lemma quiet_updates [quietly]:
  assumes "quiet s s1"
  shows "quiet s (s1\<lparr>client_state := a\<rparr>)" "quiet s (s1\<lparr>do_reset_groups := b\<rparr>)"
    "quiet s (s1\<lparr>pending_services := c\<rparr>)" "quiet s (s1\<lparr>pending_remove_services := c\<rparr>)"
    "quiet s (s1\<lparr>handlers := d\<rparr>)" "quiet s (s1\<lparr>browsers := e\<rparr>)"
    "quiet s (s1\<lparr>pending_browsers := f\<rparr>)" "quiet s (s1\<lparr>pending_browser_removes := f\<rparr>)"
    "quiet s (s1\<lparr>running_hostname_resolvers := g\<rparr>)" "quiet s (s1\<lparr>running_address_resolvers := g\<rparr>)"
    "quiet s (s1\<lparr>pending_hostname_resolves := h\<rparr>)" "quiet s (s1\<lparr>pending_address_resolves := i\<rparr>)"
    "quiet s (s1\<lparr>simple_poll := j\<rparr>)"
  using assms by (simp_all add: quiet_def)

lemma quiet_client_callback [quietly]:
  "st \<noteq> S_Failure \<Longrightarrow> quiet s s1 \<Longrightarrow> quiet s (client_callback st s1)"
  by (simp add: client_callback_def Let_def init_done_def quiet_step quietly split: client_state.split)

lemma quiet_tell [quietly]: "(\<And>h. \<not> group_call (c h)) \<Longrightarrow> quiet s s1 \<Longrightarrow> quiet s (tell_handlers t c s1)"
  by (auto simp: tell_handlers_def intro!: quiet_fold quiet_step)

lemma quiet_handlers [quietly]:
  assumes "quiet s s1"
  shows "quiet s (call_handler_service_removed n t d s1)"
    "quiet s (call_handler_service_added n t d hn ad p tx fl s1)"
    "quiet s (call_handler_failed n t d s1)"
    "quiet s (call_handler_all_for_now t s1)" "quiet s (call_handler_cache_exhausted t s1)"
  using assms
  by (simp_all add: call_handler_service_removed_def call_handler_service_added_def call_handler_failed_def
      call_handler_all_for_now_def call_handler_cache_exhausted_def quiet_tell split: avahi_address.split)

lemma quiet_browse [quietly]: "quiet s s1 \<Longrightarrow> quiet s (fst (browse_callback A e n t d s1))"
  by (auto simp: browse_callback_def Let_def quiet_step quietly split: browser_event.split option.split)

lemma quiet_resolve [quietly]: "quiet s s1 \<Longrightarrow> quiet s (resolve_callback r n t d found s1)"
  by (auto simp: resolve_callback_def quiet_step quietly split: option.split)

lemma quiet_resolver_callbacks [quietly]:
  assumes "quiet s s1"
  shows "quiet s (host_name_resolver_callback r p n f h s1)" "quiet s (address_resolver_callback r p a g h s1)"
  using assms by (simp_all add: host_name_resolver_callback_def address_resolver_callback_def Let_def
      remove_hostname_resolver_def remove_address_resolver_def quiet_step quietly split: option.split)

lemma quiet_requests [quietly]:
  assumes "quiet s s1"
  shows "quiet s (watch_service t h s1)" "quiet s (unwatch_service t h s1)"
    "quiet s (avahi_resolve_name n h s1)" "quiet s (fst (avahi_resolve_address A a l h s1))"
    "quiet s (fst (publish_service v s1))" "quiet s (fst (unpublish_service v s1))"
proof -
  show "quiet s (watch_service t h s1)" using assms by (simp add: watch_service_def quietly)
  have "quiet s (s1\<lparr>pending_browser_removes := a, handlers := b\<rparr>)" for a b
    using assms by (simp add: quiet_def)
  then show "quiet s (unwatch_service t h s1)" using assms
    by (simp add: unwatch_service_def Let_def quietly split: option.split)
  show "quiet s (avahi_resolve_name n h s1)" using assms by (simp add: avahi_resolve_name_def quietly)
  show "quiet s (fst (avahi_resolve_address A a l h s1))" using assms
    by (simp add: avahi_resolve_address_def Let_def quietly)
  show "quiet s (fst (publish_service v s1))" using assms by (simp add: publish_service_def quietly)
  show "quiet s (fst (unpublish_service v s1))" using assms by (simp add: unpublish_service_def quietly)
qed

lemma quiet_create_browser [quietly]: "quiet s s1 \<Longrightarrow> quiet s (fst (create_browser A t s1))"
  by (auto simp: create_browser_def Let_def quiet_step quietly split: option.split)

lemma quiet_create_pending_browsers [quietly]:
  "quiet s s1 \<Longrightarrow> quiet s (fst (create_pending_browsers A s1))"
  unfolding create_pending_browsers_def
  by (rule quiet_each) (simp_all add: create_pending_browser_def quietly quiet_andThen)

lemma quiet_remove_pending_browsers [quietly]: "quiet s s1 \<Longrightarrow> quiet s (remove_pending_browsers s1)"
  unfolding remove_pending_browsers_def
  by (rule quiet_fold) (auto simp: remove_pending_browser_def Let_def quiet_def call_def)

lemma quiet_start_hostname_resolver [quietly]:
  "quiet s s1 \<Longrightarrow> quiet s (fst (start_hostname_resolver A e s1))"
  by (simp add: start_hostname_resolver_def Let_def quiet_step quietly split: option.split prod.split)

lemma quiet_start_hostname_resolvers [quietly]:
  "quiet s s1 \<Longrightarrow> quiet s (fst (start_hostname_resolvers A s1))"
  by (simp add: start_hostname_resolvers_def quiet_andThen quiet_each quietly)

lemma quiet_start_address_resolver [quietly]:
  "quiet s s1 \<Longrightarrow> quiet s (fst (start_address_resolver A e s1))"
  by (simp add: start_address_resolver_def Let_def quiet_step quietly split: option.split prod.split)

lemma quiet_start_address_resolvers [quietly]:
  "quiet s s1 \<Longrightarrow> quiet s (fst (start_address_resolvers A s1))"
  by (simp add: start_address_resolvers_def quiet_andThen quiet_each quietly)

section \<open>Groups\<close>

text \<open>A new group is none of those that exist; no client reports a failure.\<close>

definition fresh_groups :: "avahi_lib \<Rightarrow> bool" where
  "fresh_groups A \<longleftrightarrow> (\<forall>cs g. group_new A cs = Some g \<longrightarrow> group_owner cs g = None)"

definition groups_held :: "avahi \<Rightarrow> bool" where
  "groups_held s \<longleftrightarrow>
     smap_ok (services s) \<and> groups_used_well (calls s) \<and>
     (\<forall>k v g. map_of (services s) k = Some (v, Some g) \<longrightarrow> group_owner (calls s) g \<noteq> None) \<and>
     (\<forall>k k' v v' g. map_of (services s) k = Some (v, Some g) \<longrightarrow> map_of (services s) k' = Some (v', Some g) \<longrightarrow>
        k = k')"

lemma quiet_held: "quiet s s' \<Longrightarrow> groups_held s \<Longrightarrow> groups_held s'"
  by (simp add: quiet_def groups_held_def)

text \<open>What the attempts at a name, and the commit after them, do to the calls.\<close>

lemma add_names_effect:
  assumes "add_names A g i rv v s = (s1, v1, rv1)" "group_owner (calls s) g \<noteq> None"
    "groups_used_well (calls s)" "1 \<le> i"
    "0 \<le> rv \<longrightarrow> (\<exists>j\<in>{1..100}. staged (calls s) g = Some (try_name v j, sv_type v))"
  shows "s1 = s\<lparr>calls := calls s1\<rparr> \<and> group_owner (calls s1) = group_owner (calls s) \<and>
    groups_used_well (calls s1) \<and> announced (calls s1) = announced (calls s) \<and>
    service_key v1 = service_key v \<and>
    (0 \<le> rv1 \<longrightarrow> (\<exists>j\<in>{1..100}. staged (calls s1) g = Some (try_name v j, sv_type v)))"
  using assms
proof (induction A g i rv v s arbitrary: s1 v1 rv1 rule: add_names.induct)
  case (1 A g i rv v s)
  show ?case
  proof (cases "i \<le> 100 \<and> rv = err_collision")
    case False
    with 1(2) have "s1 = s" "v1 = v" "rv1 = rv" by (auto simp: add_names.simps [of A g i rv v s])
    with 1 show ?thesis by simp
  next
    case True
    define n where "n = try_name v i"
    define r where "r = add_service A (calls s) g n v"
    define s' where "s' = call (Group_Add g n v r) s"
    define v' where "v' = (if 1 < i \<and> 0 \<le> r then set_modified_name n v else v)"
    have rest: "add_names A g (i + 1) r v' s' = (s1, v1, rv1)"
      using 1(2) unfolding add_names.simps [of A g i rv v s] if_P [OF True] Let_def
      by (simp only: n_def r_def s'_def v'_def)
    have v': "service_key v' = service_key v" "sv_type v' = sv_type v" "\<And>j. try_name v' j = try_name v j"
      by (simp_all add: v'_def set_modified_name_def try_name_def service_key_def)
    have c: "group_owner (calls s') = group_owner (calls s)" "groups_used_well (calls s')"
      "announced (calls s') = announced (calls s)" "s' = s\<lparr>calls := calls s'\<rparr>"
      using 1(3,4) by (simp_all add: s'_def call_def fun_eq_iff)
    have st: "0 \<le> r \<longrightarrow> (\<exists>j\<in>{1..100}. staged (calls s') g = Some (try_name v' j, sv_type v'))"
      using True 1(5) v' by (auto simp: s'_def call_def n_def)
    have "s1 = s'\<lparr>calls := calls s1\<rparr> \<and> group_owner (calls s1) = group_owner (calls s') \<and>
      groups_used_well (calls s1) \<and> announced (calls s1) = announced (calls s') \<and>
      service_key v1 = service_key v' \<and>
      (0 \<le> rv1 \<longrightarrow> (\<exists>j\<in>{1..100}. staged (calls s1) g = Some (try_name v' j, sv_type v')))"
    proof (rule 1(1) [OF True n_def r_def s'_def v'_def rest])
      show "group_owner (calls s') g \<noteq> None" using c 1(3) by simp
    qed (use c st in simp_all)
    moreover have "s'\<lparr>calls := calls s1\<rparr> = s\<lparr>calls := calls s1\<rparr>" by (simp add: s'_def call_def)
    ultimately show ?thesis using c(1,3) v' by metis
  qed
qed

lemma announce_effect:
  assumes "announce A v g s = (s1, v1, res)" "group_owner (calls s) g \<noteq> None" "groups_used_well (calls s)"
  shows "s1 = s\<lparr>calls := calls s1\<rparr>" "group_owner (calls s1) = group_owner (calls s)"
    "groups_used_well (calls s1)" "service_key v1 = service_key v"
    "g' \<noteq> g \<Longrightarrow> announced (calls s1) g' = announced (calls s) g'"
    "res = Inr x \<Longrightarrow>
       x = Some g \<and> (\<exists>j\<in>{1..100}. announced (calls s1) g = Some (try_name v j, sv_type v))"
proof -
  obtain s2 v2 rv where a: "add_names A g 1 err_collision v s = (s2, v2, rv)" by (cases rule: prod_cases3)
  have neg: "\<not> 0 \<le> err_collision" by (simp add: err_collision_def)
  have e: "s2 = s\<lparr>calls := calls s2\<rparr>" "group_owner (calls s2) = group_owner (calls s)"
    "groups_used_well (calls s2)" "announced (calls s2) = announced (calls s)"
    "service_key v2 = service_key v"
    "0 \<le> rv \<longrightarrow> (\<exists>j\<in>{1..100}. staged (calls s2) g = Some (try_name v j, sv_type v))"
    using add_names_effect [OF a assms(2,3)] neg by blast+
  have own: "group_owner (calls s2) g \<noteq> None" using e(2) assms(2) by simp
  define r where "r = commit A (calls s2) g"
  define s3 where "s3 = call (Group_Commit g r) s2"
  have c: "s3 = s\<lparr>calls := calls s3\<rparr>" "group_owner (calls s3) = group_owner (calls s)"
    "groups_used_well (calls s3)" "g' \<noteq> g \<Longrightarrow> announced (calls s3) g' = announced (calls s) g'"
    "0 \<le> r \<Longrightarrow> announced (calls s3) g = staged (calls s2) g"
  proof -
    have "s3 = s2\<lparr>calls := calls s3\<rparr>" by (simp add: s3_def call_def)
    moreover have "s2\<lparr>calls := calls s3\<rparr> = s\<lparr>calls := calls s3\<rparr>" by (subst e(1)) simp
    ultimately show "s3 = s\<lparr>calls := calls s3\<rparr>" by simp
  qed (use e(2-4) own in \<open>simp_all add: s3_def call_def fun_eq_iff\<close>)
  have res: "(s1, v1, res) =
    (if rv < 0
     then (s2, v2, Inl (FawkesException (''Adding Avahi/mDNS-SD service failed: '' @ strerror A rv)))
     else if r < 0 then (s3, v2, Inl (FawkesException ''Registering Avahi services failed''))
     else (s3, v2, Inr (Some g)))"
    using assms(1) unfolding announce_def a by (simp add: r_def s3_def Let_def split: if_splits)
  show "s1 = s\<lparr>calls := calls s1\<rparr>" "group_owner (calls s1) = group_owner (calls s)"
    "groups_used_well (calls s1)" "service_key v1 = service_key v"
    "g' \<noteq> g \<Longrightarrow> announced (calls s1) g' = announced (calls s) g'"
    using res e(1-5) c(1-4) by (simp_all split: if_splits)
  show "x = Some g \<and> (\<exists>j\<in>{1..100}. announced (calls s1) g = Some (try_name v j, sv_type v))" if "res = Inr x"
    using that res c(5) e(6) by (auto split: if_splits)
qed

text \<open>\<open>create_service\<close> announces with the group it has, or with a new one of which nobody knows.\<close>

lemma create_service_effect:
  assumes "create_service A v ex s = (s1, v1, res)" "client s \<noteq> None" "fresh_groups A"
    "groups_used_well (calls s)" "\<And>g. ex = Some g \<Longrightarrow> group_owner (calls s) g \<noteq> None"
  obtains l where "s1 = s\<lparr>calls := l\<rparr>" "groups_used_well l" "service_key v1 = service_key v"
    "\<And>g. group_owner (calls s) g \<noteq> None \<Longrightarrow> group_owner l g \<noteq> None"
    "\<And>g. group_owner (calls s) g \<noteq> None \<Longrightarrow> ex \<noteq> Some g \<Longrightarrow> announced l g = announced (calls s) g"
    "\<And>x. res = Inr x \<Longrightarrow> \<exists>g. x = Some g \<and> (ex = Some g \<or> ex = None \<and> group_owner (calls s) g = None) \<and>
       group_owner l g \<noteq> None \<and> (\<exists>j\<in>{1..100}. announced l g = Some (try_name v j, sv_type v))"
proof -
  obtain c where c: "client s = Some c" using assms(2) by blast
  show thesis
  proof (cases ex)
    case (Some g)
    have a: "announce A v g s = (s1, v1, res)" using assms(1) c Some by (simp add: create_service_def)
    have own: "group_owner (calls s) g \<noteq> None" using assms(5) Some by simp
    note e = announce_effect [OF a own assms(4)]
    show thesis
    proof (rule that [of "calls s1"])
      show "s1 = s\<lparr>calls := calls s1\<rparr>" by (rule e(1))
      show "\<exists>g'. x = Some g' \<and> (ex = Some g' \<or> ex = None \<and> group_owner (calls s) g' = None) \<and>
         group_owner (calls s1) g' \<noteq> None \<and>
         (\<exists>j\<in>{1..100}. announced (calls s1) g' = Some (try_name v j, sv_type v))" if "res = Inr x" for x
        using e(6) [OF that] e(2) own Some by auto
    qed (use e(2-5) Some in auto)
  next
    case None
    define s2 where "s2 = call (Group_New c (group_new A (calls s))) s"
    show thesis
    proof (cases "group_new A (calls s)")
      case N: None
      have "s1 = s2" "v1 = v" "\<exists>y. res = Inl y"
        using assms(1) c None N by (auto simp: create_service_def s2_def)
      then show thesis using that [of "calls s2"] assms(4) N by (auto simp: s2_def call_def)
    next
      case N: (Some g)
      have free: "group_owner (calls s) g = None" using assms(3) N by (simp add: fresh_groups_def)
      have a: "announce A v g s2 = (s1, v1, res)"
        using assms(1) c None N by (simp add: create_service_def s2_def)
      have own: "group_owner (calls s2) g \<noteq> None" and used: "groups_used_well (calls s2)"
        using N assms(4) by (simp_all add: s2_def call_def)
      note e = announce_effect [OF a own used]
      have keep: "group_owner (calls s2) h = group_owner (calls s) h"
        "announced (calls s2) h = announced (calls s) h" if "h \<noteq> g" for h
        using that N by (simp_all add: s2_def call_def)
      show thesis
      proof (rule that [of "calls s1"])
        have "s2\<lparr>calls := calls s1\<rparr> = s\<lparr>calls := calls s1\<rparr>" by (simp add: s2_def call_def)
        then show "s1 = s\<lparr>calls := calls s1\<rparr>" using e(1) by simp
        show "\<exists>g'. x = Some g' \<and> (ex = Some g' \<or> ex = None \<and> group_owner (calls s) g' = None) \<and>
           group_owner (calls s1) g' \<noteq> None \<and>
           (\<exists>j\<in>{1..100}. announced (calls s1) g' = Some (try_name v j, sv_type v))" if "res = Inr x" for x
          using e(6) [OF that] e(2) own None free by auto
        show "group_owner (calls s1) h \<noteq> None" if "group_owner (calls s) h \<noteq> None" for h
          using that e(2) keep own by (cases "h = g") auto
        show "announced (calls s1) h = announced (calls s) h" if "group_owner (calls s) h \<noteq> None" for h
        proof -
          have "h \<noteq> g" using that free by auto
          then show ?thesis using e(5) keep by simp
        qed
      qed (use e(3,4) in auto)
    qed
  qed
qed

text \<open>
  The services after a group was put under a key: it is the only new one, and it is not yet
  another service's.
\<close>

lemma held_put:
  assumes "groups_held s" "groups_used_well l"
    "\<And>g. group_owner (calls s) g \<noteq> None \<Longrightarrow> group_owner l g \<noteq> None"
    "group_owner l g \<noteq> None"
    "\<And>k' v'. map_of (services s) k' = Some (v', Some g) \<Longrightarrow> k' = k"
  shows "groups_held (s\<lparr>calls := l, services := smap_ins k (w, Some g) (services s)\<rparr>)"
proof -
  have ok: "smap_ok (services s)" and
    own: "\<And>k v g. map_of (services s) k = Some (v, Some g) \<Longrightarrow> group_owner (calls s) g \<noteq> None" and
    inj: "\<And>k k' v v' g. map_of (services s) k = Some (v, Some g) \<Longrightarrow>
      map_of (services s) k' = Some (v', Some g) \<Longrightarrow> k = k'"
    using assms(1) unfolding groups_held_def by blast+
  have m: "map_of (smap_ins k (w, Some g) (services s)) = (map_of (services s))(k \<mapsto> (w, Some g))"
    using ok by (rule map_of_smap_ins)
  show ?thesis unfolding groups_held_def
  proof (intro conjI allI impI)
    show "smap_ok (services (s\<lparr>calls := l, services := smap_ins k (w, Some g) (services s)\<rparr>))"
      using ok by (simp add: smap_ins_ok)
    show "groups_used_well (calls (s\<lparr>calls := l, services := smap_ins k (w, Some g) (services s)\<rparr>))"
      using assms(2) by simp
    fix k1 v1 g1
    assume a: "map_of (services (s\<lparr>calls := l, services := smap_ins k (w, Some g) (services s)\<rparr>)) k1 = Some (v1, Some g1)"
    show "group_owner (calls (s\<lparr>calls := l, services := smap_ins k (w, Some g) (services s)\<rparr>)) g1 \<noteq> None"
      using a assms(3) [OF own] assms(4) by (simp add: m split: if_splits)
    fix k2 v2
    assume b: "map_of (services (s\<lparr>calls := l, services := smap_ins k (w, Some g) (services s)\<rparr>)) k2 = Some (v2, Some g1)"
    show "k1 = k2" using a b inj assms(5) by (auto simp: m split: if_splits)
  qed
qed

lemma put_service_entry: "\<exists>w. put_service v g m = smap_ins (service_key v) (w, g) m"
  by (auto simp: put_service_def split: option.split)

text \<open>The names under which a service is announced: its own, or with one of the numbers after it.\<close>

definition name_variants :: "string \<Rightarrow> string set" where
  "name_variants n = insert n ((\<lambda>i. n @ '' '' @ to_string_int (int i)) ` {2..100})"

lemma try_name_variant: "j \<in> {1..100} \<Longrightarrow> try_name v j \<in> name_variants (sv_name v)"
  by (auto simp: try_name_def name_variants_def)

definition is_announced :: "avahi \<Rightarrow> string \<times> string \<Rightarrow> bool" where
  "is_announced s k \<longleftrightarrow>
     (\<exists>v g n. map_of (services s) k = Some (v, Some g) \<and> group_owner (calls s) g \<noteq> None \<and>
        announced (calls s) g = Some (n, fst k) \<and> n \<in> name_variants (snd k))"

lemma quiet_announced: "quiet s s' \<Longrightarrow> is_announced s' k = is_announced s k"
  by (simp add: quiet_def is_announced_def)

text \<open>What the rounds of the loop leave alone when they work on services.\<close>

definition kept :: "avahi \<Rightarrow> avahi \<Rightarrow> bool" where
  "kept s s' \<longleftrightarrow>
     client s' = client s \<and> need_recover s' = need_recover s \<and> do_reset_groups s' = do_reset_groups s \<and>
     client_state s' = client_state s \<and> simple_poll s' = simple_poll s"

lemma kept_refl [simp]: "kept s s"
  by (simp add: kept_def)

lemma kept_trans: "kept s s1 \<Longrightarrow> kept s1 s2 \<Longrightarrow> kept s s2"
  by (simp add: kept_def)

lemma create_pending_service_effect:
  assumes "groups_held s" "client s \<noteq> None" "fresh_groups A" "create_pending_service A v s = (s', None)"
  shows "groups_held s'" "kept s s'" "pending_services s' = tl (pending_services s)"
    "pending_remove_services s' = pending_remove_services s"
    "is_announced s' (service_key v)" "is_announced s k \<Longrightarrow> is_announced s' k"
    "k \<noteq> service_key v \<Longrightarrow> map_of (services s') k = map_of (services s) k"
proof -
  have h: "smap_ok (services s)" "groups_used_well (calls s)" using assms(1) by (simp_all add: groups_held_def)
  obtain s1 v1 res where c: "create_service A v None s = (s1, v1, res)" by (cases rule: prod_cases3)
  obtain x where x: "res = Inr x" using assms(4) c
    by (cases res) (auto simp: create_pending_service_def throwing_def ok_def)
  obtain l where l: "s1 = s\<lparr>calls := l\<rparr>" "groups_used_well l" "service_key v1 = service_key v"
    "\<And>g. group_owner (calls s) g \<noteq> None \<Longrightarrow> group_owner l g \<noteq> None"
    "\<And>g. group_owner (calls s) g \<noteq> None \<Longrightarrow> announced l g = announced (calls s) g"
    "\<exists>g. x = Some g \<and> group_owner (calls s) g = None \<and>
       group_owner l g \<noteq> None \<and> (\<exists>j\<in>{1..100}. announced l g = Some (try_name v j, sv_type v))"
    using create_service_effect [OF c assms(2,3) h(2)] x by auto
  then obtain g j where g: "x = Some g" "group_owner (calls s) g = None" "group_owner l g \<noteq> None"
    "j \<in> {1..100}" "announced l g = Some (try_name v j, sv_type v)" by blast
  define u where "u = (if subscript_first A then v else v1)"
  have ku: "service_key u = service_key v" using l(3) by (simp add: u_def)
  obtain w where w: "put_service u (Some g) (services s) = smap_ins (service_key v) (w, Some g) (services s)"
    using put_service_entry [of u "Some g" "services s"] ku by auto
  have s': "s' = s\<lparr>calls := l, services := smap_ins (service_key v) (w, Some g) (services s),
      pending_services := tl (pending_services s)\<rparr>"
    using assms(4) c x l(1) g(1) w by (simp add: create_pending_service_def ok_def u_def)
  have m: "map_of (services s') = (map_of (services s))(service_key v \<mapsto> (w, Some g))"
    using map_of_smap_ins [OF h(1)] by (simp add: s')
  have other: "\<And>k' v'. map_of (services s) k' = Some (v', Some g) \<Longrightarrow> k' = service_key v"
    using assms(1) g(2) unfolding groups_held_def by blast
  have "groups_held (s\<lparr>calls := l, services := smap_ins (service_key v) (w, Some g) (services s)\<rparr>)"
    using assms(1) l(2,4) g(3) other by (rule held_put)
  then show "groups_held s'" by (simp add: s' groups_held_def)
  show "kept s s'" by (simp add: s' kept_def)
  show "pending_services s' = tl (pending_services s)" "pending_remove_services s' = pending_remove_services s"
    by (simp_all add: s')
  have mine: "is_announced s' (service_key v)"
    unfolding is_announced_def m using g try_name_variant [of j v] by (simp add: s' service_key_def)
  show "is_announced s' (service_key v)" by (rule mine)
  show "k \<noteq> service_key v \<Longrightarrow> map_of (services s') k = map_of (services s) k" by (simp add: m)
  show "is_announced s' k" if "is_announced s k"
  proof (cases "k = service_key v")
    case False
    then show ?thesis using that l(4,5) unfolding is_announced_def m by (auto simp: s')
  qed (simp add: mine)
qed

lemma create_pending_services_effect:
  assumes "groups_held s" "client s \<noteq> None" "fresh_groups A" "each (create_pending_service A) vs s = (s', None)"
  shows "groups_held s' \<and> kept s s' \<and> pending_services s' = drop (length vs) (pending_services s) \<and>
    pending_remove_services s' = pending_remove_services s \<and>
    (\<forall>k \<in> service_key ` set vs. is_announced s' k) \<and> (\<forall>k. is_announced s k \<longrightarrow> is_announced s' k) \<and>
    (\<forall>k. k \<notin> service_key ` set vs \<longrightarrow> map_of (services s') k = map_of (services s) k)"
  using assms(1,2,4)
proof (induction vs arbitrary: s)
  case (Cons v vs)
  obtain s1 y where c: "create_pending_service A v s = (s1, y)" by fastforce
  with Cons.prems(3) have "y = None" and r: "each (create_pending_service A) vs s1 = (s', None)"
    by (auto simp: andThen_def split: option.splits)
  note e = create_pending_service_effect [OF Cons.prems(1,2) assms(3) c [unfolded \<open>y = None\<close>]]
  have "client s1 \<noteq> None" using e(2) Cons.prems(2) by (simp add: kept_def)
  from Cons.IH [OF e(1) this r] e(2-7) show ?case
    by (auto simp: drop_Suc simp del: split_paired_All intro: kept_trans)
qed (simp add: ok_def)

lemma smap_del_absent: "map_of m k = None \<Longrightarrow> smap_del k m = m"
  by (induction m) (auto simp: smap_del_def split: if_splits)

text \<open>A pending removal erases the group and the service, and no other.\<close>

lemma remove_pending_service_effect:
  assumes "groups_held s" and s'_def: "s' = remove_pending_service v s"
  shows "groups_held s'" "kept s s'" "pending_services s' = pending_services s"
    "pending_remove_services s' = tl (pending_remove_services s)"
    "map_of (services s') = (map_of (services s))(service_key v := None)"
    "k \<noteq> service_key v \<Longrightarrow> is_announced s k \<Longrightarrow> is_announced s' k"
proof -
  have h: "smap_ok (services s)" "groups_used_well (calls s)"
    and own: "\<And>k v g. map_of (services s) k = Some (v, Some g) \<Longrightarrow> group_owner (calls s) g \<noteq> None"
    and inj: "\<And>k k' v v' g. map_of (services s) k = Some (v, Some g) \<Longrightarrow>
      map_of (services s) k' = Some (v', Some g) \<Longrightarrow> k = k'"
    using assms(1) unfolding groups_held_def by blast+
  obtain gs where s': "services s' = smap_del (service_key v) (services s)" "calls s' = gs @ calls s"
    "gs = (case map_of (services s) (service_key v) of Some (_, Some g) \<Rightarrow> [Group_Free g, Group_Reset g] | _ \<Rightarrow> [])"
    "kept s s'" "pending_services s' = pending_services s"
    "pending_remove_services s' = tl (pending_remove_services s)"
  proof (cases "map_of (services s) (service_key v)")
    case None
    then have "smap_del (service_key v) (services s) = services s"
      by (rule smap_del_absent)
    then show thesis using that [of "[]"] None
      by (simp add: s'_def remove_pending_service_def kept_def)
  next
    case (Some a)
    then show thesis using that
      by (cases a; cases "snd a") (auto simp: s'_def remove_pending_service_def group_erase_def call_def kept_def)
  qed
  then show "kept s s'" "pending_services s' = pending_services s"
    "pending_remove_services s' = tl (pending_remove_services s)" by simp_all
  show m: "map_of (services s') = (map_of (services s))(service_key v := None)" by (simp add: s'(1))
  have gs: "gs = [] \<or> (\<exists>w' g'. map_of (services s) (service_key v) = Some (w', Some g') \<and>
      gs = [Group_Free g', Group_Reset g'])"
    using s'(3) by (simp split: option.splits prod.splits)
  have live: "group_owner (calls s') g = group_owner (calls s) g \<and> announced (calls s') g = announced (calls s) g"
    if "map_of (services s) k = Some (w, Some g)" "k \<noteq> service_key v" for k w g
    using gs
  proof (elim disjE exE conjE)
    fix w' g'
    assume a: "map_of (services s) (service_key v) = Some (w', Some g')" "gs = [Group_Free g', Group_Reset g']"
    then have "g' \<noteq> g" using that inj by blast
    then show ?thesis by (simp add: s'(2) a(2))
  qed (simp add: s'(2))
  have used: "groups_used_well (calls s')"
    using gs
  proof (elim disjE exE conjE)
    fix w' g'
    assume a: "map_of (services s) (service_key v) = Some (w', Some g')" "gs = [Group_Free g', Group_Reset g']"
    then show ?thesis using own [OF a(1)] h(2) by (simp add: s'(2) a(2))
  qed (simp add: s'(2) h(2))
  show "groups_held s'" unfolding groups_held_def
  proof (intro conjI allI impI)
    show "smap_ok (services s')" using h(1) by (simp add: s'(1) smap_del_ok)
    show "groups_used_well (calls s')" by (rule used)
    show "group_owner (calls s') g \<noteq> None" if "map_of (services s') k = Some (w, Some g)" for k w g
      using that live [of k w g] own [of k w g] by (simp add: m split: if_splits)
    show "k = k'" if "map_of (services s') k = Some (w, Some g)" "map_of (services s') k' = Some (w', Some g)"
      for k k' w w' g
      using that inj [of k w g k' w'] by (simp add: m split: if_splits)
  qed
  show "is_announced s' k" if other: "k \<noteq> service_key v" and ann: "is_announced s k"
  proof -
    obtain w g n where a: "map_of (services s) k = Some (w, Some g)" "group_owner (calls s) g \<noteq> None"
      "announced (calls s) g = Some (n, fst k)" "n \<in> name_variants (snd k)"
      using ann unfolding is_announced_def by blast
    have "map_of (services s') k = Some (w, Some g)" using a(1) other by (simp add: m)
    with a(2-4) live [OF a(1) other] show ?thesis unfolding is_announced_def by auto
  qed
qed

lemma remove_pending_services_effect:
  assumes "groups_held s"
  shows "groups_held (fold remove_pending_service vs s) \<and> kept s (fold remove_pending_service vs s) \<and>
    pending_services (fold remove_pending_service vs s) = pending_services s \<and>
    pending_remove_services (fold remove_pending_service vs s) = drop (length vs) (pending_remove_services s) \<and>
    (\<forall>k. map_of (services (fold remove_pending_service vs s)) k =
       (if k \<in> service_key ` set vs then None else map_of (services s) k)) \<and>
    (\<forall>k. k \<notin> service_key ` set vs \<longrightarrow> is_announced s k \<longrightarrow> is_announced (fold remove_pending_service vs s) k)"
  using assms
proof (induction vs arbitrary: s)
  case (Cons v vs)
  note e = remove_pending_service_effect [OF Cons.prems refl, where v = v]
  from Cons.IH [OF e(1)] e(2-6) show ?case
    by (auto simp: drop_Suc simp del: split_paired_All intro: kept_trans)
qed simp

lemma recreate_service_held:
  assumes "groups_held s" "client s \<noteq> None" "fresh_groups A" "snd (recreate_service A k s) = None"
  shows "groups_held (fst (recreate_service A k s))" "kept s (fst (recreate_service A k s))"
proof -
  have h: "smap_ok (services s)" "groups_used_well (calls s)" using assms(1) by (simp_all add: groups_held_def)
  have "groups_held (fst (recreate_service A k s)) \<and> kept s (fst (recreate_service A k s))"
  proof (cases "map_of (services s) k")
    case None
    then show ?thesis using assms(1) by (simp add: recreate_service_def)
  next
    case (Some e)
    obtain v ex where e: "e = (v, ex)" by (cases e)
    obtain s1 v1 res where c: "create_service A v ex s = (s1, v1, res)" by (cases rule: prod_cases3)
    obtain x where x: "res = Inr x" using assms(4) c Some e by (cases res) (auto simp: recreate_service_def)
    have own: "group_owner (calls s) g \<noteq> None" if "ex = Some g" for g
      using that Some e assms(1) unfolding groups_held_def by blast
    obtain l where l: "s1 = s\<lparr>calls := l\<rparr>" "groups_used_well l"
      "\<And>g. group_owner (calls s) g \<noteq> None \<Longrightarrow> group_owner l g \<noteq> None"
      "\<exists>g. x = Some g \<and> (ex = Some g \<or> ex = None \<and> group_owner (calls s) g = None) \<and> group_owner l g \<noteq> None"
    proof (rule create_service_effect [OF c assms(2,3) h(2) own])
      fix l
      assume a: "s1 = s\<lparr>calls := l\<rparr>" "groups_used_well l"
        "\<And>g. group_owner (calls s) g \<noteq> None \<Longrightarrow> group_owner l g \<noteq> None"
        "\<And>x. res = Inr x \<Longrightarrow> \<exists>g. x = Some g \<and> (ex = Some g \<or> ex = None \<and> group_owner (calls s) g = None) \<and>
           group_owner l g \<noteq> None \<and> (\<exists>j\<in>{1..100}. announced l g = Some (try_name v j, sv_type v))"
      show thesis using that [OF a(1-3)] a(4) [OF x] by blast
    qed
    then obtain g where g: "x = Some g" "ex = Some g \<or> ex = None \<and> group_owner (calls s) g = None"
      "group_owner l g \<noteq> None" by blast
    have other: "\<And>k' v'. map_of (services s) k' = Some (v', Some g) \<Longrightarrow> k' = k"
      using assms(1) g(2) Some e unfolding groups_held_def by blast
    have "groups_held (s\<lparr>calls := l, services := smap_ins k (v1, Some g) (services s)\<rparr>)"
      using assms(1) l(2,3) g(3) other by (rule held_put)
    moreover have "fst (recreate_service A k s) = s\<lparr>calls := l, services := smap_ins k (v1, Some g) (services s)\<rparr>"
      using c x Some e l(1) g(1) by (simp add: recreate_service_def)
    ultimately show ?thesis by (simp add: kept_def)
  qed
  then show "groups_held (fst (recreate_service A k s))" "kept s (fst (recreate_service A k s))" by simp_all
qed

lemma recreate_services_held:
  assumes "groups_held s" "client s \<noteq> None" "fresh_groups A" "snd (recreate_services A s) = None"
  shows "groups_held (fst (recreate_services A s)) \<and> kept s (fst (recreate_services A s))"
  unfolding recreate_services_def
proof (rule each_inv [where P = "\<lambda>s1. groups_held s1 \<and> kept s s1"])
  show "snd (each (recreate_service A) (map fst (services s)) s) = None"
    using assms(4) by (simp add: recreate_services_def)
  show "groups_held s \<and> kept s s" using assms(1) by simp
  fix k s1
  assume a: "groups_held s1 \<and> kept s s1" "snd (recreate_service A k s1) = None"
  then have "client s1 \<noteq> None" using assms(2) by (simp add: kept_def)
  with recreate_service_held [OF _ this assms(3) a(2)] a(1)
  show "groups_held (fst (recreate_service A k s1)) \<and> kept s (fst (recreate_service A k s1))"
    by (blast intro: kept_trans)
qed

lemma reset_groups_held:
  assumes "groups_held s"
  shows "groups_held (reset_groups s) \<and> kept s (reset_groups s)"
proof -
  define P where "P s1 \<longleftrightarrow> services s1 = services s \<and> group_owner (calls s1) = group_owner (calls s) \<and>
    groups_used_well (calls s1) \<and> kept s s1" for s1
  have h: "smap_ok (services s)" "groups_used_well (calls s)"
    and own: "\<And>k v g. map_of (services s) k = Some (v, Some g) \<Longrightarrow> group_owner (calls s) g \<noteq> None"
    using assms unfolding groups_held_def by blast+
  have "P (reset_groups s)" unfolding reset_groups_def
  proof (rule fold_inv)
    show "P s" using h by (simp add: P_def)
    fix e s1
    assume e: "e \<in> set (services s)" and p: "P s1"
    obtain k v g where e': "e = (k, v, g)" by (cases e)
    have "map_of (services s) k = Some (v, g)" using e h(1) by (simp add: e' smap_ok_lookup)
    then have "group_owner (calls s1) g' \<noteq> None" if "g = Some g'" for g'
      using that own p by (simp add: P_def)
    then show "P (group_reset (snd (snd e)) s1)"
      using p by (auto simp: P_def e' group_reset_def call_def kept_def split: option.split)
  qed
  then show ?thesis using assms by (simp add: P_def groups_held_def)
qed

section \<open>No use of what was freed\<close>

definition no_failures :: "avahi_lib \<Rightarrow> bool" where
  "no_failures A \<longleftrightarrow> (\<forall>cs. S_Failure \<notin> set (during_client_new A cs))"

fun no_failure_op :: "avahi_op \<Rightarrow> bool" where
  "no_failure_op (Client_State st) = (st \<noteq> S_Failure)"
| "no_failure_op (Group_State g st) = (st \<noteq> G_Failure)"
| "no_failure_op _ = True"

lemma client_callback_pending [simp]:
  "pending_services (client_callback st s) = pending_services s"
  "pending_remove_services (client_callback st s) = pending_remove_services s"
  by (simp_all add: client_callback_def init_done_def recover_def wake_poller_def call_def Let_def
      split: client_state.split option.split)

text \<open>What holds after every part of making a connection holds at its end.\<close>

lemma connect_invariant:
  assumes "P s" "\<And>t c. P t \<Longrightarrow> \<not> group_call c \<Longrightarrow> P (call c t)" "\<And>t c. P t \<Longrightarrow> P (t\<lparr>client := c\<rparr>)"
    "\<And>t p. P t \<Longrightarrow> P (t\<lparr>simple_poll := p\<rparr>)"
    "\<And>t st cs. P t \<Longrightarrow> st \<in> set (during_client_new A cs) \<Longrightarrow> P (client_callback st t)"
  shows "P (connect A s)"
proof (cases "simple_poll s")
  case None
  define q where "q = poll_new A (calls s)"
  define s1 where "s1 = (call (Poll_New q) s)\<lparr>simple_poll := q\<rparr>"
  define s2 where "s2 = fold client_callback (during_client_new A (calls s1)) s1"
  have s1: "P s1" by (simp add: s1_def assms(1,2,4))
  have s2: "P s2" unfolding s2_def
    by (rule fold_inv [where P = P]) (use s1 assms(5) in blast)+
  have "connect A s = (case q of None \<Rightarrow> s1 | Some p \<Rightarrow>
      let s3 = (call (Client_New (client_new A (calls s1))) s2)\<lparr>client := client_new A (calls s1)\<rparr> in
      if client_new A (calls s1) = None then call (Poll_Free p) s3 else s3)"
    unfolding connect_def None option.case Let_def q_def s1_def s2_def by (rule refl)
  then show ?thesis using s1 s2 assms(2,3) by (simp add: Let_def split: option.split)
qed (simp add: connect_def assms(1))

lemma connect_held:
  assumes "groups_held s" "\<not> need_recover s" "no_failures A"
  shows "groups_held (connect A s) \<and> \<not> need_recover (connect A s) \<and>
    services (connect A s) = services s \<and> pending_services (connect A s) = pending_services s \<and>
    pending_remove_services (connect A s) = pending_remove_services s \<and>
    (\<forall>k. is_announced s k \<longrightarrow> is_announced (connect A s) k)"
proof (cases "simple_poll s")
  case (Some p)
  then show ?thesis using assms by (simp add: connect_def)
next
  case None
  define P where "P t \<longleftrightarrow> services t = services s \<and> need_recover t = need_recover s \<and>
      group_owner (calls t) = group_owner (calls s) \<and> groups_used_well (calls t) = groups_used_well (calls s) \<and>
      announced (calls t) = announced (calls s) \<and> pending_services t = pending_services s \<and>
      pending_remove_services t = pending_remove_services s" for t :: avahi
  have P_call: "P t \<Longrightarrow> \<not> group_call c \<Longrightarrow> P (call c t)" for c t
    by (simp add: P_def call_def quiet_call)
  have P_upd: "P (t\<lparr>client := c\<rparr>) = P t" "P (t\<lparr>simple_poll := q\<rparr>) = P t" for t c q
    by (simp_all add: P_def)
  have P_cb: "P (client_callback st t)" if "P t" "st \<noteq> S_Failure" for st t
  proof -
    have "quiet t (client_callback st t)" using that(2) by (simp add: quietly)
    with that(1) show ?thesis by (simp add: P_def quiet_def)
  qed
  have "P (connect A s)"
    by (rule connect_invariant [where P = P])
      (use assms(3) in \<open>auto simp: P_upd P_def [of s] no_failures_def intro: P_call P_cb\<close>)
  then show ?thesis using assms(1,2) by (simp add: P_def groups_held_def is_announced_def)
qed

text \<open>The parts of a round that are about browsers and resolvers keep all that services need.\<close>

definition aside :: "avahi \<Rightarrow> avahi \<Rightarrow> bool" where
  "aside s s' \<longleftrightarrow> quiet s s' \<and> kept s s' \<and> pending_services s' = pending_services s \<and>
     pending_remove_services s' = pending_remove_services s"

lemma aside_refl [simp]: "aside s s"
  by (simp add: aside_def)

lemma aside_call: "aside s s1 \<Longrightarrow> \<not> group_call c \<Longrightarrow> aside s (call c s1)"
  by (simp add: aside_def quiet_step) (simp add: kept_def call_def)

lemma aside_updates:
  assumes "aside s s1"
  shows "aside s (s1\<lparr>handlers := d\<rparr>)" "aside s (s1\<lparr>browsers := e\<rparr>)" "aside s (s1\<lparr>pending_browsers := f\<rparr>)"
    "aside s (s1\<lparr>pending_browser_removes := f\<rparr>)"
    "aside s (s1\<lparr>running_hostname_resolvers := g\<rparr>)" "aside s (s1\<lparr>running_address_resolvers := g\<rparr>)"
    "aside s (s1\<lparr>pending_hostname_resolves := h\<rparr>)" "aside s (s1\<lparr>pending_address_resolves := i\<rparr>)"
  using assms by (simp_all add: aside_def quiet_def kept_def)

lemma aside_andThen:
  "aside s (fst r) \<Longrightarrow> (\<And>s1. aside s s1 \<Longrightarrow> aside s (fst (f s1))) \<Longrightarrow> aside s (fst (andThen r f))"
  by (rule andThen_inv)

lemma aside_each:
  assumes "\<And>x s1. aside s s1 \<Longrightarrow> aside s (fst (f x s1))" and "aside s s1"
  shows "aside s (fst (each f xs s1))"
  using assms(2) by (induction xs arbitrary: s1) (simp_all add: aside_andThen assms(1))

lemma aside_fold: "aside s s1 \<Longrightarrow> (\<And>x s1. aside s s1 \<Longrightarrow> aside s (f x s1)) \<Longrightarrow> aside s (fold f xs s1)"
  by (rule fold_inv)

lemma aside_create_browser: "aside s s1 \<Longrightarrow> aside s (fst (create_browser A t s1))"
  by (simp add: create_browser_def Let_def aside_call aside_updates split: option.split)

lemma aside_requests:
  assumes "aside s s1"
  shows "aside s (remove_pending_browsers s1)" "aside s (fst (create_pending_browsers A s1))"
    "aside s (fst (start_hostname_resolvers A s1))" "aside s (fst (start_address_resolvers A s1))"
proof -
  show "aside s (remove_pending_browsers s1)" unfolding remove_pending_browsers_def
    by (rule aside_fold [OF assms]) (simp add: remove_pending_browser_def Let_def aside_updates aside_call)
  show "aside s (fst (create_pending_browsers A s1))" unfolding create_pending_browsers_def
    by (rule aside_each [OF _ assms])
      (simp add: create_pending_browser_def aside_andThen aside_create_browser aside_updates)
  have "aside s s1 \<Longrightarrow> aside s (fst (start_hostname_resolver A e s1))" for e s1
    by (simp add: start_hostname_resolver_def Let_def aside_call aside_updates split: option.split prod.split)
  then show "aside s (fst (start_hostname_resolvers A s1))" using assms
    by (simp add: start_hostname_resolvers_def aside_andThen aside_each aside_updates)
  have "aside s s1 \<Longrightarrow> aside s (fst (start_address_resolver A e s1))" for e s1
    by (simp add: start_address_resolver_def Let_def aside_call aside_updates split: option.split prod.split)
  then show "aside s (fst (start_address_resolvers A s1))" using assms
    by (simp add: start_address_resolvers_def aside_andThen aside_each aside_updates)
qed

text \<open>What a round does with the services when a client is connected and running.\<close>

lemma work_on_requests_effect:
  assumes "groups_held s" "client s \<noteq> None" "fresh_groups A" "work_on_requests A s = (s', None)"
  shows "groups_held s' \<and> kept s s' \<and>
    pending_services s' = [] \<and> pending_remove_services s' = [] \<and>
    (\<forall>k \<in> service_key ` set (pending_services s). is_announced s' k) \<and>
    (\<forall>k. is_announced s k \<and> k \<notin> service_key ` set (pending_remove_services s) \<longrightarrow> is_announced s' k) \<and>
    (\<forall>k. k \<in> service_key ` set (pending_remove_services s) \<and> k \<notin> service_key ` set (pending_services s) \<longrightarrow>
       map_of (services s') k = None)"
proof -
  define s1 where "s1 = remove_pending_services s"
  define s2 where "s2 = remove_pending_browsers s1"
  have r: "groups_held s1 \<and> kept s s1 \<and> pending_services s1 = pending_services s \<and>
    pending_remove_services s1 = [] \<and>
    (\<forall>k. map_of (services s1) k =
       (if k \<in> service_key ` set (pending_remove_services s) then None else map_of (services s) k)) \<and>
    (\<forall>k. k \<notin> service_key ` set (pending_remove_services s) \<longrightarrow> is_announced s k \<longrightarrow> is_announced s1 k)"
    using remove_pending_services_effect [OF assms(1), of "pending_remove_services s"]
    by (simp add: s1_def remove_pending_services_def)
  have q: "aside s1 s2" by (simp add: s2_def aside_requests)
  have s2: "groups_held s2" "client s2 \<noteq> None" "pending_services s2 = pending_services s"
    "services s2 = services s1" "\<And>k. is_announced s2 k = is_announced s1 k"
    "pending_remove_services s2 = []" "kept s s2"
  proof -
    have qu: "quiet s1 s2" using q by (simp add: aside_def)
    show "groups_held s2" using qu r quiet_held by blast
    show "is_announced s2 k = is_announced s1 k" for k using qu by (rule quiet_announced)
    show "services s2 = services s1" using qu by (simp add: quiet_def)
    show "pending_services s2 = pending_services s" "pending_remove_services s2 = []"
      using q r by (simp_all add: aside_def)
    show "kept s s2" using q r kept_trans unfolding aside_def by blast
    then show "client s2 \<noteq> None" using assms(2) by (simp add: kept_def)
  qed
  obtain s3 x where c: "create_pending_services A s2 = (s3, x)" by fastforce
  define rest where "rest = (\<lambda>s1. andThen (create_pending_browsers A s1)
       (\<lambda>s2. andThen (start_hostname_resolvers A s2) (start_address_resolvers A)))"
  have w: "andThen (s3, x) rest = (s', None)"
    using assms(4) c by (simp add: work_on_requests_def rest_def s1_def [symmetric] s2_def [symmetric])
  then have x: "x = None" by (auto simp: andThen_def split: option.splits)
  then have s': "s' = fst (rest s3)" using w by (simp add: andThen_def)
  have n: "each (create_pending_service A) (pending_services s2) s2 = (s3, None)"
    using c x by (simp add: create_pending_services_def)
  have e: "groups_held s3 \<and> kept s2 s3 \<and> pending_services s3 = [] \<and> pending_remove_services s3 = [] \<and>
    (\<forall>k \<in> service_key ` set (pending_services s). is_announced s3 k) \<and>
    (\<forall>k. is_announced s2 k \<longrightarrow> is_announced s3 k) \<and>
    (\<forall>k. k \<notin> service_key ` set (pending_services s) \<longrightarrow> map_of (services s3) k = map_of (services s2) k)"
    using create_pending_services_effect [OF s2(1,2) assms(3) n] s2(3,6) by simp
  have a: "aside s3 s'" unfolding s' rest_def
    by (intro aside_andThen aside_requests) simp_all
  have f1: "kept s s'" using s2(7) e a by (meson aside_def kept_trans)
  have f2: "groups_held s'" using a e quiet_held unfolding aside_def by blast
  have f3: "is_announced s' k = is_announced s3 k" for k
    using a unfolding aside_def by (intro quiet_announced) simp
  have f4: "services s' = services s3" using a by (simp add: aside_def quiet_def)
  have f5: "pending_services s' = []" "pending_remove_services s' = []" using a e by (simp_all add: aside_def)
  have f6: "is_announced s3 k" if "is_announced s k" "k \<notin> service_key ` set (pending_remove_services s)" for k
  proof -
    have "is_announced s1 k" using that r by (simp del: split_paired_All)
    then have "is_announced s2 k" using s2(5) by simp
    then show ?thesis using e by (simp del: split_paired_All)
  qed
  have f7: "map_of (services s3) k = None"
    if "k \<in> service_key ` set (pending_remove_services s)" "k \<notin> service_key ` set (pending_services s)" for k
  proof -
    have "map_of (services s3) k = map_of (services s1) k"
      using e that(2) s2(4) by (simp del: split_paired_All)
    also have "\<dots> = None" using r that(1) by presburger
    finally show ?thesis .
  qed
  show ?thesis
  proof (intro conjI allI impI)
    show "\<forall>k \<in> service_key ` set (pending_services s). is_announced s' k" using e f3 by simp
  qed (use f1 f2 f3 f4 f5 f6 f7 in \<open>simp_all del: split_paired_All\<close>)
qed

lemma loop_effect:
  assumes "groups_held s" "\<not> need_recover s" "fresh_groups A" "no_failures A" "avahi_loop A s = (s', None)"
  shows "groups_held s' \<and> \<not> need_recover s' \<and>
    (client s' \<noteq> None \<and> client_state s' = S_Running \<and> \<not> do_reset_groups s' \<longrightarrow>
      pending_services s' = [] \<and> pending_remove_services s' = [] \<and>
      (\<forall>k \<in> service_key ` set (pending_services s). is_announced s' k) \<and>
      (\<forall>k. is_announced s k \<and> k \<notin> service_key ` set (pending_remove_services s) \<longrightarrow> is_announced s' k) \<and>
      (\<forall>k. k \<in> service_key ` set (pending_remove_services s) \<and> k \<notin> service_key ` set (pending_services s) \<longrightarrow>
         map_of (services s') k = None))"
proof -
  define s1 where "s1 = connect A s"
  have c: "groups_held s1 \<and> \<not> need_recover s1 \<and> services s1 = services s \<and>
    pending_services s1 = pending_services s \<and> pending_remove_services s1 = pending_remove_services s \<and>
    (\<forall>k. is_announced s k \<longrightarrow> is_announced s1 k)"
    unfolding s1_def by (rule connect_held [OF assms(1,2,4)])
  show ?thesis
  proof (cases "client s1 = None")
    case True
    then have "s' = s1" using assms(2,5) by (simp add: avahi_loop_def s1_def [symmetric] Let_def ok_def)
    with c True show ?thesis by simp
  next
    case False
    obtain s2 x where a: "(if do_reset_groups s1 then recreate_services A (reset_groups s1) else ok s1) = (s2, x)"
      by fastforce
    have "avahi_loop A s = with_client A s1"
      unfolding avahi_loop_def Let_def using False assms(2) by (simp add: s1_def [symmetric] del: not_None_eq)
    then have "with_client A s1 = (s', None)" using assms(5) by simp
    then have w: "andThen (s2, x) (\<lambda>s1. andThen
          (if need_recover s1
           then andThen (recreate_services A (erase_browsers (erase_groups s1))) (recreate_browsers A)
           else ok s1)
       (\<lambda>s2. andThen (if client_state s2 = S_Running then work_on_requests A s2 else ok s2)
       (\<lambda>s3. poll_iterate (s3\<lparr>need_recover := False\<rparr>)))) = (s', None)"
      unfolding with_client_def a .
    then have x: "x = None" by (auto simp: andThen_def split: option.splits)
    have s2: "groups_held s2 \<and> kept s1 s2 \<and> (\<not> do_reset_groups s1 \<longrightarrow> s2 = s1)"
    proof (cases "do_reset_groups s1")
      case True
      have g: "groups_held (reset_groups s1)" "kept s1 (reset_groups s1)" using reset_groups_held c by blast+
      have "client (reset_groups s1) \<noteq> None" using g(2) False by (simp add: kept_def)
      from recreate_services_held [OF g(1) this assms(3)] a x True g(2) show ?thesis
        by (auto intro: kept_trans)
    next
      case F: False
      with a c show ?thesis by (simp add: ok_def)
    qed
    then have n: "\<not> need_recover s2" "client s2 \<noteq> None" using c False by (simp_all add: kept_def)
    obtain s3 y where b: "(if client_state s2 = S_Running then work_on_requests A s2 else ok s2) = (s3, y)"
      by fastforce
    have w3: "andThen (s3, y) (\<lambda>s3. poll_iterate (s3\<lparr>need_recover := False\<rparr>)) = (s', None)"
      using w x n(1) b by (simp add: andThen_def ok_def)
    then have y: "y = None" by (auto simp: andThen_def split: option.splits)
    have s3: "groups_held s3 \<and> kept s2 s3 \<and> (client_state s2 = S_Running \<longrightarrow>
      pending_services s3 = [] \<and> pending_remove_services s3 = [] \<and>
      (\<forall>k \<in> service_key ` set (pending_services s2). is_announced s3 k) \<and>
      (\<forall>k. is_announced s2 k \<and> k \<notin> service_key ` set (pending_remove_services s2) \<longrightarrow> is_announced s3 k) \<and>
      (\<forall>k. k \<in> service_key ` set (pending_remove_services s2) \<and> k \<notin> service_key ` set (pending_services s2) \<longrightarrow>
         map_of (services s3) k = None))"
    proof (cases "client_state s2 = S_Running")
      case True
      have "groups_held s2" using s2 by simp
      from work_on_requests_effect [OF this n(2) assms(3)] b y True show ?thesis by simp
    next
      case F: False
      with b s2 show ?thesis by (simp add: ok_def)
    qed
    obtain p where s': "s' = call (Poll_Iterate p) (s3\<lparr>need_recover := False\<rparr>)"
      using w3 y by (auto simp: andThen_def poll_iterate_def throwing_def ok_def split: option.splits)
    have k: "kept s1 s3" using s2 s3 kept_trans by blast
    then have nr: "\<not> need_recover s3" using c by (simp add: kept_def)
    have qu: "quiet s3 s'" using nr by (simp add: s' quiet_def call_def quiet_call)
    have f: "pending_services s' = pending_services s3" "pending_remove_services s' = pending_remove_services s3"
      "do_reset_groups s' = do_reset_groups s1" "client_state s' = client_state s2"
      "services s' = services s3" "\<not> need_recover s'"
      using k s3 by (simp_all add: s' call_def kept_def)
    have held: "groups_held s'" using s3 qu quiet_held by blast
    have an: "is_announced s' k = is_announced s3 k" for k using qu by (rule quiet_announced)
    show ?thesis
    proof (intro conjI impI)
      assume "client s' \<noteq> None \<and> client_state s' = S_Running \<and> \<not> do_reset_groups s'"
      then have run: "client_state s2 = S_Running" "s2 = s1" using f s2 by simp_all
      note e = s3 [THEN conjunct2, THEN conjunct2, THEN mp, OF run(1)]
      show "pending_services s' = []" "pending_remove_services s' = []" using e f by simp_all
      show "\<forall>k \<in> service_key ` set (pending_services s). is_announced s' k" using e c run(2) an by simp
      show "\<forall>k. is_announced s k \<and> k \<notin> service_key ` set (pending_remove_services s) \<longrightarrow> is_announced s' k"
        using e c run(2) an by simp
      show "\<forall>k. k \<in> service_key ` set (pending_remove_services s) \<and> k \<notin> service_key ` set (pending_services s) \<longrightarrow>
         map_of (services s') k = None"
        using e c run(2) f(5) by simp
    qed (use held f in simp_all)
  qed
qed

lemma rename_quiet: "quiet s t \<Longrightarrow> quiet s (rename_entry A g e t)"
  by (simp add: rename_entry_def quiet_def split: prod.split)

lemma quiet_entry_group_callback [quietly]:
  assumes "quiet s s1" "st \<noteq> G_Failure"
  shows "quiet s (entry_group_callback A g st s1)"
proof -
  have "quiet s (name_collision A g s1)" unfolding name_collision_def
    by (rule quiet_fold [OF assms(1)]) (rule rename_quiet)
  then show ?thesis using assms by (simp add: entry_group_callback_def split: group_state.split)
qed

lemma step_quiet: "op \<noteq> Loop \<Longrightarrow> no_failure_op op \<Longrightarrow> quiet s (fst (perform A op s))"
  by (cases op) (simp_all add: quietly)

lemma step_held:
  assumes "groups_held s" "\<not> need_recover s" "fresh_groups A" "no_failures A" "no_failure_op op"
    "perform A op s = (s', x)" "x = None \<or> client_request op"
  shows "groups_held s' \<and> \<not> need_recover s'"
proof (cases "op = Loop")
  case True
  then show ?thesis using loop_effect [OF assms(1-4)] assms(6,7) by simp
next
  case False
  have "quiet s s'" using step_quiet [OF False assms(5), of s A] assms(6) by simp
  then show ?thesis using assms(1,2) quiet_held by (auto simp: quiet_def)
qed

lemma reach_held:
  assumes "avahi_reach A no_failure_op s" "fresh_groups A" "no_failures A"
  shows "groups_held s \<and> \<not> need_recover s"
  using assms(1)
proof induction
  case (start st)
  show ?case by (simp add: avahi_new_def groups_held_def)
next
  case (step s op s' x)
  then show ?case using step_held assms(2,3) by blast
qed

section \<open>What is watched is browsed\<close>

text \<open>The part of the thread that browses, and operations that do not touch it.\<close>

definition same_browsing :: "avahi \<Rightarrow> avahi \<Rightarrow> bool" where
  "same_browsing s s' \<longleftrightarrow>
     handlers s' = handlers s \<and> browsers s' = browsers s \<and> pending_browsers s' = pending_browsers s \<and>
     pending_browser_removes s' = pending_browser_removes s \<and> client s' = client s \<and>
     need_recover s' = need_recover s \<and> client_state s' = client_state s"

named_theorems browsing

lemma same_browsing_refl [simp]: "same_browsing s s"
  by (simp add: same_browsing_def)

lemma same_browsing_updates [browsing]:
  assumes "same_browsing s s1"
  shows "same_browsing s (call c s1)" "same_browsing s (s1\<lparr>services := a\<rparr>)"
    "same_browsing s (s1\<lparr>pending_services := b\<rparr>)" "same_browsing s (s1\<lparr>pending_remove_services := b\<rparr>)"
    "same_browsing s (s1\<lparr>running_hostname_resolvers := d\<rparr>)" "same_browsing s (s1\<lparr>running_address_resolvers := d\<rparr>)"
    "same_browsing s (s1\<lparr>pending_hostname_resolves := e\<rparr>)" "same_browsing s (s1\<lparr>pending_address_resolves := f\<rparr>)"
    "same_browsing s (s1\<lparr>do_reset_groups := g\<rparr>)" "same_browsing s (s1\<lparr>simple_poll := h\<rparr>)"
  using assms by (simp_all add: same_browsing_def call_def)

lemma same_browsing_andThen:
  "same_browsing s (fst r) \<Longrightarrow> (\<And>s1. same_browsing s s1 \<Longrightarrow> same_browsing s (fst (f s1))) \<Longrightarrow>
   same_browsing s (fst (andThen r f))"
  by (rule andThen_inv)

lemma same_browsing_each:
  assumes "\<And>x s1. same_browsing s s1 \<Longrightarrow> same_browsing s (fst (f x s1))" and "same_browsing s s1"
  shows "same_browsing s (fst (each f xs s1))"
  using assms(2) by (induction xs arbitrary: s1) (simp_all add: same_browsing_andThen assms(1))

lemma same_browsing_fold:
  "same_browsing s s1 \<Longrightarrow> (\<And>x s1. same_browsing s s1 \<Longrightarrow> same_browsing s (f x s1)) \<Longrightarrow>
   same_browsing s (fold f xs s1)"
  by (rule fold_inv)

lemma same_browsing_wake [browsing]: "same_browsing s s1 \<Longrightarrow> same_browsing s (wake_poller s1)"
  by (simp add: wake_poller_def browsing split: option.split)

lemma same_browsing_add_names [browsing]:
  "same_browsing s0 s \<Longrightarrow> same_browsing s0 (fst (add_names A g i rv v s))"
proof (induction A g i rv v s rule: add_names.induct)
  case (1 A g i rv v s)
  then show ?case by (simp add: add_names.simps [of A g i rv v s] Let_def browsing)
qed

lemma same_browsing_create_service [browsing]:
  assumes "same_browsing s0 s"
  shows "same_browsing s0 (fst (create_service A v ex s))"
proof -
  have "same_browsing s0 (fst (announce A v g s1))" if "same_browsing s0 s1" for g s1
  proof -
    obtain s2 v2 rv where a: "add_names A g 1 err_collision v s1 = (s2, v2, rv)" by (cases rule: prod_cases3)
    have "same_browsing s0 (fst (add_names A g 1 err_collision v s1))" using that by (rule same_browsing_add_names)
    then have "same_browsing s0 s2" unfolding a by simp
    then show ?thesis unfolding announce_def a by (simp add: Let_def browsing)
  qed
  then show ?thesis using assms by (simp add: create_service_def Let_def browsing split: option.split)
qed

lemma same_browsing_services [browsing]:
  assumes "same_browsing s s1"
  shows "same_browsing s (fst (recreate_services A s1))" "same_browsing s (fst (create_pending_services A s1))"
    "same_browsing s (remove_pending_services s1)" "same_browsing s (erase_groups s1)"
    "same_browsing s (reset_groups s1)" "same_browsing s (name_collision A g s1)"
proof -
  have c: "same_browsing s t'" if "same_browsing s t" "create_service A v ex t = (t', r)" for t t' v ex r
    using same_browsing_create_service [OF that(1), of A v ex] that(2) by simp
  have recreate_services: "same_browsing s (fst (recreate_service A k t))" if "same_browsing s t" for k t
    using that c [OF that] by (simp add: recreate_service_def browsing split: option.split prod.split sum.split)
  show "same_browsing s (fst (recreate_services A s1))" unfolding recreate_services_def
    by (rule same_browsing_each [OF _ assms]) (rule recreate_services)
  have create_pending_services: "same_browsing s (fst (create_pending_service A v t))" if "same_browsing s t" for v t
    using that c [OF that] by (simp add: create_pending_service_def browsing split: prod.split sum.split)
  show "same_browsing s (fst (create_pending_services A s1))" unfolding create_pending_services_def
    by (rule same_browsing_each [OF _ assms]) (rule create_pending_services)
  have e: "same_browsing s t \<Longrightarrow> same_browsing s (group_erase g t)" for g t
    by (simp add: group_erase_def browsing split: option.split)
  then have "same_browsing s t \<Longrightarrow> same_browsing s (remove_pending_service v t)" for v t
    by (simp add: remove_pending_service_def Let_def browsing split: option.split prod.split)
  note f = this
  show "same_browsing s (remove_pending_services s1)" unfolding remove_pending_services_def
    by (rule same_browsing_fold [OF assms f])
  show "same_browsing s (erase_groups s1)" unfolding erase_groups_def Let_def
    by (rule same_browsing_updates(2)) (rule same_browsing_fold [OF assms e])
  have "same_browsing s t \<Longrightarrow> same_browsing s (group_reset g t)" for g t
    by (simp add: group_reset_def browsing split: option.split)
  note r = this
  show "same_browsing s (reset_groups s1)" unfolding reset_groups_def
    by (rule same_browsing_fold [OF assms r])
  have "same_browsing s t \<Longrightarrow> same_browsing s (rename_entry A g e t)" for e t
    by (simp add: rename_entry_def same_browsing_def split: prod.split)
  note n = this
  show "same_browsing s (name_collision A g s1)" unfolding name_collision_def
    by (rule same_browsing_fold [OF assms n])
qed

lemma same_browsing_resolvers [browsing]:
  assumes "same_browsing s s1"
  shows "same_browsing s (fst (start_hostname_resolvers A s1))"
    "same_browsing s (fst (start_address_resolvers A s1))"
proof -
  have "same_browsing s t \<Longrightarrow> same_browsing s (fst (start_hostname_resolver A e t))" for e t
    by (simp add: start_hostname_resolver_def Let_def browsing split: option.split prod.split)
  then show "same_browsing s (fst (start_hostname_resolvers A s1))" using assms
    by (simp add: start_hostname_resolvers_def same_browsing_andThen same_browsing_each browsing)
  have "same_browsing s t \<Longrightarrow> same_browsing s (fst (start_address_resolver A e t))" for e t
    by (simp add: start_address_resolver_def Let_def browsing split: option.split prod.split)
  then show "same_browsing s (fst (start_address_resolvers A s1))" using assms
    by (simp add: start_address_resolvers_def same_browsing_andThen same_browsing_each browsing)
qed

lemma same_browsing_others [browsing]:
  assumes "same_browsing s s1"
  shows "same_browsing s (fst (publish_service v s1))" "same_browsing s (fst (unpublish_service v s1))"
    "same_browsing s (avahi_resolve_name n h s1)" "same_browsing s (fst (avahi_resolve_address A a l h s1))"
    "same_browsing s (host_name_resolver_callback r p n found h s1)"
    "same_browsing s (address_resolver_callback r p a found' h s1)"
  using assms
  by (simp_all add: publish_service_def unpublish_service_def avahi_resolve_name_def avahi_resolve_address_def
      host_name_resolver_callback_def address_resolver_callback_def remove_hostname_resolver_def
      remove_address_resolver_def Let_def browsing split: option.split)

lemma same_browsing_tell [browsing]: "same_browsing s s1 \<Longrightarrow> same_browsing s (tell_handlers t c s1)"
  unfolding tell_handlers_def by (rule same_browsing_fold) (auto simp: browsing)

lemma same_browsing_callbacks [browsing]:
  assumes "same_browsing s s1"
  shows "same_browsing s (fst (browse_callback A e n t d s1))" "same_browsing s (resolve_callback r n t d found s1)"
  using assms
  by (simp_all add: browse_callback_def resolve_callback_def call_handler_service_removed_def
      call_handler_all_for_now_def call_handler_cache_exhausted_def call_handler_failed_def
      call_handler_service_added_def Let_def browsing
      split: option.split browser_event.split prod.split avahi_address.split)

text \<open>
  The invariant: what waits to be removed and is watched waits to be created again; unless the
  connection is about to be recovered, a type with handlers has a browser or waits for one.
\<close>

definition watched :: "avahi \<Rightarrow> string \<Rightarrow> bool" where
  "watched s t \<longleftrightarrow> map_of (handlers s) t \<noteq> None"

definition has_browser :: "avahi \<Rightarrow> string \<Rightarrow> bool" where
  "has_browser s t \<longleftrightarrow> map_of (browsers s) t \<noteq> None"

definition browsing_ok :: "avahi \<Rightarrow> bool" where
  "browsing_ok s \<longleftrightarrow>
     smap_ok (handlers s) \<and> smap_ok (browsers s) \<and>
     (\<forall>t. watched s t \<longrightarrow> t \<in> set (pending_browser_removes s) \<longrightarrow> t \<in> set (pending_browsers s))"

definition all_browsed :: "avahi \<Rightarrow> bool" where
  "all_browsed s \<longleftrightarrow> (\<forall>t. watched s t \<longrightarrow> t \<in> set (pending_browsers s) \<or> has_browser s t)"

lemma same_browsing_ok:
  assumes "same_browsing s s'"
  shows "browsing_ok s' = browsing_ok s" "all_browsed s' = all_browsed s" "watched s' = watched s"
    "client s' = client s" "need_recover s' = need_recover s" "client_state s' = client_state s"
  using assms by (simp_all add: same_browsing_def browsing_ok_def all_browsed_def watched_def has_browser_def fun_eq_iff)

lemma watch_browsing:
  assumes "browsing_ok s" "need_recover s \<or> all_browsed s" and s'_def: "s' = watch_service t h s"
  shows "browsing_ok s'" "need_recover s' \<or> all_browsed s'"
proof -
  have "same_browsing (s\<lparr>handlers := smap_ins t (handlers_of t s @ [h]) (handlers s),
      pending_browsers := pending_browsers s @ [t]\<rparr>) s'"
    unfolding s'_def watch_service_def by (intro same_browsing_wake) simp
  note e = same_browsing_ok [OF this]
  show "browsing_ok s'" unfolding e using assms(1)
    by (auto simp: browsing_ok_def watched_def smap_ins_ok map_of_smap_ins)
  show "need_recover s' \<or> all_browsed s'" unfolding e using assms(1,2)
    by (auto simp: browsing_ok_def all_browsed_def watched_def has_browser_def map_of_smap_ins)
qed

lemma unwatch_browsing:
  assumes "browsing_ok s" "need_recover s \<or> all_browsed s" and s'_def: "s' = unwatch_service t h s"
  shows "browsing_ok s'" "need_recover s' \<or> all_browsed s'"
proof -
  define s1 where "s1 = (case map_of (handlers s) t of
          None \<Rightarrow> s
        | Some hs \<Rightarrow>
            let hs' = removeAll h hs in
            if hs' = []
            then s\<lparr>pending_browser_removes :=
                     pending_browser_removes s @ (if map_of (browsers s) t \<noteq> None then [t] else []),
                   handlers := smap_del t (handlers s)\<rparr>
            else s\<lparr>handlers := smap_ins t hs' (handlers s)\<rparr>)"
  have "same_browsing s1 s'"
    unfolding s'_def unwatch_service_def s1_def by (intro same_browsing_wake) simp
  note e = same_browsing_ok [OF this]
  have "browsing_ok s1" using assms(1)
    by (auto simp: s1_def browsing_ok_def watched_def smap_ins_ok smap_del_ok map_of_smap_ins Let_def
        split: option.split if_splits)
  then show "browsing_ok s'" by (simp add: e)
  have "need_recover s1 \<or> all_browsed s1" using assms(1,2)
    by (auto simp: s1_def browsing_ok_def all_browsed_def watched_def has_browser_def map_of_smap_ins Let_def
        split: option.split if_splits)
  then show "need_recover s' \<or> all_browsed s'" by (simp add: e)
qed

text \<open>Creating browsers, and taking down those whose type is no longer wanted.\<close>

lemma create_browser_effect:
  assumes "snd (create_browser A t s) = None" "client s \<noteq> None" "smap_ok (browsers s)" and s'_def: "s' = fst (create_browser A t s)"
  shows "smap_ok (browsers s')" "client s' = client s" "client_state s' = client_state s"
    "need_recover s' = need_recover s" "handlers s' = handlers s"
    "pending_browsers s' = pending_browsers s" "pending_browser_removes s' = pending_browser_removes s"
    "has_browser s' u \<longleftrightarrow> u = t \<or> has_browser s u"
  using assms(1-3) unfolding s'_def
  by (auto simp: create_browser_def Let_def call_def has_browser_def smap_ins_ok map_of_smap_ins split: option.splits if_splits)

lemma recreate_browsers_effect:
  assumes "snd (each (create_browser A) ts s) = None" "client s \<noteq> None" "smap_ok (browsers s)" and s'_def: "s' = fst (each (create_browser A) ts s)"
  shows "smap_ok (browsers s') \<and> client s' = client s \<and> client_state s' = client_state s \<and>
    need_recover s' = need_recover s \<and> handlers s' = handlers s \<and>
    pending_browsers s' = pending_browsers s \<and> pending_browser_removes s' = pending_browser_removes s \<and>
    (\<forall>u. has_browser s' u \<longleftrightarrow> u \<in> set ts \<or> has_browser s u)"
  using assms(1-3) unfolding s'_def
proof (induction ts arbitrary: s)
  case (Cons t ts)
  then have n: "snd (create_browser A t s) = None" "snd (each (create_browser A) ts (fst (create_browser A t s))) = None"
    by (simp_all add: andThen_None)
  note e = create_browser_effect [OF n(1) Cons.prems(2,3) refl]
  have "client (fst (create_browser A t s)) \<noteq> None" using e(2) Cons.prems(2) by simp
  from Cons.IH [OF n(2) this e(1)] e(2-8) show ?case by (simp add: andThen_fst n(1)) blast
qed simp

lemma create_pending_browsers_effect:
  assumes "snd (each (create_pending_browser A) ts s) = None" "client s \<noteq> None" "smap_ok (browsers s)" and s'_def: "s' = fst (each (create_pending_browser A) ts s)"
  shows "smap_ok (browsers s') \<and> client s' = client s \<and> client_state s' = client_state s \<and>
    need_recover s' = need_recover s \<and> handlers s' = handlers s \<and>
    pending_browsers s' = drop (length ts) (pending_browsers s) \<and>
    pending_browser_removes s' = pending_browser_removes s \<and>
    (\<forall>u. has_browser s' u \<longleftrightarrow> u \<in> set ts \<or> has_browser s u)"
  using assms(1-3) unfolding s'_def
proof (induction ts arbitrary: s)
  case (Cons t ts)
  define s1 where "s1 = fst (create_pending_browser A t s)"
  from Cons.prems(1) have n: "snd (create_pending_browser A t s) = None" "snd (each (create_pending_browser A) ts s1) = None"
    by (simp_all add: andThen_None s1_def)
  then have c: "snd (create_browser A t s) = None" by (simp add: create_pending_browser_def andThen_None)
  note e = create_browser_effect [OF c Cons.prems(2,3) refl]
  have s1: "s1 = (fst (create_browser A t s))\<lparr>pending_browsers := tl (pending_browsers s)\<rparr>"
    using e(6) by (simp add: s1_def create_pending_browser_def andThen_fst [OF c])
  have f: "client s1 \<noteq> None" "smap_ok (browsers s1)" using e(1,2) Cons.prems(2) by (simp_all add: s1)
  have b: "has_browser s1 u \<longleftrightarrow> u = t \<or> has_browser s u" for u using e(8) by (simp add: s1 has_browser_def)
  have st: "fst (each (create_pending_browser A) (t # ts) s) = fst (each (create_pending_browser A) ts s1)"
    by (simp add: andThen_fst n(1) s1_def)
  from Cons.IH [OF n(2) f] e(2-7) b show ?case unfolding st by (simp add: s1 drop_Suc) blast
qed simp

lemma remove_pending_browsers_effect:
  assumes "smap_ok (browsers s)" and s'_def: "s' = fold remove_pending_browser ts s"
  shows "smap_ok (browsers s') \<and> client s' = client s \<and> client_state s' = client_state s \<and>
    need_recover s' = need_recover s \<and> handlers s' = handlers s \<and>
    pending_browsers s' = pending_browsers s \<and>
    pending_browser_removes s' = drop (length ts) (pending_browser_removes s) \<and>
    (\<forall>u. has_browser s' u \<longleftrightarrow> has_browser s u \<and> u \<notin> set ts)"
  using assms(1) unfolding s'_def
proof (induction ts arbitrary: s)
  case (Cons t ts)
  have "smap_ok (browsers (remove_pending_browser t s))" using Cons.prems
    by (simp add: remove_pending_browser_def Let_def call_def smap_del_ok)
  from Cons.IH [OF this] show ?case
    by (auto simp: remove_pending_browser_def Let_def call_def has_browser_def drop_Suc)
qed simp

text \<open>Losing and making a connection leaves the browsing part alone, or asks for recovery.\<close>

definition browsing_state :: "avahi \<Rightarrow> bool" where
  "browsing_state s \<longleftrightarrow> browsing_ok s \<and> (need_recover s \<or> all_browsed s)"

definition connection_only :: "avahi \<Rightarrow> avahi \<Rightarrow> bool" where
  "connection_only s s' \<longleftrightarrow>
     handlers s' = handlers s \<and> browsers s' = browsers s \<and> pending_browsers s' = pending_browsers s \<and>
     pending_browser_removes s' = pending_browser_removes s \<and> (need_recover s \<longrightarrow> need_recover s')"

lemma connection_only_ok:
  assumes "connection_only s s'"
  shows "browsing_state s \<Longrightarrow> browsing_state s'" "watched s' = watched s"
  using assms
  by (auto simp: connection_only_def browsing_state_def browsing_ok_def all_browsed_def watched_def has_browser_def)

lemma connection_only_refl [simp]: "connection_only s s"
  by (simp add: connection_only_def)

lemma connection_only_updates:
  assumes "connection_only s s1"
  shows "connection_only s (call c s1)" "connection_only s (s1\<lparr>client := a\<rparr>)"
    "connection_only s (s1\<lparr>simple_poll := b\<rparr>)" "connection_only s (s1\<lparr>client_state := d\<rparr>)"
    "connection_only s (s1\<lparr>do_reset_groups := e\<rparr>)" "connection_only s (s1\<lparr>need_recover := True\<rparr>)"
  using assms by (simp_all add: connection_only_def call_def)

lemma connection_only_wake: "connection_only s s1 \<Longrightarrow> connection_only s (wake_poller s1)"
  by (simp add: wake_poller_def connection_only_updates split: option.split)

lemma connection_only_callback: "connection_only s s1 \<Longrightarrow> connection_only s (client_callback st s1)"
  by (simp add: client_callback_def init_done_def recover_def Let_def connection_only_updates
      connection_only_wake split: client_state.split)

lemma connection_only_connect:
  assumes "connection_only s s1"
  shows "connection_only s (connect A s1)"
  by (rule connect_invariant [where P = "connection_only s"])
    (simp_all add: assms connection_only_updates connection_only_callback)

lemma connection_only_free:
  "connection_only s (free_poll (free_client s))"
  by (simp add: free_poll_def free_client_def connection_only_updates split: option.split)

text \<open>The parts of a round.\<close>

lemma recovery_browses:
  assumes "browsing_ok s" "client s \<noteq> None"
    and r: "andThen (recreate_services A (erase_browsers (erase_groups s))) (recreate_browsers A) = (s', None)"
  shows "browsing_ok s' \<and> all_browsed s' \<and> watched s' = watched s \<and> client s' \<noteq> None"
proof -
  define s1 where "s1 = erase_groups s"
  define s2 where "s2 = erase_browsers s1"
  obtain s3 x where c: "recreate_services A s2 = (s3, x)" by fastforce
  then have x: "x = None" and s': "recreate_browsers A s3 = (s', None)"
    using r by (auto simp: s1_def s2_def andThen_def split: option.splits)
  have 1: "same_browsing s s1" by (simp add: s1_def browsing)
  have 2: "handlers s2 = handlers s1 \<and> pending_browsers s2 = pending_browsers s1 \<and>
    pending_browser_removes s2 = pending_browser_removes s1 \<and> client s2 = client s1 \<and> browsers s2 = []"
  proof -
    have "same_browsing s1 (fold (\<lambda>p. call (Browser_Free (Some (snd p)))) (browsers s1) s1)"
      by (rule same_browsing_fold) (simp_all add: browsing)
    then show ?thesis by (simp add: s2_def erase_browsers_def same_browsing_def)
  qed
  have "same_browsing s2 (fst (recreate_services A s2))" by (simp add: browsing)
  then have 3: "same_browsing s2 s3" using c by simp
  have h: "handlers s3 = handlers s" "browsers s3 = []" "pending_browsers s3 = pending_browsers s"
    "pending_browser_removes s3 = pending_browser_removes s" "client s3 = client s"
    using 1 2 3 by (simp_all add: same_browsing_def)
  have n: "snd (each (create_browser A) (map fst (handlers s3)) s3) = None"
    "fst (each (create_browser A) (map fst (handlers s3)) s3) = s'"
    using s' by (simp_all add: recreate_browsers_def)
  have e: "smap_ok (browsers s') \<and> client s' = client s3 \<and> client_state s' = client_state s3 \<and>
    need_recover s' = need_recover s3 \<and> handlers s' = handlers s3 \<and>
    pending_browsers s' = pending_browsers s3 \<and> pending_browser_removes s' = pending_browser_removes s3 \<and>
    (\<forall>u. has_browser s' u \<longleftrightarrow> u \<in> set (map fst (handlers s3)) \<or> has_browser s3 u)"
    by (rule recreate_browsers_effect [OF n(1) _ _ n(2) [symmetric]]) (use assms(2) h in simp_all)
  show ?thesis using e h assms(1,2)
    by (auto simp: browsing_ok_def all_browsed_def watched_def map_of_eq_None_iff)
qed

lemma requests_browse:
  assumes "browsing_ok s" "all_browsed s" "client s \<noteq> None" and r: "work_on_requests A s = (s', None)"
  shows "browsing_ok s' \<and> all_browsed s' \<and> client_state s' = client_state s \<and>
    (\<forall>t. watched s' t \<longrightarrow> has_browser s' t)"
proof -
  define s1 where "s1 = remove_pending_services s"
  define s2 where "s2 = remove_pending_browsers s1"
  obtain s3 x where c: "create_pending_services A s2 = (s3, x)" by fastforce
  obtain s4 y where d: "create_pending_browsers A s3 = (s4, y)" by fastforce
  have w: "andThen (s3, x) (\<lambda>s1. andThen (create_pending_browsers A s1)
       (\<lambda>s2. andThen (start_hostname_resolvers A s2) (start_address_resolvers A))) = (s', None)"
    using r c by (simp add: work_on_requests_def s1_def [symmetric] s2_def [symmetric])
  then have x: "x = None" by (auto simp: andThen_def split: option.splits)
  with w d have w4: "andThen (s4, y) (\<lambda>s2. andThen (start_hostname_resolvers A s2) (start_address_resolvers A)) = (s', None)"
    by (simp add: andThen_def)
  then have y: "y = None" by (auto simp: andThen_def split: option.splits)
  have s': "s' = fst (andThen (start_hostname_resolvers A s4) (start_address_resolvers A))"
    using w4 unfolding y by (simp add: andThen_fst)
  have 1: "same_browsing s s1" by (simp add: s1_def browsing)
  have 2: "smap_ok (browsers s2) \<and> client s2 = client s1 \<and> client_state s2 = client_state s1 \<and>
    need_recover s2 = need_recover s1 \<and> handlers s2 = handlers s1 \<and>
    pending_browsers s2 = pending_browsers s1 \<and> pending_browser_removes s2 = [] \<and>
    (\<forall>u. has_browser s2 u \<longleftrightarrow> has_browser s1 u \<and> u \<notin> set (pending_browser_removes s1))"
  proof -
    have "smap_ok (browsers s1)" using assms(1) 1 by (simp add: browsing_ok_def same_browsing_def)
    from remove_pending_browsers_effect [OF this refl, of "pending_browser_removes s1"] show ?thesis
      by (simp add: s2_def remove_pending_browsers_def)
  qed
  have "same_browsing s2 (fst (create_pending_services A s2))" by (simp add: browsing)
  then have 3: "same_browsing s2 s3" using c by simp
  have n: "snd (each (create_pending_browser A) (pending_browsers s3) s3) = None"
    "fst (each (create_pending_browser A) (pending_browsers s3) s3) = s4"
    using d y by (simp_all add: create_pending_browsers_def)
  have 4: "smap_ok (browsers s4) \<and> client s4 = client s3 \<and> client_state s4 = client_state s3 \<and>
    need_recover s4 = need_recover s3 \<and> handlers s4 = handlers s3 \<and>
    pending_browsers s4 = drop (length (pending_browsers s3)) (pending_browsers s3) \<and>
    pending_browser_removes s4 = pending_browser_removes s3 \<and>
    (\<forall>u. has_browser s4 u \<longleftrightarrow> u \<in> set (pending_browsers s3) \<or> has_browser s3 u)"
    by (rule create_pending_browsers_effect [OF n(1) _ _ n(2) [symmetric]])
      (use assms(3) 1 2 3 in \<open>simp_all add: same_browsing_def\<close>)
  have 5: "same_browsing s4 s'" unfolding s'
    by (intro same_browsing_andThen) (simp_all add: browsing)
  have f: "handlers s4 = handlers s" "pending_browsers s4 = []" "pending_browser_removes s4 = []"
    "\<And>u. has_browser s4 u \<longleftrightarrow>
       u \<in> set (pending_browsers s) \<or> has_browser s u \<and> u \<notin> set (pending_browser_removes s)"
    using 1 2 3 4 by (simp_all add: same_browsing_def has_browser_def)
  have "has_browser s4 u" if "watched s u" for u
    using that assms(1,2) unfolding f(4) browsing_ok_def all_browsed_def by blast
  moreover have "watched s4 = watched s" using f(1) by (simp add: watched_def fun_eq_iff)
  moreover have "has_browser s' = has_browser s4" using 5 by (simp add: same_browsing_def has_browser_def fun_eq_iff)
  moreover have "browsing_ok s4" using f(1,3) 4 assms(1) by (simp add: browsing_ok_def watched_def)
  moreover have "client_state s' = client_state s" using 1 2 3 4 5 by (simp add: same_browsing_def)
  ultimately show ?thesis using same_browsing_ok [OF 5] by (simp add: all_browsed_def)
qed

lemma andThen_pair: "andThen (s, None) f = f s"
  by (simp add: andThen_def)

lemma loop_browsing:
  assumes "browsing_state s" "avahi_loop A s = (s', None)"
  shows "browsing_state s' \<and>
    (client s' \<noteq> None \<and> client_state s' = S_Running \<longrightarrow> (\<forall>t. watched s' t \<longrightarrow> has_browser s' t))"
proof -
  define s0 where "s0 = (if need_recover s then free_poll (free_client s) else s)"
  define s1 where "s1 = connect A s0"
  have "connection_only s s1" unfolding s1_def s0_def
    by (rule connection_only_connect) (simp add: connection_only_free)
  then have b1: "browsing_state s1" using assms(1) by (rule connection_only_ok(1))
  show ?thesis
  proof (cases "client s1")
    case None
    then have "s' = s1" using assms(2) by (simp add: avahi_loop_def Let_def s0_def [symmetric] s1_def [symmetric] ok_def)
    with b1 None show ?thesis by simp
  next
    case (Some c)
    have w: "with_client A s1 = (s', None)"
      using assms(2) Some by (simp add: avahi_loop_def Let_def s0_def [symmetric] s1_def [symmetric])
    obtain s2 x where a: "(if do_reset_groups s1 then recreate_services A (reset_groups s1) else ok s1) = (s2, x)"
      by fastforce
    have "same_browsing s1 (fst (if do_reset_groups s1 then recreate_services A (reset_groups s1) else ok s1))"
      by (simp add: browsing)
    then have 2: "same_browsing s1 s2" unfolding a by simp
    have w2: "andThen (s2, x) (\<lambda>s1. andThen
          (if need_recover s1
           then andThen (recreate_services A (erase_browsers (erase_groups s1))) (recreate_browsers A)
           else ok s1)
       (\<lambda>s2. andThen (if client_state s2 = S_Running then work_on_requests A s2 else ok s2)
       (\<lambda>s3. poll_iterate (s3\<lparr>need_recover := False\<rparr>)))) = (s', None)"
      using w unfolding with_client_def a .
    then have x: "x = None" by (auto simp: andThen_def split: option.splits)
    obtain s3 y where b: "(if need_recover s2
           then andThen (recreate_services A (erase_browsers (erase_groups s2))) (recreate_browsers A)
           else ok s2) = (s3, y)" by fastforce
    have w3: "andThen (s3, y) (\<lambda>s2. andThen (if client_state s2 = S_Running then work_on_requests A s2 else ok s2)
       (\<lambda>s3. poll_iterate (s3\<lparr>need_recover := False\<rparr>))) = (s', None)"
      using w2 unfolding x andThen_pair b .
    then have y: "y = None" by (auto simp: andThen_def split: option.splits)
    have ok2: "browsing_ok s2" "need_recover s2 \<or> all_browsed s2" "client s2 \<noteq> None"
      using b1 Some same_browsing_ok [OF 2] by (simp_all add: browsing_state_def)
    have 3: "browsing_ok s3 \<and> all_browsed s3 \<and> client s3 \<noteq> None"
    proof (cases "need_recover s2")
      case True
      then show ?thesis using recovery_browses [OF ok2(1,3)] b y by simp
    next
      case False
      then show ?thesis using ok2 b by (simp add: ok_def)
    qed
    obtain s4 z where d: "(if client_state s3 = S_Running then work_on_requests A s3 else ok s3) = (s4, z)"
      by fastforce
    have w4: "andThen (s4, z) (\<lambda>s3. poll_iterate (s3\<lparr>need_recover := False\<rparr>)) = (s', None)"
      using w3 unfolding y andThen_pair d .
    then have z: "z = None" by (auto simp: andThen_def split: option.splits)
    have 4: "browsing_ok s4 \<and> all_browsed s4 \<and>
      (client_state s3 = S_Running \<longrightarrow> (\<forall>t. watched s4 t \<longrightarrow> has_browser s4 t))"
    proof (cases "client_state s3 = S_Running")
      case True
      then show ?thesis using requests_browse 3 d z by (metis (full_types))
    next
      case False
      then show ?thesis using 3 d by (simp add: ok_def)
    qed
    have st: "client_state s4 = client_state s3"
    proof (cases "client_state s3 = S_Running")
      case True
      then show ?thesis using requests_browse 3 d z by (metis (full_types))
    next
      case False
      then show ?thesis using d by (simp add: ok_def)
    qed
    obtain p where s': "s' = call (Poll_Iterate p) (s4\<lparr>need_recover := False\<rparr>)"
      using w4 unfolding z by (auto simp: andThen_def poll_iterate_def throwing_def ok_def split: option.splits)
    show ?thesis using 4 st
      by (simp add: s' call_def browsing_state_def browsing_ok_def all_browsed_def watched_def has_browser_def)
  qed
qed

lemma step_browsing:
  assumes "browsing_state s" "perform A op s = (s', x)" "x = None \<or> client_request op"
  shows "browsing_state s'"
proof -
  have same: "browsing_state s'" if "same_browsing s (fst (perform A op s))"
    using that assms(1,2) same_browsing_ok by (simp add: browsing_state_def)
  show ?thesis
  proof (cases op)
    case Loop
    then show ?thesis using loop_browsing [OF assms(1)] assms(2,3) by simp
  next
    case (Watch t h)
    then show ?thesis using watch_browsing [OF _ _ refl, of s t h] assms(1,2)
      by (simp add: browsing_state_def ok_def)
  next
    case (Unwatch t h)
    then show ?thesis using unwatch_browsing [OF _ _ refl, of s t h] assms(1,2)
      by (simp add: browsing_state_def ok_def)
  next
    case (Client_State st)
    have "connection_only s (client_callback st s)" by (simp add: connection_only_callback)
    then show ?thesis using connection_only_ok(1) assms(1,2) Client_State by (simp add: ok_def)
  next
    case (Group_State g st)
    have "connection_only s (entry_group_callback A g st s)"
    proof -
      have "same_browsing s (name_collision A g s)" by (simp add: browsing)
      then have "connection_only s (name_collision A g s)" by (simp add: same_browsing_def connection_only_def)
      then show ?thesis
        by (simp add: entry_group_callback_def recover_def connection_only_wake connection_only_updates
            split: group_state.split)
    qed
    then show ?thesis using connection_only_ok(1) assms(1,2) Group_State by (simp add: ok_def)
  qed (rule same, simp add: browsing)+
qed

lemma reach_browsing: "avahi_reach A allowed s \<Longrightarrow> browsing_state s"
proof (induction rule: avahi_reach.induct)
  case (start st)
  show ?case by (simp add: avahi_new_def browsing_state_def browsing_ok_def all_browsed_def watched_def)
next
  case (step s op s' x)
  then show ?case using step_browsing by blast
qed

section \<open>A library to try the model on\<close>

text \<open>
  It gives every group a new number, refuses the name \<open>taken\<close>, and runs at once.
\<close>

fun next_group :: "avahi_call list \<Rightarrow> obj" where
  "next_group [] = 0"
| "next_group (Group_New c (Some g) # cs) = max (Suc g) (next_group cs)"
| "next_group (_ # cs) = next_group cs"

definition demo_lib :: avahi_lib where
  "demo_lib =
     \<lparr>poll_new = (\<lambda>_. Some 1), client_new = (\<lambda>_. Some 2), during_client_new = (\<lambda>_. [S_Running]),
      group_new = (\<lambda>cs. Some (next_group cs)), add_service = (\<lambda>_ _ n _. if n = ''taken'' then - 8 else 0),
      commit = (\<lambda>_ _. 0), browser_new = (\<lambda>_ _. Some 3), service_resolver_new = (\<lambda>_. Some 4),
      host_resolver_new = (\<lambda>_ _. Some 5), address_resolver_new = (\<lambda>_ _. Some 6),
      alternative_name = (\<lambda>n. n @ '' #2''), strerror = (\<lambda>_. ''''), last_error = (\<lambda>_. 0),
      in_addr_alloc = (\<lambda>_. 7), subscript_first = True\<rparr>"

lemma next_group_beyond: "group_owner cs g \<noteq> None \<Longrightarrow> g < next_group cs"
  by (induction cs g rule: group_owner.induct) (auto split: if_splits)

lemma demo_fresh: "fresh_groups demo_lib"
  using next_group_beyond by (force simp: fresh_groups_def demo_lib_def)

lemma demo_no_failures: "no_failures demo_lib"
  by (simp add: no_failures_def demo_lib_def)

lemma avahi_reach_steps:
  "avahi_reach A allowed s \<Longrightarrow> allowed op \<Longrightarrow> op_enabled op s \<Longrightarrow> snd (perform A op s) = None \<Longrightarrow>
   avahi_reach A allowed (fst (perform A op s))"
  by (rule avahi_reach.step [where x = None]) (auto simp: prod_eq_iff)

fun run_ops :: "avahi_lib \<Rightarrow> avahi_op list \<Rightarrow> avahi \<Rightarrow> avahi option" where
  "run_ops A [] s = Some s"
| "run_ops A (op # ops) s =
     (if op_enabled op s \<and> snd (perform A op s) = None then run_ops A ops (fst (perform A op s)) else None)"

lemma run_reach:
  "avahi_reach A allowed s \<Longrightarrow> \<forall>op \<in> set ops. allowed op \<Longrightarrow> run_ops A ops s = Some s' \<Longrightarrow> avahi_reach A allowed s'"
  by (induction ops arbitrary: s) (auto split: if_splits intro: avahi_reach_steps)

definition demo_service :: network_service where
  "demo_service = service_here ''taken'' ''_refbox._tcp'' 4444"

section \<open>Properties\<close>

text \<open>
  C26. In every order of rounds, requests and callbacks, as long as neither the
  client nor a group reports a failure: the thread uses a group of Avahi only while it exists, and
  every service that has a group has one that exists.
\<close>

theorem groups_used_while_they_exist:
  assumes "avahi_reach A no_failure_op s" "fresh_groups A" "no_failures A"
  shows "groups_used_well (calls s) \<and>
    (\<forall>k v g. map_of (services s) k = Some (v, Some g) \<longrightarrow> group_owner (calls s) g \<noteq> None)"
  using reach_held [OF assms] unfolding groups_held_def by blast


text \<open>
  C28. Whatever happens, failures and recoveries included: unless the connection
  is about to be recovered, a type that is watched waits for a browser or has one that does not
  wait to be removed; and after a round with a running client it has one.
\<close>

theorem watched_types_browsed:
  assumes "avahi_reach A (\<lambda>_. True) s"
  shows "(need_recover s \<or> (\<forall>t. map_of (handlers s) t \<noteq> None \<longrightarrow> t \<in> set (pending_browsers s) \<or>
      map_of (browsers s) t \<noteq> None \<and> t \<notin> set (pending_browser_removes s))) \<and>
    (\<forall>s'. avahi_loop A s = (s', None) \<and> client s' \<noteq> None \<and> client_state s' = S_Running \<longrightarrow>
       (\<forall>t. map_of (handlers s') t \<noteq> None \<longrightarrow> map_of (browsers s') t \<noteq> None))"
proof -
  have b: "browsing_state s" using assms by (rule reach_browsing)
  then have "need_recover s \<or> (\<forall>t. map_of (handlers s) t \<noteq> None \<longrightarrow> t \<in> set (pending_browsers s) \<or>
      map_of (browsers s) t \<noteq> None \<and> t \<notin> set (pending_browser_removes s))"
    unfolding browsing_state_def browsing_ok_def all_browsed_def watched_def has_browser_def by blast
  moreover have "map_of (browsers s') t \<noteq> None"
    if "avahi_loop A s = (s', None) \<and> client s' \<noteq> None \<and> client_state s' = S_Running" "map_of (handlers s') t \<noteq> None"
    for s' t
    using loop_browsing [OF b] that unfolding watched_def has_browser_def by blast
  ultimately show ?thesis by blast
qed

section \<open>Witnesses\<close>

definition demo_published :: "avahi option" where
  "demo_published = run_ops demo_lib [Publish demo_service, Watch ''_refbox._tcp'' 9] (avahi_new S_Connecting)"

lemma avahi_demo_run:
  "demo_published \<noteq> None \<and>
   (let s = the demo_published; r = avahi_loop demo_lib s in
    snd r = None \<and> client (fst r) = Some 2 \<and> client_state (fst r) = S_Running \<and> \<not> do_reset_groups (fst r) \<and>
    pending_services s = [demo_service] \<and> map_of (handlers (fst r)) ''_refbox._tcp'' = Some [9] \<and>
    map_option snd (map_of (services (fst r)) (''_refbox._tcp'', ''taken'')) = Some (Some 0))"
  by code_simp

text \<open>What the model computes for short runs.\<close>

definition demo_after :: "avahi_op list \<Rightarrow> avahi" where
  "demo_after ops = the (run_ops demo_lib ops (avahi_new S_Connecting))"

lemma demo_reach:
  "\<forall>op \<in> set ops. allowed op \<Longrightarrow> run_ops demo_lib ops (avahi_new S_Connecting) \<noteq> None \<Longrightarrow>
   avahi_reach demo_lib allowed (demo_after ops)"
  using run_reach [OF avahi_reach.start] by (auto simp: demo_after_def)

lemma demo_published_reach: "avahi_reach demo_lib no_failure_op (the demo_published)"
proof -
  have "run_ops demo_lib [Publish demo_service, Watch ''_refbox._tcp'' 9] (avahi_new S_Connecting) \<noteq> None"
    using avahi_demo_run unfolding demo_published_def by blast
  from demo_reach [OF _ this, of no_failure_op] show ?thesis
    by (simp add: demo_after_def demo_published_def)
qed

definition demo_round :: avahi where
  "demo_round = fst (avahi_loop demo_lib (the demo_published))"

lemma demo_loop: "avahi_loop demo_lib (the demo_published) = (demo_round, None)"
  using avahi_demo_run by (simp add: demo_round_def Let_def prod_eq_iff)

lemma demo_round_state:
  "client demo_round \<noteq> None" "client_state demo_round = S_Running" "\<not> do_reset_groups demo_round"
  "pending_services (the demo_published) = [demo_service]"
  "map_of (handlers demo_round) ''_refbox._tcp'' = Some [9]"
  "map_option snd (map_of (services demo_round) (''_refbox._tcp'', ''taken'')) = Some (Some 0)"
  using avahi_demo_run by (simp_all add: demo_round_def Let_def)

lemma demo_round_reach: "avahi_reach demo_lib no_failure_op demo_round"
  by (rule avahi_reach.step [OF demo_published_reach, of Loop]) (simp_all add: demo_loop)

theorem groups_used_while_they_exist_witness:
  "groups_used_well (calls demo_round) \<and>
   map_option snd (map_of (services demo_round) (''_refbox._tcp'', ''taken'')) = Some (Some 0) \<and>
   group_owner (calls demo_round) 0 \<noteq> None"
proof -
  obtain v where "map_of (services demo_round) (''_refbox._tcp'', ''taken'') = Some (v, Some 0)"
    using demo_round_state(6) by auto
  with groups_used_while_they_exist [OF demo_round_reach demo_fresh demo_no_failures] demo_round_state(6)
  show ?thesis by blast
qed


theorem watched_types_browsed_witness:
  "avahi_reach demo_lib (\<lambda>_. True) (the demo_published) \<and> map_of (browsers demo_round) ''_refbox._tcp'' \<noteq> None"
proof -
  have "run_ops demo_lib [Publish demo_service, Watch ''_refbox._tcp'' 9] (avahi_new S_Connecting) \<noteq> None"
    using avahi_demo_run unfolding demo_published_def by blast
  from demo_reach [OF _ this, of "\<lambda>_. True"]
  have r: "avahi_reach demo_lib (\<lambda>_. True) (the demo_published)"
    by (simp add: demo_after_def demo_published_def)
  have "map_of (browsers demo_round) ''_refbox._tcp'' \<noteq> None"
    using watched_types_browsed [OF r] demo_loop demo_round_state by auto
  with r show ?thesis by blast
qed

section \<open>Where the thread goes wrong\<close>

text \<open>
  Recovery frees the client, and its groups with it, and then resets and frees the groups.
\<close>

lemma recovery_uses_freed_groups:
  "avahi_reach demo_lib (\<lambda>_. True)
     (demo_after [Publish demo_service, Loop, Client_State S_Failure, Loop]) \<and>
   \<not> groups_used_well (calls (demo_after [Publish demo_service, Loop, Client_State S_Failure, Loop]))"
proof
  have "run_ops demo_lib [Publish demo_service, Loop, Client_State S_Failure, Loop] (avahi_new S_Connecting) \<noteq> None"
    by code_simp
  then show "avahi_reach demo_lib (\<lambda>_. True)
     (demo_after [Publish demo_service, Loop, Client_State S_Failure, Loop])"
    by (intro demo_reach) simp_all
qed code_simp

text \<open>
  Watching and unwatching a type twice before a round removes its browser twice, the second time
  through a null pointer; and a type that is unwatched before its first round gets a browser that
  nobody wants and nobody removes.
\<close>

lemma browser_removed_twice:
  "Browser_Free None \<in> set (calls (demo_after
     [Watch ''_t'' 1, Loop, Unwatch ''_t'' 1, Watch ''_t'' 1, Unwatch ''_t'' 1, Loop]))"
  by code_simp

lemma unwatched_type_browsed:
  "let s = demo_after [Watch ''_t'' 1, Unwatch ''_t'' 1, Loop] in
   \<not> watched s ''_t'' \<and> has_browser s ''_t'' \<and> pending_browser_removes s = []"
  by code_simp

text \<open>After one collision of the host name every round resets and announces all services again.\<close>

lemma reset_in_every_round:
  "length (filter (\<lambda>c. c = Group_Reset 0) (calls (demo_after
     [Publish demo_service, Loop, Client_State S_Collision, Client_State S_Running, Loop, Loop, Loop]))) = 3"
  by code_simp

text \<open>Of two requests for a name in one round only the first is answered.\<close>

lemma second_request_lost:
  "let s = demo_after [Resolve_Name ''host'' 1, Resolve_Name ''host'' 2, Loop] in
   Host_Resolver_New 2 ''host'' 1 (Some 5) \<in> set (calls s) \<and>
   filter (\<lambda>c. case c of Host_Resolver_New _ _ h _ \<Rightarrow> h = 2 | _ \<Rightarrow> False) (calls s) = [] \<and>
   pending_hostname_resolves s = []"
  by code_simp

text \<open>
  When no client can be made, the poller is freed and the pointer kept: a request wakes the freed
  poller, and no further round tries again.
\<close>

lemma failed_client_is_final:
  assumes "simple_poll s = None" "\<not> need_recover s" "poll_new A (calls s) = Some p"
    "\<And>cs. client_new A cs = None" "\<And>cs. during_client_new A cs = []" "client s = None"
  shows "\<exists>s'. avahi_loop A s = (s', None) \<and> hd (calls s') = Poll_Free p \<and> simple_poll s' = Some p \<and>
    avahi_loop A s' = (s', None) \<and> hd (calls (watch_service t h s')) = Poll_Wakeup p"
  using assms
  by (simp add: avahi_loop_def connect_def Let_def call_def ok_def watch_service_def wake_poller_def)

end
