(* ===== verification/Shell_View.thy ===== *)
theory Shell_View imports Strings_Util
begin

text \<open>
  The shell of the logistics league, \<open>llsf/shell/shell.cpp\<close> with the rows in \<open>robot.cpp\<close>,
  \<open>order.cpp\<close>, \<open>puck.cpp\<close> and \<open>machine.cpp\<close>: what it keeps of the messages of the hub and shows
  of them, the message for attention with its timer, and the requests it sends. Colours and
  positions on the screen are left out. Menus and keys are in theory \<open>Shell_Menus\<close>.
\<close>

section \<open>Messages\<close>

datatype team = CYAN | MAGENTA

datatype game_state = INIT | WAIT_START | RUNNING | PAUSED

datatype game_phase =
  PRE_GAME | SETUP | EXPLORATION | PRODUCTION | POST_GAME | OPEN_CHALLENGE | NAVIGATION_CHALLENGE | WHACK_A_MOLE_CHALLENGE

datatype puck_state = S0 | S1 | S2 | P1 | P2 | P3 | CONSUMED | FINISHED

datatype light_color = RED | YELLOW | GREEN

datatype light_state = OFF | ON | BLINK

datatype robot_state = ACTIVE | MAINTENANCE | DISQUALIFIED

text \<open>The names that \<open>State_Name\<close>, \<open>Phase_Name\<close> and \<open>State_Parse\<close>, \<open>Phase_Parse\<close> use.\<close>

fun state_name :: "game_state \<Rightarrow> string" where
  "state_name INIT = ''INIT''"
| "state_name WAIT_START = ''WAIT_START''"
| "state_name RUNNING = ''RUNNING''"
| "state_name PAUSED = ''PAUSED''"

fun phase_name :: "game_phase \<Rightarrow> string" where
  "phase_name PRE_GAME = ''PRE_GAME''"
| "phase_name SETUP = ''SETUP''"
| "phase_name EXPLORATION = ''EXPLORATION''"
| "phase_name PRODUCTION = ''PRODUCTION''"
| "phase_name POST_GAME = ''POST_GAME''"
| "phase_name OPEN_CHALLENGE = ''OPEN_CHALLENGE''"
| "phase_name NAVIGATION_CHALLENGE = ''NAVIGATION_CHALLENGE''"
| "phase_name WHACK_A_MOLE_CHALLENGE = ''WHACK_A_MOLE_CHALLENGE''"

definition all_states :: "game_state list" where
  "all_states = [INIT, WAIT_START, RUNNING, PAUSED]"

definition all_phases :: "game_phase list" where
  "all_phases =
     [PRE_GAME, SETUP, EXPLORATION, PRODUCTION, POST_GAME, OPEN_CHALLENGE, NAVIGATION_CHALLENGE, WHACK_A_MOLE_CHALLENGE]"

text \<open>The fields that are read; \<open>'f\<close> are floating-point numbers, times are in microseconds.\<close>

record 'f robot =
  r_number :: "32 word"
  r_name :: string
  r_team :: string
  r_team_color :: team
  r_host :: string
  r_state :: robot_state
  r_maintenance_time :: 'f
  r_maintenance_cycles :: "32 word"
  r_last_seen :: int

record puck =
  p_id :: "32 word"
  p_state :: puck_state
  p_team_color :: team

record machine =
  m_name :: string
  m_type :: string
  m_team_color :: team
  m_inputs :: "puck_state list"
  m_loaded_with :: "puck list"
  m_puck_under_rfid :: "puck option"
  m_lights :: "(light_color \<times> light_state) list"
  m_correctly_reported :: "bool option"

record order =
  o_id :: "32 word"
  o_product :: string
  o_team_color :: team
  o_requested :: "32 word"
  o_delivered :: "32 word"
  o_begin :: "32 word"
  o_end :: "32 word"
  o_gate :: string

record game_status =
  g_time_sec :: int
  g_time_nsec :: int
  g_state :: game_state
  g_phase :: game_phase
  g_points_cyan :: "32 word option"
  g_points_magenta :: "32 word option"
  g_team_cyan :: "string option"
  g_team_magenta :: "string option"

datatype 'f message =
    GameState game_status
  | GameInfo "string list"
  | RobotInfo "'f robot list"
  | MachineInfo "machine list"
  | AttentionMessage string "int option" "team option"
  | OrderInfo "order list"
  | PuckInfo "puck list"
  | LogMessage string string
  | VersionInfo string

datatype shell_request =
    SetGameState game_state
  | SetGamePhase game_phase
  | PlacePuckUnderMachine string "32 word"
  | LoadPuckInMachine string "32 word"
  | RemovePuckFromMachine string "32 word"
  | SetTeamName string team
  | SetRobotMaintenance "32 word" team bool

section \<open>Rows and panels\<close>

text \<open>What the constructor leaves open is \<open>None\<close>; \<open>reset\<close> of a robot clears its texts only.\<close>

record 'f robot_row =
  rr_number :: "32 word"
  rr_name :: string
  rr_team :: string
  rr_host :: string
  rr_rest :: "(robot_state \<times> 'f \<times> 32 word) option"
  rr_last_seen :: "int option"

definition robot_update :: "'f robot \<Rightarrow> 'f robot_row \<Rightarrow> 'f robot_row" where
  "robot_update r row =
     row\<lparr>rr_number := r_number r, rr_name := r_name r, rr_team := r_team r, rr_host := r_host r,
         rr_rest := Some (r_state r, r_maintenance_time r, r_maintenance_cycles r), rr_last_seen := Some (r_last_seen r)\<rparr>"

definition robot_reset :: "'f robot_row \<Rightarrow> 'f robot_row" where
  "robot_reset row = row\<lparr>rr_number := 0, rr_name := [], rr_team := [], rr_host := []\<rparr>"

record order_row =
  or_id :: "32 word"
  or_product :: string
  or_requested :: "32 word"
  or_delivered :: "32 word"
  or_begin :: "32 word"
  or_end :: "32 word"
  or_gate :: string
  or_game_time :: "32 word"

definition order_update :: "order \<Rightarrow> order_row \<Rightarrow> order_row" where
  "order_update d row =
     row\<lparr>or_id := o_id d, or_product := o_product d, or_requested := o_requested d, or_delivered := o_delivered d,
         or_begin := o_begin d, or_end := o_end d, or_gate := o_gate d\<rparr>"

definition order_reset :: "order_row \<Rightarrow> order_row" where
  "order_reset row =
     row\<lparr>or_id := 0, or_product := ''P1'', or_requested := 0, or_delivered := 0, or_begin := 0, or_end := 0, or_gate := ''ANY''\<rparr>"

definition order_set_gametime :: "32 word \<Rightarrow> order_row \<Rightarrow> order_row" where
  "order_set_gametime t row = row\<lparr>or_game_time := t\<rparr>"

record puck_row =
  pr_id :: "32 word"
  pr_state :: puck_state
  pr_at_machine :: bool

definition puck_reset :: puck_row where
  "puck_reset = \<lparr>pr_id = 0, pr_state = S0, pr_at_machine = False\<rparr>"

record machine_panel =
  mp_visible :: bool
  mp_type :: string
  mp_inputs :: "puck_state list"
  mp_loaded_with :: "puck_state list"
  mp_puck_under_rfid :: "puck_state option"
  mp_correctly_reported :: "bool option"
  mp_lights :: "light_color \<Rightarrow> light_state option"
  mp_blink :: "light_color \<Rightarrow> bool option"

text \<open>The blinking starts again, dark, when the lights have changed.\<close>

definition set_lights :: "(light_color \<Rightarrow> light_state option) \<Rightarrow> machine_panel \<Rightarrow> machine_panel" where
  "set_lights ls p =
     (if (\<forall>c \<in> set [RED, YELLOW, GREEN]. mp_lights p c = ls c) then p
      else p\<lparr>mp_lights := ls, mp_blink := (\<lambda>c. if ls c = Some BLINK then Some False else None)\<rparr>)"

definition flip_blink_states :: "machine_panel \<Rightarrow> machine_panel" where
  "flip_blink_states p = p\<lparr>mp_blink := (\<lambda>c. map_option Not (mp_blink p c))\<rparr>"

text \<open>Whether \<open>refresh\<close> draws the light as lit.\<close>

definition lit :: "machine_panel \<Rightarrow> light_color \<Rightarrow> bool" where
  "lit p c = (mp_lights p c = Some ON \<or> mp_lights p c = Some BLINK \<and> mp_blink p c = Some True)"

definition panel_reset :: "machine_panel \<Rightarrow> machine_panel" where
  "panel_reset p =
     p\<lparr>mp_type := ''?'', mp_inputs := [], mp_loaded_with := [], mp_puck_under_rfid := None, mp_correctly_reported := None,
       mp_lights := Map.empty, mp_blink := Map.empty\<rparr>"

definition panel_update :: "team \<Rightarrow> machine \<Rightarrow> machine_panel \<Rightarrow> machine_panel" where
  "panel_update t m p =
     (let p1 = set_lights (map_of (rev (m_lights m)))
                 (p\<lparr>mp_type := m_type m, mp_inputs := m_inputs m, mp_loaded_with := map p_state (m_loaded_with m)\<rparr>)
      in p1\<lparr>mp_puck_under_rfid := map_option p_state (m_puck_under_rfid m),
            mp_correctly_reported := m_correctly_reported m, mp_visible := (m_team_color m = t)\<rparr>)"

text \<open>The machines of the two teams, \<open>TEAM_MACHINES\<close>.\<close>

definition team_machines :: "team \<Rightarrow> string list" where
  "team_machines t =
     (case t of
        CYAN \<Rightarrow> map (\<lambda>i. CHR ''M'' # nat_digits i) [1..<13] @ [''D1'', ''D2'', ''D3'', ''R1'']
      | MAGENTA \<Rightarrow> map (\<lambda>i. CHR ''M'' # nat_digits i) [13..<25] @ [''D4'', ''D5'', ''D6'', ''R2''])"

section \<open>The message for attention\<close>

text \<open>
  \<open>at_wait\<close>: an operation waits for the timer; \<open>at_ready\<close>: handlers whose time has come but which
  have not run. A wait that is cancelled calls its handler with an error, which does nothing.
\<close>

record attention =
  at_string :: string
  at_endtime :: "int option"
  at_team_specific :: bool
  at_toggle :: bool
  at_shown :: string
  at_wait :: bool
  at_ready :: nat

definition attention_new :: attention where
  "attention_new =
     \<lparr>at_string = [], at_endtime = None, at_team_specific = False, at_toggle = True, at_shown = [], at_wait = False,
      at_ready = 0\<rparr>"

definition handle_attention :: "int \<Rightarrow> team \<Rightarrow> string \<Rightarrow> int option \<Rightarrow> team option \<Rightarrow> attention \<Rightarrow> attention" where
  "handle_attention now my_team msg time_to_show color a =
     (if color = None \<or> color = Some my_team
      then let a1 = (if at_string a \<noteq> [] then a\<lparr>at_wait := False\<rparr> else a);
               a2 = a1\<lparr>at_string := msg, at_team_specific := color \<noteq> None,
                       at_endtime := map_option (\<lambda>d. now + d * 1000000) time_to_show\<rparr>
           in if msg \<noteq> [] then a2\<lparr>at_toggle := True, at_wait := True\<rparr> else a2
      else a)"

definition handle_attmsg_timer :: "int \<Rightarrow> attention \<Rightarrow> attention" where
  "handle_attmsg_timer now a =
     (let a1 = (case at_endtime a of
                  Some x \<Rightarrow> if now - x > 0 then a\<lparr>at_string := [], at_endtime := None, at_shown := []\<rparr> else a
                | None \<Rightarrow> a)
      in if at_string a1 \<noteq> []
         then a1\<lparr>at_toggle := \<not> at_toggle a1, at_shown := at_string a1, at_wait := True\<rparr>
         else a1\<lparr>at_shown := []\<rparr>)"

definition attention_off :: "attention \<Rightarrow> attention" where
  "attention_off a = a\<lparr>at_string := [], at_shown := []\<rparr>"

text \<open>The timer expires, and the handler runs.\<close>

definition attmsg_expire :: "attention \<Rightarrow> attention" where
  "attmsg_expire a = (if at_wait a then a\<lparr>at_wait := False, at_ready := at_ready a + 1\<rparr> else a)"

definition attmsg_run :: "int \<Rightarrow> attention \<Rightarrow> attention" where
  "attmsg_run now a =
     (if at_ready a > 0 then handle_attmsg_timer now (a\<lparr>at_ready := at_ready a - 1\<rparr>) else a)"

section \<open>The shell\<close>

record 'f shell =
  sh_team :: team
  sh_state :: string
  p_state_text :: string
  p_phase_text :: string
  p_time_text :: string
  p_points_text :: string
  p_team_text :: string
  nav_text :: string
  robots :: "'f robot_row list"
  orders :: "order_row list"
  pucks :: "puck_row list"
  machines :: "(string \<times> machine_panel) list"
  last_minfo :: "machine list option"
  last_pinfo :: "puck list option"
  last_gameinfo :: "string list option"
  last_robotinfo :: "'f robot list option"
  attmsg :: attention
  sh_log :: "string list"
  online :: bool
  requests :: "shell_request list"
  stopped :: bool
  quit :: bool
  reconnect_wait :: bool
  connects :: nat

definition logf :: "string \<Rightarrow> 'f shell \<Rightarrow> 'f shell" where
  "logf msg s = s\<lparr>sh_log := sh_log s @ [msg]\<rparr>"

text \<open>\<open>client->send\<close> throws when there is no connection, which is logged, in other words for each of them.\<close>

definition send_request :: "shell_request \<Rightarrow> 'f shell \<Rightarrow> 'f shell" where
  "send_request r s = (if online s then s\<lparr>requests := requests s @ [r]\<rparr> else logf ''Sending failed'' s)"

definition set_game_state :: "string \<Rightarrow> 'f shell \<Rightarrow> 'f shell" where
  "set_game_state name s =
     (case find (\<lambda>v. state_name v = name) all_states of
        Some v \<Rightarrow> send_request (SetGameState v) (logf (''Requesting new game state '' @ name) s)
      | None \<Rightarrow> logf (''Failed to parse game state '' @ name) s)"

definition set_game_phase :: "string \<Rightarrow> 'f shell \<Rightarrow> 'f shell" where
  "set_game_phase name s =
     (case find (\<lambda>v. phase_name v = name) all_phases of
        Some v \<Rightarrow> send_request (SetGamePhase v) (logf (''Requesting new game phase '' @ name) s)
      | None \<Rightarrow> logf (''Failed to parse game phase '' @ name) s)"

definition set_game_team_color :: "string \<Rightarrow> 'f shell \<Rightarrow> 'f shell" where
  "set_game_team_color color s =
     (let new = (if color = ''MAGENTA'' then MAGENTA else CYAN) in
      if new \<noteq> sh_team s
      then s\<lparr>sh_team := new, orders := map order_reset (orders s), pucks := map (\<lambda>_. puck_reset) (pucks s),
             robots := map robot_reset (robots s)\<rparr>
      else s)"

definition client_connected :: "'f shell \<Rightarrow> 'f shell" where
  "client_connected s = s\<lparr>p_state_text := ''CONNECTED'', p_phase_text := []\<rparr>"

definition client_disconnected :: "'f shell \<Rightarrow> 'f shell" where
  "client_disconnected s =
     (let s1 = s\<lparr>p_state_text := ''DISCONNECTED'', p_phase_text := [], p_time_text := [], p_points_text := [], p_team_text := []\<rparr>
      in if quit s then s1
         else s1\<lparr>attmsg := attention_off (attmsg s1), machines := map (\<lambda>(n, p). (n, panel_reset p)) (machines s1),
                 orders := map order_reset (orders s1), pucks := map (\<lambda>_. puck_reset) (pucks s1),
                 robots := map robot_reset (robots s1), reconnect_wait := True\<rparr>)"

definition handle_reconnect_timer :: "'f shell \<Rightarrow> 'f shell" where
  "handle_reconnect_timer s =
     (let s1 = s\<lparr>reconnect_wait := False\<rparr> in if quit s then s1 else s1\<lparr>connects := connects s1 + 1\<rparr>)"

definition handle_blink_timer :: "'f shell \<Rightarrow> 'f shell" where
  "handle_blink_timer s = s\<lparr>machines := map (\<lambda>(n, p). (n, flip_blink_states p)) (machines s)\<rparr>"

section \<open>Messages from the hub\<close>

text \<open>Numbers with at least a number of digits; \<open>%3u\<close> pads with spaces.\<close>

definition padded :: "char \<Rightarrow> nat \<Rightarrow> string \<Rightarrow> string" where
  "padded c n t = replicate (n - length t) c @ t"

definition two_digits :: "int \<Rightarrow> string" where
  "two_digits n = padded (CHR ''0'') 2 (to_string_int n)"

text \<open>C++ divides towards zero.\<close>

definition quot :: "int \<Rightarrow> int \<Rightarrow> int" where
  "quot a b = sgn a * (\<bar>a\<bar> div b)"

definition time_text :: "int \<Rightarrow> int \<Rightarrow> string" where
  "time_text sec nsec =
     (let hour = quot sec 3600; minutes = quot (sec - hour * 3600) 60; s = sec - hour * 3600 - minutes * 60;
          rest = two_digits minutes @ '':'' @ two_digits s @ ''.'' @ padded (CHR ''0'') 3 (to_string_int (quot nsec 1000000))
      in if hour > 0 then two_digits hour @ '':'' @ rest else rest)"

definition points_text :: "32 word option \<Rightarrow> string" where
  "points_text p = (case p of Some n \<Rightarrow> padded (CHR '' '') 3 (to_string_uint n) | None \<Rightarrow> ''---'')"

definition show_game :: "game_status \<Rightarrow> 'f shell \<Rightarrow> 'f shell" where
  "show_game g s =
     s\<lparr>sh_state := state_name (g_state g), p_state_text := state_name (g_state g), p_phase_text := phase_name (g_phase g),
       p_time_text := time_text (g_time_sec g) (g_time_nsec g),
       orders := map (order_set_gametime (word_of_int (g_time_sec g))) (orders s),
       p_points_text := points_text (g_points_cyan g) @ '' / '' @ points_text (g_points_magenta g),
       p_team_text :=
         (case g_team_cyan g of
            Some c \<Rightarrow> if sh_team s = CYAN then c else (case g_team_magenta g of Some m \<Rightarrow> m | None \<Rightarrow> [])
          | None \<Rightarrow> ''** TRAINING **''),
       nav_text := (if g_state g = WAIT_START then ''STRT'' else if g_state g = PAUSED then ''CONT'' else ''STOP'')\<rparr>"

text \<open>
  The loop over the robots counts the robots of both teams; it ends with the first own one for
  which there is no row. The result has the number it ended with.
\<close>

fun show_robots :: "team \<Rightarrow> 'f robot list \<Rightarrow> nat \<Rightarrow> 'f robot_row list \<Rightarrow> 'f robot_row list \<times> nat \<times> string list" where
  "show_robots t [] idx rows = (rows, idx, [])"
| "show_robots t (r # rs) idx rows =
     (if r_team_color r \<noteq> t then show_robots t rs (idx + 1) rows
      else if idx \<ge> length rows
           then (rows, idx, [''Max robots displayed, cannot show '' @ r_name r @ '' ('' @ r_team r @ '')''])
      else show_robots t rs (idx + 1) (rows[idx := robot_update r (rows ! idx)]))"

definition reset_from :: "nat \<Rightarrow> ('r \<Rightarrow> 'r) \<Rightarrow> 'r list \<Rightarrow> 'r list" where
  "reset_from n f rows = take n rows @ map f (drop n rows)"

definition show_robot_info :: "'f robot list \<Rightarrow> 'f shell \<Rightarrow> 'f shell" where
  "show_robot_info rs s =
     (let (rows, idx, l) = show_robots (sh_team s) rs 0 (robots s) in
      s\<lparr>last_robotinfo := Some rs, robots := reset_from (idx + 1) robot_reset rows, sh_log := sh_log s @ l\<rparr>)"

fun show_machines :: "team \<Rightarrow> machine list \<Rightarrow> (string \<times> machine_panel) list \<Rightarrow> (string \<times> machine_panel) list" where
  "show_machines t [] ps = ps"
| "show_machines t (m # ms) ps =
     show_machines t ms
       (case map_of ps (m_name m) of None \<Rightarrow> ps | Some p \<Rightarrow> smap_ins (m_name m) (panel_update t m p) ps)"

text \<open>The loop over the orders looks at as many orders, of either team, as there are rows.\<close>

fun show_orders :: "team \<Rightarrow> order list \<Rightarrow> nat \<Rightarrow> order_row list \<Rightarrow> order_row list \<times> nat" where
  "show_orders t [] oidx rows = (rows, oidx)"
| "show_orders t (d # ds) oidx rows =
     (if o_team_color d \<noteq> t then show_orders t ds oidx rows
      else show_orders t ds (oidx + 1) (rows[oidx := order_update d (rows ! oidx)]))"

definition show_order_info :: "order list \<Rightarrow> order_row list \<Rightarrow> team \<Rightarrow> order_row list" where
  "show_order_info ds rows t =
     (let (rows', oidx) = show_orders t (take (length rows) ds) 0 rows in reset_from oidx order_reset rows')"

definition at_machine :: "team \<Rightarrow> machine list option \<Rightarrow> puck \<Rightarrow> bool" where
  "at_machine t minfo p =
     (case minfo of
        None \<Rightarrow> False
      | Some ms \<Rightarrow> \<exists>m \<in> set ms. m_team_color m = t \<and>
          ((\<exists>q. m_puck_under_rfid m = Some q \<and> p_id q = p_id p) \<or> (\<exists>q \<in> set (m_loaded_with m). p_id q = p_id p)))"

definition puck_update :: "team \<Rightarrow> machine list option \<Rightarrow> puck \<Rightarrow> puck_row" where
  "puck_update t minfo p = \<lparr>pr_id = p_id p, pr_state = p_state p, pr_at_machine = at_machine t minfo p\<rparr>"

text \<open>There are rows when the first message comes.\<close>

fun show_pucks :: "team \<Rightarrow> machine list option \<Rightarrow> puck list \<Rightarrow> nat \<Rightarrow> puck_row list \<Rightarrow> puck_row list \<times> nat" where
  "show_pucks t minfo [] pidx rows = (rows, pidx)"
| "show_pucks t minfo (p # ps) pidx rows =
     (if p_team_color p \<noteq> t then show_pucks t minfo ps pidx rows
      else let rows' = rows[pidx := puck_update t minfo p] in
        if pidx + 1 \<ge> length rows then (rows', pidx + 1) else show_pucks t minfo ps (pidx + 1) rows')"

definition show_puck_info :: "puck list \<Rightarrow> machine list option \<Rightarrow> puck_row list \<Rightarrow> team \<Rightarrow> puck_row list" where
  "show_puck_info ps minfo rows t =
     (let (rows', pidx) = show_pucks t minfo ps 0 rows in reset_from pidx (\<lambda>_. puck_reset) rows')"

fun client_msg :: "int \<Rightarrow> 'f message \<Rightarrow> 'f shell \<Rightarrow> 'f shell" where
  "client_msg now (GameState g) s = show_game g s"
| "client_msg now (GameInfo ts) s = s\<lparr>last_gameinfo := Some ts\<rparr>"
| "client_msg now (RobotInfo rs) s = show_robot_info rs s"
| "client_msg now (MachineInfo ms) s =
     s\<lparr>last_minfo := Some ms, machines := show_machines (sh_team s) ms (machines s)\<rparr>"
| "client_msg now (AttentionMessage msg time color) s =
     (let a = handle_attention now (sh_team s) msg time color (attmsg s) in
      (if (color = None \<or> color = Some (sh_team s)) \<and> msg \<noteq> [] then logf msg else id) (s\<lparr>attmsg := a\<rparr>))"
| "client_msg now (OrderInfo ds) s = s\<lparr>orders := show_order_info ds (orders s) (sh_team s)\<rparr>"
| "client_msg now (PuckInfo ps) s =
     s\<lparr>last_pinfo := Some ps, pucks := show_puck_info ps (last_minfo s) (pucks s) (sh_team s)\<rparr>"
| "client_msg now (LogMessage component msg) s = logf (component @ '': '' @ msg) s"
| "client_msg now (VersionInfo v) s = logf (''Connected to RefBox version '' @ v) s"

section \<open>What the rows show\<close>

abbreviation merge_robots :: "team \<Rightarrow> 'f robot list \<Rightarrow> 'f robot_row list \<Rightarrow> 'f robot_row list" where
  "merge_robots t rs rows \<equiv>
     map (\<lambda>(r, row). if r_team_color r = t then robot_update r row else row) (zip rs rows) @ drop (length rs) rows"

lemma show_robots_full:
  "length rows \<le> idx \<Longrightarrow> \<exists>i l. show_robots t rs idx rows = (rows, i, l) \<and> idx \<le> i"
  by (induction t rs idx rows rule: show_robots.induct) (auto intro: Suc_leD)

lemma show_robots_rows:
  "idx = length pre \<Longrightarrow>
   \<exists>i l. show_robots t rs idx (pre @ rows) = (pre @ merge_robots t rs rows, i, l) \<and>
     (i = idx + length rs \<or> length pre + length rows \<le> i \<and> length rows \<le> length rs)"
proof (induction rs arbitrary: idx pre rows)
  case (Cons r rs)
  show ?case
  proof (cases rows)
    case Nil
    then show ?thesis
      using Cons.prems show_robots_full [of "pre @ rows" "idx + 1" t rs] by auto
  next
    case (Cons row rows')
    then show ?thesis
      using Cons.prems
        Cons.IH [of "idx + 1" "pre @ [if r_team_color r = t then robot_update r row else row]" rows']
      by (auto simp: list_update_append nth_append)
  qed
qed simp

lemma show_orders_rows:
  "oidx = length pre \<Longrightarrow> length ds \<le> length rows \<Longrightarrow>
   show_orders t ds oidx (pre @ rows) =
     (let own = filter (\<lambda>d. o_team_color d = t) ds in
      (pre @ map (\<lambda>(d, row). order_update d row) (zip own rows) @ drop (length own) rows, oidx + length own))"
proof (induction ds arbitrary: oidx pre rows)
  case (Cons d ds)
  then obtain row rows' where rows: "rows = row # rows'"
    by (cases rows) auto
  then show ?case
    using Cons.prems Cons.IH [of "oidx + 1" "pre @ [order_update d row]" rows'] Cons.IH [of oidx pre rows]
    by (auto simp: Let_def list_update_append nth_append)
qed simp

lemma show_pucks_rows:
  "pidx = length pre \<Longrightarrow> rows \<noteq> [] \<Longrightarrow>
   show_pucks t minfo ps pidx (pre @ rows) =
     (let own = take (length rows) (filter (\<lambda>p. p_team_color p = t) ps) in
      (pre @ map (puck_update t minfo) own @ drop (length own) rows, pidx + length own))"
proof (induction ps arbitrary: pidx pre rows)
  case (Cons p ps)
  then obtain row rows' where rows: "rows = row # rows'"
    by (cases rows) auto
  show ?case
  proof (cases "p_team_color p = t \<and> rows' \<noteq> []")
    case True
    then show ?thesis
      using rows Cons.prems Cons.IH [of "pidx + 1" "pre @ [puck_update t minfo p]" rows']
      by (auto simp: Let_def list_update_append nth_append)
  next
    case False
    then show ?thesis
      using rows Cons.prems Cons.IH [of pidx pre rows] by (auto simp: Let_def list_update_append nth_append)
  qed
qed simp

lemma show_pucks_none: "fst (show_pucks t minfo ps pidx []) = []"
  by (induction ps) (simp_all add: Let_def)

text \<open>
  What the rows show after a message. Row number \<open>i\<close> of the robots shows robot \<open>i\<close> of the
  message if it is of the own team, and else what it showed before; so does the row after the last
  robot, and only the ones behind it are cleared. The rows of the orders show the own orders among
  as many of the message as there are rows, the rows of the pucks the first own pucks, marked when
  the last message about machines has them at an own machine; the other rows are cleared.
\<close>

theorem rows_after_message:
  "robots (client_msg now (RobotInfo rs) s) =
     map (\<lambda>(r, row). if r_team_color r = sh_team s then robot_update r row else row) (zip rs (robots s)) @
     take 1 (drop (length rs) (robots s)) @ map robot_reset (drop (length rs + 1) (robots s)) \<and>
   orders (client_msg now (OrderInfo ds) s) =
     (let own = filter (\<lambda>d. o_team_color d = sh_team s) (take (length (orders s)) ds) in
      map (\<lambda>(d, row). order_update d row) (zip own (orders s)) @ map order_reset (drop (length own) (orders s))) \<and>
   pucks (client_msg now (PuckInfo ps) s) =
     (let own = take (length (pucks s)) (filter (\<lambda>p. p_team_color p = sh_team s) ps) in
      map (puck_update (sh_team s) (last_minfo s)) own @ replicate (length (pucks s) - length own) puck_reset)"
  (is "?robots \<and> ?orders \<and> ?pucks")
proof -
  let ?rows = "robots s" and ?t = "sh_team s"
  obtain i l where i: "show_robots ?t rs 0 ?rows = (merge_robots ?t rs ?rows, i, l)"
      "i = length rs \<or> length ?rows \<le> i \<and> length ?rows \<le> length rs"
    using show_robots_rows [of 0 "[]" ?t rs ?rows] by auto
  have "length ?rows \<le> length rs \<or> i = length rs \<and> length rs < length ?rows"
    using i(2) by auto
  then have "reset_from (i + 1) robot_reset (merge_robots ?t rs ?rows) =
      map (\<lambda>(r, row). if r_team_color r = ?t then robot_update r row else row) (zip rs ?rows) @
      take 1 (drop (length rs) ?rows) @ map robot_reset (drop (length rs + 1) ?rows)"
    using i(2) by (auto simp: reset_from_def)
  then have robots: ?robots
    using i(1) by (simp add: show_robot_info_def)
  have orders: ?orders
    using show_orders_rows [of 0 "[]" "take (length (orders s)) ds" "orders s" ?t] length_filter_le [of "\<lambda>d. o_team_color d = ?t" "take (length (orders s)) ds"]
    by (auto simp: show_order_info_def reset_from_def Let_def)
  have pucks: ?pucks
  proof (cases "pucks s = []")
    case True
    then show ?thesis
      using show_pucks_none [of ?t "last_minfo s" ps 0] by (auto simp: show_puck_info_def reset_from_def split: prod.splits)
  next
    case False
    then show ?thesis
      using show_pucks_rows [of 0 "[]" "pucks s" ?t "last_minfo s" ps]
      by (auto simp: show_puck_info_def reset_from_def Let_def map_replicate_const)
  qed
  show ?thesis
    using robots orders pucks by blast
qed

section \<open>The message for attention comes and goes\<close>

text \<open>What happens to the message: one from the hub, the timer, its handler, a lost connection.\<close>

datatype attention_event = Attend int string "int option" "team option" | Expire | Run int | Off

fun attention_step :: "team \<Rightarrow> attention_event \<Rightarrow> attention \<Rightarrow> attention" where
  "attention_step t (Attend now msg d color) a = handle_attention now t msg d color a"
| "attention_step t Expire a = attmsg_expire a"
| "attention_step t (Run now) a = attmsg_run now a"
| "attention_step t Off a = attention_off a"

inductive attention_reachable :: "team \<Rightarrow> attention \<Rightarrow> bool" for t where
  attention_start: "attention_reachable t attention_new"
| attention_next: "attention_reachable t a \<Longrightarrow> attention_reachable t (attention_step t e a)"

lemma attention_served: "attention_reachable t a \<Longrightarrow> at_string a \<noteq> [] \<longrightarrow> at_wait a \<or> at_ready a > 0"
proof (induction rule: attention_reachable.induct)
  case (attention_next a e)
  then show ?case
    by (cases e) (auto simp: handle_attention_def attmsg_expire_def attmsg_run_def handle_attmsg_timer_def attention_off_def
        Let_def split: option.splits)
qed (simp add: attention_new_def)

text \<open>
  C35. A message for attention is not forgotten: whenever there is one, the timer is running or its
  handler is about to run, and then the handler shows it and starts the timer again, until the end
  time of the message has passed, when it clears text and screen. But an empty message, which
  should take the text away, stops the timer before it is taken off the screen: unless a handler
  was about to run, the old text stays there.
\<close>

theorem attention_shown_and_cleared:
  assumes "attention_reachable t a" and "at_string a \<noteq> []"
  shows "(\<exists>b \<in> {a, attmsg_expire a}. at_ready b > 0 \<and>
      (let c = attmsg_run now b in
       if \<exists>x. at_endtime a = Some x \<and> x < now then at_string c = [] \<and> at_shown c = []
       else at_string c = at_string a \<and> at_shown c = at_string a \<and> at_wait c)) \<and>
    (at_ready a = 0 \<longrightarrow>
      (let c = handle_attention now t [] d None a in at_shown c = at_shown a \<and> at_string c = [] \<and> \<not> at_wait c \<and> at_ready c = 0))"
proof -
  have run: "let c = attmsg_run now b in
       if \<exists>x. at_endtime a = Some x \<and> x < now then at_string c = [] \<and> at_shown c = []
       else at_string c = at_string a \<and> at_shown c = at_string a \<and> at_wait c"
    if "b \<in> {a, attmsg_expire a}" "at_ready b > 0" for b
    using that assms(2) by (auto simp: attmsg_run_def handle_attmsg_timer_def attmsg_expire_def Let_def split: option.splits if_splits)
  have "\<exists>b \<in> {a, attmsg_expire a}. at_ready b > 0"
    using attention_served [OF assms(1)] assms(2) by (auto simp: attmsg_expire_def)
  then show ?thesis
    using run assms(2) by (auto simp: handle_attention_def Let_def)
qed

definition demo_attention :: attention where
  "demo_attention =
     attention_step CYAN (Run 5) (attention_step CYAN Expire (attention_step CYAN (Attend 4 ''Stop'' (Some 3) None) attention_new))"

theorem attention_shown_and_cleared_witness:
  "at_shown demo_attention = ''Stop'' \<and>
   (let c = handle_attention 6 CYAN [] None None demo_attention in at_shown c = ''Stop'' \<and> at_string c = [] \<and> \<not> at_wait c)"
proof -
  have r: "attention_reachable CYAN demo_attention"
    unfolding demo_attention_def by (intro attention_next attention_start)
  have v: "at_string demo_attention = ''Stop''" "at_shown demo_attention = ''Stop''" "at_ready demo_attention = 0"
    by (simp_all add: demo_attention_def handle_attention_def attmsg_expire_def attmsg_run_def handle_attmsg_timer_def
        attention_new_def)
  show ?thesis
    using attention_shown_and_cleared [OF r, of 6 None] v by (simp add: Let_def)
qed

end
