(* ===== verification/Shell_Menus.thy ===== *)
theory Shell_Menus imports Shell_View
begin

text \<open>
  The menus of the shell, \<open>llsf/shell/menus.cpp\<close>, and what its keys do, \<open>handle_keyboard\<close> of
  \<open>llsf/shell/shell.cpp\<close>: which items a menu offers, what is asked of the hub when one is chosen.
  Where the items stand on the screen is left out, the order they are sorted by is not.
\<close>

section \<open>Menus\<close>

text \<open>
  The user picks an item, or the one that cancels. Sorting permutes the items, so that a choice
  among the sorted ones is a choice among them.
\<close>

definition pick :: "'i list \<Rightarrow> nat option \<Rightarrow> 'i option" where
  "pick items c = (case c of None \<Rightarrow> None | Some i \<Rightarrow> if i < length items then Some (items ! i) else None)"

text \<open>The pucks at the machines of the team: text of the item, machine, puck and its state.\<close>

fun puck_state_name :: "puck_state \<Rightarrow> string" where
  "puck_state_name S0 = ''S0''"
| "puck_state_name S1 = ''S1''"
| "puck_state_name S2 = ''S2''"
| "puck_state_name P1 = ''P1''"
| "puck_state_name P2 = ''P2''"
| "puck_state_name P3 = ''P3''"
| "puck_state_name CONSUMED = ''CONSUMED''"
| "puck_state_name FINISHED = ''FINISHED''"

definition short :: "puck_state \<Rightarrow> string" where
  "short s = take 2 (puck_state_name s)"

type_synonym puck_item = "string \<times> string \<times> 32 word \<times> puck_state"

definition machine_with_puck_items :: "team \<Rightarrow> machine list \<Rightarrow> puck_item list" where
  "machine_with_puck_items t ms =
     concat (map (\<lambda>m.
       (case m_puck_under_rfid m of
          Some p \<Rightarrow> [(''* '' @ m_name m @ '' '' @ short (p_state p), m_name m, p_id p, p_state p)]
        | None \<Rightarrow> []) @
       map (\<lambda>p. (''  '' @ m_name m @ '' '' @ short (p_state p), m_name m, p_id p, p_state p)) (m_loaded_with m))
       (filter (\<lambda>m. m_team_color m = t) ms))"

text \<open>
  The comparisons that sort the items. \<open>stoi\<close> throws when there are no digits; an exception for
  the first text leaves both numbers at zero.
\<close>

definition stoi :: "string \<Rightarrow> int option" where
  "stoi t =
     (let (neg, t1) = scan_sign (dropWhile is_space t); (ds, _) = scan_digits 10 t1 in
      if ds = [] then None else Some (if neg then - int (digits_value 10 ds) else int (digits_value 10 ds)))"

definition item_numbers :: "string \<Rightarrow> string \<Rightarrow> int \<times> int" where
  "item_numbers s1 s2 =
     (case stoi (drop 1 s1) of
        None \<Rightarrow> (0, 0)
      | Some a \<Rightarrow> (a, case stoi (drop 1 s2) of None \<Rightarrow> 0 | Some b \<Rightarrow> b))"

definition kind_before :: "string \<Rightarrow> string \<Rightarrow> bool" where
  "kind_before s1 s2 =
     (let f1 = take 1 s1; f2 = take 1 s2; among = (\<lambda>cs. \<exists>c \<in> set f2. c \<in> set cs) in
      f1 = ''M'' \<and> f2 \<noteq> ''M'' \<or> f1 = ''D'' \<and> \<not> among ''MD'' \<or> f1 = ''T'' \<and> \<not> among ''MDT'' \<or>
      f1 = ''R'' \<and> \<not> among ''MDTR'')"

fun state_number :: "puck_state \<Rightarrow> nat" where
  "state_number S0 = 0"
| "state_number S1 = 1"
| "state_number S2 = 2"
| "state_number P1 = 4"
| "state_number P2 = 5"
| "state_number P3 = 6"
| "state_number CONSUMED = 7"
| "state_number FINISHED = 8"

definition puck_item_before :: "puck_item \<Rightarrow> puck_item \<Rightarrow> bool" where
  "puck_item_before i1 i2 =
     (let (l1, s1, _, st1) = i1; (l2, s2, _, st2) = i2; (n1, n2) = item_numbers s1 s2;
          star1 = (take 1 l1 = ''*''); star2 = (take 1 l2 = ''*'')
      in take 1 s1 = take 1 s2 \<and> (n1 < n2 \<or> n1 = n2 \<and> star1 \<and> \<not> star2 \<or> state_number st1 < state_number st2) \<or>
         kind_before s1 s2)"

definition machine_before :: "string \<Rightarrow> string \<Rightarrow> bool" where
  "machine_before s1 s2 =
     (let (n1, n2) = item_numbers s1 s2 in take 1 s1 = take 1 s2 \<and> n1 < n2 \<or> kind_before s1 s2)"

text \<open>The machines that are offered to take a puck: their places in the message.\<close>

definition free_inputs :: "machine \<Rightarrow> int" where
  "free_inputs m = int (length (m_inputs m)) - int (length (m_loaded_with m))"

definition machine_items :: "team \<Rightarrow> machine list \<Rightarrow> nat list" where
  "machine_items t ms =
     filter (\<lambda>i. m_team_color (ms ! i) = t \<and> (m_puck_under_rfid (ms ! i) = None \<or> free_inputs (ms ! i) > 0))
       [0..<length ms]"

text \<open>The pucks that are offered for a machine: their places in the message.\<close>

definition bound_at :: "machine list \<Rightarrow> puck \<Rightarrow> bool" where
  "bound_at ms p =
     (\<exists>m \<in> set ms. (\<exists>q. m_puck_under_rfid m = Some q \<and> p_id q = p_id p) \<or> (\<exists>q \<in> set (m_loaded_with m). p_id q = p_id p))"

definition state_taken :: "machine \<Rightarrow> puck \<Rightarrow> bool" where
  "state_taken m p =
     ((\<exists>q. m_puck_under_rfid m = Some q \<and> p_state q = p_state p) \<or> (\<exists>q \<in> set (m_loaded_with m). p_state p = p_state q))"

definition relevant_pucks :: "puck list \<Rightarrow> machine list \<Rightarrow> machine \<Rightarrow> team \<Rightarrow> nat list" where
  "relevant_pucks ps ms m t =
     (let rv1 = filter (\<lambda>i. p_team_color (ps ! i) = t) [0..<length ps];
          rv2 = filter (\<lambda>i. \<not> bound_at ms (ps ! i)) rv1;
          rv3 = (if m_inputs m \<noteq> [] then filter (\<lambda>i. p_state (ps ! i) \<in> set (m_inputs m)) rv2 else rv2)
      in filter (\<lambda>i. \<not> state_taken m (ps ! i)) rv3)"

text \<open>Whether to place the puck under the RFID device.\<close>

definition placing_items :: "bool \<Rightarrow> bool \<Rightarrow> bool list" where
  "placing_items can_be_placed_under_rfid can_be_loaded_with =
     (if can_be_placed_under_rfid then [True] else []) @ (if can_be_loaded_with then [False] else [])"

text \<open>The robots: number, and whether they are to be put into maintenance.\<close>

definition robot_items :: "team \<Rightarrow> 'f robot list \<Rightarrow> (32 word \<times> bool) list" where
  "robot_items t rs =
     map (\<lambda>r. (r_number r, r_state r \<noteq> MAINTENANCE \<and> r_state r \<noteq> DISQUALIFIED)) (filter (\<lambda>r. r_team_color r = t) rs)"

definition state_items :: "string list" where
  "state_items = filter (\<lambda>n. n \<noteq> ''INIT'') (map state_name all_states)"

section \<open>Keys\<close>

text \<open>The menus a key opens ask for up to three choices.\<close>

datatype key =
    Key_Space | Key_Q | Key_F2 "nat option" | Key_F3 "nat option" | Key_F4 "nat option"
  | Key_F5 "nat option" "nat option" "nat option" | Key_F7 "nat option" | Key_F9 "nat option" | Key_F12 "nat option"
  | Key_Other

definition can_be_loaded_with :: "machine \<Rightarrow> puck \<Rightarrow> bool" where
  "can_be_loaded_with m p = (free_inputs m > 1 \<and> (\<forall>q \<in> set (m_loaded_with m). p_state p \<noteq> p_state q))"

definition add_puck ::
  "team \<Rightarrow> machine list \<Rightarrow> puck list \<Rightarrow> nat option \<Rightarrow> nat option \<Rightarrow> nat option \<Rightarrow> (machine \<times> puck \<times> bool) option" where
  "add_puck t ms ps c1 c2 c3 =
     (case pick (machine_items t ms) c1 of
        None \<Rightarrow> None
      | Some i \<Rightarrow>
          (case pick (relevant_pucks ps ms (ms ! i) t) c2 of
             None \<Rightarrow> None
           | Some j \<Rightarrow>
               (case pick (placing_items (m_puck_under_rfid (ms ! i) = None) (can_be_loaded_with (ms ! i) (ps ! j))) c3 of
                  None \<Rightarrow> None
                | Some under_rfid \<Rightarrow> Some (ms ! i, ps ! j, under_rfid))))"

fun handle_key :: "key \<Rightarrow> 'f shell \<Rightarrow> 'f shell" where
  "handle_key Key_Space s =
     set_game_state (if sh_state s = ''WAIT_START'' \<or> sh_state s = ''PAUSED'' then ''RUNNING'' else ''PAUSED'') s"
| "handle_key Key_Q s = s\<lparr>stopped := True\<rparr>"
| "handle_key (Key_F2 c) s = (case pick state_items c of Some n \<Rightarrow> set_game_state n s | None \<Rightarrow> s)"
| "handle_key (Key_F3 c) s = (case pick (map phase_name all_phases) c of Some n \<Rightarrow> set_game_phase n s | None \<Rightarrow> s)"
| "handle_key (Key_F4 c) s =
     (case last_gameinfo s of
        None \<Rightarrow> s
      | Some teams \<Rightarrow>
          (case pick (sort teams) c of Some n \<Rightarrow> send_request (SetTeamName n (sh_team s)) s | None \<Rightarrow> s))"
| "handle_key (Key_F5 c1 c2 c3) s =
     (case (last_minfo s, last_pinfo s) of
        (Some ms, Some ps) \<Rightarrow>
          (case add_puck (sh_team s) ms ps c1 c2 c3 of
             Some (m, p, under_rfid) \<Rightarrow>
               if under_rfid
               then send_request (PlacePuckUnderMachine (m_name m) (p_id p))
                 (logf (''Place '' @ puck_state_name (p_state p) @ '' under RFID of '' @ m_name m) s)
               else send_request (LoadPuckInMachine (m_name m) (p_id p))
                 (logf (''Load machine '' @ m_name m @ '' with puck '' @ puck_state_name (p_state p) @ '' ('' @
                   to_string_uint (p_id p) @ '')'') s)
           | None \<Rightarrow> s)
      | _ \<Rightarrow> s)"
| "handle_key (Key_F7 c) s =
     (case last_minfo s of
        None \<Rightarrow> s
      | Some ms \<Rightarrow>
          (case pick (machine_with_puck_items (sh_team s) ms) c of
             Some (_, machine_name, puck_id, _) \<Rightarrow> send_request (RemovePuckFromMachine machine_name puck_id) s
           | None \<Rightarrow> s))"
| "handle_key (Key_F9 c) s =
     (case last_robotinfo s of
        None \<Rightarrow> s
      | Some rs \<Rightarrow>
          (case pick (robot_items (sh_team s) rs) c of
             Some (n, maintenance) \<Rightarrow>
               send_request (SetRobotMaintenance n (sh_team s) maintenance)
                 (logf ((if maintenance then ''En'' else ''Dis'') @ ''abling maintenance of robot '' @ to_string_uint n) s)
           | None \<Rightarrow> s))"
| "handle_key (Key_F12 c) s = (case pick [''CYAN'', ''MAGENTA''] c of Some n \<Rightarrow> set_game_team_color n s | None \<Rightarrow> s)"
| "handle_key Key_Other s = s"

section \<open>A puck that is added fits\<close>

lemma pick_in: "pick items c = Some i \<Longrightarrow> i \<in> set items"
  by (auto simp: pick_def split: option.splits if_splits)

lemma add_puck_fits:
  assumes "add_puck t ms ps c1 c2 c3 = Some (m, p, under_rfid)"
  shows "m \<in> set ms \<and> m_team_color m = t \<and> p \<in> set ps \<and> p_team_color p = t \<and> \<not> bound_at ms p \<and>
    (m_inputs m = [] \<or> p_state p \<in> set (m_inputs m)) \<and> \<not> state_taken m p \<and>
    (if under_rfid then m_puck_under_rfid m = None else free_inputs m > 1)"
proof -
  obtain i j where i: "pick (machine_items t ms) c1 = Some i" "m = ms ! i"
      and j: "pick (relevant_pucks ps ms m t) c2 = Some j" "p = ps ! j"
      and u: "pick (placing_items (m_puck_under_rfid m = None) (can_be_loaded_with m p)) c3 = Some under_rfid"
    using assms by (auto simp: add_puck_def split: option.splits)
  have "i < length ms" "m_team_color m = t"
    using pick_in [OF i(1)] i(2) by (simp_all add: machine_items_def)
  moreover have "j < length ps" "p_team_color p = t" "\<not> bound_at ms p" "m_inputs m = [] \<or> p_state p \<in> set (m_inputs m)"
      "\<not> state_taken m p"
    using pick_in [OF j(1)] j(2) by (auto simp: relevant_pucks_def Let_def split: if_splits)
  moreover have "if under_rfid then m_puck_under_rfid m = None else free_inputs m > 1"
    using pick_in [OF u] by (auto simp: placing_items_def can_be_loaded_with_def split: if_splits)
  ultimately show ?thesis
    using i(2) j(2) by simp
qed

text \<open>
  C32. With F5 the user asks for nothing that does not fit what the hub last reported: the machine
  and the puck are of the own team, the puck is at no machine, the machine takes pucks in its
  state and has none, and either nothing is under the RFID device or more than one input is free.
  Therefore a machine with a puck under the device and one free input, which the menu offers, can
  not be loaded: whatever is chosen, nothing is asked for.
\<close>

theorem added_puck_fits:
  assumes "last_minfo s = Some ms" and "last_pinfo s = Some ps" and "online s"
  shows "(requests (handle_key (Key_F5 c1 c2 c3) s) = requests s \<or>
      (\<exists>m \<in> set ms. \<exists>p \<in> set ps. m_team_color m = sh_team s \<and> p_team_color p = sh_team s \<and> \<not> bound_at ms p \<and>
        (m_inputs m = [] \<or> p_state p \<in> set (m_inputs m)) \<and> \<not> state_taken m p \<and>
        (m_puck_under_rfid m = None \<and>
           requests (handle_key (Key_F5 c1 c2 c3) s) = requests s @ [PlacePuckUnderMachine (m_name m) (p_id p)] \<or>
         free_inputs m > 1 \<and>
           requests (handle_key (Key_F5 c1 c2 c3) s) = requests s @ [LoadPuckInMachine (m_name m) (p_id p)]))) \<and>
    (\<forall>i. pick (machine_items (sh_team s) ms) c1 = Some i \<and> m_puck_under_rfid (ms ! i) \<noteq> None \<and> free_inputs (ms ! i) = 1 \<longrightarrow>
      handle_key (Key_F5 c1 c2 c3) s = s)"
proof (cases "add_puck (sh_team s) ms ps c1 c2 c3")
  case None
  then show ?thesis
    using assms by simp
next
  case (Some r)
  then obtain m p under_rfid where r: "add_puck (sh_team s) ms ps c1 c2 c3 = Some (m, p, under_rfid)"
    by (cases r) auto
  note fits = add_puck_fits [OF r]
  have "\<not> (m_puck_under_rfid (ms ! i) \<noteq> None \<and> free_inputs (ms ! i) = 1)" if "pick (machine_items (sh_team s) ms) c1 = Some i" for i
    using r that fits by (auto simp: add_puck_def split: option.splits if_splits)
  moreover have "requests (handle_key (Key_F5 c1 c2 c3) s) =
      requests s @ [if under_rfid then PlacePuckUnderMachine (m_name m) (p_id p) else LoadPuckInMachine (m_name m) (p_id p)]"
    using r assms by (simp add: send_request_def logf_def)
  ultimately show ?thesis
    using fits by (cases under_rfid) auto
qed

section \<open>The order of the items\<close>

lemma stoi_nat_digits: "stoi (nat_digits n) = Some (int n)"
  using scan_nat_digits [of n] scan_digits_nonempty [of n]
  by (cases "scan_digits 10 (nat_digits n)") (simp add: stoi_def drop_space_nat_digits scan_sign_nat_digits)

text \<open>
  The comparison that sorts the items of F7 is no order: of two machines with pucks, the first
  is before the second because of its number, and the second before the first because of the
  state of its puck. \<open>std::sort\<close> has no meaning for such a comparison. That of F5 puts them in the
  order of their numbers.
\<close>

theorem puck_items_not_ordered:
  assumes "m1 \<in> set ms" and "m_team_color m1 = t" and "m_name m1 = CHR ''M'' # nat_digits a" and "m_puck_under_rfid m1 = Some q1"
    and "m2 \<in> set ms" and "m_team_color m2 = t" and "m_name m2 = CHR ''M'' # nat_digits b" and "m_puck_under_rfid m2 = Some q2"
    and "a < b" and "state_number (p_state q2) < state_number (p_state q1)"
  shows "(\<exists>i1 \<in> set (machine_with_puck_items t ms). \<exists>i2 \<in> set (machine_with_puck_items t ms).
      fst (snd i1) = m_name m1 \<and> fst (snd i2) = m_name m2 \<and> puck_item_before i1 i2 \<and> puck_item_before i2 i1) \<and>
    machine_before (m_name m1) (m_name m2) \<and> \<not> machine_before (m_name m2) (m_name m1)"
proof -
  let ?i1 = "(''* '' @ m_name m1 @ '' '' @ short (p_state q1), m_name m1, p_id q1, p_state q1)"
  let ?i2 = "(''* '' @ m_name m2 @ '' '' @ short (p_state q2), m_name m2, p_id q2, p_state q2)"
  have "?i1 \<in> set (machine_with_puck_items t ms)" "?i2 \<in> set (machine_with_puck_items t ms)"
    using assms(1,2,4,5,6,8) by (force simp: machine_with_puck_items_def)+
  moreover have "puck_item_before ?i1 ?i2" "puck_item_before ?i2 ?i1"
    using assms(3,7,9,10) by (simp_all add: puck_item_before_def item_numbers_def stoi_nat_digits)
  moreover have "machine_before (m_name m1) (m_name m2)" "\<not> machine_before (m_name m2) (m_name m1)"
    using assms(3,7,9) by (simp_all add: machine_before_def item_numbers_def stoi_nat_digits kind_before_def)
  ultimately show ?thesis
    by (intro conjI bexI [of _ ?i1] bexI [of _ ?i2]) simp_all
qed

section \<open>Examples\<close>

definition demo_machine :: "string \<Rightarrow> puck option \<Rightarrow> puck list \<Rightarrow> machine" where
  "demo_machine n q l =
     \<lparr>m_name = n, m_type = ''T2'', m_team_color = CYAN, m_inputs = [S0, S1], m_loaded_with = l, m_puck_under_rfid = q,
      m_lights = [], m_correctly_reported = None\<rparr>"

definition demo_puck :: "32 word \<Rightarrow> puck_state \<Rightarrow> puck" where
  "demo_puck i s = \<lparr>p_id = i, p_state = s, p_team_color = CYAN\<rparr>"

definition demo_shell :: "nat shell" where
  "demo_shell =
     \<lparr>sh_team = CYAN, sh_state = [], p_state_text = [], p_phase_text = [], p_time_text = [], p_points_text = [], p_team_text = [],
      nav_text = [], robots = [], orders = [], pucks = [], machines = [],
      last_minfo = Some [demo_machine ''M1'' None [], demo_machine ''M2'' (Some (demo_puck 3 P1)) [demo_puck 4 S1]],
      last_pinfo = Some [demo_puck 4 S1, demo_puck 7 S0], last_gameinfo = None, last_robotinfo = None, attmsg = attention_new,
      sh_log = [], online = True, requests = [], stopped = False, quit = False, reconnect_wait = False, connects = 1\<rparr>"

theorem added_puck_fits_witness:
  "requests (handle_key (Key_F5 (Some 0) (Some 0) (Some 1)) demo_shell) = [LoadPuckInMachine ''M1'' 7] \<and>
   handle_key (Key_F5 (Some 1) (Some 0) (Some 0)) demo_shell = demo_shell"
proof -
  let ?ms = "[demo_machine ''M1'' None [], demo_machine ''M2'' (Some (demo_puck 3 P1)) [demo_puck 4 S1]]"
  have s: "last_minfo demo_shell = Some ?ms" "last_pinfo demo_shell = Some [demo_puck 4 S1, demo_puck 7 S0]"
      "online demo_shell" "sh_team demo_shell = CYAN" "requests demo_shell = []"
    by (simp_all add: demo_shell_def)
  have items: "machine_items CYAN ?ms = [0, 1]"
    by (simp add: machine_items_def demo_machine_def free_inputs_def)
  have "add_puck CYAN ?ms [demo_puck 4 S1, demo_puck 7 S0] (Some 0) (Some 0) (Some 1) =
      Some (demo_machine ''M1'' None [], demo_puck 7 S0, False)"
    using items by (simp add: add_puck_def pick_def relevant_pucks_def bound_at_def state_taken_def placing_items_def
        can_be_loaded_with_def demo_machine_def demo_puck_def free_inputs_def)
  moreover have "pick (machine_items CYAN ?ms) (Some 1) = Some 1"
    by (simp only: items) (simp add: pick_def)
  moreover have "m_puck_under_rfid (?ms ! 1) \<noteq> None" "free_inputs (?ms ! 1) = 1"
    by (simp_all add: demo_machine_def free_inputs_def)
  ultimately show ?thesis
    using added_puck_fits [OF s(1,2,3), of "Some 1" "Some 0" "Some 0"] s
    by (auto simp: send_request_def logf_def demo_machine_def demo_puck_def)
qed

theorem puck_items_not_ordered_witness:
  "machine_before ''M1'' ''M12'' \<and>
   (\<exists>i1 i2. fst (snd i1) = ''M1'' \<and> fst (snd i2) = ''M12'' \<and> puck_item_before i1 i2 \<and> puck_item_before i2 i1)"
proof -
  let ?m1 = "demo_machine ''M1'' (Some (demo_puck 3 P1)) []" and ?m2 = "demo_machine ''M12'' (Some (demo_puck 4 S1)) []"
  have n: "''M1'' = CHR ''M'' # nat_digits 1" "''M12'' = CHR ''M'' # nat_digits 12"
    by code_simp+
  have nm: "m_name ?m1 = ''M1''" "m_name ?m2 = ''M12''"
    by (simp_all add: demo_machine_def)
  have "(\<exists>i1 \<in> set (machine_with_puck_items CYAN [?m1, ?m2]). \<exists>i2 \<in> set (machine_with_puck_items CYAN [?m1, ?m2]).
      fst (snd i1) = m_name ?m1 \<and> fst (snd i2) = m_name ?m2 \<and> puck_item_before i1 i2 \<and> puck_item_before i2 i1) \<and>
    machine_before (m_name ?m1) (m_name ?m2) \<and> \<not> machine_before (m_name ?m2) (m_name ?m1)"
    by (rule puck_items_not_ordered [of ?m1 "[?m1, ?m2]" CYAN 1 "demo_puck 3 P1" ?m2 12 "demo_puck 4 S1"])
      (simp_all only: nm n, simp_all add: demo_machine_def demo_puck_def)
  then show ?thesis
    unfolding nm by blast
qed

end
