(* ===== verification/Thread_Self.thy ===== *)
theory Thread_Self imports Threads
begin

text \<open>
  The rest of \<open>src/libs/core/threading/thread.cpp\<close>: how a thread finds its own object (data of
  the kernel thread under a key of the process), the start of a thread with both sides of it,
  \<open>exit\<close> and the default of \<open>loop\<close>, and \<open>wait_loop_done\<close>.
\<close>

section \<open>Which thread am I\<close>

text \<open>
  The process: whether the key exists, whether its mutex is held, the object of each kernel
  thread, and the objects, with the name and the number of their kernel thread.
\<close>

record self_state =
  thread_key :: bool
  key_mutex :: bool
  tsd :: "nat \<Rightarrow> nat option"
  objects :: "nat \<Rightarrow> (thread \<times> nat) option"

definition MAIN_THREAD_NAME :: string where
  "MAIN_THREAD_NAME = ''__MainThread__''"

text \<open>
  \<open>None\<close> when the call waits for the mutex for ever; \<open>err\<close> is the result of
  \<open>pthread_key_create\<close>. An exception leaves the mutex locked.
\<close>

definition ENOMEM :: nat where
  "ENOMEM = 12"

definition init_thread_key :: "nat \<Rightarrow> self_state \<Rightarrow> self_state mutation option" where
  "init_thread_key err s =
     (if key_mutex s then None
      else if thread_key s then Some (ok s)
      else if err = 0 then Some (ok (s\<lparr>thread_key := True\<rparr>))
      else if err = ENOMEM then
        Some (throwing (FawkesException ''Could not create key for thread specific data (reference to thread)'')
          (s\<lparr>key_mutex := True\<rparr>))
      else
        Some (throwing (FawkesException ''Thread key for reference to thread could not be created'')
          (s\<lparr>key_mutex := True\<rparr>)))"

text \<open>The constructors: a new object at \<open>i\<close>, for the kernel thread \<open>n\<close> (0 when it is not started).\<close>

definition construct :: "nat \<Rightarrow> nat \<Rightarrow> thread \<Rightarrow> nat \<Rightarrow> self_state \<Rightarrow> self_state mutation option" where
  "construct err i t n s =
     (case init_thread_key err s of
        None \<Rightarrow> None
      | Some r \<Rightarrow> Some (andThen r (\<lambda>s1. ok (s1\<lparr>objects := (objects s1)(i \<mapsto> (t, n))\<rparr>))))"

text \<open>\<open>pthread_setspecific\<close> fails with \<open>err\<close>.\<close>

definition set_tsd_thread_instance :: "nat \<Rightarrow> nat \<Rightarrow> nat \<Rightarrow> self_state \<Rightarrow> self_state mutation" where
  "set_tsd_thread_instance err n i s =
     (if err = 0 then ok (s\<lparr>tsd := (tsd s)(n \<mapsto> i)\<rparr>)
      else if err = ENOMEM then throwing (FawkesException ''Could not set specific data (reference to thread)'') s
      else throwing (FawkesException ''Could not set specific data (reference to thread), unknown reason'') s)"

definition init_main :: "nat \<Rightarrow> nat \<Rightarrow> nat \<Rightarrow> nat \<Rightarrow> bool \<Rightarrow> self_state \<Rightarrow> self_state mutation option" where
  "init_main err err2 n i det s =
     (case init_thread_key err s of
        None \<Rightarrow> None
      | Some r \<Rightarrow>
          if snd r \<noteq> None then Some r
          else case construct err i (thread_new det MAIN_THREAD_NAME OPMODE_CONTINUOUS) n (fst r) of
            None \<Rightarrow> None
          | Some r2 \<Rightarrow> Some (andThen r2 (set_tsd_thread_instance err2 n i)))"

definition current_thread :: "nat \<Rightarrow> self_state \<Rightarrow> nat option result" where
  "current_thread n s =
     (if thread_key s then Inr (tsd s n) else Inl (FawkesException ''No thread has been initialized''))"

definition current_thread_noexc :: "nat \<Rightarrow> self_state \<Rightarrow> nat option" where
  "current_thread_noexc n s = (if thread_key s then tsd s n else None)"

text \<open>A kernel thread without an object has no name to compare.\<close>

definition destroy_main :: "nat \<Rightarrow> self_state \<Rightarrow> self_state mutation" where
  "destroy_main n s =
     (case current_thread n s of
        Inl x \<Rightarrow> throwing x s
      | Inr None \<Rightarrow> throwing (UndefinedBehaviour ''name of a null pointer'') s
      | Inr (Some i) \<Rightarrow>
          (case objects s i of
             None \<Rightarrow> throwing (UndefinedBehaviour ''the thread was deleted'') s
           | Some (t, _) \<Rightarrow>
               if tname t = MAIN_THREAD_NAME then ok (s\<lparr>objects := (objects s)(i := None)\<rparr>)
               else throwing (FawkesException ''Main thread can only be destroyed in main thread'') s))"

text \<open>\<open>exit\<close> writes to the object after it was deleted; the default of \<open>loop\<close> does not.\<close>

definition thread_exit :: "nat \<Rightarrow> self_state \<Rightarrow> self_state mutation" where
  "thread_exit i s =
     (case objects s i of
        None \<Rightarrow> throwing (UndefinedBehaviour ''the thread was deleted'') s
      | Some (t, n) \<Rightarrow>
          if delete_on_exit t
          then throwing (UndefinedBehaviour ''the thread was deleted'') (s\<lparr>objects := (objects s)(i := None)\<rparr>)
          else ok (s\<lparr>objects := (objects s)(i \<mapsto> (t\<lparr>cancelled := True\<rparr>, n))\<rparr>))"

definition default_loop :: "nat \<Rightarrow> self_state \<Rightarrow> self_state mutation" where
  "default_loop i s =
     (case objects s i of
        None \<Rightarrow> throwing (UndefinedBehaviour ''the thread was deleted'') s
      | Some (t, n) \<Rightarrow> ok (if delete_on_exit t then s\<lparr>objects := (objects s)(i := None)\<rparr> else s))"

text \<open>The new state, and the old one where there was a place for it.\<close>

datatype cancel_state = CANCEL_ENABLED | CANCEL_DISABLED

definition set_cancel_state :: "cancel_state \<Rightarrow> bool \<Rightarrow> cancel_state \<Rightarrow> cancel_state \<times> cancel_state option" where
  "set_cancel_state new_state wanted current = (new_state, if wanted then Some current else None)"

text \<open>
  After the key could not be made, the first one who needs it gets the exception; whoever needs it
  then waits for ever, however the operating system feels by then.
\<close>

lemma failed_key_blocks:
  assumes "\<not> key_mutex s" and "\<not> thread_key s" and "err \<noteq> 0"
  shows "\<exists>s' x. construct err i t n s = Some (throwing x s') \<and> objects s' = objects s \<and>
    construct err' j u k s' = None \<and> init_main err' err2 n j det s' = None"
  using assms by (auto simp: construct_def init_main_def init_thread_key_def)

text \<open>The main thread, once destroyed, is still the current one.\<close>

lemma destroyed_main_current:
  assumes "\<not> key_mutex s"
  shows "\<exists>s1 s2. init_main 0 0 n i det s = Some (ok s1) \<and> current_thread n s1 = Inr (Some i) \<and>
    destroy_main n s1 = ok s2 \<and> current_thread n s2 = Inr (Some i) \<and> objects s2 i = None"
  using assms
  by (auto simp: init_main_def construct_def init_thread_key_def set_tsd_thread_instance_def current_thread_def
      destroy_main_def thread_new_def)

section \<open>The start of a thread\<close>

text \<open>\<open>start\<close> and \<open>entry\<close>, up to \<open>run\<close>; the barrier of the start lets both pass at once.\<close>

datatype starter_pc = S_Create | S_Barrier | S_Returned

datatype entry_pc = E_None | E_Set | E_Lock | E_Notify | E_Barrier | E_Once | E_Run

record starting =
  st_thread :: thread
  st_wait :: bool
  starter :: starter_pc
  entering :: entry_pc
  st_own :: bool
  sleep_held :: bool
  told :: bool

definition start_call :: "bool \<Rightarrow> thread \<Rightarrow> starting" where
  "start_call w t =
     \<lparr>st_thread = t, st_wait = w, starter = S_Create, entering = E_None, st_own = False, sleep_held = False, told = False\<rparr>"

inductive start_step :: "(nat \<Rightarrow> bool) \<Rightarrow> starting \<Rightarrow> starting \<Rightarrow> bool" for keep where
  create: "starter s = S_Create \<Longrightarrow> thread_start True (st_thread s) = ok t \<Longrightarrow>
     start_step keep s (s\<lparr>st_thread := t, starter := if st_wait s then S_Barrier else S_Returned, entering := E_Set\<rparr>)"
| own: "entering s = E_Set \<Longrightarrow> start_step keep s (s\<lparr>st_own := True, entering := E_Lock\<rparr>)"
| lock_sleep_mutex: "entering s = E_Lock \<Longrightarrow>
     start_step keep s (s\<lparr>sleep_held := (op_mode (st_thread s) = OPMODE_WAITFORWAKEUP), entering := E_Notify\<rparr>)"
| notify_startup: "entering s = E_Notify \<Longrightarrow>
     start_step keep s (s\<lparr>st_thread := notify_of_startup keep (st_thread s), told := True,
                          entering := if st_wait s then E_Barrier else E_Once\<rparr>)"
| meet: "starter s = S_Barrier \<Longrightarrow> entering s = E_Barrier \<Longrightarrow>
     start_step keep s (s\<lparr>starter := S_Returned, entering := E_Once\<rparr>)"
| once: "entering s = E_Once \<Longrightarrow> start_step keep s (s\<lparr>entering := E_Run\<rparr>)"

inductive start_reachable :: "(nat \<Rightarrow> bool) \<Rightarrow> bool \<Rightarrow> thread \<Rightarrow> starting \<Rightarrow> bool" for keep w t where
  start_begin: "start_reachable keep w t (start_call w t)"
| start_on: "start_reachable keep w t s \<Longrightarrow> start_step keep s s' \<Longrightarrow> start_reachable keep w t s'"

inductive_cases start_stepE: "start_step keep s s'"

definition start_inv :: "bool \<Rightarrow> thread \<Rightarrow> starting \<Rightarrow> bool" where
  "start_inv w t s \<longleftrightarrow>
     st_wait s = w \<and> op_mode (st_thread s) = op_mode t \<and>
     (starter s = S_Create \<longrightarrow> st_thread s = t) \<and> (starter s = S_Create \<longleftrightarrow> entering s = E_None) \<and>
     (starter s = S_Barrier \<longrightarrow> w \<and> entering s \<notin> {E_Once, E_Run}) \<and>
     (w \<and> starter s = S_Returned \<longrightarrow> entering s \<in> {E_Once, E_Run}) \<and>
     (entering s \<in> {E_Once, E_Run, E_Barrier} \<longrightarrow>
        st_own s \<and> told s \<and> (op_mode t = OPMODE_WAITFORWAKEUP \<longrightarrow> sleep_held s)) \<and>
     (entering s = E_Barrier \<longrightarrow> w) \<and> (entering s = E_Notify \<longrightarrow> st_own s \<and> (op_mode t = OPMODE_WAITFORWAKEUP \<longrightarrow> sleep_held s)) \<and>
     (entering s = E_Lock \<longrightarrow> st_own s)"

lemma start_reachable_inv: "start_reachable keep w t s \<Longrightarrow> start_inv w t s"
proof (induction rule: start_reachable.induct)
  case (start_on s s')
  from start_on(2,3) show ?case
    by (cases rule: start_step.cases) (auto simp: start_inv_def thread_start_def notify_of_startup_def split: if_splits)
qed (simp add: start_inv_def start_call_def)

text \<open>The steps of the two sides that are left.\<close>

definition steps_left :: "starting \<Rightarrow> nat" where
  "steps_left s =
     (case entering s of E_None \<Rightarrow> 6 | E_Set \<Rightarrow> 5 | E_Lock \<Rightarrow> 4 | E_Notify \<Rightarrow> 3 | E_Barrier \<Rightarrow> 2 | E_Once \<Rightarrow> 1 | E_Run \<Rightarrow> 0)"

text \<open>
  A call that waits for the start returns only when the new thread knows its own object, has told
  its listeners and, if it waits for wakeups, holds the mutex it sleeps with. It does return, and
  the thread reaches \<open>run\<close>: as long as they have not, one of the two can go on, and each step
  brings them nearer.
\<close>

theorem start_waits_for_thread:
  assumes "start_reachable keep w t s" and "\<not> started t"
  shows "(w \<and> starter s = S_Returned \<longrightarrow>
      st_own s \<and> told s \<and> (op_mode t = OPMODE_WAITFORWAKEUP \<longrightarrow> sleep_held s)) \<and>
    (entering s = E_Run \<longrightarrow> starter s = S_Returned) \<and>
    (entering s \<noteq> E_Run \<longrightarrow> (\<exists>s'. start_step keep s s')) \<and>
    (\<forall>s'. start_step keep s s' \<longrightarrow> steps_left s' < steps_left s)"
proof -
  have inv: "start_inv w t s"
    by (rule start_reachable_inv [OF assms(1)])
  have "\<exists>s'. start_step keep s s'" if "entering s \<noteq> E_Run"
  proof (cases "entering s")
    case E_None
    then have "starter s = S_Create" "st_thread s = t"
      using inv by (simp_all add: start_inv_def)
    then show ?thesis
      using create [of s "t\<lparr>cancelled := False, detached := False, started := True\<rparr>"] assms(2) by (auto simp: thread_start_def)
  next
    case E_Barrier
    then have "starter s = S_Barrier"
      using inv by (cases "starter s") (auto simp: start_inv_def)
    then show ?thesis
      using meet E_Barrier by blast
  qed (use that in \<open>blast intro: own lock_sleep_mutex notify_startup once\<close>)+
  moreover have "steps_left s' < steps_left s" if "start_step keep s s'" for s'
    using that inv by (cases rule: start_step.cases) (auto simp: steps_left_def start_inv_def)
  ultimately show ?thesis
    using inv by (cases "starter s") (auto simp: start_inv_def)
qed

section \<open>Waiting for the end of the loop\<close>

text \<open>\<open>wait_loop_done\<close> returns when it sees \<open>__loop_done\<close>.\<close>

definition wait_loop_done :: "running \<Rightarrow> bool" where
  "wait_loop_done r = loop_done (thr r)"

lemma loop_done_reachable: "run_reachable r \<Longrightarrow> wait_loop_done r \<longleftrightarrow> at r \<noteq> P_LOOP"
proof (induction rule: run_reachable.induct)
  case (run_start det nm mode t)
  then show ?case
    by (auto simp: wait_loop_done_def thread_start_def thread_new_def run_entry_def)
next
  case (run_by r r')
  from run_by(2,3) show ?case
    by (cases rule: run_step.cases) (auto simp: wait_loop_done_def)
next
  case (run_other r r')
  from run_other(2,3) show ?case
    by (cases rule: other_step.cases)
      (auto simp: wait_loop_done_def wakeup_def wakeup_barrier_def thread_prepare_finalize_def thread_cancel_finalize_def
        thread_set_prepfin_hold_def set_flags_def ok_def throwing_def split: if_splits)
qed

text \<open>
  Waiting for the end of the loop returns exactly when the thread is not inside \<open>loop()\<close>. So it
  waits for a loop that has begun, but not for one that was asked for: who wakes a sleeping
  thread up and waits right away is not kept, and the loop has not run.
\<close>

theorem wait_loop_done_exact:
  assumes "run_reachable r"
  shows "(wait_loop_done r \<longleftrightarrow> at r \<noteq> P_LOOP) \<and>
    (at r \<in> {P_INIT, P_SLEEP} \<and> op_mode (thr r) = OPMODE_WAITFORWAKEUP \<and> \<not> coalesce_wakeups (thr r) \<and> barrier (thr r) = None \<longrightarrow>
      (\<exists>r'. other_step r r' \<and> woken r' = woken r + 1 \<and> pending_wakeups (thr r') > 0 \<and> loops r' = loops r \<and> wait_loop_done r'))"
proof -
  have "\<exists>r'. other_step r r' \<and> woken r' = woken r + 1 \<and> pending_wakeups (thr r') > 0 \<and> loops r' = loops r \<and> wait_loop_done r'"
    if "at r \<in> {P_INIT, P_SLEEP}" "op_mode (thr r) = OPMODE_WAITFORWAKEUP" "\<not> coalesce_wakeups (thr r)" "barrier (thr r) = None"
  proof -
    let ?t = "(thr r)\<lparr>pending_wakeups := pending_wakeups (thr r) + 1, waiting_for_wakeup := False\<rparr>"
    have "other_step r (r\<lparr>thr := ?t, woken := woken r + 1\<rparr>)"
      using that by (intro woken_up) (simp_all add: wakeup_def)
    moreover have "loop_done (thr r)"
      using loop_done_reachable [OF assms] that(1) by (auto simp: wait_loop_done_def)
    ultimately show ?thesis
      by (intro exI [of _ "r\<lparr>thr := ?t, woken := woken r + 1\<rparr>"]) (simp add: wait_loop_done_def)
  qed
  then show ?thesis
    using loop_done_reachable [OF assms] by blast
qed

theorem wait_loop_done_exact_witness:
  "wait_loop_done demo_run \<and>
   (\<exists>r'. other_step demo_run r' \<and> woken r' = 2 \<and> loops r' = 1 \<and> wait_loop_done r')"
proof -
  have d: "at demo_run = P_SLEEP" "op_mode (thr demo_run) = OPMODE_WAITFORWAKEUP" "\<not> coalesce_wakeups (thr demo_run)"
      "barrier (thr demo_run) = None" "woken demo_run = 1" "loops demo_run = 1"
    by (simp_all add: demo_run_def demo_thread_def thread_new_def run_entry_def)
  show ?thesis
    using wait_loop_done_exact [OF demo_reachable] d by auto
qed

end
